(* ===== verification/Opu_Prelude.thy ===== *)
theory Opu_Prelude
  imports Main "HOL-Library.Word"
begin

unbundle bit_operations_syntax

text \<open>
  Shared vocabulary of the development: the widths of the C integer types, the errno
  values the driver returns, the kernel's bit-map and rounding helpers, and the interface
  of a slot allocator (a bounded pool of small integers), which the queue slots, the
  doorbells, the SDMA queues and the hardware queue descriptors of the driver all provide.
\<close>

section \<open>C types, error codes and rounding\<close>

type_synonym u8 = "8 word"
type_synonym u16 = "16 word"
type_synonym u32 = "32 word"
type_synonym u64 = "64 word"

abbreviation EPERM :: int where "EPERM \<equiv> 1"
abbreviation EINTR :: int where "EINTR \<equiv> 4"
abbreviation EIO :: int where "EIO \<equiv> 5"
abbreviation ENOMEM :: int where "ENOMEM \<equiv> 12"
abbreviation EFAULT :: int where "EFAULT \<equiv> 14"
abbreviation EBUSY :: int where "EBUSY \<equiv> 16"
abbreviation ENODEV :: int where "ENODEV \<equiv> 19"
abbreviation EINVAL :: int where "EINVAL \<equiv> 22"
abbreviation ENOSPC :: int where "ENOSPC \<equiv> 28"
abbreviation ETIME :: int where "ETIME \<equiv> 62"
abbreviation ERESTARTSYS :: int where "ERESTARTSYS \<equiv> 512"

text \<open>The page sz of the platform, and the kernel's \<open>roundup\<close> and \<open>rounddown\<close> macros on
  64-bit operands.\<close>

abbreviation PAGE_SIZE :: u64 where "PAGE_SIZE \<equiv> 4096"

definition roundup :: "u64 \<Rightarrow> u64 \<Rightarrow> u64" where
  "roundup x y = ((x + (y - 1)) div y) * y"

definition rounddown :: "u64 \<Rightarrow> u64 \<Rightarrow> u64" where
  "rounddown x y = x - (x mod y)"

named_theorems opu_defs \<open>definitions of the model that component proofs unfold\<close>
named_theorems opu_frame \<open>what an operation leaves unchanged\<close>

section \<open>Words as numbers\<close>

lemma unat_mult_fits:
  fixes a b :: "'w::len word"
  assumes "unat a * unat b < 2 ^ LENGTH('w)"
  shows "unat (a * b) = unat a * unat b"
  using assms by (simp add: unat_word_ariths)

lemma unat_add_fits:
  fixes a b :: "'w::len word"
  assumes "unat a + unat b < 2 ^ LENGTH('w)"
  shows "unat (a + b) = unat a + unat b"
  using assms by (simp add: unat_word_ariths)

lemma unat_sub_le:
  fixes a b :: "'w::len word"
  assumes "unat b \<le> unat a"
  shows "unat (a - b) = unat a - unat b"
  using assms by (simp add: unat_sub word_le_nat_alt)

lemma unat_of_nat_fits: "n < 2 ^ LENGTH('w) \<Longrightarrow> unat (of_nat n :: 'w::len word) = n"
  by (simp add: unat_of_nat)

lemma word_div_of_nat: "(a :: 'w::len word) div b = of_nat (unat a div unat b)"
proof -
  have "of_nat (unat (a div b)) = a div b" by simp
  then show ?thesis by (simp add: unat_div)
qed

lemma unat_two_power: "n < LENGTH('w) \<Longrightarrow> unat (2 ^ n :: 'w::len word) = 2 ^ n"
proof -
  assume "n < LENGTH('w)"
  then have "(2::nat) ^ n < 2 ^ LENGTH('w)" by simp
  moreover have "(2 ^ n :: 'w word) = of_nat (2 ^ n)" by simp
  ultimately show ?thesis by (metis unat_of_nat mod_less)
qed

lemma unat_ucast_u32 [simp]: "unat (ucast (x :: u32) :: u64) = unat x"
proof -
  have "unat x < 2 ^ LENGTH(32)" by (rule unsigned_less)
  then have "unat x < 2 ^ 64" by simp
  then show ?thesis by (simp add: unsigned_ucast_eq take_bit_nat_eq_self)
qed

lemma unat_ucast_u64_le: "unat (ucast (x :: u64) :: u32) \<le> unat x"
  by (simp add: unsigned_ucast_eq take_bit_eq_mod)

lemma unat_ucast_u64 : "unat x < 2 ^ 32 \<Longrightarrow> unat (ucast (x :: u64) :: u32) = unat x"
  by (simp add: unsigned_ucast_eq take_bit_eq_mod)

lemma unat_rounddown:
  "unat (rounddown x y) = unat x - unat x mod unat y"
  by (simp add: rounddown_def unat_sub_le unat_mod mod_less_eq_dividend)

lemma unat_rounddown_div: "unat (rounddown x y) = (unat x div unat y) * unat y"
  by (simp add: unat_rounddown minus_mod_eq_div_mult)

lemma unat_roundup:
  assumes "y \<noteq> 0" and "unat x + (unat y - 1) < 2 ^ 64"
  shows "unat (roundup x y) = (unat x + (unat y - 1)) div unat y * unat y"
proof -
  have y: "0 < unat y" using assms(1) by (simp add: unat_gt_0)
  have one: "unat (y - 1) = unat y - 1"
    using y by (subst unat_sub_le) auto
  have sum: "unat (x + (y - 1)) = unat x + (unat y - 1)"
    using assms(2) one by (subst unat_add_fits) auto
  have "(unat x + (unat y - 1)) div unat y * unat y \<le> unat x + (unat y - 1)"
    by (rule div_times_less_eq_dividend)
  then have "(unat x + (unat y - 1)) div unat y * unat y < 2 ^ 64"
    using assms(2) by (rule le_less_trans)
  then show ?thesis
    unfolding roundup_def by (subst unat_mult_fits) (simp_all add: sum unat_div)
qed

lemma roundup_bounds:
  assumes "y \<noteq> 0" and "unat x + (unat y - 1) < 2 ^ 64"
  shows "unat x \<le> unat (roundup x y)" and "unat (roundup x y) < unat x + unat y"
    and "unat y dvd unat (roundup x y)"
proof -
  have y: "0 < unat y" using assms(1) by (simp add: unat_gt_0)
  let ?s = "unat x + (unat y - 1)"
  have eq: "unat (roundup x y) = ?s - ?s mod unat y"
    by (simp add: unat_roundup [OF assms] minus_mod_eq_div_mult)
  have m: "?s mod unat y < unat y" "?s mod unat y \<le> ?s" using y by auto
  show "unat x \<le> unat (roundup x y)" using eq m y by linarith
  show "unat (roundup x y) < unat x + unat y" using eq m y by linarith
  show "unat y dvd unat (roundup x y)" by (simp add: unat_roundup [OF assms])
qed

section \<open>Bit maps\<close>

text \<open>
  A bit map of the kernel is an array of longs. It is modelled as the predicate of its set
  bits; an index at or past the array's length is memory that belongs to somebody else, and
  the model keeps such writes visible instead of hiding them.
\<close>

type_synonym bitmap = "nat \<Rightarrow> bool"

definition set_bit_at :: "nat \<Rightarrow> bitmap \<Rightarrow> bitmap" where
  "set_bit_at i bm = bm(i := True)"

definition clear_bit_at :: "nat \<Rightarrow> bitmap \<Rightarrow> bitmap" where
  "clear_bit_at i bm = bm(i := False)"

declare set_bit_at_def [opu_defs] clear_bit_at_def [opu_defs]

function find_next_zero_bit :: "bitmap \<Rightarrow> nat \<Rightarrow> nat \<Rightarrow> nat" where
  "find_next_zero_bit bm sz i =
     (if sz \<le> i then sz else if \<not> bm i then i else find_next_zero_bit bm sz (Suc i))"
  by pat_completeness auto
termination
  by (relation "measure (\<lambda>(bm, sz, i). sz - i)") auto

declare find_next_zero_bit.simps [simp del]

definition find_first_zero_bit :: "bitmap \<Rightarrow> nat \<Rightarrow> nat" where
  "find_first_zero_bit bm sz = find_next_zero_bit bm sz 0"

lemma find_next_zero_bit_end [simp]: "find_next_zero_bit bm sz sz = sz"
  by (subst find_next_zero_bit.simps) simp

lemma find_next_zero_bit_le: "find_next_zero_bit bm sz i \<le> sz"
proof (induction bm sz i rule: find_next_zero_bit.induct)
  case (1 bm sz i)
  then show ?case by (subst find_next_zero_bit.simps) auto
qed

lemma find_next_zero_bit_ge: "i \<le> sz \<Longrightarrow> i \<le> find_next_zero_bit bm sz i"
proof (induction bm sz i rule: find_next_zero_bit.induct)
  case (1 bm sz i)
  show ?case
  proof (cases "sz \<le> i \<or> \<not> bm i")
    case True
    then show ?thesis using "1.prems" by (subst find_next_zero_bit.simps) auto
  next
    case False
    then have "Suc i \<le> find_next_zero_bit bm sz (Suc i)" using "1.IH" by auto
    with False show ?thesis by (subst find_next_zero_bit.simps) auto
  qed
qed

lemma find_next_zero_bit_zero:
  "find_next_zero_bit bm sz i < sz \<Longrightarrow> \<not> bm (find_next_zero_bit bm sz i)"
proof (induction bm sz i rule: find_next_zero_bit.induct)
  case (1 bm sz i)
  show ?case
  proof (cases "sz \<le> i \<or> \<not> bm i")
    case True
    then show ?thesis using "1.prems" by (auto simp: find_next_zero_bit.simps [of bm sz i])
  next
    case False
    then have "find_next_zero_bit bm sz i = find_next_zero_bit bm sz (Suc i)"
      by (auto simp: find_next_zero_bit.simps [of bm sz i])
    with False "1.IH" "1.prems" show ?thesis by auto
  qed
qed

lemma find_next_zero_bit_skips:
  "i \<le> j \<Longrightarrow> j < find_next_zero_bit bm sz i \<Longrightarrow> bm j"
proof (induction bm sz i rule: find_next_zero_bit.induct)
  case (1 bm sz i)
  show ?case
  proof (cases "sz \<le> i \<or> \<not> bm i")
    case True
    then have "find_next_zero_bit bm sz i \<le> max i sz"
      by (auto simp: find_next_zero_bit.simps [of bm sz i])
    moreover have "find_next_zero_bit bm sz i = (if sz \<le> i then sz else i)"
      using True by (auto simp: find_next_zero_bit.simps [of bm sz i])
    ultimately show ?thesis using "1.prems" by (auto split: if_splits)
  next
    case False
    then have eq: "find_next_zero_bit bm sz i = find_next_zero_bit bm sz (Suc i)"
      by (auto simp: find_next_zero_bit.simps [of bm sz i])
    show ?thesis
    proof (cases "j = i")
      case True
      then show ?thesis using False by simp
    next
      case False
      with "1.prems" have "Suc i \<le> j" by simp
      with "1.IH" "1.prems"(2) eq \<open>\<not> (sz \<le> i \<or> \<not> bm i)\<close> show ?thesis by auto
    qed
  qed
qed

lemma find_next_zero_bit_eqI:
  assumes "i \<le> k" and "k < sz" and "\<not> bm k" and "\<And>j. i \<le> j \<Longrightarrow> j < k \<Longrightarrow> bm j"
  shows "find_next_zero_bit bm sz i = k"
proof -
  let ?r = "find_next_zero_bit bm sz i"
  have "\<not> k < ?r" using find_next_zero_bit_skips [of i k bm sz] assms(1,3) by blast
  moreover have "\<not> ?r < k"
  proof
    assume "?r < k"
    then have "\<not> bm ?r" using find_next_zero_bit_zero [of bm sz i] assms(2) by simp
    moreover have "i \<le> ?r" using find_next_zero_bit_ge [of i sz bm] assms(1,2) by simp
    ultimately show False using assms(4) [of ?r] \<open>?r < k\<close> by blast
  qed
  ultimately show ?thesis by simp
qed

lemma find_next_zero_bit_full:
  "find_next_zero_bit bm sz i = sz \<longleftrightarrow> (\<forall>j. i \<le> j \<and> j < sz \<longrightarrow> bm j)"
proof
  assume "find_next_zero_bit bm sz i = sz"
  then show "\<forall>j. i \<le> j \<and> j < sz \<longrightarrow> bm j"
    using find_next_zero_bit_skips [of i _ bm sz] by auto
next
  assume all: "\<forall>j. i \<le> j \<and> j < sz \<longrightarrow> bm j"
  show "find_next_zero_bit bm sz i = sz"
  proof (rule ccontr)
    assume ne: "find_next_zero_bit bm sz i \<noteq> sz"
    then have lt: "find_next_zero_bit bm sz i < sz"
      using find_next_zero_bit_le [of bm sz i] by simp
    have "i \<le> sz \<or> sz \<le> i" by auto
    moreover have "\<not> sz \<le> i"
      using ne by (auto simp: find_next_zero_bit.simps [of bm sz i])
    ultimately have "i \<le> find_next_zero_bit bm sz i"
      using find_next_zero_bit_ge by blast
    with all lt find_next_zero_bit_zero [OF lt] show False by blast
  qed
qed

lemmas find_first_zero_bit_facts =
  find_next_zero_bit_le [where i = 0, folded find_first_zero_bit_def]
  find_next_zero_bit_zero [where i = 0, folded find_first_zero_bit_def]
  find_next_zero_bit_skips [where i = 0, folded find_first_zero_bit_def, simplified]

lemma find_first_zero_bit_full:
  "sz \<le> find_first_zero_bit bm sz \<longleftrightarrow> (\<forall>j < sz. bm j)"
  using find_next_zero_bit_full [of bm sz 0] find_next_zero_bit_le [of bm sz 0]
  by (auto simp: find_first_zero_bit_def)

text \<open>The lowest set bit of a word, as the kernel's \<open>ffs\<close> and \<open>__ffs64\<close> find it: the
  driver calls them on non-zero words only, so \<open>None\<close> is the zero word.\<close>

definition lowest_bit :: "'w::len word \<Rightarrow> nat option" where
  "lowest_bit w = List.find (bit w) [0..<LENGTH('w)]"

lemma find_upt_Some:
  "List.find P [0..<n] = Some i \<longleftrightarrow> i < n \<and> P i \<and> (\<forall>j < i. \<not> P j)"
  by (auto simp: find_Some_iff)

lemma lowest_bit_Some:
  fixes w :: "'w::len word"
  shows "lowest_bit w = Some i \<longleftrightarrow> bit w i \<and> (\<forall>j < i. \<not> bit w j)"
  by (auto simp: lowest_bit_def find_upt_Some dest: bit_imp_le_length)

lemma lowest_bit_None:
  fixes w :: "'w::len word"
  shows "lowest_bit w = None \<longleftrightarrow> w = 0"
proof -
  have "lowest_bit w = None \<longleftrightarrow> (\<forall>i < LENGTH('w). \<not> bit w i)"
    by (auto simp: lowest_bit_def find_None_iff)
  also have "\<dots> \<longleftrightarrow> w = 0"
    by (auto intro: bit_word_eqI)
  finally show ?thesis .
qed

section \<open>The interface of a slot allocator\<close>

text \<open>
  A pool of small integers: \<open>get\<close> hands out a free slot of the pool or fails, \<open>put\<close> gives
  one back. \<open>used\<close> is the abstraction (the set of slots handed out) and \<open>ok\<close> the
  provider's invariant. The laws are what the driver's callers rely on: a slot is handed out
  to one owner at a time, and \<open>get\<close> fails only when every slot is in use.
\<close>

fun get_many :: "('s \<Rightarrow> (nat \<times> 's) option) \<Rightarrow> nat \<Rightarrow> 's \<Rightarrow> (nat list \<times> 's) option" where
  "get_many get 0 s = Some ([], s)"
| "get_many get (Suc n) s =
     (case get s of
        None \<Rightarrow> None
      | Some (i, s') \<Rightarrow>
          (case get_many get n s' of
             None \<Rightarrow> None
           | Some (is, s'') \<Rightarrow> Some (i # is, s'')))"

locale slot_allocator =
  fixes get :: "'s \<Rightarrow> (nat \<times> 's) option"
    and put :: "nat \<Rightarrow> 's \<Rightarrow> 's"
    and used :: "'s \<Rightarrow> nat set"
    and pool :: "nat set"
    and ok :: "'s \<Rightarrow> bool"
  assumes finite_pool: "finite pool"
    and get_law: "ok s \<Longrightarrow> get s = Some (i, s') \<Longrightarrow>
      i \<in> pool \<and> i \<notin> used s \<and> used s' = insert i (used s) \<and> ok s'"
    and get_fails: "ok s \<Longrightarrow> get s = None \<Longrightarrow> pool \<subseteq> used s"
    and put_law: "ok s \<Longrightarrow> i \<in> pool \<Longrightarrow> i \<in> used s \<Longrightarrow>
      used (put i s) = used s - {i} \<and> ok (put i s)"
begin

lemma get_succeeds_iff: "ok s \<Longrightarrow> (\<exists>i s'. get s = Some (i, s')) \<longleftrightarrow> \<not> pool \<subseteq> used s"
  using get_law [of s] get_fails [of s] by (cases "get s") auto

lemma get_put_used:
  assumes "ok s" and "get s = Some (i, s')"
  shows "used (put i s') = used s" and "ok (put i s')"
proof -
  from get_law [OF assms] have l: "i \<in> pool" "i \<notin> used s" "used s' = insert i (used s)" "ok s'"
    by auto
  then show "used (put i s') = used s" "ok (put i s')"
    using put_law [of s' i] by auto
qed

lemma put_get:
  assumes "ok s" and "i \<in> pool" and "i \<in> used s"
  shows "\<exists>j s'. get (put i s) = Some (j, s')"
proof -
  from put_law [OF assms] have "used (put i s) = used s - {i}" and "ok (put i s)" by auto
  with assms(2) show ?thesis using get_succeeds_iff [of "put i s"] by auto
qed

lemma get_many_distinct:
  "ok s \<Longrightarrow> get_many get n s = Some (is, s') \<Longrightarrow>
     length is = n \<and> distinct is \<and> set is \<subseteq> pool \<and> set is \<inter> used s = {} \<and>
     used s' = set is \<union> used s \<and> ok s'"
proof (induction n arbitrary: s "is")
  case 0
  then show ?case by auto
next
  case (Suc n)
  then obtain i t js where g: "get s = Some (i, t)" and m: "get_many get n t = Some (js, s')"
    and eq: "is = i # js"
    by (auto split: option.splits)
  from get_law [OF Suc.prems(1) g] have "i \<in> pool" "i \<notin> used s" "used t = insert i (used s)" "ok t"
    by auto
  with Suc.IH [OF _ m] eq show ?case by auto
qed

lemma get_many_succeeds_iff:
  "ok s \<Longrightarrow> (\<exists>r. get_many get n s = Some r) \<longleftrightarrow> n \<le> card (pool - used s)"
proof (induction n arbitrary: s)
  case 0
  then show ?case by simp
next
  case (Suc n)
  have fin: "finite (pool - used s)" using finite_pool by simp
  show ?case
  proof (cases "get s")
    case None
    then have "pool \<subseteq> used s" by (rule get_fails [OF Suc.prems])
    then have "card (pool - used s) = 0" by (metis Diff_eq_empty_iff card.empty)
    with None show ?thesis by simp
  next
    case (Some p)
    obtain i t where p: "p = (i, t)" by (cases p)
    from get_law [OF Suc.prems Some [unfolded p]]
    have i: "i \<in> pool" "i \<notin> used s" and t: "used t = insert i (used s)" "ok t" by auto
    have "pool - used s = insert i (pool - used t)" using i t(1) by auto
    moreover have "i \<notin> pool - used t" using t(1) by simp
    ultimately have "card (pool - used s) = Suc (card (pool - used t))"
      using fin finite_pool by simp
    then show ?thesis using Suc.IH [OF t(2)] Some p
      by (auto split: option.splits)
  qed
qed

end

section \<open>The interface of a bounded FIFO\<close>

text \<open>
  A queue with a capacity: \<open>push\<close> accepts a valid item unless the queue is full, \<open>pop\<close> removes
  the oldest item. \<open>fifo_run\<close> serves a sequence of requests and records what was accepted and
  what was delivered.
\<close>

datatype 'a fifo_op = Push 'a | Pop

fun fifo_run ::
  "('a \<Rightarrow> 'q \<Rightarrow> bool \<times> 'q) \<Rightarrow> ('q \<Rightarrow> bool \<times> 'a \<times> 'q) \<Rightarrow> 'a fifo_op list \<Rightarrow> 'q
     \<Rightarrow> 'a list \<times> 'a list \<times> 'q" where
  "fifo_run push pop [] q = ([], [], q)"
| "fifo_run push pop (Push x # ops) q =
     (case push x q of (b, q') \<Rightarrow>
        (case fifo_run push pop ops q' of (ins, outs, q'') \<Rightarrow> (if b then x # ins else ins, outs, q'')))"
| "fifo_run push pop (Pop # ops) q =
     (case pop q of (b, x, q') \<Rightarrow>
        (case fifo_run push pop ops q' of (ins, outs, q'') \<Rightarrow> (ins, if b then x # outs else outs, q'')))"

locale bounded_fifo =
  fixes push :: "'a \<Rightarrow> 'q \<Rightarrow> bool \<times> 'q"
    and pop :: "'q \<Rightarrow> bool \<times> 'a \<times> 'q"
    and items :: "'q \<Rightarrow> 'a list"
    and cap :: "'q \<Rightarrow> nat"
    and valid :: "'q \<Rightarrow> 'a \<Rightarrow> bool"
    and ok :: "'q \<Rightarrow> bool"
  assumes push_law: "ok q \<Longrightarrow> valid q x \<Longrightarrow> push x q = (b, q') \<Longrightarrow>
      (b \<longleftrightarrow> length (items q) < cap q) \<and> items q' = (if b then items q @ [x] else items q) \<and>
      cap q' = cap q \<and> valid q' = valid q \<and> ok q'"
    and pop_law: "ok q \<Longrightarrow> pop q = (b, x, q') \<Longrightarrow>
      (b \<longleftrightarrow> items q \<noteq> []) \<and> items q = (if b then x # items q' else []) \<and>
      (\<not> b \<longrightarrow> items q' = []) \<and> cap q' = cap q \<and> valid q' = valid q \<and> ok q'"
    and bounded: "ok q \<Longrightarrow> length (items q) \<le> cap q"
begin

lemma run_order:
  "ok q \<Longrightarrow> (\<forall>x. Push x \<in> set ops \<longrightarrow> valid q x) \<Longrightarrow> fifo_run push pop ops q = (ins, outs, q') \<Longrightarrow>
     outs @ items q' = items q @ ins \<and> ok q' \<and> cap q' = cap q"
proof (induction ops arbitrary: q ins outs q')
  case Nil
  then show ?case by simp
next
  case (Cons op ops)
  show ?case
  proof (cases op)
    case (Push x)
    obtain b q1 where p: "push x q = (b, q1)" by fastforce
    obtain i o1 q2 where r: "fifo_run push pop ops q1 = (i, o1, q2)" by (metis prod_cases3)
    from Cons.prems Push p r have eqs: "ins = (if b then x # i else i)" "outs = o1" "q' = q2" by auto
    from push_law [OF Cons.prems(1) _ p] Cons.prems(2) Push
    have l: "items q1 = (if b then items q @ [x] else items q)" "cap q1 = cap q" "valid q1 = valid q" "ok q1"
      by auto
    from Cons.IH [OF l(4) _ r] Cons.prems(2) l(3) have "o1 @ items q2 = items q1 @ i \<and> ok q2 \<and> cap q2 = cap q1"
      by simp
    then show ?thesis unfolding eqs l(1,2) by (cases b) simp_all
  next
    case Pop
    obtain b x q1 where p: "pop q = (b, x, q1)" by (metis prod_cases3)
    obtain i o1 q2 where r: "fifo_run push pop ops q1 = (i, o1, q2)" by (metis prod_cases3)
    from Cons.prems Pop p r have eqs: "ins = i" "outs = (if b then x # o1 else o1)" "q' = q2" by auto
    from pop_law [OF Cons.prems(1) p]
    have l: "items q = (if b then x # items q1 else [])" "\<not> b \<longrightarrow> items q1 = []" "cap q1 = cap q"
      "valid q1 = valid q" "ok q1" by blast+
    from Cons.IH [OF l(5) _ r] Cons.prems(2) l(4) have "o1 @ items q2 = items q1 @ i \<and> ok q2 \<and> cap q2 = cap q1"
      by simp
    then show ?thesis unfolding eqs l(1,3) using l(2) by (cases b) simp_all
  qed
qed

end

end
