(* ===== verification/Opu_Pasid.thy ===== *)
theory Opu_Pasid
  imports Opu_Prelude
begin

text \<open>
  The process address space identifiers of \<open>opu_pasid.c\<close>: the number of PASID bits may be
  lowered until the first PASID has been handed out. The allocator itself is the one of the
  graphics driver (\<open>amdgpu_pasid_alloc\<close>), a parameter of the model.
\<close>

record pasid_state =
  pasid_bits :: nat
  pasids_allocated :: bool

definition pasid_init :: pasid_state where
  "pasid_init = \<lparr>pasid_bits = 16, pasids_allocated = False\<rparr>"

text \<open>The loop \<open>while (new_limit < (1U << pasid_bits)) pasid_bits--\<close>. The counter is unsigned
  and the loop body runs only while the limit is below the power of two; the limit is at
  least two there, so the count never reaches zero and the test \<open>0 < bits\<close> never decides.\<close>

function lower_pasid_bits :: "u32 \<Rightarrow> nat \<Rightarrow> nat" where
  "lower_pasid_bits new_limit bits =
     (if unat new_limit < 2 ^ bits \<and> 0 < bits then lower_pasid_bits new_limit (bits - 1) else bits)"
  by pat_completeness auto
termination
  by (relation "measure (\<lambda>(l, b). b)") auto

declare lower_pasid_bits.simps [simp del]

definition opu_set_pasid_limit :: "u32 \<Rightarrow> pasid_state \<Rightarrow> bool \<times> pasid_state" where
  "opu_set_pasid_limit new_limit s =
     (if unat new_limit < 2 then (False, s)
      else if unat new_limit < 2 ^ pasid_bits s then
        (if pasids_allocated s then (False, s)
         else (True, s\<lparr>pasid_bits := lower_pasid_bits new_limit (pasid_bits s)\<rparr>))
      else (True, s))"

definition opu_get_pasid_limit :: "pasid_state \<Rightarrow> u32" where
  "opu_get_pasid_limit s = push_bit (pasid_bits s) 1"

definition opu_pasid_alloc :: "(nat \<Rightarrow> int) \<Rightarrow> pasid_state \<Rightarrow> u32 \<times> pasid_state" where
  "opu_pasid_alloc amdgpu_pasid_alloc s =
     (let r = amdgpu_pasid_alloc (pasid_bits s)
      in if r > 0 then (word_of_int r, s\<lparr>pasids_allocated := True\<rparr>) else (0, s))"

definition opu_pasid_free :: "(u32 \<Rightarrow> 'h \<Rightarrow> 'h) \<Rightarrow> u32 \<Rightarrow> 'h \<Rightarrow> 'h" where
  "opu_pasid_free amdgpu_pasid_free pasid h = amdgpu_pasid_free pasid h"

definition pasid_wf :: "pasid_state \<Rightarrow> bool" where
  "pasid_wf s \<longleftrightarrow> 1 \<le> pasid_bits s \<and> pasid_bits s \<le> 16"

lemma lower_pasid_bits_below:
  "2 ^ b \<le> unat l \<Longrightarrow> b \<le> bits \<Longrightarrow>
     2 ^ lower_pasid_bits l bits \<le> unat l \<and> b \<le> lower_pasid_bits l bits \<and>
     lower_pasid_bits l bits \<le> bits"
proof (induction l bits rule: lower_pasid_bits.induct)
  case (1 l bits)
  show ?case
  proof (cases "unat l < 2 ^ bits \<and> 0 < bits")
    case True
    have "b \<noteq> bits" using True "1.prems"(1) by auto
    then have "b \<le> bits - 1" using "1.prems"(2) by simp
    with "1.IH" [OF True] "1.prems"(1) True show ?thesis
      by (auto simp: lower_pasid_bits.simps [of l bits])
  next
    case False
    then show ?thesis using "1.prems"
      by (auto simp: lower_pasid_bits.simps [of l bits] not_less intro: order_trans)
  qed
qed

lemma lower_pasid_bits_tight:
  "unat l < 2 ^ bits \<Longrightarrow> unat l < 2 ^ Suc (lower_pasid_bits l bits)"
proof (induction l bits rule: lower_pasid_bits.induct)
  case (1 l bits)
  show ?case
  proof (cases "0 < bits")
    case True
    show ?thesis
    proof (cases "unat l < 2 ^ (bits - 1)")
      case lower: True
      with "1.IH" "1.prems" True show ?thesis
        by (auto simp: lower_pasid_bits.simps [of l bits])
    next
      case False
      then have "lower_pasid_bits l (bits - 1) = bits - 1"
        by (subst lower_pasid_bits.simps) simp
      with "1.prems" True show ?thesis
        by (auto simp: lower_pasid_bits.simps [of l bits])
    qed
  next
    case False
    with "1.prems" show ?thesis by (auto simp: lower_pasid_bits.simps [of l bits])
  qed
qed

lemma unat_pasid_limit: "pasid_wf s \<Longrightarrow> unat (opu_get_pasid_limit s) = 2 ^ pasid_bits s"
proof -
  assume "pasid_wf s"
  then have "pasid_bits s \<le> 16" by (simp add: pasid_wf_def)
  then show ?thesis
    by (simp add: opu_get_pasid_limit_def push_bit_eq_mult unat_two_power)
qed

text \<open>
  Setting the PASID limit either refuses and changes nothing, which happens exactly for a
  limit below two or for a lower limit after PASIDs were handed out, or leaves a limit that
  does not exceed the requested one and is the largest such power of two (or the old limit).
\<close>

theorem opu_set_pasid_limit_spec:
  assumes "pasid_wf s" and "opu_set_pasid_limit l s = (r, s')"
  shows "pasid_wf s' \<and>
    (r \<longleftrightarrow> 2 \<le> unat l \<and> (pasids_allocated s \<longrightarrow> 2 ^ pasid_bits s \<le> unat l)) \<and>
    (\<not> r \<longrightarrow> s' = s) \<and>
    (r \<longrightarrow> unat (opu_get_pasid_limit s') \<le> unat l \<and>
       (s' = s \<or> unat l < 2 * unat (opu_get_pasid_limit s')))"
proof -
  have lower: "pasid_wf (s\<lparr>pasid_bits := lower_pasid_bits l (pasid_bits s)\<rparr>) \<and>
      2 ^ lower_pasid_bits l (pasid_bits s) \<le> unat l \<and>
      unat l < 2 * 2 ^ lower_pasid_bits l (pasid_bits s)"
    if "2 \<le> unat l" and "unat l < 2 ^ pasid_bits s"
    using lower_pasid_bits_below [of 1 l "pasid_bits s"] lower_pasid_bits_tight [OF that(2)]
      that assms(1) by (auto simp: pasid_wf_def)
  show ?thesis
    using assms lower
    by (auto simp: opu_set_pasid_limit_def unat_pasid_limit not_less split: if_splits)
qed

lemma opu_set_pasid_limit_witness:
  "pasid_wf pasid_init \<and>
   (let (r, s') = opu_set_pasid_limit 1000 pasid_init
    in r \<and> unat (opu_get_pasid_limit s') \<le> 1000 \<and> 1000 < 2 * unat (opu_get_pasid_limit s'))"
proof -
  have wf: "pasid_wf pasid_init" by (simp add: pasid_wf_def pasid_init_def)
  obtain r s' where eq: "opu_set_pasid_limit 1000 pasid_init = (r, s')" by fastforce
  have "s' \<noteq> pasid_init"
    using eq by (auto simp: opu_set_pasid_limit_def pasid_init_def lower_pasid_bits.simps)
  then show ?thesis
    using opu_set_pasid_limit_spec [OF wf eq] wf eq by (auto simp: pasid_init_def)
qed

end
