(* ===== verification/Opu_Dev.thy ===== *)
theory Opu_Dev
  imports Opu_Prelude
begin

text \<open>
  The device structure of the driver, as \<open>opu_priv.h\<close> and \<open>opu.h\<close> declare its parts and as
  the components use it. The order of the chip enumeration is not part of the sources: the values
  of \<open>OPU_IS_SOC15(asic_family)\<close> and of \<open>asic_family > CHIP_MULLINS\<close> are the fields
  \<open>soc15\<close> and \<open>after_mullins\<close> of the device information.
\<close>

datatype asic_family =
    CHIP_KAVERI | CHIP_HAWAII | CHIP_CARRIZO | CHIP_TONGA | CHIP_FIJI
  | CHIP_POLARIS10 | CHIP_POLARIS11 | CHIP_POLARIS12 | CHIP_VEGAM
  | CHIP_VEGA10 | CHIP_VEGA12 | CHIP_VEGA20 | CHIP_RAVEN | CHIP_RENOIR
  | CHIP_ARCTURUS | CHIP_ALDEBARAN
  | CHIP_NAVI10 | CHIP_NAVI12 | CHIP_NAVI14 | CHIP_SIENNA_CICHLID | CHIP_NAVY_FLOUNDER
  | CHIP_VANGOGH | CHIP_DIMGREY_CAVEFISH | CHIP_BEIGE_GOBY | CHIP_YELLOW_CARP
  | CHIP_OTHER nat

record opu_device_info =
  asic_family :: asic_family
  soc15 :: bool
  after_mullins :: bool
  max_no_of_hqd :: u32
  doorbell_size :: u32
  ih_ring_entry_size :: nat
  num_sdma_engines :: u32
  num_xgmi_sdma_engines :: u32
  num_sdma_queues_per_engine :: u32

record core_shared_resources =
  compute_vmid_bitmap :: u32
  cp_queue_bitmap :: bitmap
  num_pipe_per_mec :: u32
  num_queue_per_pipe :: u32
  sdma_doorbell_idx :: "nat \<Rightarrow> u32"
  non_cp_doorbells_start :: u32
  non_cp_doorbells_end :: u32
  doorbell_physical_address :: u64
  doorbell_aperture_size :: u64
  doorbell_start_offset :: u64

record opu_vmid_info =
  first_vmid :: nat
  last_vmid :: nat
  vmid_num :: u32

text \<open>A kernel FIFO of bytes: its contents, oldest first, and the size it was allocated with.\<close>

record kfifo =
  kfifo_data :: "u8 list"
  kfifo_size :: nat

record opu_dev =
  dev_id :: u32
  device_info :: opu_device_info
  shared_resources :: core_shared_resources
  vm_info :: opu_vmid_info
  doorbell_base :: u64
  doorbell_base_dw_offset :: u64
  doorbell_kernel_ptr :: u64
  doorbell_available_index :: bitmap
  max_doorbell_slices :: u32
  doorbell_ida :: bitmap
  gtt_start_gpu_addr :: u64
  gtt_start_cpu_ptr :: u64
  gtt_sa_chunk_size :: u32
  gtt_sa_num_of_chunks :: u32
  gtt_sa_bitmap :: bitmap
  ih_fifo :: kfifo
  interrupts_active :: bool
  init_complete :: bool
  cwsr_enabled :: bool
  compute_profile :: int

abbreviation OPU_MAX_QUEUES :: nat where "OPU_MAX_QUEUES \<equiv> 1024"
abbreviation OPU_MAX_NUM_OF_QUEUES_PER_PROCESS :: nat where
  "OPU_MAX_NUM_OF_QUEUES_PER_PROCESS \<equiv> 1024"
abbreviation OPU_QUEUE_DOORBELL_MIRROR_OFFSET :: nat where
  "OPU_QUEUE_DOORBELL_MIRROR_OFFSET \<equiv> 512"

abbreviation dev_doorbell_size :: "opu_dev \<Rightarrow> u32" where
  "dev_doorbell_size dev \<equiv> doorbell_size (device_info dev)"

text \<open>A device for examples: eight-byte doorbells, two doorbell pages per process.\<close>

definition example_info :: opu_device_info where
  "example_info = \<lparr>asic_family = CHIP_VEGA10, soc15 = True, after_mullins = True, max_no_of_hqd = 24, doorbell_size = 8,
     ih_ring_entry_size = 16, num_sdma_engines = 2, num_xgmi_sdma_engines = 1,
     num_sdma_queues_per_engine = 2\<rparr>"

definition example_resources :: core_shared_resources where
  "example_resources = \<lparr>compute_vmid_bitmap = 0xFF00, cp_queue_bitmap = (\<lambda>i. i < 16),
     num_pipe_per_mec = 4, num_queue_per_pipe = 4, sdma_doorbell_idx = (\<lambda>i. of_nat (0x100 + i * 16)),
     non_cp_doorbells_start = 0x100, non_cp_doorbells_end = 0x1FF,
     doorbell_physical_address = 0xE0000000, doorbell_aperture_size = 0x200000,
     doorbell_start_offset = 0x1000\<rparr>"

definition example_dev :: opu_dev where
  "example_dev = \<lparr>dev_id = 1, device_info = example_info, shared_resources = example_resources,
     vm_info = \<lparr>first_vmid = 8, last_vmid = 15, vmid_num = 8\<rparr>,
     doorbell_base = 0, doorbell_base_dw_offset = 0, doorbell_kernel_ptr = 0,
     doorbell_available_index = (\<lambda>_. False), max_doorbell_slices = 0, doorbell_ida = (\<lambda>_. False),
     gtt_start_gpu_addr = 0x10000, gtt_start_cpu_ptr = 0x70000, gtt_sa_chunk_size = 512,
     gtt_sa_num_of_chunks = 8, gtt_sa_bitmap = (\<lambda>_. False),
     ih_fifo = \<lparr>kfifo_data = [], kfifo_size = 0\<rparr>, interrupts_active = False,
     init_complete = True, cwsr_enabled = True, compute_profile = 0\<rparr>"

lemmas example_dev_defs = example_dev_def example_info_def example_resources_def

end
