(* ===== verification/Opu_Interrupt.thy ===== *)
theory Opu_Interrupt
  imports Opu_Dev
begin

text \<open>
  The interrupt ring of \<open>opu_interrupt.c\<close> and its caller \<open>kgd2opu_interrupt\<close> of \<open>opu_device.c\<close>.
  The ring is a kernel FIFO of bytes. \<open>kfifo_alloc\<close> rounds the requested size up to a power of
  two, \<open>kfifo_in\<close> copies as many bytes as fit and \<open>kfifo_out\<close> as many as are there; both return
  the number of bytes copied.
\<close>

section \<open>The kernel FIFO\<close>

definition kfifo_in :: "kfifo \<Rightarrow> u8 list \<Rightarrow> nat \<times> kfifo" where
  "kfifo_in f bs =
     (let l = min (length bs) (kfifo_size f - length (kfifo_data f))
      in (l, f\<lparr>kfifo_data := kfifo_data f @ take l bs\<rparr>))"

definition kfifo_out :: "kfifo \<Rightarrow> nat \<Rightarrow> nat \<times> u8 list \<times> kfifo" where
  "kfifo_out f n =
     (let l = min n (length (kfifo_data f))
      in (l, take l (kfifo_data f), f\<lparr>kfifo_data := drop l (kfifo_data f)\<rparr>))"

fun pow2_above :: "nat \<Rightarrow> nat \<Rightarrow> nat" where
  "pow2_above 0 n = 1"
| "pow2_above (Suc fuel) n = (if n \<le> 1 then 1 else 2 * pow2_above fuel ((n + 1) div 2))"

definition roundup_pow_of_two :: "nat \<Rightarrow> nat" where
  "roundup_pow_of_two n = pow2_above n n"

section \<open>Operations\<close>

definition the_default :: "'a \<Rightarrow> 'a option \<Rightarrow> 'a" where
  "the_default d x = (case x of None \<Rightarrow> d | Some v \<Rightarrow> v)"

abbreviation OPU_IH_NUM_ENTRIES :: nat where "OPU_IH_NUM_ENTRIES \<equiv> 8192"
abbreviation OPU_MAX_RING_ENTRY_SIZE :: nat where "OPU_MAX_RING_ENTRY_SIZE \<equiv> 8"

abbreviation entry_size :: "opu_dev \<Rightarrow> nat" where
  "entry_size opu \<equiv> ih_ring_entry_size (device_info opu)"

text \<open>The results of the two allocations (the FIFO and the work queue) are parameters; the
  first one is the error of \<open>kfifo_alloc\<close>, 0 for none.\<close>

definition opu_interrupt_init :: "int \<Rightarrow> bool \<Rightarrow> opu_dev \<Rightarrow> int \<times> opu_dev" where
  "opu_interrupt_init kfifo_err wq_ok opu =
     (if kfifo_err \<noteq> 0 then (kfifo_err, opu)
      else
        let opu1 = opu\<lparr>ih_fifo := \<lparr>kfifo_data = [],
               kfifo_size = roundup_pow_of_two (OPU_IH_NUM_ENTRIES * entry_size opu)\<rparr>\<rparr>
        in if \<not> wq_ok then (- ENOMEM, opu\<lparr>ih_fifo := \<lparr>kfifo_data = [], kfifo_size = 0\<rparr>\<rparr>)
           else (0, opu1\<lparr>interrupts_active := True\<rparr>))"

definition enqueue_ih_ring_entry :: "opu_dev \<Rightarrow> u8 list \<Rightarrow> bool \<times> opu_dev" where
  "enqueue_ih_ring_entry opu ih_ring_entry =
     (let (count, f) = kfifo_in (ih_fifo opu) (take (entry_size opu) ih_ring_entry);
          opu' = opu\<lparr>ih_fifo := f\<rparr>
      in if count \<noteq> entry_size opu then (False, opu') else (True, opu'))"

definition dequeue_ih_ring_entry :: "opu_dev \<Rightarrow> bool \<times> u8 list \<times> opu_dev" where
  "dequeue_ih_ring_entry opu =
     (let (count, bs, f) = kfifo_out (ih_fifo opu) (entry_size opu)
      in (count = entry_size opu, bs, opu\<lparr>ih_fifo := f\<rparr>))"

text \<open>The bottom half: entries are handed to the interrupt class until the ring is empty. The
  loop does not end for an entry size of 0, so it takes fuel; \<open>None\<close> is running out of it.\<close>

fun interrupt_wq_loop ::
  "(opu_dev \<Rightarrow> u8 list \<Rightarrow> 'h \<Rightarrow> 'h) \<Rightarrow> nat \<Rightarrow> opu_dev \<Rightarrow> 'h \<Rightarrow> (opu_dev \<times> 'h) option" where
  "interrupt_wq_loop handler 0 dev h = None"
| "interrupt_wq_loop handler (Suc fuel) dev h =
     (case dequeue_ih_ring_entry dev of
        (False, bs, dev') \<Rightarrow> Some (dev', h)
      | (True, bs, dev') \<Rightarrow> interrupt_wq_loop handler fuel dev' (handler dev' bs h))"

definition interrupt_wq ::
  "(opu_dev \<Rightarrow> u8 list \<Rightarrow> 'h \<Rightarrow> 'h) \<Rightarrow> nat \<Rightarrow> opu_dev \<Rightarrow> 'h \<Rightarrow> (opu_dev \<times> 'h) option" where
  "interrupt_wq handler fuel dev h =
     (if 4 * OPU_MAX_RING_ENTRY_SIZE < entry_size dev then Some (dev, h)
      else interrupt_wq_loop handler fuel dev h)"

text \<open>Every accepted entry schedules the bottom half, so flushing the work queue runs it over
  what the ring still holds.\<close>

definition opu_interrupt_exit ::
  "(opu_dev \<Rightarrow> u8 list \<Rightarrow> 'h \<Rightarrow> 'h) \<Rightarrow> nat \<Rightarrow> opu_dev \<Rightarrow> 'h \<Rightarrow> (opu_dev \<times> 'h) option" where
  "opu_interrupt_exit handler fuel opu h =
     (let opu1 = opu\<lparr>interrupts_active := False\<rparr>
      in case interrupt_wq handler fuel opu1 h of
           None \<Rightarrow> None
         | Some (opu2, h') \<Rightarrow> Some (opu2\<lparr>ih_fifo := \<lparr>kfifo_data = [], kfifo_size = 0\<rparr>\<rparr>, h'))"

text \<open>The interrupt class decides whether an entry is wanted and may patch it: \<open>isr\<close> gives the
  verdict and the patched entry, if any.\<close>

type_synonym interrupt_isr = "opu_dev \<Rightarrow> u8 list \<Rightarrow> bool \<times> u8 list option"

definition interrupt_is_wanted :: "interrupt_isr \<Rightarrow> opu_dev \<Rightarrow> u8 list \<Rightarrow> bool \<times> u8 list option" where
  "interrupt_is_wanted isr dev ih_ring_entry = isr dev ih_ring_entry"

text \<open>\<open>kgd2opu_interrupt\<close>, run by the graphics driver for every entry of the hardware ring; the
  result says whether the bottom half is scheduled.\<close>

definition kgd2opu_interrupt :: "interrupt_isr \<Rightarrow> opu_dev \<Rightarrow> u8 list \<Rightarrow> bool \<times> opu_dev" where
  "kgd2opu_interrupt isr opu ih_ring_entry =
     (if \<not> init_complete opu then (False, opu)
      else if 4 * OPU_MAX_RING_ENTRY_SIZE < entry_size opu then (False, opu)
      else if interrupts_active opu then
        (case interrupt_is_wanted isr opu ih_ring_entry of
           (False, p) \<Rightarrow> (False, opu)
         | (True, p) \<Rightarrow> enqueue_ih_ring_entry opu (the_default ih_ring_entry p))
      else (False, opu))"

section \<open>The ring as a bounded FIFO of entries\<close>

function entries_of :: "nat \<Rightarrow> u8 list \<Rightarrow> u8 list list" where
  "entries_of n bs = (if n = 0 \<or> length bs < n then [] else take n bs # entries_of n (drop n bs))"
  by pat_completeness auto
termination
  by (relation "measure (\<lambda>(n, bs). length bs)") (auto simp: not_less)

declare entries_of.simps [simp del]

definition ih_entries :: "opu_dev \<Rightarrow> u8 list list" where
  "ih_entries opu = entries_of (entry_size opu) (kfifo_data (ih_fifo opu))"

definition ih_capacity :: "opu_dev \<Rightarrow> nat" where
  "ih_capacity opu = kfifo_size (ih_fifo opu) div entry_size opu"

definition ih_wf :: "opu_dev \<Rightarrow> bool" where
  "ih_wf opu \<longleftrightarrow> 0 < entry_size opu \<and> entry_size opu dvd kfifo_size (ih_fifo opu) \<and>
     entry_size opu dvd length (kfifo_data (ih_fifo opu)) \<and>
     length (kfifo_data (ih_fifo opu)) \<le> kfifo_size (ih_fifo opu)"

definition ih_entry_ok :: "opu_dev \<Rightarrow> u8 list \<Rightarrow> bool" where
  "ih_entry_ok opu e \<longleftrightarrow> length e = entry_size opu"

lemma entries_of_empty [simp]: "entries_of n [] = []"
  by (subst entries_of.simps) auto

lemma entries_of_append:
  "0 < n \<Longrightarrow> n dvd length bs \<Longrightarrow> entries_of n (bs @ cs) = entries_of n bs @ entries_of n cs"
proof (induction n bs rule: entries_of.induct)
  case (1 n bs)
  show ?case
  proof (cases "length bs < n")
    case True
    then have "bs = []" using "1.prems" by (auto dest: dvd_imp_le)
    then show ?thesis by simp
  next
    case False
    then have "n dvd length (drop n bs)" using "1.prems" by (simp add: dvd_diff_nat)
    with False "1.prems" "1.IH" have IH: "entries_of n (drop n bs @ cs) = entries_of n (drop n bs) @ entries_of n cs"
      by simp
    then show ?thesis using False "1.prems"
      by (simp add: entries_of.simps [of n "bs @ cs"] entries_of.simps [of n bs])
  qed
qed

lemma entries_of_single: "0 < n \<Longrightarrow> length e = n \<Longrightarrow> entries_of n e = [e]"
  by (simp add: entries_of.simps [of n e])

lemma length_entries_of: "0 < n \<Longrightarrow> length (entries_of n bs) = length bs div n"
proof (induction n bs rule: entries_of.induct)
  case (1 n bs)
  then show ?case
    by (simp add: entries_of.simps [of n bs] le_div_geq not_less)
qed

lemma free_space:
  assumes "0 < n" and "n dvd sz" and "n dvd l" and "l \<le> (sz :: nat)"
  shows "n \<le> sz - l \<longleftrightarrow> l div n < sz div n" and "\<not> n \<le> sz - l \<Longrightarrow> sz - l = 0"
proof -
  obtain a b where ab: "sz = n * a" "l = n * b" using assms(2,3) by (auto elim!: dvdE)
  with assms(1,4) have le: "b \<le> a" by simp
  have "sz - l = n * (a - b)" using ab by (simp add: diff_mult_distrib2)
  with ab assms(1) le show "n \<le> sz - l \<longleftrightarrow> l div n < sz div n" "\<not> n \<le> sz - l \<Longrightarrow> sz - l = 0"
    by auto
qed

lemma enqueue_eq:
  assumes "ih_wf opu" and "ih_entry_ok opu e"
  shows "enqueue_ih_ring_entry opu e =
    (if length (ih_entries opu) < ih_capacity opu
     then (True, opu\<lparr>ih_fifo := (ih_fifo opu)\<lparr>kfifo_data := kfifo_data (ih_fifo opu) @ e\<rparr>\<rparr>)
     else (False, opu))"
proof -
  let ?n = "entry_size opu" and ?sz = "kfifo_size (ih_fifo opu)" and ?l = "length (kfifo_data (ih_fifo opu))"
  have w: "0 < ?n" "?n dvd ?sz" "?n dvd ?l" "?l \<le> ?sz" using assms(1) by (auto simp: ih_wf_def)
  note fs = free_space [OF w]
  have cap: "length (ih_entries opu) < ih_capacity opu \<longleftrightarrow> ?n \<le> ?sz - ?l"
    using fs(1) w(1) by (simp add: ih_entries_def ih_capacity_def length_entries_of)
  show ?thesis
    using assms(2) w(1) fs(2) unfolding cap
    by (auto simp: enqueue_ih_ring_entry_def kfifo_in_def ih_entry_ok_def Let_def min_def)
qed

lemma dequeue_eq:
  assumes "ih_wf opu"
  shows "dequeue_ih_ring_entry opu =
    (if ih_entries opu = [] then (False, [], opu)
     else (True, take (entry_size opu) (kfifo_data (ih_fifo opu)),
           opu\<lparr>ih_fifo := (ih_fifo opu)\<lparr>kfifo_data := drop (entry_size opu) (kfifo_data (ih_fifo opu))\<rparr>\<rparr>))"
proof -
  let ?n = "entry_size opu" and ?bs = "kfifo_data (ih_fifo opu)"
  have w: "0 < ?n" "?n dvd length ?bs" using assms by (auto simp: ih_wf_def)
  have "ih_entries opu = [] \<longleftrightarrow> length ?bs < ?n"
    using w(1) by (simp add: ih_entries_def entries_of.simps [of ?n ?bs])
  moreover have "length ?bs < ?n \<Longrightarrow> ?bs = []" using w by (auto dest: dvd_imp_le)
  ultimately show ?thesis using w(1)
    by (auto simp: dequeue_ih_ring_entry_def kfifo_out_def Let_def min_def)
qed

interpretation ihr: bounded_fifo "\<lambda>e opu. enqueue_ih_ring_entry opu e" dequeue_ih_ring_entry
  ih_entries ih_capacity ih_entry_ok ih_wf
proof (unfold_locales, goal_cases)
  case (1 q x b q')
  have w: "0 < entry_size q" "entry_size q dvd length (kfifo_data (ih_fifo q))" "length x = entry_size q"
    using 1(1,2) by (auto simp: ih_wf_def ih_entry_ok_def)
  note fs = free_space [of "entry_size q" "kfifo_size (ih_fifo q)" "length (kfifo_data (ih_fifo q))"]
  have room: "length (ih_entries q) < ih_capacity q \<Longrightarrow>
      entry_size q \<le> kfifo_size (ih_fifo q) - length (kfifo_data (ih_fifo q))"
    using fs(1) 1(1) by (simp add: ih_wf_def ih_entries_def ih_capacity_def length_entries_of)
  show ?case
    using 1 w room
    by (auto simp: enqueue_eq ih_entries_def entries_of_append entries_of_single ih_capacity_def
        ih_entry_ok_def ih_wf_def fun_eq_iff split: if_splits)
next
  case (2 q b x q')
  have w: "0 < entry_size q" "entry_size q dvd length (kfifo_data (ih_fifo q))"
    using 2(1) by (auto simp: ih_wf_def)
  show ?case
    using 2 w
    by (auto simp: dequeue_eq ih_entries_def ih_capacity_def ih_entry_ok_def ih_wf_def fun_eq_iff
        entries_of.simps [of "entry_size q" "kfifo_data (ih_fifo q)"] dvd_diff_nat split: if_splits)
next
  case (3 q)
  then show ?case
    by (simp add: ih_entries_def ih_capacity_def ih_wf_def length_entries_of div_le_mono)
qed

section \<open>Initialisation\<close>

lemma pow2_above_power: "k < fuel \<Longrightarrow> pow2_above fuel (2 ^ k) = 2 ^ k"
proof (induction fuel arbitrary: k)
  case (Suc fuel)
  show ?case
  proof (cases k)
    case (Suc k')
    have "(2 * 2 ^ k' + 1) div 2 = (2 :: nat) ^ k'" by simp
    moreover have "\<not> 2 * 2 ^ k' \<le> (1 :: nat)" using one_le_power [of "2 :: nat" k'] by linarith
    ultimately show ?thesis using Suc Suc.IH [of k'] Suc.prems by (simp add: div_Suc)
  qed simp
qed simp

lemma roundup_pow_of_two_power: "roundup_pow_of_two (2 ^ k) = 2 ^ k"
  by (simp add: roundup_pow_of_two_def pow2_above_power)

lemma opu_interrupt_init_ok:
  assumes "opu_interrupt_init 0 True opu = (r, opu1)" and "entry_size opu = 2 ^ k"
  shows "r = 0" and "ih_wf opu1" and "ih_entries opu1 = []" and "ih_capacity opu1 = OPU_IH_NUM_ENTRIES"
    and "interrupts_active opu1" and "entry_size opu1 = entry_size opu"
proof -
  have "(8192 :: nat) = 2 ^ 13" by simp
  then have "OPU_IH_NUM_ENTRIES * entry_size opu = 2 ^ (13 + k)"
    by (simp only: assms(2) power_add)
  then have sz: "roundup_pow_of_two (OPU_IH_NUM_ENTRIES * entry_size opu) = OPU_IH_NUM_ENTRIES * entry_size opu"
    using roundup_pow_of_two_power [of "13 + k"] by simp
  have o: "opu1 = opu\<lparr>ih_fifo := \<lparr>kfifo_data = [], kfifo_size = OPU_IH_NUM_ENTRIES * entry_size opu\<rparr>,
      interrupts_active := True\<rparr>" and r: "r = 0"
    using assms(1) sz by (simp_all add: opu_interrupt_init_def Let_def)
  have "0 < entry_size opu" using assms(2) by simp
  then show "r = 0" "ih_wf opu1" "ih_entries opu1 = []" "ih_capacity opu1 = OPU_IH_NUM_ENTRIES"
    "interrupts_active opu1" "entry_size opu1 = entry_size opu"
    by (simp_all add: o r ih_wf_def ih_entries_def ih_capacity_def)
qed

text \<open>
  C30. The interrupt ring loses nothing it accepted and keeps the order: after initialisation (with
  an entry size that is a power of two, as the device tables have it) and any interleaving of
  enqueues and dequeues, the entries delivered followed by the entries still in the ring are
  exactly the entries that were accepted, in their order, and the ring holds at most 8192 of them.
\<close>

theorem interrupt_ring_fifo:
  assumes "entry_size opu = 2 ^ k"
    and "opu_interrupt_init 0 True opu = (r, opu1)"
    and "\<forall>e. Push e \<in> set ops \<longrightarrow> length e = entry_size opu"
    and "fifo_run (\<lambda>e opu. enqueue_ih_ring_entry opu e) dequeue_ih_ring_entry ops opu1 = (ins, outs, opu2)"
  shows "outs @ ih_entries opu2 = ins \<and> length (ih_entries opu2) \<le> OPU_IH_NUM_ENTRIES"
proof -
  note i = opu_interrupt_init_ok [OF assms(2,1)]
  have "\<forall>e. Push e \<in> set ops \<longrightarrow> ih_entry_ok opu1 e"
    using assms(3) i(6) by (simp add: ih_entry_ok_def)
  from ihr.run_order [OF i(2) this assms(4)] i(3,4) ihr.bounded [of opu2]
  show ?thesis by simp
qed

theorem interrupt_ring_fifo_witness:
  "let opu = example_dev; opu1 = snd (opu_interrupt_init 0 True opu);
       ops = [Push (replicate 16 1), Push (replicate 16 2), Pop, Push (replicate 16 3)];
       (ins, outs, opu2) = fifo_run (\<lambda>e opu. enqueue_ih_ring_entry opu e) dequeue_ih_ring_entry ops opu1
   in outs @ ih_entries opu2 = ins \<and> length (ih_entries opu2) \<le> OPU_IH_NUM_ENTRIES"
proof -
  have e: "entry_size example_dev = 2 ^ 4" by (simp add: example_dev_defs)
  have p: "\<forall>e. Push e \<in> set [Push (replicate 16 1), Push (replicate 16 2), Pop, Push (replicate 16 3)] \<longrightarrow>
      length (e :: u8 list) = entry_size example_dev" using e by auto
  show ?thesis
    using interrupt_ring_fifo [OF e prod.collapse [symmetric] p]
    unfolding Let_def by (blast intro: case_prodI2)
qed

text \<open>
  The top half on every branch: nothing is enqueued before the device is up, after interrupts
  were disabled, for an entry larger than the patch buffer, or when the interrupt class does not
  want the entry; a wanted entry (the patched one if there is one) is appended to the ring and
  reported exactly when the ring is not full, and a full ring drops it and stays as it is.
\<close>

theorem kgd2opu_interrupt_spec:
  assumes "ih_wf opu" and "isr opu e = (wanted, p)" and "length (the_default e p) = entry_size opu"
  shows "kgd2opu_interrupt isr opu e =
    (if init_complete opu \<and> entry_size opu \<le> 32 \<and> interrupts_active opu \<and> wanted \<and>
        length (ih_entries opu) < ih_capacity opu
     then (True, opu\<lparr>ih_fifo := (ih_fifo opu)\<lparr>kfifo_data := kfifo_data (ih_fifo opu) @ the_default e p\<rparr>\<rparr>)
     else (False, opu))"
  using assms enqueue_eq [OF assms(1), of "the_default e p"]
  by (auto simp: kgd2opu_interrupt_def interrupt_is_wanted_def ih_entry_ok_def the_default_def
      split: bool.splits prod.splits option.splits)

definition busy_dev :: opu_dev where
  "busy_dev = (snd (opu_interrupt_init 0 True example_dev))\<lparr>init_complete := True\<rparr>"

lemma busy_dev_facts:
  "ih_wf busy_dev" "ih_entries busy_dev = []" "ih_capacity busy_dev = 8192" "interrupts_active busy_dev"
  "init_complete busy_dev" "entry_size busy_dev = 16"
proof -
  have e: "entry_size example_dev = 2 ^ 4" by (simp add: example_dev_defs)
  note i = opu_interrupt_init_ok [OF prod.collapse [symmetric] e]
  have f: "ih_wf (d\<lparr>init_complete := b\<rparr>) = ih_wf d" "ih_entries (d\<lparr>init_complete := b\<rparr>) = ih_entries d"
    "ih_capacity (d\<lparr>init_complete := b\<rparr>) = ih_capacity d" for d b
    by (simp_all add: ih_wf_def ih_entries_def ih_capacity_def)
  show "ih_wf busy_dev" "ih_entries busy_dev = []" "ih_capacity busy_dev = 8192" "interrupts_active busy_dev"
    "init_complete busy_dev" "entry_size busy_dev = 16"
    unfolding busy_dev_def f using i e by simp_all
qed

theorem kgd2opu_interrupt_spec_witness:
  "fst (kgd2opu_interrupt (\<lambda>d e. (True, None)) busy_dev (replicate 16 7))"
  using kgd2opu_interrupt_spec [OF busy_dev_facts(1), of "\<lambda>d e. (True, None)" "replicate 16 7" True None]
    busy_dev_facts
  by (simp add: the_default_def)

section \<open>The bottom half and shutdown\<close>

lemma interrupt_wq_loop_drains:
  assumes "\<And>d f. handler (d\<lparr>ih_fifo := f\<rparr>) = handler d"
  shows "ih_wf dev \<Longrightarrow> length (ih_entries dev) < fuel \<Longrightarrow>
    interrupt_wq_loop handler fuel dev h =
      Some (dev\<lparr>ih_fifo := (ih_fifo dev)\<lparr>kfifo_data := []\<rparr>\<rparr>, fold (handler dev) (ih_entries dev) h)"
proof (induction fuel arbitrary: dev h)
  case (Suc fuel)
  obtain b x dev' where d: "dequeue_ih_ring_entry dev = (b, x, dev')" by (metis prod_cases3)
  note law = ihr.pop_law [OF Suc.prems(1) d]
  show ?case
  proof (cases "ih_entries dev = []")
    case True
    then have "kfifo_data (ih_fifo dev) = []"
      using Suc.prems(1) by (auto simp: ih_wf_def ih_entries_def entries_of.simps [of "entry_size dev"]
          dest: dvd_imp_le split: if_splits)
    then show ?thesis using True Suc.prems(1) by (simp add: dequeue_eq)
  next
    case False
    with law have b: "b" and l: "ih_entries dev = x # ih_entries dev'" "ih_wf dev'" by auto
    have dev': "\<exists>bs. dev' = dev\<lparr>ih_fifo := (ih_fifo dev)\<lparr>kfifo_data := bs\<rparr>\<rparr>"
      using d False dequeue_eq [OF Suc.prems(1)] by auto
    then obtain bs where bs: "dev' = dev\<lparr>ih_fifo := (ih_fifo dev)\<lparr>kfifo_data := bs\<rparr>\<rparr>" ..
    with assms have "handler dev' = handler dev" by simp
    with Suc.IH [OF l(2), of "handler dev' x h"] Suc.prems(2) l(1) d b show ?thesis
      by (simp add: bs)
  qed
qed simp

text \<open>
  C36. Shutdown: once the fuel exceeds the number of pending entries, \<open>opu_interrupt_exit\<close> returns;
  every pending entry has been handed to the interrupt class in order, and from then on no
  interrupt reaches the freed ring.
\<close>

theorem opu_interrupt_exit_drains:
  assumes "ih_wf opu" and "entry_size opu \<le> 32" and "length (ih_entries opu) < fuel"
    and "\<And>d f. handler (d\<lparr>ih_fifo := f\<rparr>) = handler d"
  shows "\<exists>opu'. opu_interrupt_exit handler fuel opu h =
      Some (opu', fold (handler (opu\<lparr>interrupts_active := False\<rparr>)) (ih_entries opu) h) \<and>
    (\<forall>isr e. kgd2opu_interrupt isr opu' e = (False, opu'))"
proof -
  let ?o = "opu\<lparr>interrupts_active := False\<rparr>"
  have w: "ih_wf ?o" "ih_entries ?o = ih_entries opu" using assms(1)
    by (simp_all add: ih_wf_def ih_entries_def)
  have "interrupt_wq handler fuel ?o h =
      Some (?o\<lparr>ih_fifo := (ih_fifo ?o)\<lparr>kfifo_data := []\<rparr>\<rparr>, fold (handler ?o) (ih_entries opu) h)"
    using interrupt_wq_loop_drains [of handler ?o fuel h] assms(2-4) w
    by (simp add: interrupt_wq_def)
  then show ?thesis
    by (simp add: opu_interrupt_exit_def Let_def kgd2opu_interrupt_def)
qed

theorem opu_interrupt_exit_drains_witness:
  "\<exists>opu'. opu_interrupt_exit (\<lambda>d e h. e # h) 5 busy_dev [] = Some (opu', []) \<and>
     (\<forall>isr e. kgd2opu_interrupt isr opu' e = (False, opu'))"
  using opu_interrupt_exit_drains [OF busy_dev_facts(1), of 5 "\<lambda>d e h. e # h" "[]"] busy_dev_facts
  by simp

end
