(* ===== verification/Opu_Doorbell.thy ===== *)
theory Opu_Doorbell
  imports Opu_Dev
begin

text \<open>
  The doorbells of \<open>opu_doorbell.c\<close>: the aperture of the device is cut into one slice per
  process (slice 0 is the kernel's), a slice holds one doorbell per queue. The model keeps the
  64-bit and 32-bit arithmetic of the source; \<open>ioremap\<close> is a parameter.
\<close>

section \<open>Operations\<close>

text \<open>\<open>doorbell_size\<close> and the queue count are 32-bit, the page size is a 64-bit operand.\<close>

definition opu_doorbell_process_slice :: "opu_dev \<Rightarrow> u64" where
  "opu_doorbell_process_slice opu = roundup (ucast (dev_doorbell_size opu * 1024)) PAGE_SIZE"

definition opu_doorbell_init :: "(u64 \<Rightarrow> u64 \<Rightarrow> u64) \<Rightarrow> opu_dev \<Rightarrow> int \<times> opu_dev" where
  "opu_doorbell_init ioremap opu =
     (let slice = opu_doorbell_process_slice opu;
          start = roundup (doorbell_start_offset (shared_resources opu)) slice;
          size = rounddown (doorbell_aperture_size (shared_resources opu)) slice
      in if start < size then
           let limit = (size - start) div slice;
               opu1 = (if max_doorbell_slices opu = 0 \<or> limit < ucast (max_doorbell_slices opu)
                       then opu\<lparr>max_doorbell_slices := ucast limit\<rparr> else opu);
               opu2 = opu1\<lparr>doorbell_base := doorbell_physical_address (shared_resources opu) + start,
                           doorbell_base_dw_offset := start div 4\<rparr>;
               ptr = ioremap (doorbell_base opu2) slice;
               opu3 = opu2\<lparr>doorbell_kernel_ptr := ptr\<rparr>
           in if ptr = 0 then (- ENOMEM, opu3) else (0, opu3)
         else (- ENOSPC, opu))"

definition opu_doorbell_fini :: "(u64 \<Rightarrow> 'h \<Rightarrow> 'h) \<Rightarrow> opu_dev \<Rightarrow> 'h \<Rightarrow> 'h" where
  "opu_doorbell_fini iounmap opu h =
     (if doorbell_kernel_ptr opu \<noteq> 0 then iounmap (doorbell_kernel_ptr opu) h else h)"

definition opu_get_process_doorbells :: "opu_dev \<Rightarrow> u32 \<Rightarrow> u64" where
  "opu_get_process_doorbells opu doorbell_index =
     doorbell_base opu + ucast doorbell_index * opu_doorbell_process_slice opu"

text \<open>Mapping a process' doorbells into its address space. The process device data is looked
  up by the caller (\<open>None\<close> when there is none); what is mapped is the triple of the virtual
  start, the page frame and the size handed to \<open>io_remap_pfn_range\<close>, whose result is returned.\<close>

record vm_area =
  vm_start :: u64
  vm_end :: u64

definition opu_doorbell_mmap ::
  "(u64 \<Rightarrow> u64 \<Rightarrow> u64 \<Rightarrow> int) \<Rightarrow> opu_dev \<Rightarrow> u32 option \<Rightarrow> vm_area \<Rightarrow> int" where
  "opu_doorbell_mmap io_remap_pfn_range dev pdd_index vma =
     (if vm_end vma - vm_start vma \<noteq> opu_doorbell_process_slice dev then - EINVAL
      else case pdd_index of
             None \<Rightarrow> - EINVAL
           | Some doorbell_index \<Rightarrow>
               io_remap_pfn_range (vm_start vma)
                 (drop_bit 12 (opu_get_process_doorbells dev doorbell_index))
                 (opu_doorbell_process_slice dev))"

text \<open>Kernel doorbells. The bit of the found index is set before the index is checked, so an
  exhausted map gets its first bit past the end set; the model keeps that write. The result is
  the address of the doorbell (0 for NULL) and its offset in the BAR.\<close>

definition opu_get_kernel_doorbell :: "opu_dev \<Rightarrow> u64 \<times> u32 option \<times> opu_dev" where
  "opu_get_kernel_doorbell opu =
     (let inx = find_first_zero_bit (doorbell_available_index opu) OPU_MAX_NUM_OF_QUEUES_PER_PROCESS;
          opu' = opu\<lparr>doorbell_available_index := set_bit_at inx (doorbell_available_index opu)\<rparr>
      in if OPU_MAX_NUM_OF_QUEUES_PER_PROCESS \<le> inx then (0, None, opu')
         else let inx2 = (of_nat inx :: u32) * ucast (ucast (dev_doorbell_size opu) div (4 :: u64))
              in (doorbell_kernel_ptr opu + 4 * ucast inx2,
                  Some (ucast (doorbell_base_dw_offset opu + ucast inx2)), opu'))"

definition kernel_doorbell_index :: "opu_dev \<Rightarrow> u64 \<Rightarrow> u32" where
  "kernel_doorbell_index opu db_addr =
     ucast (ucast (ucast ((db_addr - doorbell_kernel_ptr opu) div 4) :: u32) * (4 :: u64)
            div ucast (dev_doorbell_size opu))"

definition opu_release_kernel_doorbell :: "opu_dev \<Rightarrow> u64 \<Rightarrow> opu_dev" where
  "opu_release_kernel_doorbell opu db_addr =
     opu\<lparr>doorbell_available_index :=
           clear_bit_at (unat (kernel_doorbell_index opu db_addr)) (doorbell_available_index opu)\<rparr>"

definition write_kernel_doorbell :: "u64 \<Rightarrow> u32 \<Rightarrow> (u64 \<times> u64) list" where
  "write_kernel_doorbell db v = (if db \<noteq> 0 then [(db, ucast v)] else [])"

definition write_kernel_doorbell64 :: "u64 \<Rightarrow> u64 \<Rightarrow> (u64 \<times> u64) list" where
  "write_kernel_doorbell64 db v = (if db \<noteq> 0 then [(db, v)] else [])"

text \<open>The product of the identifier and the doorbell size is 32-bit, the rest is 64-bit and
  truncated to 32 bits by the return type.\<close>

definition opu_get_doorbell_dw_offset_in_bar :: "opu_dev \<Rightarrow> u32 \<Rightarrow> u32 \<Rightarrow> u32" where
  "opu_get_doorbell_dw_offset_in_bar opu doorbell_index doorbell_id =
     ucast (doorbell_base_dw_offset opu
       + ucast doorbell_index * opu_doorbell_process_slice opu div 4
       + ucast (doorbell_id * dev_doorbell_size opu) div 4)"

definition opu_get_number_elems :: "opu_dev \<Rightarrow> u64" where
  "opu_get_number_elems opu =
     (doorbell_aperture_size (shared_resources opu) - doorbell_start_offset (shared_resources opu))
       div opu_doorbell_process_slice opu + 1"

text \<open>\<open>ida_simple_get(ida, 1, end)\<close> returns the lowest free identifier from 1 below \<open>end\<close>
  (no limit but the integer range when \<open>end\<close> is 0), or an error when there is none or when
  the tree node cannot be allocated.\<close>

definition ida_simple_get :: "bool \<Rightarrow> bitmap \<Rightarrow> nat \<Rightarrow> nat \<Rightarrow> int \<times> bitmap" where
  "ida_simple_get mem_ok ida start stop =
     (let lim = (if stop = 0 then 2 ^ 31 else stop);
          i = find_next_zero_bit ida lim start
      in if lim \<le> i then (- ENOSPC, ida)
         else if \<not> mem_ok then (- ENOMEM, ida)
         else (int i, set_bit_at i ida))"

definition opu_alloc_process_doorbells ::
  "bool \<Rightarrow> opu_dev \<Rightarrow> u32 \<Rightarrow> int \<times> u32 \<times> opu_dev" where
  "opu_alloc_process_doorbells mem_ok opu doorbell_index =
     (let (r, ida) = ida_simple_get mem_ok (doorbell_ida opu) 1 (unat (max_doorbell_slices opu))
      in (r, if r > 0 then word_of_int r else doorbell_index, opu\<lparr>doorbell_ida := ida\<rparr>))"

definition opu_free_process_doorbells :: "opu_dev \<Rightarrow> u32 \<Rightarrow> opu_dev" where
  "opu_free_process_doorbells opu doorbell_index =
     (if doorbell_index \<noteq> 0
      then opu\<lparr>doorbell_ida := clear_bit_at (unat doorbell_index) (doorbell_ida opu)\<rparr> else opu)"

text \<open>The doorbell map of a process (\<open>init_doorbell_bitmap\<close> of \<open>opu_process.c\<close>): the ranges the
  other engines use, and their mirror images, are marked as taken. The bounds are read as
  signed integers and compared as unsigned ones.\<close>

definition init_doorbell_bitmap :: "bool \<Rightarrow> opu_dev \<Rightarrow> int \<times> bitmap option" where
  "init_doorbell_bitmap mem_ok dev =
     (if \<not> soc15 (device_info dev) then (0, None)
      else if \<not> mem_ok then (- ENOMEM, None)
      else
        let a = unat (non_cp_doorbells_start (shared_resources dev));
            b = unat (non_cp_doorbells_end (shared_resources dev))
        in (0, Some (foldl (\<lambda>bm i. if a \<le> i \<and> i \<le> b
                then set_bit_at (i + OPU_QUEUE_DOORBELL_MIRROR_OFFSET) (set_bit_at i bm) else bm)
              (\<lambda>_. False) [0..<OPU_MAX_NUM_OF_QUEUES_PER_PROCESS div 2])))"

section \<open>Layout of the aperture\<close>

text \<open>The doorbell sizes of the supported chips; with them a slice is a whole number of pages.\<close>

definition doorbell_size_ok :: "opu_dev \<Rightarrow> bool" where
  "doorbell_size_ok opu \<longleftrightarrow> dev_doorbell_size opu = 4 \<or> dev_doorbell_size opu = 8"

lemma unat_slice:
  "doorbell_size_ok opu \<Longrightarrow>
     unat (opu_doorbell_process_slice opu) = 1024 * unat (dev_doorbell_size opu)"
  by (auto simp: doorbell_size_ok_def opu_doorbell_process_slice_def roundup_def)

lemma slice_values:
  "doorbell_size_ok opu \<Longrightarrow>
     opu_doorbell_process_slice opu = 4096 \<or> opu_doorbell_process_slice opu = 8192"
  by (auto simp: doorbell_size_ok_def opu_doorbell_process_slice_def roundup_def)

lemma doorbell_init_slice [simp]:
  "opu_doorbell_process_slice (opu\<lparr>max_doorbell_slices := a\<rparr>) = opu_doorbell_process_slice opu"
  "opu_doorbell_process_slice (opu\<lparr>doorbell_base := b\<rparr>) = opu_doorbell_process_slice opu"
  "opu_doorbell_process_slice (opu\<lparr>doorbell_base_dw_offset := c\<rparr>) = opu_doorbell_process_slice opu"
  "opu_doorbell_process_slice (opu\<lparr>doorbell_kernel_ptr := d\<rparr>) = opu_doorbell_process_slice opu"
  by (simp_all add: opu_doorbell_process_slice_def)

text \<open>What a successful initialisation establishes, in natural numbers.\<close>

lemma doorbell_init_success:
  assumes "doorbell_size_ok opu"
    and "unat (doorbell_start_offset (shared_resources opu)) < 2 ^ 63"
    and "opu_doorbell_init ioremap opu = (0, opu')"
  obtains start slice where
    "slice = unat (opu_doorbell_process_slice opu)"
    "unat (doorbell_start_offset (shared_resources opu)) \<le> start" "slice dvd start"
    "start + unat (max_doorbell_slices opu') * slice
       \<le> unat (doorbell_aperture_size (shared_resources opu))"
    "doorbell_base opu' = doorbell_physical_address (shared_resources opu) + of_nat start"
    "doorbell_base_dw_offset opu' = of_nat (start div 4)"
    "opu_doorbell_process_slice opu' = opu_doorbell_process_slice opu"
proof -
  define w where "w = opu_doorbell_process_slice opu"
  define st where "st = roundup (doorbell_start_offset (shared_resources opu)) w"
  define sz where "sz = rounddown (doorbell_aperture_size (shared_resources opu)) w"
  define lim where "lim = (sz - st) div w"
  have w: "unat w = 4096 \<or> unat w = 8192" "w \<noteq> 0"
    using slice_values [OF assms(1)] by (auto simp: w_def)
  have "unat (doorbell_start_offset (shared_resources opu)) + (unat w - 1) < 2 ^ 64"
    using assms(2) w by auto
  note rb = roundup_bounds [OF w(2) this, folded st_def]
  have lt: "st < sz" and base: "doorbell_base opu' = doorbell_physical_address (shared_resources opu) + st"
    and dw: "doorbell_base_dw_offset opu' = st div 4"
    and max: "unat (max_doorbell_slices opu') \<le> unat lim"
    and sl: "opu_doorbell_process_slice opu' = w"
    using assms(3) unat_ucast_u64_le [of lim]
    by (auto simp: opu_doorbell_init_def Let_def w_def st_def sz_def lim_def
          word_less_nat_alt not_less split: if_splits)
  have "unat (sz - st) = unat sz - unat st"
    using lt by (simp add: unat_sub_le word_less_nat_alt)
  then have "unat lim * unat w \<le> unat sz - unat st"
    by (simp add: lim_def unat_div)
  moreover have "unat (max_doorbell_slices opu') * unat w \<le> unat lim * unat w"
    using max by (rule mult_le_mono1)
  moreover have "unat sz \<le> unat (doorbell_aperture_size (shared_resources opu))"
    by (simp add: sz_def unat_rounddown)
  ultimately have fits: "unat st + unat (max_doorbell_slices opu') * unat w
      \<le> unat (doorbell_aperture_size (shared_resources opu))"
    using lt unfolding word_less_nat_alt by linarith
  show ?thesis
    by (rule that [of "unat w" "unat st"])
      (use rb fits base dw sl in \<open>auto simp: w_def word_div_of_nat [of st]\<close>)
qed

section \<open>Properties of the aperture\<close>

lemma process_doorbells_unat:
  assumes "doorbell_size_ok opu"
    and "unat (doorbell_start_offset (shared_resources opu)) < 2 ^ 63"
    and "unat (doorbell_physical_address (shared_resources opu))
           + unat (doorbell_aperture_size (shared_resources opu)) < 2 ^ 64"
    and init: "opu_doorbell_init ioremap opu = (0, opu')"
    and "idx < max_doorbell_slices opu'"
  obtains start where
    "unat (opu_get_process_doorbells opu' idx) = unat (doorbell_physical_address (shared_resources opu))
       + start + unat idx * unat (opu_doorbell_process_slice opu)"
    "unat (doorbell_start_offset (shared_resources opu)) \<le> start"
    "start + (unat idx + 1) * unat (opu_doorbell_process_slice opu)
       \<le> unat (doorbell_aperture_size (shared_resources opu))"
    "unat (opu_doorbell_process_slice opu) dvd start"
proof -
  from doorbell_init_success [OF assms(1,2) init] obtain start slice where
    sl: "slice = unat (opu_doorbell_process_slice opu)" and
    ge: "unat (doorbell_start_offset (shared_resources opu)) \<le> start" and dv: "slice dvd start" and
    fits: "start + unat (max_doorbell_slices opu') * slice
       \<le> unat (doorbell_aperture_size (shared_resources opu))" and
    base: "doorbell_base opu' = doorbell_physical_address (shared_resources opu) + of_nat start" and
    same: "opu_doorbell_process_slice opu' = opu_doorbell_process_slice opu"
    by metis
  have "(unat idx + 1) * slice \<le> unat (max_doorbell_slices opu') * slice"
    using assms(5) by (intro mult_le_mono1) (simp add: word_less_nat_alt)
  then have fits': "start + (unat idx + 1) * slice \<le> unat (doorbell_aperture_size (shared_resources opu))"
    using fits by linarith
  have "of_nat (unat (doorbell_physical_address (shared_resources opu)) + start + unat idx * slice)
      = opu_get_process_doorbells opu' idx"
    by (simp add: opu_get_process_doorbells_def base same sl)
  moreover have "unat (doorbell_physical_address (shared_resources opu)) + start + unat idx * slice
      < 2 ^ LENGTH(64)"
    using fits' assms(3) by simp
  ultimately have "unat (opu_get_process_doorbells opu' idx)
      = unat (doorbell_physical_address (shared_resources opu)) + start + unat idx * slice"
    using unat_of_nat_fits by metis
  then show ?thesis using that [of start] ge fits' dv sl by simp
qed


definition example_dev_db :: opu_dev where
  "example_dev_db = snd (opu_doorbell_init (\<lambda>a _. a) example_dev)"

lemma example_doorbell_init:
  "opu_doorbell_init (\<lambda>a _. a) example_dev = (0, example_dev_db)"
  "max_doorbell_slices example_dev_db = 255" "doorbell_size_ok example_dev"
  by (auto simp: example_dev_db_def opu_doorbell_init_def opu_doorbell_process_slice_def roundup_def
      rounddown_def example_dev_defs Let_def doorbell_size_ok_def)


text \<open>
  Two doorbells of a device never share a dword of the BAR: the dword offset of doorbell
  \<open>id\<close> of the process with index \<open>idx\<close> determines both the process and the doorbell, as
  long as the aperture ends below the 4 GiB the 32-bit offset can address.
\<close>

theorem doorbell_dw_offset_injective:
  assumes "doorbell_size_ok opu"
    and "unat (doorbell_base_dw_offset opu)
           + (unat (max_doorbell_slices opu) * unat (opu_doorbell_process_slice opu)) div 4 < 2 ^ 32"
    and "idx < max_doorbell_slices opu" and "idx' < max_doorbell_slices opu"
    and "unat i < OPU_MAX_NUM_OF_QUEUES_PER_PROCESS" and "unat i' < OPU_MAX_NUM_OF_QUEUES_PER_PROCESS"
    and "opu_get_doorbell_dw_offset_in_bar opu idx i = opu_get_doorbell_dw_offset_in_bar opu idx' i'"
  shows "idx = idx' \<and> i = i'"
proof -
  define k where "k = unat (dev_doorbell_size opu) div 4"
  have k: "k = 1 \<or> k = 2" and ds: "unat (dev_doorbell_size opu) = 4 * k"
    using assms(1) by (auto simp: k_def doorbell_size_ok_def)
  have sl: "unat (opu_doorbell_process_slice opu) = 4096 * k"
    using unat_slice [OF assms(1)] ds by simp
  have val: "unat (opu_get_doorbell_dw_offset_in_bar opu x j)
      = unat (doorbell_base_dw_offset opu) + (unat x * 1024 + unat j) * k"
    if x: "x < max_doorbell_slices opu" and j: "unat j < 1024" for x j
  proof -
    have xm: "unat x + 1 \<le> unat (max_doorbell_slices opu)" using x by (simp add: word_less_nat_alt)
    have "(unat x + 1) * (1024 * k) \<le> unat (max_doorbell_slices opu) * (1024 * k)"
      using xm by (rule mult_le_mono1)
    then have bound: "unat (doorbell_base_dw_offset opu) + (unat x + 1) * (1024 * k) < 2 ^ 32"
      using assms(2) sl k by auto
    have "unat x < 2 ^ LENGTH(32)" by (rule unsigned_less)
    then have xs: "unat x * (4096 * k) < 2 ^ 64" using k by auto
    have jd: "unat (j * dev_doorbell_size opu) = unat j * (4 * k)"
      using j k ds by (subst unat_mult_fits) auto
    have m1: "unat (ucast x * opu_doorbell_process_slice opu div 4 :: u64) = unat x * (1024 * k)"
      using xs sl by (subst unat_div) (simp add: unat_mult_fits)
    have m2: "unat (ucast (j * dev_doorbell_size opu) div 4 :: u64) = unat j * k"
      by (simp add: unat_div jd)
    have tot: "unat (doorbell_base_dw_offset opu) + unat x * (1024 * k) + unat j * k < 2 ^ 32"
      using bound j k by auto
    have sum1: "unat (doorbell_base_dw_offset opu + ucast x * opu_doorbell_process_slice opu div 4)
       = unat (doorbell_base_dw_offset opu) + unat x * (1024 * k)"
      using bound m1 by (subst unat_add_fits) simp_all
    have sum2: "unat (doorbell_base_dw_offset opu + ucast x * opu_doorbell_process_slice opu div 4
         + ucast (j * dev_doorbell_size opu) div 4)
       = unat (doorbell_base_dw_offset opu) + unat x * (1024 * k) + unat j * k"
      using tot m2 sum1 by (subst unat_add_fits) simp_all
    show ?thesis
      using sum2 tot unfolding opu_get_doorbell_dw_offset_in_bar_def
      by (subst unat_ucast_u64) (simp_all add: algebra_simps)
  qed
  have "(unat idx * 1024 + unat i) * k = (unat idx' * 1024 + unat i') * k"
    using assms(7) val [OF assms(3,5)] val [OF assms(4,6)] by auto
  then have eq: "unat idx * 1024 + unat i = unat idx' * 1024 + unat i'" using k by auto
  have "unat idx = unat idx'"
    using arg_cong [OF eq, of "\<lambda>n. n div 1024"] assms(5,6) by simp
  with eq show ?thesis by (simp add: word_unat_eq_iff)
qed

lemma doorbell_dw_offset_injective_witness:
  "opu_get_doorbell_dw_offset_in_bar example_dev_db 3 17
     \<noteq> opu_get_doorbell_dw_offset_in_bar example_dev_db 4 17"
proof
  have ok: "doorbell_size_ok example_dev_db"
    by (simp add: example_dev_db_def opu_doorbell_init_def opu_doorbell_process_slice_def roundup_def
      rounddown_def example_dev_defs Let_def doorbell_size_ok_def)
  have fits: "unat (doorbell_base_dw_offset example_dev_db)
      + (unat (max_doorbell_slices example_dev_db) * unat (opu_doorbell_process_slice example_dev_db)) div 4
      < 2 ^ 32"
    by (simp add: example_dev_db_def opu_doorbell_init_def opu_doorbell_process_slice_def roundup_def
      rounddown_def example_dev_defs Let_def)
  assume "opu_get_doorbell_dw_offset_in_bar example_dev_db 3 17
     = opu_get_doorbell_dw_offset_in_bar example_dev_db 4 17"
  then have "(3 :: u32) = 4"
    using doorbell_dw_offset_injective [OF ok fits, of 3 4 17 17] by (simp add: example_doorbell_init)
  then show False by simp
qed

section \<open>Kernel doorbells\<close>

definition kernel_doorbell_addr :: "opu_dev \<Rightarrow> nat \<Rightarrow> u64" where
  "kernel_doorbell_addr opu i =
     doorbell_kernel_ptr opu + 4 * ucast ((of_nat i :: u32) * ucast (ucast (dev_doorbell_size opu) div (4 :: u64)))"

lemma kernel_doorbell_index_addr:
  assumes "doorbell_size_ok opu" and "i < OPU_MAX_NUM_OF_QUEUES_PER_PROCESS"
  shows "unat (kernel_doorbell_index opu (kernel_doorbell_addr opu i)) = i"
proof -
  obtain k :: nat where k: "k = 1 \<or> k = 2" and ds: "dev_doorbell_size opu = of_nat (4 * k)"
    using assms(1) by (auto simp: doorbell_size_ok_def intro: that [of 1] that [of 2])
  have k32: "ucast (ucast (dev_doorbell_size opu) div (4 :: u64)) = (of_nat k :: u32)"
    using k ds by auto
  have inx: "unat ((of_nat i :: u32) * of_nat k) = i * k"
    using k assms(2) unat_of_nat_fits [where 'w = 32, of "i * k"] by auto
  define d :: u64 where "d = 4 * ucast ((of_nat i :: u32) * of_nat k)"
  have "unat d = 4 * (i * k)"
    unfolding d_def using k assms(2) inx by (subst unat_mult_fits) auto
  then have d4: "unat (d div 4) = i * k" by (simp add: unat_div)
  then have u1: "unat (ucast (d div 4) :: u32) = i * k"
    using k assms(2) by (subst unat_ucast_u64) auto
  have u2: "unat (ucast (ucast (d div 4) :: u32) * 4 :: u64) = 4 * (i * k)"
    using u1 k assms(2) by (subst unat_mult_fits) auto
  have u3: "unat (ucast (dev_doorbell_size opu) :: u64) = 4 * k"
    using ds k by auto
  have u4: "unat (ucast (ucast (d div 4) :: u32) * (4 :: u64) div ucast (dev_doorbell_size opu)) = i"
    using u2 u3 k by (subst unat_div) auto
  have "kernel_doorbell_addr opu i - doorbell_kernel_ptr opu = d"
    by (simp add: kernel_doorbell_addr_def d_def k32)
  then show ?thesis
    using u4 assms(2) unfolding kernel_doorbell_index_def by (subst unat_ucast_u64) simp_all
qed

text \<open>The allocator as its callers see it: the doorbell's index, and the device afterwards.\<close>

definition kernel_doorbell_get :: "opu_dev \<Rightarrow> (nat \<times> opu_dev) option" where
  "kernel_doorbell_get opu =
     (case opu_get_kernel_doorbell opu of
        (db, None, opu') \<Rightarrow> None
      | (db, Some off, opu') \<Rightarrow> Some (unat (kernel_doorbell_index opu db), opu'))"

definition kernel_doorbell_put :: "nat \<Rightarrow> opu_dev \<Rightarrow> opu_dev" where
  "kernel_doorbell_put i opu = opu_release_kernel_doorbell opu (kernel_doorbell_addr opu i)"

definition kernel_doorbells_used :: "opu_dev \<Rightarrow> nat set" where
  "kernel_doorbells_used opu =
     {i. i < OPU_MAX_NUM_OF_QUEUES_PER_PROCESS \<and> doorbell_available_index opu i}"

lemma kernel_doorbell_get_eq:
  assumes "doorbell_size_ok opu"
  shows "kernel_doorbell_get opu =
    (let i = find_first_zero_bit (doorbell_available_index opu) OPU_MAX_NUM_OF_QUEUES_PER_PROCESS
     in if OPU_MAX_NUM_OF_QUEUES_PER_PROCESS \<le> i then None
        else Some (i, opu\<lparr>doorbell_available_index := set_bit_at i (doorbell_available_index opu)\<rparr>))"
  using kernel_doorbell_index_addr [OF assms]
  by (auto simp: kernel_doorbell_get_def opu_get_kernel_doorbell_def Let_def kernel_doorbell_addr_def)

interpretation kdb: slot_allocator kernel_doorbell_get kernel_doorbell_put kernel_doorbells_used
  "{..<OPU_MAX_NUM_OF_QUEUES_PER_PROCESS}" doorbell_size_ok
proof (unfold_locales, goal_cases)
  case 1
  show ?case by simp
next
  case (2 s i s')
  define f where "f = find_first_zero_bit (doorbell_available_index s) OPU_MAX_NUM_OF_QUEUES_PER_PROCESS"
  have f: "f < 1024" "i = f"
    and s': "s' = s\<lparr>doorbell_available_index := set_bit_at f (doorbell_available_index s)\<rparr>"
    using 2 by (auto simp: kernel_doorbell_get_eq f_def Let_def split: if_splits)
  have "\<not> doorbell_available_index s f"
    using find_first_zero_bit_facts(2) f unfolding f_def by blast
  with f s' 2(1) show ?case
    by (auto simp: kernel_doorbells_used_def set_bit_at_def doorbell_size_ok_def)
next
  case (3 s)
  then show ?case
    by (auto simp: kernel_doorbell_get_eq kernel_doorbells_used_def Let_def find_first_zero_bit_full
        split: if_splits)
next
  case (4 s i)
  then show ?case
    using kernel_doorbell_index_addr [of s i]
    by (auto simp: kernel_doorbells_used_def kernel_doorbell_put_def opu_release_kernel_doorbell_def
        clear_bit_at_def doorbell_size_ok_def)
qed

text \<open>
  Kernel doorbells are handed out exclusively and completely: from any device state with a
  supported doorbell size, \<open>n\<close> calls of \<open>opu_get_kernel_doorbell\<close> succeed exactly when \<open>n\<close>
  of the 1024 doorbells of the first slice are free, and then give pairwise different doorbells
  that nobody held before.
\<close>

theorem kernel_doorbells_exclusive:
  assumes "doorbell_size_ok opu"
  shows "((\<exists>r. get_many kernel_doorbell_get n opu = Some r) \<longleftrightarrow>
      n \<le> card ({..<OPU_MAX_NUM_OF_QUEUES_PER_PROCESS} - kernel_doorbells_used opu)) \<and>
    (\<forall>is opu'. get_many kernel_doorbell_get n opu = Some (is, opu') \<longrightarrow>
      distinct is \<and> length is = n \<and> set is \<inter> kernel_doorbells_used opu = {} \<and>
      kernel_doorbells_used opu' = set is \<union> kernel_doorbells_used opu)"
  using kdb.get_many_succeeds_iff [OF assms] kdb.get_many_distinct [OF assms] by auto

lemma kernel_doorbells_exclusive_witness:
  "\<exists>is opu'. get_many kernel_doorbell_get 1024 example_dev_db = Some (is, opu') \<and>
     distinct is \<and> length is = 1024"
proof -
  have ok: "doorbell_size_ok example_dev_db" and none: "kernel_doorbells_used example_dev_db = {}"
    by (simp_all add: example_dev_db_def opu_doorbell_init_def opu_doorbell_process_slice_def roundup_def
      rounddown_def example_dev_defs Let_def doorbell_size_ok_def kernel_doorbells_used_def)
  from kernel_doorbells_exclusive [OF ok, of 1024] none
  obtain "is" opu' where "get_many kernel_doorbell_get 1024 example_dev_db = Some (is, opu')"
    by auto
  with kernel_doorbells_exclusive [OF ok, of 1024] show ?thesis by blast
qed

lemma release_get_kernel_doorbell:
  assumes "doorbell_size_ok opu" and "opu_get_kernel_doorbell opu = (db, Some off, opu')"
  shows "opu_release_kernel_doorbell opu' db = opu"
proof -
  define f where "f = find_first_zero_bit (doorbell_available_index opu) OPU_MAX_NUM_OF_QUEUES_PER_PROCESS"
  have f: "f < 1024" and db: "db = kernel_doorbell_addr opu f"
    and opu': "opu' = opu\<lparr>doorbell_available_index := set_bit_at f (doorbell_available_index opu)\<rparr>"
    using assms(2)
    by (auto simp: opu_get_kernel_doorbell_def Let_def f_def kernel_doorbell_addr_def split: if_splits)
  have "\<not> doorbell_available_index opu f"
    using find_first_zero_bit_facts(2) f unfolding f_def by blast
  then have clear: "(doorbell_available_index opu)(f := False) = doorbell_available_index opu"
    by (simp add: fun_upd_idem_iff)
  have "unat (kernel_doorbell_index opu' db) = f"
    using kernel_doorbell_index_addr [OF assms(1) f] by (simp add: opu' db kernel_doorbell_index_def)
  then show ?thesis
    using clear by (simp add: opu_release_kernel_doorbell_def opu' clear_bit_at_def set_bit_at_def)
qed

text \<open>
  Releasing the kernel doorbell just obtained restores the device: the address handed out
  by \<open>opu_get_kernel_doorbell\<close> is mapped back by \<open>opu_release_kernel_doorbell\<close> to the very bit
  that was taken, for both doorbell sizes.
\<close>

theorem kernel_doorbell_roundtrip:
  assumes "doorbell_size_ok opu" and "opu_get_kernel_doorbell opu = (db, Some off, opu')"
  shows "opu_release_kernel_doorbell opu' db = opu"
  using assms by (rule release_get_kernel_doorbell)

lemma kernel_doorbell_roundtrip_witness:
  "opu_release_kernel_doorbell (snd (snd (opu_get_kernel_doorbell example_dev)))
     (fst (opu_get_kernel_doorbell example_dev)) = example_dev"
proof -
  have ok: "doorbell_size_ok example_dev" by (rule example_doorbell_init(3))
  have "find_first_zero_bit (doorbell_available_index example_dev) 1024 = 0"
    by (simp add: find_first_zero_bit_def find_next_zero_bit.simps example_dev_def)
  then obtain off where eq: "opu_get_kernel_doorbell example_dev =
      (fst (opu_get_kernel_doorbell example_dev), Some off, snd (snd (opu_get_kernel_doorbell example_dev)))"
    by (auto simp: opu_get_kernel_doorbell_def Let_def)
  show ?thesis by (rule kernel_doorbell_roundtrip [OF ok eq])
qed

text \<open>
  When all 1024 kernel doorbells are taken, \<open>opu_get_kernel_doorbell\<close> returns NULL, but it
  has already set bit 1024, the first bit behind the bit map of 1024 bits.
\<close>

theorem kernel_doorbell_exhausted_writes_past_end:
  assumes "\<forall>i < OPU_MAX_NUM_OF_QUEUES_PER_PROCESS. doorbell_available_index opu i"
  shows "opu_get_kernel_doorbell opu =
    (0, None, opu\<lparr>doorbell_available_index :=
        (doorbell_available_index opu)(OPU_MAX_NUM_OF_QUEUES_PER_PROCESS := True)\<rparr>)"
proof -
  have "find_first_zero_bit (doorbell_available_index opu) OPU_MAX_NUM_OF_QUEUES_PER_PROCESS = 1024"
    using assms find_first_zero_bit_full [of 1024 "doorbell_available_index opu"]
      find_first_zero_bit_facts(1) [of "doorbell_available_index opu" 1024] by simp
  then show ?thesis by (simp add: opu_get_kernel_doorbell_def set_bit_at_def)
qed

lemma kernel_doorbell_exhausted_witness:
  "doorbell_available_index (snd (snd (opu_get_kernel_doorbell
     (example_dev\<lparr>doorbell_available_index := (\<lambda>i. i < 1024)\<rparr>)))) 1024"
  using kernel_doorbell_exhausted_writes_past_end
    [of "example_dev\<lparr>doorbell_available_index := (\<lambda>i. i < 1024)\<rparr>"] by simp

section \<open>Process doorbells\<close>

definition process_doorbell_get :: "opu_dev \<Rightarrow> (nat \<times> opu_dev) option" where
  "process_doorbell_get opu =
     (case opu_alloc_process_doorbells True opu 0 of
        (r, idx, opu') \<Rightarrow> if r > 0 then Some (unat idx, opu') else None)"

definition process_doorbell_put :: "nat \<Rightarrow> opu_dev \<Rightarrow> opu_dev" where
  "process_doorbell_put i opu = opu_free_process_doorbells opu (of_nat i)"

definition process_slices :: "nat \<Rightarrow> nat set" where
  "process_slices n = {1..<n}"

lemma ida_simple_get_eq:
  assumes "0 < stop"
  shows "ida_simple_get True ida start stop =
    (let i = find_next_zero_bit ida stop start
     in if stop \<le> i then (- ENOSPC, ida) else (int i, set_bit_at i ida))"
  using assms by (simp add: ida_simple_get_def Let_def)

interpretation pdb: slot_allocator process_doorbell_get process_doorbell_put
  "\<lambda>opu. {i. doorbell_ida opu i}" "process_slices n"
  "\<lambda>opu. 0 < n \<and> n < 2 ^ 31 \<and> unat (max_doorbell_slices opu) = n" for n
proof (unfold_locales, goal_cases)
  case 1
  show ?case by (simp add: process_slices_def)
next
  case (2 s i s')
  define f where "f = find_next_zero_bit (doorbell_ida s) n 1"
  have lt: "f < n" and eq: "i = unat (word_of_int (int f) :: u32)"
    and s': "s' = s\<lparr>doorbell_ida := set_bit_at f (doorbell_ida s)\<rparr>" and pos: "0 < f"
    using 2 by (auto simp: process_doorbell_get_def opu_alloc_process_doorbells_def ida_simple_get_eq
        f_def Let_def split: if_splits)
  have "i = f" using eq lt 2(1) by (simp add: unat_of_nat)
  moreover have "\<not> doorbell_ida s f"
    using find_next_zero_bit_zero lt unfolding f_def by blast
  ultimately show ?case using lt pos s' 2(1)
    by (auto simp: process_slices_def set_bit_at_def)
next
  case (3 s)
  define f where "f = find_next_zero_bit (doorbell_ida s) n 1"
  have "f = n"
  proof (rule ccontr)
    assume "f \<noteq> n"
    then have "f < n" using find_next_zero_bit_le [of "doorbell_ida s" n 1] by (simp add: f_def)
    moreover have "1 \<le> f" using find_next_zero_bit_ge [of 1 n "doorbell_ida s"] 3(1) by (simp add: f_def)
    ultimately show False using 3
      by (auto simp: process_doorbell_get_def opu_alloc_process_doorbells_def ida_simple_get_eq
          f_def Let_def split: if_splits)
  qed
  then show ?case
    using find_next_zero_bit_full [of "doorbell_ida s" n 1]
    by (auto simp: f_def process_slices_def)
next
  case (4 s i)
  then have "unat (of_nat i :: u32) = i" and "(of_nat i :: u32) \<noteq> 0"
    using unat_of_nat_fits [where 'w = 32, of i]
    by (auto simp: process_slices_def dest: arg_cong [of _ 0 unat])
  then show ?case using 4
    by (auto simp: process_doorbell_put_def opu_free_process_doorbells_def clear_bit_at_def)
qed

text \<open>
  C34. Process doorbell slices are exclusive: slice 0 stays with the kernel, \<open>k\<close> processes can
  be given a slice exactly when \<open>k\<close> of the slices \<open>1 .. max_doorbell_slices - 1\<close> are free, the
  slices given are pairwise different, and a freed slice can be given again.
\<close>

theorem process_doorbells_exclusive:
  assumes "0 < max_doorbell_slices opu" and "unat (max_doorbell_slices opu) < 2 ^ 31"
  shows "((\<exists>r. get_many process_doorbell_get k opu = Some r) \<longleftrightarrow>
      k \<le> card ({1..<unat (max_doorbell_slices opu)} - {i. doorbell_ida opu i})) \<and>
    (\<forall>is opu'. get_many process_doorbell_get k opu = Some (is, opu') \<longrightarrow>
      distinct is \<and> length is = k \<and> 0 \<notin> set is \<and>
      (\<forall>i \<in> set is. i < unat (max_doorbell_slices opu) \<and> \<not> doorbell_ida opu i \<and>
         (\<exists>j opu''. process_doorbell_get (process_doorbell_put i opu') = Some (j, opu''))))"
proof -
  let ?n = "unat (max_doorbell_slices opu)"
  have ok: "0 < ?n \<and> ?n < 2 ^ 31 \<and> unat (max_doorbell_slices opu) = ?n"
    using assms by (simp add: word_less_nat_alt)
  note many = pdb.get_many_distinct [OF ok]
  have "\<exists>j opu''. process_doorbell_get (process_doorbell_put i opu') = Some (j, opu'')"
    if "get_many process_doorbell_get k opu = Some (is, opu')" "i \<in> set is" for "is" opu' i
  proof -
    from many [OF that(1)] that(2)
    have "i \<in> process_slices ?n" "i \<in> {i. doorbell_ida opu' i}"
      and ok': "0 < ?n \<and> ?n < 2 ^ 31 \<and> unat (max_doorbell_slices opu') = ?n" by auto
    with pdb.put_get [OF ok'] show ?thesis by blast
  qed
  moreover have "\<forall>is opu'. get_many process_doorbell_get k opu = Some (is, opu') \<longrightarrow>
      distinct is \<and> length is = k \<and> 0 \<notin> set is \<and>
      (\<forall>i \<in> set is. i < ?n \<and> \<not> doorbell_ida opu i)"
    using many by (fastforce simp: process_slices_def)
  ultimately show ?thesis
    using pdb.get_many_succeeds_iff [OF ok, of k] by (auto simp: process_slices_def)
qed

lemma process_doorbells_exclusive_witness:
  "\<exists>is opu'. get_many process_doorbell_get 254 example_dev_db = Some (is, opu') \<and> distinct is"
proof -
  have h: "0 < max_doorbell_slices example_dev_db" "unat (max_doorbell_slices example_dev_db) < 2 ^ 31"
    by (simp_all add: example_doorbell_init)
  have none: "{i. doorbell_ida example_dev_db i} = {}"
    by (simp add: example_dev_db_def opu_doorbell_init_def example_dev_defs Let_def)
  from process_doorbells_exclusive [OF h, of 254] none show ?thesis
    by (auto simp: example_doorbell_init)
qed

section \<open>The doorbells reserved for other engines\<close>

lemma foldl_mark:
  "foldl (\<lambda>bm i. if a \<le> i \<and> i \<le> b then set_bit_at (i + m) (set_bit_at i bm) else bm) bm is j
     \<longleftrightarrow> bm j \<or> (\<exists>i \<in> set is. a \<le> i \<and> i \<le> b \<and> (j = i \<or> j = i + m))"
  by (induction "is" arbitrary: bm) (auto simp: set_bit_at_def)

lemma init_doorbell_bitmap_bits:
  assumes "init_doorbell_bitmap mem_ok dev = (0, Some bm)"
  shows "bm j \<longleftrightarrow>
    (\<exists>i < 512. unat (non_cp_doorbells_start (shared_resources dev)) \<le> i \<and>
        i \<le> unat (non_cp_doorbells_end (shared_resources dev)) \<and>
        (j = i \<or> j = i + OPU_QUEUE_DOORBELL_MIRROR_OFFSET))"
proof -
  have "bm = foldl (\<lambda>bm i. if unat (non_cp_doorbells_start (shared_resources dev)) \<le> i
          \<and> i \<le> unat (non_cp_doorbells_end (shared_resources dev))
        then set_bit_at (i + OPU_QUEUE_DOORBELL_MIRROR_OFFSET) (set_bit_at i bm) else bm)
      (\<lambda>_. False) [0..<512]"
    using assms by (auto simp: init_doorbell_bitmap_def Let_def split: if_splits)
  then show ?thesis by (simp only: foldl_mark set_upt) fastforce
qed

end
