(* ===== verification/Opu_Gtt_Sa.thy ===== *)
theory Opu_Gtt_Sa
  imports Opu_Dev
begin

text \<open>
  The GTT sub-allocator of \<open>opu_device.c\<close>: a buffer cut into equal chunks, a bit per chunk,
  and a first-fit search for a run of free chunks. The two loops of \<open>opu_gtt_sa_allocate\<close>
  (the restarts of the search and the extension of a run) are the functions \<open>gtt_search\<close> and
  \<open>gtt_extend\<close>; chunk numbers are bounded by the 32-bit chunk count and kept as naturals, sizes
  are 32-bit words.
\<close>

section \<open>Operations\<close>

record opu_mem_obj =
  range_start :: nat
  range_end :: nat
  gpu_addr :: u64
  cpu_ptr :: u64

definition opu_gtt_sa_init :: "(nat \<Rightarrow> bool) \<Rightarrow> opu_dev \<Rightarrow> u32 \<Rightarrow> u32 \<Rightarrow> int \<times> opu_dev" where
  "opu_gtt_sa_init kcalloc_ok opu buf_size chunk_size =
     (if buf_size < chunk_size then (- EINVAL, opu)
      else if buf_size = 0 then (- EINVAL, opu)
      else if chunk_size = 0 then (- EINVAL, opu)
      else
        let opu1 = opu\<lparr>gtt_sa_chunk_size := chunk_size, gtt_sa_num_of_chunks := buf_size div chunk_size\<rparr>;
            num_of_longs = (gtt_sa_num_of_chunks opu1 + 64 - 1) div 64
        in if \<not> kcalloc_ok (unat num_of_longs) then (- ENOMEM, opu1)
           else (0, opu1\<lparr>gtt_sa_bitmap := (\<lambda>_. False)\<rparr>))"

definition opu_gtt_sa_calc_gpu_addr :: "u64 \<Rightarrow> nat \<Rightarrow> u32 \<Rightarrow> u64" where
  "opu_gtt_sa_calc_gpu_addr start_addr bit_num chunk_size =
     start_addr + ucast ((of_nat bit_num :: u32) * chunk_size)"

definition opu_gtt_sa_calc_cpu_addr :: "u64 \<Rightarrow> nat \<Rightarrow> u32 \<Rightarrow> u64" where
  "opu_gtt_sa_calc_cpu_addr start_addr bit_num chunk_size =
     start_addr + ucast ((of_nat bit_num :: u32) * chunk_size)"

datatype gtt_extension = Restart nat | NoFreeChunk | Extended nat

text \<open>The \<open>do ... while\<close> loop: \<open>found\<close> is the last chunk of the run so far, \<open>cur_size\<close> what is
  still missing.\<close>

function gtt_extend :: "bitmap \<Rightarrow> nat \<Rightarrow> u32 \<Rightarrow> nat \<Rightarrow> u32 \<Rightarrow> gtt_extension" where
  "gtt_extend bm n chunk found cur_size =
     (let range_end = find_next_zero_bit bm n (Suc found)
      in if range_end \<noteq> Suc found then Restart (Suc found)
         else if Suc found = n then NoFreeChunk
         else let cur_size' = (if cur_size \<le> chunk then 0 else cur_size - chunk)
              in if 0 < cur_size' then gtt_extend bm n chunk (Suc found) cur_size'
                 else Extended range_end)"
  by pat_completeness auto
termination
proof (relation "measure (\<lambda>(bm, n, c, found, cur). n - found)", goal_cases)
  case 1
  show ?case by simp
next
  case (2 bm n chunk found cur_size r cur')
  then have "Suc found \<le> n" using find_next_zero_bit_le [of bm n "Suc found"] by simp
  then show ?case by simp
qed

declare gtt_extend.simps [simp del]

lemma gtt_extend_restart_gt: "gtt_extend bm n c found cur = Restart s \<Longrightarrow> found < s"
proof (induction bm n c found cur rule: gtt_extend.induct)
  case (1 bm n c found cur)
  then show ?case
    by (subst (asm) (2) gtt_extend.simps) (auto simp: Let_def dest: Suc_lessD split: if_splits)
qed

text \<open>The search from \<open>start_search\<close>, with the restarts of the source.\<close>

function gtt_search :: "bitmap \<Rightarrow> nat \<Rightarrow> u32 \<Rightarrow> u32 \<Rightarrow> nat \<Rightarrow> (nat \<times> nat) option" where
  "gtt_search bm n chunk sz start_search =
     (let found = find_next_zero_bit bm n start_search
      in if found = n then None
         else if sz \<le> chunk then Some (found, found)
         else case gtt_extend bm n chunk found (sz - chunk) of
                Restart s \<Rightarrow> gtt_search bm n chunk sz s
              | NoFreeChunk \<Rightarrow> None
              | Extended e \<Rightarrow> Some (found, e))"
  by pat_completeness auto
termination
proof (relation "measure (\<lambda>(bm, n, c, sz, start). n - start)", goal_cases)
  case 1
  show ?case by simp
next
  case (2 bm n chunk sz start found s)
  have le: "find_next_zero_bit bm n start \<le> n" by (rule find_next_zero_bit_le)
  have "find_next_zero_bit bm n start < s"
    using 2 gtt_extend_restart_gt by blast
  moreover have "start \<le> n"
    using 2 by (cases "n \<le> start") (auto simp: find_next_zero_bit.simps [of bm n start])
  ultimately show ?case
    using le 2 find_next_zero_bit_ge [of start n bm] by auto
qed

declare gtt_search.simps [simp del]

definition mark_range :: "nat \<Rightarrow> nat \<Rightarrow> bitmap \<Rightarrow> bitmap" where
  "mark_range s e bm = foldl (\<lambda>b i. set_bit_at i b) bm [s..<Suc e]"

definition unmark_range :: "nat \<Rightarrow> nat \<Rightarrow> bitmap \<Rightarrow> bitmap" where
  "unmark_range s e bm = foldl (\<lambda>b i. clear_bit_at i b) bm [s..<Suc e]"

definition opu_gtt_sa_allocate ::
  "bool \<Rightarrow> opu_dev \<Rightarrow> u32 \<Rightarrow> int \<times> opu_mem_obj option \<times> opu_dev" where
  "opu_gtt_sa_allocate kzalloc_ok opu sz =
     (if sz = 0 then (- EINVAL, None, opu)
      else if gtt_sa_num_of_chunks opu * gtt_sa_chunk_size opu < sz then (- ENOMEM, None, opu)
      else if \<not> kzalloc_ok then (- ENOMEM, None, opu)
      else case gtt_search (gtt_sa_bitmap opu) (unat (gtt_sa_num_of_chunks opu))
                  (gtt_sa_chunk_size opu) sz 0 of
             None \<Rightarrow> (- ENOMEM, None, opu)
           | Some (s, e) \<Rightarrow>
               (0,
                Some \<lparr>range_start = s, range_end = e,
                      gpu_addr = opu_gtt_sa_calc_gpu_addr (gtt_start_gpu_addr opu) s (gtt_sa_chunk_size opu),
                      cpu_ptr = opu_gtt_sa_calc_cpu_addr (gtt_start_cpu_ptr opu) s (gtt_sa_chunk_size opu)\<rparr>,
                opu\<lparr>gtt_sa_bitmap := mark_range s e (gtt_sa_bitmap opu)\<rparr>))"

definition opu_gtt_sa_free :: "opu_dev \<Rightarrow> opu_mem_obj option \<Rightarrow> int \<times> opu_dev" where
  "opu_gtt_sa_free opu mem_obj =
     (case mem_obj of
        None \<Rightarrow> (0, opu)
      | Some m \<Rightarrow>
          (0, opu\<lparr>gtt_sa_bitmap := unmark_range (range_start m) (range_end m) (gtt_sa_bitmap opu)\<rparr>))"

section \<open>The search\<close>

text \<open>The number of chunks an allocation of \<open>sz\<close> bytes takes, and a free run of chunks.\<close>

definition chunks_of :: "u32 \<Rightarrow> u32 \<Rightarrow> nat" where
  "chunks_of chunk sz = (unat sz + unat chunk - 1) div unat chunk"

definition free_run :: "bitmap \<Rightarrow> nat \<Rightarrow> nat \<Rightarrow> nat \<Rightarrow> bool" where
  "free_run bm n s k \<longleftrightarrow> s + k \<le> n \<and> (\<forall>j. s \<le> j \<and> j < s + k \<longrightarrow> \<not> bm j)"

lemma chunks_of_pos: "0 < chunk \<Longrightarrow> 0 < sz \<Longrightarrow> 0 < chunks_of chunk sz"
  by (simp add: chunks_of_def word_less_nat_alt div_greater_zero_iff)

lemma nat_ceil_one: "0 < a \<Longrightarrow> a \<le> c \<Longrightarrow> (a + c - 1) div c = (1 :: nat)"
  by (intro div_nat_eqI) auto

lemma nat_ceil_step:
  assumes "0 < c" and "c < (a :: nat)"
  shows "(a + c - 1) div c = Suc ((a - c + c - 1) div c)"
proof -
  have "a + c - 1 = (a - 1) + c" and "a - c + c - 1 = a - 1" using assms by auto
  then show ?thesis using assms(1) by (simp only: div_add_self2 Suc_eq_plus1)
qed

lemma chunks_of_one: "0 < sz \<Longrightarrow> sz \<le> chunk \<Longrightarrow> chunks_of chunk sz = 1"
  unfolding chunks_of_def word_less_nat_alt word_le_nat_alt
  by (rule nat_ceil_one) simp_all

lemma chunks_of_step:
  assumes "0 < chunk" and "chunk < sz"
  shows "chunks_of chunk sz = Suc (chunks_of chunk (sz - chunk))"
proof -
  have "unat (sz - chunk) = unat sz - unat chunk"
    using assms(2) by (simp add: unat_sub_le word_less_nat_alt)
  then show ?thesis
    using nat_ceil_step [of "unat chunk" "unat sz"] assms
    unfolding chunks_of_def word_less_nat_alt by simp
qed

lemma mark_range_iff: "mark_range s e bm j \<longleftrightarrow> bm j \<or> (s \<le> j \<and> j \<le> e)"
proof -
  have "foldl (\<lambda>b i. set_bit_at i b) bm is j \<longleftrightarrow> bm j \<or> j \<in> set is" for "is"
    by (induction "is" arbitrary: bm) (auto simp: set_bit_at_def)
  then show ?thesis by (auto simp: mark_range_def)
qed

lemma unmark_range_iff: "unmark_range s e bm j \<longleftrightarrow> bm j \<and> \<not> (s \<le> j \<and> j \<le> e)"
proof -
  have "foldl (\<lambda>b i. clear_bit_at i b) bm is j \<longleftrightarrow> bm j \<and> j \<notin> set is" for "is"
    by (induction "is" arbitrary: bm) (auto simp: clear_bit_at_def)
  then show ?thesis by (auto simp: unmark_range_def)
qed

lemma gtt_extend_spec:
  assumes "0 < chunk" and "0 < cur" and "found < n" and "m = chunks_of chunk cur"
  shows "(gtt_extend bm n chunk found cur = Extended e \<longrightarrow>
            e = found + m \<and> e < n \<and> (\<forall>j. found < j \<and> j \<le> e \<longrightarrow> \<not> bm j)) \<and>
         (gtt_extend bm n chunk found cur = Restart s \<longrightarrow>
            found < s \<and> s \<le> found + m \<and> s < n \<and> bm s) \<and>
         (gtt_extend bm n chunk found cur = NoFreeChunk \<longrightarrow> n \<le> found + m)"
  using assms
proof (induction bm n chunk found cur arbitrary: m rule: gtt_extend.induct)
  case (1 bm n chunk found cur)
  note unf = gtt_extend.simps [of bm n chunk found cur]
  have m: "0 < m" using "1.prems" chunks_of_pos by simp
  consider (taken) "find_next_zero_bit bm n (Suc found) \<noteq> Suc found"
    | (bound) "find_next_zero_bit bm n (Suc found) = Suc found" "Suc found = n"
    | (last) "find_next_zero_bit bm n (Suc found) = Suc found" "Suc found \<noteq> n" "cur \<le> chunk"
    | (more) "find_next_zero_bit bm n (Suc found) = Suc found" "Suc found \<noteq> n" "chunk < cur"
    by fastforce
  then show ?case
  proof cases
    case taken
    then have "Suc found < n"
      using "1.prems"(3) by (cases "Suc found = n") auto
    moreover from this have "bm (Suc found)"
      using taken by (auto simp: find_next_zero_bit.simps [of bm n "Suc found"] split: if_splits)
    ultimately show ?thesis using taken m by (auto simp: unf Let_def)
  next
    case bound
    then show ?thesis using m by (simp add: unf Let_def)
  next
    case last
    then have "Suc found < n" using "1.prems"(3) by simp
    moreover have "\<not> bm (Suc found)"
      using last \<open>Suc found < n\<close> find_next_zero_bit_zero [of bm n "Suc found"] by simp
    moreover have "m = 1" using last "1.prems" chunks_of_one by simp
    ultimately show ?thesis
      using last by (auto simp: unf Let_def le_Suc_eq)
  next
    case more
    then have lt: "Suc found < n" using "1.prems"(3) by simp
    have free: "\<not> bm (Suc found)"
      using more lt find_next_zero_bit_zero [of bm n "Suc found"] by simp
    have pos: "0 < cur - chunk" using more(3) by (simp add: word_less_nat_alt unat_sub_le)
    have ms: "m = Suc (chunks_of chunk (cur - chunk))"
      using "1.prems" more(3) chunks_of_step by simp
    have eq: "gtt_extend bm n chunk found cur = gtt_extend bm n chunk (Suc found) (cur - chunk)"
      using more pos by (auto simp: unf Let_def)
    have IH: "(gtt_extend bm n chunk (Suc found) (cur - chunk) = Extended e \<longrightarrow>
            e = Suc found + chunks_of chunk (cur - chunk) \<and> e < n \<and>
            (\<forall>j. Suc found < j \<and> j \<le> e \<longrightarrow> \<not> bm j)) \<and>
         (gtt_extend bm n chunk (Suc found) (cur - chunk) = Restart s \<longrightarrow>
            Suc found < s \<and> s \<le> Suc found + chunks_of chunk (cur - chunk) \<and> s < n \<and> bm s) \<and>
         (gtt_extend bm n chunk (Suc found) (cur - chunk) = NoFreeChunk \<longrightarrow>
            n \<le> Suc found + chunks_of chunk (cur - chunk))"
      using more pos "1.prems"(1) lt by (intro "1.IH") (auto simp: not_le)
    have split: "found < j \<longleftrightarrow> j = Suc found \<or> Suc found < j" for j by auto
    show ?thesis unfolding eq
      using IH ms free lt by (auto simp: split)
  qed
qed

lemma gtt_search_Some:
  assumes "0 < chunk" and "0 < sz" and "start \<le> n" and "gtt_search bm n chunk sz start = Some (s, e)"
  shows "start \<le> s \<and> e = s + chunks_of chunk sz - 1 \<and> free_run bm n s (chunks_of chunk sz) \<and>
    (\<forall>j. start \<le> j \<and> j < s \<longrightarrow> \<not> free_run bm n j (chunks_of chunk sz))"
  using assms
proof (induction bm n chunk sz start rule: gtt_search.induct)
  case (1 bm n chunk sz start)
  define found where "found = find_next_zero_bit bm n start"
  note unf = gtt_search.simps [of bm n chunk sz start, unfolded Let_def, folded found_def]
  have ne: "found \<noteq> n" using "1.prems"(4) by (auto simp: unf)
  then have lt: "found < n" using find_next_zero_bit_le [of bm n start] by (simp add: found_def)
  have ge: "start \<le> found" using find_next_zero_bit_ge "1.prems"(3) by (simp add: found_def)
  have free: "\<not> bm found" using find_next_zero_bit_zero [of bm n start] lt by (simp add: found_def)
  have skip: "bm j" if "start \<le> j" "j < found" for j
    using find_next_zero_bit_skips [of start j bm n] that by (simp add: found_def)
  have pos: "0 < chunks_of chunk sz" using "1.prems" chunks_of_pos by simp
  have before: "\<not> free_run bm n j (chunks_of chunk sz)" if "start \<le> j" "j < found" for j
    using skip [OF that] pos by (auto simp: free_run_def intro!: exI [of _ j])
  show ?case
  proof (cases "sz \<le> chunk")
    case True
    then have "chunks_of chunk sz = 1" using "1.prems" chunks_of_one by simp
    moreover have "s = found" "e = found" using "1.prems"(4) ne True by (auto simp: unf)
    ultimately show ?thesis using ge lt free before
      by (auto simp: free_run_def less_Suc_eq_le dest: le_antisym)
  next
    case False
    then have big: "chunk < sz" by simp
    have cpos: "0 < sz - chunk" using big by (simp add: word_less_nat_alt unat_sub_le)
    have k: "chunks_of chunk sz = Suc (chunks_of chunk (sz - chunk))"
      using chunks_of_step "1.prems"(1) big by simp
    note ext = gtt_extend_spec [OF "1.prems"(1) cpos lt refl, of bm]
    show ?thesis
    proof (cases "gtt_extend bm n chunk found (sz - chunk)")
      case (Restart r)
      with ext have r: "found < r" "r \<le> found + chunks_of chunk (sz - chunk)" "r < n" "bm r" by auto
      have "gtt_search bm n chunk sz r = Some (s, e)"
        using "1.prems"(4) ne False Restart by (simp add: unf)
      with "1.IH" [OF found_def ne False Restart "1.prems"(1,2)] r
      have IH: "r \<le> s \<and> e = s + chunks_of chunk sz - 1 \<and> free_run bm n s (chunks_of chunk sz) \<and>
          (\<forall>j. r \<le> j \<and> j < s \<longrightarrow> \<not> free_run bm n j (chunks_of chunk sz))" by simp
      have "\<not> free_run bm n j (chunks_of chunk sz)" if "found \<le> j" "j < r" for j
        using that r k by (auto simp: free_run_def intro!: exI [of _ r])
      with IH before r ge show ?thesis by (metis le_trans less_imp_le not_le)
    next
      case NoFreeChunk
      with "1.prems"(4) ne False show ?thesis by (simp add: unf)
    next
      case (Extended x)
      then have sx: "s = found" "e = x" using "1.prems"(4) ne False by (auto simp: unf)
      with Extended ext have x: "x = found + chunks_of chunk (sz - chunk)" "x < n"
        "\<forall>j. found < j \<and> j \<le> x \<longrightarrow> \<not> bm j" by auto
      have "free_run bm n found (chunks_of chunk sz)"
        using x k free by (auto simp: free_run_def less_Suc_eq_le dest: le_neq_implies_less)
      with sx x k ge before show ?thesis by auto
    qed
  qed
qed

lemma gtt_search_None:
  assumes "0 < chunk" and "0 < sz" and "start \<le> n" and "gtt_search bm n chunk sz start = None"
  shows "\<forall>j. start \<le> j \<longrightarrow> \<not> free_run bm n j (chunks_of chunk sz)"
  using assms
proof (induction bm n chunk sz start rule: gtt_search.induct)
  case (1 bm n chunk sz start)
  define found where "found = find_next_zero_bit bm n start"
  note unf = gtt_search.simps [of bm n chunk sz start, unfolded Let_def, folded found_def]
  have pos: "0 < chunks_of chunk sz" using "1.prems" chunks_of_pos by simp
  have skip: "bm j" if "start \<le> j" "j < found" for j
    using find_next_zero_bit_skips [of start j bm n] that by (simp add: found_def)
  have before: "\<not> free_run bm n j (chunks_of chunk sz)" if "start \<le> j" "j < found" for j
    using skip [OF that] pos by (auto simp: free_run_def intro!: exI [of _ j])
  have le: "found \<le> n" using find_next_zero_bit_le [of bm n start] by (simp add: found_def)
  show ?case
  proof (cases "found = n")
    case True
    then show ?thesis using before pos by (auto simp: free_run_def not_less)
  next
    case ne: False
    then have lt: "found < n" using le by simp
    have big: "chunk < sz" using "1.prems"(4) ne by (auto simp: unf split: if_splits)
    then have nsz: "\<not> sz \<le> chunk" by simp
    have cpos: "0 < sz - chunk" using big by (simp add: word_less_nat_alt unat_sub_le)
    have k: "chunks_of chunk sz = Suc (chunks_of chunk (sz - chunk))"
      using chunks_of_step "1.prems"(1) big by simp
    note ext = gtt_extend_spec [OF "1.prems"(1) cpos lt refl, of bm]
    show ?thesis
    proof (cases "gtt_extend bm n chunk found (sz - chunk)")
      case (Restart r)
      with ext have r: "found < r" "r \<le> found + chunks_of chunk (sz - chunk)" "r < n" "bm r" by auto
      have "gtt_search bm n chunk sz r = None"
        using "1.prems"(4) ne nsz Restart by (simp add: unf)
      with "1.IH" [OF found_def ne nsz Restart "1.prems"(1,2)] r
      have IH: "\<forall>j. r \<le> j \<longrightarrow> \<not> free_run bm n j (chunks_of chunk sz)" by simp
      have "\<not> free_run bm n j (chunks_of chunk sz)" if "found \<le> j" "j < r" for j
        using that r k by (auto simp: free_run_def intro!: exI [of _ r])
      with IH before show ?thesis by (meson not_le)
    next
      case NoFreeChunk
      with ext have "n \<le> found + chunks_of chunk (sz - chunk)" by simp
      then have "\<not> free_run bm n j (chunks_of chunk sz)" if "found \<le> j" for j
        using that k by (auto simp: free_run_def)
      with before show ?thesis by (meson not_le)
    next
      case (Extended x)
      with "1.prems"(4) ne nsz show ?thesis by (simp add: unf)
    qed
  qed
qed

section \<open>Properties of the allocator\<close>

text \<open>The chunk size is positive and the buffer fits a 32-bit size, as \<open>opu_gtt_sa_init\<close> leaves it.\<close>

definition gtt_wf :: "opu_dev \<Rightarrow> bool" where
  "gtt_wf opu \<longleftrightarrow> 0 < gtt_sa_chunk_size opu \<and>
     unat (gtt_sa_num_of_chunks opu) * unat (gtt_sa_chunk_size opu) < 2 ^ 32"

lemma gtt_sa_init_wf:
  assumes "opu_gtt_sa_init kcalloc_ok opu buf_size chunk_size = (0, opu')"
  shows "gtt_wf opu' \<and> 0 < gtt_sa_num_of_chunks opu' \<and>
    unat (gtt_sa_num_of_chunks opu') * unat (gtt_sa_chunk_size opu') \<le> unat buf_size \<and>
    gtt_sa_bitmap opu' = (\<lambda>_. False)"
proof -
  have c: "chunk_size \<noteq> 0" "chunk_size \<le> buf_size" and
    opu': "gtt_sa_chunk_size opu' = chunk_size" "gtt_sa_num_of_chunks opu' = buf_size div chunk_size"
      "gtt_sa_bitmap opu' = (\<lambda>_. False)"
    using assms by (auto simp: opu_gtt_sa_init_def Let_def not_less split: if_splits)
  have "unat (buf_size div chunk_size) * unat chunk_size \<le> unat buf_size"
    by (simp add: unat_div)
  moreover have "unat buf_size < 2 ^ LENGTH(32)" by (rule unsigned_less)
  moreover have "0 < unat (buf_size div chunk_size)"
    using c by (simp add: unat_div word_le_nat_alt div_greater_zero_iff unat_gt_0)
  ultimately show ?thesis using c opu'
    by (auto simp: gtt_wf_def word_less_nat_alt unat_gt_0)
qed

text \<open>
  C33. First fit, soundly and completely: a request of \<open>sz\<close> bytes succeeds exactly when some run
  of \<open>chunks_of chunk sz\<close> free chunks exists; it then gets the run that starts lowest, and
  exactly the chunks of that run become taken.
\<close>

theorem opu_gtt_sa_allocate_first_fit:
  assumes "gtt_wf opu" and "sz \<noteq> 0" and "unat sz \<le> unat (gtt_sa_num_of_chunks opu) * unat (gtt_sa_chunk_size opu)"
    and "opu_gtt_sa_allocate True opu sz = (r, m, opu')"
  shows "let n = unat (gtt_sa_num_of_chunks opu); k = chunks_of (gtt_sa_chunk_size opu) sz;
             bm = gtt_sa_bitmap opu
         in (r = 0 \<longleftrightarrow> (\<exists>s. free_run bm n s k)) \<and>
            (r \<noteq> 0 \<longrightarrow> r = - ENOMEM \<and> m = None \<and> opu' = opu) \<and>
            (r = 0 \<longrightarrow> (\<exists>s. free_run bm n s k \<and> (\<forall>j < s. \<not> free_run bm n j k) \<and>
               map_option range_start m = Some s \<and> map_option range_end m = Some (s + k - 1) \<and>
               opu' = opu\<lparr>gtt_sa_bitmap := (\<lambda>j. bm j \<or> (s \<le> j \<and> j < s + k))\<rparr>))"
proof -
  let ?n = "unat (gtt_sa_num_of_chunks opu)" and ?c = "gtt_sa_chunk_size opu"
  let ?k = "chunks_of ?c sz" and ?bm = "gtt_sa_bitmap opu"
  have c: "0 < ?c" and sz: "0 < sz" using assms(1,2) by (auto simp: gtt_wf_def word_gt_0)
  have "unat (gtt_sa_num_of_chunks opu * ?c) = ?n * unat ?c"
    using assms(1) by (subst unat_mult_fits) (simp_all add: gtt_wf_def)
  then have le: "\<not> gtt_sa_num_of_chunks opu * ?c < sz"
    using assms(3) by (simp add: word_less_nat_alt)
  have kpos: "0 < ?k" using c sz by (rule chunks_of_pos)
  show ?thesis
  proof (cases "gtt_search ?bm ?n ?c sz 0")
    case None
    then have "\<forall>j. \<not> free_run ?bm ?n j ?k" using gtt_search_None [OF c sz _ None] by simp
    with None assms(2,4) le show ?thesis
      by (auto simp: opu_gtt_sa_allocate_def Let_def)
  next
    case (Some p)
    obtain s e where p: "p = (s, e)" by (cases p)
    from gtt_search_Some [OF c sz _ Some [unfolded p]] have s: "e = s + ?k - 1" "free_run ?bm ?n s ?k"
      "\<forall>j < s. \<not> free_run ?bm ?n j ?k" by auto
    have mark: "mark_range s e ?bm = (\<lambda>j. ?bm j \<or> (s \<le> j \<and> j < s + ?k))"
      using s(1) kpos by (intro ext) (auto simp: mark_range_iff)
    have res: "r = 0" "map_option range_start m = Some s" "map_option range_end m = Some e"
      "opu' = opu\<lparr>gtt_sa_bitmap := mark_range s e ?bm\<rparr>"
      using Some p assms(2,4) le by (auto simp: opu_gtt_sa_allocate_def)
    have "\<exists>s. free_run ?bm ?n s ?k \<and> (\<forall>j < s. \<not> free_run ?bm ?n j ?k) \<and>
        map_option range_start m = Some s \<and> map_option range_end m = Some (s + ?k - 1) \<and>
        opu' = opu\<lparr>gtt_sa_bitmap := (\<lambda>j. ?bm j \<or> (s \<le> j \<and> j < s + ?k))\<rparr>"
      by (intro exI [of _ s] conjI s(2,3) res(2)) (simp_all only: res mark, simp only: s(1))
    with s(2) res(1) show ?thesis unfolding Let_def by blast
  qed
qed

lemma opu_gtt_sa_allocate_first_fit_witness:
  "let dev = example_dev\<lparr>gtt_sa_bitmap := (\<lambda>i. i = 1)\<rparr>
   in \<exists>m dev'. opu_gtt_sa_allocate True dev 1024 = (0, m, dev') \<and> map_option range_start m = Some 2"
proof -
  define dev where "dev = example_dev\<lparr>gtt_sa_bitmap := (\<lambda>i. i = 1)\<rparr>"
  have wf: "gtt_wf dev" and sz: "unat (1024 :: u32) \<le> unat (gtt_sa_num_of_chunks dev) * unat (gtt_sa_chunk_size dev)"
    and k: "chunks_of (gtt_sa_chunk_size dev) 1024 = 2" and n: "unat (gtt_sa_num_of_chunks dev) = 8"
    and bm: "gtt_sa_bitmap dev = (\<lambda>i. i = 1)"
    by (simp_all add: dev_def gtt_wf_def chunks_of_def example_dev_def)
  obtain r m dev' where eq: "opu_gtt_sa_allocate True dev 1024 = (r, m, dev')" by (metis prod_cases3)
  have run: "free_run (\<lambda>i. i = Suc 0) 8 2 2" "\<not> free_run (\<lambda>i. i = Suc 0) 8 0 2"
    "\<not> free_run (\<lambda>i. i = Suc 0) 8 1 2"
    by (auto simp: free_run_def)
  note ff = opu_gtt_sa_allocate_first_fit [OF wf _ sz eq, unfolded Let_def k n bm, simplified]
  from ff run(1) have r: "r = 0" by blast
  with ff obtain s where s: "free_run (\<lambda>i. i = Suc 0) 8 s 2" "\<forall>j < s. \<not> free_run (\<lambda>i. i = Suc 0) 8 j 2"
    "map_option range_start m = Some s" by auto
  have "s = 2"
  proof -
    have "\<not> 2 < s" using s(2) run(1) by blast
    moreover have "s \<noteq> 0" "s \<noteq> 1" using s(1) run(2,3) by metis+
    ultimately show ?thesis by linarith
  qed
  with eq r s(3) show ?thesis unfolding Let_def dev_def [symmetric] by auto
qed

text \<open>
  Freeing an object that was just allocated gives back the device it was allocated from:
  the chunk map is the same bit by bit.
\<close>

theorem gtt_sa_free_allocate:
  assumes "gtt_wf opu" and "sz \<noteq> 0" and "opu_gtt_sa_allocate ok opu sz = (0, m, opu')"
  shows "opu_gtt_sa_free opu' m = (0, opu)"
proof -
  obtain s e where se: "gtt_search (gtt_sa_bitmap opu) (unat (gtt_sa_num_of_chunks opu))
        (gtt_sa_chunk_size opu) sz 0 = Some (s, e)"
    and m: "map_option range_start m = Some s" "map_option range_end m = Some e"
    and opu': "opu' = opu\<lparr>gtt_sa_bitmap := mark_range s e (gtt_sa_bitmap opu)\<rparr>"
    using assms(3) by (auto simp: opu_gtt_sa_allocate_def split: if_splits option.splits)
  have c: "0 < gtt_sa_chunk_size opu" "0 < sz" using assms(1,2) by (auto simp: gtt_wf_def word_gt_0)
  from gtt_search_Some [OF c _ se]
  have "\<forall>j. s \<le> j \<and> j \<le> e \<longrightarrow> \<not> gtt_sa_bitmap opu j"
    using chunks_of_pos [OF c] by (auto simp: free_run_def)
  then have "unmark_range s e (mark_range s e (gtt_sa_bitmap opu)) = gtt_sa_bitmap opu"
    by (intro ext) (auto simp: mark_range_iff unmark_range_iff)
  with m show ?thesis by (cases m) (simp_all add: opu_gtt_sa_free_def opu')
qed

lemma gtt_sa_free_allocate_witness:
  "opu_gtt_sa_free (snd (snd (opu_gtt_sa_allocate True example_dev 512)))
     (fst (snd (opu_gtt_sa_allocate True example_dev 512))) = (0, example_dev)"
proof -
  have wf: "gtt_wf example_dev" by (simp add: gtt_wf_def example_dev_def)
  have "fst (opu_gtt_sa_allocate True example_dev 512) = 0"
    by (simp add: opu_gtt_sa_allocate_def gtt_search.simps find_next_zero_bit.simps example_dev_def)
  then have eq: "opu_gtt_sa_allocate True example_dev 512 =
      (0, fst (snd (opu_gtt_sa_allocate True example_dev 512)), snd (snd (opu_gtt_sa_allocate True example_dev 512)))"
    by (metis prod.collapse)
  show ?thesis by (rule gtt_sa_free_allocate [OF wf _ eq]) simp
qed

section \<open>Live objects\<close>

text \<open>
  The allocator together with the objects its clients hold. A client allocates, or frees the
  object at some position of the list of live objects.
\<close>

datatype gtt_op = GttAlloc bool u32 | GttFree nat

fun gtt_step :: "gtt_op \<Rightarrow> opu_dev \<times> opu_mem_obj list \<Rightarrow> opu_dev \<times> opu_mem_obj list" where
  "gtt_step (GttAlloc ok sz) (d, objs) =
     (case opu_gtt_sa_allocate ok d sz of
        (r, Some m, d') \<Rightarrow> (d', m # objs)
      | (r, None, d') \<Rightarrow> (d', objs))"
| "gtt_step (GttFree i) (d, objs) =
     (if i < length objs
      then (snd (opu_gtt_sa_free d (Some (objs ! i))), take i objs @ drop (Suc i) objs)
      else (d, objs))"

definition obj_chunks :: "opu_mem_obj \<Rightarrow> nat set" where
  "obj_chunks m = {range_start m..range_end m}"

definition obj_bytes :: "opu_dev \<Rightarrow> opu_mem_obj \<Rightarrow> nat set" where
  "obj_bytes d m = {unat (gpu_addr m)..<unat (gpu_addr m)
     + card (obj_chunks m) * unat (gtt_sa_chunk_size d)}"

definition obj_ok :: "opu_dev \<Rightarrow> opu_mem_obj \<Rightarrow> bool" where
  "obj_ok d m \<longleftrightarrow> range_start m \<le> range_end m \<and> range_end m < unat (gtt_sa_num_of_chunks d) \<and>
     gpu_addr m = opu_gtt_sa_calc_gpu_addr (gtt_start_gpu_addr d) (range_start m) (gtt_sa_chunk_size d)"

definition gtt_inv :: "opu_dev \<times> opu_mem_obj list \<Rightarrow> bool" where
  "gtt_inv x \<longleftrightarrow> (case x of (d, objs) \<Rightarrow>
     gtt_wf d \<and> (\<forall>m \<in> set objs. obj_ok d m) \<and>
     sorted_wrt (\<lambda>a b. obj_chunks a \<inter> obj_chunks b = {}) objs \<and>
     {j. gtt_sa_bitmap d j} = (\<Union>m \<in> set objs. obj_chunks m))"

lemma allocate_result:
  assumes "gtt_wf d" and "opu_gtt_sa_allocate ok d sz = (r, Some m, d')"
  shows "obj_ok d m \<and> (\<forall>j \<in> obj_chunks m. \<not> gtt_sa_bitmap d j) \<and>
    d' = d\<lparr>gtt_sa_bitmap := (\<lambda>j. gtt_sa_bitmap d j \<or> j \<in> obj_chunks m)\<rparr> \<and>
    card (obj_chunks m) = chunks_of (gtt_sa_chunk_size d) sz"
proof -
  have sz: "0 < sz" using assms(2) by (auto simp: opu_gtt_sa_allocate_def word_gt_0 split: if_splits)
  have c: "0 < gtt_sa_chunk_size d" using assms(1) by (simp add: gtt_wf_def)
  obtain s e where se: "gtt_search (gtt_sa_bitmap d) (unat (gtt_sa_num_of_chunks d))
        (gtt_sa_chunk_size d) sz 0 = Some (s, e)"
    and m: "range_start m = s" "range_end m = e"
      "gpu_addr m = opu_gtt_sa_calc_gpu_addr (gtt_start_gpu_addr d) s (gtt_sa_chunk_size d)"
    and d': "d' = d\<lparr>gtt_sa_bitmap := mark_range s e (gtt_sa_bitmap d)\<rparr>"
    using assms(2) by (auto simp: opu_gtt_sa_allocate_def split: if_splits option.splits)
  from gtt_search_Some [OF c sz _ se] have e: "e = s + chunks_of (gtt_sa_chunk_size d) sz - 1"
    "free_run (gtt_sa_bitmap d) (unat (gtt_sa_num_of_chunks d)) s (chunks_of (gtt_sa_chunk_size d) sz)"
    by auto
  have "mark_range s e (gtt_sa_bitmap d) = (\<lambda>j. gtt_sa_bitmap d j \<or> j \<in> obj_chunks m)"
    by (intro ext) (auto simp: mark_range_iff obj_chunks_def m)
  with e chunks_of_pos [OF c sz] m d' show ?thesis
    by (auto simp: obj_ok_def obj_chunks_def free_run_def)
qed

lemma allocate_no_result:
  "opu_gtt_sa_allocate ok d sz = (r, None, d') \<Longrightarrow> d' = d"
  by (auto simp: opu_gtt_sa_allocate_def split: if_splits option.splits)

lemma obj_ok_bitmap [simp]: "obj_ok (d\<lparr>gtt_sa_bitmap := bm\<rparr>) m = obj_ok d m"
  by (simp add: obj_ok_def)

lemma gtt_wf_bitmap [simp]: "gtt_wf (d\<lparr>gtt_sa_bitmap := bm\<rparr>) = gtt_wf d"
  by (simp add: gtt_wf_def)

lemma gtt_inv_alloc: "gtt_inv (d, objs) \<Longrightarrow> gtt_inv (gtt_step (GttAlloc ok sz) (d, objs))"
proof -
  assume inv: "gtt_inv (d, objs)"
  obtain r mo d' where eq: "opu_gtt_sa_allocate ok d sz = (r, mo, d')" by (metis prod_cases3)
  show ?thesis
  proof (cases mo)
    case None
    then show ?thesis using inv eq allocate_no_result [of ok d sz r d'] by simp
  next
    case (Some m)
    from allocate_result [OF _ eq [unfolded Some]] inv
    have r: "obj_ok d m" "\<forall>j \<in> obj_chunks m. \<not> gtt_sa_bitmap d j"
      "d' = d\<lparr>gtt_sa_bitmap := (\<lambda>j. gtt_sa_bitmap d j \<or> j \<in> obj_chunks m)\<rparr>"
      by (auto simp: gtt_inv_def)
    have bits: "gtt_sa_bitmap d j \<longleftrightarrow> (\<exists>m \<in> set objs. j \<in> obj_chunks m)" for j
      using inv by (auto simp: gtt_inv_def)
    then have "obj_chunks m \<inter> obj_chunks b = {}" if "b \<in> set objs" for b
      using r(2) that by auto
    with inv r bits show ?thesis by (auto simp: gtt_inv_def eq Some)
  qed
qed

lemma gtt_inv_free: "gtt_inv (d, objs) \<Longrightarrow> gtt_inv (gtt_step (GttFree i) (d, objs))"
proof (cases "i < length objs")
  case True
  assume inv: "gtt_inv (d, objs)"
  define m where "m = objs ! i"
  have split: "objs = take i objs @ m # drop (Suc i) objs"
    using True by (simp add: m_def id_take_nth_drop)
  have "sorted_wrt (\<lambda>a b. obj_chunks a \<inter> obj_chunks b = {}) (take i objs @ m # drop (Suc i) objs)"
    using inv split by (simp add: gtt_inv_def)
  then have sw: "sorted_wrt (\<lambda>a b. obj_chunks a \<inter> obj_chunks b = {}) (take i objs @ drop (Suc i) objs)"
    and dis: "\<forall>b \<in> set (take i objs @ drop (Suc i) objs). obj_chunks b \<inter> obj_chunks m = {}"
    by (auto simp: sorted_wrt_append)
  have sets: "set objs = insert m (set (take i objs @ drop (Suc i) objs))"
    using arg_cong [OF split, of set] by simp
  have bits: "gtt_sa_bitmap d j \<longleftrightarrow> (\<exists>m \<in> set objs. j \<in> obj_chunks m)" for j
    using inv by (auto simp: gtt_inv_def)
  have mem: "(range_start m \<le> j \<and> j \<le> range_end m) = (j \<in> obj_chunks m)" for j
    by (simp add: obj_chunks_def)
  have "unmark_range (range_start m) (range_end m) (gtt_sa_bitmap d)
      = (\<lambda>j. \<exists>b \<in> set (take i objs @ drop (Suc i) objs). j \<in> obj_chunks b)"
    using dis by (intro ext) (auto simp: unmark_range_iff mem bits sets disjoint_iff)
  with inv sw sets True show ?thesis
    by (auto simp: gtt_inv_def opu_gtt_sa_free_def m_def [symmetric])
qed simp

lemma gtt_run_inv: "gtt_inv x \<Longrightarrow> gtt_inv (foldl (\<lambda>y op. gtt_step op y) x ops)"
proof (induction ops arbitrary: x)
  case (Cons op ops)
  have "gtt_inv (gtt_step op x)"
    using Cons.prems by (cases x; cases op) (simp_all only: gtt_inv_alloc gtt_inv_free)
  then show ?case using Cons.IH by simp
qed simp

abbreviation gtt_config :: "opu_dev \<Rightarrow> u64 \<times> u32 \<times> u32" where
  "gtt_config d \<equiv> (gtt_start_gpu_addr d, gtt_sa_chunk_size d, gtt_sa_num_of_chunks d)"

lemma gtt_step_frame: "gtt_config (fst (gtt_step op x)) = gtt_config (fst x)"
  by (cases x; cases op)
    (auto simp: opu_gtt_sa_allocate_def opu_gtt_sa_free_def split: option.splits prod.splits)

lemma gtt_run_frame: "gtt_config (fst (foldl (\<lambda>y op. gtt_step op y) x ops)) = gtt_config (fst x)"
  by (induction ops rule: rev_induct) (simp_all add: gtt_step_frame [simplified])

lemma obj_bytes_bounds:
  assumes "gtt_wf d" and "obj_ok d m" and "unat (gtt_start_gpu_addr d) + 2 ^ 32 \<le> 2 ^ 64"
  shows "obj_bytes d m = {unat (gtt_start_gpu_addr d) + range_start m * unat (gtt_sa_chunk_size d)
    ..<unat (gtt_start_gpu_addr d) + (range_end m + 1) * unat (gtt_sa_chunk_size d)}"
proof -
  let ?c = "unat (gtt_sa_chunk_size d)" and ?n = "unat (gtt_sa_num_of_chunks d)"
  have lt: "range_start m < ?n" and se: "range_start m \<le> range_end m"
    using assms(2) by (auto simp: obj_ok_def)
  have n32: "?n < 2 ^ LENGTH(32)" by (rule unsigned_less)
  have rs: "unat (of_nat (range_start m) :: u32) = range_start m"
    using lt n32 by (intro unat_of_nat_fits) simp
  have "range_start m * ?c \<le> ?n * ?c" using lt by (intro mult_le_mono1) simp
  then have fits: "range_start m * ?c < 2 ^ 32" using assms(1) unfolding gtt_wf_def by linarith
  then have prod: "unat ((of_nat (range_start m) :: u32) * gtt_sa_chunk_size d) = range_start m * ?c"
    using rs by (subst unat_mult_fits) simp_all
  have "unat (gpu_addr m) = unat (gtt_start_gpu_addr d) + range_start m * ?c"
    using assms(2,3) fits prod
    by (auto simp: obj_ok_def opu_gtt_sa_calc_gpu_addr_def unat_add_fits)
  moreover have "card (obj_chunks m) = range_end m + 1 - range_start m" by (simp add: obj_chunks_def)
  moreover have "range_start m * ?c + (range_end m + 1 - range_start m) * ?c = (range_end m + 1) * ?c"
  proof -
    have "range_start m + (range_end m + 1 - range_start m) = range_end m + 1" using se by simp
    then show ?thesis by (metis add_mult_distrib)
  qed
  ultimately show ?thesis by (simp add: obj_bytes_def add.assoc)
qed

text \<open>
  C29. Whatever sequence of allocations and frees a device serves after \<open>opu_gtt_sa_init\<close>, the
  chunk map is exactly the union of the live objects' chunks, no two live objects share a byte
  of GPU address space, and every live object lies inside the buffer.
\<close>

theorem gtt_objects_disjoint:
  assumes "opu_gtt_sa_init kcalloc_ok opu buf_size chunk_size = (0, opu0)"
    and "unat (gtt_start_gpu_addr opu0) + 2 ^ 32 \<le> 2 ^ 64"
    and "foldl (\<lambda>y op. gtt_step op y) (opu0, []) ops = (d, objs)"
  shows "{j. gtt_sa_bitmap d j} = (\<Union>m \<in> set objs. obj_chunks m) \<and>
    (\<forall>i j. i < j \<and> j < length objs \<longrightarrow> obj_bytes d (objs ! i) \<inter> obj_bytes d (objs ! j) = {}) \<and>
    (\<forall>m \<in> set objs. obj_bytes d m \<subseteq>
       {unat (gtt_start_gpu_addr d)..<unat (gtt_start_gpu_addr d) + unat buf_size})"
proof -
  have "gtt_inv (opu0, [])"
    using gtt_sa_init_wf [OF assms(1)] by (simp add: gtt_inv_def)
  then have inv: "gtt_inv (d, objs)" using gtt_run_inv [of "(opu0, [])" ops] assms(3) by simp
  then have wf: "gtt_wf d" and ok: "\<forall>m \<in> set objs. obj_ok d m"
    and sw: "sorted_wrt (\<lambda>a b. obj_chunks a \<inter> obj_chunks b = {}) objs"
    and bits: "{j. gtt_sa_bitmap d j} = (\<Union>m \<in> set objs. obj_chunks m)"
    by (auto simp: gtt_inv_def)
  have start: "unat (gtt_start_gpu_addr d) + 2 ^ 32 \<le> 2 ^ 64"
    and size: "unat (gtt_sa_num_of_chunks d) * unat (gtt_sa_chunk_size d) \<le> unat buf_size"
    using gtt_run_frame [of "(opu0, [])" ops] assms(2,3) gtt_sa_init_wf [OF assms(1)] by auto
  note bytes = obj_bytes_bounds [OF wf _ start]
  have dis: "obj_bytes d a \<inter> obj_bytes d b = {}"
    if "a \<in> set objs" "b \<in> set objs" "obj_chunks a \<inter> obj_chunks b = {}" for a b
  proof -
    have "range_start a \<le> range_end a" "range_start b \<le> range_end b"
      using ok that(1,2) by (auto simp: obj_ok_def)
    with that(3) have "range_end a < range_start b \<or> range_end b < range_start a"
      by (auto simp: obj_chunks_def dest: spec [of _ "max (range_start a) (range_start b)"] intro: ccontr)
    then have "(range_end a + 1) * unat (gtt_sa_chunk_size d) \<le> range_start b * unat (gtt_sa_chunk_size d)
        \<or> (range_end b + 1) * unat (gtt_sa_chunk_size d) \<le> range_start a * unat (gtt_sa_chunk_size d)"
      by (metis Suc_eq_plus1 Suc_leI mult_le_mono1)
    then show ?thesis using bytes ok that(1,2) by auto
  qed
  have inside: "obj_bytes d m \<subseteq> {unat (gtt_start_gpu_addr d)..<unat (gtt_start_gpu_addr d) + unat buf_size}"
    if "m \<in> set objs" for m
  proof -
    have "range_end m + 1 \<le> unat (gtt_sa_num_of_chunks d)" using ok that by (auto simp: obj_ok_def)
    then have "(range_end m + 1) * unat (gtt_sa_chunk_size d) \<le> unat buf_size"
      using size by (meson mult_le_mono1 order_trans)
    then show ?thesis using bytes ok that by auto
  qed
  show ?thesis
    using bits dis inside sw by (auto simp: sorted_wrt_iff_nth_less)
qed

lemma gtt_objects_disjoint_witness:
  "case foldl (\<lambda>y op. gtt_step op y) (snd (opu_gtt_sa_init (\<lambda>_. True) example_dev 4096 512), [])
      [GttAlloc True 100, GttAlloc True 600, GttFree 0, GttAlloc True 1500] of
    (d, objs) \<Rightarrow> {j. gtt_sa_bitmap d j} = (\<Union>m \<in> set objs. obj_chunks m)"
proof -
  let ?d0 = "snd (opu_gtt_sa_init (\<lambda>_. True) example_dev 4096 512)"
  have init: "opu_gtt_sa_init (\<lambda>_. True) example_dev 4096 512 = (0, ?d0)"
    and start: "unat (gtt_start_gpu_addr ?d0) + 2 ^ 32 \<le> 2 ^ 64"
    by (simp_all add: opu_gtt_sa_init_def example_dev_def Let_def)
  obtain d objs where run: "foldl (\<lambda>y op. gtt_step op y) (?d0, [])
      [GttAlloc True 100, GttAlloc True 600, GttFree 0, GttAlloc True 1500] = (d, objs)"
    by (metis prod.exhaust)
  show ?thesis using gtt_objects_disjoint [OF init start run] unfolding run by simp
qed

end
