(* ===== verification/Opu_Queue.thy ===== *)
theory Opu_Queue
  imports Opu_Dev
begin

text \<open>
  The queue structures of \<open>opu_priv.h\<close> and the two operations of \<open>opu_queue.c\<close>. Pointers to
  user memory are 64-bit addresses; pointers to driver objects are numbers that name them.
  The MQD managers, which program the descriptors of a queue into the hardware, are not part of
  the sources: they are the record \<open>mqd_manager\<close> of functions over a hardware state \<open>'h\<close>.
\<close>

datatype opu_queue_type =
    OPU_QUEUE_TYPE_COMPUTE | OPU_QUEUE_TYPE_SDMA | OPU_QUEUE_TYPE_HIQ | OPU_QUEUE_TYPE_DIQ
  | OPU_QUEUE_TYPE_SDMA_XGMI

datatype opu_queue_format = OPU_QUEUE_FORMAT_PM4 | OPU_QUEUE_FORMAT_AQL

datatype opu_mqd_type = OPU_MQD_TYPE_HIQ | OPU_MQD_TYPE_CP | OPU_MQD_TYPE_SDMA | OPU_MQD_TYPE_DIQ

datatype opu_preempt_type = OPU_PREEMPT_TYPE_WAVEFRONT_DRAIN | OPU_PREEMPT_TYPE_WAVEFRONT_RESET

record queue_properties =
  qtype :: opu_queue_type
  format :: opu_queue_format
  queue_id :: u32
  queue_address :: u64
  queue_size :: u64
  priority :: u32
  queue_percent :: u32
  read_ptr :: u64
  write_ptr :: u64
  doorbell_ptr :: u64
  doorbell_off :: u32
  is_interop :: bool
  is_evicted :: bool
  is_active :: bool
  is_gws :: bool
  q_vmid :: u32
  sdma_engine_id :: u32
  sdma_queue_id :: u32
  sdma_vm_addr :: u32
  eop_ring_buffer_address :: u64
  eop_ring_buffer_size :: u32
  ctx_save_restore_area_address :: u64
  ctx_save_restore_area_size :: u32
  ctl_stack_size :: u32
  q_tba_addr :: u64
  q_tma_addr :: u64
  cu_mask_count :: u32
  cu_mask :: "u32 list option"

definition QUEUE_IS_ACTIVE :: "queue_properties \<Rightarrow> bool" where
  "QUEUE_IS_ACTIVE q \<longleftrightarrow> 0 < queue_size q \<and> queue_address q \<noteq> 0 \<and> 0 < queue_percent q \<and> \<not> is_evicted q"

record queue =
  mqd :: nat
  mqd_mem_obj :: "nat option"
  gart_mqd_addr :: u64
  properties :: queue_properties
  q_mec :: u32
  q_pipe :: u32
  q_queue :: u32
  sdma_id :: u32
  doorbell_id :: u32
  q_process :: nat
  q_device :: nat
  gws :: "nat option"

text \<open>The zeroed structures of \<open>memset\<close> and \<open>kzalloc\<close>.\<close>

definition zero_properties :: queue_properties where
  "zero_properties = \<lparr>qtype = OPU_QUEUE_TYPE_COMPUTE, format = OPU_QUEUE_FORMAT_PM4, queue_id = 0,
     queue_address = 0, queue_size = 0, priority = 0, queue_percent = 0, read_ptr = 0, write_ptr = 0,
     doorbell_ptr = 0, doorbell_off = 0, is_interop = False, is_evicted = False, is_active = False,
     is_gws = False, q_vmid = 0, sdma_engine_id = 0, sdma_queue_id = 0, sdma_vm_addr = 0,
     eop_ring_buffer_address = 0, eop_ring_buffer_size = 0, ctx_save_restore_area_address = 0,
     ctx_save_restore_area_size = 0, ctl_stack_size = 0, q_tba_addr = 0, q_tma_addr = 0,
     cu_mask_count = 0, cu_mask = None\<rparr>"

definition zero_queue :: queue where
  "zero_queue = \<lparr>mqd = 0, mqd_mem_obj = None, gart_mqd_addr = 0, properties = zero_properties,
     q_mec = 0, q_pipe = 0, q_queue = 0, sdma_id = 0, doorbell_id = 0, q_process = 0, q_device = 0,
     gws = None\<rparr>"

definition init_queue :: "bool \<Rightarrow> queue_properties \<Rightarrow> int \<times> queue option" where
  "init_queue kzalloc_ok props =
     (if \<not> kzalloc_ok then (- ENOMEM, None)
      else (0, Some (zero_queue\<lparr>properties := props\<rparr>)))"

definition is_sdma :: "opu_queue_type \<Rightarrow> bool" where
  "is_sdma t \<longleftrightarrow> t = OPU_QUEUE_TYPE_SDMA \<or> t = OPU_QUEUE_TYPE_SDMA_XGMI"

section \<open>The MQD managers\<close>

text \<open>\<open>init_mqd\<close> and \<open>update_mqd\<close> get the queue properties by reference and return them.\<close>

record 'h mqd_manager =
  mqd_size :: u32
  allocate_mqd :: "queue_properties \<Rightarrow> 'h \<Rightarrow> nat option \<times> 'h"
  init_mqd :: "nat \<Rightarrow> queue_properties \<Rightarrow> 'h \<Rightarrow> (nat \<times> u64 \<times> queue_properties) \<times> 'h"
  load_mqd :: "nat \<Rightarrow> u32 \<Rightarrow> u32 \<Rightarrow> queue_properties \<Rightarrow> 'h \<Rightarrow> int \<times> 'h"
  update_mqd :: "nat \<Rightarrow> queue_properties \<Rightarrow> 'h \<Rightarrow> queue_properties \<times> 'h"
  destroy_mqd :: "nat \<Rightarrow> opu_preempt_type \<Rightarrow> u32 \<Rightarrow> u32 \<Rightarrow> 'h \<Rightarrow> int \<times> 'h"
  free_mqd :: "nat \<Rightarrow> nat option \<Rightarrow> 'h \<Rightarrow> 'h"
  read_doorbell_id :: "nat \<Rightarrow> 'h \<Rightarrow> bool"
  get_wave_state_mqd :: "(nat \<Rightarrow> 'h \<Rightarrow> int \<times> u32 \<times> u32) option"

text \<open>What the callers rely on: building or updating a descriptor decides whether the queue is
  active, and changes nothing else in its properties.\<close>

definition mqd_law :: "'h mqd_manager \<Rightarrow> bool" where
  "mqd_law m \<longleftrightarrow>
     (\<forall>obj p h. \<exists>a. snd (snd (fst (init_mqd m obj p h))) = p\<lparr>is_active := a\<rparr>) \<and>
     (\<forall>d p h. \<exists>a. fst (update_mqd m d p h) = p\<lparr>is_active := a\<rparr>)"

lemma mqd_law_init:
  assumes "mqd_law mgr" and "init_mqd mgr obj p h = ((d, g, p'), h')"
  shows "\<exists>a. p' = p\<lparr>is_active := a\<rparr>"
proof -
  from assms(1) obtain a where "snd (snd (fst (init_mqd mgr obj p h))) = p\<lparr>is_active := a\<rparr>"
    unfolding mqd_law_def by blast
  with assms(2) show ?thesis by auto
qed

lemma mqd_law_update:
  assumes "mqd_law mgr" and "update_mqd mgr d p h = (p', h')"
  shows "\<exists>a. p' = p\<lparr>is_active := a\<rparr>"
proof -
  from assms(1) obtain a where "fst (update_mqd mgr d p h) = p\<lparr>is_active := a\<rparr>"
    unfolding mqd_law_def by blast
  with assms(2) show ?thesis by auto
qed

definition mgrs_ok :: "(opu_mqd_type \<Rightarrow> 'h mqd_manager option) \<Rightarrow> bool" where
  "mgrs_ok mgrs \<longleftrightarrow> (\<forall>t mgr. mgrs t = Some mgr \<longrightarrow> mqd_law mgr)"

lemma mgrs_okD: "mgrs_ok mgrs \<Longrightarrow> mgrs t = Some mgr \<Longrightarrow> mqd_law mgr"
  by (auto simp: mgrs_ok_def)

text \<open>A manager that keeps no hardware state, for examples: a queue is active when its
  properties say so.\<close>

definition example_mqd_manager :: "nat mqd_manager" where
  "example_mqd_manager = \<lparr>mqd_size = 512,
     allocate_mqd = (\<lambda>p h. (Some h, Suc h)),
     init_mqd = (\<lambda>obj p h. ((obj, of_nat obj, p\<lparr>is_active := QUEUE_IS_ACTIVE p\<rparr>), h)),
     load_mqd = (\<lambda>d p q props h. (0, h)),
     update_mqd = (\<lambda>d p h. (p\<lparr>is_active := QUEUE_IS_ACTIVE p\<rparr>, h)),
     destroy_mqd = (\<lambda>d t p q h. (0, h)),
     free_mqd = (\<lambda>d obj h. h),
     read_doorbell_id = (\<lambda>d h. False),
     get_wave_state_mqd = None\<rparr>"

lemma example_mqd_law: "mqd_law example_mqd_manager"
  by (auto simp: mqd_law_def example_mqd_manager_def)

end
