(* ===== verification/Opu_Kernel_Queue.thy ===== *)
theory Opu_Kernel_Queue
  imports Opu_Doorbell Opu_Gtt_Sa Opu_Queue
begin

text \<open>
  The kernel queues of \<open>opu_kernel_queue.c\<close>: the ring buffer through which the driver itself
  sends packets, and the acquisition and release of the resources of such a queue (a kernel
  doorbell and up to five objects of the GTT sub-allocator). The memory the ring pointers point
  to is part of the record: \<open>rptr_kernel\<close> is what the hardware last wrote, \<open>wptr64_kernel\<close> is
  the write pointer shared with it, whose low half is \<open>wptr_kernel\<close>, and \<open>pq_kernel\<close> are the
  dwords of the ring.
\<close>

record kernel_queue =
  kq_queue :: queue
  kq_mqd_type :: opu_mqd_type
  pending_wptr64 :: u64
  pending_wptr :: u32
  nop_packet :: u32
  rptr_mem :: "opu_mem_obj option"
  rptr_kernel :: u32
  wptr_mem :: "opu_mem_obj option"
  wptr64_kernel :: u64
  pq :: "opu_mem_obj option"
  pq_kernel :: "u32 list"
  eop_mem :: "opu_mem_obj option"
  fence_mem_obj :: "opu_mem_obj option"

definition wptr_kernel :: "kernel_queue \<Rightarrow> u32" where
  "wptr_kernel kq = ucast (wptr64_kernel kq)"

section \<open>The ring\<close>

abbreviation queue_size_dwords :: "kernel_queue \<Rightarrow> u64" where
  "queue_size_dwords kq \<equiv> queue_size (properties (kq_queue kq)) div 4"

text \<open>The step of the write pointer: 32-bit increment, 64-bit remainder, truncation.\<close>

definition wptr_step :: "u64 \<Rightarrow> u32 \<Rightarrow> u32" where
  "wptr_step n w = ucast ((ucast (w + 1) :: u64) mod n)"

lemma unat_wptr_step: "unat (wptr_step n w) = unat (w + 1) mod unat n"
proof -
  have "unat ((ucast (w + 1) :: u64) mod n) = unat (w + 1) mod unat n" by (simp add: unat_mod)
  moreover have "unat (w + 1) mod unat n < 2 ^ 32"
    by (rule order_le_less_trans [OF mod_less_eq_dividend]) (use unsigned_less [where 'a = nat, of "w + 1"] in simp)
  ultimately show ?thesis unfolding wptr_step_def by (subst unat_ucast_u64) simp_all
qed

lemma unat_plus_one_cases: "w + 1 = (0 :: 'w::len word) \<or> unat (w + 1) = Suc (unat w)"
  by (cases "w + 1 = 0") (auto simp: add.commute [of w] unatSuc)

text \<open>The loop that fills the tail of the ring with NOPs.\<close>

function kq_fill_nops :: "u32 \<Rightarrow> u64 \<Rightarrow> u32 list \<Rightarrow> u32 \<Rightarrow> u64 \<Rightarrow> u32 list \<times> u32 \<times> u64" where
  "kq_fill_nops nop n buf w w64 =
     (if w = 0 \<or> n = 0 then (buf, w, w64)
      else kq_fill_nops nop n (buf[unat w := nop]) (wptr_step n w) (w64 + 1))"
  by pat_completeness auto
termination
proof (relation "measure (\<lambda>(nop, n, buf, w, w64).
    if w = 0 then 0 else if unat w < unat n then unat n - unat w else unat n + 1)", goal_cases)
  case 1
  show ?case by simp
next
  case (2 nop n buf w w64)
  then have n: "0 < unat n" "0 < unat w" by (auto simp: unat_gt_0)
  have m: "unat (wptr_step n w) = unat (w + 1) mod unat n" by (rule unat_wptr_step)
  then have lt: "unat (wptr_step n w) < unat n" using n by simp
  have "unat w < unat n \<Longrightarrow> wptr_step n w = 0 \<or> unat w < unat (wptr_step n w)"
    using m unat_plus_one_cases [of w] by (cases "Suc (unat w) = unat n") (auto simp: unat_eq_zero)
  with lt n show ?case by auto
qed

declare kq_fill_nops.simps [simp del]

text \<open>The result is the index of the acquired dwords in the ring, if there is room.\<close>

definition kq_acquire_packet_buffer :: "kernel_queue \<Rightarrow> u64 \<Rightarrow> int \<times> nat option \<times> kernel_queue" where
  "kq_acquire_packet_buffer kq packet_size_in_dwords =
     (let rptr = rptr_kernel kq;
          wptr = pending_wptr kq;
          wptr64 = pending_wptr64 kq;
          n = queue_size_dwords kq;
          available_size = (ucast rptr + n - 1 - ucast wptr) mod n
      in if available_size < packet_size_in_dwords then (- ENOMEM, None, kq)
         else if n \<le> ucast wptr + packet_size_in_dwords \<and> ucast rptr \<le> packet_size_in_dwords
              then (- ENOMEM, None, kq)
         else let (buf, wptr', wptr64') =
                    (if n \<le> ucast wptr + packet_size_in_dwords
                     then kq_fill_nops (nop_packet kq) n (pq_kernel kq) wptr wptr64
                     else (pq_kernel kq, wptr, wptr64))
              in (0, Some (unat wptr'),
                  kq\<lparr>pq_kernel := buf, pending_wptr := ucast (ucast wptr' + packet_size_in_dwords),
                     pending_wptr64 := wptr64' + packet_size_in_dwords\<rparr>))"

text \<open>Submission publishes the pending pointer in memory and in the doorbell; the doorbell
  writes are the second component.\<close>

definition kq_submit_packet :: "opu_dev \<Rightarrow> kernel_queue \<Rightarrow> kernel_queue \<times> (u64 \<times> u64) list" where
  "kq_submit_packet dev kq =
     (if dev_doorbell_size dev = 8 then
        (kq\<lparr>wptr64_kernel := pending_wptr64 kq\<rparr>,
         write_kernel_doorbell64 (doorbell_ptr (properties (kq_queue kq))) (pending_wptr64 kq))
      else
        (kq\<lparr>wptr64_kernel := (wptr64_kernel kq AND NOT (mask 32)) OR ucast (pending_wptr kq)\<rparr>,
         write_kernel_doorbell (doorbell_ptr (properties (kq_queue kq))) (pending_wptr kq)))"

definition kq_rollback_packet :: "opu_dev \<Rightarrow> kernel_queue \<Rightarrow> kernel_queue" where
  "kq_rollback_packet dev kq =
     (if dev_doorbell_size dev = 8 then
        kq\<lparr>pending_wptr64 := wptr64_kernel kq,
           pending_wptr := ucast (ucast (wptr_kernel kq) mod queue_size_dwords kq)\<rparr>
      else kq\<lparr>pending_wptr := wptr_kernel kq\<rparr>)"

section \<open>The ring as a stream of dwords\<close>

text \<open>A well-formed ring; the dwords between the read and the pending write pointer, in the
  order in which the hardware will fetch them; and a packet put into an acquired buffer.\<close>

definition ring_size :: "kernel_queue \<Rightarrow> nat" where
  "ring_size kq = unat (queue_size_dwords kq)"

definition ring_wf :: "kernel_queue \<Rightarrow> bool" where
  "ring_wf kq \<longleftrightarrow> 0 < ring_size kq \<and> ring_size kq < 2 ^ 31 \<and> length (pq_kernel kq) = ring_size kq \<and>
     unat (rptr_kernel kq) < ring_size kq \<and> unat (pending_wptr kq) < ring_size kq"

definition ring_used :: "kernel_queue \<Rightarrow> nat" where
  "ring_used kq = (unat (pending_wptr kq) + ring_size kq - unat (rptr_kernel kq)) mod ring_size kq"

definition unread :: "kernel_queue \<Rightarrow> u32 list" where
  "unread kq = map (\<lambda>i. pq_kernel kq ! ((unat (rptr_kernel kq) + i) mod ring_size kq)) [0..<ring_used kq]"

definition put_packet :: "nat \<Rightarrow> u32 list \<Rightarrow> kernel_queue \<Rightarrow> kernel_queue" where
  "put_packet pos pkt kq =
     kq\<lparr>pq_kernel := take pos (pq_kernel kq) @ pkt @ drop (pos + length pkt) (pq_kernel kq)\<rparr>"

text \<open>The dwords a request skips because it does not fit before the end of the ring.\<close>

definition ring_skip :: "kernel_queue \<Rightarrow> nat \<Rightarrow> nat" where
  "ring_skip kq p =
     (if ring_size kq \<le> unat (pending_wptr kq) + p then ring_size kq - unat (pending_wptr kq) else 0)"

lemma kq_fill_nops_eq:
  assumes "0 < unat w" and "unat w < unat n" and "unat n < 2 ^ 31" and "length buf = unat n"
  shows "kq_fill_nops nop n buf w w64 =
    (take (unat w) buf @ replicate (unat n - unat w) nop, 0, w64 + of_nat (unat n - unat w))"
  using assms
proof (induction nop n buf w w64 rule: kq_fill_nops.induct)
  case (1 nop n buf w w64)
  have nz: "w \<noteq> 0" "n \<noteq> 0" using "1.prems" by auto
  have suc: "unat (w + 1) = Suc (unat w)"
    using "1.prems" unat_add_fits [of w 1] by simp
  have step: "unat (wptr_step n w) = Suc (unat w) mod unat n" by (simp add: unat_wptr_step suc)
  have unf: "kq_fill_nops nop n buf w w64 = kq_fill_nops nop n (buf[unat w := nop]) (wptr_step n w) (w64 + 1)"
    using nz by (subst kq_fill_nops.simps) simp
  have upd: "take (Suc (unat w)) (buf[unat w := nop]) = take (unat w) buf @ [nop]"
    using "1.prems" by (simp add: take_Suc_conv_app_nth)
  show ?case
  proof (cases "Suc (unat w) = unat n")
    case True
    with step have "wptr_step n w = 0" by (simp add: unat_eq_zero)
    moreover have "buf[unat w := nop] = take (unat w) buf @ [nop]"
      using True "1.prems" upd by simp
    moreover have "unat n - unat w = 1" using True by simp
    ultimately show ?thesis using unf by (simp add: kq_fill_nops.simps [of _ _ _ 0])
  next
    case False
    then have lt: "unat (wptr_step n w) = Suc (unat w)" "Suc (unat w) < unat n"
      using "1.prems" step by auto
    have d: "unat n - unat w = Suc (unat n - Suc (unat w))" using lt(2) by simp
    from "1.IH" nz lt "1.prems" unf upd show ?thesis
      by (simp add: d replicate_app_Cons_same)
  qed
qed

lemma ring_used_cases:
  assumes "ring_wf kq"
  shows "ring_used kq =
    (if unat (rptr_kernel kq) \<le> unat (pending_wptr kq)
     then unat (pending_wptr kq) - unat (rptr_kernel kq)
     else unat (pending_wptr kq) + ring_size kq - unat (rptr_kernel kq))"
  using assms by (auto simp: ring_wf_def ring_used_def mod_if)

lemma ring_used_less: "ring_wf kq \<Longrightarrow> ring_used kq < ring_size kq"
  by (simp add: ring_wf_def ring_used_def)

lemma ring_available:
  assumes "ring_wf kq"
  shows "unat ((ucast (rptr_kernel kq) + queue_size_dwords kq - 1 - ucast (pending_wptr kq)) mod queue_size_dwords kq)
    = ring_size kq - 1 - ring_used kq"
proof -
  let ?r = "ucast (rptr_kernel kq) :: u64" and ?w = "ucast (pending_wptr kq) :: u64" and ?n = "queue_size_dwords kq"
  have b: "unat ?r < unat ?n" "unat ?w < unat ?n" "unat ?n < 2 ^ 31"
    using assms by (simp_all add: ring_wf_def ring_size_def)
  have 1: "unat (?r + ?n) = unat ?r + unat ?n" using b by (intro unat_add_fits) simp
  have 2: "unat (?r + ?n - 1) = unat ?r + unat ?n - 1" using 1 b by (subst unat_sub_le) simp_all
  have 3: "unat (?r + ?n - 1 - ?w) = unat ?r + unat ?n - 1 - unat ?w" using 2 b by (subst unat_sub_le) simp_all
  have 4: "unat ((?r + ?n - 1 - ?w) mod ?n) = (unat ?r + unat ?n - 1 - unat ?w) mod unat ?n"
    using 3 by (simp add: unat_mod)
  show ?thesis
    unfolding 4 using b ring_used_cases [OF assms] by (auto simp: ring_size_def mod_if)
qed

text \<open>Success and failure of a request, over the naturals.\<close>

lemma kq_acquire_eq:
  assumes "ring_wf kq"
  shows "kq_acquire_packet_buffer kq p =
    (let w = unat (pending_wptr kq); n = ring_size kq; skip = ring_skip kq (unat p)
     in if n \<le> ring_used kq + unat p \<or> (n \<le> w + unat p \<and> unat (rptr_kernel kq) \<le> unat p)
        then (- ENOMEM, None, kq)
        else (0, Some (if 0 < skip then 0 else w),
          kq\<lparr>pq_kernel := (if 0 < skip then take w (pq_kernel kq) @ replicate skip (nop_packet kq) else pq_kernel kq),
             pending_wptr := of_nat ((if 0 < skip then 0 else w) + unat p),
             pending_wptr64 := pending_wptr64 kq + of_nat skip + p\<rparr>))"
proof -
  let ?n = "queue_size_dwords kq" and ?w = "pending_wptr kq"
  have b: "unat (rptr_kernel kq) < unat ?n" "unat ?w < unat ?n" "unat ?n < 2 ^ 31"
    "length (pq_kernel kq) = unat ?n"
    using assms by (simp_all add: ring_wf_def ring_size_def)
  have used: "ring_used kq < unat ?n" using ring_used_less [OF assms] by (simp add: ring_size_def)
  have av: "(ucast (rptr_kernel kq) + ?n - 1 - ucast ?w) mod ?n < p \<longleftrightarrow> unat ?n \<le> ring_used kq + unat p"
    unfolding word_less_nat_alt ring_available [OF assms] using used by (auto simp: ring_size_def)
  have rp: "ucast (rptr_kernel kq) \<le> p \<longleftrightarrow> unat (rptr_kernel kq) \<le> unat p"
    by (simp add: word_le_nat_alt)
  show ?thesis
  proof (cases "unat ?n \<le> ring_used kq + unat p")
    case True
    with av show ?thesis by (simp add: kq_acquire_packet_buffer_def Let_def ring_size_def)
  next
    case False
    then have p: "unat p < 2 ^ 31" using b(3) by simp
    have wp: "?n \<le> ucast ?w + p \<longleftrightarrow> unat ?n \<le> unat ?w + unat p"
      using b p by (simp add: word_le_nat_alt unat_add_fits)
    have wadd: "ucast (ucast v + p) = (of_nat (unat v + unat p) :: u32)" for v :: u32
    proof -
      have "unat (ucast v + p) = unat v + unat p"
        using p unsigned_less [where 'a = nat, of v] by (subst unat_add_fits) simp_all
      then show ?thesis by (metis of_nat_unat)
    qed
    have fill: "kq_fill_nops (nop_packet kq) ?n (pq_kernel kq) ?w (pending_wptr64 kq) =
        (take (unat ?w) (pq_kernel kq) @ replicate (unat ?n - unat ?w) (nop_packet kq), 0,
         pending_wptr64 kq + of_nat (unat ?n - unat ?w))"
      if "unat ?n \<le> unat ?w + unat p"
    proof -
      have "0 < unat ?w" using that False used by (cases "unat ?w = 0") auto
      then show ?thesis using b by (intro kq_fill_nops_eq) simp_all
    qed
    show ?thesis
    proof (cases "unat ?n \<le> unat ?w + unat p")
      case True
      then show ?thesis using False av rp wp fill b wadd [of 0]
        by (auto simp: kq_acquire_packet_buffer_def Let_def ring_size_def ring_skip_def)
    next
      case nowrap: False
      then show ?thesis using False av rp wp b wadd [of ?w]
        by (auto simp: kq_acquire_packet_buffer_def Let_def ring_size_def ring_skip_def)
    qed
  qed
qed

lemma mod_ring_inj:
  assumes "(r + a) mod n = (r + b) mod n" and "r < n" and "a < n" and "b < (n :: nat)"
  shows "a = b"
  using assms by (auto simp: mod_if split: if_splits)

text \<open>Writing a block of dwords where the stream ends extends the stream by that block, as long
  as one dword stays free.\<close>

definition splice :: "nat \<Rightarrow> 'a list \<Rightarrow> 'a list \<Rightarrow> 'a list" where
  "splice w xs buf = take w buf @ xs @ drop (w + length xs) buf"

lemma length_splice: "w + length xs \<le> length buf \<Longrightarrow> length (splice w xs buf) = length buf"
  by (simp add: splice_def)

lemma nth_splice:
  "w + length xs \<le> length buf \<Longrightarrow> j < length buf \<Longrightarrow>
     splice w xs buf ! j = (if w \<le> j \<and> j < w + length xs then xs ! (j - w) else buf ! j)"
  by (auto simp: splice_def nth_append min_def not_less)

lemma stream_splice:
  assumes "r < n" and "length buf = n" and "w = (r + u) mod n" and "w + length xs \<le> n"
    and "u + length xs < n"
  shows "map (\<lambda>i. splice w xs buf ! ((r + i) mod n)) [0..<u + length xs] =
    map (\<lambda>i. buf ! ((r + i) mod n)) [0..<u] @ xs"
proof (rule nth_equalityI)
  fix i assume "i < length (map (\<lambda>i. splice w xs buf ! ((r + i) mod n)) [0..<u + length xs])"
  then have i: "i < u + length xs" by simp
  have lt: "(r + i) mod n < n" using assms(1) by simp
  have fwd: "(r + (u + j)) mod n = w + j" if "j < length xs" for j
  proof -
    have "(r + (u + j)) mod n = ((r + u) mod n + j) mod n" by (simp add: mod_add_left_eq add.assoc)
    then show ?thesis using assms(3,4) that by simp
  qed
  show "map (\<lambda>i. splice w xs buf ! ((r + i) mod n)) [0..<u + length xs] ! i =
    (map (\<lambda>i. buf ! ((r + i) mod n)) [0..<u] @ xs) ! i"
  proof (cases "i < u")
    case True
    have "\<not> (w \<le> (r + i) mod n \<and> (r + i) mod n < w + length xs)"
    proof
      assume h: "w \<le> (r + i) mod n \<and> (r + i) mod n < w + length xs"
      define j where "j = (r + i) mod n - w"
      have "j < length xs" "(r + i) mod n = (r + (u + j)) mod n" using h fwd [of j] by (auto simp: j_def)
      then have "i = u + j" using assms(1,5) True by (intro mod_ring_inj [of r i n]) auto
      with True show False by simp
    qed
    then show ?thesis using True i lt assms(2,4) by (auto simp: nth_splice nth_append)
  next
    case False
    then obtain j where j: "i = u + j" by (metis le_Suc_ex not_less)
    with i have "j < length xs" by simp
    then show ?thesis using fwd [of j] j assms(2,4) lt i by (simp add: nth_splice nth_append)
  qed
qed simp

lemma acquire_stream:
  assumes "ring_wf kq" and "unat p = length pkt"
    and "kq_acquire_packet_buffer kq p = (0, Some pos, kq')"
  shows "pos + length pkt \<le> ring_size kq \<and> ring_wf (put_packet pos pkt kq') \<and>
    unread (put_packet pos pkt kq') = unread kq @ replicate (ring_skip kq (length pkt)) (nop_packet kq) @ pkt \<and>
    ring_used kq' = ring_used kq + ring_skip kq (length pkt) + length pkt \<and> ring_used kq' < ring_size kq"
proof -
  define n r w k sk where defs: "n = ring_size kq" "r = unat (rptr_kernel kq)" "w = unat (pending_wptr kq)"
    "k = length pkt" "sk = ring_skip kq k"
  let ?buf = "pq_kernel kq" and ?u = "ring_used kq"
  have wf: "r < n" "w < n" "n < 2 ^ 31" "length ?buf = n" using assms(1) by (simp_all add: ring_wf_def defs)
  have ok: "\<not> n \<le> ?u + k" "\<not> (n \<le> w + k \<and> r \<le> k)"
    and pos: "pos = (if 0 < sk then 0 else w)"
    and kq': "kq' = kq\<lparr>pq_kernel := (if 0 < sk then take w ?buf @ replicate sk (nop_packet kq) else ?buf),
      pending_wptr := of_nat (pos + k), pending_wptr64 := pending_wptr64 kq + of_nat sk + p\<rparr>"
    using assms(2,3) kq_acquire_eq [OF assms(1), of p] by (auto simp: Let_def defs split: if_splits)
  have skip: "sk = (if n \<le> w + k then n - w else 0)" by (simp add: ring_skip_def defs)
  have u: "?u = (if r \<le> w then w - r else w + n - r)" using ring_used_cases [OF assms(1)] by (simp add: defs)
  have w_u: "w = (r + ?u) mod n" using wf u by (auto simp: mod_if)
  have pk: "pos + k < n" using ok wf skip pos by auto
  have less: "?u + sk + k < n" using ok wf skip u by auto
  have pend: "unat (pending_wptr kq') = pos + k"
    using pk wf unat_of_nat_fits [where 'w = 32, of "pos + k"] by (simp add: kq' del: of_nat_add)
  have size: "ring_size kq' = n" "rptr_kernel kq' = rptr_kernel kq" by (simp_all add: kq' ring_size_def defs)
  define buf1 where "buf1 = (if 0 < sk then splice w (replicate sk (nop_packet kq)) ?buf else ?buf)"
  have buf1: "pq_kernel kq' = buf1" "length buf1 = n"
    using wf skip by (auto simp: kq' buf1_def splice_def length_splice)
  have "(pos + k + n - r) mod n = (if r \<le> w then w - r else w + n - r) + sk + k"
    using pk wf(1,2) ok(2) less u by (auto simp: skip pos mod_if)
  then have used': "ring_used kq' = ?u + sk + k"
    using u pend size by (simp add: ring_used_def [of kq'] defs(2))
  have s1: "map (\<lambda>i. buf1 ! ((r + i) mod n)) [0..<?u + sk] =
      map (\<lambda>i. ?buf ! ((r + i) mod n)) [0..<?u] @ replicate sk (nop_packet kq)"
    using stream_splice [OF wf(1,4) w_u, of "replicate sk (nop_packet kq)"] wf(2) less skip
    by (cases "0 < sk") (simp_all add: buf1_def)
  have "(r + (?u + sk)) mod n = pos"
    using wf(1,2) ok(2) less unfolding u skip pos by (auto simp: mod_if)
  then have s2: "map (\<lambda>i. splice pos pkt buf1 ! ((r + i) mod n)) [0..<?u + sk + k] =
      map (\<lambda>i. buf1 ! ((r + i) mod n)) [0..<?u + sk] @ pkt"
    using stream_splice [OF wf(1) buf1(2), of pos "?u + sk" pkt] pk less by (simp add: defs(4))
  have put: "put_packet pos pkt kq' = kq'\<lparr>pq_kernel := splice pos pkt buf1\<rparr>"
    using buf1(1) by (simp add: put_packet_def splice_def)
  have fr: "ring_size (kq'\<lparr>pq_kernel := b\<rparr>) = ring_size kq'" "ring_used (kq'\<lparr>pq_kernel := b\<rparr>) = ring_used kq'" for b
    by (simp_all add: ring_size_def ring_used_def)
  have "unread (put_packet pos pkt kq') = unread kq @ replicate sk (nop_packet kq) @ pkt"
    using s1 s2 used' size by (simp add: unread_def put fr defs(1,2,4))
  moreover have "ring_wf (put_packet pos pkt kq')"
    using wf pk size pend buf1(2) by (simp add: ring_wf_def put fr length_splice defs(1,2,4))
  ultimately show ?thesis using pk less used' by (simp add: defs)
qed

text \<open>
  C28. The ring is a faithful channel: when \<open>kq_acquire_packet_buffer\<close> grants a packet, the granted
  dwords lie inside the ring, and once the packet is written there the hardware will fetch
  everything that was pending before, then only NOPs up to the end of the ring if the packet did
  not fit there, then exactly the packet. Nothing unread is overwritten, and one dword always
  stays free, so a full ring is never mistaken for an empty one.
\<close>

theorem kq_acquire_extends_stream:
  assumes "ring_wf kq" and "unat p = length pkt"
    and "kq_acquire_packet_buffer kq p = (0, Some pos, kq')"
  shows "pos + length pkt \<le> ring_size kq \<and> ring_wf (put_packet pos pkt kq') \<and>
    unread (put_packet pos pkt kq') = unread kq @ replicate (ring_skip kq (length pkt)) (nop_packet kq) @ pkt \<and>
    ring_used kq' = ring_used kq + ring_skip kq (length pkt) + length pkt \<and> ring_used kq' < ring_size kq"
  using assms by (rule acquire_stream)

definition example_kq :: kernel_queue where
  "example_kq = \<lparr>kq_queue = zero_queue\<lparr>properties := zero_properties\<lparr>queue_size := 32, doorbell_ptr := 0x1000\<rparr>\<rparr>,
     kq_mqd_type = OPU_MQD_TYPE_HIQ, pending_wptr64 = 14, pending_wptr = 6, nop_packet = 0xFFFF1000,
     rptr_mem = None, rptr_kernel = 5, wptr_mem = None, wptr64_kernel = 14, pq = None,
     pq_kernel = [1, 2, 3, 4, 5, 6, 7, 8], eop_mem = None, fence_mem_obj = None\<rparr>"

lemma replicate_2: "replicate 2 x = [x, x]"
  by (simp add: numeral_2_eq_2)

lemma example_kq_fields:
  "rptr_kernel example_kq = 5" "pending_wptr example_kq = 6" "pending_wptr64 example_kq = 14"
  "nop_packet example_kq = 0xFFFF1000" "pq_kernel example_kq = [1, 2, 3, 4, 5, 6, 7, 8]"
  by (simp_all add: example_kq_def)

lemma example_kq_size: "ring_size example_kq = 8"
  by (simp add: ring_size_def example_kq_def)

lemma example_kq_used: "ring_used example_kq = 1"
  by (simp add: ring_used_def example_kq_size example_kq_fields)

lemma example_kq_skip: "ring_skip example_kq 3 = 2"
  by (simp add: ring_skip_def example_kq_size example_kq_fields)

lemma example_kq_facts: "ring_wf example_kq" "unread example_kq = [6]"
  by (simp_all add: ring_wf_def unread_def example_kq_size example_kq_used example_kq_fields)

lemma example_kq_acquire:
  "kq_acquire_packet_buffer example_kq 3 = (0, Some 0,
     example_kq\<lparr>pq_kernel := [1, 2, 3, 4, 5, 6, 0xFFFF1000, 0xFFFF1000], pending_wptr := 3,
       pending_wptr64 := 19\<rparr>)"
  by (simp add: kq_acquire_eq [OF example_kq_facts(1)] Let_def example_kq_skip example_kq_size
      example_kq_used example_kq_fields replicate_2)

theorem kq_acquire_extends_stream_witness:
  "unread (put_packet 0 [7, 8, 9] (snd (snd (kq_acquire_packet_buffer example_kq 3)))) =
     [6, 0xFFFF1000, 0xFFFF1000, 7, 8, 9]"
  using kq_acquire_extends_stream [OF example_kq_facts(1), of 3 "[7, 8, 9]", OF _ example_kq_acquire]
  by (simp add: example_kq_acquire example_kq_facts(2) example_kq_skip [unfolded numeral_3_eq_3]
      example_kq_fields replicate_2)

section \<open>Submission and rollback\<close>

text \<open>With eight-byte doorbells the pending pointer exists twice; the two agree modulo the ring
  size. The ring size divides \<open>2 ^ 32\<close>, so that the low half of the 64-bit pointer suffices.\<close>

definition wptr_synced :: "opu_dev \<Rightarrow> kernel_queue \<Rightarrow> bool" where
  "wptr_synced dev kq \<longleftrightarrow> dev_doorbell_size dev = 8 \<longrightarrow>
     ring_size kq dvd 2 ^ 32 \<and> unat (pending_wptr64 kq) mod ring_size kq = unat (pending_wptr kq)"

fun acquire_all :: "kernel_queue \<Rightarrow> u32 list list \<Rightarrow> kernel_queue option" where
  "acquire_all kq [] = Some kq"
| "acquire_all kq (pkt # pkts) =
     (case kq_acquire_packet_buffer kq (of_nat (length pkt)) of
        (r, None, kq') \<Rightarrow> None
      | (r, Some pos, kq') \<Rightarrow> acquire_all (put_packet pos pkt kq') pkts)"

lemma acquire_frame:
  assumes "ring_wf kq" and "kq_acquire_packet_buffer kq p = (r, Some pos, kq')"
  shows "r = 0" and "wptr64_kernel kq' = wptr64_kernel kq" and "kq_queue kq' = kq_queue kq"
    and "rptr_kernel kq' = rptr_kernel kq" and "unat p < ring_size kq"
  using assms(2) unfolding kq_acquire_eq [OF assms(1)] by (auto simp: Let_def split: if_splits)

lemma put_packet_frame [simp]:
  "wptr64_kernel (put_packet pos pkt kq) = wptr64_kernel kq" "kq_queue (put_packet pos pkt kq) = kq_queue kq"
  "rptr_kernel (put_packet pos pkt kq) = rptr_kernel kq"
  by (simp_all add: put_packet_def)

lemma acquire_all_stream:
  "ring_wf kq \<Longrightarrow> (\<forall>pkt \<in> set pkts. length pkt < 2 ^ 31) \<Longrightarrow> acquire_all kq pkts = Some kq' \<Longrightarrow>
     ring_wf kq' \<and> (\<exists>tail. unread kq' = unread kq @ tail) \<and> wptr64_kernel kq' = wptr64_kernel kq \<and>
     kq_queue kq' = kq_queue kq \<and> rptr_kernel kq' = rptr_kernel kq"
proof (induction pkts arbitrary: kq)
  case (Cons pkt pkts)
  obtain r pos kq1 where a: "kq_acquire_packet_buffer kq (of_nat (length pkt)) = (r, Some pos, kq1)"
    using Cons.prems(3) by (auto split: prod.splits option.splits)
  note f = acquire_frame [OF Cons.prems(1) a]
  have "unat (of_nat (length pkt) :: u64) = length pkt"
    using Cons.prems(2) by (intro unat_of_nat_fits) auto
  from acquire_stream [OF Cons.prems(1) this a [unfolded f(1)]]
  have s: "ring_wf (put_packet pos pkt kq1)" "\<exists>tail. unread (put_packet pos pkt kq1) = unread kq @ tail"
    by auto
  from Cons.IH [OF s(1)] Cons.prems(2,3) a s(2) f show ?case by auto
qed simp

lemma rollback_stream:
  assumes "ring_wf kq" and "unread kq = unread kq0 @ tail" and "ring_used kq0 \<le> ring_used kq"
    and "rptr_kernel kq = rptr_kernel kq0" and "kq_queue kq = kq_queue kq0"
    and "pending_wptr kq' = pending_wptr kq0" and "rptr_kernel kq' = rptr_kernel kq"
    and "pq_kernel kq' = pq_kernel kq" and "kq_queue kq' = kq_queue kq"
  shows "unread kq' = unread kq0"
proof -
  have sz: "ring_size kq' = ring_size kq" "ring_size kq0 = ring_size kq" using assms by (simp_all add: ring_size_def)
  have u: "ring_used kq' = ring_used kq0" using assms sz by (simp add: ring_used_def)
  have "unread kq' = take (ring_used kq0) (unread kq)"
    using assms(3,7,8) sz u by (simp add: unread_def [of kq'] unread_def [of kq] take_map)
  then show ?thesis using assms(2) by (simp add: unread_def)
qed

lemma ucast_low_half: "ucast ((x AND NOT (mask 32)) OR ucast (w :: u32) :: u64) = w"
  by (rule bit_word_eqI) (auto simp: bit_simps)

text \<open>
  Rolling back cancels every packet acquired since the last submission: after a submission,
  any number of granted and written packets and one \<open>kq_rollback_packet\<close>, the pending pointers
  are those of the submission and the hardware will fetch exactly the dwords that were submitted,
  for four-byte and for eight-byte doorbells.
\<close>

theorem kq_rollback_cancels:
  assumes "ring_wf kq" and "wptr_synced dev kq" and "kq_submit_packet dev kq = (kq1, writes)"
    and "\<forall>pkt \<in> set pkts. length pkt < 2 ^ 31" and "acquire_all kq1 pkts = Some kq2"
  shows "pending_wptr (kq_rollback_packet dev kq2) = pending_wptr kq \<and>
    (dev_doorbell_size dev = 8 \<longrightarrow> pending_wptr64 (kq_rollback_packet dev kq2) = pending_wptr64 kq) \<and>
    unread (kq_rollback_packet dev kq2) = unread kq"
proof -
  obtain v where kq1: "kq1 = kq\<lparr>wptr64_kernel := v\<rparr>"
    and v8: "dev_doorbell_size dev = 8 \<Longrightarrow> v = pending_wptr64 kq"
    and v4: "dev_doorbell_size dev \<noteq> 8 \<Longrightarrow> ucast v = pending_wptr kq"
    using assms(3) by (auto simp: kq_submit_packet_def ucast_low_half split: if_splits)
  have same: "ring_size kq1 = ring_size kq" "ring_used kq1 = ring_used kq" "unread kq1 = unread kq" "ring_wf kq1"
    using assms(1) by (simp_all add: kq1 ring_size_def ring_used_def unread_def ring_wf_def)
  from acquire_all_stream [OF same(4) assms(4,5), unfolded same(3)] obtain tail where
    s: "ring_wf kq2" "unread kq2 = unread kq @ tail" "wptr64_kernel kq2 = v" "kq_queue kq2 = kq_queue kq"
      "rptr_kernel kq2 = rptr_kernel kq"
    by (auto simp: kq1)
  have pend: "pending_wptr (kq_rollback_packet dev kq2) = pending_wptr kq"
  proof (cases "dev_doorbell_size dev = 8")
    case True
    let ?n = "queue_size_dwords kq"
    have sync: "unat ?n dvd 2 ^ 32" "unat (pending_wptr64 kq) mod unat ?n = unat (pending_wptr kq)"
      using assms(2) True by (auto simp: wptr_synced_def ring_size_def)
    have "unat (ucast (pending_wptr64 kq) :: u32) = unat (pending_wptr64 kq) mod 2 ^ 32"
      by (simp add: unsigned_ucast_eq take_bit_eq_mod)
    then have m: "unat (ucast (ucast (pending_wptr64 kq) :: u32) mod ?n) = unat (pending_wptr kq)"
      using sync by (simp add: unat_mod mod_mod_cancel)
    have "unat (ucast (ucast (ucast (pending_wptr64 kq) :: u32) mod ?n) :: u32) = unat (pending_wptr kq)"
      using m unsigned_less [where 'a = nat, of "pending_wptr kq"] by (subst unat_ucast_u64) simp_all
    then have "ucast (ucast (ucast (pending_wptr64 kq) :: u32) mod ?n) = pending_wptr kq"
      by (simp only: word_unat_eq_iff)
    then show ?thesis
      using True s v8 by (simp add: kq_rollback_packet_def wptr_kernel_def)
  next
    case False
    then show ?thesis using s v4 by (simp add: kq_rollback_packet_def wptr_kernel_def)
  qed
  have "ring_used kq \<le> ring_used kq2" using arg_cong [OF s(2), of length] by (simp add: unread_def)
  from rollback_stream [OF s(1,2) this s(5,4) pend]
  have "unread (kq_rollback_packet dev kq2) = unread kq" by (simp add: kq_rollback_packet_def)
  with pend s v8 show ?thesis by (simp add: kq_rollback_packet_def)
qed

theorem kq_rollback_cancels_witness:
  "\<exists>kq2. acquire_all (fst (kq_submit_packet example_dev example_kq)) [[7, 8, 9]] = Some kq2 \<and>
     unread (kq_rollback_packet example_dev kq2) = [6] \<and> pending_wptr (kq_rollback_packet example_dev kq2) = 6"
proof -
  have sync: "wptr_synced example_dev example_kq"
    by (simp add: wptr_synced_def example_kq_size example_kq_fields)
  have sub: "fst (kq_submit_packet example_dev example_kq) = example_kq"
    by (simp add: kq_submit_packet_def example_dev_defs example_kq_def)
  have "acquire_all example_kq [[7, 8, 9]] = Some (put_packet 0 [7, 8, 9] (snd (snd (kq_acquire_packet_buffer example_kq 3))))"
    by (simp add: example_kq_acquire)
  then obtain kq2 where a: "acquire_all (fst (kq_submit_packet example_dev example_kq)) [[7, 8, 9]] = Some kq2"
    by (simp add: sub)
  from kq_rollback_cancels [OF example_kq_facts(1) sync prod.collapse [symmetric] _ a]
  show ?thesis using a by (simp add: example_kq_facts(2) example_kq_fields)
qed

section \<open>Set-up and tear-down of a kernel queue\<close>

abbreviation OPU_KERNEL_QUEUE_SIZE :: u32 where "OPU_KERNEL_QUEUE_SIZE \<equiv> 2048"
abbreviation PM4_COUNT_ZERO :: u32 where "PM4_COUNT_ZERO \<equiv> push_bit 16 (mask 15)"

abbreviation gtt_free :: "opu_dev \<Rightarrow> opu_mem_obj option \<Rightarrow> opu_dev" where
  "gtt_free dev m \<equiv> snd (opu_gtt_sa_free dev m)"

text \<open>The error labels at the end of \<open>kq_initialize\<close>, each falling through to the next one.\<close>

definition err_pq_allocate_vidmem :: "u64 \<Rightarrow> opu_dev \<Rightarrow> opu_dev" where
  "err_pq_allocate_vidmem db dev = opu_release_kernel_doorbell dev db"

definition err_eop_allocate_vidmem :: "u64 \<Rightarrow> opu_mem_obj option \<Rightarrow> opu_dev \<Rightarrow> opu_dev" where
  "err_eop_allocate_vidmem db pqm dev = err_pq_allocate_vidmem db (gtt_free dev pqm)"

definition err_rptr_allocate_vidmem ::
  "u64 \<Rightarrow> opu_mem_obj option \<Rightarrow> opu_mem_obj option \<Rightarrow> opu_dev \<Rightarrow> opu_dev" where
  "err_rptr_allocate_vidmem db pqm eop dev = err_eop_allocate_vidmem db pqm (gtt_free dev eop)"

definition err_wptr_allocate_vidmem ::
  "u64 \<Rightarrow> opu_mem_obj option \<Rightarrow> opu_mem_obj option \<Rightarrow> opu_mem_obj option \<Rightarrow> opu_dev \<Rightarrow> opu_dev" where
  "err_wptr_allocate_vidmem db pqm eop rptr dev = err_rptr_allocate_vidmem db pqm eop (gtt_free dev rptr)"

definition err_init_queue ::
  "u64 \<Rightarrow> opu_mem_obj option \<Rightarrow> opu_mem_obj option \<Rightarrow> opu_mem_obj option \<Rightarrow> opu_mem_obj option
     \<Rightarrow> opu_dev \<Rightarrow> opu_dev" where
  "err_init_queue db pqm eop rptr wptr dev = err_wptr_allocate_vidmem db pqm eop rptr (gtt_free dev wptr)"

text \<open>The properties of a kernel queue, with the doorbell and the ring addresses filled in.\<close>

definition kq_properties ::
  "opu_queue_type \<Rightarrow> u32 \<Rightarrow> u64 \<Rightarrow> u32 option \<Rightarrow> u64 \<Rightarrow> u64 \<Rightarrow> u64 \<Rightarrow> u64 \<Rightarrow> queue_properties" where
  "kq_properties typ sz db off pq_gpu rptr_gpu wptr_gpu eop_gpu =
     zero_properties\<lparr>doorbell_ptr := db, doorbell_off := (case off of Some v \<Rightarrow> v | None \<Rightarrow> 0),
       queue_size := ucast sz, is_interop := False, is_gws := False, priority := 1, queue_percent := 100,
       qtype := typ, q_vmid := 0, queue_address := pq_gpu, read_ptr := rptr_gpu, write_ptr := wptr_gpu,
       eop_ring_buffer_address := eop_gpu, eop_ring_buffer_size := ucast PAGE_SIZE, cu_mask := None\<rparr>"

text \<open>What the set-up takes from its surroundings: the outcome of the \<open>i\<close>-th \<open>kzalloc\<close>, the
  content of the memory the write pointer gets, the header of the NOP packet and the hardware
  slot of the HIQ (constants of headers that are not part of the sources), and the calling
  process. Only the low 32 bits of the write pointer are cleared (\<open>sizeof(*kq->wptr_kernel)\<close>).\<close>

record kq_env =
  kz :: "nat \<Rightarrow> bool"
  wptr_junk :: u64
  nop_header :: u32
  current_process :: nat
  CIK_HIQ_PIPE :: u32
  CIK_HIQ_QUEUE :: u32

text \<open>The first half of \<open>kq_initialize\<close>: the doorbell and the memory objects, with their error
  exits.\<close>

record kq_resources =
  res_db :: u64
  res_off :: "u32 option"
  res_pq :: "opu_mem_obj option"
  res_eop :: "opu_mem_obj option"
  res_rptr :: "opu_mem_obj option"
  res_wptr :: "opu_mem_obj option"

definition kq_allocate :: "kq_env \<Rightarrow> opu_dev \<Rightarrow> u32 \<Rightarrow> kq_resources option \<times> opu_dev" where
  "kq_allocate env dev qsize =
     (case opu_get_kernel_doorbell dev of (db, off, dev0) \<Rightarrow>
      if db = 0 then (None, dev0)
      else
     (case opu_gtt_sa_allocate (kz env 0) dev0 qsize of (r, pqm, dev1) \<Rightarrow>
      if r \<noteq> 0 then (None, err_pq_allocate_vidmem db dev1)
      else
     (case (if after_mullins (device_info dev) then opu_gtt_sa_allocate (kz env 1) dev1 (ucast PAGE_SIZE)
            else (0, None, dev1)) of (r, eop, dev2) \<Rightarrow>
      if r \<noteq> 0 then (None, err_eop_allocate_vidmem db pqm dev2)
      else
     (case opu_gtt_sa_allocate (kz env 2) dev2 4 of (r, rptr, dev3) \<Rightarrow>
      if r \<noteq> 0 then (None, err_rptr_allocate_vidmem db pqm eop dev3)
      else
     (case opu_gtt_sa_allocate (kz env 3) dev3 (dev_doorbell_size dev) of (r, wptr, dev4) \<Rightarrow>
      if r \<noteq> 0 then (None, err_wptr_allocate_vidmem db pqm eop rptr dev4)
      else (Some \<lparr>res_db = db, res_off = off, res_pq = pqm, res_eop = eop, res_rptr = rptr, res_wptr = wptr\<rparr>,
            dev4))))))"

definition mem_gpu_addr :: "opu_mem_obj option \<Rightarrow> u64" where
  "mem_gpu_addr m = (case m of Some x \<Rightarrow> gpu_addr x | None \<Rightarrow> 0)"

text \<open>The second half: the queue structure and its MQD, the HIQ's hardware slot or the DIQ's fence.\<close>

definition kq_setup ::
  "kq_env \<Rightarrow> opu_mqd_type \<Rightarrow> 'h mqd_manager \<Rightarrow> kq_resources \<Rightarrow> opu_dev \<Rightarrow> 'h \<Rightarrow> opu_queue_type \<Rightarrow> u32
     \<Rightarrow> kernel_queue option \<times> opu_dev \<times> 'h" where
  "kq_setup env mt mgr res dev h typ qsize =
     (let undo = err_init_queue (res_db res) (res_pq res) (res_eop res) (res_rptr res) (res_wptr res);
          prop = kq_properties typ qsize (res_db res) (res_off res) (mem_gpu_addr (res_pq res))
            (mem_gpu_addr (res_rptr res)) (mem_gpu_addr (res_wptr res)) (mem_gpu_addr (res_eop res))
      in case init_queue (kz env 4) prop of
           (r, None) \<Rightarrow> (None, undo dev, h)
         | (r, Some q) \<Rightarrow>
     (case allocate_mqd mgr prop h of
        (None, h1) \<Rightarrow> (None, undo dev, h1)
      | (Some obj, h1) \<Rightarrow>
     (case init_mqd mgr obj prop h1 of ((d, gart, prop'), h2) \<Rightarrow>
      let q' = q\<lparr>mqd := d, mqd_mem_obj := Some obj, gart_mqd_addr := gart, properties := prop',
                  q_process := current_process env, q_device := unat (dev_id dev)\<rparr>;
          kq = \<lparr>kq_queue = q', kq_mqd_type = mt, pending_wptr64 = 0, pending_wptr = 0,
                nop_packet = nop_header env OR PM4_COUNT_ZERO, rptr_mem = res_rptr res, rptr_kernel = 0,
                wptr_mem = res_wptr res, wptr64_kernel = wptr_junk env AND NOT (mask 32), pq = res_pq res,
                pq_kernel = replicate (unat (qsize div 4)) 0, eop_mem = res_eop res, fence_mem_obj = None\<rparr>
      in if typ = OPU_QUEUE_TYPE_HIQ then
           (Some (kq\<lparr>kq_queue := q'\<lparr>q_pipe := CIK_HIQ_PIPE env, q_queue := CIK_HIQ_QUEUE env\<rparr>\<rparr>), dev,
            snd (load_mqd mgr d (CIK_HIQ_PIPE env) (CIK_HIQ_QUEUE env) prop' h2))
         else
        (case opu_gtt_sa_allocate (kz env 5) dev 4 of (r, fence, dev5) \<Rightarrow>
         if r \<noteq> 0
         then (None, undo dev5, free_mqd mgr d (Some obj) h2)
         else (Some (kq\<lparr>fence_mem_obj := fence\<rparr>), dev5, h2)))))"

definition kq_initialize ::
  "kq_env \<Rightarrow> (opu_mqd_type \<Rightarrow> 'h mqd_manager option) \<Rightarrow>
   opu_dev \<Rightarrow> 'h \<Rightarrow> opu_queue_type \<Rightarrow> u32 \<Rightarrow> kernel_queue option \<times> opu_dev \<times> 'h" where
  "kq_initialize env mqd_mgrs dev h typ qsize =
   (if typ \<noteq> OPU_QUEUE_TYPE_DIQ \<and> typ \<noteq> OPU_QUEUE_TYPE_HIQ then (None, dev, h)
    else
      let mt = (if typ = OPU_QUEUE_TYPE_DIQ then OPU_MQD_TYPE_DIQ else OPU_MQD_TYPE_HIQ)
      in case mqd_mgrs mt of
           None \<Rightarrow> (None, dev, h)
         | Some mgr \<Rightarrow>
             (case kq_allocate env dev qsize of
                (None, dev') \<Rightarrow> (None, dev', h)
              | (Some res, dev') \<Rightarrow> kq_setup env mt mgr res dev' h typ qsize))"

definition kq_uninitialize ::
  "(opu_mqd_type \<Rightarrow> 'h mqd_manager option) \<Rightarrow> opu_dev \<Rightarrow> 'h \<Rightarrow> kernel_queue \<Rightarrow> bool \<Rightarrow> opu_dev \<times> 'h" where
  "kq_uninitialize mqd_mgrs dev h kq hanging =
     (case mqd_mgrs (kq_mqd_type kq) of
        None \<Rightarrow> (dev, h)
      | Some mgr \<Rightarrow>
          let q = kq_queue kq;
              typ = qtype (properties q);
              (dev1, h1) =
                (if typ = OPU_QUEUE_TYPE_HIQ \<and> \<not> hanging
                 then (dev, snd (destroy_mqd mgr (mqd q) OPU_PREEMPT_TYPE_WAVEFRONT_RESET (q_pipe q) (q_queue q) h))
                 else if typ = OPU_QUEUE_TYPE_DIQ then (gtt_free dev (fence_mem_obj kq), h)
                 else (dev, h));
              h2 = free_mqd mgr (mqd q) (mqd_mem_obj q) h1;
              dev2 = gtt_free dev1 (rptr_mem kq);
              dev3 = gtt_free dev2 (wptr_mem kq);
              dev4 = gtt_free dev3 (eop_mem kq);
              dev5 = gtt_free dev4 (pq kq)
          in (opu_release_kernel_doorbell dev5 (doorbell_ptr (properties q)), h2))"

definition kernel_queue_init ::
  "bool \<Rightarrow> kq_env \<Rightarrow> (opu_mqd_type \<Rightarrow> 'h mqd_manager option) \<Rightarrow>
   opu_dev \<Rightarrow> 'h \<Rightarrow> opu_queue_type \<Rightarrow> kernel_queue option \<times> opu_dev \<times> 'h" where
  "kernel_queue_init kzalloc_ok env mqd_mgrs dev h typ =
     (if \<not> kzalloc_ok then (None, dev, h)
      else kq_initialize env mqd_mgrs dev h typ OPU_KERNEL_QUEUE_SIZE)"

definition kernel_queue_uninit ::
  "(opu_mqd_type \<Rightarrow> 'h mqd_manager option) \<Rightarrow> opu_dev \<Rightarrow> 'h \<Rightarrow> kernel_queue \<Rightarrow> bool \<Rightarrow> opu_dev \<times> 'h" where
  "kernel_queue_uninit mqd_mgrs dev h kq hanging = kq_uninitialize mqd_mgrs dev h kq hanging"

lemma allocate_failed: "opu_gtt_sa_allocate ok d sz = (r, m, d') \<Longrightarrow> r \<noteq> 0 \<Longrightarrow> d' = d"
  by (auto simp: opu_gtt_sa_allocate_def split: if_splits option.splits)

lemma free_allocated:
  assumes "gtt_wf d" and "opu_gtt_sa_allocate ok d sz = (0, m, d')"
  shows "gtt_free d' m = d" and "gtt_wf d'"
proof -
  obtain x where m: "m = Some x"
    using assms(2) by (auto simp: opu_gtt_sa_allocate_def split: if_splits option.splits)
  note a = allocate_result [OF assms(1) assms(2) [unfolded m]]
  then have "unmark_range (range_start x) (range_end x) (gtt_sa_bitmap d') = gtt_sa_bitmap d"
    by (intro ext) (auto simp: unmark_range_iff obj_chunks_def)
  with a m show "gtt_free d' m = d" "gtt_wf d'" using assms(1) by (auto simp: opu_gtt_sa_free_def)
qed

lemma gtt_free_commute: "gtt_free (gtt_free d a) b = gtt_free (gtt_free d b) a"
proof -
  have "unmark_range s e (unmark_range s' e' bm) = unmark_range s' e' (unmark_range s e bm)" for s e s' e' bm
    by (intro ext) (auto simp: unmark_range_iff)
  then show ?thesis by (auto simp: opu_gtt_sa_free_def split: option.splits)
qed

lemmas kq_err_labels = err_init_queue_def err_wptr_allocate_vidmem_def err_rptr_allocate_vidmem_def
  err_eop_allocate_vidmem_def err_pq_allocate_vidmem_def

text \<open>The conditions on the device under which kernel queues are created: a supported doorbell
  size, a sane GTT sub-allocator and a doorbell mapping that is not at address 0.\<close>

definition kq_dev_ok :: "opu_dev \<Rightarrow> bool" where
  "kq_dev_ok dev \<longleftrightarrow> doorbell_size_ok dev \<and> gtt_wf dev \<and>
     (\<forall>i < OPU_MAX_NUM_OF_QUEUES_PER_PROCESS. kernel_doorbell_addr dev i \<noteq> 0)"

lemma get_kernel_doorbell_cases:
  assumes "kq_dev_ok dev" and "opu_get_kernel_doorbell dev = (db, off, dev0)"
  shows "db = 0 \<Longrightarrow> gtt_sa_bitmap dev0 = gtt_sa_bitmap dev \<and> kernel_doorbells_used dev0 = kernel_doorbells_used dev"
    and "db \<noteq> 0 \<Longrightarrow> opu_release_kernel_doorbell dev0 db = dev" and "gtt_wf dev0"
proof -
  let ?i = "find_first_zero_bit (doorbell_available_index dev) 1024"
  have fields: "gtt_sa_bitmap dev0 = gtt_sa_bitmap dev" "gtt_wf dev0 = gtt_wf dev"
    using assms(2) by (auto simp: opu_get_kernel_doorbell_def Let_def gtt_wf_def split: if_splits)
  show "gtt_wf dev0" using fields assms(1) by (simp add: kq_dev_ok_def)
  show "db = 0 \<Longrightarrow> gtt_sa_bitmap dev0 = gtt_sa_bitmap dev \<and> kernel_doorbells_used dev0 = kernel_doorbells_used dev"
  proof -
    assume z: "db = 0"
    have "1024 \<le> ?i"
    proof (rule ccontr)
      assume "\<not> 1024 \<le> ?i"
      then have "db = kernel_doorbell_addr dev ?i" "?i < 1024"
        using assms(2) by (auto simp: opu_get_kernel_doorbell_def kernel_doorbell_addr_def Let_def)
      with z assms(1) show False by (auto simp: kq_dev_ok_def)
    qed
    then have "dev0 = dev\<lparr>doorbell_available_index := set_bit_at ?i (doorbell_available_index dev)\<rparr>"
      using assms(2) by (simp add: opu_get_kernel_doorbell_def Let_def)
    with \<open>1024 \<le> ?i\<close> fields show ?thesis by (auto simp: kernel_doorbells_used_def set_bit_at_def)
  qed
  show "db \<noteq> 0 \<Longrightarrow> opu_release_kernel_doorbell dev0 db = dev"
  proof (cases off)
    case None
    assume "db \<noteq> 0"
    with None assms(2) show ?thesis by (auto simp: opu_get_kernel_doorbell_def Let_def split: if_splits)
  next
    case (Some v)
    then show ?thesis using assms release_get_kernel_doorbell by (simp add: kq_dev_ok_def)
  qed
qed

abbreviation kq_undo :: "kq_resources \<Rightarrow> opu_dev \<Rightarrow> opu_dev" where
  "kq_undo res \<equiv> err_init_queue (res_db res) (res_pq res) (res_eop res) (res_rptr res) (res_wptr res)"

lemma kq_allocate_result:
  assumes "kq_dev_ok dev" and "kq_allocate env dev qsize = (r, dev')"
  shows "case r of
      None \<Rightarrow> gtt_sa_bitmap dev' = gtt_sa_bitmap dev \<and> kernel_doorbells_used dev' = kernel_doorbells_used dev
    | Some res \<Rightarrow> kq_undo res dev' = dev \<and> gtt_wf dev'"
proof -
  obtain db off dev0 where g: "opu_get_kernel_doorbell dev = (db, off, dev0)" by (metis prod_cases3)
  obtain r1 pqm dev1 where a1: "opu_gtt_sa_allocate (kz env 0) dev0 qsize = (r1, pqm, dev1)" by (metis prod_cases3)
  obtain r2 eop dev2 where a2: "(if after_mullins (device_info dev) then opu_gtt_sa_allocate (kz env 1) dev1 (ucast PAGE_SIZE)
     else (0, None, dev1)) = (r2, eop, dev2)" by (metis prod_cases3)
  obtain r3 rptr dev3 where a3: "opu_gtt_sa_allocate (kz env 2) dev2 4 = (r3, rptr, dev3)" by (metis prod_cases3)
  obtain r4 wptr dev4 where a4: "opu_gtt_sa_allocate (kz env 3) dev3 (dev_doorbell_size dev) = (r4, wptr, dev4)"
    by (metis prod_cases3)
  note d = get_kernel_doorbell_cases [OF assms(1) g]
  note unf = assms(2) [unfolded kq_allocate_def g prod.case a1 a2 a3 a4]
  consider "db = 0" | "db \<noteq> 0" "r1 \<noteq> 0" | "db \<noteq> 0" "r1 = 0" "r2 \<noteq> 0" | "db \<noteq> 0" "r1 = 0" "r2 = 0" "r3 \<noteq> 0"
    | "db \<noteq> 0" "r1 = 0" "r2 = 0" "r3 = 0" "r4 \<noteq> 0" | "db \<noteq> 0" "r1 = 0" "r2 = 0" "r3 = 0" "r4 = 0"
    by blast
  then show ?thesis
  proof cases
    case 1
    then show ?thesis using unf d(1) by auto
  next
    case 2
    then show ?thesis using unf d(2) allocate_failed [OF a1] by (auto simp: kq_err_labels)
  next
    case 3
    have "dev2 = dev1" using a2 3 allocate_failed by (auto split: if_splits)
    then show ?thesis using 3 unf d(2) free_allocated [OF d(3), of "kz env 0"] a1 by (auto simp: kq_err_labels)
  next
    case 4
    have u1: "gtt_free dev1 pqm = dev0" "gtt_wf dev1" using free_allocated [OF d(3)] a1 4 by auto
    have u2: "gtt_free dev2 eop = dev1" "gtt_wf dev2"
      using free_allocated [OF u1(2)] a2 4 u1(2) by (auto simp: opu_gtt_sa_free_def split: if_splits)
    show ?thesis using 4 unf d(2) u1 u2 allocate_failed [OF a3] by (auto simp: kq_err_labels)
  next
    case 5
    have u1: "gtt_free dev1 pqm = dev0" "gtt_wf dev1" using free_allocated [OF d(3)] a1 5 by auto
    have u2: "gtt_free dev2 eop = dev1" "gtt_wf dev2"
      using free_allocated [OF u1(2)] a2 5 u1(2) by (auto simp: opu_gtt_sa_free_def split: if_splits)
    have u3: "gtt_free dev3 rptr = dev2" using free_allocated [OF u2(2)] a3 5 by auto
    show ?thesis using 5 unf d(2) u1 u2 u3 allocate_failed [OF a4] by (auto simp: kq_err_labels)
  next
    case 6
    have u1: "gtt_free dev1 pqm = dev0" "gtt_wf dev1" using free_allocated [OF d(3)] a1 6 by auto
    have u2: "gtt_free dev2 eop = dev1" "gtt_wf dev2"
      using free_allocated [OF u1(2)] a2 6 u1(2) by (auto simp: opu_gtt_sa_free_def split: if_splits)
    have u3: "gtt_free dev3 rptr = dev2" "gtt_wf dev3" using free_allocated [OF u2(2)] a3 6 by auto
    have u4: "gtt_free dev4 wptr = dev3" "gtt_wf dev4" using free_allocated [OF u3(2)] a4 6 by auto
    show ?thesis using 6 unf d(2) u1 u2 u3 u4 by (auto simp: kq_err_labels)
  qed
qed

text \<open>Setting up and tearing down a queue over allocated resources.\<close>

lemma kq_setup_result:
  assumes "gtt_wf dev" and "kq_setup env mt mgr res dev h typ qsize = (r, dev', h')"
  shows "case r of
      None \<Rightarrow> dev' = kq_undo res dev
    | Some kq \<Rightarrow> kq_mqd_type kq = mt \<and> gtt_free dev' (fence_mem_obj kq) = dev \<and>
        (typ = OPU_QUEUE_TYPE_HIQ \<longrightarrow> fence_mem_obj kq = None) \<and> pq kq = res_pq res \<and> eop_mem kq = res_eop res \<and>
        rptr_mem kq = res_rptr res \<and> wptr_mem kq = res_wptr res"
proof -
  obtain r5 fence dev5 where a5: "opu_gtt_sa_allocate (kz env 5) dev 4 = (r5, fence, dev5)" by (metis prod_cases3)
  have "r5 = 0 \<Longrightarrow> gtt_free dev5 fence = dev" using free_allocated [OF assms(1)] a5 by auto
  moreover have "r5 \<noteq> 0 \<Longrightarrow> dev5 = dev" using allocate_failed [OF a5] .
  ultimately show ?thesis
    using assms(2) a5 unfolding kq_setup_def Let_def
    by (auto simp: opu_gtt_sa_free_def [of _ None] init_queue_def split: if_splits option.splits prod.splits)
qed

lemma kq_setup_queue:
  assumes "mqd_law mgr" and "kq_setup env mt mgr res dev h typ qsize = (Some kq, dev', h')"
  shows "doorbell_ptr (properties (kq_queue kq)) = res_db res \<and> qtype (properties (kq_queue kq)) = typ \<and>
    queue_size (properties (kq_queue kq)) = ucast qsize \<and> pending_wptr64 kq = 0 \<and> pending_wptr kq = 0 \<and>
    rptr_kernel kq = 0 \<and> pq_kernel kq = replicate (unat (qsize div 4)) 0 \<and>
    wptr64_kernel kq = wptr_junk env AND NOT (mask 32)"
  using assms(2) unfolding kq_setup_def Let_def
  by (auto simp: init_queue_def kq_properties_def dest!: mqd_law_init [OF assms(1)]
      split: if_splits option.splits prod.splits)

lemma kernel_queue_init_Some:
  assumes "kernel_queue_init ok env mqd_mgrs dev h typ = (Some kq, dev', h')"
  shows "\<exists>mgr res dev1. mqd_mgrs (if typ = OPU_QUEUE_TYPE_DIQ then OPU_MQD_TYPE_DIQ else OPU_MQD_TYPE_HIQ) = Some mgr \<and>
    kq_allocate env dev 2048 = (Some res, dev1) \<and> (typ = OPU_QUEUE_TYPE_DIQ \<or> typ = OPU_QUEUE_TYPE_HIQ) \<and>
    kq_setup env (if typ = OPU_QUEUE_TYPE_DIQ then OPU_MQD_TYPE_DIQ else OPU_MQD_TYPE_HIQ) mgr res dev1 h typ 2048
      = (Some kq, dev', h')"
  using assms unfolding kernel_queue_init_def kq_initialize_def Let_def
  by (auto split: if_splits option.splits prod.splits)

text \<open>
  A kernel queue that cannot be created leaks nothing: on every error exit of
  \<open>kernel_queue_init\<close> the GTT chunk map and the set of kernel doorbells in use are what they
  were before.
\<close>

theorem kernel_queue_init_no_leak:
  assumes "kq_dev_ok dev" and "kernel_queue_init ok env mqd_mgrs dev h typ = (None, dev', h')"
  shows "gtt_sa_bitmap dev' = gtt_sa_bitmap dev \<and> kernel_doorbells_used dev' = kernel_doorbells_used dev"
proof -
  obtain r dev1 where a: "kq_allocate env dev 2048 = (r, dev1)" by fastforce
  note l = kq_allocate_result [OF assms(1) a]
  show ?thesis
  proof (cases r)
    case None
    then show ?thesis using l a assms(2)
      by (auto simp: kernel_queue_init_def kq_initialize_def Let_def split: if_splits option.splits)
  next
    case (Some res)
    with l have wf: "gtt_wf dev1" and undo: "kq_undo res dev1 = dev" by auto
    show ?thesis using kq_setup_result [OF wf] undo Some a assms(2)
      by (fastforce simp: kernel_queue_init_def kq_initialize_def Let_def split: if_splits option.splits)
  qed
qed

text \<open>
  Tearing a kernel queue down undoes its creation: after \<open>kernel_queue_init\<close> succeeded,
  \<open>kernel_queue_uninit\<close> gives back the device exactly as it was, whether or not the scheduler
  hangs, and although the objects are not freed in the reverse order of their allocation.
\<close>

theorem kernel_queue_init_uninit:
  assumes "kq_dev_ok dev" and "mgrs_ok mqd_mgrs"
    and "kernel_queue_init ok env mqd_mgrs dev h typ = (Some kq, dev', h')"
  shows "fst (kernel_queue_uninit mqd_mgrs dev' h'' kq hanging) = dev"
proof -
  let ?mt = "if typ = OPU_QUEUE_TYPE_DIQ then OPU_MQD_TYPE_DIQ else OPU_MQD_TYPE_HIQ"
  from kernel_queue_init_Some [OF assms(3)] obtain mgr res dev1 where
    mgr: "mqd_mgrs ?mt = Some mgr" and a: "kq_allocate env dev 2048 = (Some res, dev1)"
    and tp: "typ = OPU_QUEUE_TYPE_DIQ \<or> typ = OPU_QUEUE_TYPE_HIQ"
    and st: "kq_setup env ?mt mgr res dev1 h typ 2048 = (Some kq, dev', h')"
    by blast
  have u: "kq_undo res dev1 = dev" "gtt_wf dev1" using kq_allocate_result [OF assms(1) a] by auto
  note q = kq_setup_queue [OF mgrs_okD [OF assms(2) mgr] st]
  have r: "kq_mqd_type kq = ?mt" "gtt_free dev' (fence_mem_obj kq) = dev1"
    "typ = OPU_QUEUE_TYPE_HIQ \<longrightarrow> fence_mem_obj kq = None" "pq kq = res_pq res" "eop_mem kq = res_eop res"
    "rptr_mem kq = res_rptr res" "wptr_mem kq = res_wptr res"
    using kq_setup_result [OF u(2) st] by auto
  have "typ = OPU_QUEUE_TYPE_HIQ \<Longrightarrow> dev' = dev1" using r(2,3) by (auto simp: opu_gtt_sa_free_def)
  with u(1) q r tp mgr show ?thesis
    by (auto simp: kernel_queue_uninit_def kq_uninitialize_def Let_def kq_err_labels
        gtt_free_commute [of _ "res_rptr res" "res_wptr res"])
qed

text \<open>
  A fresh kernel queue has an empty ring of 512 dwords, well-formed and with the two pending
  pointers in step, for every content of the memory it got.
\<close>

theorem kernel_queue_init_ring:
  assumes "mgrs_ok mqd_mgrs"
    and "kernel_queue_init ok env mqd_mgrs dev h typ = (Some kq, dev', h')"
  shows "ring_wf kq \<and> ring_size kq = 512 \<and> unread kq = [] \<and> wptr_synced dev' kq"
proof -
  from kernel_queue_init_Some [OF assms(2)] obtain mt mgr res dev1 where
    mgr: "mqd_mgrs mt = Some mgr"
    and st: "kq_setup env mt mgr res dev1 h typ 2048 = (Some kq, dev', h')"
    by blast
  note q = kq_setup_queue [OF mgrs_okD [OF assms(1) mgr] st]
  then have n: "ring_size kq = 512" by (simp add: ring_size_def)
  moreover from this q have "ring_used kq = 0" by (simp add: ring_used_def)
  ultimately show ?thesis using q by (simp add: ring_wf_def unread_def wptr_synced_def)
qed

text \<open>
  With eight-byte doorbells only half of the shared write pointer is cleared: the fresh
  queue's pending pointer is 0, but a rollback before the first submission makes it the old
  content of the upper half of that memory.
\<close>

theorem kq_wptr_upper_half_not_cleared:
  assumes "mgrs_ok mqd_mgrs"
    and "kernel_queue_init ok env mqd_mgrs dev h typ = (Some kq, dev', h')"
    and "dev_doorbell_size dev' = 8"
  shows "pending_wptr64 kq = 0 \<and> pending_wptr64 (kq_rollback_packet dev' kq) = wptr_junk env AND NOT (mask 32)"
proof -
  from kernel_queue_init_Some [OF assms(2)] obtain mt mgr res dev1 where
    mgr: "mqd_mgrs mt = Some mgr"
    and st: "kq_setup env mt mgr res dev1 h typ 2048 = (Some kq, dev', h')"
    by blast
  from kq_setup_queue [OF mgrs_okD [OF assms(1) mgr] st] assms(3) show ?thesis
    by (simp add: kq_rollback_packet_def)
qed

text \<open>A device and surroundings in which a kernel queue can be created.\<close>

definition kq_example_dev :: opu_dev where
  "kq_example_dev = example_dev\<lparr>doorbell_kernel_ptr := 0x9000, gtt_sa_num_of_chunks := 32\<rparr>"

definition kq_example_env :: kq_env where
  "kq_example_env = \<lparr>kz = (\<lambda>_. True), wptr_junk = 0xABCD00000000, nop_header = 0xC0001000, current_process = 1,
     CIK_HIQ_PIPE = 4, CIK_HIQ_QUEUE = 0\<rparr>"

definition kq_example_mgrs :: "opu_mqd_type \<Rightarrow> nat mqd_manager option" where
  "kq_example_mgrs = (\<lambda>_. Some example_mqd_manager)"

lemma kq_example_law: "mgrs_ok kq_example_mgrs"
  using example_mqd_law by (simp add: mgrs_ok_def kq_example_mgrs_def)

lemma mapped_doorbell_nonzero:
  assumes "doorbell_kernel_ptr dev \<noteq> 0" and "unat (doorbell_kernel_ptr dev) < 2 ^ 63"
  shows "kernel_doorbell_addr dev i \<noteq> 0"
proof -
  define x :: u32 where "x = of_nat i * ucast (ucast (dev_doorbell_size dev) div (4 :: u64))"
  have x: "unat x < 2 ^ 32" using unsigned_less [where 'a = nat, of x] by simp
  have d: "unat (4 * ucast x :: u64) = 4 * unat x" using x by (subst unat_mult_fits) simp_all
  have "unat (doorbell_kernel_ptr dev + 4 * ucast x) = unat (doorbell_kernel_ptr dev) + 4 * unat x"
    using assms(2) x d by (subst unat_add_fits) simp_all
  then have "unat (kernel_doorbell_addr dev i) \<noteq> 0"
    using assms(1) by (simp add: kernel_doorbell_addr_def x_def unat_eq_zero)
  then show ?thesis by auto
qed

lemma kq_example_dev_ok: "kq_dev_ok kq_example_dev"
  using mapped_doorbell_nonzero [of kq_example_dev]
  by (simp add: kq_dev_ok_def kq_example_dev_def doorbell_size_ok_def example_dev_defs gtt_wf_def)

lemma kq_example_created:
  "fst (kernel_queue_init True kq_example_env kq_example_mgrs kq_example_dev 0 OPU_QUEUE_TYPE_HIQ) \<noteq> None"
  by code_simp

lemma kq_example_init:
  "\<exists>kq dev' h'. kernel_queue_init True kq_example_env kq_example_mgrs kq_example_dev 0 OPU_QUEUE_TYPE_HIQ
     = (Some kq, dev', h')"
  using kq_example_created by (metis not_None_eq prod.collapse)

definition kq_small_dev :: opu_dev where
  "kq_small_dev = kq_example_dev\<lparr>gtt_sa_num_of_chunks := 12\<rparr>"

lemma kq_small_dev_ok: "kq_dev_ok kq_small_dev"
  using kq_example_dev_ok
  by (simp add: kq_small_dev_def kq_dev_ok_def kq_example_dev_def doorbell_size_ok_def example_dev_defs gtt_wf_def
      kernel_doorbell_addr_def)

lemma kq_small_failed:
  "fst (kernel_queue_init True kq_example_env kq_example_mgrs kq_small_dev 0 OPU_QUEUE_TYPE_HIQ) = None"
  by code_simp

theorem kernel_queue_init_no_leak_witness:
  "\<exists>dev' h'. kernel_queue_init True kq_example_env kq_example_mgrs kq_small_dev 0 OPU_QUEUE_TYPE_HIQ = (None, dev', h') \<and>
     gtt_sa_bitmap dev' = gtt_sa_bitmap kq_small_dev"
proof -
  obtain dev' h' where
    "kernel_queue_init True kq_example_env kq_example_mgrs kq_small_dev 0 OPU_QUEUE_TYPE_HIQ = (None, dev', h')"
    using kq_small_failed by (metis prod.collapse)
  with kernel_queue_init_no_leak [OF kq_small_dev_ok this] show ?thesis by blast
qed

theorem kernel_queue_init_uninit_witness:
  "\<exists>kq dev' h'. kernel_queue_init True kq_example_env kq_example_mgrs kq_example_dev 0 OPU_QUEUE_TYPE_HIQ
      = (Some kq, dev', h') \<and> fst (kernel_queue_uninit kq_example_mgrs dev' h' kq False) = kq_example_dev"
  using kq_example_init kernel_queue_init_uninit [OF kq_example_dev_ok kq_example_law] by blast

theorem kernel_queue_init_ring_witness:
  "\<exists>kq dev' h'. kernel_queue_init True kq_example_env kq_example_mgrs kq_example_dev 0 OPU_QUEUE_TYPE_HIQ
      = (Some kq, dev', h') \<and> ring_wf kq \<and> unread kq = []"
  using kq_example_init kernel_queue_init_ring [OF kq_example_law] by blast

lemma kernel_queue_init_doorbell_size:
  assumes "kernel_queue_init ok env mqd_mgrs dev h typ = (Some kq, dev', h')" and "kq_dev_ok dev"
    and "mgrs_ok mqd_mgrs"
  shows "dev_doorbell_size dev' = dev_doorbell_size dev"
proof -
  from kernel_queue_init_Some [OF assms(1)] obtain mt mgr res dev1 where
    a: "kq_allocate env dev 2048 = (Some res, dev1)"
    and st: "kq_setup env mt mgr res dev1 h typ 2048 = (Some kq, dev', h')"
    by blast
  have fr: "dev_doorbell_size (gtt_free d m) = dev_doorbell_size d"
    "dev_doorbell_size (opu_release_kernel_doorbell d db) = dev_doorbell_size d" for d m db
    by (simp_all add: opu_gtt_sa_free_def opu_release_kernel_doorbell_def split: option.split)
  have u: "kq_undo res dev1 = dev" "gtt_wf dev1" using kq_allocate_result [OF assms(2) a] by auto
  have "dev_doorbell_size dev1 = dev_doorbell_size dev"
    unfolding u(1) [symmetric] kq_err_labels fr ..
  moreover have "gtt_free dev' (fence_mem_obj kq) = dev1" using kq_setup_result [OF u(2) st] by simp
  then have "dev_doorbell_size dev' = dev_doorbell_size dev1" using fr(1) by metis
  ultimately show ?thesis by simp
qed

theorem kq_wptr_upper_half_not_cleared_witness:
  "\<exists>kq dev' h'. kernel_queue_init True kq_example_env kq_example_mgrs kq_example_dev 0 OPU_QUEUE_TYPE_HIQ
      = (Some kq, dev', h') \<and> pending_wptr64 kq = 0 \<and> pending_wptr64 (kq_rollback_packet dev' kq) = 0xABCD00000000"
proof -
  obtain kq dev' h' where i: "kernel_queue_init True kq_example_env kq_example_mgrs kq_example_dev 0 OPU_QUEUE_TYPE_HIQ
      = (Some kq, dev', h')" using kq_example_init by blast
  have "dev_doorbell_size kq_example_dev = 8" by (simp add: kq_example_dev_def example_dev_defs)
  with kernel_queue_init_doorbell_size [OF i kq_example_dev_ok kq_example_law]
  have "dev_doorbell_size dev' = 8" by simp
  from kq_wptr_upper_half_not_cleared [OF kq_example_law i this] i show ?thesis
    by (simp add: kq_example_env_def mask_eq_exp_minus_1)
qed

end
