(* ===== verification/Opu_Dqm_State.thy ===== *)
theory Opu_Dqm_State
  imports Opu_Kernel_Queue
begin

text \<open>
  The state of the device queue manager: the manager itself (\<open>opu_device_queue_manager.h\<close>), the
  per-process device data with its queue lists (\<open>opu_priv.h\<close>), the queues and kernel queues the
  lists point to, and the hardware state \<open>'h\<close> behind the register and packet interface. Lists of
  \<open>list_head\<close> are lists of object numbers, head first. All operations run under the manager's
  lock, so an operation is a function from the state to its result and the next state.
\<close>

datatype opu_sched_policy =
    OPU_SCHED_POLICY_HWS | OPU_SCHED_POLICY_HWS_NO_OVERSUBSCRIPTION | OPU_SCHED_POLICY_NO_HWS
  | OPU_SCHED_POLICY_OTHER int

datatype opu_unmap_queues_filter =
    OPU_UNMAP_QUEUES_FILTER_SINGLE_QUEUE | OPU_UNMAP_QUEUES_FILTER_ALL_QUEUES
  | OPU_UNMAP_QUEUES_FILTER_DYNAMIC_QUEUES | OPU_UNMAP_QUEUES_FILTER_BY_PASID

datatype cache_policy = cache_policy_coherent | cache_policy_noncoherent

type_synonym u16_array = "nat \<Rightarrow> u16"

record device_queue_manager =
  dev :: opu_dev
  sched_policy :: opu_sched_policy
  dqm_queues :: "nat list"
  processes_count :: u32
  active_queue_count :: u32
  active_cp_queue_count :: u32
  gws_queue_count :: u32
  total_queue_count :: u32
  next_pipe_to_allocate :: u32
  allocated_queues :: "u32 list"
  sdma_bitmap :: u64
  xgmi_sdma_bitmap :: u64
  vmid_pasid :: u16_array
  fence_gpu_addr :: u64
  fence_mem :: "opu_mem_obj option"
  active_runlist :: bool
  is_hws_hang :: bool
  is_resetting :: bool
  hw_exception_work :: bool
  sched_running :: bool

text \<open>\<open>struct opu_process_device\<close> with the \<open>struct qcm_process_device\<close> it embeds.\<close>

record opu_process_device =
  queues_list :: "nat list"
  priv_queue_list :: "nat list"
  queue_count :: u32
  vmid :: u32
  is_debug :: bool
  evicted :: u32
  reset_wavefronts :: bool
  mapped_gws_queue :: bool
  page_table_base :: u64
  sh_mem_config :: u32
  sh_mem_bases :: u32
  sh_mem_ape1_base :: u32
  sh_mem_ape1_limit :: u32
  sh_hidden_private_base :: u32
  tba_addr :: u64
  tma_addr :: u64
  ib_base :: u64
  ib_kaddr :: u64
  doorbell_bitmap :: bitmap
  pdd_process :: nat
  doorbell_index :: u32
  sdma_past_activity_counter :: u64
  last_evict_timestamp :: u64
  evict_duration_counter :: u64
  already_dequeued :: bool

record 'h dqm_state =
  dqm :: device_queue_manager
  pdds :: "nat \<Rightarrow> opu_process_device"
  qs :: "nat \<Rightarrow> queue"
  kqs :: "nat \<Rightarrow> kernel_queue"
  hw :: 'h

text \<open>The code behind the manager that is not part of the sources: the MQD managers, the packet
  manager, the graphics driver's register interface, the chip-specific operations and the
  kernel's clock and address spaces; and the module parameters.\<close>

record 'h dqm_env =
  mqd_mgrs :: "opu_mqd_type \<Rightarrow> 'h mqd_manager"
  max_num_of_queues_per_device :: u32
  pasid_of :: "nat \<Rightarrow> u32"
  pdd_of :: "nat \<Rightarrow> nat option"
  mm_is_current :: "nat \<Rightarrow> bool"
  task_mm_alive :: "nat \<Rightarrow> 'h \<Rightarrow> bool"
  jiffies :: "'h \<Rightarrow> u64"
  gpuvm_get_process_page_dir :: "nat \<Rightarrow> 'h \<Rightarrow> u64"
  kgd_set_pasid_vmid_mapping :: "u32 \<Rightarrow> u32 \<Rightarrow> 'h \<Rightarrow> 'h"
  kgd_program_sh_mem_settings :: "u32 \<Rightarrow> u32 \<Rightarrow> u32 \<Rightarrow> u32 \<Rightarrow> u32 \<Rightarrow> 'h \<Rightarrow> 'h"
  kgd_set_vm_context_page_table_base :: "u32 \<Rightarrow> u64 \<Rightarrow> 'h \<Rightarrow> 'h"
  kgd_set_scratch_backing_va :: "(u32 \<Rightarrow> u32 \<Rightarrow> 'h \<Rightarrow> 'h) option"
  kgd_init_interrupts :: "u32 \<Rightarrow> 'h \<Rightarrow> 'h"
  kgd_flush_tlb_vmid :: "u32 \<Rightarrow> 'h \<Rightarrow> 'h"
  kgd_flush_tlb_pasid :: "u32 \<Rightarrow> 'h \<Rightarrow> 'h"
  kgd_submit_ib :: "u32 \<Rightarrow> u64 \<Rightarrow> 'h \<Rightarrow> int \<times> 'h"
  kgd_set_compute_idle :: "bool \<Rightarrow> 'h \<Rightarrow> 'h"
  kgd_queue_mask_bit :: "nat \<Rightarrow> nat"
  pm_init :: "'h \<Rightarrow> int \<times> 'h"
  pm_uninit :: "bool \<Rightarrow> 'h \<Rightarrow> 'h"
  pm_release_mem :: "u64 \<Rightarrow> 'h \<Rightarrow> int \<times> 'h"
  pm_send_set_resources :: "u32 \<Rightarrow> u64 \<Rightarrow> 'h \<Rightarrow> int \<times> 'h"
  pm_send_runlist :: "nat list \<Rightarrow> 'h \<Rightarrow> int \<times> 'h"
  pm_send_unmap_queue :: "opu_unmap_queues_filter \<Rightarrow> u32 \<Rightarrow> 'h \<Rightarrow> int \<times> 'h"
  pm_send_query_status :: "u64 \<Rightarrow> 'h \<Rightarrow> 'h"
  pm_release_ib :: "'h \<Rightarrow> 'h"
  hiq_mqd :: "'h \<Rightarrow> nat"
  write_fence :: "u64 \<Rightarrow> 'h \<Rightarrow> 'h"
  fence_wait :: "'h \<Rightarrow> int \<times> 'h"
  asic_init_sdma_vm :: "queue \<Rightarrow> opu_process_device \<Rightarrow> u32"
  asic_update_qpd :: "opu_process_device \<Rightarrow> int \<times> u32 \<times> u32 \<times> u32 \<times> u32"
  asic_set_cache_memory_policy ::
    "(opu_process_device \<Rightarrow> cache_policy \<Rightarrow> cache_policy \<Rightarrow> u64 \<Rightarrow> u64 \<Rightarrow> bool \<times> u32) option"
  dbgdev_wave_reset_wavefronts :: "nat \<Rightarrow> 'h \<Rightarrow> 'h"
  read_sdma_queue_counter :: "u64 \<Rightarrow> 'h \<Rightarrow> int \<times> u64"

section \<open>Updates of one part of the state\<close>

definition upd_dqm :: "(device_queue_manager \<Rightarrow> device_queue_manager) \<Rightarrow> 'h dqm_state \<Rightarrow> 'h dqm_state" where
  "upd_dqm f s = s\<lparr>dqm := f (dqm s)\<rparr>"

definition upd_pdd :: "nat \<Rightarrow> (opu_process_device \<Rightarrow> opu_process_device) \<Rightarrow> 'h dqm_state \<Rightarrow> 'h dqm_state" where
  "upd_pdd p f s = s\<lparr>pdds := (pdds s)(p := f (pdds s p))\<rparr>"

definition upd_q :: "nat \<Rightarrow> (queue \<Rightarrow> queue) \<Rightarrow> 'h dqm_state \<Rightarrow> 'h dqm_state" where
  "upd_q q f s = s\<lparr>qs := (qs s)(q := f (qs s q))\<rparr>"

definition upd_hw :: "('h \<Rightarrow> 'h) \<Rightarrow> 'h dqm_state \<Rightarrow> 'h dqm_state" where
  "upd_hw f s = s\<lparr>hw := f (hw s)\<rparr>"

abbreviation upd_props :: "nat \<Rightarrow> (queue_properties \<Rightarrow> queue_properties) \<Rightarrow> 'h dqm_state \<Rightarrow> 'h dqm_state" where
  "upd_props q f \<equiv> upd_q q (\<lambda>x. x\<lparr>properties := f (properties x)\<rparr>)"

abbreviation props :: "'h dqm_state \<Rightarrow> nat \<Rightarrow> queue_properties" where
  "props s q \<equiv> properties (qs s q)"

lemma upd_dqm_sel [simp]:
  "dqm (upd_dqm f s) = f (dqm s)" "pdds (upd_dqm f s) = pdds s" "qs (upd_dqm f s) = qs s"
  "kqs (upd_dqm f s) = kqs s" "hw (upd_dqm f s) = hw s"
  by (simp_all add: upd_dqm_def)

lemma upd_pdd_sel [simp]:
  "dqm (upd_pdd p f s) = dqm s" "pdds (upd_pdd p f s) = (pdds s)(p := f (pdds s p))"
  "qs (upd_pdd p f s) = qs s" "kqs (upd_pdd p f s) = kqs s" "hw (upd_pdd p f s) = hw s"
  by (simp_all add: upd_pdd_def)

lemma upd_q_sel [simp]:
  "dqm (upd_q q f s) = dqm s" "pdds (upd_q q f s) = pdds s" "qs (upd_q q f s) = (qs s)(q := f (qs s q))"
  "kqs (upd_q q f s) = kqs s" "hw (upd_q q f s) = hw s"
  by (simp_all add: upd_q_def)

lemma upd_hw_sel [simp]:
  "dqm (upd_hw f s) = dqm s" "pdds (upd_hw f s) = pdds s" "qs (upd_hw f s) = qs s"
  "kqs (upd_hw f s) = kqs s" "hw (upd_hw f s) = f (hw s)"
  by (simp_all add: upd_hw_def)

text \<open>A hardware operation with a result.\<close>

definition hw_call :: "('h \<Rightarrow> 'r \<times> 'h) \<Rightarrow> 'h dqm_state \<Rightarrow> 'r \<times> 'h dqm_state" where
  "hw_call f s = (case f (hw s) of (r, h) \<Rightarrow> (r, s\<lparr>hw := h\<rparr>))"

text \<open>The states an operation may only reach through the hardware: everything but \<open>hw\<close> agrees.\<close>

definition same_driver :: "'h dqm_state \<Rightarrow> 'h dqm_state \<Rightarrow> bool" where
  "same_driver s t \<longleftrightarrow> dqm t = dqm s \<and> pdds t = pdds s \<and> qs t = qs s \<and> kqs t = kqs s"

lemma hw_call_frame:
  assumes "hw_call f s = (r, t)"
  shows "dqm t = dqm s" "pdds t = pdds s" "qs t = qs s" "kqs t = kqs s"
  using assms by (auto simp: hw_call_def split: prod.splits)

lemma hw_call_frame_snd [simp]:
  "dqm (snd (hw_call f s)) = dqm s" "pdds (snd (hw_call f s)) = pdds s" "qs (snd (hw_call f s)) = qs s"
  "kqs (snd (hw_call f s)) = kqs s"
  by (simp_all add: hw_call_def split: prod.splits)

section \<open>Small accessors\<close>

definition get_mqd_type_from_queue_type :: "opu_queue_type \<Rightarrow> opu_mqd_type" where
  "get_mqd_type_from_queue_type t =
     (if t = OPU_QUEUE_TYPE_SDMA \<or> t = OPU_QUEUE_TYPE_SDMA_XGMI then OPU_MQD_TYPE_SDMA else OPU_MQD_TYPE_CP)"

abbreviation mgr_of :: "'h dqm_env \<Rightarrow> 'h dqm_state \<Rightarrow> nat \<Rightarrow> 'h mqd_manager" where
  "mgr_of env s q \<equiv> mqd_mgrs env (get_mqd_type_from_queue_type (qtype (props s q)))"

definition is_pipe_enabled :: "device_queue_manager \<Rightarrow> nat \<Rightarrow> nat \<Rightarrow> bool" where
  "is_pipe_enabled d mec pipe =
     (let r = shared_resources (dev d);
          pipe_offset = (mec * unat (num_pipe_per_mec r) + pipe) * unat (num_queue_per_pipe r)
      in list_ex (\<lambda>i. cp_queue_bitmap r (pipe_offset + i)) [0..<unat (num_queue_per_pipe r)])"

definition get_cp_queues_num :: "device_queue_manager \<Rightarrow> nat" where
  "get_cp_queues_num d =
     length (filter (cp_queue_bitmap (shared_resources (dev d))) [0..<OPU_MAX_QUEUES])"

definition get_queues_per_pipe :: "device_queue_manager \<Rightarrow> u32" where
  "get_queues_per_pipe d = num_queue_per_pipe (shared_resources (dev d))"

definition get_pipes_per_mec :: "device_queue_manager \<Rightarrow> u32" where
  "get_pipes_per_mec d = num_pipe_per_mec (shared_resources (dev d))"

definition get_num_sdma_engines :: "device_queue_manager \<Rightarrow> u32" where
  "get_num_sdma_engines d = num_sdma_engines (device_info (dev d))"

definition get_num_xgmi_sdma_engines :: "device_queue_manager \<Rightarrow> u32" where
  "get_num_xgmi_sdma_engines d = num_xgmi_sdma_engines (device_info (dev d))"

definition get_num_all_sdma_engines :: "device_queue_manager \<Rightarrow> u32" where
  "get_num_all_sdma_engines d = get_num_sdma_engines d + get_num_xgmi_sdma_engines d"

definition get_num_sdma_queues :: "device_queue_manager \<Rightarrow> u32" where
  "get_num_sdma_queues d = num_sdma_engines (device_info (dev d)) * num_sdma_queues_per_engine (device_info (dev d))"

definition get_num_xgmi_sdma_queues :: "device_queue_manager \<Rightarrow> u32" where
  "get_num_xgmi_sdma_queues d =
     num_xgmi_sdma_engines (device_info (dev d)) * num_sdma_queues_per_engine (device_info (dev d))"

definition program_sh_mem_settings :: "'h dqm_env \<Rightarrow> nat \<Rightarrow> 'h dqm_state \<Rightarrow> 'h dqm_state" where
  "program_sh_mem_settings env p s =
     upd_hw (kgd_program_sh_mem_settings env (vmid (pdds s p)) (sh_mem_config (pdds s p))
       (sh_mem_ape1_base (pdds s p)) (sh_mem_ape1_limit (pdds s p)) (sh_mem_bases (pdds s p))) s"

definition set_pasid_vmid_mapping :: "'h dqm_env \<Rightarrow> u32 \<Rightarrow> u32 \<Rightarrow> 'h dqm_state \<Rightarrow> 'h dqm_state" where
  "set_pasid_vmid_mapping env pasid v s = upd_hw (kgd_set_pasid_vmid_mapping env pasid v) s"

definition opu_flush_tlb :: "'h dqm_env \<Rightarrow> nat \<Rightarrow> 'h dqm_state \<Rightarrow> 'h dqm_state" where
  "opu_flush_tlb env p s =
     (if sched_policy (dqm s) = OPU_SCHED_POLICY_NO_HWS then
        (if vmid (pdds s p) \<noteq> 0 then upd_hw (kgd_flush_tlb_vmid env (vmid (pdds s p))) s else s)
      else upd_hw (kgd_flush_tlb_pasid env (pasid_of env (pdd_process (pdds s p)))) s)"

definition cp_type :: "opu_queue_type \<Rightarrow> bool" where
  "cp_type t \<longleftrightarrow> t = OPU_QUEUE_TYPE_COMPUTE \<or> t = OPU_QUEUE_TYPE_DIQ"

definition increment_queue_count :: "opu_queue_type \<Rightarrow> device_queue_manager \<Rightarrow> device_queue_manager" where
  "increment_queue_count t d =
     (let d1 = d\<lparr>active_queue_count := active_queue_count d + 1\<rparr>
      in if cp_type t then d1\<lparr>active_cp_queue_count := active_cp_queue_count d1 + 1\<rparr> else d1)"

definition decrement_queue_count :: "opu_queue_type \<Rightarrow> device_queue_manager \<Rightarrow> device_queue_manager" where
  "decrement_queue_count t d =
     (let d1 = d\<lparr>active_queue_count := active_queue_count d - 1\<rparr>
      in if cp_type t then d1\<lparr>active_cp_queue_count := active_cp_queue_count d1 - 1\<rparr> else d1)"

definition opu_inc_compute_active :: "'h dqm_env \<Rightarrow> 'h dqm_state \<Rightarrow> 'h dqm_state" where
  "opu_inc_compute_active env s =
     (let c = compute_profile (dev (dqm s)) + 1;
          s1 = upd_dqm (\<lambda>d. d\<lparr>dev := (dev d)\<lparr>compute_profile := c\<rparr>\<rparr>) s
      in if c = 1 then upd_hw (kgd_set_compute_idle env False) s1 else s1)"

definition opu_dec_compute_active :: "'h dqm_env \<Rightarrow> 'h dqm_state \<Rightarrow> 'h dqm_state" where
  "opu_dec_compute_active env s =
     (let c = compute_profile (dev (dqm s)) - 1;
          s1 = upd_dqm (\<lambda>d. d\<lparr>dev := (dev d)\<lparr>compute_profile := c\<rparr>\<rparr>) s
      in if c = 0 then upd_hw (kgd_set_compute_idle env True) s1 else s1)"

section \<open>An example\<close>

text \<open>A manager without processes, and surroundings in which every hardware operation succeeds and
  does nothing.\<close>

definition zero_dqm :: device_queue_manager where
  "zero_dqm = \<lparr>dev = example_dev, sched_policy = OPU_SCHED_POLICY_HWS, dqm_queues = [], processes_count = 0,
     active_queue_count = 0, active_cp_queue_count = 0, gws_queue_count = 0, total_queue_count = 0,
     next_pipe_to_allocate = 0, allocated_queues = [], sdma_bitmap = 0, xgmi_sdma_bitmap = 0,
     vmid_pasid = (\<lambda>_. 0), fence_gpu_addr = 0, fence_mem = None, active_runlist = False,
     is_hws_hang = False, is_resetting = False, hw_exception_work = False, sched_running = False\<rparr>"

definition zero_pdd :: opu_process_device where
  "zero_pdd = \<lparr>queues_list = [], priv_queue_list = [], queue_count = 0, vmid = 0, is_debug = False, evicted = 0,
     reset_wavefronts = False, mapped_gws_queue = False, page_table_base = 0, sh_mem_config = 0, sh_mem_bases = 0,
     sh_mem_ape1_base = 0, sh_mem_ape1_limit = 0, sh_hidden_private_base = 0, tba_addr = 0, tma_addr = 0,
     ib_base = 0, ib_kaddr = 0, doorbell_bitmap = (\<lambda>_. False), pdd_process = 0, doorbell_index = 0,
     sdma_past_activity_counter = 0, last_evict_timestamp = 0, evict_duration_counter = 0,
     already_dequeued = False\<rparr>"

definition example_dqm_env :: "nat dqm_env" where
  "example_dqm_env = \<lparr>mqd_mgrs = (\<lambda>_. example_mqd_manager), max_num_of_queues_per_device = 4096,
     pasid_of = (\<lambda>p. 0x8000 + of_nat p), pdd_of = Some, mm_is_current = (\<lambda>_. True), task_mm_alive = (\<lambda>_ _. True),
     jiffies = of_nat, gpuvm_get_process_page_dir = (\<lambda>_ _. 0x1000), kgd_set_pasid_vmid_mapping = (\<lambda>_ _ h. h),
     kgd_program_sh_mem_settings = (\<lambda>_ _ _ _ _ h. h), kgd_set_vm_context_page_table_base = (\<lambda>_ _ h. h),
     kgd_set_scratch_backing_va = None, kgd_init_interrupts = (\<lambda>_ h. h), kgd_flush_tlb_vmid = (\<lambda>_ h. h),
     kgd_flush_tlb_pasid = (\<lambda>_ h. h), kgd_submit_ib = (\<lambda>_ _ h. (0, h)), kgd_set_compute_idle = (\<lambda>_ h. h),
     kgd_queue_mask_bit = id, pm_init = (\<lambda>h. (0, h)), pm_uninit = (\<lambda>_ h. h), pm_release_mem = (\<lambda>_ h. (0, h)),
     pm_send_set_resources = (\<lambda>_ _ h. (0, h)), pm_send_runlist = (\<lambda>_ h. (0, h)),
     pm_send_unmap_queue = (\<lambda>_ _ h. (0, h)), pm_send_query_status = (\<lambda>_ h. h), pm_release_ib = (\<lambda>h. h),
     hiq_mqd = (\<lambda>_. 0), write_fence = (\<lambda>_ h. h), fence_wait = (\<lambda>h. (0, h)), asic_init_sdma_vm = (\<lambda>_ _. 0),
     asic_update_qpd = (\<lambda>_. (0, 0, 0, 0, 0)), asic_set_cache_memory_policy = None,
     dbgdev_wave_reset_wavefronts = (\<lambda>_ h. h), read_sdma_queue_counter = (\<lambda>_ _. (0, 5))\<rparr>"

definition example_dqm_state :: "nat dqm_state" where
  "example_dqm_state = \<lparr>dqm = zero_dqm\<lparr>sdma_bitmap := 0xF, xgmi_sdma_bitmap := 3,
       allocated_queues := [0xF, 0xF, 0xF, 0xF]\<rparr>,
     pdds = (\<lambda>_. zero_pdd), qs = (\<lambda>_. zero_queue), kqs = (\<lambda>_. example_kq), hw = 0\<rparr>"

lemmas example_dqm_defs = example_dqm_state_def zero_dqm_def zero_pdd_def zero_queue_def zero_properties_def
  example_dev_defs

end
