(* ===== verification/Opu_Dqm_Alloc.thy ===== *)
theory Opu_Dqm_Alloc
  imports Opu_Dqm_State
begin

text \<open>
  The resource allocators of \<open>opu_device_queue_manager.c\<close>: doorbells of a process, VMIDs, hardware
  queue descriptors (HQDs) and SDMA queues. The SDMA queues, HQD slots, VMIDs and CP doorbells are
  providers of the \<open>slot_allocator\<close> interface.
\<close>

section \<open>Operations\<close>

subsection \<open>Doorbells of a queue\<close>

definition allocate_doorbell :: "nat \<Rightarrow> nat \<Rightarrow> 'h dqm_state \<Rightarrow> int \<times> 'h dqm_state" where
  "allocate_doorbell p q s =
     (let d = dev (dqm s);
          set_off = (\<lambda>s'. upd_props q (\<lambda>x. x\<lparr>doorbell_off :=
             opu_get_doorbell_dw_offset_in_bar d (doorbell_index (pdds s p)) (doorbell_id (qs s' q))\<rparr>) s')
      in if \<not> soc15 (device_info d) then
           (0, set_off (upd_q q (\<lambda>x. x\<lparr>doorbell_id := queue_id (properties x)\<rparr>) s))
         else if is_sdma (qtype (props s q)) then
           (0, set_off (upd_q q (\<lambda>x. x\<lparr>doorbell_id :=
              sdma_doorbell_idx (shared_resources d) (unat (sdma_engine_id (properties x)))
              + (sdma_queue_id (properties x) AND 1) * of_nat OPU_QUEUE_DOORBELL_MIRROR_OFFSET
              + drop_bit 1 (sdma_queue_id (properties x))\<rparr>) s))
         else
           let found = find_first_zero_bit (doorbell_bitmap (pdds s p)) OPU_MAX_NUM_OF_QUEUES_PER_PROCESS
           in if OPU_MAX_NUM_OF_QUEUES_PER_PROCESS \<le> found then (- EBUSY, s)
              else (0, set_off (upd_q q (\<lambda>x. x\<lparr>doorbell_id := of_nat found\<rparr>)
                     (upd_pdd p (\<lambda>x. x\<lparr>doorbell_bitmap := set_bit_at found (doorbell_bitmap x)\<rparr>) s))))"

definition deallocate_doorbell :: "nat \<Rightarrow> nat \<Rightarrow> 'h dqm_state \<Rightarrow> 'h dqm_state" where
  "deallocate_doorbell p q s =
     (if \<not> soc15 (device_info (dev (dqm s))) \<or> is_sdma (qtype (props s q)) then s
      else upd_pdd p (\<lambda>x. x\<lparr>doorbell_bitmap := clear_bit_at (unat (doorbell_id (qs s q))) (doorbell_bitmap x)\<rparr>) s)"

subsection \<open>VMIDs\<close>

definition vmid_scan :: "opu_dev \<Rightarrow> nat list" where
  "vmid_scan dv = [first_vmid (vm_info dv)..<Suc (last_vmid (vm_info dv))]"

definition allocate_vmid :: "'h dqm_env \<Rightarrow> nat \<Rightarrow> nat \<Rightarrow> 'h dqm_state \<Rightarrow> int \<times> 'h dqm_state" where
  "allocate_vmid env p q s =
     (case List.find (\<lambda>i. vmid_pasid (dqm s) i = 0) (vmid_scan (dev (dqm s))) of
        None \<Rightarrow> (- ENOSPC, s)
      | Some i \<Rightarrow>
          let pasid = pasid_of env (q_process (qs s q));
              s1 = upd_dqm (\<lambda>d. d\<lparr>vmid_pasid := (vmid_pasid d)(i := ucast pasid)\<rparr>) s;
              s2 = set_pasid_vmid_mapping env pasid (of_nat i) s1;
              s3 = upd_pdd p (\<lambda>x. x\<lparr>vmid := of_nat i\<rparr>) s2;
              s4 = upd_props q (\<lambda>x. x\<lparr>q_vmid := of_nat i\<rparr>) s3;
              s5 = program_sh_mem_settings env p s4;
              s6 = upd_hw (kgd_set_vm_context_page_table_base env (of_nat i) (page_table_base (pdds s5 p))) s5;
              s7 = opu_flush_tlb env p s6;
              s8 = (case kgd_set_scratch_backing_va env of
                      None \<Rightarrow> s7
                    | Some f \<Rightarrow> upd_hw (f (sh_hidden_private_base (pdds s7 p)) (of_nat i)) s7)
          in (0, s8))"

definition flush_texture_cache_nocpsch :: "'h dqm_env \<Rightarrow> nat \<Rightarrow> 'h dqm_state \<Rightarrow> int \<times> 'h dqm_state" where
  "flush_texture_cache_nocpsch env p s =
     (if ib_kaddr (pdds s p) = 0 then (- ENOMEM, s)
      else case hw_call (pm_release_mem env (ib_base (pdds s p))) s of
             (ret, s1) \<Rightarrow>
               if ret \<noteq> 0 then (ret, s1)
               else hw_call (kgd_submit_ib env (vmid (pdds s1 p)) (ib_base (pdds s1 p))) s1)"

definition deallocate_vmid :: "'h dqm_env \<Rightarrow> nat \<Rightarrow> nat \<Rightarrow> 'h dqm_state \<Rightarrow> 'h dqm_state" where
  "deallocate_vmid env p q s =
     (let s1 = (if asic_family (device_info (dev (dqm s))) = CHIP_HAWAII
                then snd (flush_texture_cache_nocpsch env p s) else s);
          s2 = opu_flush_tlb env p s1;
          s3 = set_pasid_vmid_mapping env 0 (vmid (pdds s2 p)) s2;
          s4 = upd_dqm (\<lambda>d. d\<lparr>vmid_pasid := (vmid_pasid d)(unat (vmid (pdds s3 p)) := 0)\<rparr>) s3;
          s5 = upd_pdd p (\<lambda>x. x\<lparr>vmid := 0\<rparr>) s4
      in upd_props q (\<lambda>x. x\<lparr>q_vmid := 0\<rparr>) s5)"

subsection \<open>Hardware queue descriptors\<close>

text \<open>The loop over the pipes: \<open>n\<close> iterations from \<open>pipe\<close>, wrapping around.\<close>

fun hqd_pipe :: "device_queue_manager \<Rightarrow> nat \<Rightarrow> nat \<Rightarrow> nat option" where
  "hqd_pipe d 0 pipe = None"
| "hqd_pipe d (Suc n) pipe =
     (if is_pipe_enabled d 0 pipe \<and> allocated_queues d ! pipe \<noteq> 0 then Some pipe
      else hqd_pipe d n (Suc pipe mod unat (get_pipes_per_mec d)))"

definition allocate_hqd :: "nat \<Rightarrow> 'h dqm_state \<Rightarrow> int \<times> 'h dqm_state" where
  "allocate_hqd q s =
     (case hqd_pipe (dqm s) (unat (get_pipes_per_mec (dqm s))) (unat (next_pipe_to_allocate (dqm s))) of
        None \<Rightarrow> (- EBUSY, s)
      | Some pipe \<Rightarrow>
          (case lowest_bit (allocated_queues (dqm s) ! pipe) of
             None \<Rightarrow> (- EBUSY, s)
           | Some b \<Rightarrow>
               (0, upd_q q (\<lambda>x. x\<lparr>q_pipe := of_nat pipe, q_queue := of_nat b\<rparr>)
                   (upd_dqm (\<lambda>d. d\<lparr>
                      allocated_queues := (allocated_queues d)
                        [pipe := (allocated_queues d ! pipe) AND NOT (push_bit b 1)],
                      next_pipe_to_allocate := of_nat (Suc pipe mod unat (get_pipes_per_mec d))\<rparr>) s))))"

definition deallocate_hqd :: "nat \<Rightarrow> 'h dqm_state \<Rightarrow> 'h dqm_state" where
  "deallocate_hqd q s =
     (let pipe = unat (q_pipe (qs s q))
      in upd_dqm (\<lambda>d. d\<lparr>allocated_queues := (allocated_queues d)
           [pipe := (allocated_queues d ! pipe) OR push_bit (unat (q_queue (qs s q))) 1]\<rparr>) s)"

subsection \<open>SDMA queues\<close>

definition allocate_sdma_queue :: "nat \<Rightarrow> 'h dqm_state \<Rightarrow> int \<times> 'h dqm_state" where
  "allocate_sdma_queue q s =
     (if qtype (props s q) = OPU_QUEUE_TYPE_SDMA then
        (case lowest_bit (sdma_bitmap (dqm s)) of
           None \<Rightarrow> (- ENOMEM, s)
         | Some b \<Rightarrow>
             (0, upd_q q (\<lambda>x. x\<lparr>sdma_id := of_nat b,
                     properties := (properties x)\<lparr>
                       sdma_engine_id := of_nat b mod get_num_sdma_engines (dqm s),
                       sdma_queue_id := of_nat b div get_num_sdma_engines (dqm s)\<rparr>\<rparr>)
                 (upd_dqm (\<lambda>d. d\<lparr>sdma_bitmap := sdma_bitmap d AND NOT (push_bit b 1)\<rparr>) s)))
      else if qtype (props s q) = OPU_QUEUE_TYPE_SDMA_XGMI then
        (case lowest_bit (xgmi_sdma_bitmap (dqm s)) of
           None \<Rightarrow> (- ENOMEM, s)
         | Some b \<Rightarrow>
             (0, upd_q q (\<lambda>x. x\<lparr>sdma_id := of_nat b,
                     properties := (properties x)\<lparr>
                       sdma_engine_id := get_num_sdma_engines (dqm s)
                         + of_nat b mod get_num_xgmi_sdma_engines (dqm s),
                       sdma_queue_id := of_nat b div get_num_xgmi_sdma_engines (dqm s)\<rparr>\<rparr>)
                 (upd_dqm (\<lambda>d. d\<lparr>xgmi_sdma_bitmap := xgmi_sdma_bitmap d AND NOT (push_bit b 1)\<rparr>) s)))
      else (0, s))"

definition deallocate_sdma_queue :: "nat \<Rightarrow> 'h dqm_state \<Rightarrow> 'h dqm_state" where
  "deallocate_sdma_queue q s =
     (if qtype (props s q) = OPU_QUEUE_TYPE_SDMA then
        (if get_num_sdma_queues (dqm s) \<le> sdma_id (qs s q) then s
         else upd_dqm (\<lambda>d. d\<lparr>sdma_bitmap := sdma_bitmap d OR push_bit (unat (sdma_id (qs s q))) 1\<rparr>) s)
      else if qtype (props s q) = OPU_QUEUE_TYPE_SDMA_XGMI then
        (if get_num_xgmi_sdma_queues (dqm s) \<le> sdma_id (qs s q) then s
         else upd_dqm (\<lambda>d. d\<lparr>xgmi_sdma_bitmap := xgmi_sdma_bitmap d OR push_bit (unat (sdma_id (qs s q))) 1\<rparr>) s)
      else s)"

section \<open>SDMA queues as a slot allocator\<close>

lemma bit_clear_push: "bit (w AND NOT (push_bit b 1) :: 'w::len word) i \<longleftrightarrow> bit w i \<and> i \<noteq> b"
  by (auto simp: bit_simps dest: bit_imp_le_length)

lemma bit_set_push: "b < LENGTH('w) \<Longrightarrow> bit (w OR push_bit b 1 :: 'w::len word) i \<longleftrightarrow> bit w i \<or> i = b"
  by (auto simp: bit_simps)

text \<open>The free slots of a map: its bits. A map is sound for \<open>n\<close> slots when it has no bit from \<open>n\<close> on.\<close>

definition bits_below :: "nat \<Rightarrow> 'w::len word \<Rightarrow> bool" where
  "bits_below n w \<longleftrightarrow> (\<forall>i. bit w i \<longrightarrow> i < n)"

definition sdma_slot_get :: "nat \<Rightarrow> 'h dqm_state \<Rightarrow> (nat \<times> 'h dqm_state) option" where
  "sdma_slot_get q s =
     (case allocate_sdma_queue q s of (r, s') \<Rightarrow> if r = 0 then Some (unat (sdma_id (qs s' q)), s') else None)"

definition sdma_slot_put :: "nat \<Rightarrow> nat \<Rightarrow> 'h dqm_state \<Rightarrow> 'h dqm_state" where
  "sdma_slot_put q i s = deallocate_sdma_queue q (upd_q q (\<lambda>x. x\<lparr>sdma_id := of_nat i\<rparr>) s)"

definition sdma_map :: "nat \<Rightarrow> 'h dqm_state \<Rightarrow> u64" where
  "sdma_map q s = (if qtype (props s q) = OPU_QUEUE_TYPE_SDMA then sdma_bitmap (dqm s) else xgmi_sdma_bitmap (dqm s))"

definition sdma_pool_size :: "nat \<Rightarrow> 'h dqm_state \<Rightarrow> nat" where
  "sdma_pool_size q s =
     (if qtype (props s q) = OPU_QUEUE_TYPE_SDMA then unat (get_num_sdma_queues (dqm s))
      else unat (get_num_xgmi_sdma_queues (dqm s)))"

definition sdma_slots_used :: "nat \<Rightarrow> 'h dqm_state \<Rightarrow> nat set" where
  "sdma_slots_used q s = {i. i < sdma_pool_size q s \<and> \<not> bit (sdma_map q s) i}"

definition sdma_ok :: "nat \<Rightarrow> nat \<Rightarrow> 'h dqm_state \<Rightarrow> bool" where
  "sdma_ok q n s \<longleftrightarrow> is_sdma (qtype (props s q)) \<and> n = sdma_pool_size q s \<and> n \<le> 64 \<and> bits_below n (sdma_map q s)"

lemma get_num_frame [simp]:
  "get_num_sdma_queues (d\<lparr>sdma_bitmap := v\<rparr>) = get_num_sdma_queues d"
  "get_num_sdma_queues (d\<lparr>xgmi_sdma_bitmap := v\<rparr>) = get_num_sdma_queues d"
  "get_num_xgmi_sdma_queues (d\<lparr>sdma_bitmap := v\<rparr>) = get_num_xgmi_sdma_queues d"
  "get_num_xgmi_sdma_queues (d\<lparr>xgmi_sdma_bitmap := v\<rparr>) = get_num_xgmi_sdma_queues d"
  by (simp_all add: get_num_sdma_queues_def get_num_xgmi_sdma_queues_def)

lemma unat_of_nat_small: "n \<le> 64 \<Longrightarrow> unat (of_nat n :: u32) = n"
  by (rule unat_of_nat_fits) simp

lemma sdma_bit_less: "bit (w :: u64) i \<Longrightarrow> i < 64"
  using bit_imp_le_length [of w i] by simp

text \<open>What taking an SDMA queue does, for both kinds.\<close>

lemma allocate_sdma_queue_cases:
  assumes "is_sdma (qtype (props s q))" and "allocate_sdma_queue q s = (r, s')"
  obtains (full) "sdma_map q s = 0" "r = - ENOMEM" "s' = s"
    | (slot) b where "bit (sdma_map q s) b" "b < 64" "r = 0" "unat (sdma_id (qs s' q)) = b"
        "sdma_map q s' = sdma_map q s AND NOT (push_bit b 1)" "qtype (props s' q) = qtype (props s q)"
        "sdma_pool_size q s' = sdma_pool_size q s"
proof (cases "lowest_bit (sdma_map q s)")
  case None
  then have "sdma_map q s = 0" by (simp add: lowest_bit_None)
  moreover have "r = - ENOMEM" "s' = s"
    using assms None by (auto simp: allocate_sdma_queue_def is_sdma_def sdma_map_def split: if_splits)
  ultimately show thesis by (rule full)
next
  case (Some b)
  then have b: "bit (sdma_map q s) b" "b < 64" using sdma_bit_less by (auto simp: lowest_bit_Some)
  have "r = 0" "unat (sdma_id (qs s' q)) = b"
    "sdma_map q s' = sdma_map q s AND NOT (push_bit b 1)" "qtype (props s' q) = qtype (props s q)"
    "sdma_pool_size q s' = sdma_pool_size q s"
    using assms Some b(2) by (auto simp: allocate_sdma_queue_def is_sdma_def sdma_map_def sdma_pool_size_def
        unat_of_nat_small split: if_splits)
  with b show thesis by (rule slot)
qed

lemma deallocate_sdma_queue_map:
  assumes "is_sdma (qtype (props s q))" and "unat (sdma_id (qs s q)) < sdma_pool_size q s"
  shows "sdma_map q (deallocate_sdma_queue q s) = sdma_map q s OR push_bit (unat (sdma_id (qs s q))) 1"
  using assms by (auto simp: deallocate_sdma_queue_def sdma_map_def is_sdma_def sdma_pool_size_def word_le_nat_alt)

interpretation sdma_slots: slot_allocator "sdma_slot_get q" "sdma_slot_put q" "sdma_slots_used q" "{..<n}" "sdma_ok q n"
  for q n
proof (unfold_locales, goal_cases)
  case 1
  show ?case by simp
next
  case (2 s i s')
  have "is_sdma (qtype (props s q))" using 2(1) by (simp add: sdma_ok_def)
  moreover obtain r where "allocate_sdma_queue q s = (r, s')" "r = 0" "i = unat (sdma_id (qs s' q))"
    using 2(2) by (auto simp: sdma_slot_get_def split: prod.splits if_splits)
  ultimately show ?case using 2(1)
    by (elim allocate_sdma_queue_cases [of s q r s'])
       (auto simp: sdma_ok_def bits_below_def sdma_slots_used_def bit_clear_push simp del: push_bit_of_1)
next
  case (3 s)
  have sd: "is_sdma (qtype (props s q))" using 3(1) by (simp add: sdma_ok_def)
  obtain r s' where a: "allocate_sdma_queue q s = (r, s')" by fastforce
  with 3(2) have "r \<noteq> 0" by (auto simp: sdma_slot_get_def)
  with sd a have "sdma_map q s = 0" by (elim allocate_sdma_queue_cases) auto
  with 3(1) show ?case by (auto simp: sdma_slots_used_def sdma_ok_def)
next
  case (4 s i)
  let ?t = "upd_q q (\<lambda>x. x\<lparr>sdma_id := of_nat i\<rparr>) s" and ?s = "sdma_slot_put q i s"
  have i: "i < n" "n \<le> 64" and n: "n = sdma_pool_size q s" and sd: "is_sdma (qtype (props s q))"
    using 4 by (auto simp: sdma_ok_def)
  have q: "qtype (props ?s q) = qtype (props s q)" "sdma_pool_size q ?s = sdma_pool_size q s"
    by (auto simp: sdma_slot_put_def deallocate_sdma_queue_def sdma_pool_size_def)
  have m0: "sdma_map q ?t = sdma_map q s" "sdma_pool_size q ?t = sdma_pool_size q s"
    "unat (sdma_id (qs ?t q)) = i"
    using i by (simp_all add: sdma_map_def sdma_pool_size_def unat_of_nat_small)
  have m: "sdma_map q ?s = sdma_map q s OR push_bit i 1"
    using deallocate_sdma_queue_map [of ?t q] m0 sd i n unfolding sdma_slot_put_def by simp
  show ?case using 4(1) i q m
    by (auto simp: sdma_ok_def bits_below_def sdma_slots_used_def bit_set_push simp del: push_bit_of_1)
qed

section \<open>Hardware queue descriptors as a slot allocator\<close>

text \<open>A slot is a pipe and a queue of that pipe, numbered \<open>pipe * 32 + queue\<close>. The pool are the
  slots the graphics driver left to this driver.\<close>

abbreviation pipes :: "device_queue_manager \<Rightarrow> nat" where "pipes d \<equiv> unat (get_pipes_per_mec d)"
abbreviation per_pipe :: "device_queue_manager \<Rightarrow> nat" where "per_pipe d \<equiv> unat (get_queues_per_pipe d)"

definition hqd_enabled :: "device_queue_manager \<Rightarrow> nat \<Rightarrow> nat \<Rightarrow> bool" where
  "hqd_enabled d pipe b \<longleftrightarrow> pipe < pipes d \<and> b < per_pipe d \<and>
     cp_queue_bitmap (shared_resources (dev d)) (pipe * per_pipe d + b)"

definition hqd_used :: "'h dqm_state \<Rightarrow> nat set" where
  "hqd_used s = {pipe * 32 + b | pipe b. hqd_enabled (dqm s) pipe b \<and> \<not> bit (allocated_queues (dqm s) ! pipe) b}"

definition hqd_ok :: "opu_dev \<Rightarrow> 'h dqm_state \<Rightarrow> bool" where
  "hqd_ok dv s \<longleftrightarrow> dev (dqm s) = dv \<and> per_pipe (dqm s) \<le> 32 \<and> length (allocated_queues (dqm s)) = pipes (dqm s) \<and>
     unat (next_pipe_to_allocate (dqm s)) < pipes (dqm s) \<and>
     (\<forall>pipe < pipes (dqm s). \<forall>b. bit (allocated_queues (dqm s) ! pipe) b \<longrightarrow> hqd_enabled (dqm s) pipe b)"

definition hqd_slot_get :: "nat \<Rightarrow> 'h dqm_state \<Rightarrow> (nat \<times> 'h dqm_state) option" where
  "hqd_slot_get q s =
     (case allocate_hqd q s of (r, s') \<Rightarrow>
        if r = 0 then Some (unat (q_pipe (qs s' q)) * 32 + unat (q_queue (qs s' q)), s') else None)"

definition hqd_slot_put :: "nat \<Rightarrow> nat \<Rightarrow> 'h dqm_state \<Rightarrow> 'h dqm_state" where
  "hqd_slot_put q i s =
     deallocate_hqd q (upd_q q (\<lambda>x. x\<lparr>q_pipe := of_nat (i div 32), q_queue := of_nat (i mod 32)\<rparr>) s)"

lemma hqd_pipe_Some:
  "hqd_pipe d n pipe = Some r \<Longrightarrow> pipe < pipes d \<Longrightarrow> r < pipes d \<and> is_pipe_enabled d 0 r \<and> allocated_queues d ! r \<noteq> 0"
  by (induction d n pipe rule: hqd_pipe.induct) (auto split: if_splits)

lemma hqd_pipe_None:
  "hqd_pipe d n pipe = None \<Longrightarrow> pipe < pipes d \<Longrightarrow> k < n \<Longrightarrow>
     \<not> (is_pipe_enabled d 0 ((pipe + k) mod pipes d) \<and> allocated_queues d ! ((pipe + k) mod pipes d) \<noteq> 0)"
proof (induction d n pipe arbitrary: k rule: hqd_pipe.induct)
  case (2 d n pipe)
  show ?case
  proof (cases k)
    case 0
    with "2.prems" show ?thesis by (auto split: if_splits)
  next
    case (Suc k')
    have "hqd_pipe d n (Suc pipe mod pipes d) = None" "Suc pipe mod pipes d < pipes d"
      using "2.prems" by (auto split: if_splits)
    moreover have "(Suc pipe mod pipes d + k') mod pipes d = (pipe + k) mod pipes d"
      using Suc by (simp add: mod_add_left_eq)
    ultimately show ?thesis using "2.IH" [of k'] "2.prems" Suc by (auto split: if_splits)
  qed
qed simp

lemma pipe_enabledI: "hqd_enabled d pipe b \<Longrightarrow> is_pipe_enabled d 0 pipe"
  by (auto simp: is_pipe_enabled_def hqd_enabled_def Let_def list_ex_iff get_queues_per_pipe_def)

lemma slot_code: "b < 32 \<Longrightarrow> b' < 32 \<Longrightarrow> p * 32 + b = p' * 32 + b' \<longleftrightarrow> p = p' \<and> b = (b' :: nat)"
proof
  assume b: "b < 32" "b' < 32" and eq: "p * 32 + b = p' * 32 + b'"
  from arg_cong [OF eq, of "\<lambda>x. x div 32"] arg_cong [OF eq, of "\<lambda>x. x mod 32"] b show "p = p' \<and> b = b'" by simp
qed simp

lemma slot_decode:
  obtains p b where "v = p * 32 + b" and "b < (32 :: nat)"
  by (rule that [of "v div 32" "v mod 32"]) simp_all

lemma hqd_bit_less: "bit (w :: u32) i \<Longrightarrow> i < 32"
  using bit_imp_le_length [of w i] by simp

lemma allocate_hqd_cases:
  assumes "hqd_ok dv s" and "allocate_hqd q s = (r, s')"
  obtains (full) "r = - EBUSY" "s' = s" "\<forall>pipe < pipes (dqm s). allocated_queues (dqm s) ! pipe = 0"
    | (slot) pipe b where "r = 0" "pipe < pipes (dqm s)" "b < 32" "bit (allocated_queues (dqm s) ! pipe) b"
        "unat (q_pipe (qs s' q)) = pipe" "unat (q_queue (qs s' q)) = b" "dev (dqm s') = dev (dqm s)"
        "allocated_queues (dqm s') = (allocated_queues (dqm s))[pipe := (allocated_queues (dqm s) ! pipe) AND NOT (push_bit b 1)]"
        "unat (next_pipe_to_allocate (dqm s')) < pipes (dqm s)"
proof -
  let ?d = "dqm s"
  have ok: "unat (next_pipe_to_allocate ?d) < pipes ?d" "length (allocated_queues ?d) = pipes ?d"
    "\<forall>pipe < pipes ?d. \<forall>b. bit (allocated_queues ?d ! pipe) b \<longrightarrow> hqd_enabled ?d pipe b"
    using assms(1) by (auto simp: hqd_ok_def)
  have n32: "pipes ?d < 2 ^ 32" using unsigned_less [where 'a = nat, of "get_pipes_per_mec ?d"] by simp
  show thesis
  proof (cases "hqd_pipe ?d (pipes ?d) (unat (next_pipe_to_allocate ?d))")
    case None
    have "allocated_queues ?d ! pipe = 0" if p: "pipe < pipes ?d" for pipe
    proof (rule ccontr)
      assume nz: "allocated_queues ?d ! pipe \<noteq> 0"
      then obtain b where "bit (allocated_queues ?d ! pipe) b" by (metis lowest_bit_None lowest_bit_Some not_None_eq)
      with ok(3) p have en: "is_pipe_enabled ?d 0 pipe" by (blast intro: pipe_enabledI)
      define k where "k = (pipe + pipes ?d - unat (next_pipe_to_allocate ?d)) mod pipes ?d"
      have "k < pipes ?d" "(unat (next_pipe_to_allocate ?d) + k) mod pipes ?d = pipe"
        using p ok(1) unfolding k_def by (auto simp: mod_add_right_eq)
      with hqd_pipe_None [OF None ok(1)] en nz show False by metis
    qed
    moreover have "r = - EBUSY" "s' = s" using None assms(2) by (auto simp: allocate_hqd_def)
    ultimately show thesis using full by blast
  next
    case (Some pipe)
    from hqd_pipe_Some [OF Some ok(1)] have p: "pipe < pipes ?d" "allocated_queues ?d ! pipe \<noteq> 0" by auto
    then obtain b where lb: "lowest_bit (allocated_queues ?d ! pipe) = Some b" by (metis lowest_bit_None not_None_eq)
    then have b: "bit (allocated_queues ?d ! pipe) b" "b < 32" using hqd_bit_less by (auto simp: lowest_bit_Some)
    have u: "unat (of_nat pipe :: u32) = pipe" "unat (of_nat b :: u32) = b"
      "unat (of_nat (Suc pipe mod pipes ?d) :: u32) = Suc pipe mod pipes ?d"
      using p(1) n32 b(2) order_less_trans [OF mod_less_divisor n32]
      by (auto intro!: unat_of_nat_fits)
    have "r = 0" "s' = upd_q q (\<lambda>x. x\<lparr>q_pipe := of_nat pipe, q_queue := of_nat b\<rparr>)
        (upd_dqm (\<lambda>d. d\<lparr>allocated_queues := (allocated_queues d)
             [pipe := (allocated_queues d ! pipe) AND NOT (push_bit b 1)],
           next_pipe_to_allocate := of_nat (Suc pipe mod pipes d)\<rparr>) s)"
      using assms(2) Some lb by (auto simp: allocate_hqd_def)
    then show thesis using p b u by (intro slot [of pipe b]) (auto simp: get_pipes_per_mec_def)
  qed
qed

lemma hqd_enabled_dev: "dev d' = dev d \<Longrightarrow> hqd_enabled d' = hqd_enabled d"
  by (simp add: hqd_enabled_def get_pipes_per_mec_def get_queues_per_pipe_def fun_eq_iff)

lemma pipes_dev: "dev d' = dev d \<Longrightarrow> pipes d' = pipes d \<and> per_pipe d' = per_pipe d"
  by (simp add: get_pipes_per_mec_def get_queues_per_pipe_def)

lemma hqd_enabled_small: "hqd_ok dv s \<Longrightarrow> hqd_enabled (dqm s) pipe b \<Longrightarrow> b < 32"
  by (auto simp: hqd_ok_def hqd_enabled_def)

definition hqd_slots_of :: "opu_dev \<Rightarrow> nat set" where
  "hqd_slots_of dv =
     (let r = shared_resources dv
      in {pipe * 32 + b | pipe b. pipe < unat (num_pipe_per_mec r) \<and> b < unat (num_queue_per_pipe r) \<and>
            cp_queue_bitmap r (pipe * unat (num_queue_per_pipe r) + b)})"

lemma hqd_slots_of_eq: "hqd_slots_of (dev d) = {pipe * 32 + b | pipe b. hqd_enabled d pipe b}"
  by (simp add: hqd_slots_of_def hqd_enabled_def get_pipes_per_mec_def get_queues_per_pipe_def Let_def)

lemma finite_hqd_slots: "finite (hqd_slots_of dv)"
proof -
  let ?r = "shared_resources dv"
  have "hqd_slots_of dv \<subseteq> (\<lambda>(pipe, b). pipe * 32 + b) `
      ({..<unat (num_pipe_per_mec ?r)} \<times> {..<unat (num_queue_per_pipe ?r)})"
    by (auto simp: hqd_slots_of_def Let_def)
  then show ?thesis by (rule finite_subset) simp
qed

lemma hqd_used_iff:
  "hqd_ok dv s \<Longrightarrow> b < 32 \<Longrightarrow> pipe * 32 + b \<in> hqd_used s \<longleftrightarrow>
     hqd_enabled (dqm s) pipe b \<and> \<not> bit (allocated_queues (dqm s) ! pipe) b"
  using hqd_enabled_small [of dv s] by (auto simp: hqd_used_def slot_code)

lemma hqd_slot_get_law:
  assumes "hqd_ok dv s" and "hqd_slot_get q s = Some (i, s')"
  shows "i \<in> hqd_slots_of dv \<and> i \<notin> hqd_used s \<and> hqd_used s' = insert i (hqd_used s) \<and> hqd_ok dv s'"
proof -
  obtain r where a: "allocate_hqd q s = (r, s')" and r: "r = 0"
    and i: "i = unat (q_pipe (qs s' q)) * 32 + unat (q_queue (qs s' q))"
    using assms(2) by (auto simp: hqd_slot_get_def split: prod.splits if_splits)
  from assms(1) a show ?thesis
  proof (cases rule: allocate_hqd_cases)
    case (slot pipe b)
    have en: "hqd_enabled (dqm s) pipe b" using assms(1) slot by (auto simp: hqd_ok_def)
    have dev': "hqd_enabled (dqm s') = hqd_enabled (dqm s)" "pipes (dqm s') = pipes (dqm s)" "per_pipe (dqm s') = per_pipe (dqm s)"
      using hqd_enabled_dev [OF slot(7)] pipes_dev [OF slot(7)] by simp_all
    have len: "pipe < length (allocated_queues (dqm s))" using assms(1) slot(2) by (simp add: hqd_ok_def)
    have bits: "bit (allocated_queues (dqm s') ! p') b' \<longleftrightarrow>
        bit (allocated_queues (dqm s) ! p') b' \<and> \<not> (p' = pipe \<and> b' = b)" for p' b'
      using len unfolding slot(8) by (cases "p' = pipe") (simp_all add: bit_clear_push del: push_bit_of_1)
    have ok': "hqd_ok dv s'" using assms(1) slot dev' bits by (auto simp: hqd_ok_def)
    have "used_in \<in> hqd_used s' \<longleftrightarrow> used_in = i \<or> used_in \<in> hqd_used s" for used_in
    proof -
      obtain p' b' where u: "used_in = p' * 32 + b'" "b' < 32" by (rule slot_decode)
      show ?thesis
        using en slot(3,5,6) i
        unfolding u(1) hqd_used_iff [OF assms(1) u(2)] hqd_used_iff [OF ok' u(2)] dev'(1) bits
        by (auto simp: slot_code [OF u(2) slot(3)])
    qed
    then have "hqd_used s' = insert i (hqd_used s)" by blast
    moreover have "i \<in> hqd_slots_of dv"
      using en i slot(5,6) assms(1) hqd_slots_of_eq [of "dqm s"] by (auto simp: hqd_ok_def)
    moreover have "i \<notin> hqd_used s" using hqd_used_iff [OF assms(1) slot(3), of pipe] slot(4-6) i by simp
    ultimately show ?thesis using ok' by simp
  qed (use r in simp)
qed

lemma hqd_slot_get_fails:
  assumes "hqd_ok dv s" and "hqd_slot_get q s = None"
  shows "hqd_slots_of dv \<subseteq> hqd_used s"
proof -
  obtain r s' where a: "allocate_hqd q s = (r, s')" by fastforce
  with assms(2) have r: "r \<noteq> 0" by (auto simp: hqd_slot_get_def)
  from assms(1) a show ?thesis
  proof (cases rule: allocate_hqd_cases)
    case full
    have "\<not> bit (allocated_queues (dqm s) ! pipe) b" if "hqd_enabled (dqm s) pipe b" for pipe b
      using full(3) that by (simp add: hqd_enabled_def)
    then show ?thesis using assms(1) hqd_slots_of_eq [of "dqm s"]
      by (auto simp: hqd_used_def hqd_ok_def)
  qed (use r in simp)
qed

lemma hqd_slot_put_law:
  assumes "hqd_ok dv s" and "i \<in> hqd_slots_of dv" and "i \<in> hqd_used s"
  shows "hqd_used (hqd_slot_put q i s) = hqd_used s - {i} \<and> hqd_ok dv (hqd_slot_put q i s)"
proof -
  obtain pipe b where i: "i = pipe * 32 + b" and en: "hqd_enabled (dqm s) pipe b"
    using assms(2,1) hqd_slots_of_eq [of "dqm s"] by (auto simp: hqd_ok_def)
  have b: "b < 32" using hqd_enabled_small [OF assms(1) en] .
  have pl: "pipe < pipes (dqm s)" "pipe < length (allocated_queues (dqm s))" using en assms(1) by (auto simp: hqd_enabled_def hqd_ok_def)
  have "pipes (dqm s) < 2 ^ 32" using unsigned_less [where 'a = nat, of "get_pipes_per_mec (dqm s)"] by simp
  then have u: "unat (of_nat (i div 32) :: u32) = pipe" "unat (of_nat (i mod 32) :: u32) = b"
    using pl b i by (auto intro: unat_of_nat_fits)
  have s': "dqm (hqd_slot_put q i s) = (dqm s)\<lparr>allocated_queues := (allocated_queues (dqm s))
      [pipe := (allocated_queues (dqm s) ! pipe) OR push_bit b 1]\<rparr>"
    using u by (simp add: hqd_slot_put_def deallocate_hqd_def Let_def)
  have dev': "hqd_enabled (dqm (hqd_slot_put q i s)) = hqd_enabled (dqm s)"
    "pipes (dqm (hqd_slot_put q i s)) = pipes (dqm s)" "per_pipe (dqm (hqd_slot_put q i s)) = per_pipe (dqm s)"
    using s' hqd_enabled_dev [of "dqm (hqd_slot_put q i s)" "dqm s"] pipes_dev [of "dqm (hqd_slot_put q i s)" "dqm s"]
    by simp_all
  have bits: "bit (allocated_queues (dqm (hqd_slot_put q i s)) ! p') b' \<longleftrightarrow>
      bit (allocated_queues (dqm s) ! p') b' \<or> (p' = pipe \<and> b' = b)" for p' b'
    using pl(2) b unfolding s' by (cases "p' = pipe") (simp_all add: bit_set_push del: push_bit_of_1)
  have ok': "hqd_ok dv (hqd_slot_put q i s)" using assms(1) s' dev' bits en by (auto simp: hqd_ok_def)
  have "v \<in> hqd_used (hqd_slot_put q i s) \<longleftrightarrow> v \<in> hqd_used s \<and> v \<noteq> i" for v
  proof -
    obtain p' b' where u: "v = p' * 32 + b'" "b' < 32" by (rule slot_decode)
    have "v = i \<longleftrightarrow> p' = pipe \<and> b' = b" unfolding u(1) i by (rule slot_code [OF u(2) b])
    then show ?thesis
      unfolding u(1) hqd_used_iff [OF assms(1) u(2)] hqd_used_iff [OF ok' u(2)] dev'(1) bits by blast
  qed
  then show ?thesis using ok' by blast
qed

interpretation hqd_slots: slot_allocator "hqd_slot_get q" "hqd_slot_put q" hqd_used "hqd_slots_of dv" "hqd_ok dv"
  for q dv
  by unfold_locales (fact finite_hqd_slots, fact hqd_slot_get_law, fact hqd_slot_get_fails, fact hqd_slot_put_law)

section \<open>VMIDs as a slot allocator\<close>

definition vmid_slot_get :: "'h dqm_env \<Rightarrow> nat \<Rightarrow> nat \<Rightarrow> 'h dqm_state \<Rightarrow> (nat \<times> 'h dqm_state) option" where
  "vmid_slot_get env p q s =
     (case allocate_vmid env p q s of (r, s') \<Rightarrow> if r = 0 then Some (unat (vmid (pdds s' p)), s') else None)"

definition vmid_slot_put :: "'h dqm_env \<Rightarrow> nat \<Rightarrow> nat \<Rightarrow> nat \<Rightarrow> 'h dqm_state \<Rightarrow> 'h dqm_state" where
  "vmid_slot_put env p q i s = deallocate_vmid env p q (upd_pdd p (\<lambda>x. x\<lparr>vmid := of_nat i\<rparr>) s)"

definition vmid_range :: "opu_dev \<Rightarrow> nat set" where
  "vmid_range dv = {first_vmid (vm_info dv)..last_vmid (vm_info dv)}"

definition vmids_used :: "'h dqm_state \<Rightarrow> nat set" where
  "vmids_used s = {i. i \<in> vmid_range (dev (dqm s)) \<and> vmid_pasid (dqm s) i \<noteq> 0}"

text \<open>The PASID of the process that allocates is not 0 in 16 bits, and the VMIDs are those of
  the 16-entry table.\<close>

definition vmid_ok :: "'h dqm_env \<Rightarrow> nat \<Rightarrow> opu_dev \<Rightarrow> 'h dqm_state \<Rightarrow> bool" where
  "vmid_ok env q dv s \<longleftrightarrow> dev (dqm s) = dv \<and> last_vmid (vm_info dv) < 16 \<and>
     (ucast (pasid_of env (q_process (qs s q))) :: u16) \<noteq> 0"

lemma hw_only_frame [simp]:
  "dqm (program_sh_mem_settings env p s) = dqm s" "pdds (program_sh_mem_settings env p s) = pdds s"
  "qs (program_sh_mem_settings env p s) = qs s" "kqs (program_sh_mem_settings env p s) = kqs s"
  "dqm (set_pasid_vmid_mapping env x v s) = dqm s" "pdds (set_pasid_vmid_mapping env x v s) = pdds s"
  "qs (set_pasid_vmid_mapping env x v s) = qs s" "kqs (set_pasid_vmid_mapping env x v s) = kqs s"
  "dqm (opu_flush_tlb env p s) = dqm s" "pdds (opu_flush_tlb env p s) = pdds s"
  "qs (opu_flush_tlb env p s) = qs s" "kqs (opu_flush_tlb env p s) = kqs s"
  by (simp_all add: program_sh_mem_settings_def set_pasid_vmid_mapping_def opu_flush_tlb_def)

lemma flush_texture_cache_frame [simp]:
  "dqm (snd (flush_texture_cache_nocpsch env p s)) = dqm s" "pdds (snd (flush_texture_cache_nocpsch env p s)) = pdds s"
  "qs (snd (flush_texture_cache_nocpsch env p s)) = qs s" "kqs (snd (flush_texture_cache_nocpsch env p s)) = kqs s"
  by (auto simp: flush_texture_cache_nocpsch_def dest: hw_call_frame split: prod.splits)

lemma allocate_vmid_cases:
  assumes "allocate_vmid env p q s = (r, s')"
  obtains (full) "r = - ENOSPC" "s' = s" "\<forall>i \<in> vmid_range (dev (dqm s)). vmid_pasid (dqm s) i \<noteq> 0"
    | (slot) i where "r = 0" "i \<in> vmid_range (dev (dqm s))" "vmid_pasid (dqm s) i = 0"
        "dqm s' = (dqm s)\<lparr>vmid_pasid := (vmid_pasid (dqm s))(i := ucast (pasid_of env (q_process (qs s q))))\<rparr>"
        "pdds s' = (pdds s)(p := (pdds s p)\<lparr>vmid := of_nat i\<rparr>)"
        "qs s' = (qs s)(q := (qs s q)\<lparr>properties := (props s q)\<lparr>q_vmid := of_nat i\<rparr>\<rparr>)" "kqs s' = kqs s"
proof (cases "List.find (\<lambda>i. vmid_pasid (dqm s) i = 0) (vmid_scan (dev (dqm s)))")
  case None
  then have "\<forall>i \<in> vmid_range (dev (dqm s)). vmid_pasid (dqm s) i \<noteq> 0"
    by (auto simp: find_None_iff vmid_range_def vmid_scan_def)
  moreover have "r = - ENOSPC" "s' = s" using None assms by (simp_all add: allocate_vmid_def)
  ultimately show thesis using full by blast
next
  case (Some i)
  then obtain j where j: "j < length (vmid_scan (dev (dqm s)))" "i = vmid_scan (dev (dqm s)) ! j" "vmid_pasid (dqm s) i = 0"
    by (auto simp: find_Some_iff)
  then have "i \<in> set (vmid_scan (dev (dqm s)))" using nth_mem by metis
  then have "i \<in> vmid_range (dev (dqm s))" by (auto simp: vmid_range_def vmid_scan_def)
  then show thesis using assms Some j(3)
    by (intro slot [of i]) (auto simp: allocate_vmid_def Let_def split: option.splits)
qed

lemma deallocate_vmid_frame [simp]:
  "dqm (deallocate_vmid env p q s) = (dqm s)\<lparr>vmid_pasid := (vmid_pasid (dqm s))(unat (vmid (pdds s p)) := 0)\<rparr>"
  "pdds (deallocate_vmid env p q s) = (pdds s)(p := (pdds s p)\<lparr>vmid := 0\<rparr>)"
  "qs (deallocate_vmid env p q s) = (qs s)(q := (qs s q)\<lparr>properties := (props s q)\<lparr>q_vmid := 0\<rparr>\<rparr>)"
  "kqs (deallocate_vmid env p q s) = kqs s"
  by (simp_all add: deallocate_vmid_def Let_def)

interpretation vmid_slots: slot_allocator "vmid_slot_get env p q" "vmid_slot_put env p q" vmids_used "vmid_range dv"
  "vmid_ok env q dv"
  for env p q dv
proof (unfold_locales, goal_cases)
  case 1
  show ?case by (simp add: vmid_range_def)
next
  case (2 s i s')
  obtain r where a: "allocate_vmid env p q s = (r, s')" and r: "r = 0" and i: "i = unat (vmid (pdds s' p))"
    using 2(2) by (auto simp: vmid_slot_get_def split: prod.splits if_splits)
  from a show ?case
  proof (cases rule: allocate_vmid_cases)
    case (slot j)
    have "j < 16" using slot(2) 2(1) by (auto simp: vmid_ok_def vmid_range_def)
    then have "i = j" using i slot(5) by (simp add: unat_of_nat_fits)
    then show ?thesis using slot 2(1) by (auto simp: vmids_used_def vmid_ok_def)
  qed (use r in simp)
next
  case (3 s)
  obtain r s' where a: "allocate_vmid env p q s = (r, s')" by fastforce
  with 3(2) have r: "r \<noteq> 0" by (auto simp: vmid_slot_get_def)
  from a show ?case
    by (cases rule: allocate_vmid_cases) (use r 3(1) in \<open>auto simp: vmids_used_def vmid_ok_def\<close>)
next
  case (4 s i)
  then have "i < 16" by (auto simp: vmid_range_def vmid_ok_def)
  then show ?case using 4 by (auto simp: vmids_used_def vmid_ok_def vmid_slot_put_def unat_of_nat_fits)
qed

section \<open>Doorbells of CP queues as a slot allocator\<close>

definition cp_doorbell_get :: "nat \<Rightarrow> nat \<Rightarrow> 'h dqm_state \<Rightarrow> (nat \<times> 'h dqm_state) option" where
  "cp_doorbell_get p q s =
     (case allocate_doorbell p q s of (r, s') \<Rightarrow> if r = 0 then Some (unat (doorbell_id (qs s' q)), s') else None)"

definition cp_doorbell_put :: "nat \<Rightarrow> nat \<Rightarrow> nat \<Rightarrow> 'h dqm_state \<Rightarrow> 'h dqm_state" where
  "cp_doorbell_put p q i s = deallocate_doorbell p q (upd_q q (\<lambda>x. x\<lparr>doorbell_id := of_nat i\<rparr>) s)"

definition cp_doorbells_used :: "nat \<Rightarrow> 'h dqm_state \<Rightarrow> nat set" where
  "cp_doorbells_used p s = {i. i < OPU_MAX_NUM_OF_QUEUES_PER_PROCESS \<and> doorbell_bitmap (pdds s p) i}"

definition cp_doorbell_ok :: "nat \<Rightarrow> 'h dqm_state \<Rightarrow> bool" where
  "cp_doorbell_ok q s \<longleftrightarrow> soc15 (device_info (dev (dqm s))) \<and> \<not> is_sdma (qtype (props s q))"

lemma allocate_doorbell_cases:
  assumes "soc15 (device_info (dev (dqm s)))" and "\<not> is_sdma (qtype (props s q))" and "allocate_doorbell p q s = (r, s')"
  obtains (full) "r = - EBUSY" "s' = s" "{..<OPU_MAX_NUM_OF_QUEUES_PER_PROCESS} \<subseteq> cp_doorbells_used p s"
    | (slot) i where "r = 0" "i < OPU_MAX_NUM_OF_QUEUES_PER_PROCESS" "\<not> doorbell_bitmap (pdds s p) i"
        "unat (doorbell_id (qs s' q)) = i"
        "dqm s' = dqm s" "pdds s' = (pdds s)(p := (pdds s p)\<lparr>doorbell_bitmap := (doorbell_bitmap (pdds s p))(i := True)\<rparr>)"
        "qtype (props s' q) = qtype (props s q)"
proof -
  define f where "f = find_first_zero_bit (doorbell_bitmap (pdds s p)) OPU_MAX_NUM_OF_QUEUES_PER_PROCESS"
  show thesis
  proof (cases "1024 \<le> f")
    case True
    then have "\<forall>i < 1024. doorbell_bitmap (pdds s p) i"
      using find_first_zero_bit_full [of 1024 "doorbell_bitmap (pdds s p)"] by (auto simp: f_def)
    then show thesis using assms True
      by (intro full) (auto simp: allocate_doorbell_def Let_def f_def [symmetric] cp_doorbells_used_def)
  next
    case False
    then have "f < 1024" by simp
    then have "\<not> doorbell_bitmap (pdds s p) f" unfolding f_def by (rule find_first_zero_bit_facts(2))
    moreover have "unat (of_nat f :: u32) = f" using False by (intro unat_of_nat_fits) simp
    ultimately show thesis using assms False
      by (intro slot [of f]) (simp_all add: allocate_doorbell_def Let_def f_def [symmetric] set_bit_at_def, auto)
  qed
qed

interpretation cp_doorbells: slot_allocator "cp_doorbell_get p q" "cp_doorbell_put p q" "cp_doorbells_used p"
  "{..<OPU_MAX_NUM_OF_QUEUES_PER_PROCESS}" "cp_doorbell_ok q"
  for p q
proof (unfold_locales, goal_cases)
  case 1
  show ?case by simp
next
  case (2 s i s')
  obtain r where a: "allocate_doorbell p q s = (r, s')" and r: "r = 0" and i: "i = unat (doorbell_id (qs s' q))"
    using 2(2) by (auto simp: cp_doorbell_get_def split: prod.splits if_splits)
  have ok: "soc15 (device_info (dev (dqm s)))" "\<not> is_sdma (qtype (props s q))" using 2(1) by (auto simp: cp_doorbell_ok_def)
  from ok a show ?case
    by (cases rule: allocate_doorbell_cases) (use r i ok in \<open>auto simp: cp_doorbells_used_def cp_doorbell_ok_def\<close>)
next
  case (3 s)
  obtain r s' where a: "allocate_doorbell p q s = (r, s')" by fastforce
  with 3(2) have r: "r \<noteq> 0" by (auto simp: cp_doorbell_get_def)
  have ok: "soc15 (device_info (dev (dqm s)))" "\<not> is_sdma (qtype (props s q))" using 3(1) by (auto simp: cp_doorbell_ok_def)
  from ok a show ?case by (cases rule: allocate_doorbell_cases) (use r in auto)
next
  case (4 s i)
  then have "i < 1024" by simp
  then have "unat (of_nat i :: u32) = i" by (intro unat_of_nat_fits) simp
  then show ?case using 4
    by (auto simp: cp_doorbells_used_def cp_doorbell_ok_def cp_doorbell_put_def deallocate_doorbell_def clear_bit_at_def)
qed

section \<open>Properties\<close>

text \<open>
  C32. The hardware queue slots left to the driver are handed out exclusively and completely: \<open>n\<close>
  calls of \<open>allocate_hqd\<close> succeed exactly when \<open>n\<close> of the slots enabled in \<open>cp_queue_bitmap\<close> are
  free, wherever the round robin over the pipes stands, and they give pairwise different slots
  that nobody used before.
\<close>

theorem hqd_slots_exclusive:
  assumes "hqd_ok dv s"
  shows "((\<exists>r. get_many (hqd_slot_get q) n s = Some r) \<longleftrightarrow> n \<le> card (hqd_slots_of dv - hqd_used s)) \<and>
    (\<forall>is s'. get_many (hqd_slot_get q) n s = Some (is, s') \<longrightarrow>
      distinct is \<and> set is \<subseteq> hqd_slots_of dv \<and> set is \<inter> hqd_used s = {} \<and> hqd_used s' = set is \<union> hqd_used s)"
  using hqd_slots.get_many_succeeds_iff [OF assms] hqd_slots.get_many_distinct [OF assms] by auto

lemma example_hqd_ok: "hqd_ok example_dev example_dqm_state"
proof -
  have b4: "b < 4" if "bit (0xF :: u32) b" for b
    using that bit_take_bit_iff [of 4 "0xF :: u32" b] by (simp add: take_bit_eq_mod)
  have "b < 4 \<and> pipe * 4 + b < 16" if "bit ([0xF, 0xF, 0xF, 0xF :: u32] ! pipe) b" "pipe < 4" for pipe b
  proof -
    have "[0xF, 0xF, 0xF, 0xF] ! pipe = (0xF :: u32)" using that(2) by (auto simp: less_Suc_eq numeral_eq_Suc)
    with that(1) have "b < 4" by (intro b4) (simp only:)
    with that(2) show ?thesis by linarith
  qed
  then show ?thesis
    by (auto simp: hqd_ok_def hqd_enabled_def get_pipes_per_mec_def get_queues_per_pipe_def example_dqm_defs)
qed

lemma example_hqd_run: "map_option fst (get_many (hqd_slot_get 0) 2 example_dqm_state) = Some [0, 32]"
  by code_simp

theorem hqd_slots_exclusive_witness:
  "\<exists>s'. get_many (hqd_slot_get 0) 2 example_dqm_state = Some ([0, 32], s') \<and> hqd_used s' = {0, 32} \<union> hqd_used example_dqm_state"
proof -
  obtain s' where "get_many (hqd_slot_get 0) 2 example_dqm_state = Some ([0, 32], s')"
    using example_hqd_run by auto
  with hqd_slots_exclusive [OF example_hqd_ok, of 0 2] show ?thesis by fastforce
qed

text \<open>
  C31. SDMA queues: a successful \<open>allocate_sdma_queue\<close> takes a free slot of its kind and splits it
  into an engine and a queue of that engine, both in range, from which the slot can be told again;
  so two queues never share an engine's queue. XGMI engines are numbered after the others. When it
  fails, every slot is taken and nothing has changed.
\<close>

theorem allocate_sdma_queue_spec:
  assumes "sdma_ok q n s" and "allocate_sdma_queue q s = (r, s')"
    and "e = unat (if qtype (props s q) = OPU_QUEUE_TYPE_SDMA then get_num_sdma_engines (dqm s)
                   else get_num_xgmi_sdma_engines (dqm s))"
    and "n = e * k" and "unat (get_num_sdma_engines (dqm s)) + e < 2 ^ 32"
    and "base = (if qtype (props s q) = OPU_QUEUE_TYPE_SDMA then 0 else unat (get_num_sdma_engines (dqm s)))"
  shows "if r = 0
    then unat (sdma_id (qs s' q)) \<in> {..<n} - sdma_slots_used q s \<and>
      base \<le> unat (sdma_engine_id (props s' q)) \<and> unat (sdma_engine_id (props s' q)) < base + e \<and>
      unat (sdma_queue_id (props s' q)) < k \<and>
      unat (sdma_id (qs s' q)) =
        unat (sdma_queue_id (props s' q)) * e + (unat (sdma_engine_id (props s' q)) - base)
    else s' = s \<and> sdma_slots_used q s = {..<n}"
proof -
  have sd: "is_sdma (qtype (props s q))" using assms(1) by (simp add: sdma_ok_def)
  show ?thesis
  proof (cases "lowest_bit (sdma_map q s)")
    case None
    then have "sdma_map q s = 0" by (simp add: lowest_bit_None)
    moreover from None have "r \<noteq> 0 \<and> s' = s"
      using assms(2) sd by (auto simp: allocate_sdma_queue_def is_sdma_def sdma_map_def split: if_splits)
    ultimately show ?thesis using assms(1) by (auto simp: sdma_slots_used_def sdma_ok_def)
  next
    case (Some b)
    then have b: "bit (sdma_map q s) b" "b < 64" using sdma_bit_less by (auto simp: lowest_bit_Some)
    then have bn: "b < n" using assms(1) by (auto simp: sdma_ok_def bits_below_def)
    then have e: "0 < e" using assms(4) by (cases e) auto
    have ub: "unat (of_nat b :: u32) = b" using b(2) by (intro unat_of_nat_small) simp
    have dm: "b div e < k" "b mod e < e" "b = b div e * e + b mod e"
      using bn e assms(4) by (auto simp: less_mult_imp_div_less mult.commute)
    have "unat (get_num_sdma_engines (dqm s) + of_nat b mod get_num_xgmi_sdma_engines (dqm s)) =
        unat (get_num_sdma_engines (dqm s)) + b mod unat (get_num_xgmi_sdma_engines (dqm s))"
      if "qtype (props s q) \<noteq> OPU_QUEUE_TYPE_SDMA"
      using that assms(3,5) dm(2) ub by (subst unat_add_fits) (simp_all add: unat_mod)
    then have res: "r = 0" "unat (sdma_id (qs s' q)) = b" "unat (sdma_queue_id (props s' q)) = b div e"
      "unat (sdma_engine_id (props s' q)) = base + b mod e"
      using assms(2,3,6) sd Some ub
      by (auto simp: allocate_sdma_queue_def is_sdma_def sdma_map_def unat_mod unat_div split: if_splits)
    show ?thesis unfolding res using bn b(1) dm by (auto simp: sdma_slots_used_def)
  qed
qed

definition sdma_example_state :: "nat dqm_state" where
  "sdma_example_state = upd_props 7 (\<lambda>x. x\<lparr>qtype := OPU_QUEUE_TYPE_SDMA\<rparr>) example_dqm_state"

lemma sdma_example_ok: "sdma_ok 7 4 sdma_example_state"
proof -
  have "bit (0xF :: u64) b \<Longrightarrow> b < 4" for b
    using bit_take_bit_iff [of 4 "0xF :: u64" b] by (simp add: take_bit_eq_mod)
  then show ?thesis
    by (auto simp: sdma_ok_def sdma_example_state_def is_sdma_def sdma_pool_size_def get_num_sdma_queues_def
        bits_below_def sdma_map_def example_dqm_defs)
qed

theorem allocate_sdma_queue_spec_witness:
  "fst (allocate_sdma_queue 7 sdma_example_state) = 0 \<and>
     unat (sdma_engine_id (props (snd (allocate_sdma_queue 7 sdma_example_state)) 7)) < 2"
proof -
  have e: "2 = unat (if qtype (props sdma_example_state 7) = OPU_QUEUE_TYPE_SDMA
      then get_num_sdma_engines (dqm sdma_example_state) else get_num_xgmi_sdma_engines (dqm sdma_example_state))"
    and f: "unat (get_num_sdma_engines (dqm sdma_example_state)) + 2 < 2 ^ 32"
    and b: "0 = (if qtype (props sdma_example_state 7) = OPU_QUEUE_TYPE_SDMA then 0
      else unat (get_num_sdma_engines (dqm sdma_example_state)))"
    by (simp_all add: sdma_example_state_def get_num_sdma_engines_def example_dqm_defs)
  have "fst (allocate_sdma_queue 7 sdma_example_state) = 0" by code_simp
  with allocate_sdma_queue_spec [OF sdma_example_ok prod.collapse [symmetric] e _ f b, of 2]
  show ?thesis by simp
qed

text \<open>
  A process never shares a VMID: \<open>n\<close> allocations for processes with a non-zero PASID succeed
  exactly when \<open>n\<close> VMIDs of the driver's range are free, and give pairwise different ones.
\<close>

theorem vmids_exclusive:
  assumes "vmid_ok env q dv s"
  shows "((\<exists>r. get_many (vmid_slot_get env p q) n s = Some r) \<longleftrightarrow> n \<le> card (vmid_range dv - vmids_used s)) \<and>
    (\<forall>is s'. get_many (vmid_slot_get env p q) n s = Some (is, s') \<longrightarrow>
      distinct is \<and> set is \<subseteq> vmid_range dv \<and> set is \<inter> vmids_used s = {} \<and>
      vmids_used s' = set is \<union> vmids_used s)"
  using vmid_slots.get_many_succeeds_iff [OF assms] vmid_slots.get_many_distinct [OF assms] by auto

theorem vmids_exclusive_witness:
  "\<exists>is s'. get_many (vmid_slot_get example_dqm_env 0 0) 8 example_dqm_state = Some (is, s') \<and> distinct is"
proof -
  have ok: "vmid_ok example_dqm_env 0 example_dev example_dqm_state"
    by (simp add: vmid_ok_def example_dqm_env_def example_dqm_defs)
  have "vmid_range example_dev - vmids_used example_dqm_state = {8..15}"
    by (auto simp: vmid_range_def vmids_used_def example_dqm_defs)
  with vmids_exclusive [OF ok, of 0 8] show ?thesis by auto
qed

text \<open>
  The CP queues of a process never get a doorbell reserved for another engine: on a SOC15 chip,
  starting from the map built by \<open>init_doorbell_bitmap\<close>, the doorbells handed out are pairwise
  different and lie neither in the reserved range nor in its mirror image.
\<close>

theorem cp_doorbells_avoid_reserved:
  assumes "cp_doorbell_ok q s" and "init_doorbell_bitmap True (dev (dqm s)) = (0, Some (doorbell_bitmap (pdds s p)))"
    and "get_many (cp_doorbell_get p q) n s = Some (is, s')"
  shows "distinct is \<and> length is = n \<and>
    (\<forall>i \<in> set is. i < OPU_MAX_NUM_OF_QUEUES_PER_PROCESS \<and>
      (\<forall>j < 512. unat (non_cp_doorbells_start (shared_resources (dev (dqm s)))) \<le> j \<and>
          j \<le> unat (non_cp_doorbells_end (shared_resources (dev (dqm s)))) \<longrightarrow>
        i \<noteq> j \<and> i \<noteq> j + OPU_QUEUE_DOORBELL_MIRROR_OFFSET))"
  using cp_doorbells.get_many_distinct [OF assms(1,3)] init_doorbell_bitmap_bits [OF assms(2)]
  by (fastforce simp: cp_doorbells_used_def)

definition doorbell_example_state :: "nat dqm_state" where
  "doorbell_example_state =
     upd_pdd 0 (\<lambda>x. x\<lparr>doorbell_bitmap := the (snd (init_doorbell_bitmap True example_dev))\<rparr>) example_dqm_state"

theorem cp_doorbells_avoid_reserved_witness:
  "\<exists>i s'. get_many (cp_doorbell_get 0 0) 1 doorbell_example_state = Some ([i], s') \<and> \<not> (0x100 \<le> i \<and> i \<le> 0x1FF)"
proof -
  have ok: "cp_doorbell_ok 0 doorbell_example_state"
    by (simp add: cp_doorbell_ok_def doorbell_example_state_def is_sdma_def example_dqm_defs)
  have i: "init_doorbell_bitmap True (dev (dqm doorbell_example_state)) =
      (0, Some (doorbell_bitmap (pdds doorbell_example_state 0)))"
    by (simp add: doorbell_example_state_def init_doorbell_bitmap_def example_dqm_defs Let_def)
  have "0 \<notin> cp_doorbells_used 0 doorbell_example_state"
    using init_doorbell_bitmap_bits [OF i, of 0] by (simp add: cp_doorbells_used_def doorbell_example_state_def example_dqm_defs)
  then obtain j s' where "cp_doorbell_get 0 0 doorbell_example_state = Some (j, s')"
    using cp_doorbells.get_succeeds_iff [OF ok, of 0] by (auto dest: subsetD [of _ _ 0])
  then have g: "get_many (cp_doorbell_get 0 0) 1 doorbell_example_state = Some ([j], s')" by simp
  have r: "unat (non_cp_doorbells_start (shared_resources (dev (dqm doorbell_example_state)))) = 0x100"
    "unat (non_cp_doorbells_end (shared_resources (dev (dqm doorbell_example_state)))) = 0x1FF"
    by (simp_all add: doorbell_example_state_def example_dqm_defs)
  from cp_doorbells_avoid_reserved [OF ok i g, unfolded r] have "\<not> (0x100 \<le> j \<and> j \<le> 0x1FF)" by (auto dest: spec [of _ j])
  with g show ?thesis by blast
qed

end
