(* ===== verification/Opu_Dqm_Ops.thy ===== *)
theory Opu_Dqm_Ops
  imports Opu_Dqm_Alloc
begin

text \<open>
  The operations of the device queue manager (\<open>opu_device_queue_manager.c\<close>): scheduling by the
  hardware scheduler (\<open>cpsch\<close>) and by the driver (\<open>nocpsch\<close>). An operation returns the code of
  the source and the next state.
\<close>

section \<open>The run list of the hardware scheduler\<close>

text \<open>The wait for the fence. \<open>fence i\<close> is what the \<open>i\<close>-th iteration reads from the fence,
  \<open>now i\<close> the clock it then sees; the clocks are compared as \<open>time_after\<close> does, by the sign of
  their difference. Once the time is over, \<open>halt_if_hws_hang\<close> stops the thread for good, which is
  the result \<open>None\<close>, as is running out of fuel.\<close>

definition time_after :: "u64 \<Rightarrow> u64 \<Rightarrow> bool" where
  "time_after a b \<longleftrightarrow> sint (b - a) < 0"

fun fence_wait_loop :: "bool \<Rightarrow> (nat \<Rightarrow> u64) \<Rightarrow> (nat \<Rightarrow> u64) \<Rightarrow> u64 \<Rightarrow> u64 \<Rightarrow> nat \<Rightarrow> nat \<Rightarrow> int option" where
  "fence_wait_loop halt_if_hws_hang fence now fence_value end_jiffies 0 i = None"
| "fence_wait_loop halt_if_hws_hang fence now fence_value end_jiffies (Suc fuel) i =
     (if fence i = fence_value then Some 0
      else if time_after (now i) end_jiffies then (if halt_if_hws_hang then None else Some (- ETIME))
      else fence_wait_loop halt_if_hws_hang fence now fence_value end_jiffies fuel (Suc i))"

definition amdopu_fence_wait_timeout ::
  "bool \<Rightarrow> (nat \<Rightarrow> u64) \<Rightarrow> (nat \<Rightarrow> u64) \<Rightarrow> u64 \<Rightarrow> u64 \<Rightarrow> u64 \<Rightarrow> nat \<Rightarrow> int option" where
  "amdopu_fence_wait_timeout halt_if_hws_hang fence now start fence_value timeout_jiffies fuel =
     fence_wait_loop halt_if_hws_hang fence now fence_value (timeout_jiffies + start) fuel 0"

abbreviation OPU_FENCE_INIT :: u64 where "OPU_FENCE_INIT \<equiv> 10"
abbreviation OPU_FENCE_COMPLETED :: u64 where "OPU_FENCE_COMPLETED \<equiv> 100"

definition map_queues_cpsch :: "'h dqm_env \<Rightarrow> 'h dqm_state \<Rightarrow> int \<times> 'h dqm_state" where
  "map_queues_cpsch env s =
     (if \<not> sched_running (dqm s) then (0, s)
      else if active_queue_count (dqm s) = 0 \<or> processes_count (dqm s) = 0 then (0, s)
      else if active_runlist (dqm s) then (0, s)
      else case hw_call (pm_send_runlist env (dqm_queues (dqm s))) s of
             (retval, s1) \<Rightarrow>
               if retval \<noteq> 0 then (retval, s1)
               else (retval, upd_dqm (\<lambda>d. d\<lparr>active_runlist := True\<rparr>) s1))"

text \<open>The outcome of the wait for the fence is the field \<open>fence_wait\<close> of the environment.\<close>

definition unmap_queues_cpsch ::
  "'h dqm_env \<Rightarrow> opu_unmap_queues_filter \<Rightarrow> u32 \<Rightarrow> 'h dqm_state \<Rightarrow> int \<times> 'h dqm_state" where
  "unmap_queues_cpsch env filt filter_param s =
     (if \<not> sched_running (dqm s) then (0, s)
      else if is_hws_hang (dqm s) then (- EIO, s)
      else if \<not> active_runlist (dqm s) then (0, s)
      else case hw_call (pm_send_unmap_queue env filt filter_param) s of
             (retval, s1) \<Rightarrow>
               if retval \<noteq> 0 then (retval, s1)
               else
                 let s2 = upd_hw (write_fence env OPU_FENCE_INIT) s1;
                     s3 = upd_hw (pm_send_query_status env (fence_gpu_addr (dqm s2))) s2
                 in case hw_call (fence_wait env) s3 of
                      (retval, s4) \<Rightarrow>
                        if retval \<noteq> 0 then
                          (retval, upd_dqm (\<lambda>d. d\<lparr>is_hws_hang := True,
                             hw_exception_work := (if \<not> is_resetting d then True else hw_exception_work d)\<rparr>) s4)
                        else if read_doorbell_id (mqd_mgrs env OPU_MQD_TYPE_HIQ) (hiq_mqd env (hw s4)) (hw s4)
                        then (- ETIME, s4)
                        else (retval, upd_dqm (\<lambda>d. d\<lparr>active_runlist := False\<rparr>) (upd_hw (pm_release_ib env) s4)))"

definition execute_queues_cpsch ::
  "'h dqm_env \<Rightarrow> opu_unmap_queues_filter \<Rightarrow> u32 \<Rightarrow> 'h dqm_state \<Rightarrow> int \<times> 'h dqm_state" where
  "execute_queues_cpsch env filt filter_param s =
     (if is_hws_hang (dqm s) then (- EIO, s)
      else case unmap_queues_cpsch env filt filter_param s of
             (retval, s1) \<Rightarrow> if retval \<noteq> 0 then (retval, s1) else map_queues_cpsch env s1)"

abbreviation execute_dynamic :: "'h dqm_env \<Rightarrow> 'h dqm_state \<Rightarrow> int \<times> 'h dqm_state" where
  "execute_dynamic env \<equiv> execute_queues_cpsch env OPU_UNMAP_QUEUES_FILTER_DYNAMIC_QUEUES 0"

abbreviation execute_all :: "'h dqm_env \<Rightarrow> 'h dqm_state \<Rightarrow> int \<times> 'h dqm_state" where
  "execute_all env \<equiv> execute_queues_cpsch env OPU_UNMAP_QUEUES_FILTER_ALL_QUEUES 0"

section \<open>Queues without the hardware scheduler\<close>

abbreviation inc_total :: "device_queue_manager \<Rightarrow> device_queue_manager" where
  "inc_total d \<equiv> d\<lparr>total_queue_count := total_queue_count d + 1\<rparr>"

abbreviation dec_total :: "device_queue_manager \<Rightarrow> device_queue_manager" where
  "dec_total d \<equiv> d\<lparr>total_queue_count := total_queue_count d - 1\<rparr>"

text \<open>The error labels of \<open>create_queue_nocpsch\<close>, each falling through to the next one.\<close>

definition out_deallocate_vmid :: "'h dqm_env \<Rightarrow> nat \<Rightarrow> nat \<Rightarrow> 'h dqm_state \<Rightarrow> 'h dqm_state" where
  "out_deallocate_vmid env p q s = (if queues_list (pdds s p) = [] then deallocate_vmid env p q s else s)"

definition out_deallocate_hqd :: "'h dqm_env \<Rightarrow> nat \<Rightarrow> nat \<Rightarrow> 'h dqm_state \<Rightarrow> 'h dqm_state" where
  "out_deallocate_hqd env p q s =
     out_deallocate_vmid env p q
       (if qtype (props s q) = OPU_QUEUE_TYPE_COMPUTE then deallocate_hqd q s
        else if is_sdma (qtype (props s q)) then deallocate_sdma_queue q s else s)"

definition out_deallocate_doorbell :: "'h dqm_env \<Rightarrow> nat \<Rightarrow> nat \<Rightarrow> 'h dqm_state \<Rightarrow> 'h dqm_state" where
  "out_deallocate_doorbell env p q s = out_deallocate_hqd env p q (deallocate_doorbell p q s)"

definition out_free_mqd :: "'h dqm_env \<Rightarrow> nat \<Rightarrow> nat \<Rightarrow> 'h dqm_state \<Rightarrow> 'h dqm_state" where
  "out_free_mqd env p q s =
     out_deallocate_doorbell env p q (upd_hw (free_mqd (mgr_of env s q) (mqd (qs s q)) (mqd_mem_obj (qs s q))) s)"

text \<open>The label \<open>add_queue_to_list\<close>.\<close>

definition add_queue_to_list :: "nat \<Rightarrow> nat \<Rightarrow> 'h dqm_state \<Rightarrow> 'h dqm_state" where
  "add_queue_to_list p q s =
     (let s1 = upd_pdd p (\<lambda>x. x\<lparr>queues_list := q # queues_list x, queue_count := queue_count x + 1\<rparr>) s;
          s2 = (if is_active (props s1 q) then upd_dqm (increment_queue_count (qtype (props s1 q))) s1 else s1)
      in upd_dqm inc_total s2)"

text \<open>The descriptor of the new queue: allocated, initialized and, when the queue is active, loaded.\<close>

definition create_mqd_nocpsch :: "'h dqm_env \<Rightarrow> 'h mqd_manager \<Rightarrow> nat \<Rightarrow> nat \<Rightarrow> 'h dqm_state \<Rightarrow> int \<times> 'h dqm_state" where
  "create_mqd_nocpsch env mgr p q s =
     (case hw_call (allocate_mqd mgr (props s q)) s of (obj, s6) \<Rightarrow>
      let s7 = upd_q q (\<lambda>x. x\<lparr>mqd_mem_obj := obj\<rparr>) s6
      in case obj of
           None \<Rightarrow> (- ENOMEM, out_deallocate_doorbell env p q s7)
         | Some m \<Rightarrow>
     (case hw_call (init_mqd mgr m (props s7 q)) s7 of ((d, gart, prop'), s8) \<Rightarrow>
      let s9 = upd_q q (\<lambda>x. x\<lparr>mqd := d, gart_mqd_addr := gart, properties := prop'\<rparr>) s8
      in if is_active (props s9 q) \<and> sched_running (dqm s9) then
           (case (if \<not> mm_is_current env (q_process (qs s9 q)) then (- EFAULT, s9)
                  else hw_call (load_mqd mgr (mqd (qs s9 q)) (q_pipe (qs s9 q)) (q_queue (qs s9 q)) (props s9 q)) s9) of
              (retval, s10) \<Rightarrow>
                if retval \<noteq> 0 then (retval, out_free_mqd env p q s10)
                else (retval, add_queue_to_list p q s10))
         else (0, add_queue_to_list p q s9)))"

definition create_queue_nocpsch :: "'h dqm_env \<Rightarrow> nat \<Rightarrow> nat \<Rightarrow> 'h dqm_state \<Rightarrow> int \<times> 'h dqm_state" where
  "create_queue_nocpsch env q p s =
     (if max_num_of_queues_per_device env \<le> total_queue_count (dqm s) then (- EPERM, s)
      else
     (case (if queues_list (pdds s p) = [] then allocate_vmid env p q s else (0, s)) of (retval, s1) \<Rightarrow>
      if retval \<noteq> 0 then (retval, s1)
      else
      let s2 = upd_props q (\<lambda>x. x\<lparr>q_vmid := vmid (pdds s1 p), is_evicted := evicted (pdds s1 p) \<noteq> 0,
                 q_tba_addr := tba_addr (pdds s1 p), q_tma_addr := tma_addr (pdds s1 p)\<rparr>) s1;
          mgr = mgr_of env s2 q
      in case (if qtype (props s2 q) = OPU_QUEUE_TYPE_COMPUTE then allocate_hqd q s2
               else if is_sdma (qtype (props s2 q)) then allocate_sdma_queue q s2 else (0, s2)) of (retval, s3) \<Rightarrow>
      if retval \<noteq> 0 then (retval, out_deallocate_vmid env p q s3)
      else
      let s4 = (if is_sdma (qtype (props s3 q))
                then upd_props q (\<lambda>x. x\<lparr>sdma_vm_addr := asic_init_sdma_vm env (qs s3 q) (pdds s3 p)\<rparr>) s3 else s3)
      in case allocate_doorbell p q s4 of (retval, s5) \<Rightarrow>
      if retval \<noteq> 0 then (retval, out_deallocate_hqd env p q s5)
      else
      create_mqd_nocpsch env mgr p q s5))"

definition destroy_queue_nocpsch_locked :: "'h dqm_env \<Rightarrow> nat \<Rightarrow> nat \<Rightarrow> 'h dqm_state \<Rightarrow> int \<times> 'h dqm_state" where
  "destroy_queue_nocpsch_locked env p q s =
     (if qtype (props s q) \<noteq> OPU_QUEUE_TYPE_COMPUTE \<and> \<not> is_sdma (qtype (props s q)) then (- EINVAL, s)
      else
        let s1 = (if qtype (props s q) = OPU_QUEUE_TYPE_COMPUTE then deallocate_hqd q s else deallocate_sdma_queue q s);
            s2 = upd_dqm dec_total s1;
            s3 = deallocate_doorbell p q s2
        in if \<not> sched_running (dqm s3) then (0, s3)
           else
          (case hw_call (destroy_mqd (mgr_of env s3 q) (mqd (qs s3 q)) OPU_PREEMPT_TYPE_WAVEFRONT_RESET
                           (q_pipe (qs s3 q)) (q_queue (qs s3 q))) s3 of (retval, s4) \<Rightarrow>
           let s5 = (if retval = - ETIME then upd_pdd p (\<lambda>x. x\<lparr>reset_wavefronts := True\<rparr>) s4 else s4);
               s6 = upd_pdd p (\<lambda>x. x\<lparr>queues_list := remove1 q (queues_list x)\<rparr>) s5;
               s7 = (if queues_list (pdds s6 p) = [] then
                       let s6' = (if reset_wavefronts (pdds s6 p) then
                             upd_pdd p (\<lambda>x. x\<lparr>reset_wavefronts := False\<rparr>)
                               (upd_hw (dbgdev_wave_reset_wavefronts env (pdd_process (pdds s6 p))) s6) else s6)
                       in deallocate_vmid env p q s6'
                     else s6);
               s8 = upd_pdd p (\<lambda>x. x\<lparr>queue_count := queue_count x - 1\<rparr>) s7;
               s9 = (if is_active (props s8 q) then
                       let s8' = upd_dqm (decrement_queue_count (qtype (props s8 q))) s8
                       in if is_gws (props s8 q)
                          then upd_pdd p (\<lambda>x. x\<lparr>mapped_gws_queue := False\<rparr>)
                                 (upd_dqm (\<lambda>d. d\<lparr>gws_queue_count := gws_queue_count d - 1\<rparr>) s8')
                          else s8'
                     else s8)
           in (retval, s9)))"

text \<open>The SDMA statistics read before a queue goes away; a failed read leaves 0.\<close>

definition sdma_stats :: "'h dqm_env \<Rightarrow> nat \<Rightarrow> 'h dqm_state \<Rightarrow> u64" where
  "sdma_stats env q s =
     (if is_sdma (qtype (props s q)) then
        (case read_sdma_queue_counter env (read_ptr (props s q)) (hw s) of (r, v) \<Rightarrow> if r = 0 then v else 0)
      else 0)"

definition destroy_queue_nocpsch :: "'h dqm_env \<Rightarrow> nat \<Rightarrow> nat \<Rightarrow> 'h dqm_state \<Rightarrow> int \<times> 'h dqm_state" where
  "destroy_queue_nocpsch env p q s =
     (let sdma_val = sdma_stats env q s;
          mgr = mgr_of env s q
      in case destroy_queue_nocpsch_locked env p q s of (retval, s1) \<Rightarrow>
           let s2 = (if retval = 0 then
                 upd_pdd p (\<lambda>x. x\<lparr>sdma_past_activity_counter := sdma_past_activity_counter x + sdma_val\<rparr>) s1 else s1)
           in (retval, upd_hw (free_mqd mgr (mqd (qs s2 q)) (mqd_mem_obj (qs s2 q))) s2))"

section \<open>Updating a queue\<close>

definition user_queue_type :: "opu_queue_type \<Rightarrow> bool" where
  "user_queue_type t \<longleftrightarrow> t = OPU_QUEUE_TYPE_COMPUTE \<or> is_sdma t"

text \<open>The two counter updates of \<open>update_queue\<close>, after the descriptor was updated.\<close>

definition update_queue_count :: "bool \<Rightarrow> nat \<Rightarrow> 'h dqm_state \<Rightarrow> 'h dqm_state" where
  "update_queue_count prev_active q s =
     (if is_active (props s q) \<and> \<not> prev_active then upd_dqm (increment_queue_count (qtype (props s q))) s
      else if \<not> is_active (props s q) \<and> prev_active then upd_dqm (decrement_queue_count (qtype (props s q))) s
      else s)"

definition update_queue_gws :: "nat \<Rightarrow> nat \<Rightarrow> 'h dqm_state \<Rightarrow> 'h dqm_state" where
  "update_queue_gws p q s =
     (if gws (qs s q) \<noteq> None \<and> \<not> is_gws (props s q) then
        upd_props q (\<lambda>x. x\<lparr>is_gws := True\<rparr>)
          (if is_active (props s q) then
             upd_pdd p (\<lambda>x. x\<lparr>mapped_gws_queue := True\<rparr>)
               (upd_dqm (\<lambda>d. d\<lparr>gws_queue_count := gws_queue_count d + 1\<rparr>) s) else s)
      else if gws (qs s q) = None \<and> is_gws (props s q) then
        upd_props q (\<lambda>x. x\<lparr>is_gws := False\<rparr>)
          (if is_active (props s q) then
             upd_pdd p (\<lambda>x. x\<lparr>mapped_gws_queue := False\<rparr>)
               (upd_dqm (\<lambda>d. d\<lparr>gws_queue_count := gws_queue_count d - 1\<rparr>) s) else s)
      else s)"

definition update_queue :: "'h dqm_env \<Rightarrow> nat \<Rightarrow> 'h dqm_state \<Rightarrow> int \<times> 'h dqm_state" where
  "update_queue env q s =
     (case pdd_of env (q_process (qs s q)) of
        None \<Rightarrow> (- ENODEV, s)
      | Some p \<Rightarrow>
          let mgr = mgr_of env s q;
              prev_active = is_active (props s q);
              hws = (sched_policy (dqm s) \<noteq> OPU_SCHED_POLICY_NO_HWS)
          in if \<not> hws \<and> prev_active \<and> user_queue_type (qtype (props s q)) \<and> \<not> sched_running (dqm s) then (0, s)
             else
            (case (if hws then unmap_queues_cpsch env OPU_UNMAP_QUEUES_FILTER_DYNAMIC_QUEUES 0 s
                   else if prev_active \<and> user_queue_type (qtype (props s q))
                   then hw_call (destroy_mqd mgr (mqd (qs s q)) OPU_PREEMPT_TYPE_WAVEFRONT_DRAIN
                          (q_pipe (qs s q)) (q_queue (qs s q))) s
                   else (0, s)) of (retval, s1) \<Rightarrow>
             if retval \<noteq> 0 then (retval, s1)
             else
            (case hw_call (update_mqd mgr (mqd (qs s1 q)) (props s1 q)) s1 of (prop', s2) \<Rightarrow>
             let s3 = upd_q q (\<lambda>x. x\<lparr>properties := prop'\<rparr>) s2;
                 s4 = update_queue_count prev_active q s3;
                 s5 = update_queue_gws p q s4
             in if hws then map_queues_cpsch env s5
                else if is_active (props s5 q) \<and> user_queue_type (qtype (props s5 q)) then
                  (if \<not> mm_is_current env (q_process (qs s5 q)) then (- EFAULT, s5)
                   else hw_call (load_mqd mgr (mqd (qs s5 q)) (q_pipe (qs s5 q)) (q_queue (qs s5 q)) (props s5 q)) s5)
                else (retval, s5))))"

section \<open>Eviction and restoration\<close>

text \<open>The loop bodies; the first error is kept and the loop goes on.\<close>

definition evict_queue_nocpsch :: "'h dqm_env \<Rightarrow> nat \<Rightarrow> nat \<Rightarrow> int \<times> 'h dqm_state \<Rightarrow> int \<times> 'h dqm_state" where
  "evict_queue_nocpsch env p q rs =
     (case rs of (ret, s) \<Rightarrow>
      let s1 = upd_props q (\<lambda>x. x\<lparr>is_evicted := True\<rparr>) s
      in if \<not> is_active (props s1 q) then (ret, s1)
         else
           let mgr = mgr_of env s1 q;
               s2 = upd_props q (\<lambda>x. x\<lparr>is_active := False\<rparr>) s1;
               s3 = upd_dqm (decrement_queue_count (qtype (props s2 q))) s2;
               s4 = (if is_gws (props s3 q) then
                       upd_pdd p (\<lambda>x. x\<lparr>mapped_gws_queue := False\<rparr>)
                         (upd_dqm (\<lambda>d. d\<lparr>gws_queue_count := gws_queue_count d - 1\<rparr>) s3) else s3)
           in if \<not> sched_running (dqm s4) then (ret, s4)
              else case hw_call (destroy_mqd mgr (mqd (qs s4 q)) OPU_PREEMPT_TYPE_WAVEFRONT_DRAIN
                          (q_pipe (qs s4 q)) (q_queue (qs s4 q))) s4 of
                     (retval, s5) \<Rightarrow> (if retval \<noteq> 0 \<and> ret = 0 then retval else ret, s5))"

definition evict_process_queues_nocpsch :: "'h dqm_env \<Rightarrow> nat \<Rightarrow> 'h dqm_state \<Rightarrow> int \<times> 'h dqm_state" where
  "evict_process_queues_nocpsch env p s =
     (let already = 0 < evicted (pdds s p);
          s1 = upd_pdd p (\<lambda>x. x\<lparr>evicted := evicted x + 1\<rparr>) s
      in if already then (0, s1)
         else
           let s2 = upd_pdd p (\<lambda>x. x\<lparr>last_evict_timestamp := jiffies env (hw s1)\<rparr>) s1
           in fold (evict_queue_nocpsch env p) (queues_list (pdds s2 p)) (0, s2))"

definition evict_queue_cpsch :: "nat \<Rightarrow> 'h dqm_state \<Rightarrow> 'h dqm_state" where
  "evict_queue_cpsch q s =
     (let s1 = upd_props q (\<lambda>x. x\<lparr>is_evicted := True\<rparr>) s
      in if \<not> is_active (props s1 q) then s1
         else upd_dqm (decrement_queue_count (qtype (props s1 q))) (upd_props q (\<lambda>x. x\<lparr>is_active := False\<rparr>) s1))"

definition evict_process_queues_cpsch :: "'h dqm_env \<Rightarrow> nat \<Rightarrow> 'h dqm_state \<Rightarrow> int \<times> 'h dqm_state" where
  "evict_process_queues_cpsch env p s =
     (let already = 0 < evicted (pdds s p);
          s1 = upd_pdd p (\<lambda>x. x\<lparr>evicted := evicted x + 1\<rparr>) s
      in if already then (0, s1)
         else
           let s2 = fold evict_queue_cpsch (queues_list (pdds s1 p)) s1;
               s3 = upd_pdd p (\<lambda>x. x\<lparr>last_evict_timestamp := jiffies env (hw s2)\<rparr>) s2
           in execute_queues_cpsch env
                (if is_debug (pdds s3 p) then OPU_UNMAP_QUEUES_FILTER_ALL_QUEUES
                 else OPU_UNMAP_QUEUES_FILTER_DYNAMIC_QUEUES) 0 s3)"

definition restore_queue_nocpsch :: "'h dqm_env \<Rightarrow> nat \<Rightarrow> nat \<Rightarrow> int \<times> 'h dqm_state \<Rightarrow> int \<times> 'h dqm_state" where
  "restore_queue_nocpsch env p q rs =
     (case rs of (ret, s) \<Rightarrow>
      let s1 = upd_props q (\<lambda>x. x\<lparr>is_evicted := False\<rparr>) s
      in if \<not> QUEUE_IS_ACTIVE (props s1 q) then (ret, s1)
         else
           let mgr = mgr_of env s1 q;
               s2 = upd_props q (\<lambda>x. x\<lparr>is_active := True\<rparr>) s1;
               s3 = upd_dqm (increment_queue_count (qtype (props s2 q))) s2;
               s4 = (if is_gws (props s3 q) then
                       upd_pdd p (\<lambda>x. x\<lparr>mapped_gws_queue := True\<rparr>)
                         (upd_dqm (\<lambda>d. d\<lparr>gws_queue_count := gws_queue_count d + 1\<rparr>) s3) else s3)
           in if \<not> sched_running (dqm s4) then (ret, s4)
              else case hw_call (load_mqd mgr (mqd (qs s4 q)) (q_pipe (qs s4 q)) (q_queue (qs s4 q)) (props s4 q)) s4 of
                     (retval, s5) \<Rightarrow> (if retval \<noteq> 0 \<and> ret = 0 then retval else ret, s5))"

text \<open>The end of a restoration: the eviction count is cleared and the time is accounted.\<close>

definition finish_restore :: "'h dqm_env \<Rightarrow> nat \<Rightarrow> 'h dqm_state \<Rightarrow> 'h dqm_state" where
  "finish_restore env p s =
     upd_pdd p (\<lambda>x. x\<lparr>evicted := 0,
       evict_duration_counter := evict_duration_counter x + (jiffies env (hw s) - last_evict_timestamp x)\<rparr>) s"

definition restore_process_queues_nocpsch :: "'h dqm_env \<Rightarrow> nat \<Rightarrow> 'h dqm_state \<Rightarrow> int \<times> 'h dqm_state" where
  "restore_process_queues_nocpsch env p s =
     (let pd_base = gpuvm_get_process_page_dir env p (hw s)
      in if evicted (pdds s p) = 0 then (0, s)
         else if 1 < evicted (pdds s p) then (0, upd_pdd p (\<lambda>x. x\<lparr>evicted := evicted x - 1\<rparr>) s)
         else
           let s1 = upd_pdd p (\<lambda>x. x\<lparr>page_table_base := pd_base\<rparr>) s;
               s2 = (if queues_list (pdds s1 p) \<noteq> [] then
                       opu_flush_tlb env p
                         (upd_hw (kgd_set_vm_context_page_table_base env (vmid (pdds s1 p)) pd_base) s1)
                     else s1)
           in if \<not> task_mm_alive env (pdd_process (pdds s2 p)) (hw s2) then (- EFAULT, s2)
              else case fold (restore_queue_nocpsch env p) (queues_list (pdds s2 p)) (0, s2) of
                     (ret, s3) \<Rightarrow> (ret, finish_restore env p s3))"

definition restore_queue_cpsch :: "nat \<Rightarrow> 'h dqm_state \<Rightarrow> 'h dqm_state" where
  "restore_queue_cpsch q s =
     (let s1 = upd_props q (\<lambda>x. x\<lparr>is_evicted := False\<rparr>) s
      in if \<not> QUEUE_IS_ACTIVE (props s1 q) then s1
         else upd_dqm (increment_queue_count (qtype (props s1 q))) (upd_props q (\<lambda>x. x\<lparr>is_active := True\<rparr>) s1))"

definition restore_process_queues_cpsch :: "'h dqm_env \<Rightarrow> nat \<Rightarrow> 'h dqm_state \<Rightarrow> int \<times> 'h dqm_state" where
  "restore_process_queues_cpsch env p s =
     (let pd_base = gpuvm_get_process_page_dir env p (hw s)
      in if evicted (pdds s p) = 0 then (0, s)
         else if 1 < evicted (pdds s p) then (0, upd_pdd p (\<lambda>x. x\<lparr>evicted := evicted x - 1\<rparr>) s)
         else
           let s1 = upd_pdd p (\<lambda>x. x\<lparr>page_table_base := pd_base\<rparr>) s;
               s2 = fold restore_queue_cpsch (queues_list (pdds s1 p)) s1
           in case execute_dynamic env s2 of (retval, s3) \<Rightarrow> (retval, finish_restore env p s3))"

section \<open>Processes\<close>

text \<open>\<open>kzalloc_ok\<close> is the outcome of the allocation of the list node.\<close>

definition register_process :: "'h dqm_env \<Rightarrow> bool \<Rightarrow> nat \<Rightarrow> 'h dqm_state \<Rightarrow> int \<times> 'h dqm_state" where
  "register_process env kzalloc_ok p s =
     (if \<not> kzalloc_ok then (- ENOMEM, s)
      else
        let pd_base = gpuvm_get_process_page_dir env p (hw s);
            s1 = upd_dqm (\<lambda>d. d\<lparr>dqm_queues := p # dqm_queues d\<rparr>) s;
            s2 = upd_pdd p (\<lambda>x. x\<lparr>page_table_base := pd_base\<rparr>) s1
        in case asic_update_qpd env (pdds s2 p) of (retval, config, bases, ape_base, ape_limit) \<Rightarrow>
             let s3 = upd_pdd p (\<lambda>x. x\<lparr>sh_mem_config := config, sh_mem_bases := bases,
                        sh_mem_ape1_base := ape_base, sh_mem_ape1_limit := ape_limit\<rparr>) s2;
                 s4 = upd_dqm (\<lambda>d. d\<lparr>processes_count := processes_count d + 1\<rparr>) s3
             in (retval, opu_inc_compute_active env s4))"

text \<open>The search for the process in the list of the manager, shared by three operations.\<close>

definition remove_process :: "nat \<Rightarrow> 'h dqm_state \<Rightarrow> bool \<times> 'h dqm_state" where
  "remove_process p s =
     (if p \<in> set (dqm_queues (dqm s))
      then (True, upd_dqm (\<lambda>d. d\<lparr>dqm_queues := remove1 p (dqm_queues d), processes_count := processes_count d - 1\<rparr>) s)
      else (False, s))"

definition unregister_process :: "'h dqm_env \<Rightarrow> nat \<Rightarrow> 'h dqm_state \<Rightarrow> int \<times> 'h dqm_state" where
  "unregister_process env p s =
     (case remove_process p s of
        (True, s1) \<Rightarrow> (0, opu_dec_compute_active env s1)
      | (False, s1) \<Rightarrow> (1, s1))"

section \<open>Starting and stopping\<close>

definition init_interrupts :: "'h dqm_env \<Rightarrow> 'h dqm_state \<Rightarrow> 'h dqm_state" where
  "init_interrupts env s =
     fold (\<lambda>i s. if is_pipe_enabled (dqm s) 0 i then upd_hw (kgd_init_interrupts env (of_nat i)) s else s)
       [0..<unat (get_pipes_per_mec (dqm s))] s"

text \<open>A right shift of an \<open>unsigned long long\<close>: undefined from 64 on, where the result is \<open>undef\<close>.\<close>

definition shr_ull :: "u64 \<Rightarrow> u64 \<Rightarrow> u32 \<Rightarrow> u64" where
  "shr_ull undef w k = (if k < 64 then drop_bit (unat k) w else undef)"

definition pipe_mask :: "device_queue_manager \<Rightarrow> nat \<Rightarrow> u32" where
  "pipe_mask d pipe =
     fold (\<lambda>b m. if cp_queue_bitmap (shared_resources (dev d)) (pipe * unat (get_queues_per_pipe d) + b)
                 then m OR push_bit b 1 else m) [0..<unat (get_queues_per_pipe d)] 0"

definition initialize_nocpsch :: "bool \<Rightarrow> u64 \<Rightarrow> 'h dqm_state \<Rightarrow> int \<times> 'h dqm_state" where
  "initialize_nocpsch kcalloc_ok undef s =
     (if \<not> kcalloc_ok then (- ENOMEM, s)
      else (0, upd_dqm (\<lambda>d. d\<lparr>
         dqm_queues := [], active_queue_count := 0, next_pipe_to_allocate := 0, active_cp_queue_count := 0,
         gws_queue_count := 0, allocated_queues := map (pipe_mask d) [0..<unat (get_pipes_per_mec d)],
         vmid_pasid := (\<lambda>_. 0),
         sdma_bitmap := shr_ull undef (- 1) (64 - get_num_sdma_queues d),
         xgmi_sdma_bitmap := shr_ull undef (- 1) (64 - get_num_xgmi_sdma_queues d)\<rparr>) s))"

definition uninitialize :: "'h dqm_state \<Rightarrow> 'h dqm_state" where
  "uninitialize s = upd_dqm (\<lambda>d. d\<lparr>allocated_queues := []\<rparr>) s"

definition start_nocpsch :: "'h dqm_env \<Rightarrow> 'h dqm_state \<Rightarrow> int \<times> 'h dqm_state" where
  "start_nocpsch env s =
     (let s1 = init_interrupts env s
      in if asic_family (device_info (dev (dqm s1))) = CHIP_HAWAII then hw_call (pm_init env) s1
         else (0, upd_dqm (\<lambda>d. d\<lparr>sched_running := True\<rparr>) s1))"

definition stop_nocpsch :: "'h dqm_env \<Rightarrow> 'h dqm_state \<Rightarrow> int \<times> 'h dqm_state" where
  "stop_nocpsch env s =
     (let s1 = (if asic_family (device_info (dev (dqm s))) = CHIP_HAWAII then upd_hw (pm_uninit env False) s else s)
      in (0, upd_dqm (\<lambda>d. d\<lparr>sched_running := False\<rparr>) s1))"

definition pre_reset :: "'h dqm_state \<Rightarrow> 'h dqm_state" where
  "pre_reset s = upd_dqm (\<lambda>d. d\<lparr>is_resetting := True\<rparr>) s"

text \<open>The queues the hardware scheduler may use: those of the first MEC, one bit each; the loop
  is left at the first one that does not fit in 64 bits.\<close>

fun sched_queue_mask :: "(nat \<Rightarrow> nat) \<Rightarrow> core_shared_resources \<Rightarrow> nat list \<Rightarrow> u64 \<Rightarrow> u64" where
  "sched_queue_mask to_bit r [] m = m"
| "sched_queue_mask to_bit r (i # is) m =
     (let mec = i div unat (num_queue_per_pipe r) div unat (num_pipe_per_mec r)
      in if \<not> cp_queue_bitmap r i then sched_queue_mask to_bit r is m
         else if 0 < mec then sched_queue_mask to_bit r is m
         else if 64 \<le> i then m
         else sched_queue_mask to_bit r is (m OR push_bit (to_bit i) 1))"

definition set_sched_resources :: "'h dqm_env \<Rightarrow> 'h dqm_state \<Rightarrow> int \<times> 'h dqm_state" where
  "set_sched_resources env s =
     (let r = shared_resources (dev (dqm s))
      in hw_call (pm_send_set_resources env (compute_vmid_bitmap r)
           (sched_queue_mask (kgd_queue_mask_bit env) r [0..<OPU_MAX_QUEUES] 0)) s)"

definition initialize_cpsch :: "'h dqm_state \<Rightarrow> int \<times> 'h dqm_state" where
  "initialize_cpsch s =
     (0, upd_dqm (\<lambda>d. d\<lparr>
        dqm_queues := [], active_queue_count := 0, processes_count := 0, active_cp_queue_count := 0,
        gws_queue_count := 0, active_runlist := False,
        sdma_bitmap := (if 64 \<le> get_num_sdma_queues d then - 1 else push_bit (unat (get_num_sdma_queues d)) 1 - 1),
        xgmi_sdma_bitmap :=
          (if 64 \<le> get_num_xgmi_sdma_queues d then - 1 else push_bit (unat (get_num_xgmi_sdma_queues d)) 1 - 1)\<rparr>) s)"

definition start_cpsch :: "'h dqm_env \<Rightarrow> bool \<Rightarrow> 'h dqm_state \<Rightarrow> int \<times> 'h dqm_state" where
  "start_cpsch env kzalloc_ok s =
     (case hw_call (pm_init env) s of (retval, s1) \<Rightarrow>
      if retval \<noteq> 0 then (retval, s1)
      else
     (case set_sched_resources env s1 of (retval, s2) \<Rightarrow>
      if retval \<noteq> 0 then (retval, upd_hw (pm_uninit env False) s2)
      else
     (case opu_gtt_sa_allocate kzalloc_ok (dev (dqm s2)) 8 of (retval, m, dev') \<Rightarrow>
      let s3 = upd_dqm (\<lambda>d. d\<lparr>dev := dev'\<rparr>) s2
      in if retval \<noteq> 0 then (retval, upd_hw (pm_uninit env False) s3)
         else
           let s4 = upd_dqm (\<lambda>d. d\<lparr>fence_mem := m, fence_gpu_addr := mem_gpu_addr m\<rparr>) s3;
               s5 = init_interrupts env s4;
               s6 = upd_dqm (\<lambda>d. d\<lparr>is_hws_hang := False, is_resetting := False, sched_running := True\<rparr>) s5
           in (0, snd (execute_dynamic env s6)))))"

definition stop_cpsch :: "'h dqm_env \<Rightarrow> 'h dqm_state \<Rightarrow> int \<times> 'h dqm_state" where
  "stop_cpsch env s =
     (let s1 = (if \<not> is_hws_hang (dqm s)
                then snd (unmap_queues_cpsch env OPU_UNMAP_QUEUES_FILTER_ALL_QUEUES 0 s) else s);
          hanging = is_hws_hang (dqm s1) \<or> is_resetting (dqm s1);
          s2 = upd_dqm (\<lambda>d. d\<lparr>sched_running := False\<rparr>) s1;
          s3 = upd_hw (pm_release_ib env) s2;
          s4 = upd_dqm (\<lambda>d. d\<lparr>dev := snd (opu_gtt_sa_free (dev d) (fence_mem d))\<rparr>) s3
      in (0, upd_hw (pm_uninit env hanging) s4))"

section \<open>Queues under the hardware scheduler\<close>

abbreviation kq_type :: "'h dqm_state \<Rightarrow> nat \<Rightarrow> opu_queue_type" where
  "kq_type s k \<equiv> qtype (properties (kq_queue (kqs s k)))"

definition create_kernel_queue_cpsch :: "'h dqm_env \<Rightarrow> nat \<Rightarrow> nat \<Rightarrow> 'h dqm_state \<Rightarrow> int \<times> 'h dqm_state" where
  "create_kernel_queue_cpsch env kq p s =
     (if max_num_of_queues_per_device env \<le> total_queue_count (dqm s) then (- EPERM, s)
      else
        let s1 = upd_dqm inc_total s;
            s2 = upd_pdd p (\<lambda>x. x\<lparr>priv_queue_list := kq # priv_queue_list x\<rparr>) s1;
            s3 = upd_dqm (increment_queue_count (kq_type s2 kq)) s2;
            s4 = upd_pdd p (\<lambda>x. x\<lparr>is_debug := True\<rparr>) s3
        in (0, snd (execute_dynamic env s4)))"

definition destroy_kernel_queue_cpsch :: "'h dqm_env \<Rightarrow> nat \<Rightarrow> nat \<Rightarrow> 'h dqm_state \<Rightarrow> 'h dqm_state" where
  "destroy_kernel_queue_cpsch env kq p s =
     (let s1 = upd_pdd p (\<lambda>x. x\<lparr>priv_queue_list := remove1 kq (priv_queue_list x)\<rparr>) s;
          s2 = upd_dqm (decrement_queue_count (kq_type s1 kq)) s1;
          s3 = upd_pdd p (\<lambda>x. x\<lparr>is_debug := False\<rparr>) s2
      in upd_dqm dec_total (snd (execute_all env s3)))"

definition out_deallocate_sdma_queue :: "nat \<Rightarrow> 'h dqm_state \<Rightarrow> 'h dqm_state" where
  "out_deallocate_sdma_queue q s = (if is_sdma (qtype (props s q)) then deallocate_sdma_queue q s else s)"

definition create_queue_cpsch :: "'h dqm_env \<Rightarrow> nat \<Rightarrow> nat \<Rightarrow> 'h dqm_state \<Rightarrow> int \<times> 'h dqm_state" where
  "create_queue_cpsch env q p s =
     (if max_num_of_queues_per_device env \<le> total_queue_count (dqm s) then (- EPERM, s)
      else
     (case (if is_sdma (qtype (props s q)) then allocate_sdma_queue q s else (0, s)) of (retval, s1) \<Rightarrow>
      if retval \<noteq> 0 then (retval, s1)
      else
     (case allocate_doorbell p q s1 of (retval, s2) \<Rightarrow>
      if retval \<noteq> 0 then (retval, out_deallocate_sdma_queue q s2)
      else
      let mgr = mgr_of env s2 q;
          s3 = (if is_sdma (qtype (props s2 q))
                then upd_props q (\<lambda>x. x\<lparr>sdma_vm_addr := asic_init_sdma_vm env (qs s2 q) (pdds s2 p)\<rparr>) s2 else s2);
          s4 = upd_props q (\<lambda>x. x\<lparr>q_tba_addr := tba_addr (pdds s3 p), q_tma_addr := tma_addr (pdds s3 p)\<rparr>) s3
      in case hw_call (allocate_mqd mgr (props s4 q)) s4 of (obj, s5) \<Rightarrow>
      let s6 = upd_q q (\<lambda>x. x\<lparr>mqd_mem_obj := obj\<rparr>) s5
      in case obj of
           None \<Rightarrow> (- ENOMEM, out_deallocate_sdma_queue q (deallocate_doorbell p q s6))
         | Some m \<Rightarrow>
      let s7 = upd_props q (\<lambda>x. x\<lparr>is_evicted := evicted (pdds s6 p) \<noteq> 0\<rparr>) s6
      in case hw_call (init_mqd mgr m (props s7 q)) s7 of ((d, gart, prop'), s8) \<Rightarrow>
      let s9 = upd_q q (\<lambda>x. x\<lparr>mqd := d, gart_mqd_addr := gart, properties := prop'\<rparr>) s8;
          s10 = upd_pdd p (\<lambda>x. x\<lparr>queues_list := q # queues_list x, queue_count := queue_count x + 1\<rparr>) s9;
          s11 = (if is_active (props s10 q)
                 then snd (execute_dynamic env (upd_dqm (increment_queue_count (qtype (props s10 q))) s10)) else s10)
      in (0, upd_dqm inc_total s11))))"

definition destroy_queue_cpsch :: "'h dqm_env \<Rightarrow> nat \<Rightarrow> nat \<Rightarrow> 'h dqm_state \<Rightarrow> int \<times> 'h dqm_state" where
  "destroy_queue_cpsch env p q s =
     (if is_debug (pdds s p) then (- EBUSY, s)
      else
        let sdma_val = sdma_stats env q s;
            mgr = mgr_of env s q;
            s1 = deallocate_doorbell p q s;
            s2 = (if is_sdma (qtype (props s1 q)) then
                    upd_pdd p (\<lambda>x. x\<lparr>sdma_past_activity_counter := sdma_past_activity_counter x + sdma_val\<rparr>)
                      (deallocate_sdma_queue q s1)
                  else s1);
            s3 = upd_pdd p (\<lambda>x. x\<lparr>queues_list := remove1 q (queues_list x), queue_count := queue_count x - 1\<rparr>) s2;
            (retval, s4) =
              (if is_active (props s3 q) then
                 (case execute_dynamic env (upd_dqm (decrement_queue_count (qtype (props s3 q))) s3) of (r, t1) \<Rightarrow>
                  let t2 = (if r = - ETIME then upd_pdd p (\<lambda>x. x\<lparr>reset_wavefronts := True\<rparr>) t1 else t1);
                      t3 = (if is_gws (props t2 q) then
                              upd_pdd p (\<lambda>x. x\<lparr>mapped_gws_queue := False\<rparr>)
                                (upd_dqm (\<lambda>d. d\<lparr>gws_queue_count := gws_queue_count d - 1\<rparr>) t2) else t2)
                  in (r, t3))
               else (0, s3));
            s5 = upd_dqm dec_total s4
        in (retval, upd_hw (free_mqd mgr (mqd (qs s5 q)) (mqd_mem_obj (qs s5 q))) s5))"

section \<open>Cache policy and wave state\<close>

abbreviation APE1_FIXED_BITS_MASK :: u64 where "APE1_FIXED_BITS_MASK \<equiv> 0xFFFF80000000FFFF"
abbreviation APE1_LIMIT_ALIGNMENT :: u64 where "APE1_LIMIT_ALIGNMENT \<equiv> 0xFFFF"

definition set_cache_memory_policy ::
  "'h dqm_env \<Rightarrow> nat \<Rightarrow> cache_policy \<Rightarrow> cache_policy \<Rightarrow> u64 \<Rightarrow> u64 \<Rightarrow> 'h dqm_state \<Rightarrow> bool \<times> 'h dqm_state" where
  "set_cache_memory_policy env p default_policy alternate_policy base sz s =
     (case asic_set_cache_memory_policy env of
        None \<Rightarrow> (True, s)
      | Some f \<Rightarrow>
          let limit = base + sz - 1
          in if sz \<noteq> 0 \<and> (limit \<le> base \<or> base AND APE1_FIXED_BITS_MASK \<noteq> 0 \<or>
                limit AND APE1_FIXED_BITS_MASK \<noteq> APE1_LIMIT_ALIGNMENT)
             then (False, s)
             else
               let s1 = (if sz = 0 then upd_pdd p (\<lambda>x. x\<lparr>sh_mem_ape1_base := 1, sh_mem_ape1_limit := 0\<rparr>) s
                         else upd_pdd p (\<lambda>x. x\<lparr>sh_mem_ape1_base := ucast (drop_bit 16 base),
                                sh_mem_ape1_limit := ucast (drop_bit 16 limit)\<rparr>) s)
               in case f (pdds s1 p) default_policy alternate_policy base sz of (retval, config) \<Rightarrow>
                    let s2 = upd_pdd p (\<lambda>x. x\<lparr>sh_mem_config := config\<rparr>) s1;
                        s3 = (if sched_policy (dqm s2) = OPU_SCHED_POLICY_NO_HWS \<and> vmid (pdds s2 p) \<noteq> 0
                              then program_sh_mem_settings env p s2 else s2)
                    in (retval, s3))"

definition get_wave_state :: "'h dqm_env \<Rightarrow> nat \<Rightarrow> 'h dqm_state \<Rightarrow> int \<times> u32 \<times> u32" where
  "get_wave_state env q s =
     (let mgr = mqd_mgrs env OPU_MQD_TYPE_CP
      in if qtype (props s q) \<noteq> OPU_QUEUE_TYPE_COMPUTE \<or> is_active (props s q) \<or> \<not> cwsr_enabled (dev (dqm s))
         then (- EINVAL, 0, 0)
         else case get_wave_state_mqd mgr of
                None \<Rightarrow> (- EINVAL, 0, 0)
              | Some f \<Rightarrow> f (mqd (qs s q)) (hw s))"

section \<open>Process termination\<close>

text \<open>Without the hardware scheduler the queues are destroyed one by one while the list is not
  empty. \<open>None\<close> is running out of fuel: a destroy that leaves its queue in the list repeats for
  ever.\<close>

fun term_queues_nocpsch :: "'h dqm_env \<Rightarrow> nat \<Rightarrow> nat \<Rightarrow> int \<times> 'h dqm_state \<Rightarrow> (int \<times> 'h dqm_state) option" where
  "term_queues_nocpsch env p 0 rs = None"
| "term_queues_nocpsch env p (Suc fuel) rs =
     (case rs of (retval, s) \<Rightarrow>
      case queues_list (pdds s p) of
        [] \<Rightarrow> Some (retval, s)
      | q # _ \<Rightarrow>
          let mgr = mgr_of env s q
          in case destroy_queue_nocpsch_locked env p q s of (ret, s1) \<Rightarrow>
               term_queues_nocpsch env p fuel
                 (if ret \<noteq> 0 then ret else retval,
                  upd_hw (free_mqd mgr (mqd (qs s1 q)) (mqd_mem_obj (qs s1 q))) s1))"

definition process_termination_nocpsch ::
  "'h dqm_env \<Rightarrow> nat \<Rightarrow> nat \<Rightarrow> 'h dqm_state \<Rightarrow> (int \<times> 'h dqm_state) option" where
  "process_termination_nocpsch env fuel p s =
     (case term_queues_nocpsch env p fuel (0, s) of
        None \<Rightarrow> None
      | Some (retval, s1) \<Rightarrow>
          (case remove_process p s1 of (found, s2) \<Rightarrow>
             Some (retval, if found then opu_dec_compute_active env s2 else s2)))"

definition term_kernel_queue :: "nat \<Rightarrow> nat \<Rightarrow> 'h dqm_state \<Rightarrow> 'h dqm_state" where
  "term_kernel_queue p k s =
     (let s1 = upd_pdd p (\<lambda>x. x\<lparr>priv_queue_list := remove1 k (priv_queue_list x)\<rparr>) s;
          s2 = upd_dqm (decrement_queue_count (kq_type s1 k)) s1;
          s3 = upd_pdd p (\<lambda>x. x\<lparr>is_debug := False\<rparr>) s2
      in upd_dqm dec_total s3)"

definition term_user_queue :: "nat \<Rightarrow> nat \<Rightarrow> 'h dqm_state \<Rightarrow> 'h dqm_state" where
  "term_user_queue p q s =
     (let s1 = (if is_sdma (qtype (props s q)) then deallocate_sdma_queue q s else s);
          s2 = (if is_active (props s1 q) then
                  let t = upd_dqm (decrement_queue_count (qtype (props s1 q))) s1
                  in if is_gws (props s1 q) then
                       upd_pdd p (\<lambda>x. x\<lparr>mapped_gws_queue := False\<rparr>)
                         (upd_dqm (\<lambda>d. d\<lparr>gws_queue_count := gws_queue_count d - 1\<rparr>) t)
                     else t
                else s1)
      in upd_dqm dec_total s2)"

definition term_free_mqd :: "'h dqm_env \<Rightarrow> nat \<Rightarrow> nat \<Rightarrow> 'h dqm_state \<Rightarrow> 'h dqm_state" where
  "term_free_mqd env p q s =
     upd_hw (free_mqd (mgr_of env s q) (mqd (qs s q)) (mqd_mem_obj (qs s q)))
       (upd_pdd p (\<lambda>x. x\<lparr>queues_list := remove1 q (queues_list x), queue_count := queue_count x - 1\<rparr>) s)"

definition process_termination_cpsch :: "'h dqm_env \<Rightarrow> nat \<Rightarrow> 'h dqm_state \<Rightarrow> int \<times> 'h dqm_state" where
  "process_termination_cpsch env p s =
     (let filt = (if priv_queue_list (pdds s p) = [] then OPU_UNMAP_QUEUES_FILTER_DYNAMIC_QUEUES
                  else OPU_UNMAP_QUEUES_FILTER_ALL_QUEUES);
          s1 = fold (term_kernel_queue p) (priv_queue_list (pdds s p)) s;
          s2 = fold (term_user_queue p) (queues_list (pdds s1 p)) s1;
          (found, s3) = remove_process p s2;
          (retval, s4) = execute_queues_cpsch env filt 0 s3;
          s5 = (if \<not> is_hws_hang (dqm s4) \<and> (retval \<noteq> 0 \<or> reset_wavefronts (pdds s4 p)) then
                  upd_pdd p (\<lambda>x. x\<lparr>reset_wavefronts := False\<rparr>)
                    (upd_hw (dbgdev_wave_reset_wavefronts env (pdd_process (pdds s4 p))) s4)
                else s4);
          s6 = fold (term_free_mqd env p) (queues_list (pdds s5 p)) s5
      in (retval, if found then opu_dec_compute_active env s6 else s6))"

section \<open>The manager of a device\<close>

text \<open>The table of operations; \<open>None\<close> is a NULL entry. The operations that may not return give
  an option.\<close>

record 'h device_queue_manager_ops =
  op_create_queue :: "nat \<Rightarrow> nat \<Rightarrow> 'h dqm_state \<Rightarrow> int \<times> 'h dqm_state"
  op_destroy_queue :: "nat \<Rightarrow> nat \<Rightarrow> 'h dqm_state \<Rightarrow> int \<times> 'h dqm_state"
  op_update_queue :: "nat \<Rightarrow> 'h dqm_state \<Rightarrow> int \<times> 'h dqm_state"
  op_register_process :: "bool \<Rightarrow> nat \<Rightarrow> 'h dqm_state \<Rightarrow> int \<times> 'h dqm_state"
  op_unregister_process :: "nat \<Rightarrow> 'h dqm_state \<Rightarrow> int \<times> 'h dqm_state"
  op_create_kernel_queue :: "(nat \<Rightarrow> nat \<Rightarrow> 'h dqm_state \<Rightarrow> int \<times> 'h dqm_state) option"
  op_destroy_kernel_queue :: "(nat \<Rightarrow> nat \<Rightarrow> 'h dqm_state \<Rightarrow> 'h dqm_state) option"
  op_process_termination :: "nat \<Rightarrow> nat \<Rightarrow> 'h dqm_state \<Rightarrow> (int \<times> 'h dqm_state) option"
  op_evict_process_queues :: "nat \<Rightarrow> 'h dqm_state \<Rightarrow> int \<times> 'h dqm_state"
  op_restore_process_queues :: "nat \<Rightarrow> 'h dqm_state \<Rightarrow> int \<times> 'h dqm_state"
  op_start :: "bool \<Rightarrow> 'h dqm_state \<Rightarrow> int \<times> 'h dqm_state"
  op_stop :: "'h dqm_state \<Rightarrow> int \<times> 'h dqm_state"
  op_initialize :: "bool \<Rightarrow> u64 \<Rightarrow> 'h dqm_state \<Rightarrow> int \<times> 'h dqm_state"

definition cpsch_ops :: "'h dqm_env \<Rightarrow> 'h device_queue_manager_ops" where
  "cpsch_ops env = \<lparr>
     op_create_queue = create_queue_cpsch env, op_destroy_queue = destroy_queue_cpsch env,
     op_update_queue = update_queue env, op_register_process = register_process env,
     op_unregister_process = unregister_process env,
     op_create_kernel_queue = Some (create_kernel_queue_cpsch env),
     op_destroy_kernel_queue = Some (destroy_kernel_queue_cpsch env),
     op_process_termination = (\<lambda>fuel p s. Some (process_termination_cpsch env p s)),
     op_evict_process_queues = evict_process_queues_cpsch env,
     op_restore_process_queues = restore_process_queues_cpsch env,
     op_start = start_cpsch env, op_stop = stop_cpsch env, op_initialize = (\<lambda>_ _. initialize_cpsch)\<rparr>"

definition nocpsch_ops :: "'h dqm_env \<Rightarrow> 'h device_queue_manager_ops" where
  "nocpsch_ops env = \<lparr>
     op_create_queue = create_queue_nocpsch env, op_destroy_queue = destroy_queue_nocpsch env,
     op_update_queue = update_queue env, op_register_process = register_process env,
     op_unregister_process = unregister_process env,
     op_create_kernel_queue = None, op_destroy_kernel_queue = None,
     op_process_termination = process_termination_nocpsch env,
     op_evict_process_queues = evict_process_queues_nocpsch env,
     op_restore_process_queues = restore_process_queues_nocpsch env,
     op_start = (\<lambda>_. start_nocpsch env), op_stop = stop_nocpsch env, op_initialize = initialize_nocpsch\<rparr>"

text \<open>The MQD managers are created in the order of their types; the first failure frees those that
  exist and clears their entries.\<close>

fun init_mqd_managers_loop ::
  "(opu_mqd_type \<Rightarrow> 'm option) \<Rightarrow> opu_mqd_type list \<Rightarrow> (opu_mqd_type \<rightharpoonup> 'm) \<Rightarrow> (opu_mqd_type \<rightharpoonup> 'm) option" where
  "init_mqd_managers_loop create [] mgrs = Some mgrs"
| "init_mqd_managers_loop create (t # ts) mgrs =
     (case create t of None \<Rightarrow> None | Some m \<Rightarrow> init_mqd_managers_loop create ts (mgrs(t \<mapsto> m)))"

definition init_mqd_managers :: "(opu_mqd_type \<Rightarrow> 'm option) \<Rightarrow> int \<times> (opu_mqd_type \<rightharpoonup> 'm)" where
  "init_mqd_managers create =
     (case init_mqd_managers_loop create [OPU_MQD_TYPE_HIQ, OPU_MQD_TYPE_CP, OPU_MQD_TYPE_SDMA, OPU_MQD_TYPE_DIQ]
             Map.empty of
        None \<Rightarrow> (- ENOMEM, Map.empty)
      | Some mgrs \<Rightarrow> (0, mgrs))"

definition hiq_sdma_mqd_size :: "'h dqm_env \<Rightarrow> device_queue_manager \<Rightarrow> u32" where
  "hiq_sdma_mqd_size env d =
     mqd_size (mqd_mgrs env OPU_MQD_TYPE_SDMA) * get_num_all_sdma_engines d *
       num_sdma_queues_per_engine (device_info (dev d)) + mqd_size (mqd_mgrs env OPU_MQD_TYPE_HIQ)"

text \<open>The chip families for which the sources name a set of chip-specific operations.\<close>

definition has_asic_ops :: "asic_family \<Rightarrow> bool" where
  "has_asic_ops f \<longleftrightarrow> f \<in> {CHIP_CARRIZO, CHIP_KAVERI, CHIP_HAWAII, CHIP_TONGA, CHIP_FIJI, CHIP_POLARIS10,
     CHIP_POLARIS11, CHIP_POLARIS12, CHIP_VEGAM, CHIP_VEGA10, CHIP_VEGA12, CHIP_VEGA20, CHIP_RAVEN, CHIP_RENOIR,
     CHIP_ARCTURUS, CHIP_ALDEBARAN, CHIP_NAVI10, CHIP_NAVI12, CHIP_NAVI14, CHIP_SIENNA_CICHLID,
     CHIP_NAVY_FLOUNDER, CHIP_VANGOGH, CHIP_DIMGREY_CAVEFISH, CHIP_BEIGE_GOBY, CHIP_YELLOW_CARP}"

definition dqm_policy :: "opu_sched_policy \<Rightarrow> opu_dev \<Rightarrow> opu_sched_policy" where
  "dqm_policy sched_policy_param d =
     (if asic_family (device_info d) = CHIP_HAWAII \<or> asic_family (device_info d) = CHIP_TONGA
      then OPU_SCHED_POLICY_NO_HWS else sched_policy_param)"

definition dqm_ops_of :: "'h dqm_env \<Rightarrow> opu_sched_policy \<Rightarrow> 'h device_queue_manager_ops option" where
  "dqm_ops_of env pol =
     (case pol of
        OPU_SCHED_POLICY_HWS \<Rightarrow> Some (cpsch_ops env)
      | OPU_SCHED_POLICY_HWS_NO_OVERSUBSCRIPTION \<Rightarrow> Some (cpsch_ops env)
      | OPU_SCHED_POLICY_NO_HWS \<Rightarrow> Some (nocpsch_ops env)
      | OPU_SCHED_POLICY_OTHER _ \<Rightarrow> None)"

text \<open>The parameters are the outcomes of the allocations and the MQD managers that can be created;
  the state is the one the new manager is put in.\<close>

definition device_queue_manager_init ::
  "'h dqm_env \<Rightarrow> opu_sched_policy \<Rightarrow> bool \<Rightarrow> bool \<Rightarrow> bool \<Rightarrow> (opu_mqd_type \<Rightarrow> unit option) \<Rightarrow> u64 \<Rightarrow> opu_dev
     \<Rightarrow> 'h dqm_state \<Rightarrow> ('h device_queue_manager_ops \<times> 'h dqm_state) option" where
  "device_queue_manager_init env sched_policy_param kzalloc_ok kcalloc_ok gtt_ok create undef d s =
     (if \<not> kzalloc_ok then None
      else
        let pol = dqm_policy sched_policy_param d
        in case dqm_ops_of env pol of
             None \<Rightarrow> None
           | Some ops \<Rightarrow>
               if \<not> has_asic_ops (asic_family (device_info d)) then None
               else if fst (init_mqd_managers create) \<noteq> 0 then None
               else if \<not> gtt_ok then None
               else case op_initialize ops kcalloc_ok undef (s\<lparr>dqm := zero_dqm\<lparr>dev := d, sched_policy := pol\<rparr>\<rparr>) of
                      (r, s1) \<Rightarrow> if r = 0 then Some (ops, s1) else None)"

definition device_queue_manager_uninit :: "'h dqm_state \<Rightarrow> 'h dqm_state" where
  "device_queue_manager_uninit s = uninitialize s"

text \<open>A page fault of a process evicts its queues on the faulting device.\<close>

definition opu_process_vm_fault ::
  "'h dqm_env \<Rightarrow> 'h device_queue_manager_ops \<Rightarrow> (u32 \<Rightarrow> nat option) \<Rightarrow> u32 \<Rightarrow> 'h dqm_state \<Rightarrow> int \<times> 'h dqm_state" where
  "opu_process_vm_fault env ops lookup_process pasid s =
     (case lookup_process pasid of
        None \<Rightarrow> (- EINVAL, s)
      | Some proc \<Rightarrow>
          (case pdd_of env proc of
             None \<Rightarrow> (0, s)
           | Some p \<Rightarrow> op_evict_process_queues ops p s))"

end
