(* ===== verification/Opu_Dqm_Inv.thy ===== *)
theory Opu_Dqm_Inv
  imports Opu_Dqm_Ops
begin

text \<open>
  The bookkeeping of the device queue manager: what its counters count. Every operation of both
  schedulers keeps the counters equal to what the queue lists hold.
\<close>

section \<open>Sums over the queue lists\<close>

definition lsum :: "(nat \<Rightarrow> nat list) \<Rightarrow> (nat \<Rightarrow> u32) \<Rightarrow> nat list \<Rightarrow> u32" where
  "lsum L g ps = sum_list (map (\<lambda>p. sum_list (map g (L p))) ps)"

lemma sum_list_upd:
  fixes g :: "'a \<Rightarrow> 'w::len word"
  assumes "distinct xs" and "q \<in> set xs"
  shows "sum_list (map (g(q := v)) xs) = sum_list (map g xs) - g q + v"
proof -
  have "sum_list (map (g(q := v)) xs) = v + sum_list (map (g(q := v)) (remove1 q xs))"
    using assms(2) by (subst sum_list_map_remove1 [OF assms(2)]) simp
  also have "map (g(q := v)) (remove1 q xs) = map g (remove1 q xs)"
    using assms(1) by (intro map_cong) auto
  finally have "sum_list (map (g(q := v)) xs) = v + sum_list (map g (remove1 q xs))" .
  moreover have "sum_list (map g xs) = g q + sum_list (map g (remove1 q xs))"
    by (rule sum_list_map_remove1 [OF assms(2)])
  ultimately show ?thesis by (simp only:) simp
qed

lemma sum_list_fresh: "q \<notin> set xs \<Longrightarrow> map (g(q := v)) xs = map g xs"
  by auto

lemma lsum_list:
  assumes "distinct ps" and "p \<in> set ps"
  shows "lsum (L(p := xs)) g ps = lsum L g ps - sum_list (map g (L p)) + sum_list (map g xs)"
proof -
  have "(\<lambda>p'. sum_list (map g ((L(p := xs)) p'))) = (\<lambda>p'. sum_list (map g (L p')))(p := sum_list (map g xs))"
    by auto
  then show ?thesis using sum_list_upd [OF assms] by (simp add: lsum_def)
qed

lemma lsum_list_out: "p \<notin> set ps \<Longrightarrow> lsum (L(p := xs)) g ps = lsum L g ps"
  unfolding lsum_def by (intro arg_cong [where f = sum_list] map_cong) auto

lemma lsum_cons [simp]: "lsum L g (p # ps) = sum_list (map g (L p)) + lsum L g ps"
  by (simp add: lsum_def)

lemma lsum_nil [simp]: "lsum L g [] = 0"
  by (simp add: lsum_def)

lemma lsum_concat: "lsum L g ps = sum_list (map g (concat (map L ps)))"
  by (induction ps) simp_all

lemma lsum_fun:
  "distinct (concat (map L ps)) \<Longrightarrow> q \<in> set (concat (map L ps)) \<Longrightarrow> lsum L (g(q := v)) ps = lsum L g ps - g q + v"
  unfolding lsum_concat by (rule sum_list_upd)

lemma lsum_fresh: "q \<notin> set (concat (map L ps)) \<Longrightarrow> lsum L (g(q := v)) ps = lsum L g ps"
  unfolding lsum_concat by (simp only: sum_list_fresh not_False_eq_True)

lemma lsum_remove1:
  assumes "p \<in> set ps"
  shows "lsum L g (remove1 p ps) = lsum L g ps - sum_list (map g (L p))"
  using sum_list_map_remove1 [OF assms, of "\<lambda>p. sum_list (map g (L p))"] by (simp add: lsum_def)

lemma sum_remove1: "q \<in> set xs \<Longrightarrow> sum_list (map g (remove1 q xs)) = sum_list (map g xs) - (g q :: u32)"
  using sum_list_map_remove1 [of q xs g] by simp

text \<open>Reading a field through an update of one object.\<close>

lemma sel_upd: "(\<lambda>x. f ((m(a := b)) x)) = (\<lambda>x. f (m x))(a := f b)"
  by auto

section \<open>The invariant\<close>

definition w_active :: "queue \<Rightarrow> u32" where
  "w_active q = (if is_active (properties q) then 1 else 0)"

definition w_cp :: "queue \<Rightarrow> u32" where
  "w_cp q = (if is_active (properties q) \<and> cp_type (qtype (properties q)) then 1 else 0)"

definition wk_cp :: "kernel_queue \<Rightarrow> u32" where
  "wk_cp k = (if cp_type (qtype (properties (kq_queue k))) then 1 else 0)"

abbreviation ulists :: "'h dqm_state \<Rightarrow> nat \<Rightarrow> nat list" where "ulists s \<equiv> \<lambda>p. queues_list (pdds s p)"
abbreviation klists :: "'h dqm_state \<Rightarrow> nat \<Rightarrow> nat list" where "klists s \<equiv> \<lambda>p. priv_queue_list (pdds s p)"
abbreviation procs :: "'h dqm_state \<Rightarrow> nat list" where "procs s \<equiv> dqm_queues (dqm s)"
abbreviation qsum :: "(queue \<Rightarrow> u32) \<Rightarrow> 'h dqm_state \<Rightarrow> u32" where
  "qsum w s \<equiv> lsum (ulists s) (\<lambda>q. w (qs s q)) (procs s)"
abbreviation ksum :: "(kernel_queue \<Rightarrow> u32) \<Rightarrow> 'h dqm_state \<Rightarrow> u32" where
  "ksum v s \<equiv> lsum (klists s) (\<lambda>k. v (kqs s k)) (procs s)"
abbreviation all_queues :: "'h dqm_state \<Rightarrow> nat list" where
  "all_queues s \<equiv> concat (map (ulists s) (procs s))"

text \<open>The lists: processes are registered once, a queue is in one list only, a process that is not
  registered has no queues, and the length counter of each process is right.\<close>

definition inv_lists :: "'h dqm_state \<Rightarrow> bool" where
  "inv_lists s \<longleftrightarrow> distinct (procs s) \<and> distinct (all_queues s) \<and>
     (\<forall>p. p \<notin> set (procs s) \<longrightarrow> ulists s p = [] \<and> klists s p = []) \<and>
     (\<forall>p. queue_count (pdds s p) = of_nat (length (ulists s p))) \<and>
     (\<forall>p. distinct (klists s p))"

text \<open>The counters, at their width: active queues, active CP queues, all queues, processes.\<close>

definition inv_counts :: "'h dqm_state \<Rightarrow> bool" where
  "inv_counts s \<longleftrightarrow>
     active_queue_count (dqm s) = qsum w_active s + ksum (\<lambda>_. 1) s \<and>
     active_cp_queue_count (dqm s) = qsum w_cp s + ksum wk_cp s \<and>
     total_queue_count (dqm s) = qsum (\<lambda>_. 1) s + ksum (\<lambda>_. 1) s \<and>
     processes_count (dqm s) = of_nat (length (procs s))"

definition counts_ok :: "'h dqm_state \<Rightarrow> bool" where
  "counts_ok s \<longleftrightarrow> inv_lists s \<and> inv_counts s"

section \<open>Frames\<close>

lemma hw_call_iff: "hw_call f s = (r, t) \<longleftrightarrow> (\<exists>h. f (hw s) = (r, h) \<and> t = s\<lparr>hw := h\<rparr>)"
  by (auto simp: hw_call_def split: prod.splits)

text \<open>Talking to the hardware scheduler touches three flags of the manager and the hardware.\<close>

definition sched_view :: "device_queue_manager \<Rightarrow> device_queue_manager" where
  "sched_view d = d\<lparr>active_runlist := False, is_hws_hang := False, hw_exception_work := False\<rparr>"

definition sched_only :: "'h dqm_state \<Rightarrow> 'h dqm_state \<Rightarrow> bool" where
  "sched_only s t \<longleftrightarrow> pdds t = pdds s \<and> qs t = qs s \<and> kqs t = kqs s \<and> sched_view (dqm t) = sched_view (dqm s)"

lemma sched_view_flags [simp]:
  "sched_view (d\<lparr>active_runlist := a\<rparr>) = sched_view d" "sched_view (d\<lparr>is_hws_hang := b\<rparr>) = sched_view d"
  "sched_view (d\<lparr>hw_exception_work := c\<rparr>) = sched_view d"
  by (simp_all add: sched_view_def)

lemma sched_only_refl: "sched_only s s"
  by (simp add: sched_only_def)

lemma sched_only_trans: "sched_only s t \<Longrightarrow> sched_only t u \<Longrightarrow> sched_only s u"
  by (simp add: sched_only_def)

lemma map_queues_sched_only: "map_queues_cpsch env s = (r, t) \<Longrightarrow> sched_only s t"
  by (auto simp: map_queues_cpsch_def hw_call_iff sched_only_def split: if_splits prod.splits)

lemma unmap_queues_sched_only: "unmap_queues_cpsch env f x s = (r, t) \<Longrightarrow> sched_only s t"
  by (auto simp: unmap_queues_cpsch_def hw_call_iff Let_def sched_only_def split: if_splits prod.splits)

lemma execute_queues_sched_only: "execute_queues_cpsch env f x s = (r, t) \<Longrightarrow> sched_only s t"
  by (auto simp: execute_queues_cpsch_def intro: sched_only_refl unmap_queues_sched_only
      sched_only_trans [OF unmap_queues_sched_only map_queues_sched_only] split: if_splits prod.splits)

lemma sched_only_sel:
  assumes "sched_only s t"
  shows "pdds t = pdds s" "qs t = qs s" "kqs t = kqs s" "procs t = procs s"
    "processes_count (dqm t) = processes_count (dqm s)" "active_queue_count (dqm t) = active_queue_count (dqm s)"
    "active_cp_queue_count (dqm t) = active_cp_queue_count (dqm s)" "gws_queue_count (dqm t) = gws_queue_count (dqm s)"
    "total_queue_count (dqm t) = total_queue_count (dqm s)" "sdma_bitmap (dqm t) = sdma_bitmap (dqm s)"
    "xgmi_sdma_bitmap (dqm t) = xgmi_sdma_bitmap (dqm s)" "dev (dqm t) = dev (dqm s)"
    "sched_running (dqm t) = sched_running (dqm s)" "vmid_pasid (dqm t) = vmid_pasid (dqm s)"
    "allocated_queues (dqm t) = allocated_queues (dqm s)" "sched_policy (dqm t) = sched_policy (dqm s)"
proof -
  have v: "sched_view (dqm t) = sched_view (dqm s)" using assms by (simp add: sched_only_def)
  show "pdds t = pdds s" "qs t = qs s" "kqs t = kqs s" using assms by (simp_all add: sched_only_def)
  show "procs t = procs s"
    "processes_count (dqm t) = processes_count (dqm s)" "active_queue_count (dqm t) = active_queue_count (dqm s)"
    "active_cp_queue_count (dqm t) = active_cp_queue_count (dqm s)" "gws_queue_count (dqm t) = gws_queue_count (dqm s)"
    "total_queue_count (dqm t) = total_queue_count (dqm s)" "sdma_bitmap (dqm t) = sdma_bitmap (dqm s)"
    "xgmi_sdma_bitmap (dqm t) = xgmi_sdma_bitmap (dqm s)" "dev (dqm t) = dev (dqm s)"
    "sched_running (dqm t) = sched_running (dqm s)" "vmid_pasid (dqm t) = vmid_pasid (dqm s)"
    "allocated_queues (dqm t) = allocated_queues (dqm s)" "sched_policy (dqm t) = sched_policy (dqm s)"
    using arg_cong [OF v, of dqm_queues] arg_cong [OF v, of processes_count] arg_cong [OF v, of active_queue_count] arg_cong [OF v, of active_cp_queue_count]
      arg_cong [OF v, of gws_queue_count] arg_cong [OF v, of total_queue_count] arg_cong [OF v, of sdma_bitmap] arg_cong [OF v, of xgmi_sdma_bitmap] arg_cong [OF v, of dev]
      arg_cong [OF v, of sched_running] arg_cong [OF v, of vmid_pasid] arg_cong [OF v, of allocated_queues] arg_cong [OF v, of sched_policy]
    by (simp_all add: sched_view_def)
qed

lemmas execute_sel [simp] = sched_only_sel [OF execute_queues_sched_only [OF prod.collapse [symmetric]]]

text \<open>The allocators touch what their name says.\<close>

lemma count_frame [simp]:
  "dqm_queues (increment_queue_count t d) = dqm_queues d" "dqm_queues (decrement_queue_count t d) = dqm_queues d"
  "processes_count (increment_queue_count t d) = processes_count d"
  "processes_count (decrement_queue_count t d) = processes_count d"
  "total_queue_count (increment_queue_count t d) = total_queue_count d"
  "total_queue_count (decrement_queue_count t d) = total_queue_count d"
  "gws_queue_count (increment_queue_count t d) = gws_queue_count d"
  "gws_queue_count (decrement_queue_count t d) = gws_queue_count d"
  "active_queue_count (increment_queue_count t d) = active_queue_count d + 1"
  "active_queue_count (decrement_queue_count t d) = active_queue_count d - 1"
  "active_cp_queue_count (increment_queue_count t d) = active_cp_queue_count d + (if cp_type t then 1 else 0)"
  "active_cp_queue_count (decrement_queue_count t d) = active_cp_queue_count d - (if cp_type t then 1 else 0)"
  "dev (increment_queue_count t d) = dev d" "dev (decrement_queue_count t d) = dev d"
  "sdma_bitmap (increment_queue_count t d) = sdma_bitmap d" "sdma_bitmap (decrement_queue_count t d) = sdma_bitmap d"
  "xgmi_sdma_bitmap (increment_queue_count t d) = xgmi_sdma_bitmap d"
  "xgmi_sdma_bitmap (decrement_queue_count t d) = xgmi_sdma_bitmap d"
  "sched_running (increment_queue_count t d) = sched_running d"
  "sched_running (decrement_queue_count t d) = sched_running d"
  "is_hws_hang (increment_queue_count t d) = is_hws_hang d" "is_hws_hang (decrement_queue_count t d) = is_hws_hang d"
  by (simp_all add: increment_queue_count_def decrement_queue_count_def Let_def)

text \<open>Two managers with the same counters.\<close>

definition same_counts :: "device_queue_manager \<Rightarrow> device_queue_manager \<Rightarrow> bool" where
  "same_counts d e \<longleftrightarrow> dqm_queues e = dqm_queues d \<and> processes_count e = processes_count d \<and>
     total_queue_count e = total_queue_count d \<and> gws_queue_count e = gws_queue_count d \<and>
     active_queue_count e = active_queue_count d \<and> active_cp_queue_count e = active_cp_queue_count d \<and>
     dev e = dev d \<and> sched_running e = sched_running d \<and> sched_policy e = sched_policy d"

text \<open>A queue whose resources changed but not what the counters see of it.\<close>

definition same_activity :: "queue \<Rightarrow> queue \<Rightarrow> bool" where
  "same_activity x y \<longleftrightarrow> is_active (properties y) = is_active (properties x) \<and>
     qtype (properties y) = qtype (properties x) \<and> is_gws (properties y) = is_gws (properties x) \<and>
     is_evicted (properties y) = is_evicted (properties x) \<and> q_process y = q_process x \<and> gws y = gws x \<and>
     queue_id (properties y) = queue_id (properties x) \<and> q_device y = q_device x"

text \<open>A process whose queue lists did not change.\<close>

definition same_lists :: "opu_process_device \<Rightarrow> opu_process_device \<Rightarrow> bool" where
  "same_lists x y \<longleftrightarrow> queues_list y = queues_list x \<and> priv_queue_list y = priv_queue_list x \<and>
     queue_count y = queue_count x \<and> evicted y = evicted x \<and> is_debug y = is_debug x"

definition resources_only :: "'h dqm_state \<Rightarrow> 'h dqm_state \<Rightarrow> bool" where
  "resources_only s t \<longleftrightarrow> same_counts (dqm s) (dqm t) \<and> (\<forall>p. same_lists (pdds s p) (pdds t p)) \<and>
     (\<forall>q. same_activity (qs s q) (qs t q)) \<and> kqs t = kqs s"

lemmas resources_defs = resources_only_def same_counts_def same_activity_def same_lists_def

lemma resources_only_refl [simp]: "resources_only s s"
  by (simp add: resources_defs)

lemma resources_only_trans: "resources_only s t \<Longrightarrow> resources_only t u \<Longrightarrow> resources_only s u"
  by (simp add: resources_defs)

lemma resources_only_hw [simp]: "resources_only s (t\<lparr>hw := h\<rparr>) = resources_only s t" "resources_only s (upd_hw f t) = resources_only s t"
  by (simp_all add: resources_defs)

lemma inv_weights:
  assumes "resources_only s t"
  shows "qsum w_active t = qsum w_active s" "qsum w_cp t = qsum w_cp s"
    "qsum (\<lambda>_. 1) t = qsum (\<lambda>_. 1) s" "ksum v t = ksum v s" "all_queues t = all_queues s"
    "ulists t = ulists s" "klists t = klists s"
proof -
  show l: "ulists t = ulists s" "klists t = klists s" using assms by (auto simp: resources_defs)
  have p: "procs t = procs s" "kqs t = kqs s" using assms by (auto simp: resources_defs)
  have "(\<lambda>q. w_active (qs t q)) = (\<lambda>q. w_active (qs s q))" "(\<lambda>q. w_cp (qs t q)) = (\<lambda>q. w_cp (qs s q))"
    using assms by (auto simp: resources_defs w_active_def w_cp_def)
  then show "qsum w_active t = qsum w_active s" "qsum w_cp t = qsum w_cp s"
    "qsum (\<lambda>_. 1) t = qsum (\<lambda>_. 1) s" "ksum v t = ksum v s" "all_queues t = all_queues s"
    using l p by simp_all
qed

lemma resources_only_inv:
  assumes "resources_only s t"
  shows "counts_ok t = counts_ok s"
proof -
  note w = inv_weights [OF assms]
  have "inv_lists t = inv_lists s"
    using w(5-7) assms by (simp add: inv_lists_def fun_eq_iff) (simp add: resources_defs)
  moreover have "inv_counts t = inv_counts s"
    using w(1,2,3,4) assms unfolding inv_counts_def w(1,2,3,4) by (simp add: resources_defs)
  ultimately show "counts_ok t = counts_ok s" by (simp add: counts_ok_def)
qed

section \<open>Elementary steps\<close>

text \<open>The counters see a queue only through its activity.\<close>

definition activity_weight :: "(queue \<Rightarrow> u32) \<Rightarrow> bool" where
  "activity_weight w \<longleftrightarrow> (\<forall>x y. same_activity x y \<longrightarrow> w y = w x)"

lemma weights: "activity_weight w_active" "activity_weight w_cp" "activity_weight (\<lambda>_. 1)"
  by (simp_all add: activity_weight_def same_activity_def w_active_def w_cp_def)

lemma lsum_cong: "(\<And>q. q \<in> set (concat (map L ps)) \<Longrightarrow> g q = g' q) \<Longrightarrow> lsum L g ps = lsum L g' ps"
  unfolding lsum_concat by (rule arg_cong [where f = sum_list], rule map_cong) simp_all

abbreviation evicts :: "'h dqm_state \<Rightarrow> nat \<Rightarrow> u32" where "evicts s \<equiv> \<lambda>p. evicted (pdds s p)"
abbreviation qcounts :: "'h dqm_state \<Rightarrow> nat \<Rightarrow> u32" where "qcounts s \<equiv> \<lambda>p. queue_count (pdds s p)"

text \<open>What a step leaves alone: the processes, the kernel queues, every queue but \<open>q\<close>, and of \<open>q\<close> its
  id and its device.\<close>

definition others_same :: "nat \<Rightarrow> 'h dqm_state \<Rightarrow> 'h dqm_state \<Rightarrow> bool" where
  "others_same q s t \<longleftrightarrow> procs t = procs s \<and> processes_count (dqm t) = processes_count (dqm s) \<and> kqs t = kqs s \<and>
     klists t = klists s \<and> evicts t = evicts s \<and> (\<forall>q'. q' \<noteq> q \<longrightarrow> same_activity (qs s q') (qs t q')) \<and>
     queue_id (properties (qs t q)) = queue_id (properties (qs s q)) \<and> q_device (qs t q) = q_device (qs s q)"

text \<open>The counters after a queue of weight \<open>a\<close> was replaced by one of weight \<open>b\<close>.\<close>

definition counts_moved :: "queue option \<Rightarrow> queue option \<Rightarrow> 'h dqm_state \<Rightarrow> 'h dqm_state \<Rightarrow> bool" where
  "counts_moved x y s t \<longleftrightarrow>
     (let v = (\<lambda>w z. case z of None \<Rightarrow> 0 | Some a \<Rightarrow> w a)
      in active_queue_count (dqm t) = active_queue_count (dqm s) - v w_active x + v w_active y \<and>
         active_cp_queue_count (dqm t) = active_cp_queue_count (dqm s) - v w_cp x + v w_cp y \<and>
         total_queue_count (dqm t) = total_queue_count (dqm s) - v (\<lambda>_. 1) x + v (\<lambda>_. 1) y)"

definition step_add :: "nat \<Rightarrow> nat \<Rightarrow> 'h dqm_state \<Rightarrow> 'h dqm_state \<Rightarrow> bool" where
  "step_add p q s t \<longleftrightarrow> others_same q s t \<and> ulists t = (ulists s)(p := q # ulists s p) \<and>
     qcounts t = (qcounts s)(p := qcounts s p + 1) \<and> counts_moved None (Some (qs t q)) s t"

definition step_del :: "nat \<Rightarrow> nat \<Rightarrow> 'h dqm_state \<Rightarrow> 'h dqm_state \<Rightarrow> bool" where
  "step_del p q s t \<longleftrightarrow> others_same q s t \<and> ulists t = (ulists s)(p := remove1 q (ulists s p)) \<and>
     qcounts t = (qcounts s)(p := qcounts s p - 1) \<and> counts_moved (Some (qs s q)) None s t"

definition step_upd :: "nat \<Rightarrow> 'h dqm_state \<Rightarrow> 'h dqm_state \<Rightarrow> bool" where
  "step_upd q s t \<longleftrightarrow> others_same q s t \<and> ulists t = ulists s \<and> qcounts t = qcounts s \<and>
     counts_moved (Some (qs s q)) (Some (qs t q)) s t"

definition step_idle :: "nat \<Rightarrow> 'h dqm_state \<Rightarrow> 'h dqm_state \<Rightarrow> bool" where
  "step_idle q s t \<longleftrightarrow> others_same q s t \<and> ulists t = ulists s \<and> qcounts t = qcounts s \<and> counts_moved None None s t"

lemmas step_defs = step_add_def step_del_def step_upd_def step_idle_def

lemma others_weight:
  "others_same q s t \<Longrightarrow> activity_weight w \<Longrightarrow> q' \<noteq> q \<Longrightarrow> w (qs t q') = w (qs s q')"
  by (simp add: others_same_def activity_weight_def)

lemma in_all_queues: "p \<in> set (procs s) \<Longrightarrow> q \<in> set (ulists s p) \<Longrightarrow> q \<in> set (all_queues s)"
  by auto

lemma distinct_concat_cons:
  assumes "distinct (concat (map L ps))" and "distinct ps" and "p \<in> set ps" and "q \<notin> set (concat (map L ps))"
  shows "distinct (concat (map (L(p := q # L p)) ps))"
  using assms
proof (induction ps)
  case (Cons a ps)
  show ?case
  proof (cases "a = p")
    case True
    then have m: "map (L(p := q # L p)) ps = map L ps" using Cons.prems(2) by auto
    have "concat (map (L(p := q # L p)) (a # ps)) = q # concat (map L (a # ps))"
      by (simp only: list.map concat.simps True m fun_upd_same append_Cons)
    then show ?thesis by (simp only:) (use Cons.prems in simp)
  next
    case False
    then have IH: "distinct (concat (map (L(p := q # L p)) ps))" by (intro Cons.IH) (use Cons.prems in auto)
    have "set (concat (map (L(p := q # L p)) ps)) \<subseteq> insert q (set (concat (map L ps)))" by (auto split: if_splits)
    then have "set (L a) \<inter> set (concat (map (L(p := q # L p)) ps)) = {}" using Cons.prems(1,4) by auto
    with False IH Cons.prems(1) show ?thesis by (simp add: fun_upd_other del: fun_upd_apply)
  qed
qed simp

lemma distinct_concat_disjoint:
  "distinct (concat (map L ps)) \<Longrightarrow> distinct ps \<Longrightarrow> p \<in> set ps \<Longrightarrow> p' \<in> set ps \<Longrightarrow> p \<noteq> p' \<Longrightarrow> set (L p) \<inter> set (L p') = {}"
  by (induction ps) auto

lemma distinct_concat_subset:
  assumes "distinct (concat (map L ps))" and "distinct ps" and "distinct xs" and "set xs \<subseteq> set (L p)"
  shows "distinct (concat (map (L(p := xs)) ps))"
  using assms(1,2)
proof (induction ps)
  case (Cons a ps)
  have "set (concat (map (L(p := xs)) ps)) \<subseteq> set (concat (map L ps))" using assms(4) by (auto split: if_splits)
  moreover have "set ((L(p := xs)) a) \<subseteq> set (L a)" "distinct ((L(p := xs)) a)" using assms(3,4) Cons.prems(1) by auto
  ultimately show ?case using Cons.IH Cons.prems by (auto simp del: fun_upd_apply)
qed simp

lemma inv_lists_procs: "inv_lists s \<Longrightarrow> q \<in> set (ulists s p) \<Longrightarrow> p \<in> set (procs s)"
  by (force simp: inv_lists_def)

lemma inv_lists_distinct: "inv_lists s \<Longrightarrow> distinct (ulists s p)"
  by (cases "p \<in> set (procs s)") (auto simp: inv_lists_def distinct_concat_iff)

lemma qsum_add:
  assumes "step_add p q s t" and "inv_lists s" and "p \<in> set (procs s)" and "q \<notin> set (all_queues s)" and "activity_weight w"
  shows "qsum w t = qsum w s + w (qs t q)"
proof -
  have st: "others_same q s t" "procs t = procs s" "ulists t = (ulists s)(p := q # ulists s p)"
    using assms(1) by (auto simp: step_add_def others_same_def)
  have "lsum (ulists s) (\<lambda>q. w (qs t q)) (procs s) = qsum w s"
  proof (rule lsum_cong)
    fix x assume "x \<in> set (all_queues s)"
    with assms(4) have "x \<noteq> q" by blast
    then show "w (qs t x) = w (qs s x)" by (rule others_weight [OF st(1) assms(5)])
  qed
  then show ?thesis
    using lsum_list [of "procs s" p "ulists s" "q # ulists s p" "\<lambda>q. w (qs t q)"] assms(2,3)
    unfolding st(2,3) by (simp add: inv_lists_def)
qed

lemma qsum_del:
  assumes "step_del p q s t" and "inv_lists s" and "q \<in> set (ulists s p)" and "activity_weight w"
  shows "qsum w t = qsum w s - w (qs s q)"
proof -
  have st: "others_same q s t" "procs t = procs s" "ulists t = (ulists s)(p := remove1 q (ulists s p))"
    using assms(1) by (auto simp: step_del_def others_same_def)
  have p: "p \<in> set (procs s)" by (rule inv_lists_procs [OF assms(2,3)])
  have d: "distinct (procs s)" "distinct (all_queues s)" "distinct (ulists s p)"
    using assms(2) inv_lists_distinct by (auto simp: inv_lists_def)
  have "q \<notin> set (concat (map ((ulists s)(p := remove1 q (ulists s p))) (procs s)))"
  proof
    assume "q \<in> set (concat (map ((ulists s)(p := remove1 q (ulists s p))) (procs s)))"
    then obtain p' where p': "p' \<in> set (procs s)" "q \<in> set (((ulists s)(p := remove1 q (ulists s p))) p')" by auto
    then have "p' \<noteq> p" using d(3) by (auto split: if_splits)
    with p' have "q \<in> set (ulists s p')" by simp
    with distinct_concat_disjoint [OF d(2,1) p p'(1)] assms(3) \<open>p' \<noteq> p\<close> show False by blast
  qed
  then have "qsum w t = lsum ((ulists s)(p := remove1 q (ulists s p))) (\<lambda>q. w (qs s q)) (procs s)"
    unfolding st(2,3) using others_weight [OF st(1) assms(4)] by (intro lsum_cong) metis
  also have "\<dots> = qsum w s - w (qs s q)"
    using lsum_list [OF d(1) p, of "ulists s"] sum_remove1 [OF assms(3), of "\<lambda>q. w (qs s q)"] by simp
  finally show ?thesis .
qed

lemma qsum_upd:
  assumes "others_same q s t" and "ulists t = ulists s" and "inv_lists s" and "q \<in> set (all_queues s)" and "activity_weight w"
  shows "qsum w t = qsum w s - w (qs s q) + w (qs t q)"
proof -
  have "qsum w t = lsum (ulists s) ((\<lambda>q. w (qs s q))(q := w (qs t q))) (procs s)"
    using assms(1,2) others_weight [OF assms(1,5)] by (auto simp: others_same_def intro!: lsum_cong)
  with lsum_fun [of "ulists s" "procs s" q "\<lambda>q. w (qs s q)" "w (qs t q)"] assms(3,4) show ?thesis
    by (simp add: inv_lists_def)
qed

lemma qsum_idle:
  assumes "others_same q s t" and "ulists t = ulists s" and "q \<notin> set (all_queues s)" and "activity_weight w"
  shows "qsum w t = qsum w s"
proof -
  have ps: "procs t = procs s" using assms(1) by (simp add: others_same_def)
  show ?thesis unfolding ps assms(2)
  proof (rule lsum_cong)
    fix x assume "x \<in> set (all_queues s)"
    with assms(3) have "x \<noteq> q" by blast
    then show "w (qs t x) = w (qs s x)" by (rule others_weight [OF assms(1,4)])
  qed
qed

text \<open>The steps keep the invariant.\<close>

lemma inv_countsI:
  assumes "qsum w_active t = a" and "qsum w_cp t = b" and "qsum (\<lambda>_. 1) t = c"
    and "ksum (\<lambda>_. 1) t = d" and "ksum wk_cp t = e" and "length (procs t) = n"
    and "active_queue_count (dqm t) = a + d" and "active_cp_queue_count (dqm t) = b + e"
    and "total_queue_count (dqm t) = c + d" and "processes_count (dqm t) = of_nat n"
  shows "inv_counts t"
  unfolding inv_counts_def assms by simp

lemma ksum_same: "others_same q s t \<Longrightarrow> ksum v t = ksum v s"
  by (simp add: others_same_def)

lemma all_queues_add:
  "set (concat (map (L(p := q # L p)) ps)) \<subseteq> insert q (set (concat (map L ps)))"
  by (auto split: if_splits)

lemma step_add_inv:
  assumes "counts_ok s" and "p \<in> set (procs s)" and "q \<notin> set (all_queues s)" and "step_add p q s t"
  shows "counts_ok t"
proof -
  have l: "inv_lists s" and c: "inv_counts s" using assms(1) by (auto simp: counts_ok_def)
  have st: "others_same q s t" "procs t = procs s" "ulists t = (ulists s)(p := q # ulists s p)"
    "qcounts t = (qcounts s)(p := qcounts s p + 1)" "klists t = klists s"
    "processes_count (dqm t) = processes_count (dqm s)" "counts_moved None (Some (qs t q)) s t"
    using assms(4) by (auto simp: step_add_def others_same_def)
  have "distinct (concat (map ((ulists s)(p := q # ulists s p)) (procs s)))"
    using l assms(2,3) by (intro distinct_concat_cons) (auto simp: inv_lists_def)
  moreover have "qcounts t p' = of_nat (length (ulists t p'))" for p'
    using l fun_cong [OF st(3), of p'] fun_cong [OF st(4), of p'] by (simp add: inv_lists_def)
  moreover have "p' \<notin> set (procs s) \<Longrightarrow> ulists t p' = [] \<and> klists t p' = []" for p'
    using l assms(2) fun_cong [OF st(3), of p'] fun_cong [OF st(5), of p'] by (auto simp: inv_lists_def)
  moreover have "distinct (klists t p')" for p' using l fun_cong [OF st(5), of p'] by (simp add: inv_lists_def)
  ultimately have "inv_lists t" using l st(2,3) by (simp add: inv_lists_def)
  moreover have "inv_counts t"
    by (rule inv_countsI [OF qsum_add [OF assms(4) l assms(2,3) weights(1)] qsum_add [OF assms(4) l assms(2,3) weights(2)] qsum_add [OF assms(4) l assms(2,3) weights(3)]
          ksum_same [OF st(1), of "\<lambda>_. 1"] ksum_same [OF st(1), of wk_cp] arg_cong [OF st(2), of length]])
      (use st(6,7) c in \<open>simp_all add: counts_moved_def inv_counts_def\<close>)
  ultimately show ?thesis by (simp add: counts_ok_def)
qed

lemma step_del_inv:
  assumes "counts_ok s" and "q \<in> set (ulists s p)" and "step_del p q s t"
  shows "counts_ok t"
proof -
  have l: "inv_lists s" and c: "inv_counts s" using assms(1) by (auto simp: counts_ok_def)
  have st: "others_same q s t" "procs t = procs s" "ulists t = (ulists s)(p := remove1 q (ulists s p))"
    "qcounts t = (qcounts s)(p := qcounts s p - 1)" "klists t = klists s"
    "processes_count (dqm t) = processes_count (dqm s)" "counts_moved (Some (qs s q)) None s t"
    using assms(3) by (auto simp: step_del_def others_same_def)
  have "distinct (concat (map ((ulists s)(p := remove1 q (ulists s p))) (procs s)))"
    using l inv_lists_distinct [OF l] set_remove1_subset [of q "ulists s p"]
    by (intro distinct_concat_subset) (auto simp: inv_lists_def)
  moreover have "qcounts t p' = of_nat (length (ulists t p'))" for p'
  proof (cases "p' = p")
    case True
    have "0 < length (ulists s p)" using assms(2) by (cases "ulists s p") auto
    moreover have "qcounts s p = of_nat (length (ulists s p))" using l by (simp add: inv_lists_def)
    ultimately show ?thesis using True assms(2) fun_cong [OF st(3), of p] fun_cong [OF st(4), of p]
      by (cases "length (ulists s p)") (simp_all add: length_remove1)
  next
    case False
    then show ?thesis using l fun_cong [OF st(3), of p'] fun_cong [OF st(4), of p'] by (simp add: inv_lists_def)
  qed
  moreover have "p' \<notin> set (procs s) \<Longrightarrow> ulists t p' = [] \<and> klists t p' = []" for p'
    using l fun_cong [OF st(3), of p'] fun_cong [OF st(5), of p'] by (auto simp: inv_lists_def)
  moreover have "distinct (klists t p')" for p' using l fun_cong [OF st(5), of p'] by (simp add: inv_lists_def)
  ultimately have "inv_lists t" using l st(2,3) by (simp add: inv_lists_def)
  moreover have "inv_counts t"
    by (rule inv_countsI [OF qsum_del [OF assms(3) l assms(2) weights(1)] qsum_del [OF assms(3) l assms(2) weights(2)] qsum_del [OF assms(3) l assms(2) weights(3)]
          ksum_same [OF st(1), of "\<lambda>_. 1"] ksum_same [OF st(1), of wk_cp] arg_cong [OF st(2), of length]])
      (use st(6,7) c in \<open>simp_all add: counts_moved_def inv_counts_def\<close>)
  ultimately show ?thesis by (simp add: counts_ok_def)
qed

lemma lists_same_inv:
  assumes "others_same q s t" and "ulists t = ulists s" and "qcounts t = qcounts s"
  shows "inv_lists t = inv_lists s"
  using assms by (simp add: inv_lists_def others_same_def fun_eq_iff)

lemma step_upd_inv:
  assumes "counts_ok s" and "q \<in> set (all_queues s)" and "step_upd q s t"
  shows "counts_ok t"
proof -
  have l: "inv_lists s" and c: "inv_counts s" using assms(1) by (auto simp: counts_ok_def)
  have st: "others_same q s t" "ulists t = ulists s" "qcounts t = qcounts s"
    "counts_moved (Some (qs s q)) (Some (qs t q)) s t"
    using assms(3) by (auto simp: step_upd_def)
  have p: "procs t = procs s" "processes_count (dqm t) = processes_count (dqm s)" using st(1) by (auto simp: others_same_def)
  note w = qsum_upd [OF st(1,2) l assms(2)]
  have "inv_counts t"
    by (rule inv_countsI [OF w [OF weights(1)] w [OF weights(2)] w [OF weights(3)]
          ksum_same [OF st(1), of "\<lambda>_. 1"] ksum_same [OF st(1), of wk_cp] arg_cong [OF p(1), of length]])
      (use st(4) p(2) c in \<open>simp_all add: counts_moved_def inv_counts_def\<close>)
  then show ?thesis using l lists_same_inv [OF st(1-3)] by (simp add: counts_ok_def)
qed

lemma step_idle_inv:
  assumes "counts_ok s" and "q \<notin> set (all_queues s)" and "step_idle q s t"
  shows "counts_ok t"
proof -
  have l: "inv_lists s" and c: "inv_counts s" using assms(1) by (auto simp: counts_ok_def)
  have st: "others_same q s t" "ulists t = ulists s" "qcounts t = qcounts s" "counts_moved None None s t"
    using assms(3) by (auto simp: step_idle_def)
  have p: "procs t = procs s" "processes_count (dqm t) = processes_count (dqm s)" using st(1) by (auto simp: others_same_def)
  note w = qsum_idle [OF st(1,2) assms(2)]
  have "inv_counts t"
    by (rule inv_countsI [OF w [OF weights(1)] w [OF weights(2)] w [OF weights(3)]
          ksum_same [OF st(1), of "\<lambda>_. 1"] ksum_same [OF st(1), of wk_cp] arg_cong [OF p(1), of length]])
      (use st(4) p(2) c in \<open>simp_all add: counts_moved_def inv_counts_def\<close>)
  then show ?thesis using l lists_same_inv [OF st(1-3)] by (simp add: counts_ok_def)
qed

end
