(* ===== verification/Opu_Dqm_Steps.thy ===== *)
theory Opu_Dqm_Steps
  imports Opu_Dqm_Inv
begin

text \<open>
  Every operation of the device queue manager as a sequence of the elementary steps of
  \<open>Opu_Dqm_Inv\<close>: what it does to the queue lists, to the activity of the queues and to the
  counters, whatever the hardware answers.
\<close>

section \<open>What the MQD managers promise\<close>

text \<open>The managers of user queues set the activity of a queue to \<open>QUEUE_IS_ACTIVE\<close> of its
  properties when they build or update a descriptor.\<close>

definition mqd_active_law :: "'h mqd_manager \<Rightarrow> bool" where
  "mqd_active_law m \<longleftrightarrow>
     (\<forall>obj p h. snd (snd (fst (init_mqd m obj p h))) = p\<lparr>is_active := QUEUE_IS_ACTIVE p\<rparr>) \<and>
     (\<forall>d p h. fst (update_mqd m d p h) = p\<lparr>is_active := QUEUE_IS_ACTIVE p\<rparr>)"

lemma mqd_activeD:
  assumes "mqd_active_law m"
  shows "init_mqd m obj p h = ((d, g, p'), h') \<Longrightarrow> p' = p\<lparr>is_active := QUEUE_IS_ACTIVE p\<rparr>"
    and "update_mqd m d p h = (p', h') \<Longrightarrow> p' = p\<lparr>is_active := QUEUE_IS_ACTIVE p\<rparr>"
proof -
  have "snd (snd (fst (init_mqd m obj p h))) = p\<lparr>is_active := QUEUE_IS_ACTIVE p\<rparr>"
    and "fst (update_mqd m d p h) = p\<lparr>is_active := QUEUE_IS_ACTIVE p\<rparr>"
    using assms unfolding mqd_active_law_def by blast+
  then show "init_mqd m obj p h = ((d, g, p'), h') \<Longrightarrow> p' = p\<lparr>is_active := QUEUE_IS_ACTIVE p\<rparr>"
    and "update_mqd m d p h = (p', h') \<Longrightarrow> p' = p\<lparr>is_active := QUEUE_IS_ACTIVE p\<rparr>" by auto
qed

definition env_ok :: "'h dqm_env \<Rightarrow> bool" where
  "env_ok env \<longleftrightarrow> (\<forall>t. mqd_active_law (mqd_mgrs env t))"

lemma env_okD: "env_ok env \<Longrightarrow> mqd_active_law (mqd_mgrs env t)"
  by (simp add: env_ok_def)

lemma example_env_ok: "env_ok example_dqm_env"
  by (simp add: env_ok_def mqd_active_law_def example_dqm_env_def example_mqd_manager_def)

lemma QUEUE_IS_ACTIVE_evicted [simp]: "is_evicted x \<Longrightarrow> \<not> QUEUE_IS_ACTIVE x"
  by (simp add: QUEUE_IS_ACTIVE_def)

section \<open>The allocators leave the lists and the counters alone\<close>

lemma resources_allocate_doorbell: "allocate_doorbell p q s = (r, t) \<Longrightarrow> resources_only s t"
  by (auto simp: allocate_doorbell_def resources_defs Let_def split: if_splits)

lemma resources_deallocate_doorbell: "resources_only s (deallocate_doorbell p q s)"
  by (auto simp: deallocate_doorbell_def resources_defs)

lemma resources_opu_flush_tlb [simp]: "resources_only s (opu_flush_tlb env p t) = resources_only s t"
  by (simp add: opu_flush_tlb_def)

lemma resources_vmid_fields [simp]:
  "resources_only s (upd_dqm (\<lambda>d. d\<lparr>vmid_pasid := f d\<rparr>) t) = resources_only s t"
  "resources_only s (upd_pdd p (\<lambda>x. x\<lparr>vmid := v\<rparr>) t) = resources_only s t"
  "resources_only s (upd_props q (\<lambda>x. x\<lparr>q_vmid := w\<rparr>) t) = resources_only s t"
  by (simp_all add: resources_defs) (safe; metis)+

lemma resources_allocate_vmid: "allocate_vmid env p q s = (r, t) \<Longrightarrow> resources_only s t"
  by (cases "List.find (\<lambda>i. vmid_pasid (dqm s) i = 0) (vmid_scan (dev (dqm s)))"; cases "kgd_set_scratch_backing_va env")
    (auto simp: allocate_vmid_def Let_def set_pasid_vmid_mapping_def program_sh_mem_settings_def simp del: upd_q_sel upd_pdd_sel upd_dqm_sel)

lemma resources_deallocate_vmid: "resources_only s (deallocate_vmid env p q s)"
  by (auto simp: deallocate_vmid_def resources_defs Let_def)

lemma resources_allocate_hqd: "allocate_hqd q s = (r, t) \<Longrightarrow> resources_only s t"
  by (auto simp: allocate_hqd_def resources_defs split: option.splits if_splits)

lemma resources_deallocate_hqd: "resources_only s (deallocate_hqd q s)"
  by (auto simp: deallocate_hqd_def resources_defs Let_def)

lemma resources_allocate_sdma_queue: "allocate_sdma_queue q s = (r, t) \<Longrightarrow> resources_only s t"
  by (auto simp: allocate_sdma_queue_def resources_defs split: option.splits if_splits)

lemma resources_deallocate_sdma_queue: "resources_only s (deallocate_sdma_queue q s)"
  by (auto simp: deallocate_sdma_queue_def resources_defs)

lemma resources_sched_only: "sched_only s t \<Longrightarrow> resources_only s t"
  using sched_only_sel [of s t] by (simp add: resources_defs)

lemma resources_execute: "execute_queues_cpsch env f x s = (r, t) \<Longrightarrow> resources_only s t"
  by (rule resources_sched_only [OF execute_queues_sched_only])

lemma resources_hw_call: "hw_call f s = (r, t) \<Longrightarrow> resources_only s t"
  by (auto simp: hw_call_iff)

lemma resources_sdma_counter:
  "resources_only s (upd_pdd p (\<lambda>x. x\<lparr>sdma_past_activity_counter := f x\<rparr>) s)"
  by (simp add: resources_defs)

lemma resources_absorb: "resources_only t u \<Longrightarrow> resources_only s u = resources_only s t"
  by (auto simp: resources_defs)

lemmas resources_simps [simp] = resources_deallocate_doorbell [THEN resources_absorb]
  resources_deallocate_vmid [THEN resources_absorb] resources_deallocate_hqd [THEN resources_absorb]
  resources_deallocate_sdma_queue [THEN resources_absorb] resources_sdma_counter [THEN resources_absorb]

section \<open>Composing steps\<close>

lemma step_idle_refl: "step_idle q s s"
  by (simp add: step_defs others_same_def counts_moved_def same_activity_def)

lemma step_idle_trans [trans]: "step_idle q s t \<Longrightarrow> step_idle q t u \<Longrightarrow> step_idle q s u"
  by (simp add: step_defs others_same_def counts_moved_def same_activity_def)

lemma resources_idle: "resources_only s t \<Longrightarrow> step_idle q s t"
  by (simp add: step_defs others_same_def counts_moved_def resources_defs)

lemma idle_add: "step_idle q s t \<Longrightarrow> step_add p q t u \<Longrightarrow> step_add p q s u"
  by (simp add: step_defs others_same_def counts_moved_def same_activity_def fun_eq_iff)

lemma add_resources: "step_add p q s t \<Longrightarrow> resources_only t u \<Longrightarrow> step_add p q s u"
  by (simp add: step_defs others_same_def counts_moved_def resources_defs fun_eq_iff w_active_def w_cp_def)

lemma resources_del: "resources_only s t \<Longrightarrow> step_del p q t u \<Longrightarrow> step_del p q s u"
  by (simp add: step_defs others_same_def counts_moved_def resources_defs fun_eq_iff w_active_def w_cp_def)

lemma del_idle: "step_del p q s t \<Longrightarrow> step_idle q t u \<Longrightarrow> step_del p q s u"
  by (simp add: step_defs others_same_def counts_moved_def same_activity_def fun_eq_iff w_active_def w_cp_def)

lemma resources_upd: "resources_only s t \<Longrightarrow> step_upd q t u \<Longrightarrow> step_upd q s u"
  by (simp add: step_defs others_same_def counts_moved_def resources_defs fun_eq_iff w_active_def w_cp_def)

lemma upd_resources: "step_upd q s t \<Longrightarrow> resources_only t u \<Longrightarrow> step_upd q s u"
  by (simp add: step_defs others_same_def counts_moved_def resources_defs fun_eq_iff w_active_def w_cp_def)

text \<open>Elementary updates.\<close>

lemma idle_upd_q [simp]:
  "queue_id (properties (f (qs s q))) = queue_id (props s q) \<Longrightarrow> q_device (f (qs s q)) = q_device (qs s q) \<Longrightarrow>
   step_idle q s (upd_q q f s)"
  by (simp add: step_defs others_same_def counts_moved_def same_activity_def)

lemma idle_hw [simp]: "step_idle q s (upd_hw f s)"
  by (simp add: step_defs others_same_def counts_moved_def same_activity_def)


section \<open>Creating a queue under the hardware scheduler\<close>

text \<open>The last part of the creation: the queue enters the list and the counters.\<close>

lemma step_add_intro:
  assumes "ulists t = (ulists s)(p := q # ulists s p)" and "qcounts t = (qcounts s)(p := qcounts s p + 1)"
    and "klists t = klists s" "evicts t = evicts s" "qs t = qs s" "kqs t = kqs s" "procs t = procs s"
    and "processes_count (dqm t) = processes_count (dqm s)"
    and "active_queue_count (dqm t) = active_queue_count (dqm s) + w_active (qs s q)"
    and "active_cp_queue_count (dqm t) = active_cp_queue_count (dqm s) + w_cp (qs s q)"
    and "total_queue_count (dqm t) = total_queue_count (dqm s) + 1"
  shows "step_add p q s t"
  using assms by (simp add: step_defs others_same_def counts_moved_def same_activity_def)

lemma resources_out_sdma: "resources_only s (out_deallocate_sdma_queue q s)"
  by (simp add: out_deallocate_sdma_queue_def resources_deallocate_sdma_queue)

lemma create_cpsch_finish:
  assumes s1: "s1 = upd_pdd p (\<lambda>x. x\<lparr>queues_list := q # queues_list x, queue_count := queue_count x + 1\<rparr>) s"
    and s2: "s2 = (if is_active (props s1 q)
                 then snd (execute_dynamic env (upd_dqm (increment_queue_count (qtype (props s1 q))) s1)) else s1)"
  shows "step_add p q s (upd_dqm inc_total s2)" and "qs (upd_dqm inc_total s2) = qs s"
  by (auto simp: s2 s1 w_active_def w_cp_def intro!: step_add_intro)

lemma create_queue_cpsch_cases:
  assumes "env_ok env" and "create_queue_cpsch env q p s = (r, t)"
  obtains (fail) "r \<noteq> 0" and "step_idle q s t"
    | (ok) "r = 0" and "step_add p q s t" and "is_evicted (props t q) \<longleftrightarrow> evicts s p \<noteq> 0"
        and "is_active (props t q) = QUEUE_IS_ACTIVE (props t q)"
proof (cases "max_num_of_queues_per_device env \<le> total_queue_count (dqm s)")
  case True
  then show ?thesis using assms(2) fail step_idle_refl by (auto simp: create_queue_cpsch_def)
next
  case F0: False
  obtain r1 s1 where 1: "(if is_sdma (qtype (props s q)) then allocate_sdma_queue q s else (0, s)) = (r1, s1)" by fastforce
  then have R1: "resources_only s s1" by (auto split: if_splits intro: resources_allocate_sdma_queue)
  obtain r2 s2 where 2: "allocate_doorbell p q s1 = (r2, s2)" by fastforce
  note R2 = resources_only_trans [OF R1 resources_allocate_doorbell [OF 2]]
  show ?thesis
  proof (cases "r1 = 0 \<and> r2 = 0")
    case False
    then have "r \<noteq> 0 \<and> (t = s1 \<or> t = out_deallocate_sdma_queue q s2)"
      using assms(2) F0 1 2 by (auto simp: create_queue_cpsch_def split: if_splits)
    with fail R1 resources_only_trans [OF R2 resources_out_sdma] show ?thesis by (metis resources_idle)
  next
    case True
    define s3 where "s3 = (if is_sdma (qtype (props s2 q))
      then upd_props q (\<lambda>x. x\<lparr>sdma_vm_addr := asic_init_sdma_vm env (qs s2 q) (pdds s2 p)\<rparr>) s2 else s2)"
    define s4 where "s4 = upd_props q (\<lambda>x. x\<lparr>q_tba_addr := tba_addr (pdds s3 p), q_tma_addr := tma_addr (pdds s3 p)\<rparr>) s3"
    obtain obj s5 where 5: "hw_call (allocate_mqd (mgr_of env s2 q) (props s4 q)) s4 = (obj, s5)" by fastforce
    define s6 where "s6 = upd_q q (\<lambda>x. x\<lparr>mqd_mem_obj := obj\<rparr>) s5"
    have "step_idle q s2 s3" "step_idle q s3 s4" "step_idle q s5 s6" by (simp_all add: s3_def s4_def s6_def step_idle_refl)
    then have I6: "step_idle q s s6"
      using resources_idle [OF R2] resources_idle [OF resources_hw_call [OF 5]] by (blast intro: step_idle_trans)
    note u = assms(2) F0 1 2 True 5 s3_def s4_def s6_def
    show ?thesis
    proof (cases obj)
      case None
      then have "r = - ENOMEM" "t = out_deallocate_sdma_queue q (deallocate_doorbell p q s6)"
        using u by (simp_all add: create_queue_cpsch_def Let_def)
      moreover have "resources_only s6 (out_deallocate_sdma_queue q (deallocate_doorbell p q s6))"
        by (rule resources_only_trans [OF resources_deallocate_doorbell resources_out_sdma])
      ultimately show ?thesis using fail step_idle_trans [OF I6 resources_idle] by simp
    next
      case (Some m)
      define s7 where "s7 = upd_props q (\<lambda>x. x\<lparr>is_evicted := evicted (pdds s6 p) \<noteq> 0\<rparr>) s6"
      obtain d g prop' s8 where 8: "hw_call (init_mqd (mgr_of env s2 q) m (props s7 q)) s7 = ((d, g, prop'), s8)"
        by (metis prod_cases3 surj_pair)
      define s9 where "s9 = upd_q q (\<lambda>x. x\<lparr>mqd := d, gart_mqd_addr := g, properties := prop'\<rparr>) s8"
      have p9: "props s9 q = (props s7 q)\<lparr>is_active := QUEUE_IS_ACTIVE (props s7 q)\<rparr>"
        using 8 mqd_activeD(1) [OF env_okD [OF assms(1)]] by (auto simp: s9_def hw_call_iff)
      then have "queue_id prop' = queue_id (props s8 q)" using hw_call_frame(3) [OF 8] by (simp add: s9_def)
      then have "step_idle q s6 s7" "step_idle q s8 s9" by (simp_all add: s7_def s9_def)
      then have I9: "step_idle q s s9"
        using I6 resources_idle [OF resources_hw_call [OF 8]] by (blast intro: step_idle_trans)
      note fin = create_cpsch_finish [OF refl refl, of p q s9 env]
      have T: "r1 = 0" "r2 = 0" using True by simp_all
      have "create_queue_cpsch env q p s = (0, upd_dqm inc_total
          (let s10 = upd_pdd p (\<lambda>x. x\<lparr>queues_list := q # queues_list x, queue_count := queue_count x + 1\<rparr>) s9
           in if is_active (props s10 q) then snd (execute_dynamic env (upd_dqm (increment_queue_count (qtype (props s10 q))) s10))
              else s10))"
        unfolding create_queue_cpsch_def
        by (simp only: Let_def F0 1 2 T 5 8 Some if_False if_True prod.case option.case simp_thms s3_def [symmetric]
            s4_def [symmetric] s6_def [unfolded Some, symmetric] s7_def [symmetric] s9_def [symmetric])
      then have rt: "r = 0" "step_add p q s9 t" "qs t = qs s9"
        using fin assms(2) by (simp_all add: Let_def)
      have "evicts s6 p = evicts s p" using I6 by (simp add: step_defs others_same_def fun_eq_iff)
      then have "is_evicted (props t q) \<longleftrightarrow> evicts s p \<noteq> 0" "is_active (props t q) = QUEUE_IS_ACTIVE (props t q)"
        using rt(3) p9 by (simp_all add: s7_def QUEUE_IS_ACTIVE_def)
      then show ?thesis using ok rt(1) idle_add [OF I9 rt(2)] by blast
    qed
  qed
qed

section \<open>Destroying a queue under the hardware scheduler\<close>

lemma step_del_intro:
  assumes "ulists t = (ulists s)(p := remove1 q (ulists s p))" and "qcounts t = (qcounts s)(p := qcounts s p - 1)"
    and "klists t = klists s" "evicts t = evicts s" "\<And>x. same_activity (qs s x) (qs t x)" "kqs t = kqs s" "procs t = procs s"
    and "processes_count (dqm t) = processes_count (dqm s)"
    and "active_queue_count (dqm t) = active_queue_count (dqm s) - w_active (qs s q)"
    and "active_cp_queue_count (dqm t) = active_cp_queue_count (dqm s) - w_cp (qs s q)"
    and "total_queue_count (dqm t) = total_queue_count (dqm s) - 1"
  shows "step_del p q s t"
proof -
  have "queue_id (props t q) = queue_id (props s q)" "q_device (qs t q) = q_device (qs s q)"
    using assms(5) [of q] by (simp_all add: same_activity_def)
  then show ?thesis using assms by (simp add: step_defs others_same_def counts_moved_def)
qed

lemma same_activity_refl [simp]: "same_activity x x"
  by (simp add: same_activity_def)

lemma destroy_queue_cpsch_cases:
  assumes "destroy_queue_cpsch env p q s = (r, t)"
  obtains (busy) "is_debug (pdds s p)" "r = - EBUSY" "t = s"
    | (gone) "\<not> is_debug (pdds s p)" and "step_del p q s t"
proof (cases "is_debug (pdds s p)")
  case True
  then have "(- EBUSY, s) = (r, t)" using assms by (simp add: destroy_queue_cpsch_def)
  then show ?thesis by (intro busy [OF True]) simp_all
next
  case False
  define s1 where "s1 = deallocate_doorbell p q s"
  define s2 where "s2 = (if is_sdma (qtype (props s1 q)) then
      upd_pdd p (\<lambda>x. x\<lparr>sdma_past_activity_counter := sdma_past_activity_counter x + sdma_stats env q s\<rparr>)
        (deallocate_sdma_queue q s1) else s1)"
  have R: "resources_only s s2"
    by (simp add: s2_def s1_def)
  have "step_del p q s2 (snd (destroy_queue_cpsch env p q s))"
    using False by (intro step_del_intro)
      (simp_all add: destroy_queue_cpsch_def Let_def w_active_def w_cp_def case_prod_unfold fun_eq_iff flip: s1_def s2_def)
  then show ?thesis using False gone resources_del [OF R] assms by simp
qed

section \<open>Updating a queue\<close>

lemmas unmap_sel [simp] = sched_only_sel [OF unmap_queues_sched_only [OF prod.collapse [symmetric]]]
lemmas map_sel [simp] = sched_only_sel [OF map_queues_sched_only [OF prod.collapse [symmetric]]]

lemma update_mqd_law:
  "env_ok env \<Longrightarrow> fst (hw_call (update_mqd (mqd_mgrs env ty) d x) s) = x\<lparr>is_active := QUEUE_IS_ACTIVE x\<rparr>"
  using mqd_activeD(2) [OF env_okD] by (auto simp: hw_call_def split: prod.split)

lemma step_upd_intro:
  assumes "ulists t = ulists s" "qcounts t = qcounts s" "klists t = klists s" "evicts t = evicts s" "kqs t = kqs s"
    and "\<And>x. x \<noteq> q \<Longrightarrow> same_activity (qs s x) (qs t x)" and "procs t = procs s"
    and "processes_count (dqm t) = processes_count (dqm s)"
    and "active_queue_count (dqm t) = active_queue_count (dqm s) - w_active (qs s q) + w_active (qs t q)"
    and "active_cp_queue_count (dqm t) = active_cp_queue_count (dqm s) - w_cp (qs s q) + w_cp (qs t q)"
    and "total_queue_count (dqm t) = total_queue_count (dqm s)"
    and "queue_id (props t q) = queue_id (props s q)" "q_device (qs t q) = q_device (qs s q)"
  shows "step_upd q s t"
  using assms by (simp add: step_defs others_same_def counts_moved_def)

lemma QUEUE_IS_ACTIVE_update [simp]: "QUEUE_IS_ACTIVE (x\<lparr>is_active := a\<rparr>) = QUEUE_IS_ACTIVE x"
  "QUEUE_IS_ACTIVE (x\<lparr>is_gws := a\<rparr>) = QUEUE_IS_ACTIVE x"
  by (simp_all add: QUEUE_IS_ACTIVE_def)

lemma update_queue_count_sel [simp]:
  "pdds (update_queue_count a q s) = pdds s" "qs (update_queue_count a q s) = qs s"
  "kqs (update_queue_count a q s) = kqs s" "procs (update_queue_count a q s) = procs s"
  "processes_count (dqm (update_queue_count a q s)) = processes_count (dqm s)"
  "total_queue_count (dqm (update_queue_count a q s)) = total_queue_count (dqm s)"
  "active_queue_count (dqm (update_queue_count a q s)) =
     active_queue_count (dqm s) - (if a then 1 else 0) + w_active (qs s q)"
  "active_cp_queue_count (dqm (update_queue_count a q s)) =
     active_cp_queue_count (dqm s) - (if a \<and> cp_type (qtype (props s q)) then 1 else 0) + w_cp (qs s q)"
  by (auto simp: update_queue_count_def w_active_def w_cp_def)

lemma update_queue_gws_sel [simp]:
  "ulists (update_queue_gws p q s) = ulists s" "klists (update_queue_gws p q s) = klists s"
  "qcounts (update_queue_gws p q s) = qcounts s" "evicts (update_queue_gws p q s) = evicts s"
  "kqs (update_queue_gws p q s) = kqs s" "procs (update_queue_gws p q s) = procs s"
  "processes_count (dqm (update_queue_gws p q s)) = processes_count (dqm s)"
  "total_queue_count (dqm (update_queue_gws p q s)) = total_queue_count (dqm s)"
  "active_queue_count (dqm (update_queue_gws p q s)) = active_queue_count (dqm s)"
  "active_cp_queue_count (dqm (update_queue_gws p q s)) = active_cp_queue_count (dqm s)"
  "is_active (props (update_queue_gws p q s) q) = is_active (props s q)"
  "qtype (props (update_queue_gws p q s) q) = qtype (props s q)"
  "is_evicted (props (update_queue_gws p q s) q) = is_evicted (props s q)"
  "queue_id (props (update_queue_gws p q s) q) = queue_id (props s q)" "q_device (qs (update_queue_gws p q s) q) = q_device (qs s q)"
  "x \<noteq> q \<Longrightarrow> qs (update_queue_gws p q s) x = qs s x"
  by (auto simp: update_queue_gws_def)

text \<open>What the descriptor update and the counters do to the state, before the queue is mapped again.\<close>

definition update_core :: "nat \<Rightarrow> nat \<Rightarrow> 'h dqm_state \<Rightarrow> 'h dqm_state" where
  "update_core p q s = update_queue_gws p q (update_queue_count (is_active (props s q)) q
     (upd_props q (\<lambda>x. x\<lparr>is_active := QUEUE_IS_ACTIVE x\<rparr>) s))"

lemma update_core_step: "step_upd q s (update_core p q s)"
  unfolding update_core_def
  by (intro step_upd_intro) (simp_all add: w_active_def w_cp_def del: fun_upd_apply, simp_all add: w_active_def w_cp_def)

lemma update_core_props:
  "is_evicted (props (update_core p q s) q) = is_evicted (props s q)"
  "is_active (props (update_core p q s) q) = QUEUE_IS_ACTIVE (props s q)"
  by (simp_all add: update_core_def)

lemma resources_qs:
  "unmap_queues_cpsch env f x s = (r, t) \<Longrightarrow> resources_only s t \<and> qs t = qs s"
  "map_queues_cpsch env s = (r, t) \<Longrightarrow> resources_only s t \<and> qs t = qs s"
  "hw_call g s = (v, t) \<Longrightarrow> resources_only s t \<and> qs t = qs s"
proof -
  assume "unmap_queues_cpsch env f x s = (r, t)"
  then have "sched_only s t" by (rule unmap_queues_sched_only)
  then show "resources_only s t \<and> qs t = qs s" by (simp add: resources_sched_only sched_only_sel)
next
  assume "map_queues_cpsch env s = (r, t)"
  then have "sched_only s t" by (rule map_queues_sched_only)
  then show "resources_only s t \<and> qs t = qs s" by (simp add: resources_sched_only sched_only_sel)
next
  assume "hw_call g s = (v, t)"
  then show "resources_only s t \<and> qs t = qs s" by (simp add: resources_hw_call hw_call_frame(3))
qed

lemma update_queue_cases:
  assumes "env_ok env" and u: "update_queue env q s = (r, t)"
  obtains (same) "resources_only s t \<and> qs t = qs s"
    | (updated) p s1 where "resources_only s s1 \<and> qs s1 = qs s"
        and "resources_only (update_core p q s1) t \<and> qs t = qs (update_core p q s1)"
proof (cases "pdd_of env (q_process (qs s q))")
  case None
  then show ?thesis using u same by (simp add: update_queue_def)
next
  case (Some p)
  let ?hws = "sched_policy (dqm s) \<noteq> OPU_SCHED_POLICY_NO_HWS"
  let ?user = "user_queue_type (qtype (props s q))"
  obtain r1 s1 where E1: "(if ?hws then unmap_queues_cpsch env OPU_UNMAP_QUEUES_FILTER_DYNAMIC_QUEUES 0 s
      else if is_active (props s q) \<and> ?user
      then hw_call (destroy_mqd (mgr_of env s q) (mqd (qs s q)) OPU_PREEMPT_TYPE_WAVEFRONT_DRAIN
             (q_pipe (qs s q)) (q_queue (qs s q))) s else (0, s)) = (r1, s1)" by fastforce
  then have R1: "resources_only s s1 \<and> qs s1 = qs s"
    by (auto split: if_splits dest: resources_qs)
  let ?stopped = "sched_policy (dqm s) = OPU_SCHED_POLICY_NO_HWS \<and> is_active (props s q) \<and> ?user \<and> \<not> sched_running (dqm s)"
  consider "?stopped" | "\<not> ?stopped" "r1 \<noteq> 0" | "\<not> ?stopped" "r1 = 0" by blast
  then show ?thesis
  proof cases
    case 1
    then have "t = s" using u Some unfolding update_queue_def Let_def
      by (simp only: option.case if_True simp_thms prod.inject)
    then show ?thesis using same by simp
  next
    case F: 2
    then have "t = s1" using u unfolding update_queue_def Let_def
      by (simp only: Some E1 option.case prod.case if_False if_True simp_thms prod.inject)
    then show ?thesis using R1 same by simp
  next
    case F: 3
    obtain prop' s2 where 2: "hw_call (update_mqd (mgr_of env s q) (mqd (qs s1 q)) (props s1 q)) s1 = (prop', s2)"
      by fastforce
    have R2: "resources_only s s2 \<and> qs s2 = qs s"
      using R1 resources_qs(3) [OF 2] resources_only_trans by fastforce
    have "prop' = (props s1 q)\<lparr>is_active := QUEUE_IS_ACTIVE (props s1 q)\<rparr>"
      using update_mqd_law [OF assms(1)] 2 by (metis fst_conv)
    then have eq: "update_queue_gws p q (update_queue_count (is_active (props s q)) q
        (upd_q q (\<lambda>x. x\<lparr>properties := prop'\<rparr>) s2)) = update_core p q s2"
      using R1 R2 by (simp add: update_core_def upd_q_def)
    have "(if ?hws then map_queues_cpsch env (update_core p q s2)
           else if is_active (props (update_core p q s2) q) \<and> user_queue_type (qtype (props (update_core p q s2) q)) then
             (if \<not> mm_is_current env (q_process (qs (update_core p q s2) q)) then (- EFAULT, update_core p q s2)
              else hw_call (load_mqd (mgr_of env s q) (mqd (qs (update_core p q s2) q)) (q_pipe (qs (update_core p q s2) q))
                     (q_queue (qs (update_core p q s2) q)) (props (update_core p q s2) q)) (update_core p q s2))
           else (r1, update_core p q s2)) = (r, t)"
      using u unfolding update_queue_def Let_def
      by (simp only: Some F E1 2 eq option.case prod.case if_False if_True simp_thms)
    then have "resources_only (update_core p q s2) t \<and> qs t = qs (update_core p q s2)"
      by (auto split: if_splits dest: resources_qs)
    with R2 show ?thesis by (rule updated)
  qed
qed

lemma resources_step_upd: "resources_only s t \<Longrightarrow> step_upd q s t"
  by (simp add: step_defs others_same_def counts_moved_def resources_defs w_active_def w_cp_def)

lemma update_queue_step:
  assumes "env_ok env" and "update_queue env q s = (r, t)"
  shows "step_upd q s t" and "is_evicted (props t q) = is_evicted (props s q)"
    and "is_active (props t q) \<Longrightarrow> is_active (props s q) \<or> \<not> is_evicted (props s q)"
proof -
  have "step_upd q s t \<and> is_evicted (props t q) = is_evicted (props s q) \<and>
      (is_active (props t q) \<longrightarrow> is_active (props s q) \<or> \<not> is_evicted (props s q))"
    using assms
  proof (cases rule: update_queue_cases)
    case same
    then show ?thesis by (simp add: resources_step_upd)
  next
    case (updated p s1)
    then have "step_upd q s t" using update_core_step [of q s1 p] by (blast intro: resources_upd upd_resources)
    then show ?thesis using updated by (auto simp: update_core_props)
  qed
  then show "step_upd q s t" and "is_evicted (props t q) = is_evicted (props s q)"
    and "is_active (props t q) \<Longrightarrow> is_active (props s q) \<or> \<not> is_evicted (props s q)" by auto
qed

section \<open>The loops over the queues of a process\<close>

text \<open>A loop that updates each queue of a list once, as a step each, keeps the counters right and
  leaves the other queues alone.\<close>

lemma step_upd_lists: "step_upd q s t \<Longrightarrow> all_queues t = all_queues s \<and> ulists t = ulists s \<and> evicts t = evicts s \<and>
    procs t = procs s \<and> klists t = klists s \<and> kqs t = kqs s"
  by (simp add: step_defs others_same_def)

lemma fold_step_upd:
  fixes pr :: "'b \<Rightarrow> 'h dqm_state"
  assumes "\<And>q z. P (qs (pr z) q) \<Longrightarrow> step_upd q (pr z) (pr (f q z)) \<and> Q (qs (pr z) q) (qs (pr (f q z)) q) \<and>
      (\<forall>x. x \<noteq> q \<longrightarrow> qs (pr (f q z)) x = qs (pr z) x)"
    and "counts_ok (pr z)" and "distinct xs" and "set xs \<subseteq> set (all_queues (pr z))" and "\<forall>q\<in>set xs. P (qs (pr z) q)"
  shows "counts_ok (pr (fold f xs z)) \<and> ulists (pr (fold f xs z)) = ulists (pr z) \<and>
      evicts (pr (fold f xs z)) = evicts (pr z) \<and> procs (pr (fold f xs z)) = procs (pr z) \<and>
      klists (pr (fold f xs z)) = klists (pr z) \<and> kqs (pr (fold f xs z)) = kqs (pr z) \<and>
      (\<forall>q\<in>set xs. Q (qs (pr z) q) (qs (pr (fold f xs z)) q)) \<and>
      (\<forall>x. x \<notin> set xs \<longrightarrow> qs (pr (fold f xs z)) x = qs (pr z) x)"
  using assms(2-)
proof (induction xs arbitrary: z)
  case (Cons q xs)
  let ?z = "f q z"
  have f: "step_upd q (pr z) (pr ?z)" "Q (qs (pr z) q) (qs (pr ?z) q)" "\<forall>x. x \<noteq> q \<longrightarrow> qs (pr ?z) x = qs (pr z) x"
    using assms(1) [of z q] Cons.prems(4) by auto
  have "counts_ok (pr ?z)" using step_upd_inv [OF Cons.prems(1) _ f(1)] Cons.prems(3) by simp
  moreover have same: "\<forall>x\<in>set xs. qs (pr ?z) x = qs (pr z) x" using Cons.prems(2) f(3) by auto
  ultimately have "counts_ok (pr (fold f xs ?z)) \<and> ulists (pr (fold f xs ?z)) = ulists (pr ?z) \<and>
      evicts (pr (fold f xs ?z)) = evicts (pr ?z) \<and> procs (pr (fold f xs ?z)) = procs (pr ?z) \<and>
      klists (pr (fold f xs ?z)) = klists (pr ?z) \<and> kqs (pr (fold f xs ?z)) = kqs (pr ?z) \<and>
      (\<forall>x\<in>set xs. Q (qs (pr ?z) x) (qs (pr (fold f xs ?z)) x)) \<and>
      (\<forall>x. x \<notin> set xs \<longrightarrow> qs (pr (fold f xs ?z)) x = qs (pr ?z) x)"
    using Cons.prems(2-4) step_upd_lists [OF f(1)] by (intro Cons.IH) auto
  then show ?case using step_upd_lists [OF f(1)] f(2,3) Cons.prems(2) same by simp
qed simp

definition evicted_by :: "queue \<Rightarrow> queue \<Rightarrow> bool" where
  "evicted_by x y \<longleftrightarrow> properties y = (properties x)\<lparr>is_evicted := True, is_active := False\<rparr>"

definition restored_by :: "queue \<Rightarrow> queue \<Rightarrow> bool" where
  "restored_by x y \<longleftrightarrow> properties y = (properties x)\<lparr>is_evicted := False, is_active := QUEUE_IS_ACTIVE ((properties x)\<lparr>is_evicted := False\<rparr>)\<rparr>"

lemmas loop_defs = step_upd_def others_same_def counts_moved_def same_activity_def w_active_def w_cp_def
  evicted_by_def restored_by_def fun_eq_iff Let_def case_prod_unfold

lemma evict_queue_cpsch_step:
  "step_upd q s (evict_queue_cpsch q s) \<and> evicted_by (qs s q) (qs (evict_queue_cpsch q s) q) \<and>
     (\<forall>x. x \<noteq> q \<longrightarrow> qs (evict_queue_cpsch q s) x = qs s x)"
  by (simp add: evict_queue_cpsch_def loop_defs)

lemma restore_queue_cpsch_step:
  "\<not> is_active (properties (qs s q)) \<Longrightarrow>
     step_upd q s (restore_queue_cpsch q s) \<and> restored_by (qs s q) (qs (restore_queue_cpsch q s) q) \<and>
     (\<forall>x. x \<noteq> q \<longrightarrow> qs (restore_queue_cpsch q s) x = qs s x)"
  by (simp add: restore_queue_cpsch_def loop_defs)

lemma evict_queue_nocpsch_step:
  "step_upd q (snd z) (snd (evict_queue_nocpsch env p q z)) \<and>
     evicted_by (qs (snd z) q) (qs (snd (evict_queue_nocpsch env p q z)) q) \<and>
     (\<forall>x. x \<noteq> q \<longrightarrow> qs (snd (evict_queue_nocpsch env p q z)) x = qs (snd z) x)"
  by (simp add: evict_queue_nocpsch_def loop_defs)

lemma restore_queue_nocpsch_step:
  "\<not> is_active (properties (qs (snd z) q)) \<Longrightarrow>
     step_upd q (snd z) (snd (restore_queue_nocpsch env p q z)) \<and>
     restored_by (qs (snd z) q) (qs (snd (restore_queue_nocpsch env p q z)) q) \<and>
     (\<forall>x. x \<noteq> q \<longrightarrow> qs (snd (restore_queue_nocpsch env p q z)) x = qs (snd z) x)"
  by (simp add: restore_queue_nocpsch_def loop_defs)

end
