(* ===== verification/Opu_Dqm_Reach.thy ===== *)
theory Opu_Dqm_Reach
  imports Opu_Dqm_Steps
begin

text \<open>
  Every operation of both schedulers keeps the bookkeeping of the device queue manager right, and
  so does every sequence of calls its clients may make.
\<close>

section \<open>The invariant\<close>

text \<open>While a process is evicted none of its queues is active.\<close>

definition inv_evict :: "'h dqm_state \<Rightarrow> bool" where
  "inv_evict s \<longleftrightarrow> (\<forall>p. evicts s p \<noteq> 0 \<longrightarrow>
     (\<forall>q\<in>set (ulists s p). is_evicted (props s q) \<and> \<not> is_active (props s q)))"

definition dqm_inv :: "'h dqm_state \<Rightarrow> bool" where
  "dqm_inv s \<longleftrightarrow> counts_ok s \<and> inv_evict s"

lemma resources_only_evict: "resources_only s t \<Longrightarrow> inv_evict t = inv_evict s"
  by (simp add: inv_evict_def resources_defs)

lemma resources_only_dqm_inv: "resources_only s t \<Longrightarrow> dqm_inv t = dqm_inv s"
  by (simp add: dqm_inv_def resources_only_inv resources_only_evict)

lemma resources_timestamp:
  "resources_only s (upd_pdd p (\<lambda>x. x\<lparr>last_evict_timestamp := v\<rparr>) s)"
  "resources_only s (upd_pdd p (\<lambda>x. x\<lparr>page_table_base := w\<rparr>) s)"
  by (simp_all add: resources_defs)

lemma dqm_inv_hw [simp]: "dqm_inv (upd_hw f s) = dqm_inv s" "dqm_inv (s\<lparr>hw := h\<rparr>) = dqm_inv s"
  by (simp_all add: resources_only_dqm_inv)

lemmas dqm_inv_simps [simp] = resources_only_dqm_inv [OF resources_timestamp(1)]
  resources_only_dqm_inv [OF resources_timestamp(2)]
  resources_only_dqm_inv [OF resources_execute [OF prod.collapse [symmetric]]]
  resources_only_dqm_inv [OF resources_hw_call [OF prod.collapse [symmetric]]]

lemma counts_ok_pdd:
  assumes "\<And>x. queues_list (f x) = queues_list x" "\<And>x. priv_queue_list (f x) = priv_queue_list x"
    "\<And>x. queue_count (f x) = queue_count x"
  shows "counts_ok (upd_pdd p f s) = counts_ok s"
proof -
  have "ulists (upd_pdd p f s) = ulists s" "klists (upd_pdd p f s) = klists s" "qcounts (upd_pdd p f s) = qcounts s"
    using assms by auto
  then show ?thesis by (simp add: counts_ok_def inv_lists_def inv_counts_def fun_eq_iff del: upd_pdd_sel(2)) 
qed

section \<open>Creation, destruction and update\<close>

lemma others_evict:
  assumes "others_same q s t" and "inv_evict s" and "\<And>p. set (ulists t p) \<subseteq> insert q (set (ulists s p))"
    and "\<And>p. evicts s p \<noteq> 0 \<Longrightarrow> q \<in> set (ulists t p) \<Longrightarrow> is_evicted (props t q) \<and> \<not> is_active (props t q)"
  shows "inv_evict t"
  unfolding inv_evict_def
proof (intro allI impI ballI)
  fix p x assume e: "evicts t p \<noteq> 0" and x: "x \<in> set (ulists t p)"
  have e': "evicts s p \<noteq> 0" using e assms(1) by (simp add: others_same_def fun_eq_iff)
  show "is_evicted (props t x) \<and> \<not> is_active (props t x)"
  proof (cases "x = q")
    case True
    then show ?thesis using assms(4) e' x by simp
  next
    case False
    then have "x \<in> set (ulists s p)" using assms(3) x by blast
    then show ?thesis using False e' assms(1,2) by (simp add: inv_evict_def others_same_def same_activity_def)
  qed
qed

lemma fresh_queue: "counts_ok s \<Longrightarrow> q \<notin> set (all_queues s) \<Longrightarrow> q \<notin> set (ulists s p)"
  by (force simp: counts_ok_def inv_lists_def)

lemma dqm_inv_idle:
  assumes "dqm_inv s" and "q \<notin> set (all_queues s)" and "step_idle q s t"
  shows "dqm_inv t"
proof -
  have c: "counts_ok s" "inv_evict s" using assms(1) by (simp_all add: dqm_inv_def)
  have st: "others_same q s t" "ulists t = ulists s" using assms(3) by (simp_all add: step_idle_def)
  have "inv_evict t"
    using st(1) c(2) by (rule others_evict) (use fresh_queue [OF c(1) assms(2)] fun_cong [OF st(2)] in auto)
  then show ?thesis using step_idle_inv [OF c(1) assms(2,3)] by (simp add: dqm_inv_def)
qed

lemma dqm_inv_add:
  assumes "dqm_inv s" and "p \<in> set (procs s)" and "q \<notin> set (all_queues s)" and "step_add p q s t"
    and "evicts s p \<noteq> 0 \<Longrightarrow> is_evicted (props t q) \<and> \<not> is_active (props t q)"
  shows "dqm_inv t"
proof -
  have c: "counts_ok s" "inv_evict s" using assms(1) by (simp_all add: dqm_inv_def)
  have st: "others_same q s t" "ulists t = (ulists s)(p := q # ulists s p)" using assms(4) by (simp_all add: step_add_def)
  have "inv_evict t"
    using st(1) c(2)
  proof (rule others_evict)
    show "set (ulists t p') \<subseteq> insert q (set (ulists s p'))" for p'
      using fun_cong [OF st(2), of p'] by auto
    show "evicts s p' \<noteq> 0 \<Longrightarrow> q \<in> set (ulists t p') \<Longrightarrow> is_evicted (props t q) \<and> \<not> is_active (props t q)" for p'
      using fun_cong [OF st(2), of p'] fresh_queue [OF c(1) assms(3)] assms(5) by (auto split: if_splits)
  qed
  then show ?thesis using step_add_inv [OF c(1) assms(2-4)] by (simp add: dqm_inv_def)
qed

lemma dqm_inv_del:
  assumes "dqm_inv s" and "q \<in> set (ulists s p)" and "step_del p q s t"
  shows "dqm_inv t"
proof -
  have c: "counts_ok s" "inv_evict s" using assms(1) by (simp_all add: dqm_inv_def)
  have st: "others_same q s t" "ulists t = (ulists s)(p := remove1 q (ulists s p))" using assms(3) by (simp_all add: step_del_def)
  have l: "inv_lists s" using c(1) by (simp add: counts_ok_def)
  have pp: "p \<in> set (procs s)" by (rule inv_lists_procs [OF l assms(2)])
  have q: "q \<notin> set (ulists t p')" for p'
  proof (cases "p' = p")
    case True
    then show ?thesis using fun_cong [OF st(2), of p'] inv_lists_distinct [OF l] by simp
  next
    case False
    have "q \<notin> set (ulists s p')"
    proof
      assume a: "q \<in> set (ulists s p')"
      have "set (ulists s p) \<inter> set (ulists s p') = {}"
        using l False by (intro distinct_concat_disjoint [OF _ _ pp inv_lists_procs [OF l a]]) (auto simp: inv_lists_def)
      with a assms(2) show False by blast
    qed
    then show ?thesis using fun_cong [OF st(2), of p'] False by simp
  qed
  have "inv_evict t"
    using st(1) c(2)
  proof (rule others_evict)
    show "set (ulists t p') \<subseteq> insert q (set (ulists s p'))" for p'
      using fun_cong [OF st(2), of p'] set_remove1_subset [of q "ulists s p"] by (auto split: if_splits)
  qed (use q in blast)
  then show ?thesis using step_del_inv [OF c(1) assms(2,3)] by (simp add: dqm_inv_def)
qed

lemma dqm_inv_upd:
  assumes "dqm_inv s" and "q \<in> set (ulists s p)" and "step_upd q s t"
    and "is_evicted (props t q) = is_evicted (props s q)"
    and "is_active (props t q) \<Longrightarrow> is_active (props s q) \<or> \<not> is_evicted (props s q)"
  shows "dqm_inv t"
proof -
  have c: "counts_ok s" "inv_evict s" using assms(1) by (simp_all add: dqm_inv_def)
  have st: "others_same q s t" "ulists t = ulists s" using assms(3) by (simp_all add: step_upd_def)
  have l: "inv_lists s" using c(1) by (simp add: counts_ok_def)
  have q: "q \<in> set (all_queues s)" using in_all_queues [OF inv_lists_procs [OF l assms(2)] assms(2)] .
  have "inv_evict t"
    using st(1) c(2)
  proof (rule others_evict)
    show "set (ulists t p') \<subseteq> insert q (set (ulists s p'))" for p' using fun_cong [OF st(2), of p'] by auto
    show "evicts s p' \<noteq> 0 \<Longrightarrow> q \<in> set (ulists t p') \<Longrightarrow> is_evicted (props t q) \<and> \<not> is_active (props t q)" for p'
      using fun_cong [OF st(2), of p'] assms(4,5) c(2) by (auto simp: inv_evict_def)
  qed
  then show ?thesis using step_upd_inv [OF c(1) q assms(3)] by (simp add: dqm_inv_def)
qed

lemma create_queue_cpsch_inv:
  assumes "env_ok env" and "dqm_inv s" and "p \<in> set (procs s)" and "q \<notin> set (all_queues s)"
    and "create_queue_cpsch env q p s = (r, t)"
  shows "dqm_inv t"
  using assms(1,5)
proof (cases rule: create_queue_cpsch_cases)
  case fail
  then show ?thesis using dqm_inv_idle assms(2,4) by blast
next
  case ok
  then show ?thesis using assms(2-4) by (intro dqm_inv_add [of s p q t]) simp_all
qed

lemma destroy_queue_cpsch_inv:
  assumes "dqm_inv s" and "q \<in> set (ulists s p)" and "destroy_queue_cpsch env p q s = (r, t)"
  shows "dqm_inv t"
  using assms(3)
proof (cases rule: destroy_queue_cpsch_cases)
  case busy
  then show ?thesis using assms(1) by simp
next
  case gone
  then show ?thesis using dqm_inv_del assms(1,2) by blast
qed

lemma update_queue_inv:
  assumes "env_ok env" and "dqm_inv s" and "q \<in> set (ulists s p)" and "update_queue env q s = (r, t)"
  shows "dqm_inv t"
  using dqm_inv_upd [OF assms(2,3)] update_queue_step [OF assms(1,4)] by blast

section \<open>Eviction and restoration\<close>

lemma queues_in_all: "counts_ok s \<Longrightarrow> set (ulists s p) \<subseteq> set (all_queues s) \<and> distinct (ulists s p)"
  using inv_lists_procs [of s] inv_lists_distinct [of s] in_all_queues [of _ s] unfolding counts_ok_def by blast

text \<open>The state after the queues of \<open>p\<close> were evicted one by one.\<close>

lemma evicted_inv:
  assumes "dqm_inv s" and "counts_ok t" and "ulists t = ulists s" and "\<And>p'. p' \<noteq> p \<Longrightarrow> evicts t p' = evicts s p'"
    and "\<forall>q\<in>set (ulists s p). is_evicted (props t q) \<and> \<not> is_active (props t q)"
    and "\<forall>q. q \<notin> set (ulists s p) \<longrightarrow> qs t q = qs s q"
  shows "dqm_inv t"
proof -
  have "is_evicted (props t q) \<and> \<not> is_active (props t q)" if e: "evicts t p' \<noteq> 0" and q: "q \<in> set (ulists t p')" for p' q
  proof (cases "q \<in> set (ulists s p)")
    case False
    have "q \<in> set (ulists s p')" using q fun_cong [OF assms(3), of p'] by simp
    moreover from this False have "p' \<noteq> p" by blast
    ultimately show ?thesis using e False assms(1,4,6) by (simp add: dqm_inv_def inv_evict_def)
  qed (use assms(5) in simp)
  then show ?thesis using assms(2) by (simp add: dqm_inv_def inv_evict_def)
qed

lemma bump_inv:
  assumes "dqm_inv s" and "evicts s p \<noteq> 0"
  shows "dqm_inv (upd_pdd p (\<lambda>x. x\<lparr>evicted := v\<rparr>) s)"
proof -
  have "inv_evict (upd_pdd p (\<lambda>x. x\<lparr>evicted := v\<rparr>) s)" using assms by (auto simp: dqm_inv_def inv_evict_def)
  then show ?thesis using assms(1) by (simp add: dqm_inv_def counts_ok_pdd)
qed

lemma evict_fold:
  fixes pr :: "'b \<Rightarrow> 'h dqm_state"
  assumes "\<And>q z. step_upd q (pr z) (pr (f q z)) \<and> evicted_by (qs (pr z) q) (qs (pr (f q z)) q) \<and>
      (\<forall>x. x \<noteq> q \<longrightarrow> qs (pr (f q z)) x = qs (pr z) x)"
    and "dqm_inv s" and "counts_ok (pr z)" and "ulists (pr z) = ulists s" and "qs (pr z) = qs s"
    and "\<And>p'. p' \<noteq> p \<Longrightarrow> evicts (pr z) p' = evicts s p'"
  shows "dqm_inv (pr (fold f (ulists s p) z))"
proof -
  let ?t = "pr (fold f (ulists s p) z)"
  have q: "set (ulists s p) \<subseteq> set (all_queues (pr z))" "distinct (ulists s p)"
    using queues_in_all [OF assms(3), of p] fun_cong [OF assms(4), of p] by simp_all
  have "counts_ok ?t \<and> ulists ?t = ulists (pr z) \<and> evicts ?t = evicts (pr z) \<and> procs ?t = procs (pr z) \<and>
      klists ?t = klists (pr z) \<and> kqs ?t = kqs (pr z) \<and>
      (\<forall>q\<in>set (ulists s p). evicted_by (qs (pr z) q) (qs ?t q)) \<and> (\<forall>x. x \<notin> set (ulists s p) \<longrightarrow> qs ?t x = qs (pr z) x)"
    by (rule fold_step_upd [where P = "\<lambda>_. True", OF assms(1) assms(3) q(2,1)]) simp
  then have st: "counts_ok ?t" "ulists ?t = ulists s" "evicts ?t = evicts (pr z)"
      "\<forall>q\<in>set (ulists s p). evicted_by (qs s q) (qs ?t q)" "\<forall>x. x \<notin> set (ulists s p) \<longrightarrow> qs ?t x = qs s x"
    using assms(4,5) by simp_all
  show ?thesis
    using st(4,5) fun_cong [OF st(3)] assms(6)
    by (intro evicted_inv [OF assms(2) st(1,2)]) (auto simp: evicted_by_def)
qed

lemma evict_process_queues_cpsch_inv:
  assumes "dqm_inv s" and "evict_process_queues_cpsch env p s = (r, t)"
  shows "dqm_inv t"
proof (cases "0 < evicts s p")
  case True
  then have "t = upd_pdd p (\<lambda>x. x\<lparr>evicted := evicted x + 1\<rparr>) s"
    using assms(2) by (simp add: evict_process_queues_cpsch_def)
  also have "\<dots> = upd_pdd p (\<lambda>x. x\<lparr>evicted := evicts s p + 1\<rparr>) s" by (simp add: upd_pdd_def)
  finally show ?thesis using bump_inv [OF assms(1)] True by simp
next
  case False
  let ?s1 = "upd_pdd p (\<lambda>x. x\<lparr>evicted := evicted x + 1\<rparr>) s"
  let ?s2 = "fold evict_queue_cpsch (ulists s p) ?s1"
  have c: "counts_ok ?s1" using assms(1) by (simp add: dqm_inv_def counts_ok_pdd)
  have "dqm_inv ?s2"
    by (rule evict_fold [where pr = "\<lambda>s. s", OF evict_queue_cpsch_step assms(1) c]) auto
  then have "dqm_inv (snd (evict_process_queues_cpsch env p s))"
    using False by (simp add: evict_process_queues_cpsch_def Let_def)
  then show ?thesis using assms(2) by simp
qed

lemma evict_process_queues_nocpsch_inv:
  assumes "dqm_inv s" and "evict_process_queues_nocpsch env p s = (r, t)"
  shows "dqm_inv t"
proof (cases "0 < evicts s p")
  case True
  then have "t = upd_pdd p (\<lambda>x. x\<lparr>evicted := evicted x + 1\<rparr>) s"
    using assms(2) by (simp add: evict_process_queues_nocpsch_def)
  also have "\<dots> = upd_pdd p (\<lambda>x. x\<lparr>evicted := evicts s p + 1\<rparr>) s" by (simp add: upd_pdd_def)
  finally show ?thesis using bump_inv [OF assms(1)] True by simp
next
  case False
  let ?s2 = "upd_pdd p (\<lambda>x. x\<lparr>last_evict_timestamp := jiffies env (hw s)\<rparr>)
    (upd_pdd p (\<lambda>x. x\<lparr>evicted := evicted x + 1\<rparr>) s)"
  have c: "counts_ok ?s2" using assms(1) by (simp add: dqm_inv_def counts_ok_pdd)
  have "dqm_inv (snd (fold (evict_queue_nocpsch env p) (ulists s p) (0, ?s2)))"
    by (rule evict_fold [where pr = snd, OF evict_queue_nocpsch_step assms(1)]) (use c in auto)
  then show ?thesis using assms(2) False by (simp add: evict_process_queues_nocpsch_def Let_def)
qed

text \<open>The state after the queues of \<open>p\<close> were restored one by one and the eviction ended.\<close>

lemma restore_fold:
  fixes pr :: "'b \<Rightarrow> 'h dqm_state"
  assumes "\<And>q z. \<not> is_active (properties (qs (pr z) q)) \<Longrightarrow> step_upd q (pr z) (pr (f q z)) \<and>
      restored_by (qs (pr z) q) (qs (pr (f q z)) q) \<and> (\<forall>x. x \<noteq> q \<longrightarrow> qs (pr (f q z)) x = qs (pr z) x)"
    and "dqm_inv (pr z)" and "evicts (pr z) p \<noteq> 0"
  shows "dqm_inv (upd_pdd p (\<lambda>x. x\<lparr>evicted := 0, evict_duration_counter := v\<rparr>) (pr (fold f (ulists (pr z) p) z)))"
    (is "dqm_inv ?u")
proof -
  let ?t = "pr (fold f (ulists (pr z) p) z)"
  have c: "counts_ok (pr z)" and e: "inv_evict (pr z)" using assms(2) by (simp_all add: dqm_inv_def)
  have "counts_ok ?t \<and> ulists ?t = ulists (pr z) \<and> evicts ?t = evicts (pr z) \<and> procs ?t = procs (pr z) \<and>
      klists ?t = klists (pr z) \<and> kqs ?t = kqs (pr z) \<and>
      (\<forall>q\<in>set (ulists (pr z) p). restored_by (qs (pr z) q) (qs ?t q)) \<and>
      (\<forall>x. x \<notin> set (ulists (pr z) p) \<longrightarrow> qs ?t x = qs (pr z) x)"
    using queues_in_all [OF c, of p] assms(3) e
    by (intro fold_step_upd [where P = "\<lambda>x. \<not> is_active (properties x)", OF assms(1) c]) (auto simp: inv_evict_def)
  then have st: "counts_ok ?t" "ulists ?t = ulists (pr z)" "evicts ?t = evicts (pr z)"
      "\<forall>x. x \<notin> set (ulists (pr z) p) \<longrightarrow> qs ?t x = qs (pr z) x" by simp_all
  have "is_evicted (props ?u q) \<and> \<not> is_active (props ?u q)" if u: "evicts ?u p' \<noteq> 0" and q: "q \<in> set (ulists ?u p')" for p' q
  proof -
    have p: "p' \<noteq> p" using u by (auto split: if_splits)
    then have q': "q \<in> set (ulists (pr z) p')" "evicts (pr z) p' \<noteq> 0"
      using q u fun_cong [OF st(2), of p'] fun_cong [OF st(3), of p'] by simp_all
    have l: "inv_lists (pr z)" using c by (simp add: counts_ok_def)
    have "q \<notin> set (ulists (pr z) p)"
    proof
      assume a: "q \<in> set (ulists (pr z) p)"
      have "set (ulists (pr z) p') \<inter> set (ulists (pr z) p) = {}"
        using l p by (intro distinct_concat_disjoint [OF _ _ inv_lists_procs [OF l q'(1)] inv_lists_procs [OF l a]])
          (auto simp: inv_lists_def)
      with a q'(1) show False by blast
    qed
    then show ?thesis using st(4) q' e by (simp add: inv_evict_def)
  qed
  then show ?thesis using st(1) by (simp add: dqm_inv_def inv_evict_def counts_ok_pdd del: upd_pdd_sel(2))
qed

lemma finish_restore_eq:
  "finish_restore env p s = upd_pdd p (\<lambda>x. x\<lparr>evicted := 0,
     evict_duration_counter := evict_duration_counter (pdds s p) + (jiffies env (hw s) - last_evict_timestamp (pdds s p))\<rparr>) s"
  by (simp add: finish_restore_def upd_pdd_def)

lemma unbump_inv:
  assumes "dqm_inv s" and "evicts s p \<noteq> 0"
  shows "dqm_inv (upd_pdd p (\<lambda>x. x\<lparr>evicted := evicted x - 1\<rparr>) s)"
  using bump_inv [OF assms, of "evicts s p - 1"] by (simp add: upd_pdd_def)

lemma resources_finish:
  assumes "resources_only s t" 
  shows "dqm_inv (upd_pdd p (\<lambda>x. x\<lparr>evicted := 0, evict_duration_counter := v\<rparr>) t)
    = dqm_inv (upd_pdd p (\<lambda>x. x\<lparr>evicted := 0, evict_duration_counter := v'\<rparr>) s)"
  using assms by (intro resources_only_dqm_inv) (simp add: resources_defs)

lemma restore_process_queues_cpsch_inv:
  assumes "dqm_inv s" and "restore_process_queues_cpsch env p s = (r, t)"
  shows "dqm_inv t"
proof -
  consider "evicts s p = 0" | "1 < evicts s p" | "\<not> 1 < evicts s p" "evicts s p \<noteq> 0" by blast
  then have "dqm_inv (snd (restore_process_queues_cpsch env p s))"
  proof cases
    case 3
    define s1 where "s1 = upd_pdd p (\<lambda>x. x\<lparr>page_table_base := gpuvm_get_process_page_dir env p (hw s)\<rparr>) s"
    let ?s2 = "fold restore_queue_cpsch (ulists s1 p) s1"
    have "dqm_inv (upd_pdd p (\<lambda>x. x\<lparr>evicted := 0, evict_duration_counter := 0\<rparr>) ?s2)"
      by (rule restore_fold [where pr = "\<lambda>s. s", OF restore_queue_cpsch_step]) (use assms(1) 3 in \<open>auto simp: s1_def\<close>)
    then have "dqm_inv (finish_restore env p (snd (execute_dynamic env ?s2)))"
      unfolding finish_restore_eq by (rule resources_finish [OF resources_execute [OF prod.collapse [symmetric]], THEN iffD2])
    moreover have "ulists s1 p = ulists s p" by (simp add: s1_def)
    ultimately show ?thesis using 3
      by (simp add: restore_process_queues_cpsch_def Let_def case_prod_unfold flip: s1_def)
  qed (use assms(1) in \<open>simp_all add: restore_process_queues_cpsch_def unbump_inv\<close>)
  then show ?thesis using assms(2) by simp
qed

lemma restore_process_queues_nocpsch_inv:
  assumes "dqm_inv s" and "restore_process_queues_nocpsch env p s = (r, t)"
  shows "dqm_inv t"
proof -
  consider "evicts s p = 0" | "1 < evicts s p" | "\<not> 1 < evicts s p" "evicts s p \<noteq> 0" by blast
  then have "dqm_inv (snd (restore_process_queues_nocpsch env p s))"
  proof cases
    case 3
    let ?pd = "gpuvm_get_process_page_dir env p (hw s)"
    define s1 where "s1 = upd_pdd p (\<lambda>x. x\<lparr>page_table_base := ?pd\<rparr>) s"
    define s2 where "s2 = (if queues_list (pdds s1 p) \<noteq> [] then
      opu_flush_tlb env p (upd_hw (kgd_set_vm_context_page_table_base env (vmid (pdds s1 p)) ?pd) s1) else s1)"
    have R: "resources_only s s2" by (simp add: s2_def s1_def resources_timestamp)
    then have i: "dqm_inv s2" "evicts s2 p \<noteq> 0"
      using assms(1) 3 by (simp_all add: resources_only_dqm_inv) (simp add: resources_defs)
    have "dqm_inv (finish_restore env p (snd (fold (restore_queue_nocpsch env p) (ulists s2 p) (0, s2))))"
      unfolding finish_restore_eq using restore_fold [where pr = snd, OF restore_queue_nocpsch_step, where z = "(0, s2)"] i by simp
    moreover have "restore_process_queues_nocpsch env p s =
        (if \<not> task_mm_alive env (pdd_process (pdds s2 p)) (hw s2) then (- EFAULT, s2)
         else case fold (restore_queue_nocpsch env p) (queues_list (pdds s2 p)) (0, s2) of
                (ret, s3) \<Rightarrow> (ret, finish_restore env p s3))"
      unfolding restore_process_queues_nocpsch_def Let_def
      by (simp only: 3 if_False s1_def [symmetric] s2_def [symmetric])
    ultimately show ?thesis using i(1) by (simp add: case_prod_unfold)
  next
    case 2
    then have "evicts s p \<noteq> 0" by auto
    then show ?thesis using 2 assms(1) by (simp add: restore_process_queues_nocpsch_def Let_def unbump_inv)
  qed (use assms(1) in \<open>simp add: restore_process_queues_nocpsch_def\<close>)
  then show ?thesis using assms(2) by simp
qed

section \<open>Processes\<close>

lemma resources_page_table:
  "resources_only s (upd_pdd p (\<lambda>x. x\<lparr>sh_mem_config := a, sh_mem_bases := b, sh_mem_ape1_base := c, sh_mem_ape1_limit := d\<rparr>) s)"
  by (simp add: resources_defs)

text \<open>The invariant does not see the device data.\<close>

lemma dqm_inv_dev:
  "dqm_inv (upd_dqm (\<lambda>d. d\<lparr>dev := f d\<rparr>) s) = dqm_inv s"
  by (simp add: dqm_inv_def counts_ok_def inv_lists_def inv_counts_def inv_evict_def)

lemma dqm_inv_compute [simp]:
  "dqm_inv (opu_inc_compute_active env s) = dqm_inv s" "dqm_inv (opu_dec_compute_active env s) = dqm_inv s"
  by (simp_all add: opu_inc_compute_active_def opu_dec_compute_active_def Let_def dqm_inv_dev)

lemma compute_active_sel [simp]:
  "pdds (opu_inc_compute_active env s) = pdds s" "pdds (opu_dec_compute_active env s) = pdds s"
  "qs (opu_inc_compute_active env s) = qs s" "qs (opu_dec_compute_active env s) = qs s"
  "procs (opu_inc_compute_active env s) = procs s" "procs (opu_dec_compute_active env s) = procs s"
  by (simp_all add: opu_inc_compute_active_def opu_dec_compute_active_def Let_def)

lemma upd_dqm_pdd: "upd_dqm f (upd_pdd p g s) = upd_pdd p g (upd_dqm f s)"
  by (simp add: upd_dqm_def upd_pdd_def)

lemma enlist_inv:
  assumes "dqm_inv s" and "p \<notin> set (procs s)"
  shows "dqm_inv (upd_dqm (\<lambda>d. d\<lparr>dqm_queues := p # dqm_queues d, processes_count := processes_count d + 1\<rparr>) s)"
proof -
  have "ulists s p = []" "klists s p = []"
    using assms by (auto simp: dqm_inv_def counts_ok_def inv_lists_def)
  then show ?thesis using assms
    by (auto simp: dqm_inv_def counts_ok_def inv_lists_def inv_counts_def inv_evict_def)
qed

lemma register_process_inv:
  assumes "dqm_inv s" and "p \<notin> set (procs s)" and "register_process env ok p s = (r, t)"
  shows "dqm_inv t"
proof (cases ok)
  case False
  then show ?thesis using assms by (simp add: register_process_def)
next
  case True
  obtain rv a b c d where q: "asic_update_qpd env (pdds (upd_pdd p (\<lambda>x. x\<lparr>page_table_base :=
      gpuvm_get_process_page_dir env p (hw s)\<rparr>) s) p) = (rv, a, b, c, d)" by (metis prod_cases5)
  have "t = opu_inc_compute_active env (upd_pdd p (\<lambda>x. x\<lparr>sh_mem_config := a, sh_mem_bases := b,
      sh_mem_ape1_base := c, sh_mem_ape1_limit := d\<rparr>) (upd_pdd p (\<lambda>x. x\<lparr>page_table_base :=
      gpuvm_get_process_page_dir env p (hw s)\<rparr>)
      (upd_dqm (\<lambda>d. d\<lparr>dqm_queues := p # dqm_queues d, processes_count := processes_count d + 1\<rparr>) s)))"
    using assms(3) True q by (simp add: register_process_def Let_def upd_dqm_pdd) (simp add: upd_dqm_def)
  then show ?thesis using enlist_inv [OF assms(1,2)] by (simp add: resources_only_dqm_inv [OF resources_page_table])
qed

lemma concat_remove1_nil: "L p = [] \<Longrightarrow> concat (map L (remove1 p ps)) = concat (map L ps)"
  by (induction ps) auto

lemma remove_process_inv:
  assumes "dqm_inv s" and "ulists s p = []" and "klists s p = []"
  shows "dqm_inv (snd (remove_process p s))"
proof (cases "p \<in> set (procs s)")
  case True
  then obtain n where n: "length (procs s) = Suc n" by (metis length_pos_if_in_set gr0_conv_Suc)
  show ?thesis using assms True n
    by (auto simp: remove_process_def dqm_inv_def counts_ok_def inv_lists_def inv_counts_def inv_evict_def
        lsum_remove1 length_remove1 concat_remove1_nil)
qed (use assms(1) in \<open>simp add: remove_process_def\<close>)

lemma unregister_process_inv:
  assumes "dqm_inv s" and "ulists s p = []" and "klists s p = []" and "unregister_process env p s = (r, t)"
  shows "dqm_inv t"
  using remove_process_inv [OF assms(1-3)] assms(4) by (auto simp: unregister_process_def split: prod.splits bool.splits)

section \<open>Kernel queues\<close>

text \<open>The list of the kernel queues of \<open>p\<close> changes, and the counters with it.\<close>

lemma klist_inv:
  assumes "dqm_inv s" and "p \<in> set (procs s)" and "distinct ks"
    and "ulists t = ulists s" "qcounts t = qcounts s" "evicts t = evicts s" "qs t = qs s" "kqs t = kqs s" "procs t = procs s"
    and "processes_count (dqm t) = processes_count (dqm s)" and kl: "klists t = (klists s)(p := ks)"
    and "active_queue_count (dqm t) = active_queue_count (dqm s) - of_nat (length (klists s p)) + of_nat (length ks)"
    and "active_cp_queue_count (dqm t) = active_cp_queue_count (dqm s)
          - sum_list (map (\<lambda>k. wk_cp (kqs s k)) (klists s p)) + sum_list (map (\<lambda>k. wk_cp (kqs s k)) ks)"
    and "total_queue_count (dqm t) = total_queue_count (dqm s) - of_nat (length (klists s p)) + of_nat (length ks)"
  shows "dqm_inv t"
proof -
  have l: "inv_lists s" and c: "inv_counts s" using assms(1) by (simp_all add: dqm_inv_def counts_ok_def)
  have ks: "ksum v t = ksum v s - sum_list (map (\<lambda>k. v (kqs s k)) (klists s p)) + sum_list (map (\<lambda>k. v (kqs s k)) ks)" for v
    unfolding kl assms(8,9) using l assms(2) by (intro lsum_list) (simp_all add: inv_lists_def)
  have q: "qsum w t = qsum w s" for w unfolding assms(4,7,9) ..
  have "inv_counts t"
    by (rule inv_countsI [OF q q q ks ks arg_cong [OF assms(9), of length]])
      (use assms(10,12-14) c in \<open>simp_all add: inv_counts_def sum_list_triv\<close>)
  moreover have "inv_lists t"
    using l assms(2,3,9) fun_cong [OF assms(4)] fun_cong [OF assms(5)] fun_cong [OF kl] by (simp add: inv_lists_def)
  moreover have "inv_evict t"
    using assms(1) fun_cong [OF assms(4)] fun_cong [OF assms(6)] fun_cong [OF assms(7)] by (simp add: dqm_inv_def inv_evict_def)
  ultimately show ?thesis by (simp add: dqm_inv_def counts_ok_def)
qed

lemma klist_distinct: "dqm_inv s \<Longrightarrow> distinct (klists s p)"
  by (simp add: dqm_inv_def counts_ok_def inv_lists_def)

lemma create_kernel_queue_cpsch_inv:
  assumes "dqm_inv s" and "p \<in> set (procs s)" and "k \<notin> set (klists s p)" and "create_kernel_queue_cpsch env k p s = (r, t)"
  shows "dqm_inv t"
proof (cases "max_num_of_queues_per_device env \<le> total_queue_count (dqm s)")
  case True
  then show ?thesis using assms by (simp add: create_kernel_queue_cpsch_def)
next
  case False
  have "dqm_inv (snd (create_kernel_queue_cpsch env k p s))"
    using False assms(3) klist_distinct [OF assms(1), of p]
    by (intro klist_inv [OF assms(1,2), of "k # klists s p"])
      (auto simp: create_kernel_queue_cpsch_def Let_def wk_cp_def)
  then show ?thesis using assms(4) by simp
qed

lemma destroy_kernel_queue_cpsch_inv:
  assumes "dqm_inv s" and "k \<in> set (klists s p)"
  shows "dqm_inv (destroy_kernel_queue_cpsch env k p s)"
proof -
  have p: "p \<in> set (procs s)" using assms by (force simp: dqm_inv_def counts_ok_def inv_lists_def)
  obtain n where n: "length (klists s p) = Suc n" using assms(2) by (metis length_pos_if_in_set gr0_conv_Suc)
  show ?thesis
    using assms(2) klist_distinct [OF assms(1), of p] n
    by (intro klist_inv [OF assms(1) p, of "remove1 k (klists s p)"])
      (auto simp: destroy_kernel_queue_cpsch_def Let_def wk_cp_def length_remove1 sum_remove1)
qed

section \<open>Termination of a process under the hardware scheduler\<close>

lemma fold_remove1_self: "fold remove1 xs xs = []"
  by (induction xs) simp_all

lemma fold_term_kernel_queue:
  "ulists (fold (term_kernel_queue p) ks s) = ulists s" "qcounts (fold (term_kernel_queue p) ks s) = qcounts s"
  "evicts (fold (term_kernel_queue p) ks s) = evicts s" "qs (fold (term_kernel_queue p) ks s) = qs s"
  "kqs (fold (term_kernel_queue p) ks s) = kqs s" "procs (fold (term_kernel_queue p) ks s) = procs s"
  "processes_count (dqm (fold (term_kernel_queue p) ks s)) = processes_count (dqm s)"
  "klists (fold (term_kernel_queue p) ks s) = (klists s)(p := fold remove1 ks (klists s p))"
  "active_queue_count (dqm (fold (term_kernel_queue p) ks s)) = active_queue_count (dqm s) - of_nat (length ks)"
  "active_cp_queue_count (dqm (fold (term_kernel_queue p) ks s)) =
     active_cp_queue_count (dqm s) - sum_list (map (\<lambda>k. wk_cp (kqs s k)) ks)"
  "total_queue_count (dqm (fold (term_kernel_queue p) ks s)) = total_queue_count (dqm s) - of_nat (length ks)"
  by (induction ks arbitrary: s) (auto simp: term_kernel_queue_def Let_def wk_cp_def fun_eq_iff)

lemma fold_term_user_queue:
  "ulists (fold (term_user_queue p) xs s) = ulists s" "qcounts (fold (term_user_queue p) xs s) = qcounts s"
  "klists (fold (term_user_queue p) xs s) = klists s" "evicts (fold (term_user_queue p) xs s) = evicts s"
  "qs (fold (term_user_queue p) xs s) = qs s" "kqs (fold (term_user_queue p) xs s) = kqs s"
  "procs (fold (term_user_queue p) xs s) = procs s"
  "processes_count (dqm (fold (term_user_queue p) xs s)) = processes_count (dqm s)"
  "active_queue_count (dqm (fold (term_user_queue p) xs s)) =
     active_queue_count (dqm s) - sum_list (map (\<lambda>q. w_active (qs s q)) xs)"
  "active_cp_queue_count (dqm (fold (term_user_queue p) xs s)) =
     active_cp_queue_count (dqm s) - sum_list (map (\<lambda>q. w_cp (qs s q)) xs)"
  "total_queue_count (dqm (fold (term_user_queue p) xs s)) = total_queue_count (dqm s) - of_nat (length xs)"
  by (induction xs arbitrary: s)
    (auto simp: term_user_queue_def deallocate_sdma_queue_def Let_def w_active_def w_cp_def fun_eq_iff)

lemma fold_term_free_mqd:
  "ulists (fold (term_free_mqd env p) xs s) = (ulists s)(p := fold remove1 xs (ulists s p))"
  "qcounts (fold (term_free_mqd env p) xs s) = (qcounts s)(p := qcounts s p - of_nat (length xs))"
  "klists (fold (term_free_mqd env p) xs s) = klists s" "evicts (fold (term_free_mqd env p) xs s) = evicts s"
  "qs (fold (term_free_mqd env p) xs s) = qs s" "kqs (fold (term_free_mqd env p) xs s) = kqs s"
  "dqm (fold (term_free_mqd env p) xs s) = dqm s"
  by (induction xs arbitrary: s) (auto simp: term_free_mqd_def fun_eq_iff)

text \<open>All queues of a process go and the process with them.\<close>

lemma purge_inv:
  assumes "dqm_inv s" and "klists s p = []"
    and ul: "ulists t = (ulists s)(p := [])" and qc: "qcounts t = (qcounts s)(p := 0)" and kl: "klists t = klists s"
    and "evicts t = evicts s" "qs t = qs s" "kqs t = kqs s" "procs t = remove1 p (procs s)"
    and "processes_count (dqm t) = processes_count (dqm s) - (if p \<in> set (procs s) then 1 else 0)"
    and "active_queue_count (dqm t) = active_queue_count (dqm s) - sum_list (map (\<lambda>q. w_active (qs s q)) (ulists s p))"
    and "active_cp_queue_count (dqm t) = active_cp_queue_count (dqm s) - sum_list (map (\<lambda>q. w_cp (qs s q)) (ulists s p))"
    and "total_queue_count (dqm t) = total_queue_count (dqm s) - of_nat (length (ulists s p))"
  shows "dqm_inv t"
proof -
  have l: "inv_lists s" and c: "inv_counts s" and e: "inv_evict s" using assms(1) by (simp_all add: dqm_inv_def counts_ok_def)
  have d: "distinct (procs s)" using l by (simp add: inv_lists_def)
  have ps: "p \<notin> set (remove1 p (procs s))" using d by simp
  have rm: "lsum L g (remove1 p (procs s)) = lsum L g (procs s) - sum_list (map g (L p))"
    if "p \<notin> set (procs s) \<Longrightarrow> L p = []" for L g
    using that by (cases "p \<in> set (procs s)") (simp_all add: lsum_remove1 remove1_idem)
  have q: "qsum w t = qsum w s - sum_list (map (\<lambda>q. w (qs s q)) (ulists s p))" for w
    unfolding ul assms(7,9) lsum_list_out [OF ps] using l by (intro rm) (simp add: inv_lists_def)
  have k: "ksum v t = ksum v s" for v
    unfolding kl assms(8,9) using rm [of "klists s" "\<lambda>k. v (kqs s k)"] assms(2) by simp
  have n: "length (procs t) = length (procs s) - (if p \<in> set (procs s) then 1 else 0)"
    unfolding assms(9) by (simp add: length_remove1)
  have m: "p \<in> set (procs s) \<Longrightarrow> of_nat (length (procs s) - 1) = (of_nat (length (procs s)) - 1 :: u32)"
    by (cases "procs s") simp_all
  have "inv_counts t"
    by (rule inv_countsI [OF q q q k k n]) (use assms(10-13) c m in \<open>simp_all add: inv_counts_def sum_list_triv\<close>)
  moreover have "inv_lists t"
  proof -
    have "distinct (concat (map ((ulists s)(p := [])) (procs s)))"
      using l d by (intro distinct_concat_subset) (simp_all add: inv_lists_def)
    then have "distinct (concat (map ((ulists s)(p := [])) (remove1 p (procs s))))"
      by (subst concat_remove1_nil) simp_all
    then have "distinct (all_queues t)" unfolding ul assms(9) .
    then show ?thesis
      using l d assms(2,9) fun_cong [OF ul] fun_cong [OF qc] fun_cong [OF kl] by (auto simp: inv_lists_def)
  qed
  moreover have "inv_evict t"
    using e fun_cong [OF ul] fun_cong [OF assms(6)] assms(7) by (auto simp: inv_evict_def)
  ultimately show ?thesis by (simp add: dqm_inv_def counts_ok_def)
qed

lemma terminate_kernel_queues_inv:
  assumes "dqm_inv s"
  shows "dqm_inv (fold (term_kernel_queue p) (klists s p) s)"
proof (cases "p \<in> set (procs s)")
  case True
  show ?thesis
    by (rule klist_inv [OF assms True, of "[]"]) (simp_all add: fold_term_kernel_queue fold_remove1_self)
next
  case False
  then show ?thesis using assms by (simp add: dqm_inv_def counts_ok_def inv_lists_def)
qed

lemma resources_reset: "resources_only s (upd_pdd p (\<lambda>x. x\<lparr>reset_wavefronts := b\<rparr>) t) = resources_only s t"
  by (simp add: resources_defs) (safe; metis)

lemma process_termination_cpsch_inv:
  assumes "dqm_inv s" and "process_termination_cpsch env p s = (r, t)"
  shows "dqm_inv t"
proof -
  define s1 where "s1 = fold (term_kernel_queue p) (klists s p) s"
  have i: "dqm_inv s1" unfolding s1_def by (rule terminate_kernel_queues_inv [OF assms(1)])
  have k: "klists s1 p = []" using fun_cong [OF fold_term_kernel_queue(8) [of p "klists s p" s], of p] by (simp add: s1_def fold_remove1_self)
  have qc: "qcounts s1 p = of_nat (length (ulists s1 p))" using i by (simp add: dqm_inv_def counts_ok_def inv_lists_def)
  define s2 where "s2 = fold (term_user_queue p) (ulists s1 p) s1"
  define s3 where "s3 = snd (remove_process p s2)"
  have s3: "pdds s3 = pdds s2" "qs s3 = qs s2" "kqs s3 = kqs s2" "procs s3 = remove1 p (procs s2)"
      "processes_count (dqm s3) = processes_count (dqm s2) - (if p \<in> set (procs s2) then 1 else 0)"
      "active_queue_count (dqm s3) = active_queue_count (dqm s2)" "total_queue_count (dqm s3) = total_queue_count (dqm s2)"
      "active_cp_queue_count (dqm s3) = active_cp_queue_count (dqm s2)"
    by (simp_all add: s3_def remove_process_def remove1_idem)
  define s4 where "s4 = execute_queues_cpsch env (if priv_queue_list (pdds s p) = [] then OPU_UNMAP_QUEUES_FILTER_DYNAMIC_QUEUES
                  else OPU_UNMAP_QUEUES_FILTER_ALL_QUEUES) 0 s3"
  define s5 where "s5 = (if \<not> is_hws_hang (dqm (snd s4)) \<and> (fst s4 \<noteq> 0 \<or> reset_wavefronts (pdds (snd s4) p)) then
                  upd_pdd p (\<lambda>x. x\<lparr>reset_wavefronts := False\<rparr>)
                    (upd_hw (dbgdev_wave_reset_wavefronts env (pdd_process (pdds (snd s4) p))) (snd s4))
                else snd s4)"
  have t: "t = (if fst (remove_process p s2) then opu_dec_compute_active env (fold (term_free_mqd env p) (ulists s5 p) s5)
                   else fold (term_free_mqd env p) (ulists s5 p) s5)"
    using arg_cong [OF assms(2), of snd]
    unfolding process_termination_cpsch_def Let_def case_prod_unfold
    by (simp only: s1_def [symmetric] s2_def [symmetric] s3_def [symmetric] s4_def [symmetric] s5_def [symmetric] snd_conv)
  have R: "resources_only s3 s5" "qs s5 = qs s3"
    by (simp_all add: s5_def s4_def resources_reset resources_execute [OF prod.collapse [symmetric]])
  have v: "ulists s5 = ulists s1" "klists s5 = klists s1" "qcounts s5 = qcounts s1" "evicts s5 = evicts s1"
      "qs s5 = qs s1" "kqs s5 = kqs s1"
    using R fold_term_user_queue [of p "ulists s1 p" s1] s3(1-3) by (simp_all add: resources_defs flip: s2_def)
  have "dqm_inv (fold (term_free_mqd env p) (ulists s5 p) s5)"
    using v fold_term_user_queue [of p "ulists s1 p" s1] s3 R(1) qc fun_cong [OF v(1), of p] fun_cong [OF v(3), of p]
    by (intro purge_inv [OF i k])
      (simp_all add: fold_term_free_mqd fold_remove1_self resources_only_def same_counts_def flip: s2_def)
  then show ?thesis by (simp add: t)
qed


section \<open>Queues without the hardware scheduler\<close>

lemma resources_out_labels [simp]:
  "resources_only s (out_deallocate_vmid env p q t) = resources_only s t"
  "resources_only s (out_deallocate_hqd env p q t) = resources_only s t"
  "resources_only s (out_deallocate_doorbell env p q t) = resources_only s t"
  "resources_only s (out_free_mqd env p q t) = resources_only s t"
  by (simp_all add: out_deallocate_vmid_def out_deallocate_hqd_def out_deallocate_doorbell_def out_free_mqd_def)

lemma idle_out_labels:
  "step_idle q s t \<Longrightarrow> step_idle q s (out_deallocate_vmid env p q t)"
  "step_idle q s t \<Longrightarrow> step_idle q s (out_deallocate_hqd env p q t)"
  "step_idle q s t \<Longrightarrow> step_idle q s (out_deallocate_doorbell env p q t)"
  "step_idle q s t \<Longrightarrow> step_idle q s (out_free_mqd env p q t)"
  by (erule step_idle_trans, rule resources_idle, simp)+

lemma add_queue_to_list_step: "step_add p q s (add_queue_to_list p q s)" "qs (add_queue_to_list p q s) = qs s"
  by (auto simp: add_queue_to_list_def Let_def w_active_def w_cp_def intro!: step_add_intro)

lemma init_mqd_law:
  "env_ok env \<Longrightarrow> hw_call (init_mqd (mqd_mgrs env ty) m x) s = ((d, g, x'), t) \<Longrightarrow> x' = x\<lparr>is_active := QUEUE_IS_ACTIVE x\<rparr>"
  using mqd_activeD(1) [OF env_okD] by (auto simp: hw_call_iff)

lemma create_mqd_nocpsch_cases:
  assumes "env_ok env" and u: "create_mqd_nocpsch env (mqd_mgrs env ty) p q s = (r, t)"
  obtains (fail) "r \<noteq> 0" and "step_idle q s t"
    | (ok) "r = 0" and "step_add p q s t" and "is_evicted (props t q) = is_evicted (props s q)"
        and "is_active (props t q) = QUEUE_IS_ACTIVE (props t q)"
proof -
  obtain obj s6 where 6: "hw_call (allocate_mqd (mqd_mgrs env ty) (props s q)) s = (obj, s6)" by fastforce
  define s7 where "s7 = upd_q q (\<lambda>x. x\<lparr>mqd_mem_obj := obj\<rparr>) s6"
  have I7: "step_idle q s s7" "props s7 q = props s q"
    using step_idle_trans [OF resources_idle [OF resources_hw_call [OF 6]]] hw_call_frame(3) [OF 6] by (simp_all add: s7_def)
  show ?thesis
  proof (cases obj)
    case None
    then have "r = - ENOMEM" "t = out_deallocate_doorbell env p q s7"
      using u by (simp_all add: create_mqd_nocpsch_def 6 s7_def)
    then show ?thesis using fail idle_out_labels(3) [OF I7(1)] by simp
  next
    case (Some m)
    obtain d g x s8 where 8: "hw_call (init_mqd (mqd_mgrs env ty) m (props s7 q)) s7 = ((d, g, x), s8)"
      by (metis prod_cases3 surj_pair)
    define s9 where "s9 = upd_q q (\<lambda>x'. x'\<lparr>mqd := d, gart_mqd_addr := g, properties := x\<rparr>) s8"
    have "queue_id x = queue_id (props s8 q)" using init_mqd_law [OF assms(1) 8] hw_call_frame(3) [OF 8] by simp
    then have "step_idle q s7 s8" "step_idle q s8 s9" using resources_idle [OF resources_hw_call [OF 8]] by (simp_all add: s9_def)
    then have I9: "step_idle q s s9" using I7(1) by (blast intro: step_idle_trans)
    have p9: "props s9 q = (props s q)\<lparr>is_active := QUEUE_IS_ACTIVE (props s q)\<rparr>"
      using init_mqd_law [OF assms(1) 8] I7(2) by (simp add: s9_def)
    obtain r10 s10 where 10: "(if is_active (props s9 q) \<and> sched_running (dqm s9) then
        (if \<not> mm_is_current env (q_process (qs s9 q)) then (- EFAULT, s9)
         else hw_call (load_mqd (mqd_mgrs env ty) (mqd (qs s9 q)) (q_pipe (qs s9 q)) (q_queue (qs s9 q)) (props s9 q)) s9)
        else (0, s9)) = (r10, s10)" by fastforce
    have R10: "resources_only s9 s10 \<and> qs s10 = qs s9" using 10 by (auto split: if_splits dest: resources_qs(3))
    note I10 = step_idle_trans [OF I9 resources_idle [OF conjunct1 [OF R10]]]
    have "create_mqd_nocpsch env (mqd_mgrs env ty) p q s =
        (if r10 \<noteq> 0 then (r10, out_free_mqd env p q s10) else (r10, add_queue_to_list p q s10))"
      unfolding create_mqd_nocpsch_def Let_def
      by (simp only: 6 8 Some prod.case option.case s7_def [unfolded Some, symmetric] s9_def [symmetric])
        (use 10 in \<open>auto split: if_splits\<close>)
    with u have rt: "r = r10" "r10 \<noteq> 0 \<Longrightarrow> t = out_free_mqd env p q s10" "r10 = 0 \<Longrightarrow> t = add_queue_to_list p q s10"
      by (auto split: if_splits)
    show ?thesis
    proof (cases "r10 = 0")
      case True
      have "props t q = props s9 q" using rt(3) [OF True] R10 by (simp add: add_queue_to_list_step(2))
      then show ?thesis using ok rt True p9 idle_add [OF I10 add_queue_to_list_step(1)] by simp
    qed (use fail rt idle_out_labels(4) [OF I10] in simp)
  qed
qed

lemma create_queue_nocpsch_cases:
  assumes "env_ok env" and u: "create_queue_nocpsch env q p s = (r, t)"
  obtains (fail) "r \<noteq> 0" and "step_idle q s t"
    | (ok) "r = 0" and "step_add p q s t" and "is_evicted (props t q) \<longleftrightarrow> evicts s p \<noteq> 0"
        and "is_active (props t q) = QUEUE_IS_ACTIVE (props t q)"
proof (cases "max_num_of_queues_per_device env \<le> total_queue_count (dqm s)")
  case True
  then show ?thesis using u fail step_idle_refl by (auto simp: create_queue_nocpsch_def)
next
  case F0: False
  obtain r1 s1 where 1: "(if queues_list (pdds s p) = [] then allocate_vmid env p q s else (0, s)) = (r1, s1)" by fastforce
  then have R1: "resources_only s s1" by (auto split: if_splits intro: resources_allocate_vmid)
  show ?thesis
  proof (cases "r1 = 0")
    case False
    then show ?thesis using u F0 1 fail resources_idle [OF R1] by (simp add: create_queue_nocpsch_def)
  next
    case T1: True
    define s2 where "s2 = upd_props q (\<lambda>x. x\<lparr>q_vmid := vmid (pdds s1 p), is_evicted := evicted (pdds s1 p) \<noteq> 0,
                 q_tba_addr := tba_addr (pdds s1 p), q_tma_addr := tma_addr (pdds s1 p)\<rparr>) s1"
    have ev: "is_evicted (props s2 q) \<longleftrightarrow> evicts s p \<noteq> 0" using R1 by (simp add: s2_def resources_defs)
    have I2: "step_idle q s s2" by (rule step_idle_trans [OF resources_idle [OF R1]]) (simp add: s2_def)
    obtain r3 s3 where 3: "(if qtype (props s2 q) = OPU_QUEUE_TYPE_COMPUTE then allocate_hqd q s2
        else if is_sdma (qtype (props s2 q)) then allocate_sdma_queue q s2 else (0, s2)) = (r3, s3)" by fastforce
    then have R3: "resources_only s2 s3" by (auto split: if_splits intro: resources_allocate_hqd resources_allocate_sdma_queue)
    note I3 = step_idle_trans [OF I2 resources_idle [OF R3]]
    show ?thesis
    proof (cases "r3 = 0")
      case False
      then have "r = r3" "t = out_deallocate_vmid env p q s3" using u unfolding create_queue_nocpsch_def Let_def
        by (simp_all only: F0 1 3 T1 if_False if_True prod.case simp_thms prod.inject s2_def [symmetric])
      then show ?thesis using fail False idle_out_labels(1) [OF I3] by simp
    next
      case T3: True
      define s4 where "s4 = (if is_sdma (qtype (props s3 q))
        then upd_props q (\<lambda>x. x\<lparr>sdma_vm_addr := asic_init_sdma_vm env (qs s3 q) (pdds s3 p)\<rparr>) s3 else s3)"
      have I4: "step_idle q s s4" "is_evicted (props s4 q) = is_evicted (props s2 q)"
        using step_idle_trans [OF I3] R3 by (auto simp: s4_def I3 resources_defs)
      obtain r5 s5 where 5: "allocate_doorbell p q s4 = (r5, s5)" by fastforce
      have I5: "step_idle q s s5" "is_evicted (props s5 q) = is_evicted (props s2 q)"
        using step_idle_trans [OF I4(1) resources_idle] I4(2) resources_allocate_doorbell [OF 5] by (auto simp: resources_defs)
      show ?thesis
      proof (cases "r5 = 0")
        case False
        then have "r = r5" "t = out_deallocate_hqd env p q s5" using u unfolding create_queue_nocpsch_def Let_def
          by (simp_all only: F0 1 3 5 T1 T3 if_False if_True prod.case simp_thms prod.inject s2_def [symmetric] s4_def [symmetric])
        then show ?thesis using fail False idle_out_labels(2) [OF I5(1)] by simp
      next
        case True
        then have "create_mqd_nocpsch env (mgr_of env s2 q) p q s5 = (r, t)" using u unfolding create_queue_nocpsch_def Let_def
          by (simp only: F0 1 3 5 T1 T3 if_False if_True prod.case simp_thms s2_def [symmetric] s4_def [symmetric])
        with assms(1) show ?thesis
        proof (cases rule: create_mqd_nocpsch_cases)
          case fail
          then show ?thesis using that(1) step_idle_trans [OF I5(1)] by blast
        next
          case ok
          then show ?thesis using that(2) idle_add [OF I5(1)] I5(2) ev by simp
        qed
      qed
    qed
  qed
qed

lemma create_queue_nocpsch_inv:
  assumes "env_ok env" and "dqm_inv s" and "p \<in> set (procs s)" and "q \<notin> set (all_queues s)"
    and "create_queue_nocpsch env q p s = (r, t)"
  shows "dqm_inv t"
  using assms(1,5)
proof (cases rule: create_queue_nocpsch_cases)
  case fail
  then show ?thesis using dqm_inv_idle assms(2,4) by blast
next
  case ok
  then show ?thesis using assms(2-4) by (intro dqm_inv_add [of s p q t]) simp_all
qed

text \<open>Destroying a queue: while the scheduler runs, a queue of a type the driver knows is gone.\<close>

lemma destroy_nocpsch_frame [simp]:
  "pdds (deallocate_sdma_queue q s) = pdds s" "qs (deallocate_sdma_queue q s) = qs s"
  "pdds (deallocate_hqd q s) = pdds s" "qs (deallocate_hqd q s) = qs s"
  by (simp_all add: deallocate_sdma_queue_def deallocate_hqd_def Let_def)

definition free_slot :: "nat \<Rightarrow> 'h dqm_state \<Rightarrow> 'h dqm_state" where
  "free_slot q s = (if qtype (props s q) = OPU_QUEUE_TYPE_COMPUTE then deallocate_hqd q s else deallocate_sdma_queue q s)"

lemma resources_free_slot: "resources_only s (free_slot q s)"
  by (simp add: free_slot_def)

lemma destroy_queue_nocpsch_locked_step:
  assumes "sched_running (dqm s)" and "user_queue_type (qtype (props s q))"
    and "destroy_queue_nocpsch_locked env p q s = (r, t)"
  shows "step_del p q s t" and "sched_running (dqm t)"
proof -
  define s1 where "s1 = free_slot q s"
  define s3 where "s3 = deallocate_doorbell p q (upd_dqm dec_total s1)"
  define s4 where "s4 = hw_call (destroy_mqd (mgr_of env s3 q) (mqd (qs s3 q)) OPU_PREEMPT_TYPE_WAVEFRONT_RESET
                           (q_pipe (qs s3 q)) (q_queue (qs s3 q))) s3"
  define s6 where "s6 = upd_pdd p (\<lambda>x. x\<lparr>queues_list := remove1 q (queues_list x)\<rparr>)
    (if fst s4 = - ETIME then upd_pdd p (\<lambda>x. x\<lparr>reset_wavefronts := True\<rparr>) (snd s4) else snd s4)"
  define s7 where "s7 = (if queues_list (pdds s6 p) = [] then
                       let s6' = (if reset_wavefronts (pdds s6 p) then
                             upd_pdd p (\<lambda>x. x\<lparr>reset_wavefronts := False\<rparr>)
                               (upd_hw (dbgdev_wave_reset_wavefronts env (pdd_process (pdds s6 p))) s6) else s6)
                       in deallocate_vmid env p q s6'
                     else s6)"
  have R1: "resources_only s s1" unfolding s1_def by (rule resources_free_slot)
  have R3: "resources_only (upd_dqm dec_total s1) s3" by (simp add: s3_def)
  have R7: "resources_only s6 s7" by (simp add: s7_def Let_def resources_reset)
  have run: "sched_running (dqm s3)" using R1 R3 assms(1) by (simp add: resources_defs)
  have t: "t = (let s8 = upd_pdd p (\<lambda>x. x\<lparr>queue_count := queue_count x - 1\<rparr>) s7
      in if is_active (props s8 q) then
           let s8' = upd_dqm (decrement_queue_count (qtype (props s8 q))) s8
           in if is_gws (props s8 q)
              then upd_pdd p (\<lambda>x. x\<lparr>mapped_gws_queue := False\<rparr>)
                     (upd_dqm (\<lambda>d. d\<lparr>gws_queue_count := gws_queue_count d - 1\<rparr>) s8')
              else s8'
         else s8)"
  proof -
    have c: "(qtype (props s q) \<noteq> OPU_QUEUE_TYPE_COMPUTE \<and> \<not> is_sdma (qtype (props s q))) = False"
      using assms(2) by (auto simp: user_queue_type_def)
    show ?thesis using arg_cong [OF assms(3), of snd] unfolding destroy_queue_nocpsch_locked_def Let_def case_prod_unfold
      by (simp only: c run if_False if_True simp_thms snd_conv free_slot_def [symmetric] s1_def [symmetric] s3_def [symmetric] s4_def [symmetric]
          s6_def [symmetric] s7_def [symmetric, unfolded Let_def])
  qed
  have v: "ulists s7 = (ulists s1)(p := remove1 q (ulists s1 p))" "qcounts s7 = qcounts s1" "klists s7 = klists s1"
      "evicts s7 = evicts s1" "kqs s7 = kqs s1" "procs s7 = procs s1" "processes_count (dqm s7) = processes_count (dqm s1)"
      "active_queue_count (dqm s7) = active_queue_count (dqm s1)" "active_cp_queue_count (dqm s7) = active_cp_queue_count (dqm s1)"
      "total_queue_count (dqm s7) = total_queue_count (dqm s1) - 1" "\<And>x. same_activity (qs s1 x) (qs s7 x)"
    using R3 R7 by (simp_all add: resources_defs s6_def s4_def fun_eq_iff)
  have a: "is_active (props s7 q) = is_active (props s1 q)" "qtype (props s7 q) = qtype (props s1 q)"
    using v(11) [of q] by (simp_all add: same_activity_def)
  have "step_del p q s1 t"
    using v fun_cong [OF v(1)] fun_cong [OF v(2)] fun_cong [OF v(3)] fun_cong [OF v(4)] a unfolding t Let_def
    by (intro step_del_intro) (simp_all add: w_active_def w_cp_def fun_eq_iff)
  then show "step_del p q s t" using resources_del [OF R1] by blast
  have "sched_running (dqm s7)" using R3 R7 run by (simp add: resources_defs s6_def s4_def)
  then show "sched_running (dqm t)" by (simp add: t Let_def)
qed

lemma destroy_queue_nocpsch_inv:
  assumes "dqm_inv s" and "q \<in> set (ulists s p)" and "sched_running (dqm s)" and "destroy_queue_nocpsch env p q s = (r, t)"
  shows "dqm_inv t"
proof -
  obtain r1 s1 where 1: "destroy_queue_nocpsch_locked env p q s = (r1, s1)" by fastforce
  have "dqm_inv s1"
  proof (cases "user_queue_type (qtype (props s q))")
    case True
    then show ?thesis using dqm_inv_del [OF assms(1,2)] destroy_queue_nocpsch_locked_step(1) [OF assms(3) _ 1] by blast
  next
    case False
    then show ?thesis using 1 assms(1) by (simp add: destroy_queue_nocpsch_locked_def user_queue_type_def)
  qed
  then show ?thesis using assms(4) 1
    by (auto simp: destroy_queue_nocpsch_def Let_def resources_only_dqm_inv [OF resources_sdma_counter] split: if_splits)
qed

text \<open>The loop that destroys the queues of a process ends, and leaves none.\<close>

lemma term_queues_nocpsch_ends:
  assumes "dqm_inv s" and "sched_running (dqm s)" and "\<forall>q\<in>set (ulists s p). user_queue_type (qtype (props s q))"
    and "length (ulists s p) < fuel"
  obtains r t where "term_queues_nocpsch env p fuel (rv, s) = Some (r, t)" and "dqm_inv t" and "ulists t p = []"
    and "klists t = klists s" and "sched_running (dqm t)" and "procs t = procs s"
  using assms
proof (induction fuel arbitrary: s rv thesis)
  case (Suc fuel)
  show ?case
  proof (cases "ulists s p")
    case Nil
    then show ?thesis using Suc.prems by simp
  next
    case (Cons q xs)
    obtain r1 s1 where 1: "destroy_queue_nocpsch_locked env p q s = (r1, s1)" by fastforce
    let ?s2 = "upd_hw (free_mqd (mgr_of env s q) (mqd (qs s1 q)) (mqd_mem_obj (qs s1 q))) s1"
    have q: "q \<in> set (ulists s p)" using Cons by simp
    then have d: "step_del p q s s1" "sched_running (dqm s1)"
      using destroy_queue_nocpsch_locked_step [OF Suc.prems(3) _ 1] Suc.prems(4) by auto
    have v: "ulists s1 p = xs" "klists s1 = klists s" "procs s1 = procs s" "\<And>x. x \<noteq> q \<Longrightarrow> qtype (props s1 x) = qtype (props s x)"
      using d(1) Cons by (auto simp: step_del_def others_same_def same_activity_def fun_eq_iff)
    have "distinct (q # xs)" using Cons inv_lists_distinct [of s p] Suc.prems(2) by (simp add: dqm_inv_def counts_ok_def)
    have "user_queue_type (qtype (props s1 x))" if "x \<in> set xs" for x
    proof -
      have "x \<noteq> q" using that \<open>distinct (q # xs)\<close> by auto
      then show ?thesis using that v(4) Suc.prems(4) Cons by simp
    qed
    then have "\<forall>x\<in>set (ulists ?s2 p). user_queue_type (qtype (props ?s2 x))" using v(1) by simp
    moreover have "dqm_inv ?s2" using dqm_inv_del [OF Suc.prems(2) q d(1)] by simp
    ultimately obtain r t where "term_queues_nocpsch env p fuel (if r1 \<noteq> 0 then r1 else rv, ?s2) = Some (r, t)" "dqm_inv t"
        "ulists t p = []" "klists t = klists ?s2" "sched_running (dqm t)" "procs t = procs ?s2"
      using Suc.IH [where s = ?s2 and rv = "if r1 \<noteq> 0 then r1 else rv"] Suc.prems(5) v(1) d(2) Cons by auto
    then show ?thesis using Suc.prems(1) [of r t] Cons 1 v by (simp add: Let_def)
  qed
qed simp

lemma process_termination_nocpsch_ends:
  assumes "dqm_inv s" and "sched_running (dqm s)" and "\<forall>q\<in>set (ulists s p). user_queue_type (qtype (props s q))"
    and "length (ulists s p) < fuel" and "klists s p = []"
  obtains r t where "process_termination_nocpsch env fuel p s = Some (r, t)" and "dqm_inv t"
    and "p \<notin> set (procs t)" and "ulists t p = []"
proof -
  obtain r1 s1 where 1: "term_queues_nocpsch env p fuel (0, s) = Some (r1, s1)" "dqm_inv s1" "ulists s1 p = []"
    "klists s1 = klists s" "procs s1 = procs s"
    using term_queues_nocpsch_ends [OF assms(1-4)] by metis
  have k: "klists s1 p = []" using fun_cong [OF 1(4), of p] assms(5) by simp
  have "dqm_inv (snd (remove_process p s1))" by (rule remove_process_inv [OF 1(2,3) k])
  moreover have "p \<notin> set (procs (snd (remove_process p s1)))" "ulists (snd (remove_process p s1)) p = []"
    using 1(2,3) by (auto simp: remove_process_def dqm_inv_def counts_ok_def inv_lists_def)
  moreover obtain f s2 where "remove_process p s1 = (f, s2)" by fastforce
  ultimately show ?thesis using 1(1) that [of r1 "if f then opu_dec_compute_active env s2 else s2"]
    by (simp add: process_termination_nocpsch_def split: if_splits)
qed

end
