(* ===== verification/Opu_Dqm_Contract.thy ===== *)
theory Opu_Dqm_Contract
  imports Opu_Dqm_Reach
begin

text \<open>
  The contract of the device queue manager with its clients (the process queue manager and the
  process code): the calls through the table of operations, what a client must respect, and what
  every sequence of calls keeps. The contract is a locale; both schedulers are interpretations.
\<close>

section \<open>Calls\<close>

datatype dqm_call =
    Create_queue nat nat | Destroy_queue nat nat | Update_queue nat
  | Register_process bool nat | Unregister_process nat
  | Create_kernel_queue nat nat | Destroy_kernel_queue nat nat
  | Process_termination nat | Evict_process_queues nat | Restore_process_queues nat
  | Start bool | Stop

text \<open>\<open>None\<close> is a call that does not return, or that goes through a NULL entry of the table.\<close>

fun do_call :: "'h device_queue_manager_ops \<Rightarrow> nat \<Rightarrow> dqm_call \<Rightarrow> 'h dqm_state \<Rightarrow> 'h dqm_state option" where
  "do_call ops fuel (Create_queue q p) s = Some (snd (op_create_queue ops q p s))"
| "do_call ops fuel (Destroy_queue p q) s = Some (snd (op_destroy_queue ops p q s))"
| "do_call ops fuel (Update_queue q) s = Some (snd (op_update_queue ops q s))"
| "do_call ops fuel (Register_process ok p) s = Some (snd (op_register_process ops ok p s))"
| "do_call ops fuel (Unregister_process p) s = Some (snd (op_unregister_process ops p s))"
| "do_call ops fuel (Create_kernel_queue k p) s = map_option (\<lambda>f. snd (f k p s)) (op_create_kernel_queue ops)"
| "do_call ops fuel (Destroy_kernel_queue k p) s = map_option (\<lambda>f. f k p s) (op_destroy_kernel_queue ops)"
| "do_call ops fuel (Process_termination p) s = map_option snd (op_process_termination ops fuel p s)"
| "do_call ops fuel (Evict_process_queues p) s = Some (snd (op_evict_process_queues ops p s))"
| "do_call ops fuel (Restore_process_queues p) s = Some (snd (op_restore_process_queues ops p s))"
| "do_call ops fuel (Start ok) s = Some (snd (op_start ops ok s))"
| "do_call ops fuel Stop s = Some (snd (op_stop ops s))"

text \<open>What the clients respect: a queue is created once, for a registered process; only queues of
  the manager are destroyed or updated; a process is registered once and unregistered without
  queues. \<open>ready\<close> is what destruction needs on top.\<close>

fun call_allowed :: "(nat \<Rightarrow> 'h dqm_state \<Rightarrow> bool) \<Rightarrow> dqm_call \<Rightarrow> 'h dqm_state \<Rightarrow> bool" where
  "call_allowed ready (Create_queue q p) s \<longleftrightarrow> p \<in> set (procs s) \<and> q \<notin> set (all_queues s)"
| "call_allowed ready (Destroy_queue p q) s \<longleftrightarrow> q \<in> set (ulists s p) \<and> ready p s"
| "call_allowed ready (Update_queue q) s \<longleftrightarrow> q \<in> set (all_queues s)"
| "call_allowed ready (Register_process ok p) s \<longleftrightarrow> p \<notin> set (procs s)"
| "call_allowed ready (Unregister_process p) s \<longleftrightarrow> ulists s p = [] \<and> klists s p = []"
| "call_allowed ready (Create_kernel_queue k p) s \<longleftrightarrow> p \<in> set (procs s) \<and> k \<notin> set (klists s p)"
| "call_allowed ready (Destroy_kernel_queue k p) s \<longleftrightarrow> k \<in> set (klists s p)"
| "call_allowed ready (Process_termination p) s \<longleftrightarrow> ready p s"
| "call_allowed ready (Evict_process_queues p) s \<longleftrightarrow> True"
| "call_allowed ready (Restore_process_queues p) s \<longleftrightarrow> True"
| "call_allowed ready (Start ok) s \<longleftrightarrow> True"
| "call_allowed ready Stop s \<longleftrightarrow> True"

inductive dqm_reach ::
  "'h device_queue_manager_ops \<Rightarrow> (nat \<Rightarrow> 'h dqm_state \<Rightarrow> bool) \<Rightarrow> 'h dqm_state \<Rightarrow> 'h dqm_state \<Rightarrow> bool"
  for ops ready s where
  reach_refl: "dqm_reach ops ready s s"
| reach_call: "dqm_reach ops ready s t \<Longrightarrow> call_allowed ready c t \<Longrightarrow> do_call ops fuel c t = Some u \<Longrightarrow> dqm_reach ops ready s u"

section \<open>The contract\<close>

text \<open>\<open>promises\<close> is what the operations rely on in the code below them.\<close>

locale dqm_contract =
  fixes ops :: "'h device_queue_manager_ops" and ready :: "nat \<Rightarrow> 'h dqm_state \<Rightarrow> bool" and promises :: bool
  assumes create: "promises \<Longrightarrow> dqm_inv s \<Longrightarrow> p \<in> set (procs s) \<Longrightarrow> q \<notin> set (all_queues s) \<Longrightarrow>
      op_create_queue ops q p s = (r, t) \<Longrightarrow> dqm_inv t"
    and destroy: "promises \<Longrightarrow> dqm_inv s \<Longrightarrow> q \<in> set (ulists s p) \<Longrightarrow> ready p s \<Longrightarrow> op_destroy_queue ops p q s = (r, t) \<Longrightarrow> dqm_inv t"
    and update: "promises \<Longrightarrow> dqm_inv s \<Longrightarrow> q \<in> set (ulists s p) \<Longrightarrow> op_update_queue ops q s = (r, t) \<Longrightarrow> dqm_inv t"
    and register: "promises \<Longrightarrow> dqm_inv s \<Longrightarrow> p \<notin> set (procs s) \<Longrightarrow> op_register_process ops ok p s = (r, t) \<Longrightarrow> dqm_inv t"
    and unregister: "promises \<Longrightarrow> dqm_inv s \<Longrightarrow> ulists s p = [] \<Longrightarrow> klists s p = [] \<Longrightarrow>
      op_unregister_process ops p s = (r, t) \<Longrightarrow> dqm_inv t"
    and create_kernel: "promises \<Longrightarrow> dqm_inv s \<Longrightarrow> p \<in> set (procs s) \<Longrightarrow> k \<notin> set (klists s p) \<Longrightarrow>
      op_create_kernel_queue ops = Some f \<Longrightarrow> f k p s = (r, t) \<Longrightarrow> dqm_inv t"
    and destroy_kernel: "promises \<Longrightarrow> dqm_inv s \<Longrightarrow> k \<in> set (klists s p) \<Longrightarrow> op_destroy_kernel_queue ops = Some g \<Longrightarrow> dqm_inv (g k p s)"
    and terminate: "promises \<Longrightarrow> dqm_inv s \<Longrightarrow> ready p s \<Longrightarrow> op_process_termination ops fuel p s = Some (r, t) \<Longrightarrow> dqm_inv t"
    and evict: "promises \<Longrightarrow> dqm_inv s \<Longrightarrow> op_evict_process_queues ops p s = (r, t) \<Longrightarrow> dqm_inv t"
    and restore: "promises \<Longrightarrow> dqm_inv s \<Longrightarrow> op_restore_process_queues ops p s = (r, t) \<Longrightarrow> dqm_inv t"
    and start: "promises \<Longrightarrow> dqm_inv s \<Longrightarrow> op_start ops ok s = (r, t) \<Longrightarrow> dqm_inv t"
    and stop: "promises \<Longrightarrow> dqm_inv s \<Longrightarrow> op_stop ops s = (r, t) \<Longrightarrow> dqm_inv t"
begin

lemma call_keeps:
  assumes pr: promises and "dqm_inv s" and "call_allowed ready c s" and "do_call ops fuel c s = Some t"
  shows "dqm_inv t"
proof (cases c)
  case (Create_queue q p)
  then show ?thesis using assms create [OF pr assms(2)] by (metis call_allowed.simps(1) do_call.simps(1) option.inject prod.collapse)
next
  case (Destroy_queue p q)
  then show ?thesis using assms destroy [OF pr assms(2)] by (metis call_allowed.simps(2) do_call.simps(2) option.inject prod.collapse)
next
  case (Update_queue q)
  then obtain p where "q \<in> set (ulists s p)" using assms(3) by auto
  then show ?thesis using assms(4) Update_queue update [OF pr assms(2)] by (metis do_call.simps(3) option.inject prod.collapse)
next
  case (Register_process ok p)
  then show ?thesis using assms register [OF pr assms(2)] by (metis call_allowed.simps(4) do_call.simps(4) option.inject prod.collapse)
next
  case (Unregister_process p)
  then show ?thesis using assms unregister [OF pr assms(2)] by (metis call_allowed.simps(5) do_call.simps(5) option.inject prod.collapse)
next
  case (Create_kernel_queue k p)
  then obtain f where "op_create_kernel_queue ops = Some f" "t = snd (f k p s)" using assms(4) by auto
  then show ?thesis using assms(3) Create_kernel_queue create_kernel [OF pr assms(2)] by (metis call_allowed.simps(6) prod.collapse)
next
  case (Destroy_kernel_queue k p)
  then show ?thesis using assms(3,4) destroy_kernel [OF pr assms(2)] by auto
next
  case (Process_termination p)
  then show ?thesis using assms(3,4) terminate [OF pr assms(2)] by auto
next
  case (Evict_process_queues p)
  then show ?thesis using assms(4) evict [OF pr assms(2)] by (metis do_call.simps(9) option.inject prod.collapse)
next
  case (Restore_process_queues p)
  then show ?thesis using assms(4) restore [OF pr assms(2)] by (metis do_call.simps(10) option.inject prod.collapse)
next
  case (Start ok)
  then show ?thesis using assms(4) start [OF pr assms(2)] by (metis do_call.simps(11) option.inject prod.collapse)
next
  case Stop
  then show ?thesis using assms(4) stop [OF pr assms(2)] by (metis do_call.simps(12) option.inject prod.collapse)
qed

lemma reach_keeps: "dqm_reach ops ready s t \<Longrightarrow> promises \<Longrightarrow> dqm_inv s \<Longrightarrow> dqm_inv t"
  by (induction rule: dqm_reach.induct) (blast intro: call_keeps)+

end

section \<open>Both schedulers keep the contract\<close>

lemma dqm_inv_books:
  assumes "pdds t = pdds s" "qs t = qs s" "kqs t = kqs s" "procs t = procs s"
    "processes_count (dqm t) = processes_count (dqm s)" "active_queue_count (dqm t) = active_queue_count (dqm s)"
    "active_cp_queue_count (dqm t) = active_cp_queue_count (dqm s)" "total_queue_count (dqm t) = total_queue_count (dqm s)"
  shows "dqm_inv t = dqm_inv s"
  using assms by (simp add: dqm_inv_def counts_ok_def inv_lists_def inv_counts_def inv_evict_def)

lemma init_interrupts_sel [simp]:
  "pdds (init_interrupts env s) = pdds s" "qs (init_interrupts env s) = qs s" "kqs (init_interrupts env s) = kqs s"
  "dqm (init_interrupts env s) = dqm s"
proof -
  have "pdds (fold f xs s) = pdds s \<and> qs (fold f xs s) = qs s \<and> kqs (fold f xs s) = kqs s \<and> dqm (fold f xs s) = dqm s"
    if "f = (\<lambda>i s. if is_pipe_enabled (dqm s) 0 i then upd_hw (kgd_init_interrupts env (of_nat i)) s else s)" for f xs
    by (induction xs arbitrary: s) (simp_all add: that)
  then show "pdds (init_interrupts env s) = pdds s" "qs (init_interrupts env s) = qs s" "kqs (init_interrupts env s) = kqs s"
    "dqm (init_interrupts env s) = dqm s" by (simp_all add: init_interrupts_def)
qed

lemma start_stop_inv:
  "dqm_inv (snd (start_nocpsch env s)) = dqm_inv s" "dqm_inv (snd (stop_nocpsch env s)) = dqm_inv s"
  "dqm_inv (snd (start_cpsch env ok s)) = dqm_inv s" "dqm_inv (snd (stop_cpsch env s)) = dqm_inv s"
  by (rule dqm_inv_books; simp add: start_nocpsch_def stop_nocpsch_def start_cpsch_def stop_cpsch_def set_sched_resources_def
      case_prod_unfold Let_def)+

lemma term_queues_nocpsch_inv:
  assumes "term_queues_nocpsch env p fuel (rv, s) = Some (r, t)" and "dqm_inv s" and "sched_running (dqm s)"
  shows "dqm_inv t \<and> ulists t p = [] \<and> klists t = klists s"
  using assms
proof (induction fuel arbitrary: s rv)
  case (Suc fuel)
  show ?case
  proof (cases "ulists s p")
    case Nil
    then show ?thesis using Suc.prems by simp
  next
    case (Cons q xs)
    obtain r1 s1 where 1: "destroy_queue_nocpsch_locked env p q s = (r1, s1)" by fastforce
    have q: "q \<in> set (ulists s p)" using Cons by simp
    have i: "dqm_inv s1 \<and> sched_running (dqm s1) \<and> klists s1 = klists s"
    proof (cases "user_queue_type (qtype (props s q))")
      case True
      note d = destroy_queue_nocpsch_locked_step [OF Suc.prems(3) True 1]
      then have "klists s1 = klists s" by (simp add: step_del_def others_same_def)
      then show ?thesis using dqm_inv_del [OF Suc.prems(2) q] d by blast
    next
      case False
      then have "s1 = s" using 1 by (simp add: destroy_queue_nocpsch_locked_def user_queue_type_def)
      then show ?thesis using Suc.prems(2,3) by simp
    qed
    have "term_queues_nocpsch env p fuel (if r1 \<noteq> 0 then r1 else rv,
        upd_hw (free_mqd (mgr_of env s q) (mqd (qs s1 q)) (mqd_mem_obj (qs s1 q))) s1) = Some (r, t)"
      using Suc.prems(1) Cons 1 by (simp add: Let_def)
    from Suc.IH [OF this] i show ?thesis by simp
  qed
qed simp

text \<open>When a queue may be destroyed: without the hardware scheduler, only while the scheduler runs;
  kernel queues do not exist there.\<close>

definition dqm_ready :: "opu_sched_policy \<Rightarrow> nat \<Rightarrow> 'h dqm_state \<Rightarrow> bool" where
  "dqm_ready pol p s \<longleftrightarrow> (pol = OPU_SCHED_POLICY_NO_HWS \<longrightarrow> sched_running (dqm s) \<and> klists s p = [])"

lemma process_termination_nocpsch_inv:
  assumes "dqm_inv s" and "dqm_ready OPU_SCHED_POLICY_NO_HWS p s" and "process_termination_nocpsch env fuel p s = Some (r, t)"
  shows "dqm_inv t"
proof -
  obtain r1 s1 where 1: "term_queues_nocpsch env p fuel (0, s) = Some (r1, s1)"
    using assms(3) by (auto simp: process_termination_nocpsch_def split: option.splits)
  obtain f s2 where 2: "remove_process p s1 = (f, s2)" by fastforce
  have i: "dqm_inv s1" "ulists s1 p = []" "klists s1 = klists s"
    using term_queues_nocpsch_inv [OF 1 assms(1)] assms(2) by (simp_all add: dqm_ready_def)
  have "dqm_inv s2"
    using remove_process_inv [OF i(1,2)] fun_cong [OF i(3), of p] assms(2) 2 by (simp add: dqm_ready_def)
  then show ?thesis using assms(3) 1 2 by (auto simp: process_termination_nocpsch_def)
qed

lemma start_stop_inv2:
  "dqm_inv s \<Longrightarrow> start_nocpsch env s = (r, t) \<Longrightarrow> dqm_inv t" "dqm_inv s \<Longrightarrow> stop_nocpsch env s = (r, t) \<Longrightarrow> dqm_inv t"
  "dqm_inv s \<Longrightarrow> start_cpsch env ok s = (r, t) \<Longrightarrow> dqm_inv t" "dqm_inv s \<Longrightarrow> stop_cpsch env s = (r, t) \<Longrightarrow> dqm_inv t"
  by (metis snd_conv start_stop_inv)+

lemma dqm_ready_running: "dqm_ready OPU_SCHED_POLICY_NO_HWS p s \<Longrightarrow> sched_running (dqm s)"
  by (simp add: dqm_ready_def)

lemmas shared_ops_inv = update_queue_inv register_process_inv unregister_process_inv start_stop_inv2

lemma cpsch_ops_sel:
  "op_create_queue (cpsch_ops env) = create_queue_cpsch env"
  "op_destroy_queue (cpsch_ops env) = destroy_queue_cpsch env"
  "op_update_queue (cpsch_ops env) = update_queue env"
  "op_register_process (cpsch_ops env) = register_process env"
  "op_unregister_process (cpsch_ops env) = unregister_process env"
  "op_create_kernel_queue (cpsch_ops env) = Some (create_kernel_queue_cpsch env)"
  "op_destroy_kernel_queue (cpsch_ops env) = Some (destroy_kernel_queue_cpsch env)"
  "op_process_termination (cpsch_ops env) = (\<lambda>fuel p s. Some (process_termination_cpsch env p s))"
  "op_evict_process_queues (cpsch_ops env) = evict_process_queues_cpsch env"
  "op_restore_process_queues (cpsch_ops env) = restore_process_queues_cpsch env"
  "op_start (cpsch_ops env) = start_cpsch env"
  "op_stop (cpsch_ops env) = stop_cpsch env"
  by (simp_all add: cpsch_ops_def)

lemma nocpsch_ops_sel:
  "op_create_queue (nocpsch_ops env) = create_queue_nocpsch env"
  "op_destroy_queue (nocpsch_ops env) = destroy_queue_nocpsch env"
  "op_update_queue (nocpsch_ops env) = update_queue env"
  "op_register_process (nocpsch_ops env) = register_process env"
  "op_unregister_process (nocpsch_ops env) = unregister_process env"
  "op_create_kernel_queue (nocpsch_ops env) = None"
  "op_destroy_kernel_queue (nocpsch_ops env) = None"
  "op_process_termination (nocpsch_ops env) = process_termination_nocpsch env"
  "op_evict_process_queues (nocpsch_ops env) = evict_process_queues_nocpsch env"
  "op_restore_process_queues (nocpsch_ops env) = restore_process_queues_nocpsch env"
  "op_start (nocpsch_ops env) = (\<lambda>_. start_nocpsch env)"
  "op_stop (nocpsch_ops env) = stop_nocpsch env"
  by (simp_all add: nocpsch_ops_def)

interpretation cpsch: dqm_contract "cpsch_ops env" "dqm_ready pol" "env_ok env"
  by unfold_locales
    (simp_all only: cpsch_ops_sel option.inject,
      (clarify?, blast intro: shared_ops_inv create_queue_cpsch_inv destroy_queue_cpsch_inv create_kernel_queue_cpsch_inv
        destroy_kernel_queue_cpsch_inv process_termination_cpsch_inv evict_process_queues_cpsch_inv
        restore_process_queues_cpsch_inv)+)

interpretation nocpsch: dqm_contract "nocpsch_ops env" "dqm_ready OPU_SCHED_POLICY_NO_HWS" "env_ok env"
  by unfold_locales
    (simp_all only: nocpsch_ops_sel option.distinct,
      (blast intro: shared_ops_inv create_queue_nocpsch_inv destroy_queue_nocpsch_inv dqm_ready_running
        process_termination_nocpsch_inv evict_process_queues_nocpsch_inv restore_process_queues_nocpsch_inv)+)

section \<open>What the counters count\<close>

text \<open>No process has queues yet.\<close>

definition no_queues :: "'h dqm_state \<Rightarrow> bool" where
  "no_queues s \<longleftrightarrow> (\<forall>p. queues_list (pdds s p) = [] \<and> priv_queue_list (pdds s p) = [] \<and> queue_count (pdds s p) = 0)"

lemma sum_list_if: "sum_list (map (\<lambda>q. if P q then 1 else 0 :: u32) xs) = of_nat (length (filter P xs))"
  by (induction xs) simp_all

lemma counts_plain:
  assumes "dqm_inv s"
  shows "active_queue_count (dqm s) = of_nat (length (filter (\<lambda>q. is_active (props s q)) (all_queues s))
           + length (concat (map (klists s) (procs s))))"
    and "active_cp_queue_count (dqm s) =
           of_nat (length (filter (\<lambda>q. is_active (props s q) \<and> cp_type (qtype (props s q))) (all_queues s))
           + length (filter (\<lambda>k. cp_type (kq_type s k)) (concat (map (klists s) (procs s)))))"
    and "total_queue_count (dqm s) = of_nat (length (all_queues s) + length (concat (map (klists s) (procs s))))"
    and "processes_count (dqm s) = of_nat (length (procs s))"
proof -
  have c: "inv_counts s" using assms by (simp add: dqm_inv_def counts_ok_def)
  note lsum_concat [simp]
  show "active_queue_count (dqm s) = of_nat (length (filter (\<lambda>q. is_active (props s q)) (all_queues s))
           + length (concat (map (klists s) (procs s))))"
    using c unfolding inv_counts_def w_active_def lsum_concat sum_list_if by (simp add: sum_list_triv)
  show "active_cp_queue_count (dqm s) =
           of_nat (length (filter (\<lambda>q. is_active (props s q) \<and> cp_type (qtype (props s q))) (all_queues s))
           + length (filter (\<lambda>k. cp_type (kq_type s k)) (concat (map (klists s) (procs s)))))"
    using c unfolding inv_counts_def w_cp_def wk_cp_def lsum_concat sum_list_if by simp
  show "total_queue_count (dqm s) = of_nat (length (all_queues s) + length (concat (map (klists s) (procs s))))"
    using c unfolding inv_counts_def lsum_concat by (simp add: sum_list_triv)
  show "processes_count (dqm s) = of_nat (length (procs s))" using c by (simp add: inv_counts_def)
qed

lemma fresh_inv:
  assumes "no_queues s0" and "device_queue_manager_init env pol a b c create undef d s0 = Some (ops, s)"
  shows "dqm_inv s" and "dqm_policy pol d = OPU_SCHED_POLICY_NO_HWS \<and> ops = nocpsch_ops env \<or> ops = cpsch_ops env"
proof -
  have "dqm_inv s \<and> (dqm_policy pol d = OPU_SCHED_POLICY_NO_HWS \<and> ops = nocpsch_ops env \<or> ops = cpsch_ops env)"
    using assms
    by (auto simp: device_queue_manager_init_def Let_def dqm_ops_of_def nocpsch_ops_def cpsch_ops_def initialize_nocpsch_def
        initialize_cpsch_def zero_dqm_def dqm_inv_def counts_ok_def inv_lists_def inv_counts_def inv_evict_def no_queues_def
        split: if_splits option.splits opu_sched_policy.splits)
  then show "dqm_inv s" and "dqm_policy pol d = OPU_SCHED_POLICY_NO_HWS \<and> ops = nocpsch_ops env \<or> ops = cpsch_ops env"
    by auto
qed

lemma reach_inv:
  assumes "env_ok env" and "no_queues s0" and "device_queue_manager_init env pol a b c create undef d s0 = Some (ops, s)"
    and "dqm_reach ops (dqm_ready (dqm_policy pol d)) s t"
  shows "dqm_inv t"
  using fresh_inv [OF assms(2,3)] assms(1,4) cpsch.reach_keeps nocpsch.reach_keeps by metis


definition ex_queue_state :: "nat dqm_state" where
  "ex_queue_state = snd (initialize_cpsch (example_dqm_state\<lparr>dqm := zero_dqm\<lparr>dev := example_dev, sched_policy := OPU_SCHED_POLICY_HWS\<rparr>\<rparr>))"

lemma ex_queue_state_init:
  "device_queue_manager_init example_dqm_env OPU_SCHED_POLICY_HWS True True True (\<lambda>_. Some ()) 0 example_dev example_dqm_state =
     Some (cpsch_ops example_dqm_env, ex_queue_state)"
  by (simp add: device_queue_manager_init_def dqm_policy_def example_dev_defs dqm_ops_of_def has_asic_ops_def Let_def
      init_mqd_managers_def cpsch_ops_def ex_queue_state_def initialize_cpsch_def)

definition ex_registered :: "nat dqm_state" where
  "ex_registered = snd (register_process example_dqm_env True 2 ex_queue_state)"

definition ex_with_kernel_queue :: "nat dqm_state" where
  "ex_with_kernel_queue = snd (create_kernel_queue_cpsch example_dqm_env 7 2 ex_registered)"

lemma ex_registered_sel: "procs ex_registered = [2]" "klists ex_registered 2 = []" "ulists ex_registered 2 = []" "total_queue_count (dqm ex_registered) = 0"
  by (simp_all add: ex_registered_def ex_queue_state_def initialize_cpsch_def register_process_def Let_def
      opu_inc_compute_active_def example_dqm_env_def example_dqm_state_def zero_dqm_def zero_pdd_def)

lemma ex_reach: "dqm_reach (cpsch_ops example_dqm_env) (dqm_ready OPU_SCHED_POLICY_HWS) ex_queue_state ex_with_kernel_queue"
proof -
  have "dqm_reach (cpsch_ops example_dqm_env) (dqm_ready OPU_SCHED_POLICY_HWS) ex_queue_state ex_registered"
    by (rule reach_call [OF reach_refl, of _ "Register_process True 2" _ _ 0])
      (simp_all add: ex_queue_state_def initialize_cpsch_def ex_registered_def cpsch_ops_sel)
  then show ?thesis
    by (rule reach_call [of _ _ _ _ "Create_kernel_queue 7 2" 0])
      (simp_all add: ex_registered_sel cpsch_ops_sel ex_with_kernel_queue_def)
qed


end
