(* ===== verification/Opu_Pqm.thy ===== *)
theory Opu_Pqm
  imports Opu_Dqm_Contract
begin

text \<open>
  The process queue manager (\<open>opu_process_queue_manager.c\<close>): the queues of one process on all devices.
  It names the queues by ids, and is the client of the device queue managers, whose tables of operations
  it calls. The process is a number \<open>p\<close>; \<open>devs\<close> are the queue managers of the devices, with the process's
  data on them. A result \<open>None\<close> is the use of a \<open>NULL\<close> pointer, or a call that does not return.
\<close>

section \<open>Data\<close>

text \<open>A user or a kernel queue, with its device.\<close>

record process_queue_node =
  pqn_q :: "(nat \<times> nat) option"
  pqn_kq :: "(nat \<times> nat) option"

text \<open>\<open>struct process_queue_manager\<close>, and what it reaches: \<open>num_gws\<close> of the process's data on each
  device, and the device queue managers.\<close>

record 'h pqm_state =
  pqm_queues :: "process_queue_node list"
  queue_slot_bitmap :: bitmap
  num_gws :: "nat \<Rightarrow> u32"
  devs :: "nat \<Rightarrow> 'h dqm_state"

text \<open>The code around it: the operations of each device's manager, for which devices the process has
  data, and the functions of the graphics driver for global wave sync.\<close>

record 'h pqm_env =
  dev_env :: "nat \<Rightarrow> 'h dqm_env"
  dev_ops :: "nat \<Rightarrow> 'h device_queue_manager_ops"
  has_pdd :: "nat \<Rightarrow> bool"
  kq_alloc :: kq_env
  add_gws_to_process :: "nat \<Rightarrow> 'h \<Rightarrow> (int \<times> nat option) \<times> 'h"
  remove_gws_from_process :: "nat option \<Rightarrow> 'h \<Rightarrow> int \<times> 'h"
  get_num_gws :: "nat \<Rightarrow> u32"

text \<open>The outcomes of the allocations of \<open>pqm_create_queue\<close>; the new queues are at the given numbers.\<close>

record pqm_allocs =
  pqn_ok :: bool
  queue_ok :: bool
  new_queue :: nat
  kq_ok :: bool
  new_kq :: nat
  register_ok :: bool

definition upd_dev :: "nat \<Rightarrow> ('h dqm_state \<Rightarrow> 'h dqm_state) \<Rightarrow> 'h pqm_state \<Rightarrow> 'h pqm_state" where
  "upd_dev d f s = s\<lparr>devs := (devs s)(d := f (devs s d))\<rparr>"

abbreviation dev_op :: "nat \<Rightarrow> ('h dqm_state \<Rightarrow> 'r \<times> 'h dqm_state) \<Rightarrow> 'h pqm_state \<Rightarrow> 'r \<times> 'h pqm_state" where
  "dev_op d f s \<equiv> (fst (f (devs s d)), upd_dev d (\<lambda>x. snd (f x)) s)"

definition no_queues_on :: "nat \<Rightarrow> nat \<Rightarrow> 'h pqm_state \<Rightarrow> bool" where
  "no_queues_on d p s \<longleftrightarrow> queues_list (pdds (devs s d) p) = [] \<and> priv_queue_list (pdds (devs s d) p) = []"

section \<open>Queue ids\<close>

definition node_has_qid :: "'h pqm_state \<Rightarrow> u32 \<Rightarrow> process_queue_node \<Rightarrow> bool" where
  "node_has_qid s qid n \<longleftrightarrow>
     (case pqn_q n of Some (d, q) \<Rightarrow> queue_id (props (devs s d) q) = qid | None \<Rightarrow> False) \<or>
     (case pqn_kq n of Some (d, k) \<Rightarrow> queue_id (properties (kq_queue (kqs (devs s d) k))) = qid | None \<Rightarrow> False)"

definition get_queue_by_qid :: "'h pqm_state \<Rightarrow> u32 \<Rightarrow> process_queue_node option" where
  "get_queue_by_qid s qid = List.find (node_has_qid s qid) (pqm_queues s)"

definition find_available_queue_slot :: "'h pqm_state \<Rightarrow> int \<times> nat option \<times> 'h pqm_state" where
  "find_available_queue_slot s =
     (let found = find_first_zero_bit (queue_slot_bitmap s) OPU_MAX_NUM_OF_QUEUES_PER_PROCESS
      in if OPU_MAX_NUM_OF_QUEUES_PER_PROCESS \<le> found then (- ENOMEM, None, s)
         else (0, Some found, s\<lparr>queue_slot_bitmap := set_bit_at found (queue_slot_bitmap s)\<rparr>))"

section \<open>Set-up, tear-down and termination\<close>

definition opu_process_dequeue_from_device :: "'h pqm_env \<Rightarrow> nat \<Rightarrow> nat \<Rightarrow> nat \<Rightarrow> 'h pqm_state \<Rightarrow> 'h pqm_state option" where
  "opu_process_dequeue_from_device env fuel p d s =
     (if already_dequeued (pdds (devs s d) p) then Some s
      else case op_process_termination (dev_ops env d) fuel p (devs s d) of
             None \<Rightarrow> None
           | Some (_, t) \<Rightarrow> Some (upd_dev d (\<lambda>_. upd_pdd p (\<lambda>x. x\<lparr>already_dequeued := True\<rparr>) t) s))"

fun opu_process_dequeue_from_all_devices ::
  "'h pqm_env \<Rightarrow> nat \<Rightarrow> nat \<Rightarrow> nat list \<Rightarrow> 'h pqm_state \<Rightarrow> 'h pqm_state option" where
  "opu_process_dequeue_from_all_devices env fuel p [] s = Some s"
| "opu_process_dequeue_from_all_devices env fuel p (d # ds) s =
     (case opu_process_dequeue_from_device env fuel p d s of
        None \<Rightarrow> None
      | Some t \<Rightarrow> opu_process_dequeue_from_all_devices env fuel p ds t)"

definition pqm_init :: "bool \<Rightarrow> 'h pqm_state \<Rightarrow> int \<times> 'h pqm_state" where
  "pqm_init kzalloc_ok s =
     (if \<not> kzalloc_ok then (- ENOMEM, s\<lparr>pqm_queues := []\<rparr>)
      else (0, s\<lparr>pqm_queues := [], queue_slot_bitmap := (\<lambda>_. False)\<rparr>))"

definition gws_of :: "'h pqm_state \<Rightarrow> nat \<times> nat \<Rightarrow> nat option" where
  "gws_of s dq = gws (qs (devs s (fst dq)) (snd dq))"

definition remove_gws :: "'h pqm_env \<Rightarrow> nat \<times> nat \<Rightarrow> 'h pqm_state \<Rightarrow> int \<times> 'h pqm_state" where
  "remove_gws env dq s = dev_op (fst dq) (hw_call (remove_gws_from_process env (gws_of s dq))) s"

definition pqm_uninit_node :: "'h pqm_env \<Rightarrow> process_queue_node \<Rightarrow> 'h pqm_state \<Rightarrow> 'h pqm_state" where
  "pqm_uninit_node env n s =
     (let s1 = (case pqn_q n of
                  Some dq \<Rightarrow> if gws_of s dq \<noteq> None then snd (remove_gws env dq s) else s
                | None \<Rightarrow> s)
      in s1\<lparr>pqm_queues := remove1 n (pqm_queues s1)\<rparr>)"

definition pqm_uninit :: "'h pqm_env \<Rightarrow> 'h pqm_state \<Rightarrow> 'h pqm_state" where
  "pqm_uninit env s = (fold (pqm_uninit_node env) (pqm_queues s) s)\<lparr>queue_slot_bitmap := (\<lambda>_. False)\<rparr>"

section \<open>Creating queues\<close>

definition init_user_queue ::
  "pqm_allocs \<Rightarrow> nat \<Rightarrow> nat \<Rightarrow> queue_properties \<Rightarrow> nat \<Rightarrow> 'h pqm_state \<Rightarrow> int \<times> 'h pqm_state" where
  "init_user_queue al p d q_properties qid s =
     (case init_queue (queue_ok al) (q_properties\<lparr>doorbell_ptr := 0, q_vmid := 0, queue_id := of_nat qid\<rparr>) of
        (r, Some q) \<Rightarrow> (r, upd_dev d (upd_q (new_queue al) (\<lambda>_. q\<lparr>q_device := d, q_process := p\<rparr>)) s)
      | (r, None) \<Rightarrow> (r, s))"

text \<open>The kernel queue of the debugger: its creation on the device and its removal.\<close>

definition diq_init :: "'h pqm_env \<Rightarrow> pqm_allocs \<Rightarrow> nat \<Rightarrow> nat \<Rightarrow> 'h pqm_state \<Rightarrow> bool \<times> 'h pqm_state" where
  "diq_init env al d qid s =
     (case kernel_queue_init (kq_ok al) (kq_alloc env) (\<lambda>t. Some (mqd_mgrs (dev_env env d) t)) (dev (dqm (devs s d))) (hw (devs s d)) OPU_QUEUE_TYPE_DIQ of
        (kq, dev', h') \<Rightarrow>
          let s1 = upd_dev d (\<lambda>x. (upd_dqm (\<lambda>m. m\<lparr>dev := dev'\<rparr>) x)\<lparr>hw := h'\<rparr>) s
          in case kq of
               None \<Rightarrow> (False, s1)
             | Some k \<Rightarrow> (True, upd_dev d (\<lambda>x. x\<lparr>kqs := (kqs x)(new_kq al :=
                   k\<lparr>kq_queue := (kq_queue k)\<lparr>properties := (properties (kq_queue k))\<lparr>queue_id := of_nat qid\<rparr>\<rparr>\<rparr>)\<rparr>) s1))"

definition diq_uninit :: "'h pqm_env \<Rightarrow> nat \<Rightarrow> nat \<Rightarrow> 'h pqm_state \<Rightarrow> 'h pqm_state" where
  "diq_uninit env d k s =
     (case kernel_queue_uninit (\<lambda>t. Some (mqd_mgrs (dev_env env d) t)) (dev (dqm (devs s d))) (hw (devs s d)) (kqs (devs s d) k) False of
        (dev', h') \<Rightarrow> upd_dev d (\<lambda>x. (upd_dqm (\<lambda>m. m\<lparr>dev := dev'\<rparr>) x)\<lparr>hw := h'\<rparr>) s)"

text \<open>Over-subscription under the policy that does not allow it.\<close>

definition over_subscribed :: "device_queue_manager \<Rightarrow> bool" where
  "over_subscribed m \<longleftrightarrow> sched_policy m = OPU_SCHED_POLICY_HWS_NO_OVERSUBSCRIPTION \<and>
     (vmid_num (vm_info (dev m)) \<le> processes_count m \<or> of_nat (get_cp_queues_num m) \<le> active_queue_count m)"

text \<open>The switch over the type: the code, the node when the queue exists, and the state.\<close>

definition create_user_node ::
  "'h pqm_env \<Rightarrow> pqm_allocs \<Rightarrow> nat \<Rightarrow> nat \<Rightarrow> queue_properties \<Rightarrow> nat \<Rightarrow> 'h pqm_state \<Rightarrow> int \<times> process_queue_node \<times> 'h pqm_state" where
  "create_user_node env al p d props' qid s =
     (case init_user_queue al p d props' qid s of (retval, s1) \<Rightarrow>
      if retval \<noteq> 0 then (retval, \<lparr>pqn_q = None, pqn_kq = None\<rparr>, s1)
      else case dev_op d (op_create_queue (dev_ops env d) (new_queue al) p) s1 of
             (retval, s2) \<Rightarrow> (retval, \<lparr>pqn_q = Some (d, new_queue al), pqn_kq = None\<rparr>, s2))"

definition create_node ::
  "'h pqm_env \<Rightarrow> pqm_allocs \<Rightarrow> nat \<Rightarrow> nat \<Rightarrow> queue_properties \<Rightarrow> nat \<Rightarrow> 'h pqm_state \<Rightarrow> (int \<times> process_queue_node \<times> 'h pqm_state) option" where
  "create_node env al p d props' qid s =
     (case qtype props' of
        OPU_QUEUE_TYPE_SDMA \<Rightarrow> Some (create_user_node env al p d props' qid s)
      | OPU_QUEUE_TYPE_SDMA_XGMI \<Rightarrow> Some (create_user_node env al p d props' qid s)
      | OPU_QUEUE_TYPE_COMPUTE \<Rightarrow>
          Some (if over_subscribed (dqm (devs s d)) then (- EPERM, \<lparr>pqn_q = None, pqn_kq = None\<rparr>, s)
                else create_user_node env al p d props' qid s)
      | OPU_QUEUE_TYPE_DIQ \<Rightarrow>
          (case diq_init env al d qid s of
             (False, s1) \<Rightarrow> Some (- ENOMEM, \<lparr>pqn_q = None, pqn_kq = None\<rparr>, s1)
           | (True, s1) \<Rightarrow>
               (case op_create_kernel_queue (dev_ops env d) of
                  None \<Rightarrow> None
                | Some f \<Rightarrow> (case dev_op d (f (new_kq al) p) s1 of
                     (retval, s2) \<Rightarrow> Some (retval, \<lparr>pqn_q = None, pqn_kq = Some (d, new_kq al)\<rparr>, s2))))
      | _ \<Rightarrow> Some (- EINVAL, \<lparr>pqn_q = None, pqn_kq = None\<rparr>, s))"

text \<open>The labels \<open>err_create_queue\<close> and \<open>err_allocate_pqn\<close>.\<close>

definition err_allocate_pqn :: "'h pqm_env \<Rightarrow> nat \<Rightarrow> nat \<Rightarrow> nat \<Rightarrow> 'h pqm_state \<Rightarrow> 'h pqm_state" where
  "err_allocate_pqn env p d qid s =
     (let s1 = s\<lparr>queue_slot_bitmap := clear_bit_at qid (queue_slot_bitmap s)\<rparr>
      in if no_queues_on d p s1 then snd (dev_op d (op_unregister_process (dev_ops env d) p) s1) else s1)"

definition err_create_queue :: "'h pqm_env \<Rightarrow> nat \<Rightarrow> nat \<Rightarrow> nat \<Rightarrow> process_queue_node \<Rightarrow> 'h pqm_state \<Rightarrow> 'h pqm_state" where
  "err_create_queue env p d qid n s =
     err_allocate_pqn env p d qid (case pqn_kq n of Some (_, k) \<Rightarrow> diq_uninit env d k s | None \<Rightarrow> s)"

definition pqm_create_queue ::
  "'h pqm_env \<Rightarrow> pqm_allocs \<Rightarrow> nat \<Rightarrow> nat \<Rightarrow> queue_properties \<Rightarrow> 'h pqm_state \<Rightarrow> (int \<times> (nat \<times> u32 option) option \<times> 'h pqm_state) option" where
  "pqm_create_queue env al p d props' s =
     (let pdd = pdds (devs s d) p;
          max_queues = (if is_debug pdd \<or> qtype props' = OPU_QUEUE_TYPE_DIQ
                        then max_no_of_hqd (device_info (dev (dqm (devs s d)))) div 2 else 127)
      in if \<not> has_pdd env d then Some (- 1, None, s)
         else if max_queues \<le> queue_count pdd then Some (- ENOSPC, None, s)
         else case find_available_queue_slot s of
           (retval, None, s1) \<Rightarrow> Some (retval, None, s1)
         | (_, Some qid, s1) \<Rightarrow>
             let s2 = (if no_queues_on d p s1 then snd (dev_op d (op_register_process (dev_ops env d) (register_ok al) p) s1) else s1)
             in if \<not> pqn_ok al then Some (- ENOMEM, None, err_allocate_pqn env p d qid s2)
                else case create_node env al p d props' qid s2 of
                  None \<Rightarrow> None
                | Some (retval, n, s3) \<Rightarrow>
                    if retval \<noteq> 0 then Some (retval, None, err_create_queue env p d qid n s3)
                    else
                      let off = (case pqn_q n of
                            Some (d', q) \<Rightarrow> Some (ucast ((ucast (doorbell_off (props (devs s3 d') q)) * 4) AND
                              (opu_doorbell_process_slice (dev (dqm (devs s3 d))) - 1)))
                          | None \<Rightarrow> None)
                      in Some (retval, Some (qid, off), s3\<lparr>pqm_queues := n # pqm_queues s3\<rparr>))"

section \<open>Destroying queues\<close>

definition destroy_kernel_part :: "'h pqm_env \<Rightarrow> nat \<Rightarrow> process_queue_node \<Rightarrow> 'h pqm_state \<Rightarrow> 'h pqm_state option" where
  "destroy_kernel_part env p n s =
     (case pqn_kq n of
        None \<Rightarrow> Some s
      | Some (d, k) \<Rightarrow>
          (case op_destroy_kernel_queue (dev_ops env d) of
             None \<Rightarrow> None
           | Some g \<Rightarrow> Some (diq_uninit env d k (upd_dev d (g k p) s))))"

text \<open>The user part: the code, whether the destruction goes on, and the state.\<close>

definition destroy_user_part :: "'h pqm_env \<Rightarrow> nat \<Rightarrow> process_queue_node \<Rightarrow> 'h pqm_state \<Rightarrow> int \<times> bool \<times> 'h pqm_state" where
  "destroy_user_part env p n s =
     (case pqn_q n of
        None \<Rightarrow> (0, True, s)
      | Some (d, q) \<Rightarrow>
          (case dev_op d (op_destroy_queue (dev_ops env d) p q) s of (retval, s1) \<Rightarrow>
           if retval \<noteq> 0 \<and> retval \<noteq> - ETIME then (retval, False, s1)
           else
             let s2 = (if gws_of s1 (d, q) \<noteq> None
                       then (snd (remove_gws env (d, q) s1))\<lparr>num_gws := (num_gws s1)(d := 0)\<rparr> else s1)
             in (retval, True, upd_dev d (upd_props q (\<lambda>x. x\<lparr>cu_mask := None\<rparr>)) s2)))"

text \<open>The device of a node: the one of its user queue, if it has one.\<close>

definition node_dev :: "process_queue_node \<Rightarrow> nat option" where
  "node_dev n = (case pqn_q n of Some (d, _) \<Rightarrow> Some d | None \<Rightarrow> map_option fst (pqn_kq n))"

definition pqm_destroy_queue :: "'h pqm_env \<Rightarrow> nat \<Rightarrow> u32 \<Rightarrow> 'h pqm_state \<Rightarrow> (int \<times> 'h pqm_state) option" where
  "pqm_destroy_queue env p qid s =
     (case get_queue_by_qid s qid of
        None \<Rightarrow> Some (- EINVAL, s)
      | Some n \<Rightarrow>
          (case node_dev n of
             None \<Rightarrow> Some (- ENODEV, s)
           | Some d \<Rightarrow>
               if \<not> has_pdd env d then Some (- 1, s)
               else case destroy_kernel_part env p n s of
                 None \<Rightarrow> None
               | Some s1 \<Rightarrow>
                   (case destroy_user_part env p n s1 of (retval, go_on, s2) \<Rightarrow>
                    if \<not> go_on then Some (retval, s2)
                    else
                      let s3 = s2\<lparr>pqm_queues := remove1 n (pqm_queues s2),
                                  queue_slot_bitmap := clear_bit_at (unat qid) (queue_slot_bitmap s2)\<rparr>
                      in Some (retval, if no_queues_on d p s3 then snd (dev_op d (op_unregister_process (dev_ops env d) p) s3) else s3))))"

section \<open>Updates and queries\<close>

definition pqm_update_queue :: "'h pqm_env \<Rightarrow> u32 \<Rightarrow> queue_properties \<Rightarrow> 'h pqm_state \<Rightarrow> (int \<times> 'h pqm_state) option" where
  "pqm_update_queue env qid x s =
     (case get_queue_by_qid s qid of
        None \<Rightarrow> Some (- EFAULT, s)
      | Some n \<Rightarrow>
          (case pqn_q n of
             None \<Rightarrow> None
           | Some (d, q) \<Rightarrow>
               Some (dev_op d (op_update_queue (dev_ops env d) q)
                 (upd_dev d (upd_props q (\<lambda>y. y\<lparr>queue_address := queue_address x, queue_size := queue_size x,
                    queue_percent := queue_percent x, priority := priority x\<rparr>)) s))))"

definition pqm_set_cu_mask :: "'h pqm_env \<Rightarrow> u32 \<Rightarrow> queue_properties \<Rightarrow> 'h pqm_state \<Rightarrow> (int \<times> 'h pqm_state) option" where
  "pqm_set_cu_mask env qid x s =
     (case get_queue_by_qid s qid of
        None \<Rightarrow> Some (- EFAULT, s)
      | Some n \<Rightarrow>
          (case pqn_q n of
             None \<Rightarrow> None
           | Some (d, q) \<Rightarrow>
               Some (dev_op d (op_update_queue (dev_ops env d) q)
                 (upd_dev d (upd_props q (\<lambda>y. y\<lparr>cu_mask_count := cu_mask_count x, cu_mask := cu_mask x\<rparr>)) s))))"

text \<open>The \<open>gws\<close> of the caller is an object or \<open>NULL\<close>.\<close>

definition pqm_set_gws :: "'h pqm_env \<Rightarrow> nat \<Rightarrow> u32 \<Rightarrow> nat option \<Rightarrow> 'h pqm_state \<Rightarrow> int \<times> 'h pqm_state" where
  "pqm_set_gws env p qid g s =
     (case get_queue_by_qid s qid of
        None \<Rightarrow> (- EINVAL, s)
      | Some n \<Rightarrow>
          (case pqn_q n of
             None \<Rightarrow> (- ENODEV, s)
           | Some (d, q) \<Rightarrow>
               if \<not> has_pdd env d then (- EINVAL, s)
               else if g \<noteq> None \<and> num_gws s d \<noteq> 0 then (- EBUSY, s)
               else if g = None \<and> num_gws s d = 0 then (- EINVAL, s)
               else
                 (case (case g of
                          Some x \<Rightarrow> dev_op d (hw_call (add_gws_to_process env x)) s
                        | None \<Rightarrow> (case remove_gws env (d, q) s of (r, s1) \<Rightarrow> ((r, None), s1))) of
                    ((ret, mem), s1) \<Rightarrow>
                      if ret \<noteq> 0 then (ret, s1)
                      else
                        let s2 = upd_dev d (upd_q q (\<lambda>y. y\<lparr>gws := mem\<rparr>)) s1;
                            s3 = s2\<lparr>num_gws := (num_gws s2)(d := if g \<noteq> None then get_num_gws env d else 0)\<rparr>
                        in dev_op d (op_update_queue (dev_ops env d) q) s3)))"

definition pqm_get_kernel_queue :: "'h pqm_state \<Rightarrow> u32 \<Rightarrow> (nat \<times> nat) option" where
  "pqm_get_kernel_queue s qid = (case get_queue_by_qid s qid of None \<Rightarrow> None | Some n \<Rightarrow> pqn_kq n)"

definition pqm_get_user_queue :: "'h pqm_state \<Rightarrow> u32 \<Rightarrow> (nat \<times> nat) option" where
  "pqm_get_user_queue s qid = (case get_queue_by_qid s qid of None \<Rightarrow> None | Some n \<Rightarrow> pqn_q n)"

definition pqm_get_wave_state :: "'h pqm_env \<Rightarrow> u32 \<Rightarrow> 'h pqm_state \<Rightarrow> (int \<times> u32 \<times> u32) option" where
  "pqm_get_wave_state env qid s =
     (case get_queue_by_qid s qid of
        None \<Rightarrow> Some (- EFAULT, 0, 0)
      | Some n \<Rightarrow>
          (case pqn_q n of
             None \<Rightarrow> None
           | Some (d, q) \<Rightarrow> Some (get_wave_state (dev_env env d) q (devs s d))))"

end
