(* ===== verification/Opu_Pqm_Inv.thy ===== *)
theory Opu_Pqm_Inv
  imports Opu_Pqm
begin

text \<open>
  The process queue manager as a client of the device queue managers. The contract of a manager is
  extended by what each call does to the lists of queues and to the processes; both schedulers keep it.
  On top of it: the ids in use, the nodes of the process and the lists of the managers agree after every
  call, and a call that fails leaves them as they were.
\<close>

section \<open>What a client sees of a device queue manager\<close>

text \<open>The ids of the queues and the kernel queues.\<close>

definition kept :: "'h dqm_state \<Rightarrow> 'h dqm_state \<Rightarrow> bool" where
  "kept s t \<longleftrightarrow> (\<forall>x. queue_id (props t x) = queue_id (props s x)) \<and> kqs t = kqs s"

text \<open>The lists of the processes and the processes.\<close>

definition view :: "'h dqm_state \<Rightarrow> (nat \<Rightarrow> nat list) \<times> (nat \<Rightarrow> nat list) \<times> nat list" where
  "view s = (ulists s, klists s, procs s)"

locale dqm_client = dqm_contract +
  assumes create_view: "promises \<Longrightarrow> op_create_queue ops q p s = (r, t) \<Longrightarrow>
      kept s t \<and> view t = (if r = 0 then (ulists s)(p := q # ulists s p) else ulists s, klists s, procs s)"
    and destroy_view: "promises \<Longrightarrow> ready p s \<Longrightarrow> op_destroy_queue ops p q s = (r, t) \<Longrightarrow> r = 0 \<or> r = - ETIME \<Longrightarrow>
      kept s t \<and> view t = ((ulists s)(p := remove1 q (ulists s p)), klists s, procs s)"
    and update_view: "promises \<Longrightarrow> op_update_queue ops q s = (r, t) \<Longrightarrow> kept s t \<and> view t = view s"
    and register_view: "op_register_process ops ok p s = (r, t) \<Longrightarrow>
      kept s t \<and> view t = (ulists s, klists s, if ok then p # procs s else procs s)"
    and unregister_view: "op_unregister_process ops p s = (r, t) \<Longrightarrow> kept s t \<and> view t = (ulists s, klists s, remove1 p (procs s))"
    and create_kernel_view: "op_create_kernel_queue ops = Some f \<Longrightarrow> f k p s = (r, t) \<Longrightarrow>
      kept s t \<and> view t = (ulists s, if r = 0 then (klists s)(p := k # klists s p) else klists s, procs s)"
    and destroy_kernel_view: "op_destroy_kernel_queue ops = Some g \<Longrightarrow>
      kept s (g k p s) \<and> view (g k p s) = (ulists s, (klists s)(p := remove1 k (klists s p)), procs s)"

lemma resources_kept: "resources_only s t \<Longrightarrow> kept s t \<and> view t = view s"
  by (simp add: kept_def view_def resources_defs)

lemma step_kept:
  "step_idle q s t \<Longrightarrow> kept s t \<and> view t = view s"
  "step_add p q s t \<Longrightarrow> kept s t \<and> view t = ((ulists s)(p := q # ulists s p), klists s, procs s)"
  "step_del p q s t \<Longrightarrow> kept s t \<and> view t = ((ulists s)(p := remove1 q (ulists s p)), klists s, procs s)"
  "step_upd q s t \<Longrightarrow> kept s t \<and> view t = view s"
  by (auto simp: kept_def view_def step_defs others_same_def same_activity_def)

lemma create_queue_view:
  "env_ok env \<Longrightarrow> create_queue_cpsch env q p s = (r, t) \<Longrightarrow>
    kept s t \<and> view t = (if r = 0 then (ulists s)(p := q # ulists s p) else ulists s, klists s, procs s)"
  "env_ok env \<Longrightarrow> create_queue_nocpsch env q p s = (r, t) \<Longrightarrow>
    kept s t \<and> view t = (if r = 0 then (ulists s)(p := q # ulists s p) else ulists s, klists s, procs s)"
proof -
  show "kept s t \<and> view t = (if r = 0 then (ulists s)(p := q # ulists s p) else ulists s, klists s, procs s)"
    if "env_ok env" "create_queue_cpsch env q p s = (r, t)"
    using that by (cases rule: create_queue_cpsch_cases) (auto dest: step_kept simp: view_def)
  show "kept s t \<and> view t = (if r = 0 then (ulists s)(p := q # ulists s p) else ulists s, klists s, procs s)"
    if "env_ok env" "create_queue_nocpsch env q p s = (r, t)"
    using that by (cases rule: create_queue_nocpsch_cases) (auto dest: step_kept simp: view_def)
qed

lemma destroy_queue_cpsch_view:
  assumes "destroy_queue_cpsch env p q s = (r, t)" and "r = 0 \<or> r = - ETIME"
  shows "kept s t \<and> view t = ((ulists s)(p := remove1 q (ulists s p)), klists s, procs s)"
  using assms(1) by (cases rule: destroy_queue_cpsch_cases) (use assms(2) in \<open>auto dest: step_kept\<close>)

lemma destroy_queue_nocpsch_view:
  assumes "sched_running (dqm s)" and "destroy_queue_nocpsch env p q s = (r, t)" and "r = 0 \<or> r = - ETIME"
  shows "kept s t \<and> view t = ((ulists s)(p := remove1 q (ulists s p)), klists s, procs s)"
proof -
  obtain r1 s1 where 1: "destroy_queue_nocpsch_locked env p q s = (r1, s1)" by fastforce
  have t: "r = r1" "resources_only s1 t"
    using assms(2) 1 by (auto simp: destroy_queue_nocpsch_def Let_def split: if_splits)
  have u: "user_queue_type (qtype (props s q))"
  proof (rule ccontr)
    assume "\<not> ?thesis"
    then have "r1 = - EINVAL" using 1 by (simp add: destroy_queue_nocpsch_locked_def user_queue_type_def)
    then show False using assms(3) t(1) by simp
  qed
  show ?thesis
    using step_kept(3) [OF destroy_queue_nocpsch_locked_step(1) [OF assms(1) u 1]] resources_kept [OF t(2)] by (simp add: kept_def)
qed

lemma update_queue_view: "env_ok env \<Longrightarrow> update_queue env q s = (r, t) \<Longrightarrow> kept s t \<and> view t = view s"
  by (rule step_kept(4) [OF update_queue_step(1)])

lemma register_process_view:
  assumes "register_process env ok p s = (r, t)"
  shows "kept s t \<and> view t = (ulists s, klists s, if ok then p # procs s else procs s)"
  using assms by (auto simp: register_process_def Let_def kept_def view_def opu_inc_compute_active_def split: if_splits prod.splits)

lemma unregister_process_view:
  "unregister_process env p s = (r, t) \<Longrightarrow> kept s t \<and> view t = (ulists s, klists s, remove1 p (procs s))"
  by (auto simp: unregister_process_def remove_process_def kept_def view_def remove1_idem opu_dec_compute_active_def Let_def split: if_splits prod.splits)

lemma kernel_queue_view:
  "create_kernel_queue_cpsch env k p s = (r, t) \<Longrightarrow>
    kept s t \<and> view t = (ulists s, if r = 0 then (klists s)(p := k # klists s p) else klists s, procs s)"
  "kept s (destroy_kernel_queue_cpsch env k p s) \<and>
    view (destroy_kernel_queue_cpsch env k p s) = (ulists s, (klists s)(p := remove1 k (klists s p)), procs s)"
  by (auto simp: create_kernel_queue_cpsch_def destroy_kernel_queue_cpsch_def Let_def kept_def view_def fun_eq_iff split: if_splits)

lemmas client_views = create_queue_view destroy_queue_cpsch_view update_queue_view register_process_view
  unregister_process_view kernel_queue_view destroy_queue_nocpsch_view [OF dqm_ready_running]

interpretation cpsch_client: dqm_client "cpsch_ops env" "dqm_ready pol" "env_ok env"
  by unfold_locales
    (simp_all only: cpsch_ops_sel option.inject,
      (hypsubst?, ((rule client_views, assumption+) | rule kernel_queue_view(2)))+)

interpretation nocpsch_client: dqm_client "nocpsch_ops env" "dqm_ready OPU_SCHED_POLICY_NO_HWS" "env_ok env"
  by unfold_locales (simp_all only: nocpsch_ops_sel option.distinct, (rule client_views, assumption+)+)

end
