(* ===== verification/Opu_Pqm_Client.thy ===== *)
theory Opu_Pqm_Client
  imports Opu_Pqm_Inv
begin

text \<open>
  The invariant of the process queue manager: its nodes, its map of ids and the lists of all device
  queue managers describe the same queues. A client locale over the contract of the managers carries
  the proofs; it is interpreted for devices that use either scheduler.
\<close>

section \<open>Changes of a manager that its invariant does not see\<close>

lemma dqm_inv_new_queue:
  assumes "dqm_inv s" and "q \<notin> set (all_queues s)"
  shows "dqm_inv (upd_q q f s)"
proof -
  have c: "counts_ok s" using assms(1) by (simp add: dqm_inv_def)
  have u: "q \<notin> set (ulists s p)" for p using fresh_queue [OF c assms(2)] .
  have "counts_ok (upd_q q f s)"
    using c assms(2) by (simp add: counts_ok_def inv_lists_def inv_counts_def sel_upd lsum_fresh del: fun_upd_apply set_concat)
  moreover have "inv_evict (upd_q q f s)"
    using assms(1) u by (auto simp: dqm_inv_def inv_evict_def)
  ultimately show ?thesis by (simp add: dqm_inv_def)
qed

lemma dqm_inv_new_kernel_queue:
  assumes "dqm_inv s" and "\<forall>x. k \<notin> set (klists s x)"
  shows "dqm_inv (s\<lparr>kqs := (kqs s)(k := v)\<rparr>)"
proof -
  have "k \<notin> set (concat (map (klists s) (procs s)))" using assms(2) by auto
  then show ?thesis
    using assms(1) by (simp add: dqm_inv_def inv_evict_def counts_ok_def inv_lists_def inv_counts_def sel_upd lsum_fresh del: fun_upd_apply set_concat)
qed

lemma dqm_inv_same_activity:
  assumes "is_active (properties (f (qs s q))) = is_active (props s q)" "qtype (properties (f (qs s q))) = qtype (props s q)"
    "is_evicted (properties (f (qs s q))) = is_evicted (props s q)"
  shows "dqm_inv (upd_q q f s) = dqm_inv s"
proof -
  have w: "(\<lambda>x. w_active (qs (upd_q q f s) x)) = (\<lambda>x. w_active (qs s x))" "(\<lambda>x. w_cp (qs (upd_q q f s) x)) = (\<lambda>x. w_cp (qs s x))"
    using assms by (auto simp: w_active_def w_cp_def)
  show ?thesis unfolding dqm_inv_def counts_ok_def inv_lists_def inv_counts_def w using assms by (auto simp: inv_evict_def)
qed

section \<open>The invariant\<close>

text \<open>The queues of a node on a device.\<close>

definition users_of :: "nat \<Rightarrow> process_queue_node \<Rightarrow> nat list" where
  "users_of d n = (case pqn_q n of Some (d', q) \<Rightarrow> if d' = d then [q] else [] | None \<Rightarrow> [])"

definition kernels_of :: "nat \<Rightarrow> process_queue_node \<Rightarrow> nat list" where
  "kernels_of d n = (case pqn_kq n of Some (d', k) \<Rightarrow> if d' = d then [k] else [] | None \<Rightarrow> [])"

definition user_queues :: "process_queue_node list \<Rightarrow> nat \<Rightarrow> nat list" where
  "user_queues ns d = concat (map (users_of d) ns)"

definition kernel_queues :: "process_queue_node list \<Rightarrow> nat \<Rightarrow> nat list" where
  "kernel_queues ns d = concat (map (kernels_of d) ns)"

definition node_id :: "'h pqm_state \<Rightarrow> process_queue_node \<Rightarrow> u32" where
  "node_id s n = (case pqn_q n of Some (d, q) \<Rightarrow> queue_id (props (devs s d) q)
     | None \<Rightarrow> (case pqn_kq n of Some (d, k) \<Rightarrow> queue_id (properties (kq_queue (kqs (devs s d) k))) | None \<Rightarrow> 0))"

text \<open>A node is a user queue or a kernel queue.\<close>

definition node_ok :: "process_queue_node \<Rightarrow> bool" where
  "node_ok n \<longleftrightarrow> (pqn_q n = None) \<noteq> (pqn_kq n = None)"

text \<open>The managers hold, of the process, the given user queues and kernel queues, and have registered it
  on the given devices.\<close>

definition agrees :: "nat \<Rightarrow> (nat \<Rightarrow> nat list) \<Rightarrow> (nat \<Rightarrow> nat list) \<Rightarrow> nat set \<Rightarrow> 'h pqm_state \<Rightarrow> bool" where
  "agrees p U K R s \<longleftrightarrow> (\<forall>d. dqm_inv (devs s d) \<and> ulists (devs s d) p = U d \<and> klists (devs s d) p = K d \<and>
     (p \<in> set (procs (devs s d)) \<longleftrightarrow> d \<in> R))"

definition used_devs :: "process_queue_node list \<Rightarrow> nat set" where
  "used_devs ns = {d. user_queues ns d \<noteq> [] \<or> kernel_queues ns d \<noteq> []}"

text \<open>The ids of the nodes are different and in range, and the map holds exactly these.\<close>

definition good_ids :: "u32 list \<Rightarrow> bitmap \<Rightarrow> bool" where
  "good_ids is bm \<longleftrightarrow> distinct is \<and> (\<forall>x\<in>set is. unat x < OPU_MAX_NUM_OF_QUEUES_PER_PROCESS) \<and> (\<forall>i. bm i \<longleftrightarrow> i \<in> unat ` set is)"

abbreviation node_ids :: "'h pqm_state \<Rightarrow> u32 list" where
  "node_ids s \<equiv> map (node_id s) (pqm_queues s)"

definition pqm_inv :: "nat \<Rightarrow> 'h pqm_state \<Rightarrow> bool" where
  "pqm_inv p s \<longleftrightarrow> agrees p (user_queues (pqm_queues s)) (kernel_queues (pqm_queues s)) (used_devs (pqm_queues s)) s \<and>
     (\<forall>n\<in>set (pqm_queues s). node_ok n) \<and> good_ids (node_ids s) (queue_slot_bitmap s)"

lemma pqm_inv_same:
  assumes "pqm_inv p s" and "agrees p (user_queues (pqm_queues s)) (kernel_queues (pqm_queues s)) (used_devs (pqm_queues s)) t"
    and "pqm_queues t = pqm_queues s" and "queue_slot_bitmap t = queue_slot_bitmap s" and "node_ids t = node_ids s"
  shows "pqm_inv p t"
  using assms(1,2) unfolding pqm_inv_def assms(5) unfolding assms(3,4) by blast

lemma queues_of_simps [simp]:
  "user_queues [] d = []" "kernel_queues [] d = []"
  "user_queues (n # ns) d = users_of d n @ user_queues ns d" "kernel_queues (n # ns) d = kernels_of d n @ kernel_queues ns d"
  by (simp_all add: user_queues_def kernel_queues_def)

lemma in_user_queues: "q \<in> set (user_queues ns d) \<longleftrightarrow> (\<exists>n\<in>set ns. pqn_q n = Some (d, q))"
  by (induction ns) (auto simp: users_of_def split: option.splits)

lemma in_kernel_queues: "k \<in> set (kernel_queues ns d) \<longleftrightarrow> (\<exists>n\<in>set ns. pqn_kq n = Some (d, k))"
  by (induction ns) (auto simp: kernels_of_def split: option.splits)

lemma node_ok_cases [consumes 1, case_names user kernel]:
  assumes "node_ok n"
  obtains d q where "pqn_q n = Some (d, q)" "pqn_kq n = None" "node_dev n = Some d"
    | d k where "pqn_q n = None" "pqn_kq n = Some (d, k)" "node_dev n = Some d"
  using assms by (cases "pqn_q n"; cases "pqn_kq n") (auto simp: node_ok_def node_dev_def)

lemma node_eq:
  "node_ok m \<Longrightarrow> node_ok n \<Longrightarrow> pqn_q m = pqn_q n \<Longrightarrow> pqn_q n \<noteq> None \<Longrightarrow> m = n"
  "node_ok m \<Longrightarrow> node_ok n \<Longrightarrow> pqn_kq m = pqn_kq n \<Longrightarrow> pqn_kq n \<noteq> None \<Longrightarrow> m = n"
  by (rule process_queue_node.equality; simp add: node_ok_def del: not_None_eq not_Some_eq)+

lemma user_queues_remove1:
  assumes "\<forall>m\<in>set ns. node_ok m" and "pqn_q n = Some (d, q)" and "pqn_kq n = None"
  shows "user_queues (remove1 n ns) = (user_queues ns)(d := remove1 q (user_queues ns d))"
    and "kernel_queues (remove1 n ns) = kernel_queues ns"
proof -
  have "user_queues (remove1 n ns) d' = ((user_queues ns)(d := remove1 q (user_queues ns d))) d' \<and>
      kernel_queues (remove1 n ns) d' = kernel_queues ns d'" for d'
    using assms
  proof (induction ns)
    case (Cons m ns)
    show ?case
    proof (cases "m = n")
      case True
      then show ?thesis using assms by (auto simp: users_of_def kernels_of_def)
    next
      case False
      then have "pqn_q m \<noteq> Some (d, q)" using Cons.prems node_eq(1) [of m n] by (auto simp: node_ok_def)
      then have "remove1 q (users_of d m @ user_queues ns d) = users_of d m @ remove1 q (user_queues ns d)"
        by (auto simp: users_of_def remove1_append split: option.splits)
      then show ?thesis using Cons False by auto
    qed
  qed simp
  then show "user_queues (remove1 n ns) = (user_queues ns)(d := remove1 q (user_queues ns d))"
    and "kernel_queues (remove1 n ns) = kernel_queues ns" by blast+
qed

lemma kernel_queues_remove1:
  assumes "\<forall>m\<in>set ns. node_ok m" and "pqn_q n = None" and "pqn_kq n = Some (d, k)"
  shows "kernel_queues (remove1 n ns) = (kernel_queues ns)(d := remove1 k (kernel_queues ns d))"
    and "user_queues (remove1 n ns) = user_queues ns"
proof -
  have "kernel_queues (remove1 n ns) d' = ((kernel_queues ns)(d := remove1 k (kernel_queues ns d))) d' \<and>
      user_queues (remove1 n ns) d' = user_queues ns d'" for d'
    using assms
  proof (induction ns)
    case (Cons m ns)
    show ?case
    proof (cases "m = n")
      case True
      then show ?thesis using assms by (auto simp: users_of_def kernels_of_def)
    next
      case False
      then have "pqn_kq m \<noteq> Some (d, k)" using Cons.prems node_eq(2) [of m n] by (auto simp: node_ok_def)
      then have "remove1 k (kernels_of d m @ kernel_queues ns d) = kernels_of d m @ remove1 k (kernel_queues ns d)"
        by (auto simp: kernels_of_def remove1_append split: option.splits)
      then show ?thesis using Cons False by auto
    qed
  qed simp
  then show "kernel_queues (remove1 n ns) = (kernel_queues ns)(d := remove1 k (kernel_queues ns d))"
    and "user_queues (remove1 n ns) = user_queues ns" by blast+
qed

text \<open>A search by id finds the node with that id.\<close>

lemma node_has_qid_iff: "node_ok n \<Longrightarrow> node_has_qid s qid n \<longleftrightarrow> node_id s n = qid"
  by (auto simp: node_ok_def node_has_qid_def node_id_def split: option.splits)

lemma get_queue_by_qid_iff:
  assumes "\<forall>n\<in>set (pqm_queues s). node_ok n" and "distinct (map (node_id s) (pqm_queues s))"
  shows "get_queue_by_qid s qid = Some n \<longleftrightarrow> n \<in> set (pqm_queues s) \<and> node_id s n = qid"
proof -
  have "List.find (node_has_qid s qid) xs = Some n \<longleftrightarrow> n \<in> set xs \<and> node_id s n = qid"
    if "\<forall>n\<in>set xs. node_ok n" "distinct (map (node_id s) xs)" for xs
    using that by (induction xs) (auto simp: node_has_qid_iff)
  then show ?thesis using assms by (simp add: get_queue_by_qid_def)
qed


lemma good_ids_add:
  assumes "good_ids is bm" and "\<not> bm i" and "i < OPU_MAX_NUM_OF_QUEUES_PER_PROCESS"
  shows "good_ids (of_nat i # is) (set_bit_at i bm)"
proof -
  have i: "unat (of_nat i :: u32) = i" using assms(3) by (simp add: unat_of_nat)
  then have "of_nat i \<notin> set is" using assms(1,2) by (force simp: good_ids_def)
  then show ?thesis using assms i by (auto simp: good_ids_def set_bit_at_def)
qed

lemma good_ids_del:
  assumes "good_ids is bm" and "x \<in> set is"
  shows "good_ids (remove1 x is) (clear_bit_at (unat x) bm)"
proof -
  have "unat ` set (remove1 x is) = unat ` set is - {unat x}"
    using assms by (auto simp: good_ids_def unsigned_word_eqI)
  then show ?thesis using assms by (auto simp: good_ids_def clear_bit_at_def)
qed

lemma set_clear_bit: "\<not> bm i \<Longrightarrow> clear_bit_at i (set_bit_at i bm) = bm"
  by (simp add: clear_bit_at_def set_bit_at_def fun_upd_idem)

lemma map_remove1_inj: "inj_on f (insert n (set xs)) \<Longrightarrow> map f (remove1 n xs) = remove1 (f n) (map f xs)"
  by (induction xs) (auto simp: inj_on_def)


section \<open>The client\<close>

text \<open>A call that leaves the nodes, the map and the ids.\<close>

definition quiet :: "'h pqm_state \<Rightarrow> 'h pqm_state \<Rightarrow> bool" where
  "quiet s t \<longleftrightarrow> pqm_queues t = pqm_queues s \<and> queue_slot_bitmap t = queue_slot_bitmap s \<and> (\<forall>d. kept (devs s d) (devs t d))"

lemma kept_refl [simp]: "kept s s"
  by (simp add: kept_def)

lemma quiet_refl [simp]: "quiet s s"
  by (simp add: quiet_def)

lemma quiet_num_gws [simp]: "quiet s (t\<lparr>num_gws := w\<rparr>) = quiet s t"
  by (simp add: quiet_def)

lemma quiet_trans: "quiet s t \<Longrightarrow> quiet t u \<Longrightarrow> quiet s u"
  by (simp add: quiet_def kept_def)

lemma quiet_node_id: "quiet s t \<Longrightarrow> node_id t = node_id s"
  by (auto simp: quiet_def kept_def node_id_def fun_eq_iff split: option.splits)

lemma quiet_dev: "kept (devs s d) (f (devs s d)) \<Longrightarrow> quiet s (upd_dev d f s)"
  by (simp add: quiet_def upd_dev_def)

lemma upd_dev_sel [simp]:
  "devs (upd_dev d f s) = (devs s)(d := f (devs s d))" "pqm_queues (upd_dev d f s) = pqm_queues s"
  "queue_slot_bitmap (upd_dev d f s) = queue_slot_bitmap s" "num_gws (upd_dev d f s) = num_gws s"
  by (simp_all add: upd_dev_def)

lemma dev_opE:
  assumes "dev_op d f s = (r, t)"
  obtains s' where "f (devs s d) = (r, s')" "t = upd_dev d (\<lambda>_. s') s"
proof (rule that)
  show "f (devs s d) = (r, snd (f (devs s d)))" and "t = upd_dev d (\<lambda>_. snd (f (devs s d))) s"
    using assms by (auto simp: upd_dev_def)
qed

lemma agrees_dev:
  assumes "agrees p U K R s" and "dqm_inv (f (devs s d))" and "ulists (f (devs s d)) p = u" and "klists (f (devs s d)) p = k"
    and "p \<in> set (procs (f (devs s d))) \<longleftrightarrow> d \<in> R'" and "\<forall>x. x \<noteq> d \<longrightarrow> (x \<in> R' \<longleftrightarrow> x \<in> R)"
  shows "agrees p (U(d := u)) (K(d := k)) R' (upd_dev d f s)"
  using assms by (simp add: agrees_def)

lemma agrees_dev_same:
  assumes "agrees p U K R s" and "dqm_inv (f (devs s d))" and "view (f (devs s d)) = view (devs s d)"
  shows "agrees p U K R (upd_dev d f s)"
  using assms by (auto simp: agrees_def view_def dest: fun_cong [where x = p])

lemma agreesD:
  assumes "agrees p U K R s"
  shows "dqm_inv (devs s d)" "ulists (devs s d) p = U d" "klists (devs s d) p = K d" "p \<in> set (procs (devs s d)) \<longleftrightarrow> d \<in> R"
  using assms by (simp_all add: agrees_def)

lemma agrees_fields [simp]:
  "agrees p U K R (s\<lparr>pqm_queues := ns\<rparr>) = agrees p U K R s" "agrees p U K R (s\<lparr>queue_slot_bitmap := bm\<rparr>) = agrees p U K R s"
  "agrees p U K R (s\<lparr>num_gws := g\<rparr>) = agrees p U K R s"
  by (simp_all add: agrees_def)

lemma node_id_fields [simp]:
  "node_id (s\<lparr>pqm_queues := ns\<rparr>) = node_id s" "node_id (s\<lparr>queue_slot_bitmap := bm\<rparr>) = node_id s"
  "node_id (s\<lparr>num_gws := g\<rparr>) = node_id s"
  by (auto simp: node_id_def fun_eq_iff split: option.splits)

lemma no_queues_on_iff: "agrees p U K R s \<Longrightarrow> no_queues_on d p s \<longleftrightarrow> U d = [] \<and> K d = []"
  by (simp add: agrees_def no_queues_on_def)

text \<open>A change that keeps the ids of the queues in the lists.\<close>

definition listed :: "(nat \<Rightarrow> nat list) \<Rightarrow> (nat \<Rightarrow> nat list) \<Rightarrow> process_queue_node \<Rightarrow> bool" where
  "listed U K m \<longleftrightarrow> (\<forall>d q. pqn_q m = Some (d, q) \<longrightarrow> q \<in> set (U d)) \<and> (\<forall>d k. pqn_kq m = Some (d, k) \<longrightarrow> k \<in> set (K d))"

definition quiet_on :: "(nat \<Rightarrow> nat list) \<Rightarrow> (nat \<Rightarrow> nat list) \<Rightarrow> 'h pqm_state \<Rightarrow> 'h pqm_state \<Rightarrow> bool" where
  "quiet_on U K s t \<longleftrightarrow> pqm_queues t = pqm_queues s \<and> queue_slot_bitmap t = queue_slot_bitmap s \<and>
     (\<forall>m. listed U K m \<longrightarrow> node_id t m = node_id s m)"

lemma quiet_on_quiet: "quiet s t \<Longrightarrow> quiet_on U K s t"
  by (frule quiet_node_id) (simp add: quiet_on_def quiet_def)

lemma quiet_on_trans: "quiet_on U K s t \<Longrightarrow> quiet_on U K t u \<Longrightarrow> quiet_on U K s u"
  by (simp add: quiet_on_def)

lemma listed_nodes: "n \<in> set ns \<Longrightarrow> listed (user_queues ns) (kernel_queues ns) n"
  by (auto simp: listed_def in_user_queues in_kernel_queues)

lemma quiet_on_node_ids:
  "quiet_on (user_queues (pqm_queues s)) (kernel_queues (pqm_queues s)) s t \<Longrightarrow> node_ids t = node_ids s"
  by (simp add: quiet_on_def listed_nodes)

text \<open>The new objects are not in use.\<close>

definition fresh_objects :: "pqm_allocs \<Rightarrow> 'h dqm_state \<Rightarrow> bool" where
  "fresh_objects al s \<longleftrightarrow> (\<forall>x. new_queue al \<notin> set (ulists s x)) \<and> (\<forall>x. new_kq al \<notin> set (klists s x))"

lemma listed_not_new:
  assumes "agrees p U K R s" and "fresh_objects al (devs s d)" and "listed U K m"
  shows "pqn_q m \<noteq> Some (d, new_queue al)" and "pqn_kq m \<noteq> Some (d, new_kq al)"
proof -
  have "new_queue al \<notin> set (U d)" using assms(2) agreesD(2) [OF assms(1), of d] unfolding fresh_objects_def by metis
  then show "pqn_q m \<noteq> Some (d, new_queue al)" using assms(3) by (auto simp: listed_def)
  have "new_kq al \<notin> set (K d)" using assms(2) agreesD(3) [OF assms(1), of d] unfolding fresh_objects_def by metis
  then show "pqn_kq m \<noteq> Some (d, new_kq al)" using assms(3) by (auto simp: listed_def)
qed

lemma init_user_queue_step:
  assumes "agrees p U K R s" and "fresh_objects al (devs s d)" and "init_user_queue al p d x qid s = (r, t)"
  shows "agrees p U K R t \<and> quiet_on U K s t \<and> fresh_objects al (devs t d) \<and>
    (r = 0 \<longrightarrow> queue_id (props (devs t d) (new_queue al)) = of_nat qid)"
proof (cases "queue_ok al")
  case True
  then obtain f where t: "t = upd_dev d (upd_q (new_queue al) f) s" "queue_id (properties (f (qs (devs s d) (new_queue al)))) = of_nat qid"
    using assms(3) by (auto simp: init_user_queue_def init_queue_def)
  have "dqm_inv (upd_q (new_queue al) f (devs s d))"
    using dqm_inv_new_queue [OF agreesD(1) [OF assms(1)]] assms(2) by (simp add: fresh_objects_def)
  then have "agrees p U K R t" unfolding t by (rule agrees_dev_same [OF assms(1)]) (simp add: view_def)
  moreover have "quiet_on U K s t"
    using listed_not_new [OF assms(1,2)] unfolding t quiet_on_def by (auto simp: node_id_def split: option.splits)
  ultimately show ?thesis using assms(2) t by (simp add: fresh_objects_def)
next
  case False
  then show ?thesis using assms by (simp add: init_user_queue_def init_queue_def quiet_on_quiet)
qed

lemma dqm_inv_dev_hw [simp]: "dqm_inv ((upd_dqm (\<lambda>m. m\<lparr>dev := x\<rparr>) s)\<lparr>hw := h\<rparr>) = dqm_inv s"
  by (rule dqm_inv_books) simp_all

lemma dev_hw_step:
  assumes "agrees p U K R s" and "t = upd_dev d (\<lambda>x. (upd_dqm (\<lambda>m. m\<lparr>dev := x'\<rparr>) x)\<lparr>hw := h\<rparr>) s"
  shows "agrees p U K R t \<and> quiet s t"
  unfolding assms(2)
  by (intro conjI agrees_dev_same [OF assms(1)] quiet_dev)
    (simp_all only: dqm_inv_dev_hw agreesD(1) [OF assms(1)], simp_all add: view_def kept_def)

lemma diq_uninit_step: "agrees p U K R s \<Longrightarrow> agrees p U K R (diq_uninit env d k s) \<and> quiet s (diq_uninit env d k s)"
  unfolding diq_uninit_def case_prod_unfold by (rule dev_hw_step [OF _ refl])

lemma diq_init_step:
  assumes "agrees p U K R s" and "fresh_objects al (devs s d)" and "diq_init env al d qid s = (b, t)"
  shows "agrees p U K R t \<and> quiet_on U K s t \<and> fresh_objects al (devs t d) \<and>
    (b \<longrightarrow> queue_id (properties (kq_queue (kqs (devs t d) (new_kq al)))) = of_nat qid)"
proof -
  obtain kq x' h' where 1: "kernel_queue_init (kq_ok al) (kq_alloc env) (\<lambda>t. Some (mqd_mgrs (dev_env env d) t)) (dev (dqm (devs s d)))
      (hw (devs s d)) OPU_QUEUE_TYPE_DIQ = (kq, x', h')" by (metis prod_cases3)
  define s1 where "s1 = upd_dev d (\<lambda>x. (upd_dqm (\<lambda>m. m\<lparr>dev := x'\<rparr>) x)\<lparr>hw := h'\<rparr>) s"
  have a1: "agrees p U K R s1" "quiet s s1" using dev_hw_step [OF assms(1) s1_def] by simp_all
  have f1: "fresh_objects al (devs s1 d)" using assms(2) by (simp add: fresh_objects_def s1_def)
  show ?thesis
  proof (cases kq)
    case None
    then have "t = s1" "\<not> b" using assms(3) 1 by (simp_all add: diq_init_def s1_def)
    then show ?thesis using a1 f1 quiet_on_quiet by blast
  next
    case (Some k)
    define v where "v = k\<lparr>kq_queue := (kq_queue k)\<lparr>properties := (properties (kq_queue k))\<lparr>queue_id := of_nat qid\<rparr>\<rparr>\<rparr>"
    have t: "t = upd_dev d (\<lambda>x. x\<lparr>kqs := (kqs x)(new_kq al := v)\<rparr>) s1" "queue_id (properties (kq_queue v)) = of_nat qid"
      using assms(3) 1 Some by (simp_all add: diq_init_def v_def flip: s1_def)
    have "dqm_inv ((devs s1 d)\<lparr>kqs := (kqs (devs s1 d))(new_kq al := v)\<rparr>)"
      using dqm_inv_new_kernel_queue [OF agreesD(1) [OF a1(1)]] f1 by (simp add: fresh_objects_def)
    then have "agrees p U K R t" unfolding t by (rule agrees_dev_same [OF a1(1)]) (simp add: view_def)
    moreover have "quiet_on U K s1 t"
      using listed_not_new [OF a1(1) f1] unfolding t quiet_on_def by (auto simp: node_id_def split: option.splits)
    ultimately show ?thesis using f1 t quiet_on_trans [OF quiet_on_quiet [OF a1(2)]] by (simp add: fresh_objects_def)
  qed
qed

text \<open>The devices use managers that keep the contract.\<close>

locale pqm_client =
  fixes env :: "'h pqm_env" and pol :: "nat \<Rightarrow> opu_sched_policy" and promises :: bool
  assumes client: "promises \<Longrightarrow> dqm_client (dev_ops env d) (dqm_ready (pol d)) True"
begin

lemma contract: "promises \<Longrightarrow> dqm_contract (dev_ops env d) (dqm_ready (pol d)) True"
  using client dqm_client.axioms(1) by blast

lemma register_step:
  assumes pr: promises and a: "agrees p U K R s" and "d \<notin> R" and t: "t = snd (dev_op d (op_register_process (dev_ops env d) True p) s)"
  shows "agrees p U K (insert d R) t \<and> quiet s t \<and> fresh_objects al (devs t e) = fresh_objects al (devs s e)"
proof -
  obtain r s' where 1: "op_register_process (dev_ops env d) True p (devs s d) = (r, s')" by fastforce
  have v: "kept (devs s d) s'" "view s' = (ulists (devs s d), klists (devs s d), p # procs (devs s d))"
    using dqm_client.register_view [OF client [OF pr] 1] by simp_all
  have i: "dqm_inv s'" using dqm_contract.register [OF contract [OF pr] TrueI agreesD(1) [OF a] _ 1] agreesD(4) [OF a, of d] assms(3) by simp
  have "agrees p (U(d := U d)) (K(d := K d)) (insert d R) (upd_dev d (\<lambda>_. s') s)"
    using v(2) agreesD(2,3) [OF a, of d] fun_cong [of "ulists s'" "ulists (devs s d)" p] fun_cong [of "klists s'" "klists (devs s d)" p]
    by (intro agrees_dev [OF a]) (simp_all add: i view_def)
  moreover have "fresh_objects al s' = fresh_objects al (devs s d)"
    using v(2) unfolding fresh_objects_def view_def by (metis prod.inject)
  ultimately show ?thesis using 1 v(1) quiet_dev [of s d "\<lambda>_. s'"] unfolding t by (simp add: upd_dev_def)
qed

lemma unregister_step:
  assumes pr: promises and a: "agrees p U K R s" and "U d = []" "K d = []"
    and t: "t = snd (dev_op d (op_unregister_process (dev_ops env d) p) s)"
  shows "agrees p U K (R - {d}) t \<and> quiet s t"
proof -
  obtain r s' where 1: "op_unregister_process (dev_ops env d) p (devs s d) = (r, s')" by fastforce
  have v: "kept (devs s d) s'" "view s' = (ulists (devs s d), klists (devs s d), remove1 p (procs (devs s d)))"
    using dqm_client.unregister_view [OF client [OF pr] 1] by simp_all
  have i: "dqm_inv s'" using dqm_contract.unregister [OF contract [OF pr] TrueI agreesD(1) [OF a] _ _ 1] agreesD(2,3) [OF a, of d] assms(3,4) by simp
  have "distinct (procs (devs s d))" using agreesD(1) [OF a, of d] by (simp add: dqm_inv_def counts_ok_def inv_lists_def)
  then have "agrees p (U(d := U d)) (K(d := K d)) (R - {d}) (upd_dev d (\<lambda>_. s') s)"
    using v(2) agreesD(2,3) [OF a, of d] fun_cong [of "ulists s'" "ulists (devs s d)" p] fun_cong [of "klists s'" "klists (devs s d)" p]
    by (intro agrees_dev [OF a]) (simp_all add: i view_def)
  then show ?thesis using 1 v(1) quiet_dev [of s d "\<lambda>_. s'"] unfolding t by (simp add: upd_dev_def)
qed

lemma update_step:
  assumes pr: promises and a: "agrees p U K R s" and "q \<in> set (U d)" and t: "dev_op d (op_update_queue (dev_ops env d) q) s = (r, t)"
  shows "agrees p U K R t \<and> quiet s t"
proof -
  obtain s' where 1: "op_update_queue (dev_ops env d) q (devs s d) = (r, s')" "t = upd_dev d (\<lambda>_. s') s"
    using t by (rule dev_opE)
  have v: "kept (devs s d) s'" "view s' = view (devs s d)"
    using dqm_client.update_view [OF client [OF pr] TrueI 1(1)] by simp_all
  have i: "dqm_inv s'" using dqm_contract.update [OF contract [OF pr] TrueI agreesD(1) [OF a] _ 1(1), of p] agreesD(2) [OF a, of d] assms(3) by simp
  show ?thesis unfolding 1(2) using agrees_dev_same [OF a, of "\<lambda>_. s'"] i v quiet_dev [of s d "\<lambda>_. s'"] by simp
qed

lemma create_step:
  assumes pr: promises and a: "agrees p U K R s" and "d \<in> R" and "q \<notin> set (all_queues (devs s d))"
    and t: "dev_op d (op_create_queue (dev_ops env d) q p) s = (r, t)"
  shows "agrees p (if r = 0 then U(d := q # U d) else U) K R t \<and> quiet s t"
proof -
  obtain s' where 1: "op_create_queue (dev_ops env d) q p (devs s d) = (r, s')" "t = upd_dev d (\<lambda>_. s') s"
    using t by (rule dev_opE)
  define us where "us = (if r = 0 then (ulists (devs s d))(p := q # ulists (devs s d) p) else ulists (devs s d))"
  have v: "kept (devs s d) s'" "view s' = (us, klists (devs s d), procs (devs s d))"
    using dqm_client.create_view [OF client [OF pr] TrueI 1(1)] by (simp_all add: us_def)
  have i: "dqm_inv s'" using dqm_contract.create [OF contract [OF pr] TrueI agreesD(1) [OF a] _ assms(4) 1(1)] agreesD(4) [OF a, of d] assms(3) by simp
  have "agrees p (U(d := if r = 0 then q # U d else U d)) (K(d := K d)) R (upd_dev d (\<lambda>_. s') s)"
    using v(2) agreesD(2-4) [OF a, of d] assms(3) fun_cong [of "ulists s'" us p] fun_cong [of "klists s'" "klists (devs s d)" p]
    by (intro agrees_dev [OF a]) (simp_all add: i view_def us_def)
  then show ?thesis unfolding 1(2) using v(1) quiet_dev [of s d "\<lambda>_. s'"] by (simp split: if_splits)
qed

lemma destroy_step:
  assumes pr: promises and a: "agrees p U K R s" and "q \<in> set (U d)" and rd: "dqm_ready (pol d) p (devs s d)" and "r = 0 \<or> r = - ETIME"
    and t: "dev_op d (op_destroy_queue (dev_ops env d) p q) s = (r, t)"
  shows "agrees p (U(d := remove1 q (U d))) K R t \<and> quiet s t"
proof -
  obtain s' where 1: "op_destroy_queue (dev_ops env d) p q (devs s d) = (r, s')" "t = upd_dev d (\<lambda>_. s') s"
    using t by (rule dev_opE)
  define us where "us = (ulists (devs s d))(p := remove1 q (ulists (devs s d) p))"
  have v: "kept (devs s d) s'" "view s' = (us, klists (devs s d), procs (devs s d))"
    using dqm_client.destroy_view [OF client [OF pr] TrueI rd 1(1) assms(5)] by (simp_all add: us_def)
  have q: "q \<in> set (ulists (devs s d) p)" using agreesD(2) [OF a, of d] assms(3) by simp
  have i: "dqm_inv s'" by (rule dqm_contract.destroy [OF contract [OF pr] TrueI agreesD(1) [OF a] q rd 1(1)])
  have "agrees p (U(d := remove1 q (U d))) (K(d := K d)) R (upd_dev d (\<lambda>_. s') s)"
    using v(2) agreesD(2-4) [OF a, of d] fun_cong [of "ulists s'" us p] fun_cong [of "klists s'" "klists (devs s d)" p]
    by (intro agrees_dev [OF a]) (simp_all add: i view_def us_def)
  then show ?thesis unfolding 1(2) using v(1) quiet_dev [of s d "\<lambda>_. s'"] by simp
qed

lemma create_kernel_step:
  assumes pr: promises and a: "agrees p U K R s" and "d \<in> R" and "k \<notin> set (K d)" and f: "op_create_kernel_queue (dev_ops env d) = Some f"
    and t: "dev_op d (f k p) s = (r, t)"
  shows "agrees p U (if r = 0 then K(d := k # K d) else K) R t \<and> quiet s t"
proof -
  obtain s' where 1: "f k p (devs s d) = (r, s')" "t = upd_dev d (\<lambda>_. s') s"
    using t by (rule dev_opE)
  define ks where "ks = (if r = 0 then (klists (devs s d))(p := k # klists (devs s d) p) else klists (devs s d))"
  have v: "kept (devs s d) s'" "view s' = (ulists (devs s d), ks, procs (devs s d))"
    using dqm_client.create_kernel_view [OF client [OF pr] f 1(1)] by (simp_all add: ks_def)
  have i: "dqm_inv s'"
    using dqm_contract.create_kernel [OF contract [OF pr] TrueI agreesD(1) [OF a] _ _ f 1(1)] agreesD(3,4) [OF a, of d] assms(3,4) by simp
  have "agrees p (U(d := U d)) (K(d := if r = 0 then k # K d else K d)) R (upd_dev d (\<lambda>_. s') s)"
    using v(2) agreesD(2-4) [OF a, of d] assms(3) fun_cong [of "klists s'" ks p] fun_cong [of "ulists s'" "ulists (devs s d)" p]
    by (intro agrees_dev [OF a]) (simp_all add: i view_def ks_def)
  then show ?thesis unfolding 1(2) using v(1) quiet_dev [of s d "\<lambda>_. s'"] by (simp split: if_splits)
qed

lemma destroy_kernel_step:
  assumes pr: promises and a: "agrees p U K R s" and "k \<in> set (K d)" and g: "op_destroy_kernel_queue (dev_ops env d) = Some g"
    and t: "t = upd_dev d (g k p) s"
  shows "agrees p U (K(d := remove1 k (K d))) R t \<and> quiet s t"
proof -
  let ?s' = "g k p (devs s d)"
  define ks where "ks = (klists (devs s d))(p := remove1 k (klists (devs s d) p))"
  have v: "kept (devs s d) ?s'" "view ?s' = (ulists (devs s d), ks, procs (devs s d))"
    using dqm_client.destroy_kernel_view [OF client [OF pr] g] by (simp_all add: ks_def)
  have i: "dqm_inv ?s'"
    using dqm_contract.destroy_kernel [OF contract [OF pr] TrueI agreesD(1) [OF a] _ g] agreesD(3) [OF a, of d] assms(3) by simp
  have "agrees p (U(d := U d)) (K(d := remove1 k (K d))) R (upd_dev d (g k p) s)"
    using v(2) agreesD(2-4) [OF a, of d] fun_cong [of "klists ?s'" ks p] fun_cong [of "ulists ?s'" "ulists (devs s d)" p]
    by (intro agrees_dev [OF a]) (simp_all add: i view_def ks_def)
  then show ?thesis unfolding t using v(1) quiet_dev [of s d "g k p"] by simp
qed

end


section \<open>Creating a queue\<close>

text \<open>The outcome of the switch over the type: with code 0, one more queue on the device.\<close>

definition made :: "nat \<Rightarrow> (nat \<Rightarrow> nat list) \<Rightarrow> (nat \<Rightarrow> nat list) \<Rightarrow> nat set \<Rightarrow> nat \<Rightarrow> nat \<Rightarrow>
    'h pqm_state \<Rightarrow> int \<Rightarrow> process_queue_node \<Rightarrow> 'h pqm_state \<Rightarrow> bool" where
  "made p U K R d qid s r n t \<longleftrightarrow> quiet_on U K s t \<and>
     (if r = 0 then node_ok n \<and> node_dev n = Some d \<and> node_id t n = of_nat qid \<and>
        agrees p (\<lambda>e. users_of e n @ U e) (\<lambda>e. kernels_of e n @ K e) R t
      else agrees p U K R t)"

lemma used_devs_cons: "node_ok n \<Longrightarrow> node_dev n = Some d \<Longrightarrow> used_devs (n # ns) = insert d (used_devs ns)"
  by (cases "pqn_q n"; cases "pqn_kq n") (auto simp: used_devs_def users_of_def kernels_of_def node_dev_def node_ok_def split: if_splits)

context pqm_client
begin

lemma create_user_node_step:
  assumes pr: promises and a: "agrees p U K R s" and d: "d \<in> R" and f: "fresh_objects al (devs s d)"
    and c: "create_user_node env al p d x qid s = (r, n, t)"
  shows "made p U K R d qid s r n t"
proof -
  obtain r1 s1 where 1: "init_user_queue al p d x qid s = (r1, s1)" by fastforce
  have i: "agrees p U K R s1" "quiet_on U K s s1" "fresh_objects al (devs s1 d)"
    "r1 = 0 \<longrightarrow> queue_id (props (devs s1 d) (new_queue al)) = of_nat qid"
    using init_user_queue_step [OF a f 1] by simp_all
  show ?thesis
  proof (cases "r1 = 0")
    case False
    then show ?thesis using c 1 i(1,2) by (simp add: create_user_node_def made_def)
  next
    case True
    then have t: "dev_op d (op_create_queue (dev_ops env d) (new_queue al) p) s1 = (r, t)" "n = \<lparr>pqn_q = Some (d, new_queue al), pqn_kq = None\<rparr>"
      using c 1 by (auto simp: create_user_node_def)
    have "new_queue al \<notin> set (all_queues (devs s1 d))" using i(3) by (simp add: fresh_objects_def)
    from create_step [OF pr i(1) d this t(1)]
    have s: "agrees p (if r = 0 then U(d := new_queue al # U d) else U) K R t" "quiet s1 t" by simp_all
    have "(\<lambda>e. users_of e n @ U e) = U(d := new_queue al # U d)" "(\<lambda>e. kernels_of e n @ K e) = K"
      by (auto simp: t(2) users_of_def kernels_of_def)
    moreover have "node_id t n = of_nat qid" using i(4) True quiet_node_id [OF s(2)] by (simp add: t(2) node_id_def)
    ultimately show ?thesis
      using s quiet_on_trans [OF i(2) quiet_on_quiet [OF s(2)]] by (cases "r = 0") (simp_all add: made_def t(2) node_ok_def node_dev_def)
  qed
qed

lemma create_diq_step:
  assumes pr: promises and a: "agrees p U K R s" and d: "d \<in> R" and f: "fresh_objects al (devs s d)"
    and c: "create_node env al p d x qid s = Some (r, n, t)" "qtype x = OPU_QUEUE_TYPE_DIQ"
  shows "made p U K R d qid s r n t"
proof -
  obtain b s1 where 1: "diq_init env al d qid s = (b, s1)" by fastforce
  have i: "agrees p U K R s1" "quiet_on U K s s1" "fresh_objects al (devs s1 d)"
    "b \<longrightarrow> queue_id (properties (kq_queue (kqs (devs s1 d) (new_kq al)))) = of_nat qid"
    using diq_init_step [OF a f 1] by simp_all
  show ?thesis
  proof (cases b)
    case False
    then show ?thesis using c 1 i(1,2) by (auto simp: create_node_def made_def)
  next
    case True
    then obtain g where g: "op_create_kernel_queue (dev_ops env d) = Some g" and t: "dev_op d (g (new_kq al) p) s1 = (r, t)"
      and n: "n = \<lparr>pqn_q = None, pqn_kq = Some (d, new_kq al)\<rparr>"
      using c 1 by (auto simp: create_node_def split: option.splits)
    have "new_kq al \<notin> set (K d)" using i(3) agreesD(3) [OF i(1), of d] unfolding fresh_objects_def by metis
    from create_kernel_step [OF pr i(1) d this g t]
    have s: "agrees p U (if r = 0 then K(d := new_kq al # K d) else K) R t" "quiet s1 t" by simp_all
    have "(\<lambda>e. users_of e n @ U e) = U" "(\<lambda>e. kernels_of e n @ K e) = K(d := new_kq al # K d)"
      by (auto simp: n users_of_def kernels_of_def)
    moreover have "node_id t n = of_nat qid" using i(4) True quiet_node_id [OF s(2)] by (simp add: n node_id_def)
    ultimately show ?thesis
      using s quiet_on_trans [OF i(2) quiet_on_quiet [OF s(2)]] by (cases "r = 0") (simp_all add: made_def n node_ok_def node_dev_def)
  qed
qed

lemma create_node_step:
  assumes pr: promises and a: "agrees p U K R s" and d: "d \<in> R" and f: "fresh_objects al (devs s d)"
    and c: "create_node env al p d x qid s = Some (r, n, t)"
  shows "made p U K R d qid s r n t"
proof -
  note u = create_user_node_step [OF pr a d f]
  have e: "made p U K R d qid s r n s" if "r \<noteq> 0" using that a by (simp add: made_def quiet_on_quiet)
  show ?thesis
    using c u create_diq_step [OF pr a d f c] e
    by (cases "qtype x") (auto simp: create_node_def split: if_splits)
qed

lemma err_allocate_step:
  assumes pr: promises and a: "agrees p U K (insert d R) s" and d: "d \<in> R \<longleftrightarrow> U d \<noteq> [] \<or> K d \<noteq> []" and t: "t = err_allocate_pqn env p d qid s"
  shows "agrees p U K R t \<and> quiet (s\<lparr>queue_slot_bitmap := clear_bit_at qid (queue_slot_bitmap s)\<rparr>) t"
proof -
  let ?s = "s\<lparr>queue_slot_bitmap := clear_bit_at qid (queue_slot_bitmap s)\<rparr>"
  have a1: "agrees p U K (insert d R) ?s" using a by simp
  show ?thesis
  proof (cases "U d = [] \<and> K d = []")
    case True
    then have "t = snd (dev_op d (op_unregister_process (dev_ops env d) p) ?s)" "insert d R - {d} = R"
      using t no_queues_on_iff [OF a1] d by (auto simp: err_allocate_pqn_def)
    then show ?thesis using unregister_step [OF pr a1, of d t] True by simp
  next
    case False
    then have "t = ?s" "insert d R = R" using t no_queues_on_iff [OF a1, of d] d by (auto simp: err_allocate_pqn_def)
    then show ?thesis using a1 by simp
  qed
qed


text \<open>Creation keeps the invariant; a failure leaves what it found.\<close>

text \<open>
  The two ways a creation ends once the id is taken: the error path gives back the id and, with it, the
  state of before; the node that was made goes to the head of the list.
\<close>

lemma create_rollback:
  fixes s :: "'h pqm_state"
  defines "U \<equiv> user_queues (pqm_queues s)" and "K \<equiv> kernel_queues (pqm_queues s)" and "R \<equiv> used_devs (pqm_queues s)"
  assumes pr: promises and i: "pqm_inv p s" and a: "agrees p U K (insert d R) s'"
    and q: "quiet_on U K (s\<lparr>queue_slot_bitmap := set_bit_at qid (queue_slot_bitmap s)\<rparr>) s'"
    and t: "t = err_allocate_pqn env p d qid s'" and free: "\<not> queue_slot_bitmap s qid"
  shows "pqm_inv p t \<and> pqm_queues t = pqm_queues s \<and> queue_slot_bitmap t = queue_slot_bitmap s \<and> node_ids t = node_ids s"
proof -
  have d: "d \<in> R \<longleftrightarrow> U d \<noteq> [] \<or> K d \<noteq> []" by (simp add: used_devs_def R_def U_def K_def)
  let ?s' = "s'\<lparr>queue_slot_bitmap := clear_bit_at qid (queue_slot_bitmap s')\<rparr>"
  have e: "agrees p U K R t" "quiet ?s' t" using err_allocate_step [OF pr a d t] by simp_all
  have "node_id t = node_id s'" "pqm_queues t = pqm_queues s" "queue_slot_bitmap t = queue_slot_bitmap s"
    using e(2) q free quiet_node_id [OF e(2)] by (simp_all add: quiet_def quiet_on_def set_clear_bit)
  moreover have "node_ids s' = node_ids s" using q by (simp add: quiet_on_def listed_nodes U_def K_def)
  ultimately have "pqm_queues t = pqm_queues s" "queue_slot_bitmap t = queue_slot_bitmap s" "node_ids t = node_ids s"
    using q by (simp_all add: quiet_on_def)
  then show ?thesis using pqm_inv_same [OF i] e(1) unfolding U_def K_def R_def by blast
qed

lemma create_link:
  fixes s :: "'h pqm_state"
  defines "U \<equiv> user_queues (pqm_queues s)" and "K \<equiv> kernel_queues (pqm_queues s)" and "R \<equiv> used_devs (pqm_queues s)"
  assumes i: "pqm_inv p s" and m: "made p U K (insert d R) d qid s2 0 n s3"
    and q2: "quiet_on U K (s\<lparr>queue_slot_bitmap := set_bit_at qid (queue_slot_bitmap s)\<rparr>) s2"
    and qid: "qid < OPU_MAX_NUM_OF_QUEUES_PER_PROCESS" "\<not> queue_slot_bitmap s qid"
    and t: "t = s3\<lparr>pqm_queues := n # pqm_queues s3\<rparr>"
  shows "pqm_inv p t" and "pqm_queues t = n # pqm_queues s" and "node_id t n = of_nat qid" and "node_dev n = Some d"
    and "node_ids t = of_nat qid # node_ids s"
proof -
  let ?ns = "pqm_queues s"
  have g: "good_ids (node_ids s) (queue_slot_bitmap s)" "\<forall>n\<in>set ?ns. node_ok n" using i by (simp_all add: pqm_inv_def)
  have q: "quiet_on U K (s\<lparr>queue_slot_bitmap := set_bit_at qid (queue_slot_bitmap s)\<rparr>) s3"
    using m quiet_on_trans [OF q2] by (simp add: made_def)
  have n: "node_ok n" "node_dev n = Some d" "node_id s3 n = of_nat qid"
    "agrees p (\<lambda>e. users_of e n @ U e) (\<lambda>e. kernels_of e n @ K e) (insert d R) s3" using m by (simp_all add: made_def)
  have t': "t = s3\<lparr>pqm_queues := n # ?ns\<rparr>" using t q by (simp add: quiet_on_def)
  have ids: "map (node_id s3) ?ns = node_ids s" using q by (simp add: quiet_on_def listed_nodes U_def K_def)
  have "user_queues (n # ?ns) = (\<lambda>e. users_of e n @ U e)" "kernel_queues (n # ?ns) = (\<lambda>e. kernels_of e n @ K e)"
    by (auto simp: U_def K_def)
  then show "pqm_inv p t"
    using n g(2) good_ids_add [OF g(1) qid(2,1)] ids q
    by (simp add: pqm_inv_def t' used_devs_cons quiet_on_def R_def del: map_eq_conv)
  show "pqm_queues t = n # ?ns" "node_id t n = of_nat qid" "node_dev n = Some d" "node_ids t = of_nat qid # node_ids s"
    using t' n(2,3) ids by simp_all
qed

lemma create_queue_step:
  assumes pr: promises and i: "pqm_inv p s" and "register_ok al" and f: "fresh_objects al (devs s d)"
    and c: "pqm_create_queue env al p d x s = Some (r, out, t)"
  shows "pqm_inv p t \<and> (if r = 0 then \<exists>n qid off. out = Some (qid, off) \<and> pqm_queues t = n # pqm_queues s \<and>
           qid < OPU_MAX_NUM_OF_QUEUES_PER_PROCESS \<and> \<not> queue_slot_bitmap s qid \<and> node_id t n = of_nat qid \<and> node_dev n = Some d \<and>
           node_ids t = of_nat qid # node_ids s
         else out = None \<and> pqm_queues t = pqm_queues s \<and> queue_slot_bitmap t = queue_slot_bitmap s \<and> node_ids t = node_ids s)"
proof -
  let ?ns = "pqm_queues s"
  let ?U = "user_queues ?ns" and ?K = "kernel_queues ?ns" and ?R = "used_devs ?ns"
  have a: "agrees p ?U ?K ?R s" using i by (simp add: pqm_inv_def)
  have d: "d \<in> ?R \<longleftrightarrow> ?U d \<noteq> [] \<or> ?K d \<noteq> []" by (simp add: used_devs_def)
  define qid where "qid = find_first_zero_bit (queue_slot_bitmap s) OPU_MAX_NUM_OF_QUEUES_PER_PROCESS"
  define s1 where "s1 = s\<lparr>queue_slot_bitmap := set_bit_at qid (queue_slot_bitmap s)\<rparr>"
  define s2 where "s2 = (if no_queues_on d p s1 then snd (dev_op d (op_register_process (dev_ops env d) (register_ok al) p) s1) else s1)"
  have a1: "agrees p ?U ?K ?R s1" using a by (simp add: s1_def)
  have s2: "agrees p ?U ?K (insert d ?R) s2 \<and> quiet s1 s2 \<and> fresh_objects al (devs s2 d)"
  proof (cases "d \<in> ?R")
    case True
    then have "s2 = s1" using d no_queues_on_iff [OF a1, of d] by (auto simp: s2_def)
    then show ?thesis using a1 True f by (simp add: insert_absorb s1_def)
  next
    case False
    then show ?thesis using register_step [OF pr a1 False, of s2 al d] d no_queues_on_iff [OF a1, of d] assms(3) f by (simp add: s2_def s1_def)
  qed
  have s2q: "quiet_on ?U ?K s1 s2" using s2 by (simp add: quiet_on_quiet)
  note fail = create_rollback [OF pr i, where qid = qid, folded s1_def]
  have free: "\<not> queue_slot_bitmap s qid" if "qid < OPU_MAX_NUM_OF_QUEUES_PER_PROCESS"
    using that find_first_zero_bit_facts(2) by (simp add: qid_def)
  consider (stay) "r \<noteq> 0" "out = None" "t = s"
    | (no_node) "qid < OPU_MAX_NUM_OF_QUEUES_PER_PROCESS" "r = - ENOMEM" "out = None" "t = err_allocate_pqn env p d qid s2"
    | (node) n s3 where "qid < OPU_MAX_NUM_OF_QUEUES_PER_PROCESS" "create_node env al p d x qid s2 = Some (r, n, s3)"
        "r \<noteq> 0 \<longrightarrow> out = None \<and> t = err_create_queue env p d qid n s3"
        "r = 0 \<longrightarrow> (\<exists>off. out = Some (qid, off)) \<and> t = s3\<lparr>pqm_queues := n # pqm_queues s3\<rparr>"
    using c unfolding pqm_create_queue_def find_available_queue_slot_def Let_def
    by (auto simp flip: qid_def s1_def s2_def split: if_splits option.splits)
  then show ?thesis
  proof cases
    case stay
    then show ?thesis using i by simp
  next
    case no_node
    have r: "r \<noteq> 0" using no_node(2) by simp
    show ?thesis
      unfolding if_not_P [OF r] using fail [OF _ s2q no_node(4) free [OF no_node(1)]] s2 no_node(3) by blast
  next
    case (node n s3)
    have m: "made p ?U ?K (insert d ?R) d qid s2 r n s3" using create_node_step [OF pr _ _ _ node(2)] s2 by blast
    show ?thesis
    proof (cases "r = 0")
      case True
      have t: "t = s3\<lparr>pqm_queues := n # pqm_queues s3\<rparr>" using node(4) True by blast
      note l = create_link [OF i, where qid = qid, folded s1_def, OF m [unfolded True] s2q node(1) free [OF node(1)] t]
      obtain off where o: "out = Some (qid, off)" using node(4) True by blast
      show ?thesis unfolding if_P [OF True] by (intro conjI exI) (rule l o node(1) free [OF node(1)])+
    next
      case False
      have e: "t = err_allocate_pqn env p d qid (case pqn_kq n of Some (_, k) \<Rightarrow> diq_uninit env d k s3 | None \<Rightarrow> s3)"
        using node(3) False by (simp add: err_create_queue_def)
      have a3: "agrees p ?U ?K (insert d ?R) s3" "quiet_on ?U ?K s2 s3" using m False by (simp_all add: made_def)
      let ?s = "case pqn_kq n of Some (_, k) \<Rightarrow> diq_uninit env d k s3 | None \<Rightarrow> s3"
      have "agrees p ?U ?K (insert d ?R) (diq_uninit env d k s3)" "quiet_on ?U ?K s2 (diq_uninit env d k s3)" for k
        using diq_uninit_step [OF a3(1)] quiet_on_trans [OF a3(2) quiet_on_quiet] by blast+
      then have "agrees p ?U ?K (insert d ?R) ?s" "quiet_on ?U ?K s2 ?s" using a3 by (simp_all split: option.splits)
      from fail [OF this(1) quiet_on_trans [OF s2q this(2)] e free [OF node(1)]] show ?thesis unfolding if_not_P [OF False] using False node(3) by blast
    qed
  qed
qed

end


section \<open>Destroying and updating a queue\<close>

lemma pqm_inv_node:
  assumes "pqm_inv p s" and "get_queue_by_qid s qid = Some n"
  shows "n \<in> set (pqm_queues s)" "node_ok n" "node_id s n = qid"
  using assms get_queue_by_qid_iff [of s qid n] by (auto simp: pqm_inv_def good_ids_def)

lemma remove_gws_step:
  assumes "agrees p U K R s"
  shows "agrees p U K R (snd (remove_gws env dq s)) \<and> quiet s (snd (remove_gws env dq s))"
  using agrees_dev_same [OF assms] agreesD(1) [OF assms]
  by (simp add: remove_gws_def quiet_dev kept_def view_def hw_call_def case_prod_unfold)

text \<open>A change of a queue that keeps its activity, type and id.\<close>

lemma upd_q_step:
  assumes "agrees p U K R s" and "is_active (properties (f (qs (devs s d) q))) = is_active (props (devs s d) q)"
    "qtype (properties (f (qs (devs s d) q))) = qtype (props (devs s d) q)"
    "is_evicted (properties (f (qs (devs s d) q))) = is_evicted (props (devs s d) q)"
    "queue_id (properties (f (qs (devs s d) q))) = queue_id (props (devs s d) q)"
  shows "agrees p U K R (upd_dev d (upd_q q f) s) \<and> quiet s (upd_dev d (upd_q q f) s)"
proof
  have "dqm_inv (upd_q q f (devs s d))" using dqm_inv_same_activity [of f "devs s d" q] assms agreesD(1) [OF assms(1)] by simp
  then show "agrees p U K R (upd_dev d (upd_q q f) s)" by (rule agrees_dev_same [OF assms(1)]) (simp add: view_def)
  show "quiet s (upd_dev d (upd_q q f) s)" using assms(5) by (intro quiet_dev) (simp add: kept_def)
qed

lemma pqm_inv_del:
  assumes i: "pqm_inv p s" and n: "n \<in> set (pqm_queues s)" and q: "quiet s s2"
    and t: "t = s2\<lparr>pqm_queues := remove1 n (pqm_queues s2), queue_slot_bitmap := clear_bit_at (unat (node_id s n)) (queue_slot_bitmap s2)\<rparr>"
  shows "pqm_queues t = remove1 n (pqm_queues s)" "good_ids (node_ids t) (queue_slot_bitmap t)"
    "\<forall>m\<in>set (remove1 n (pqm_queues s)). node_ok m" "node_ids t = remove1 (node_id s n) (node_ids s)"
proof -
  have s: "pqm_queues s2 = pqm_queues s" "queue_slot_bitmap s2 = queue_slot_bitmap s" "node_id t = node_id s"
    using q quiet_node_id [OF q] by (simp_all add: quiet_def t)
  have g: "good_ids (node_ids s) (queue_slot_bitmap s)" using i by (simp add: pqm_inv_def)
  then have "inj_on (node_id s) (insert n (set (pqm_queues s)))" using n by (simp add: good_ids_def distinct_map insert_absorb)
  then have m: "map (node_id s) (remove1 n (pqm_queues s)) = remove1 (node_id s n) (node_ids s)" by (rule map_remove1_inj)
  show "pqm_queues t = remove1 n (pqm_queues s)" by (simp add: t s(1))
  then show k: "node_ids t = remove1 (node_id s n) (node_ids s)" by (simp add: s(3) m)
  show "good_ids (node_ids t) (queue_slot_bitmap t)" unfolding k using good_ids_del [OF g, of "node_id s n"] n by (simp add: t s(2))
  show "\<forall>m\<in>set (remove1 n (pqm_queues s)). node_ok m" using i set_remove1_subset [of n "pqm_queues s"] by (auto simp: pqm_inv_def)
qed

lemma used_devs_remove1:
  assumes "\<forall>m\<in>set ns. node_ok m" and "n \<in> set ns" and "node_dev n = Some d"
  shows "used_devs (remove1 n ns) = (if user_queues (remove1 n ns) d = [] \<and> kernel_queues (remove1 n ns) d = [] then used_devs ns - {d} else used_devs ns)"
proof -
  have "node_ok n" using assms by blast
  then have "d \<in> used_devs ns \<and> (\<forall>e. e \<noteq> d \<longrightarrow> user_queues (remove1 n ns) e = user_queues ns e \<and> kernel_queues (remove1 n ns) e = kernel_queues ns e)"
  proof (cases rule: node_ok_cases)
    case (user d' q)
    then have "d' = d" "q \<in> set (user_queues ns d)" using assms(2,3) by (auto simp: in_user_queues)
    then show ?thesis using user_queues_remove1 [OF assms(1) user(1,2)] by (auto simp: used_devs_def)
  next
    case (kernel d' k)
    then have "d' = d" "k \<in> set (kernel_queues ns d)" using assms(2,3) by (auto simp: in_kernel_queues)
    then show ?thesis using kernel_queues_remove1 [OF assms(1) kernel(1,2)] by (auto simp: used_devs_def)
  qed
  then show ?thesis by (auto simp: used_devs_def)
qed


context pqm_client
begin

lemma finish_destroy:
  assumes pr: promises and a: "agrees p U K R s" and t: "t = (if no_queues_on d p s then snd (dev_op d (op_unregister_process (dev_ops env d) p) s) else s)"
  shows "agrees p U K (if U d = [] \<and> K d = [] then R - {d} else R) t \<and> quiet s t"
  using unregister_step [OF pr a, of d t] a t no_queues_on_iff [OF a, of d] by auto

lemma destroy_queue_step:
  assumes pr: promises and i: "pqm_inv p s" and rd: "\<forall>d. dqm_ready (pol d) p (devs s d)"
    and c: "pqm_destroy_queue env p qid s = Some (r, t)" and r: "r = 0 \<or> r = - ETIME"
  shows "pqm_inv p t \<and> (\<exists>n\<in>set (pqm_queues s). node_id s n = qid \<and> pqm_queues t = remove1 n (pqm_queues s) \<and> node_ids t = remove1 qid (node_ids s))"
proof -
  let ?ns = "pqm_queues s"
  have a: "agrees p (user_queues ?ns) (kernel_queues ?ns) (used_devs ?ns) s" and o: "\<forall>m\<in>set ?ns. node_ok m" using i by (simp_all add: pqm_inv_def)
  obtain n d s1 s2 where 1: "get_queue_by_qid s qid = Some n" "node_dev n = Some d"
    and k: "destroy_kernel_part env p n s = Some s1" and u: "destroy_user_part env p n s1 = (r, True, s2)"
    and t: "t = (let s3 = s2\<lparr>pqm_queues := remove1 n (pqm_queues s2), queue_slot_bitmap := clear_bit_at (unat qid) (queue_slot_bitmap s2)\<rparr>
      in if no_queues_on d p s3 then snd (dev_op d (op_unregister_process (dev_ops env d) p) s3) else s3)"
    using c r unfolding pqm_destroy_queue_def
    by (auto simp: Let_def destroy_user_part_def split: option.splits prod.splits if_splits)
  note n = pqm_inv_node [OF i 1(1)]
  have s2: "agrees p (user_queues (remove1 n ?ns)) (kernel_queues (remove1 n ?ns)) (used_devs ?ns) s2 \<and> quiet s s2"
    using n(2)
  proof (cases rule: node_ok_cases)
    case (user d' q)
    have s1: "s1 = s" using k user by (simp add: destroy_kernel_part_def)
    obtain s1' where d: "dev_op d' (op_destroy_queue (dev_ops env d') p q) s = (r, s1')"
      and u2: "s2 = upd_dev d' (upd_props q (\<lambda>x. x\<lparr>cu_mask := None\<rparr>)) (if gws_of s1' (d', q) \<noteq> None
          then (snd (remove_gws env (d', q) s1'))\<lparr>num_gws := (num_gws s1')(d' := 0)\<rparr> else s1')" (is "s2 = upd_dev _ _ ?s")
      using u user s1 by (auto simp: destroy_user_part_def Let_def split: if_splits)
    have "q \<in> set (user_queues ?ns d')" using n(1) user(1) by (auto simp: in_user_queues)
    from destroy_step [OF pr a this _ r d] rd
    have d1: "agrees p (user_queues (remove1 n ?ns)) (kernel_queues (remove1 n ?ns)) (used_devs ?ns) s1'" "quiet s s1'"
      using user_queues_remove1 [OF o user(1,2)] by simp_all
    have s': "agrees p (user_queues (remove1 n ?ns)) (kernel_queues (remove1 n ?ns)) (used_devs ?ns) ?s" "quiet s1' ?s"
      using d1(1) remove_gws_step [OF d1(1), of env "(d', q)"] by (simp_all add: quiet_def)
    show ?thesis unfolding u2 using upd_q_step [OF s'(1)] quiet_trans [OF d1(2) quiet_trans [OF s'(2)]] by simp
  next
    case (kernel d' q)
    have s2: "s2 = s1" using u kernel by (simp add: destroy_user_part_def)
    obtain g where g: "op_destroy_kernel_queue (dev_ops env d') = Some g" and s1: "s1 = diq_uninit env d' q (upd_dev d' (g q p) s)"
      using k kernel by (auto simp: destroy_kernel_part_def split: option.splits)
    have "q \<in> set (kernel_queues ?ns d')" using n(1) kernel(2) by (auto simp: in_kernel_queues)
    from destroy_kernel_step [OF pr a this g refl]
    have d1: "agrees p (user_queues (remove1 n ?ns)) (kernel_queues (remove1 n ?ns)) (used_devs ?ns) (upd_dev d' (g q p) s)"
      "quiet s (upd_dev d' (g q p) s)" using kernel_queues_remove1 [OF o kernel(1,2)] by simp_all
    then show ?thesis unfolding s2 s1 using diq_uninit_step [OF d1(1)] quiet_trans [OF d1(2)] by blast
  qed
  define s3 where "s3 = s2\<lparr>pqm_queues := remove1 n (pqm_queues s2), queue_slot_bitmap := clear_bit_at (unat qid) (queue_slot_bitmap s2)\<rparr>"
  have a3: "agrees p (user_queues (remove1 n ?ns)) (kernel_queues (remove1 n ?ns)) (used_devs ?ns) s3" using s2 by (simp add: s3_def)
  note e = pqm_inv_del [OF i n(1) conjunct2 [OF s2] s3_def [folded n(3)]]
  have f: "agrees p (user_queues (remove1 n ?ns)) (kernel_queues (remove1 n ?ns)) (used_devs (remove1 n ?ns)) t" "quiet s3 t"
    using finish_destroy [OF pr a3, of t d] t unfolding used_devs_remove1 [OF o n(1) 1(2)] by (simp_all add: Let_def flip: s3_def)
  then have "pqm_queues t = remove1 n ?ns" "queue_slot_bitmap t = queue_slot_bitmap s3" "node_ids t = node_ids s3"
    using quiet_node_id [OF f(2)] e(1) by (simp_all add: quiet_def)
  then show ?thesis using f(1) e n unfolding pqm_inv_def by metis
qed


lemma pqm_inv_quiet:
  assumes "pqm_inv p s" and "agrees p (user_queues (pqm_queues s)) (kernel_queues (pqm_queues s)) (used_devs (pqm_queues s)) t \<and> quiet s t"
  shows "pqm_inv p t"
proof -
  have q: "quiet s t" using assms(2) by simp
  show ?thesis
    by (rule pqm_inv_same [OF assms(1) conjunct1 [OF assms(2)]]) (use q quiet_node_id [OF q] in \<open>simp_all add: quiet_def\<close>)
qed

lemma update_after:
  assumes pr: promises and i: "pqm_inv p s" and n: "get_queue_by_qid s qid = Some n" "pqn_q n = Some (d, q)"
    and a: "agrees p (user_queues (pqm_queues s)) (kernel_queues (pqm_queues s)) (used_devs (pqm_queues s)) s' \<and> quiet s s'"
    and u: "dev_op d (op_update_queue (dev_ops env d) q) s' = (r, t)"
  shows "pqm_inv p t"
proof -
  have q: "q \<in> set (user_queues (pqm_queues s) d)" using pqm_inv_node(1) [OF i n(1)] n(2) by (auto simp: in_user_queues)
  from update_step [OF pr conjunct1 [OF a] q u] a show ?thesis by (intro pqm_inv_quiet [OF i]) (blast intro: quiet_trans)
qed

lemma change_queue_step:
  assumes pr: promises and i: "pqm_inv p s" and n: "get_queue_by_qid s qid = Some n" "pqn_q n = Some (d, q)"
    and g: "\<And>y. is_active (g y) = is_active y \<and> qtype (g y) = qtype y \<and> is_evicted (g y) = is_evicted y \<and> queue_id (g y) = queue_id y"
    and u: "dev_op d (op_update_queue (dev_ops env d) q) (upd_dev d (upd_props q g) s) = (r, t)"
  shows "pqm_inv p t"
proof -
  have a: "agrees p (user_queues (pqm_queues s)) (kernel_queues (pqm_queues s)) (used_devs (pqm_queues s)) s" using i by (simp add: pqm_inv_def)
  show ?thesis by (rule update_after [OF pr i n upd_q_step [OF a] u]) (simp_all add: g)
qed

lemma update_queue_keeps:
  "promises \<Longrightarrow> pqm_inv p s \<Longrightarrow> pqm_update_queue env qid x s = Some (r, t) \<Longrightarrow> pqm_inv p t"
  by (auto simp: pqm_update_queue_def split: option.splits
      intro: change_queue_step [where g = "\<lambda>y. y\<lparr>queue_address := queue_address x, queue_size := queue_size x,
        queue_percent := queue_percent x, priority := priority x\<rparr>"])

lemma set_cu_mask_keeps:
  "promises \<Longrightarrow> pqm_inv p s \<Longrightarrow> pqm_set_cu_mask env qid x s = Some (r, t) \<Longrightarrow> pqm_inv p t"
  by (auto simp: pqm_set_cu_mask_def split: option.splits
      intro: change_queue_step [where g = "\<lambda>y. y\<lparr>cu_mask_count := cu_mask_count x, cu_mask := cu_mask x\<rparr>"])

lemma set_gws_keeps:
  assumes pr: promises and i: "pqm_inv p s" and c: "pqm_set_gws env p qid g s = (r, t)"
  shows "pqm_inv p t"
proof -
  have a: "agrees p (user_queues (pqm_queues s)) (kernel_queues (pqm_queues s)) (used_devs (pqm_queues s)) s" using i by (simp add: pqm_inv_def)
  define hw1 where "hw1 d q = (case g of Some x \<Rightarrow> dev_op d (hw_call (add_gws_to_process env x)) s
      | None \<Rightarrow> (case remove_gws env (d, q) s of (r, s1) \<Rightarrow> ((r, None), s1)))" for d q
  have h: "agrees p (user_queues (pqm_queues s)) (kernel_queues (pqm_queues s)) (used_devs (pqm_queues s)) (snd (hw1 d q)) \<and>
      quiet s (snd (hw1 d q))" for d q
    using remove_gws_step [OF a, of env "(d, q)"] agrees_dev_same [OF a] agreesD(1) [OF a]
    by (auto simp: hw1_def case_prod_unfold hw_call_def quiet_dev kept_def view_def split: option.splits)
  have "t = s \<or> (\<exists>n d q. get_queue_by_qid s qid = Some n \<and> pqn_q n = Some (d, q) \<and> (t = snd (hw1 d q) \<or>
      (\<exists>m w. dev_op d (op_update_queue (dev_ops env d) q) ((upd_dev d (upd_q q (\<lambda>y. y\<lparr>gws := m\<rparr>)) (snd (hw1 d q)))\<lparr>num_gws := w\<rparr>) = (r, t))))"
    using c unfolding pqm_set_gws_def hw1_def [symmetric]
    by (auto simp: Let_def split: option.splits prod.splits if_splits)
  then show ?thesis
  proof (elim disjE exE conjE)
    fix n d q m w
    let ?s2 = "(upd_dev d (upd_q q (\<lambda>y. y\<lparr>gws := m\<rparr>)) (snd (hw1 d q)))\<lparr>num_gws := w\<rparr>"
    assume n: "get_queue_by_qid s qid = Some n" "pqn_q n = Some (d, q)" and u: "dev_op d (op_update_queue (dev_ops env d) q) ?s2 = (r, t)"
    note c = upd_q_step [OF conjunct1 [OF h [of d q]], of "\<lambda>y. y\<lparr>gws := m\<rparr>" d q]
    have "agrees p (user_queues (pqm_queues s)) (kernel_queues (pqm_queues s)) (used_devs (pqm_queues s)) ?s2 \<and> quiet s ?s2"
      using c quiet_trans [OF conjunct2 [OF h [of d q]]] by simp
    then show ?thesis by (rule update_after [OF pr i n _ u])
  qed (use i pqm_inv_quiet [OF i h] in blast)+
qed

end


section \<open>All calls\<close>

text \<open>The calls of a process: a creation finds new objects and memory for the registration; a queue is
  destroyed while its manager is ready, with success or with a warning.\<close>

inductive pqm_reach :: "'h pqm_env \<Rightarrow> (nat \<Rightarrow> opu_sched_policy) \<Rightarrow> nat \<Rightarrow> 'h pqm_state \<Rightarrow> 'h pqm_state \<Rightarrow> bool"
  for env pol p s where
  start: "pqm_reach env pol p s s"
| create: "pqm_reach env pol p s t \<Longrightarrow> register_ok al \<Longrightarrow> fresh_objects al (devs t d) \<Longrightarrow>
    pqm_create_queue env al p d x t = Some (r, out, u) \<Longrightarrow> pqm_reach env pol p s u"
| destroy: "pqm_reach env pol p s t \<Longrightarrow> \<forall>d. dqm_ready (pol d) p (devs t d) \<Longrightarrow>
    pqm_destroy_queue env p qid t = Some (r, u) \<Longrightarrow> r = 0 \<or> r = - ETIME \<Longrightarrow> pqm_reach env pol p s u"
| update: "pqm_reach env pol p s t \<Longrightarrow> pqm_update_queue env qid x t = Some (r, u) \<Longrightarrow> pqm_reach env pol p s u"
| set_cu_mask: "pqm_reach env pol p s t \<Longrightarrow> pqm_set_cu_mask env qid x t = Some (r, u) \<Longrightarrow> pqm_reach env pol p s u"
| set_gws: "pqm_reach env pol p s t \<Longrightarrow> pqm_set_gws env p qid g t = (r, u) \<Longrightarrow> pqm_reach env pol p s u"

context pqm_client
begin

lemma reach_keeps: "pqm_reach env pol p s t \<Longrightarrow> promises \<Longrightarrow> pqm_inv p s \<Longrightarrow> pqm_inv p t"
  by (induction rule: pqm_reach.induct)
    (blast intro: create_queue_step [THEN conjunct1] destroy_queue_step [THEN conjunct1] update_queue_keeps set_cu_mask_keeps set_gws_keeps)+

end

text \<open>Each device uses the table of its scheduling policy.\<close>

definition driver_env :: "(nat \<Rightarrow> opu_sched_policy) \<Rightarrow> 'h pqm_env \<Rightarrow> 'h pqm_env" where
  "driver_env pol env = env\<lparr>dev_ops := \<lambda>d. if pol d = OPU_SCHED_POLICY_NO_HWS then nocpsch_ops (dev_env env d) else cpsch_ops (dev_env env d)\<rparr>"

definition envs_ok :: "'h pqm_env \<Rightarrow> bool" where
  "envs_ok env \<longleftrightarrow> (\<forall>d. env_ok (dev_env env d))"

interpretation driver: pqm_client "driver_env pol env" pol "envs_ok env"
proof (rule pqm_client.intro)
  fix d
  assume "envs_ok env"
  then have "env_ok (dev_env env d) = True" by (simp add: envs_ok_def)
  then show "dqm_client (dev_ops (driver_env pol env) d) (dqm_ready (pol d)) True"
    using cpsch_client.dqm_client_axioms [of "dev_env env d" "pol d"] nocpsch_client.dqm_client_axioms [of "dev_env env d"]
    by (simp add: driver_env_def)
qed

text \<open>No process has queues on the devices, and this process is not registered.\<close>

lemma pqm_init_inv:
  assumes "\<forall>d. dqm_inv (devs s d) \<and> p \<notin> set (procs (devs s d))" and "pqm_init ok s = (0, t)"
  shows "pqm_inv p t"
proof -
  have t: "t = s\<lparr>pqm_queues := [], queue_slot_bitmap := (\<lambda>_. False)\<rparr>" using assms(2) by (auto simp: pqm_init_def split: if_splits)
  have "ulists (devs s d) p = [] \<and> klists (devs s d) p = []" for d
    using assms(1) by (auto simp: dqm_inv_def counts_ok_def inv_lists_def)
  then show ?thesis using assms(1) by (simp add: pqm_inv_def agrees_def good_ids_def used_devs_def t)
qed

end
