(* ===== verification/Opu_Dqm_Props.thy ===== *)
theory Opu_Dqm_Props
  imports Opu_Dqm_Contract
begin

text \<open>
  Properties of single operations of the device queue manager: eviction and restoration, the end
  of a process, a hanging scheduler, the wait for the fence, the APE1 aperture, and where the two
  schedulers differ.
\<close>

section \<open>Eviction and restoration cancel\<close>

text \<open>What an eviction does to a process that is not evicted.\<close>

lemma evict_process_queues_cpsch_effect:
  assumes "dqm_inv s" and "evicts s p = 0" and "evict_process_queues_cpsch env p s = (r, t)"
  shows "ulists t = ulists s" "evicts t = (evicts s)(p := 1)" "procs t = procs s" "klists t = klists s" "kqs t = kqs s"
    and "\<forall>q\<in>set (ulists s p). evicted_by (qs s q) (qs t q)" and "\<forall>x. x \<notin> set (ulists s p) \<longrightarrow> qs t x = qs s x"
proof -
  define s1 where "s1 = upd_pdd p (\<lambda>x. x\<lparr>evicted := evicted x + 1\<rparr>) s"
  define s2 where "s2 = fold evict_queue_cpsch (ulists s p) s1"
  have v: "ulists s1 = ulists s" "klists s1 = klists s" "qs s1 = qs s" "kqs s1 = kqs s" "procs s1 = procs s"
      "evicts s1 = (evicts s)(p := 1)"
    using assms(2) by (auto simp: s1_def)
  have c: "counts_ok s1" using assms(1) by (simp add: dqm_inv_def counts_ok_pdd s1_def)
  have "counts_ok s2 \<and> ulists s2 = ulists s1 \<and> evicts s2 = evicts s1 \<and> procs s2 = procs s1 \<and> klists s2 = klists s1 \<and>
      kqs s2 = kqs s1 \<and> (\<forall>q\<in>set (ulists s p). evicted_by (qs s1 q) (qs s2 q)) \<and>
      (\<forall>x. x \<notin> set (ulists s p) \<longrightarrow> qs s2 x = qs s1 x)"
    unfolding s2_def using queues_in_all [OF c, of p] fun_cong [OF v(1), of p]
    by (intro fold_step_upd [where pr = "\<lambda>s. s" and P = "\<lambda>_. True", OF evict_queue_cpsch_step c]) auto
  moreover have "resources_only s2 t \<and> qs t = qs s2"
  proof -
    have u: "ulists s1 p = ulists s p" using fun_cong [OF v(1), of p] .
    have "(if is_debug (pdds s2 p) then execute_all env (upd_pdd p (\<lambda>x. x\<lparr>last_evict_timestamp := jiffies env (hw s2)\<rparr>) s2)
        else execute_dynamic env (upd_pdd p (\<lambda>x. x\<lparr>last_evict_timestamp := jiffies env (hw s2)\<rparr>) s2)) = (r, t)"
      using assms(2,3) u by (simp add: evict_process_queues_cpsch_def Let_def s2_def split: if_splits flip: s1_def)
    then show ?thesis
      using resources_only_trans [OF resources_timestamp(1) resources_execute] sched_only_sel(2) [OF execute_queues_sched_only]
      by (fastforce split: if_splits)
  qed
  ultimately show "ulists t = ulists s" "evicts t = (evicts s)(p := 1)" "procs t = procs s" "klists t = klists s" "kqs t = kqs s"
    and "\<forall>q\<in>set (ulists s p). evicted_by (qs s q) (qs t q)" and "\<forall>x. x \<notin> set (ulists s p) \<longrightarrow> qs t x = qs s x"
    using v by (simp_all add: resources_defs)
qed

lemma restore_process_queues_cpsch_effect:
  assumes "dqm_inv s" and "evicts s p = 1" and "restore_process_queues_cpsch env p s = (r, t)"
  shows "ulists t = ulists s" "evicts t = (evicts s)(p := 0)" "procs t = procs s" "klists t = klists s" "kqs t = kqs s"
    and "\<forall>q\<in>set (ulists s p). restored_by (qs s q) (qs t q)" and "\<forall>x. x \<notin> set (ulists s p) \<longrightarrow> qs t x = qs s x"
proof -
  define s1 where "s1 = upd_pdd p (\<lambda>x. x\<lparr>page_table_base := gpuvm_get_process_page_dir env p (hw s)\<rparr>) s"
  define s2 where "s2 = fold restore_queue_cpsch (ulists s p) s1"
  obtain r3 s3 where 3: "execute_dynamic env s2 = (r3, s3)" by fastforce
  have v: "ulists s1 = ulists s" "klists s1 = klists s" "qs s1 = qs s" "kqs s1 = kqs s" "procs s1 = procs s" "evicts s1 = evicts s"
    by (auto simp: s1_def)
  have c: "counts_ok s1" using assms(1) by (simp add: dqm_inv_def counts_ok_pdd s1_def)
  have "evicts s p \<noteq> 0" using assms(2) by simp
  then have "\<forall>q\<in>set (ulists s p). \<not> is_active (props s q)" using assms(1) by (auto simp: dqm_inv_def inv_evict_def)
  then have F: "counts_ok s2 \<and> ulists s2 = ulists s1 \<and> evicts s2 = evicts s1 \<and> procs s2 = procs s1 \<and> klists s2 = klists s1 \<and>
      kqs s2 = kqs s1 \<and> (\<forall>q\<in>set (ulists s p). restored_by (qs s1 q) (qs s2 q)) \<and>
      (\<forall>x. x \<notin> set (ulists s p) \<longrightarrow> qs s2 x = qs s1 x)"
    unfolding s2_def using queues_in_all [OF c, of p] fun_cong [OF v(1), of p] v(3)
    by (intro fold_step_upd [where pr = "\<lambda>s. s" and P = "\<lambda>x. \<not> is_active (properties x)", OF restore_queue_cpsch_step c]) auto
  have t: "t = finish_restore env p s3"
    using assms(2,3) fun_cong [OF v(1), of p] 3
    by (simp add: restore_process_queues_cpsch_def Let_def s2_def flip: s1_def)
  have x: "pdds s3 = pdds s2" "qs s3 = qs s2" "kqs s3 = kqs s2" "procs s3 = procs s2"
    using sched_only_sel(1-4) [OF execute_queues_sched_only [OF 3]] .
  show "ulists t = ulists s" "evicts t = (evicts s)(p := 0)" "procs t = procs s" "klists t = klists s" "kqs t = kqs s"
    and "\<forall>q\<in>set (ulists s p). restored_by (qs s q) (qs t q)" and "\<forall>x. x \<notin> set (ulists s p) \<longrightarrow> qs t x = qs s x"
    using F v x by (simp_all add: t finish_restore_def fun_eq_iff)
qed

lemma roundtrip_props:
  "evicted_by x y \<Longrightarrow> restored_by y z \<Longrightarrow> \<not> is_evicted (properties x) \<Longrightarrow>
     is_active (properties x) = QUEUE_IS_ACTIVE (properties x) \<Longrightarrow> properties z = properties x"
  by (simp add: evicted_by_def restored_by_def QUEUE_IS_ACTIVE_def)

text \<open>The queues of \<open>p\<close> run as their properties ask for.\<close>

definition queues_settled :: "nat \<Rightarrow> 'h dqm_state \<Rightarrow> bool" where
  "queues_settled p s \<longleftrightarrow> (\<forall>q\<in>set (queues_list (pdds s p)).
     \<not> is_evicted (props s q) \<and> is_active (props s q) = QUEUE_IS_ACTIVE (props s q))"

lemma counts_same:
  assumes "dqm_inv s" and "dqm_inv t" and "ulists t = ulists s" "klists t = klists s" "procs t = procs s" "kqs t = kqs s"
    and "\<And>q. properties (qs t q) = properties (qs s q)"
  shows "active_queue_count (dqm t) = active_queue_count (dqm s)" "active_cp_queue_count (dqm t) = active_cp_queue_count (dqm s)"
proof -
  have c: "inv_counts s" "inv_counts t" using assms(1,2) by (simp_all add: dqm_inv_def counts_ok_def)
  have "qsum w_active t = qsum w_active s" "qsum w_cp t = qsum w_cp s" "ksum v t = ksum v s" for v
    using assms(3-7) by (simp_all add: w_active_def w_cp_def)
  then show "active_queue_count (dqm t) = active_queue_count (dqm s)" "active_cp_queue_count (dqm t) = active_cp_queue_count (dqm s)"
    using c by (simp_all add: inv_counts_def)
qed

text \<open>
  C22. An eviction and the restoration that follows cancel, under the hardware scheduler and whatever
  it answers: while the process is evicted none of its queues is active, and afterwards every queue
  has the properties it had, the process is not evicted, and the counters of active queues are what
  they were.
\<close>
theorem evict_restore_roundtrip:
  assumes "dqm_inv s" and "evicted (pdds s p) = 0" and "queues_settled p s"
    and "evict_process_queues_cpsch env p s = (r1, s1)" and "restore_process_queues_cpsch env p s1 = (r2, t)"
  shows "(\<forall>q\<in>set (queues_list (pdds s p)). \<not> is_active (props s1 q)) \<and> evicted (pdds s1 p) = 1 \<and>
         (\<forall>q. props t q = props s q) \<and> evicted (pdds t p) = 0 \<and> queues_list (pdds t p) = queues_list (pdds s p) \<and>
         active_queue_count (dqm t) = active_queue_count (dqm s) \<and> active_cp_queue_count (dqm t) = active_cp_queue_count (dqm s)"
proof -
  note e = evict_process_queues_cpsch_effect [OF assms(1,2,4)]
  have i1: "dqm_inv s1" by (rule evict_process_queues_cpsch_inv [OF assms(1,4)])
  have e1: "evicts s1 p = 1" using fun_cong [OF e(2), of p] by simp
  have u: "ulists s1 p = ulists s p" by (rule fun_cong [OF e(1)])
  note r = restore_process_queues_cpsch_effect [OF i1 e1 assms(5)]
  have p: "props t q = props s q" for q
    using assms(3) e(6,7) r(6,7) roundtrip_props [of "qs s q" "qs s1 q" "qs t q"] u
    by (cases "q \<in> set (ulists s p)") (auto simp: queues_settled_def)
  have "active_queue_count (dqm t) = active_queue_count (dqm s)" "active_cp_queue_count (dqm t) = active_cp_queue_count (dqm s)"
    using counts_same [OF assms(1) restore_process_queues_cpsch_inv [OF i1 assms(5)]] e(1-5) r(1-5) p by simp_all
  moreover have "evicted (pdds t p) = 0" "queues_list (pdds t p) = queues_list (pdds s p)"
    using fun_cong [OF r(2), of p] fun_cong [OF r(1), of p] u by simp_all
  moreover have "\<forall>q\<in>set (ulists s p). \<not> is_active (props s1 q)" using e(6) by (simp add: evicted_by_def)
  ultimately show ?thesis using e1 p by simp
qed

definition ex_evict_state :: "nat dqm_state" where
  "ex_evict_state = example_dqm_state\<lparr>dqm := zero_dqm\<lparr>dqm_queues := [2], processes_count := 1, active_queue_count := 1,
       active_cp_queue_count := 1, total_queue_count := 1\<rparr>,
     pdds := (\<lambda>_. zero_pdd)(2 := zero_pdd\<lparr>queues_list := [5], queue_count := 1\<rparr>),
     qs := (\<lambda>_. zero_queue\<lparr>properties := zero_properties\<lparr>queue_size := 4096, queue_address := 0x1000, queue_percent := 100,
              is_active := True\<rparr>\<rparr>)\<rparr>"

lemma ex_evict_state_inv: "dqm_inv ex_evict_state" "evicted (pdds ex_evict_state 2) = 0" "queues_settled 2 ex_evict_state"
  "active_queue_count (dqm ex_evict_state) = 1" "queues_list (pdds ex_evict_state 2) = [5]"
  by (auto simp: dqm_inv_def counts_ok_def inv_lists_def inv_counts_def inv_evict_def queues_settled_def ex_evict_state_def
      example_dqm_state_def zero_dqm_def zero_pdd_def w_active_def w_cp_def cp_type_def zero_properties_def QUEUE_IS_ACTIVE_def)

theorem evict_restore_roundtrip_witness:
  "dqm_inv ex_evict_state \<and> evicted (pdds ex_evict_state 2) = 0 \<and> queues_settled 2 ex_evict_state \<and>
   (\<exists>r1 s1 r2 t. evict_process_queues_cpsch example_dqm_env 2 ex_evict_state = (r1, s1) \<and>
      restore_process_queues_cpsch example_dqm_env 2 s1 = (r2, t) \<and> \<not> is_active (props s1 5) \<and>
      active_queue_count (dqm t) = 1)"
proof -
  obtain r1 s1 where 1: "evict_process_queues_cpsch example_dqm_env 2 ex_evict_state = (r1, s1)" by fastforce
  obtain r2 t where 2: "restore_process_queues_cpsch example_dqm_env 2 s1 = (r2, t)" by fastforce
  show ?thesis using evict_restore_roundtrip [OF ex_evict_state_inv(1-3) 1 2] ex_evict_state_inv 1 2 by auto
qed

section \<open>The end of a process without the hardware scheduler\<close>

text \<open>
  C24. Without the hardware scheduler, while the scheduler runs, the end of a process returns: the
  loop that destroys its queues one by one leaves none, the process is gone from the manager, and
  the counters are right.
\<close>
theorem process_termination_nocpsch_returns:
  assumes "dqm_inv s" and "sched_running (dqm s)"
    and "\<forall>q\<in>set (queues_list (pdds s p)). user_queue_type (qtype (props s q))"
    and "length (queues_list (pdds s p)) < fuel" and "priv_queue_list (pdds s p) = []"
  shows "\<exists>r t. process_termination_nocpsch env fuel p s = Some (r, t) \<and> dqm_inv t \<and>
           p \<notin> set (dqm_queues (dqm t)) \<and> queues_list (pdds t p) = []"
  by (rule process_termination_nocpsch_ends [OF assms, of env]) blast

theorem process_termination_nocpsch_returns_witness:
  "\<exists>r t. process_termination_nocpsch example_dqm_env 2 2 (upd_dqm (\<lambda>d. d\<lparr>sched_running := True\<rparr>) ex_evict_state) = Some (r, t) \<and>
     queues_list (pdds ex_evict_state 2) = [5] \<and> queues_list (pdds t 2) = []"
proof -
  let ?s = "upd_dqm (\<lambda>d. d\<lparr>sched_running := True\<rparr>) ex_evict_state"
  have "dqm_inv ?s" using dqm_inv_books [of ?s ex_evict_state] ex_evict_state_inv(1) by simp
  moreover have "\<forall>q\<in>set (queues_list (pdds ?s 2)). user_queue_type (qtype (props ?s q))" "priv_queue_list (pdds ?s 2) = []"
    by (simp_all add: ex_evict_state_def zero_pdd_def zero_properties_def user_queue_type_def)
  ultimately show ?thesis
    using process_termination_nocpsch_returns [of ?s 2 2 example_dqm_env] ex_evict_state_inv(5) by auto
qed

text \<open>While the scheduler is stopped the same loop never ends: destroying a queue leaves it in the
  list.\<close>

lemma destroy_queue_nocpsch_stopped:
  assumes "\<not> sched_running (dqm s)" and "user_queue_type (qtype (props s q))"
    and "destroy_queue_nocpsch_locked env p q s = (r, t)"
  shows "r = 0" and "ulists t = ulists s" and "\<not> sched_running (dqm t)" and "qs t = qs s"
    and "total_queue_count (dqm t) = total_queue_count (dqm s) - 1"
proof -
  have c: "(qtype (props s q) \<noteq> OPU_QUEUE_TYPE_COMPUTE \<and> \<not> is_sdma (qtype (props s q))) = False"
    using assms(2) by (auto simp: user_queue_type_def)
  define s1 where "s1 = free_slot q s"
  define s3 where "s3 = deallocate_doorbell p q (upd_dqm dec_total s1)"
  have R: "resources_only s s1" "resources_only (upd_dqm dec_total s1) s3"
    unfolding s1_def s3_def by (rule resources_free_slot) simp
  have qs: "qs s3 = qs s" by (simp add: s3_def s1_def deallocate_doorbell_def free_slot_def)
  have stop: "\<not> sched_running (dqm s3)" using assms(1) R by (simp add: resources_defs)
  have rt: "(0, s3) = (r, t)"
    using assms(3) unfolding destroy_queue_nocpsch_locked_def Let_def
    by (simp only: c if_False free_slot_def [symmetric] s1_def [symmetric] s3_def [symmetric] stop not_False_eq_True if_True)
  show "r = 0" and "ulists t = ulists s" and "\<not> sched_running (dqm t)" and "qs t = qs s"
    and "total_queue_count (dqm t) = total_queue_count (dqm s) - 1"
    using rt R stop qs by (auto simp: resources_defs)
qed

lemma term_queues_stopped:
  assumes "\<not> sched_running (dqm s)" and "\<forall>q\<in>set (ulists s p). user_queue_type (qtype (props s q))" and "ulists s p \<noteq> []"
  shows "term_queues_nocpsch env p fuel (rv, s) = None"
  using assms
proof (induction fuel arbitrary: s rv)
  case (Suc fuel)
  obtain q xs where q: "ulists s p = q # xs" using Suc.prems(3) by (cases "ulists s p") auto
  obtain r1 s1 where 1: "destroy_queue_nocpsch_locked env p q s = (r1, s1)" by fastforce
  have d: "ulists s1 = ulists s" "\<not> sched_running (dqm s1)" "qs s1 = qs s"
    using destroy_queue_nocpsch_stopped [OF Suc.prems(1) _ 1] Suc.prems(2) q by auto
  have u: "ulists s1 p = ulists s p" by (rule fun_cong [OF d(1)])
  show ?case using Suc.IH [of "upd_hw (free_mqd (mgr_of env s q) (mqd (qs s1 q)) (mqd_mem_obj (qs s1 q))) s1"
      "if r1 \<noteq> 0 then r1 else rv"] Suc.prems(2) q 1 d u by (simp add: Let_def)
qed simp

text \<open>
  C39. Without the hardware scheduler, while the scheduler is stopped, the end of a process that has a
  queue never returns, whatever the fuel: \<open>destroy_queue_nocpsch_locked\<close> returns success before it
  takes the queue off the list that the loop empties.
\<close>
theorem process_termination_nocpsch_diverges:
  assumes "\<not> sched_running (dqm s)" and "queues_list (pdds s p) \<noteq> []"
    and "\<forall>q\<in>set (queues_list (pdds s p)). user_queue_type (qtype (props s q))"
  shows "process_termination_nocpsch env fuel p s = None"
  using term_queues_stopped [OF assms(1,3,2)] by (simp add: process_termination_nocpsch_def)

theorem process_termination_nocpsch_diverges_witness:
  "process_termination_nocpsch example_dqm_env 1000 2 ex_evict_state = None \<and> \<not> sched_running (dqm ex_evict_state) \<and>
   queues_list (pdds ex_evict_state 2) = [5]"
  using process_termination_nocpsch_diverges [of ex_evict_state 2 example_dqm_env 1000] ex_evict_state_inv(5)
  by (simp add: ex_evict_state_def zero_dqm_def zero_properties_def user_queue_type_def)

section \<open>A hanging hardware scheduler\<close>

text \<open>
  C26. When the hardware scheduler does not answer an unmap request in time, the run-list update
  returns that error, the manager is marked as hanging and the reset work is scheduled unless a
  reset is under way; from then on every run-list update, for any filter, returns \<open>-EIO\<close> and leaves
  the manager and the hardware alone.
\<close>
theorem hws_hang_latched:
  assumes "sched_running (dqm s)" and "\<not> is_hws_hang (dqm s)" and "active_runlist (dqm s)"
    and "pm_send_unmap_queue env filt x (hw s) = (0, h1)"
    and "fence_wait env (pm_send_query_status env (fence_gpu_addr (dqm s)) (write_fence env OPU_FENCE_INIT h1)) = (e, h2)"
    and "e \<noteq> 0"
  shows "\<exists>t. execute_queues_cpsch env filt x s = (e, t) \<and> is_hws_hang (dqm t) \<and>
           (is_resetting (dqm s) \<or> hw_exception_work (dqm t)) \<and> (\<forall>filt' x'. execute_queues_cpsch env filt' x' t = (- EIO, t))"
  using assms by (simp add: execute_queues_cpsch_def unmap_queues_cpsch_def hw_call_def Let_def)

definition hang_env :: "nat dqm_env" where
  "hang_env = example_dqm_env\<lparr>fence_wait := (\<lambda>h. (- ETIME, h))\<rparr>"

theorem hws_hang_latched_witness:
  "\<exists>t. execute_queues_cpsch hang_env OPU_UNMAP_QUEUES_FILTER_ALL_QUEUES 0
         (upd_dqm (\<lambda>d. d\<lparr>sched_running := True, active_runlist := True\<rparr>) example_dqm_state) = (- ETIME, t) \<and> is_hws_hang (dqm t)"
  using hws_hang_latched [of "upd_dqm (\<lambda>d. d\<lparr>sched_running := True, active_runlist := True\<rparr>) example_dqm_state"
      hang_env OPU_UNMAP_QUEUES_FILTER_ALL_QUEUES 0 0 "- ETIME" 0]
  by (auto simp: hang_env_def example_dqm_env_def example_dqm_state_def zero_dqm_def)

section \<open>The wait for the fence\<close>

lemma fence_wait_loop_step:
  assumes "\<And>j. i \<le> j \<Longrightarrow> j < n \<Longrightarrow> fence j \<noteq> v \<and> \<not> time_after (now j) e" and "i \<le> n" and "n < i + fuel"
  shows "fence_wait_loop halt fence now v e fuel i = fence_wait_loop halt fence now v e (fuel - (n - i)) n"
  using assms
proof (induction fuel arbitrary: i)
  case (Suc fuel)
  show ?case
  proof (cases "i = n")
    case False
    then have "fence i \<noteq> v" "\<not> time_after (now i) e" "Suc i \<le> n" using Suc.prems(1) [of i] Suc.prems(2) by auto
    moreover from this have "fence_wait_loop halt fence now v e fuel (Suc i) =
        fence_wait_loop halt fence now v e (fuel - (n - Suc i)) n"
      using Suc.prems by (intro Suc.IH) auto
    ultimately show ?thesis by simp
  qed simp
qed simp

text \<open>
  C25. The wait for the fence returns. When some iteration sees the awaited value or a clock beyond the
  deadline, which a clock that advances guarantees, the wait returns with that iteration: 0 if the
  first such iteration sees the value, even when the deadline has passed at the same time, and
  \<open>-ETIME\<close> otherwise, unless the module parameter asks for a halt on a hang.
\<close>
theorem fence_wait_returns:
  assumes "fence n = v \<or> time_after (now n) (timeout + start)"
    and "\<forall>j < n. fence j \<noteq> v \<and> \<not> time_after (now j) (timeout + start)" and "n < fuel"
  shows "amdopu_fence_wait_timeout halt fence now start v timeout fuel =
           (if fence n = v then Some 0 else if halt then None else Some (- ETIME))"
proof -
  obtain m where m: "fuel - n = Suc m" using assms(3) by (metis Suc_diff_Suc)
  have "amdopu_fence_wait_timeout halt fence now start v timeout fuel =
      fence_wait_loop halt fence now v (timeout + start) (fuel - (n - 0)) n"
    unfolding amdopu_fence_wait_timeout_def using assms(2,3) by (intro fence_wait_loop_step) auto
  then show ?thesis using assms(1) m by auto
qed

theorem fence_wait_returns_witness:
  "amdopu_fence_wait_timeout False (\<lambda>i. if i < 3 then 10 else 100) (\<lambda>i. of_nat i) 0 100 9 5 = Some 0 \<and>
   time_after 12 9 \<and> \<not> time_after 3 9"
proof -
  have t: "\<not> time_after (of_nat j) (9 + 0)" if "j < 3" for j
  proof -
    have "j = 0 \<or> j = 1 \<or> j = 2" using that by auto
    then show ?thesis by (auto simp: time_after_def)
  qed
  have "amdopu_fence_wait_timeout False (\<lambda>i. if i < 3 then 10 else 100) (\<lambda>i. of_nat i) 0 100 9 5 = Some 0"
    using fence_wait_returns [of "\<lambda>i. if i < 3 then 10 else 100" 3 100 "\<lambda>i. of_nat i" 9 0 5 False] t by simp
  then show ?thesis by (simp add: time_after_def)
qed

section \<open>Where the schedulers agree: the map of SDMA queues\<close>

lemma ones_mask: "1 \<le> n \<Longrightarrow> n \<le> 64 \<Longrightarrow> drop_bit (64 - n) (- 1 :: u64) = push_bit n 1 - 1"
proof -
  assume n: "1 \<le> n" "n \<le> 64"
  have "drop_bit (64 - n) (- 1 :: u64) = mask n"
    using n by (intro bit_word_eqI) (auto simp: bit_simps)
  then show ?thesis by (simp add: mask_eq_exp_minus_1)
qed

lemma shr_ones:
  assumes "1 \<le> n" and "n \<le> (64 :: u32)"
  shows "shr_ull undef (- 1) (64 - n) = (if 64 \<le> n then - 1 else push_bit (unat n) 1 - 1)"
proof -
  have u: "1 \<le> unat n" "unat n \<le> 64" "unat (64 - n) = 64 - unat n"
    using assms by (auto simp: word_le_nat_alt unat_sub)
  then have "64 - n < 64" by (simp add: word_less_nat_alt)
  moreover have "drop_bit (64 - unat n) (- 1 :: u64) = (if 64 \<le> n then - 1 else push_bit (unat n) 1 - 1)"
  proof (cases "64 \<le> n")
    case True
    then have "unat n = 64" using u(2) by (simp add: word_le_nat_alt)
    then show ?thesis using True by simp
  next
    case False
    then show ?thesis using ones_mask u by simp
  qed
  ultimately show ?thesis using u(3) by (simp add: shr_ull_def)
qed

text \<open>
  Both schedulers start with the same maps of free SDMA queues on every device with 1 to 64 queues
  of each kind, although one shifts a word of ones to the right and the other computes a power of
  two minus one.
\<close>
theorem initialize_sdma_maps_agree:
  assumes "1 \<le> get_num_sdma_queues (dqm s)" "get_num_sdma_queues (dqm s) \<le> 64"
    and "1 \<le> get_num_xgmi_sdma_queues (dqm s)" "get_num_xgmi_sdma_queues (dqm s) \<le> 64"
  shows "sdma_bitmap (dqm (snd (initialize_nocpsch True undef s))) = sdma_bitmap (dqm (snd (initialize_cpsch s))) \<and>
         xgmi_sdma_bitmap (dqm (snd (initialize_nocpsch True undef s))) = xgmi_sdma_bitmap (dqm (snd (initialize_cpsch s)))"
  using shr_ones [OF assms(1,2)] shr_ones [OF assms(3,4)] by (simp add: initialize_nocpsch_def initialize_cpsch_def)

theorem initialize_sdma_maps_agree_witness:
  "get_num_sdma_queues (dqm example_dqm_state) = 4 \<and> get_num_xgmi_sdma_queues (dqm example_dqm_state) = 2 \<and>
   sdma_bitmap (dqm (snd (initialize_nocpsch True 0 example_dqm_state))) = 15 \<and>
   sdma_bitmap (dqm (snd (initialize_cpsch example_dqm_state))) = 15"
  using initialize_sdma_maps_agree [of example_dqm_state 0]
  by (simp add: get_num_sdma_queues_def get_num_xgmi_sdma_queues_def example_dqm_defs initialize_cpsch_def)

section \<open>The APE1 aperture\<close>

text \<open>The register holds bits 16 to 47 of an address.\<close>

lemma bit_ape1_masks:
  "bit APE1_LIMIT_ALIGNMENT i \<longleftrightarrow> i < 16" "bit APE1_FIXED_BITS_MASK i \<longleftrightarrow> i < 16 \<or> 47 \<le> i \<and> i < 64"
proof -
  have a: "APE1_LIMIT_ALIGNMENT = mask 16" by (simp add: mask_eq_exp_minus_1)
  have m: "APE1_FIXED_BITS_MASK = NOT (push_bit 16 (mask 31))"
    by (simp add: mask_eq_exp_minus_1 push_bit_eq_mult not_eq_complement)
  show "bit APE1_LIMIT_ALIGNMENT i \<longleftrightarrow> i < 16" unfolding a by (auto simp: bit_simps)
  show "bit APE1_FIXED_BITS_MASK i \<longleftrightarrow> i < 16 \<or> 47 \<le> i \<and> i < 64" unfolding m by (auto simp: bit_simps)
qed

lemma ape1_bits:
  assumes "w AND APE1_FIXED_BITS_MASK = c" and "bit APE1_FIXED_BITS_MASK i"
  shows "bit w i = bit c i"
  using assms(2) unfolding assms(1) [symmetric] by (simp add: bit_and_iff)

lemma ape1_decode:
  fixes w :: u64
  assumes "\<And>i. 47 \<le> i \<Longrightarrow> \<not> bit w i"
  shows "push_bit 16 (ucast (ucast (drop_bit 16 w) :: u32)) = w AND NOT (mask 16)"
proof (rule bit_word_eqI)
  fix i assume i: "i < LENGTH(64)"
  show "bit (push_bit 16 (ucast (ucast (drop_bit 16 w) :: u32)) :: u64) i = bit (w AND NOT (mask 16)) i"
    using i assms [of i] by (cases "i < 48") (auto simp: bit_simps)
qed

lemma low16:
  assumes "w AND APE1_FIXED_BITS_MASK = c" and "c = 0 \<or> c = APE1_LIMIT_ALIGNMENT"
  shows "(w AND NOT (mask 16)) OR c = w"
proof (rule bit_word_eqI)
  fix i assume i: "i < LENGTH(64)"
  show "bit ((w AND NOT (mask 16)) OR c) i = bit w i"
    using i assms(2) bit_ape1_masks [of i] ape1_bits [OF assms(1), of i]
    by (cases "i < 16") (auto simp: bit_or_iff bit_and_iff bit_not_iff bit_mask_iff)
qed

text \<open>
  The APE1 aperture a process asks for is what the hardware gets. A request with a size is accepted
  by the generic code exactly when it is not empty, does not wrap, starts on 64 KiB in the user range and
  ends on 64 KiB; the two registers then decode to the first and the last byte of the aperture. Any other
  request is refused and nothing changes.
\<close>
theorem set_cache_memory_policy_ape1:
  assumes "asic_set_cache_memory_policy env = Some f" and "sz \<noteq> 0"
  shows "if base < base + sz - 1 \<and> base AND APE1_FIXED_BITS_MASK = 0 \<and>
            (base + sz - 1) AND APE1_FIXED_BITS_MASK = APE1_LIMIT_ALIGNMENT
         then (let t = snd (set_cache_memory_policy env p dp ap base sz s)
               in push_bit 16 (ucast (sh_mem_ape1_base (pdds t p))) = base \<and>
                  push_bit 16 (ucast (sh_mem_ape1_limit (pdds t p))) OR 0xFFFF = base + sz - 1)
         else set_cache_memory_policy env p dp ap base sz s = (False, s)"
proof (cases "base < base + sz - 1 \<and> base AND APE1_FIXED_BITS_MASK = 0 \<and>
            (base + sz - 1) AND APE1_FIXED_BITS_MASK = APE1_LIMIT_ALIGNMENT")
  case False
  then have "base + sz - 1 \<le> base \<or> base AND APE1_FIXED_BITS_MASK \<noteq> 0 \<or>
      (base + sz - 1) AND APE1_FIXED_BITS_MASK \<noteq> APE1_LIMIT_ALIGNMENT" by (auto simp: not_less)
  then have "set_cache_memory_policy env p dp ap base sz s = (False, s)"
    using assms by (simp only: set_cache_memory_policy_def option.case Let_def) simp
  then show ?thesis using False by (simp only: if_False)
next
  case True
  let ?l = "base + sz - 1"
  have b: "base AND APE1_FIXED_BITS_MASK = 0" and l: "?l AND APE1_FIXED_BITS_MASK = APE1_LIMIT_ALIGNMENT" and o: "\<not> ?l \<le> base"
    using True by (auto simp: not_le)
  have "\<not> bit base i" "\<not> bit ?l i" if "47 \<le> i" for i
    using ape1_bits [OF b, of i] ape1_bits [OF l, of i] that bit_ape1_masks [of i] sdma_bit_less [of _ i] by auto
  then have d: "push_bit 16 (ucast (ucast (drop_bit 16 base) :: u32)) = base"
      "push_bit 16 (ucast (ucast (drop_bit 16 ?l) :: u32)) OR 0xFFFF = ?l"
    using ape1_decode [of base] ape1_decode [of ?l] low16 [OF b] low16 [OF l] by simp_all
  define s1 where "s1 = upd_pdd p (\<lambda>x. x\<lparr>sh_mem_ape1_base := ucast (drop_bit 16 base), sh_mem_ape1_limit := ucast (drop_bit 16 ?l)\<rparr>) s"
  have "sh_mem_ape1_base (pdds (snd (set_cache_memory_policy env p dp ap base sz s)) p) = ucast (drop_bit 16 base) \<and>
      sh_mem_ape1_limit (pdds (snd (set_cache_memory_policy env p dp ap base sz s)) p) = ucast (drop_bit 16 ?l)"
    unfolding set_cache_memory_policy_def Let_def
    by (simp only: assms option.case b l o simp_thms if_False s1_def [symmetric])
      (simp add: case_prod_unfold program_sh_mem_settings_def s1_def)
  then show ?thesis using True d by (simp only: Let_def if_True simp_thms)
qed

definition ape_env :: "nat dqm_env" where
  "ape_env = example_dqm_env\<lparr>asic_set_cache_memory_policy := Some (\<lambda>pdd dp ap base sz. (True, 0))\<rparr>"

theorem set_cache_memory_policy_ape1_witness:
  "asic_set_cache_memory_policy ape_env \<noteq> None \<and>
   push_bit 16 (ucast (sh_mem_ape1_base (pdds (snd (set_cache_memory_policy ape_env 2 cache_policy_coherent cache_policy_noncoherent
     0x20000 0x10000 example_dqm_state)) 2))) = (0x20000 :: u64)"
  using set_cache_memory_policy_ape1 [of ape_env _ "0x10000" "0x20000" 2 cache_policy_coherent cache_policy_noncoherent example_dqm_state]
  by (simp add: ape_env_def Let_def)

section \<open>A failed creation leaks nothing\<close>

text \<open>The maps of SDMA queues have bits for existing queues only.\<close>

definition sdma_maps_ok :: "'h dqm_state \<Rightarrow> bool" where
  "sdma_maps_ok s \<longleftrightarrow> bits_below (unat (get_num_sdma_queues (dqm s))) (sdma_bitmap (dqm s)) \<and>
     bits_below (unat (get_num_xgmi_sdma_queues (dqm s))) (xgmi_sdma_bitmap (dqm s))"

text \<open>The resources of the manager that a queue takes: SDMA slots and doorbells.\<close>

definition pools :: "'h dqm_state \<Rightarrow> u64 \<times> u64 \<times> (nat \<Rightarrow> bitmap)" where
  "pools s = (sdma_bitmap (dqm s), xgmi_sdma_bitmap (dqm s), \<lambda>p. doorbell_bitmap (pdds s p))"

lemma take_put_bit: "bit (w :: u64) b \<Longrightarrow> (w AND NOT (push_bit b 1)) OR push_bit b 1 = w"
  by (rule bit_word_eqI) (auto simp: bit_simps)

lemma sdma_take_put:
  assumes "sdma_maps_ok s" and "allocate_sdma_queue q s = (r, s1)" and "r = 0 \<or> t = s1"
    and "sdma_bitmap (dqm t) = sdma_bitmap (dqm s1)" "xgmi_sdma_bitmap (dqm t) = xgmi_sdma_bitmap (dqm s1)"
    and "dev (dqm t) = dev (dqm s1)" "qtype (props t q) = qtype (props s1 q)" "sdma_id (qs t q) = sdma_id (qs s1 q)"
  shows "r = 0 \<Longrightarrow> sdma_bitmap (dqm (out_deallocate_sdma_queue q t)) = sdma_bitmap (dqm s) \<and>
      xgmi_sdma_bitmap (dqm (out_deallocate_sdma_queue q t)) = xgmi_sdma_bitmap (dqm s)" and "r \<noteq> 0 \<Longrightarrow> s1 = s"
proof -
  have n: "get_num_sdma_queues (dqm t) = get_num_sdma_queues (dqm s1)"
    "get_num_xgmi_sdma_queues (dqm t) = get_num_xgmi_sdma_queues (dqm s1)"
    using assms(6) by (simp_all add: get_num_sdma_queues_def get_num_xgmi_sdma_queues_def)
  have small: "unat (of_nat b :: u32) = b \<and> \<not> m \<le> of_nat b" if "bits_below (unat m) w" "bit (w :: u64) b" for b w and m :: u32
    using that sdma_bit_less [of w b] unat_of_nat_small [of b] by (auto simp: bits_below_def word_le_nat_alt)
  show "r \<noteq> 0 \<Longrightarrow> s1 = s"
    using assms(2) by (auto simp: allocate_sdma_queue_def split: if_splits option.splits)
  show "r = 0 \<Longrightarrow> sdma_bitmap (dqm (out_deallocate_sdma_queue q t)) = sdma_bitmap (dqm s) \<and>
      xgmi_sdma_bitmap (dqm (out_deallocate_sdma_queue q t)) = xgmi_sdma_bitmap (dqm s)"
    using assms(1,2,4-8) n small
    by (auto simp: allocate_sdma_queue_def out_deallocate_sdma_queue_def deallocate_sdma_queue_def is_sdma_def sdma_maps_ok_def
        lowest_bit_Some take_put_bit simp del: push_bit_of_1 split: if_splits option.splits)
qed

lemma doorbell_take_put:
  assumes "allocate_doorbell p q s = (r, s1)" and "dev (dqm t) = dev (dqm s1)" and "pdds t = pdds s1"
    and "qtype (props t q) = qtype (props s1 q)" "doorbell_id (qs t q) = doorbell_id (qs s1 q)"
  shows "r = 0 \<Longrightarrow> doorbell_bitmap (pdds (deallocate_doorbell p q t) x) = doorbell_bitmap (pdds s x)" and "r \<noteq> 0 \<Longrightarrow> s1 = s"
proof -
  show "r \<noteq> 0 \<Longrightarrow> s1 = s"
    using assms(1) by (auto simp: allocate_doorbell_def Let_def split: if_splits)
  show "r = 0 \<Longrightarrow> doorbell_bitmap (pdds (deallocate_doorbell p q t) x) = doorbell_bitmap (pdds s x)"
  proof (cases "soc15 (device_info (dev (dqm s))) \<and> \<not> is_sdma (qtype (props s q))")
    case True
    assume "r = 0"
    with True assms(1) obtain i where i: "\<not> doorbell_bitmap (pdds s p) i" "unat (doorbell_id (qs s1 q)) = i" "dqm s1 = dqm s"
        "pdds s1 = (pdds s)(p := (pdds s p)\<lparr>doorbell_bitmap := (doorbell_bitmap (pdds s p))(i := True)\<rparr>)"
        "qtype (props s1 q) = qtype (props s q)"
      by (auto elim: allocate_doorbell_cases)
    then show ?thesis using True assms(2-5)
      by (auto simp: deallocate_doorbell_def clear_bit_at_def fun_eq_iff)
  next
    case False
    then have "dqm s1 = dqm s \<and> pdds s1 = pdds s \<and> qtype (props s1 q) = qtype (props s q)"
      using assms(1) by (auto simp: allocate_doorbell_def Let_def split: if_splits)
    then show ?thesis using False assms(2-5) by (auto simp: deallocate_doorbell_def)
  qed
qed

lemma create_queue_cpsch_no_mqd:
  assumes "\<not> max_num_of_queues_per_device env \<le> total_queue_count (dqm s)"
    and "(if is_sdma (qtype (props s q)) then allocate_sdma_queue q s else (0, s)) = (0, s1)"
    and "allocate_doorbell p q s1 = (0, s2)" and "create_queue_cpsch env q p s = (r, t)" and "r \<noteq> 0"
  obtains s6 where "dqm s6 = dqm s2" "pdds s6 = pdds s2" "qtype (props s6 q) = qtype (props s2 q)"
    "sdma_id (qs s6 q) = sdma_id (qs s2 q)" "doorbell_id (qs s6 q) = doorbell_id (qs s2 q)"
    "t = out_deallocate_sdma_queue q (deallocate_doorbell p q s6)"
proof -
  define s3 where "s3 = (if is_sdma (qtype (props s2 q))
    then upd_props q (\<lambda>x. x\<lparr>sdma_vm_addr := asic_init_sdma_vm env (qs s2 q) (pdds s2 p)\<rparr>) s2 else s2)"
  define s4 where "s4 = upd_props q (\<lambda>x. x\<lparr>q_tba_addr := tba_addr (pdds s3 p), q_tma_addr := tma_addr (pdds s3 p)\<rparr>) s3"
  obtain obj s5 where 5: "hw_call (allocate_mqd (mgr_of env s2 q) (props s4 q)) s4 = (obj, s5)" by fastforce
  define s6 where "s6 = upd_q q (\<lambda>x. x\<lparr>mqd_mem_obj := obj\<rparr>) s5"
  have v6: "dqm s6 = dqm s2" "pdds s6 = pdds s2" "qtype (props s6 q) = qtype (props s2 q)"
      "sdma_id (qs s6 q) = sdma_id (qs s2 q)" "doorbell_id (qs s6 q) = doorbell_id (qs s2 q)"
    using hw_call_frame [OF 5] by (simp_all add: s6_def s4_def s3_def)
  have none: "obj = None"
  proof (rule ccontr)
    assume "obj \<noteq> None"
    then obtain m where m: "obj = Some m" by blast
    have "fst (create_queue_cpsch env q p s) = 0"
      unfolding create_queue_cpsch_def Let_def
      by (simp only: assms(1-3) 5 m if_False if_True prod.case option.case simp_thms s3_def [symmetric] s4_def [symmetric])
        (simp add: case_prod_unfold)
    then show False using assms(4,5) by simp
  qed
  have t: "t = out_deallocate_sdma_queue q (deallocate_doorbell p q s6)"
  proof -
    have "create_queue_cpsch env q p s = (- ENOMEM, out_deallocate_sdma_queue q (deallocate_doorbell p q s6))"
      unfolding create_queue_cpsch_def Let_def
      by (simp only: assms(1-3) 5 none if_False if_True prod.case option.case simp_thms s3_def [symmetric] s4_def [symmetric]
          s6_def [unfolded none, symmetric])
    then show ?thesis using assms(4) by simp
  qed
  from v6 t show ?thesis by (rule that)
qed

text \<open>
  C23. A creation that fails takes nothing: under the hardware scheduler, whichever step fails (the limit
  of queues, the SDMA slot, the doorbell, the descriptor), the maps of free SDMA queues and the doorbells of
  every process are what they were, and so are the queue lists.
\<close>
theorem create_queue_cpsch_fail_no_leak:
  assumes "sdma_maps_ok s" and "create_queue_cpsch env q p s = (r, t)" and "r \<noteq> 0"
  shows "pools t = pools s \<and> (\<forall>x. queues_list (pdds t x) = queues_list (pdds s x))"
proof (cases "max_num_of_queues_per_device env \<le> total_queue_count (dqm s)")
  case True
  then show ?thesis using assms(2) by (simp add: create_queue_cpsch_def)
next
  case F0: False
  obtain r1 s1 where 1: "(if is_sdma (qtype (props s q)) then allocate_sdma_queue q s else (0, s)) = (r1, s1)" by fastforce
  obtain r2 s2 where 2: "allocate_doorbell p q s1 = (r2, s2)" by fastforce
  have A: "allocate_sdma_queue q s = (r1, s1)"
    using 1 by (auto simp: allocate_sdma_queue_def is_sdma_def split: if_splits)
  have p1: "pdds s1 = pdds s" using A by (auto simp: allocate_sdma_queue_def split: if_splits option.splits)
  have d2: "sdma_bitmap (dqm s2) = sdma_bitmap (dqm s1)" "xgmi_sdma_bitmap (dqm s2) = xgmi_sdma_bitmap (dqm s1)"
      "dev (dqm s2) = dev (dqm s1)" "qtype (props s2 q) = qtype (props s1 q)" "sdma_id (qs s2 q) = sdma_id (qs s1 q)"
    using 2 by (auto simp: allocate_doorbell_def Let_def split: if_splits)
  have od: "pdds (out_deallocate_sdma_queue q x) = pdds x" for x :: "'a dqm_state"
    by (simp add: out_deallocate_sdma_queue_def)
  consider "r1 \<noteq> 0" | "r1 = 0" "r2 \<noteq> 0" | "r1 = 0" "r2 = 0" by blast
  then show ?thesis
  proof cases
    case E: 1
    then have "t = s1" using 1 assms(2) F0 by (simp add: create_queue_cpsch_def)
    moreover have "s1 = s" using sdma_take_put(2) [OF assms(1) A, of s1] E by simp
    ultimately show ?thesis by simp
  next
    case E: 2
    then have "t = out_deallocate_sdma_queue q s2" "s2 = s1"
      using 1 2 assms(2) F0 doorbell_take_put(2) [OF 2, of s2] by (auto simp: create_queue_cpsch_def)
    then show ?thesis using sdma_take_put(1) [OF assms(1) A, of s1] E p1 od by (simp add: pools_def)
  next
    case E: 3
    obtain s6 where v6: "dqm s6 = dqm s2" "pdds s6 = pdds s2" "qtype (props s6 q) = qtype (props s2 q)"
        "sdma_id (qs s6 q) = sdma_id (qs s2 q)" "doorbell_id (qs s6 q) = doorbell_id (qs s2 q)"
      and t: "t = out_deallocate_sdma_queue q (deallocate_doorbell p q s6)"
      using create_queue_cpsch_no_mqd [OF F0] 1 2 E assms(2,3) by metis
    have "doorbell_bitmap (pdds (deallocate_doorbell p q s6) x) = doorbell_bitmap (pdds s1 x)" for x
      using doorbell_take_put(1) [OF 2, of s6] v6 E by simp
    moreover have "ulists t = ulists s"
      using resources_allocate_doorbell [OF 2] v6(2) p1 unfolding t od
      by (auto simp: deallocate_doorbell_def resources_defs)
    moreover have "sdma_bitmap (dqm t) = sdma_bitmap (dqm s) \<and> xgmi_sdma_bitmap (dqm t) = xgmi_sdma_bitmap (dqm s)"
      unfolding t using sdma_take_put(1) [OF assms(1) A, of "deallocate_doorbell p q s6"] v6 d2 E
      by (simp add: deallocate_doorbell_def)
    ultimately show ?thesis using p1 unfolding t od pools_def by (simp add: fun_eq_iff od)
  qed
qed

definition no_sdma_state :: "nat dqm_state" where
  "no_sdma_state = upd_dqm (\<lambda>d. d\<lparr>sdma_bitmap := 0, xgmi_sdma_bitmap := 0\<rparr>) sdma_example_state"

theorem create_queue_cpsch_fail_no_leak_witness:
  "\<exists>t. create_queue_cpsch example_dqm_env 7 2 no_sdma_state = (- ENOMEM, t) \<and> pools t = pools no_sdma_state"
proof -
  have "lowest_bit (0 :: u64) = None" by (simp add: lowest_bit_None)
  then have c: "create_queue_cpsch example_dqm_env 7 2 no_sdma_state = (- ENOMEM, no_sdma_state)"
    by (simp add: create_queue_cpsch_def no_sdma_state_def sdma_example_state_def allocate_sdma_queue_def is_sdma_def
        example_dqm_env_def example_dqm_defs)
  have "sdma_maps_ok no_sdma_state" by (simp add: no_sdma_state_def sdma_maps_ok_def bits_below_def)
  then show ?thesis using create_queue_cpsch_fail_no_leak [OF _ c] c by simp
qed

section \<open>The count of queues with global wave sync\<close>

lemma fold_evict_gws: "gws_queue_count (dqm (fold evict_queue_cpsch xs s)) = gws_queue_count (dqm s)"
  by (induction xs arbitrary: s) (simp_all add: evict_queue_cpsch_def Let_def)

lemma deallocate_gws [simp]:
  "gws_queue_count (dqm (deallocate_doorbell p q s)) = gws_queue_count (dqm s)"
  "gws_queue_count (dqm (deallocate_sdma_queue q s)) = gws_queue_count (dqm s)"
  "qs (deallocate_doorbell p q s) = qs s"
  by (simp_all add: deallocate_doorbell_def deallocate_sdma_queue_def)

text \<open>
  Under the hardware scheduler the count of queues that use global wave sync is not kept: the
  eviction of a process leaves it as it was, although its queues are no longer active, and the destruction
  of an evicted queue leaves it again. An active queue with global wave sync that is evicted and then destroyed
  stays in the count for good; the driver's own scheduler decrements the count in the eviction.
\<close>
theorem gws_count_not_kept_by_eviction:
  assumes "dqm_inv s" and "evicted (pdds s p) = 0" and "q \<in> set (queues_list (pdds s p))"
    and "evict_process_queues_cpsch env p s = (r1, s1)" and "destroy_queue_cpsch env p q s1 = (r2, t)"
  shows "gws_queue_count (dqm s1) = gws_queue_count (dqm s) \<and> gws_queue_count (dqm t) = gws_queue_count (dqm s)"
proof -
  have 1: "gws_queue_count (dqm s1) = gws_queue_count (dqm s)"
    using arg_cong [OF assms(4), of "\<lambda>x. gws_queue_count (dqm (snd x))"]
    by (simp add: evict_process_queues_cpsch_def Let_def fold_evict_gws split: if_splits)
  have "\<not> is_active (props s1 q)"
    using evict_process_queues_cpsch_effect(6) [OF assms(1,2,4)] assms(3) by (auto simp: evicted_by_def)
  then have "gws_queue_count (dqm (snd (destroy_queue_cpsch env p q s1))) = gws_queue_count (dqm s1)"
    by (simp add: destroy_queue_cpsch_def Let_def case_prod_unfold)
  then show ?thesis using 1 assms(5) by simp
qed

definition ex_gws_state :: "nat dqm_state" where
  "ex_gws_state = upd_dqm (\<lambda>d. d\<lparr>gws_queue_count := 1\<rparr>)
     (ex_evict_state\<lparr>qs := (\<lambda>x. (qs ex_evict_state x)\<lparr>gws := Some 0, properties := (props ex_evict_state x)\<lparr>is_gws := True\<rparr>\<rparr>)\<rparr>)"

theorem gws_count_not_kept_by_eviction_witness:
  "\<exists>r1 s1 r2 t. evict_process_queues_cpsch example_dqm_env 2 ex_gws_state = (r1, s1) \<and>
     destroy_queue_cpsch example_dqm_env 2 5 s1 = (r2, t) \<and> queues_list (pdds t 2) = [] \<and> gws_queue_count (dqm t) = 1"
proof -
  have i: "dqm_inv ex_gws_state" "evicted (pdds ex_gws_state 2) = 0" "queues_list (pdds ex_gws_state 2) = [5]"
      "gws_queue_count (dqm ex_gws_state) = 1" "is_debug (pdds ex_gws_state 2) = False"
    by (auto simp: ex_gws_state_def dqm_inv_def counts_ok_def inv_lists_def inv_counts_def inv_evict_def ex_evict_state_def
        example_dqm_state_def zero_dqm_def zero_pdd_def w_active_def w_cp_def cp_type_def zero_properties_def)
  obtain r1 s1 where 1: "evict_process_queues_cpsch example_dqm_env 2 ex_gws_state = (r1, s1)" by fastforce
  obtain r2 t where 2: "destroy_queue_cpsch example_dqm_env 2 5 s1 = (r2, t)" by fastforce
  note g = gws_count_not_kept_by_eviction [OF i(1,2) _ 1 2]
  have q1: "queues_list (pdds s1 2) = [5]"
    using fun_cong [OF evict_process_queues_cpsch_effect(1) [OF i(1,2) 1], of 2] i(3) by simp
  have "is_debug (pdds s1 2) = False"
    using arg_cong [OF 1, of "\<lambda>x. is_debug (pdds (snd x) 2)"] i(2,3,5)
    by (simp add: evict_process_queues_cpsch_def evict_queue_cpsch_def Let_def split: if_splits)
  then have "queues_list (pdds t 2) = []"
    using q1 arg_cong [OF 2, of "\<lambda>x. queues_list (pdds (snd x) 2)"]
    by (simp add: destroy_queue_cpsch_def Let_def case_prod_unfold deallocate_doorbell_def split: if_splits)
  then show ?thesis using g i 1 2 by auto
qed

end
