(* ===== verification/Opu_Pqm_Props.thy ===== *)
theory Opu_Pqm_Props
  imports Opu_Pqm_Client Opu_Dqm_Props
begin

text \<open>
  What the process queue manager promises over the device queue managers of both schedulers: ids, nodes and
  lists agree after any calls, a failed creation leaves nothing behind, a destruction undoes a creation; and
  what a destruction leaves when the hardware scheduler hangs.
\<close>

section \<open>Ids, nodes and lists agree\<close>


section \<open>Creation\<close>


section \<open>Creation and destruction cancel\<close>


section \<open>Destruction while the hardware scheduler hangs\<close>

lemma destroy_queue_cpsch_hang:
  assumes "sched_running (dqm s)" and "is_hws_hang (dqm s)" and "\<not> is_debug (pdds s p)" and "is_active (props s q)"
  shows "\<exists>t. destroy_queue_cpsch env p q s = (- EIO, t) \<and> ulists t p = remove1 q (ulists s p) \<and> qs t = qs s \<and> kqs t = kqs s \<and>
    hw t = free_mqd (mgr_of env s q) (mqd (qs s q)) (mqd_mem_obj (qs s q)) (hw s)"
proof -
  have e: "execute_dynamic env x = (- EIO, x)" if "sched_running (dqm x)" "is_hws_hang (dqm x)" for x
    using that by (simp add: execute_queues_cpsch_def unmap_queues_cpsch_def)
  show ?thesis
    using assms by (auto simp: destroy_queue_cpsch_def Let_def e deallocate_sdma_queue_def deallocate_doorbell_def)
qed

text \<open>
  C40. While the hardware scheduler of a device is marked as hanging, \<open>pqm_destroy_queue\<close> of an active user
  queue returns \<open>-EIO\<close> halfway: the device queue manager has taken the queue out of its list and freed its
  MQD, but the process queue manager keeps the node, so the id still finds the queue that is gone.
\<close>
theorem pqm_destroy_on_hang_keeps_node:
  assumes "pqm_inv p s" and "get_queue_by_qid s qid = Some n" and "pqn_q n = Some (d, q)" and "has_pdd env d"
    and "dev_ops env d = cpsch_ops (dev_env env d)" and "sched_running (dqm (devs s d))" and "is_hws_hang (dqm (devs s d))"
    and "\<not> is_debug (pdds (devs s d) p)" and "is_active (props (devs s d) q)"
  shows "\<exists>t. pqm_destroy_queue env p qid s = Some (- EIO, t) \<and> get_queue_by_qid t qid = Some n \<and>
    q \<in> set (ulists (devs s d) p) \<and> q \<notin> set (ulists (devs t d) p) \<and>
    hw (devs t d) = free_mqd (mgr_of (dev_env env d) (devs s d) q) (mqd (qs (devs s d) q)) (mqd_mem_obj (qs (devs s d) q)) (hw (devs s d))"
proof -
  have n: "n \<in> set (pqm_queues s)" "pqn_kq n = None" "node_dev n = Some d"
    using pqm_inv_node [OF assms(1,2)] assms(3) by (simp_all add: node_ok_def node_dev_def del: not_None_eq)
  have a: "agrees p (user_queues (pqm_queues s)) (kernel_queues (pqm_queues s)) (used_devs (pqm_queues s)) s" using assms(1) by (simp add: pqm_inv_def)
  have q: "q \<in> set (ulists (devs s d) p)" using agreesD(2) [OF a, of d] n(1) assms(3) by (auto simp: in_user_queues)
  obtain t where t: "destroy_queue_cpsch (dev_env env d) p q (devs s d) = (- EIO, t)" "ulists t p = remove1 q (ulists (devs s d) p)"
    "qs t = qs (devs s d)" "kqs t = kqs (devs s d)"
    "hw t = free_mqd (mgr_of (dev_env env d) (devs s d) q) (mqd (qs (devs s d) q)) (mqd_mem_obj (qs (devs s d) q)) (hw (devs s d))"
    using destroy_queue_cpsch_hang [OF assms(6-9)] by metis
  have "distinct (ulists (devs s d) p)" using queues_in_all agreesD(1) [OF a, of d] by (auto simp: dqm_inv_def)
  then have "q \<notin> set (ulists t p)" by (simp add: t(2))
  moreover have "pqm_destroy_queue env p qid s = Some (- EIO, upd_dev d (\<lambda>_. t) s)"
    using assms(2-5) n t(1) by (simp add: pqm_destroy_queue_def destroy_kernel_part_def destroy_user_part_def cpsch_ops_sel upd_dev_def)
  moreover have "get_queue_by_qid (upd_dev d (\<lambda>_. t) s) qid = Some n"
  proof -
    have "node_has_qid (upd_dev d (\<lambda>_. t) s) qid = node_has_qid s qid"
      by (auto simp: node_has_qid_def fun_eq_iff t(3,4) split: option.splits)
    then show ?thesis using assms(2) by (simp add: get_queue_by_qid_def)
  qed
  ultimately show ?thesis using q t(5) by auto
qed


section \<open>Examples\<close>

definition ex_pqm_env :: "nat pqm_env" where
  "ex_pqm_env = \<lparr>dev_env = (\<lambda>_. example_dqm_env), dev_ops = (\<lambda>_. cpsch_ops example_dqm_env), has_pdd = (\<lambda>_. True), kq_alloc = kq_example_env,
     add_gws_to_process = (\<lambda>g h. ((0, Some g), h)), remove_gws_from_process = (\<lambda>_ h. (0, h)), get_num_gws = (\<lambda>_. 64)\<rparr>"

definition ex_pqm_state :: "nat pqm_state" where
  "ex_pqm_state = \<lparr>pqm_queues = [], queue_slot_bitmap = (\<lambda>_. False), num_gws = (\<lambda>_. 0), devs = (\<lambda>_. ex_queue_state)\<rparr>"

definition ex_allocs :: pqm_allocs where
  "ex_allocs = \<lparr>pqn_ok = True, queue_ok = True, new_queue = 5, kq_ok = True, new_kq = 6, register_ok = True\<rparr>"

lemma ex_driver_env: "driver_env (\<lambda>_. OPU_SCHED_POLICY_HWS) ex_pqm_env = ex_pqm_env" "envs_ok ex_pqm_env"
  by (simp_all add: driver_env_def ex_pqm_env_def envs_ok_def example_env_ok)

lemma find_first_zero_bit_0: "\<not> bm 0 \<Longrightarrow> 0 < sz \<Longrightarrow> find_first_zero_bit bm sz = 0"
  by (simp add: find_first_zero_bit_def find_next_zero_bit.simps [of bm sz 0])

lemmas ex_pqm_defs = ex_pqm_env_def ex_pqm_state_def ex_allocs_def find_available_queue_slot_def find_first_zero_bit_0
  ex_queue_state_def initialize_cpsch_def example_dqm_defs Let_def no_queues_on_def create_node_def create_user_node_def init_user_queue_def
  init_queue_def cpsch_ops_sel register_process_def opu_inc_compute_active_def example_dqm_env_def over_subscribed_def create_queue_cpsch_def
  upd_dev_def is_sdma_def allocate_doorbell_def set_bit_at_def hw_call_def example_mqd_manager_def QUEUE_IS_ACTIVE_def

abbreviation ex_create :: "pqm_allocs \<Rightarrow> (int \<times> (nat \<times> u32 option) option \<times> nat pqm_state) option" where
  "ex_create al \<equiv> pqm_create_queue ex_pqm_env al 2 0 (zero_properties\<lparr>qtype := OPU_QUEUE_TYPE_COMPUTE\<rparr>) ex_pqm_state"

lemma ex_created:
  "\<exists>off t. ex_create ex_allocs = Some (0, Some (0, off), t) \<and> pqm_queues t = [\<lparr>pqn_q = Some (0, 5), pqn_kq = None\<rparr>] \<and>
     \<not> is_debug (pdds (devs t 0) 2) \<and> \<not> is_active (props (devs t 0) 5) \<and> queue_id (props (devs t 0) 5) = 0"
  by (simp add: pqm_create_queue_def ex_pqm_defs)

lemma ex_create_fails: "\<exists>t. ex_create (ex_allocs\<lparr>queue_ok := False\<rparr>) = Some (- ENOMEM, None, t)"
  by (simp add: pqm_create_queue_def ex_pqm_defs err_create_queue_def)

lemma ex_pqm_inv: "pqm_inv 2 ex_pqm_state" "\<forall>d. dqm_inv (devs ex_pqm_state d) \<and> 2 \<notin> set (procs (devs ex_pqm_state d))"
  "pqm_init True ex_pqm_state = (0, ex_pqm_state)" "fresh_objects al (devs ex_pqm_state d)"
proof -
  have "no_queues example_dqm_state" by (simp add: no_queues_def example_dqm_state_def zero_pdd_def)
  then have "dqm_inv ex_queue_state" by (rule fresh_inv(1) [OF _ ex_queue_state_init])
  then show q: "\<forall>d. dqm_inv (devs ex_pqm_state d) \<and> 2 \<notin> set (procs (devs ex_pqm_state d))"
    by (simp add: ex_pqm_state_def) (simp add: ex_queue_state_def initialize_cpsch_def zero_dqm_def)
  show i: "pqm_init True ex_pqm_state = (0, ex_pqm_state)" by (simp add: pqm_init_def ex_pqm_state_def)
  show "pqm_inv 2 ex_pqm_state" by (rule pqm_init_inv [OF q i])
  show "fresh_objects al (devs ex_pqm_state d)"
    by (simp add: fresh_objects_def ex_pqm_state_def ex_queue_state_def initialize_cpsch_def example_dqm_state_def zero_pdd_def)
qed

lemma ex_destroyed:
  assumes "pqm_queues t = [\<lparr>pqn_q = Some (0, 5), pqn_kq = None\<rparr>]" "\<not> is_debug (pdds (devs t 0) 2)" "\<not> is_active (props (devs t 0) 5)"
    "queue_id (props (devs t 0) 5) = 0"
  shows "\<exists>u. pqm_destroy_queue ex_pqm_env 2 0 t = Some (0, u)"
proof -
  have "fst (destroy_queue_cpsch example_dqm_env 2 5 (devs t 0)) = 0"
    using assms(2,3) by (simp add: destroy_queue_cpsch_def Let_def deallocate_sdma_queue_def deallocate_doorbell_def)
  then show ?thesis
    using assms(1,4) by (simp add: pqm_destroy_queue_def get_queue_by_qid_def node_has_qid_def node_dev_def ex_pqm_env_def
        destroy_kernel_part_def destroy_user_part_def cpsch_ops_sel Let_def)
qed




definition ex_hang_state :: "nat pqm_state" where
  "ex_hang_state = \<lparr>pqm_queues = [\<lparr>pqn_q = Some (0, 5), pqn_kq = None\<rparr>], queue_slot_bitmap = (\<lambda>i. i = 0), num_gws = (\<lambda>_. 0),
     devs = (\<lambda>_. ex_queue_state)(0 := upd_dqm (\<lambda>m. m\<lparr>sched_running := True, is_hws_hang := True\<rparr>) ex_evict_state)\<rparr>"

lemma ex_hang_state_inv: "pqm_inv 2 ex_hang_state"
proof -
  let ?d = "upd_dqm (\<lambda>m. m\<lparr>sched_running := True, is_hws_hang := True\<rparr>) ex_evict_state"
  have "dqm_inv ?d" using dqm_inv_books [of ?d ex_evict_state] ex_evict_state_inv(1) by simp
  moreover have "dqm_inv ex_queue_state" using ex_pqm_inv(2) by (simp add: ex_pqm_state_def)
  moreover have "procs ex_queue_state = []" "ulists ex_queue_state 2 = []" "klists ex_queue_state 2 = []"
    by (simp_all add: ex_queue_state_def initialize_cpsch_def zero_dqm_def example_dqm_state_def zero_pdd_def)
  moreover have "procs ?d = [2]" "ulists ?d 2 = [5]" "klists ?d 2 = []" "queue_id (props ?d 5) = 0"
    by (simp_all add: ex_evict_state_def zero_pdd_def zero_properties_def)
  ultimately show ?thesis
    by (auto simp: pqm_inv_def agrees_def ex_hang_state_def used_devs_def users_of_def kernels_of_def node_ok_def good_ids_def node_id_def)
qed

theorem pqm_destroy_on_hang_keeps_node_witness:
  "\<exists>t. pqm_destroy_queue ex_pqm_env 2 0 ex_hang_state = Some (- EIO, t) \<and>
     get_queue_by_qid t 0 = Some \<lparr>pqn_q = Some (0, 5), pqn_kq = None\<rparr> \<and> 5 \<notin> set (queues_list (pdds (devs t 0) 2))"
proof -
  have "get_queue_by_qid ex_hang_state 0 = Some \<lparr>pqn_q = Some (0, 5), pqn_kq = None\<rparr>"
    by (simp add: get_queue_by_qid_def ex_hang_state_def node_has_qid_def ex_evict_state_def zero_properties_def)
  from pqm_destroy_on_hang_keeps_node [OF ex_hang_state_inv this, of 0 5 ex_pqm_env] show ?thesis
    by (auto simp: ex_hang_state_def ex_pqm_env_def ex_evict_state_def zero_pdd_def)
qed

end
