(* ===== verification/Opu_Events.thy ===== *)
theory Opu_Events
  imports Opu_Dev
begin

text \<open>
  Events of a process (\<open>opu_events.c\<close>, \<open>opu_events.h\<close>). Events are objects in memory, named by an
  address; the \<open>idr\<close> of the process maps event ids to addresses and is kept as a list sorted by id,
  the order in which the kernel iterates over it. Waiting threads are numbers; a thread has an array
  of waiters, and the wait queue of an event holds pairs of a thread and an index into that array.
  All operations run under the process's event mutex, except for the wake-up loop of
  \<open>opu_wait_on_events\<close>, whose turns are steps of their own between its two locked parts. A result
  \<open>None\<close> of such a part is the use of a pointer that does not point to an event.
\<close>

section \<open>Data\<close>

record opu_memory_exception_failure =
  NotPresent :: u32
  ReadOnly :: u32
  NoExecute :: u32
  imprecise :: u32

record opu_hsa_memory_exception_data =
  failure :: opu_memory_exception_failure
  va :: u64
  gpu_id :: u32
  ErrorType :: u32

record opu_hsa_hw_exception_data =
  reset_type :: u32
  reset_cause :: u32
  memory_lost :: u32
  hw_gpu_id :: u32

abbreviation OPU_EVENT_TYPE_SIGNAL :: u32 where "OPU_EVENT_TYPE_SIGNAL \<equiv> 0"
abbreviation OPU_EVENT_TYPE_HW_EXCEPTION :: u32 where "OPU_EVENT_TYPE_HW_EXCEPTION \<equiv> 3"
abbreviation OPU_EVENT_TYPE_DEBUG :: u32 where "OPU_EVENT_TYPE_DEBUG \<equiv> 5"
abbreviation OPU_EVENT_TYPE_MEMORY :: u32 where "OPU_EVENT_TYPE_MEMORY \<equiv> 8"
abbreviation OPU_SIGNAL_EVENT_LIMIT :: nat where "OPU_SIGNAL_EVENT_LIMIT \<equiv> 4096"
abbreviation INT_MAX :: nat where "INT_MAX \<equiv> 0x7FFFFFFF"
abbreviation OPU_FIRST_NONSIGNAL_EVENT_ID :: nat where "OPU_FIRST_NONSIGNAL_EVENT_ID \<equiv> 0x40000000"
abbreviation UNSIGNALED_EVENT_SLOT :: u64 where "UNSIGNALED_EVENT_SLOT \<equiv> - 1"
abbreviation OPU_MMAP_TYPE_EVENTS :: u64 where "OPU_MMAP_TYPE_EVENTS \<equiv> 0x8000000000000000"

text \<open>The two kinds of data of the union in \<open>struct opu_event\<close> are written and read for different event
  types only, so they are two fields.\<close>

record opu_event =
  event_id :: u32
  signaled :: bool
  auto_reset :: bool
  etype :: u32
  wq :: "(nat \<times> nat) list"
  user_signal_address :: u64
  memory_exception_data :: opu_hsa_memory_exception_data
  hw_exception_data :: opu_hsa_hw_exception_data

text \<open>A pointer to an event: what \<open>kmalloc\<close> left there, \<open>NULL\<close>, or an address.\<close>

datatype event_ptr = Uninit | Null | Ev nat

record opu_event_waiter =
  event :: event_ptr
  activated :: bool

text \<open>The slots are the 64-bit words from \<open>kernel_address\<close> on, whatever the size of the buffer.\<close>

record opu_signal_page =
  slots :: "nat \<Rightarrow> u64"
  user_address :: u64
  need_to_free_pages :: bool

datatype posix_signal = SIGSEGV | SIGTERM | SIGBUS

text \<open>The event part of \<open>struct opu_process\<close>, the memory behind it, the waiter arrays of the threads,
  which threads sleep, and the signals sent to the process, last one first.\<close>

record ev_process =
  event_idr :: "(nat \<times> nat) list"
  ev_mem :: "nat \<rightharpoonup> opu_event"
  signal_page :: "opu_signal_page option"
  signal_mapped_size :: u64
  signal_event_count :: u64
  signal_event_limit_reached :: bool
  waiters :: "nat \<Rightarrow> opu_event_waiter list"
  asleep :: "nat \<Rightarrow> bool"
  sent_signals :: "posix_signal list"

definition zero_memory_data :: opu_hsa_memory_exception_data where
  "zero_memory_data = \<lparr>failure = \<lparr>NotPresent = 0, ReadOnly = 0, NoExecute = 0, imprecise = 0\<rparr>, va = 0, gpu_id = 0, ErrorType = 0\<rparr>"

definition zero_hw_data :: opu_hsa_hw_exception_data where
  "zero_hw_data = \<lparr>reset_type = 0, reset_cause = 0, memory_lost = 0, hw_gpu_id = 0\<rparr>"

definition zero_event :: opu_event where
  "zero_event = \<lparr>event_id = 0, signaled = False, auto_reset = False, etype = 0, wq = [], user_signal_address = 0,
     memory_exception_data = zero_memory_data, hw_exception_data = zero_hw_data\<rparr>"

section \<open>The id allocator of the kernel\<close>

definition idr_find :: "(nat \<times> nat) list \<Rightarrow> nat \<Rightarrow> nat option" where
  "idr_find idr i = map_of idr i"

text \<open>The first id from \<open>i\<close> on that is not taken; one more try than there are entries is enough.\<close>

fun first_free :: "(nat \<times> nat) list \<Rightarrow> nat \<Rightarrow> nat \<Rightarrow> nat" where
  "first_free idr 0 i = i"
| "first_free idr (Suc n) i = (if i \<in> fst ` set idr then first_free idr n (Suc i) else i)"

text \<open>\<open>idr_alloc\<close> of an address in \<open>[start, end)\<close>; an end of 0 or below stands for the largest id. Ids
  are never negative.\<close>

definition idr_alloc :: "bool \<Rightarrow> (nat \<times> nat) list \<Rightarrow> nat \<Rightarrow> nat \<Rightarrow> int \<Rightarrow> (int + nat) \<times> (nat \<times> nat) list" where
  "idr_alloc mem_ok idr a start end' =
     (let limit = (if end' \<le> 0 then Suc INT_MAX else nat end');
          i = first_free idr (Suc (length idr)) start
      in if \<not> i < limit then (Inl (- ENOSPC), idr)
         else if \<not> mem_ok then (Inl (- ENOMEM), idr)
         else (Inr i, insort_key fst (i, a) idr))"

definition idr_remove :: "(nat \<times> nat) list \<Rightarrow> nat \<Rightarrow> (nat \<times> nat) list" where
  "idr_remove idr i = filter (\<lambda>e. fst e \<noteq> i) idr"

section \<open>Signal pages\<close>

definition allocate_signal_page :: "bool \<Rightarrow> bool \<Rightarrow> (nat \<Rightarrow> u64) \<Rightarrow> opu_signal_page option" where
  "allocate_signal_page kzalloc_ok pages_ok garbage =
     (if \<not> kzalloc_ok then None
      else if \<not> pages_ok then None
      else Some \<lparr>slots = (\<lambda>i. if i < OPU_SIGNAL_EVENT_LIMIT then UNSIGNALED_EVENT_SLOT else garbage i),
                 user_address = 0, need_to_free_pages = True\<rparr>)"

text \<open>The outcomes of the allocations an operation makes.\<close>

record allocs =
  new_event :: "nat option"
  page_kzalloc :: bool
  page_pages :: bool
  page_garbage :: "nat \<Rightarrow> u64"
  idr_memory :: bool

definition upd_ev :: "nat \<Rightarrow> (opu_event \<Rightarrow> opu_event) \<Rightarrow> ev_process \<Rightarrow> ev_process" where
  "upd_ev a f p = p\<lparr>ev_mem := (ev_mem p)(a := map_option f (ev_mem p a))\<rparr>"

definition set_slot :: "nat \<Rightarrow> u64 \<Rightarrow> ev_process \<Rightarrow> ev_process" where
  "set_slot i v p = p\<lparr>signal_page := map_option (\<lambda>pg. pg\<lparr>slots := (slots pg)(i := v)\<rparr>) (signal_page p)\<rparr>"

definition allocate_event_notification_slot :: "allocs \<Rightarrow> nat \<Rightarrow> ev_process \<Rightarrow> int \<times> ev_process" where
  "allocate_event_notification_slot al a p =
     (case (case signal_page p of
              None \<Rightarrow> (case allocate_signal_page (page_kzalloc al) (page_pages al) (page_garbage al) of
                         None \<Rightarrow> None
                       | Some pg \<Rightarrow> Some (p\<lparr>signal_page := Some pg, signal_mapped_size := 256 * 8\<rparr>))
            | Some pg \<Rightarrow> Some p) of
        None \<Rightarrow> (- ENOMEM, p)
      | Some p1 \<Rightarrow>
          (case idr_alloc (idr_memory al) (event_idr p1) a 0 (sint (ucast (signal_mapped_size p1 div 8) :: u32)) of
             (Inl e, _) \<Rightarrow> (e, p1)
           | (Inr i, idr') \<Rightarrow>
               (0, set_slot i UNSIGNALED_EVENT_SLOT (upd_ev a (\<lambda>ev. ev\<lparr>event_id := of_nat i\<rparr>) (p1\<lparr>event_idr := idr'\<rparr>)))))"

definition lookup_event_by_id :: "ev_process \<Rightarrow> u32 \<Rightarrow> nat option" where
  "lookup_event_by_id p i = idr_find (event_idr p) (unat i)"

definition slot_of :: "ev_process \<Rightarrow> nat \<Rightarrow> u64" where
  "slot_of p i = (case signal_page p of None \<Rightarrow> UNSIGNALED_EVENT_SLOT | Some pg \<Rightarrow> slots pg i)"

text \<open>The loop over all ids that share the given low bits.\<close>

function partial_scan :: "ev_process \<Rightarrow> nat \<Rightarrow> nat \<Rightarrow> nat option" where
  "partial_scan p step i =
     (if \<not> (i < OPU_SIGNAL_EVENT_LIMIT \<and> 0 < step) then None
      else if slot_of p i = UNSIGNALED_EVENT_SLOT then partial_scan p step (i + step)
      else case idr_find (event_idr p) i of
             None \<Rightarrow> partial_scan p step (i + step)
           | Some a \<Rightarrow> Some a)"
  by pat_completeness auto
termination
  by (relation "measure (\<lambda>(p, step, i). OPU_SIGNAL_EVENT_LIMIT - i)") auto

declare partial_scan.simps [simp del]

definition lookup_signaled_event_by_partial_id :: "ev_process \<Rightarrow> u32 \<Rightarrow> u32 \<Rightarrow> nat option" where
  "lookup_signaled_event_by_partial_id p i bits =
     (if signal_page p = None \<or> of_nat OPU_SIGNAL_EVENT_LIMIT \<le> i then None
      else if 31 < bits \<or> OPU_SIGNAL_EVENT_LIMIT \<le> 2 ^ unat bits then
        (if slot_of p (unat i) = UNSIGNALED_EVENT_SLOT then None else idr_find (event_idr p) (unat i))
      else partial_scan p (2 ^ unat bits) (unat i))"

section \<open>Creating and destroying events\<close>

definition create_signal_event :: "allocs \<Rightarrow> nat \<Rightarrow> ev_process \<Rightarrow> int \<times> ev_process" where
  "create_signal_event al a p =
     (if signal_mapped_size p \<noteq> 0 \<and> signal_event_count p = signal_mapped_size p div 8
      then (- ENOSPC, p\<lparr>signal_event_limit_reached := True\<rparr>)
      else case allocate_event_notification_slot al a p of
             (ret, p1) \<Rightarrow>
               if ret \<noteq> 0 then (ret, p1)
               else
                 let p2 = p1\<lparr>signal_event_count := signal_event_count p1 + 1\<rparr>;
                     base = (case signal_page p2 of None \<Rightarrow> 0 | Some pg \<Rightarrow> user_address pg)
                 in (0, upd_ev a (\<lambda>ev. ev\<lparr>user_signal_address := base + 8 * ucast (event_id ev)\<rparr>) p2))"

definition create_other_event :: "allocs \<Rightarrow> nat \<Rightarrow> ev_process \<Rightarrow> int \<times> ev_process" where
  "create_other_event al a p =
     (case idr_alloc (idr_memory al) (event_idr p) a OPU_FIRST_NONSIGNAL_EVENT_ID (sint (of_nat INT_MAX + 1 :: u32)) of
        (Inl e, _) \<Rightarrow> (e, p)
      | (Inr i, idr') \<Rightarrow> (0, upd_ev a (\<lambda>ev. ev\<lparr>event_id := of_nat i\<rparr>) (p\<lparr>event_idr := idr'\<rparr>)))"

definition opu_event_init_process :: "ev_process \<Rightarrow> ev_process" where
  "opu_event_init_process p = p\<lparr>event_idr := [], signal_page := None, signal_event_count := 0\<rparr>"

text \<open>Waking: the entry of a sleeping thread is taken off the queue, and the thread runs then; the
  entry of a thread that is already running stays.\<close>

fun wake_entries :: "(nat \<Rightarrow> bool) \<Rightarrow> (nat \<times> nat) list \<Rightarrow> (nat \<times> nat) list \<times> (nat \<Rightarrow> bool)" where
  "wake_entries sl [] = ([], sl)"
| "wake_entries sl ((t, i) # ws) =
     (if sl t then wake_entries (sl(t := False)) ws
      else case wake_entries sl ws of (rest, sl') \<Rightarrow> ((t, i) # rest, sl'))"

definition wake_up_all :: "nat \<Rightarrow> ev_process \<Rightarrow> ev_process" where
  "wake_up_all a p =
     (case ev_mem p a of
        None \<Rightarrow> p
      | Some ev \<Rightarrow>
          (case wake_entries (asleep p) (wq ev) of
             (rest, sl') \<Rightarrow> upd_ev a (\<lambda>ev. ev\<lparr>wq := rest\<rparr>) (p\<lparr>asleep := sl'\<rparr>)))"

definition upd_waiter :: "(opu_event_waiter \<Rightarrow> opu_event_waiter) \<Rightarrow> nat \<times> nat \<Rightarrow> ev_process \<Rightarrow> ev_process" where
  "upd_waiter f ti p =
     (case ti of (t, i) \<Rightarrow> p\<lparr>waiters := (waiters p)(t := (waiters p t)[i := f (waiters p t ! i)])\<rparr>)"

definition wq_of :: "ev_process \<Rightarrow> nat \<Rightarrow> (nat \<times> nat) list" where
  "wq_of p a = (case ev_mem p a of None \<Rightarrow> [] | Some ev \<Rightarrow> wq ev)"

definition is_signal_type :: "u32 \<Rightarrow> bool" where
  "is_signal_type ty \<longleftrightarrow> ty = OPU_EVENT_TYPE_SIGNAL \<or> ty = OPU_EVENT_TYPE_DEBUG"

definition destroy_event :: "nat \<Rightarrow> ev_process \<Rightarrow> ev_process" where
  "destroy_event a p =
     (case ev_mem p a of
        None \<Rightarrow> p
      | Some ev \<Rightarrow>
          let p1 = fold (upd_waiter (\<lambda>w. w\<lparr>event := Null\<rparr>)) (wq ev) p;
              p2 = wake_up_all a p1;
              p3 = (if is_signal_type (etype ev) then p2\<lparr>signal_event_count := signal_event_count p2 - 1\<rparr> else p2)
          in p3\<lparr>event_idr := idr_remove (event_idr p3) (unat (event_id ev)), ev_mem := (ev_mem p3)(a := None)\<rparr>)"

definition destroy_events :: "ev_process \<Rightarrow> ev_process" where
  "destroy_events p = (fold (\<lambda>e. destroy_event (snd e)) (event_idr p) p)\<lparr>event_idr := []\<rparr>"

definition shutdown_signal_page :: "ev_process \<Rightarrow> ev_process" where
  "shutdown_signal_page p = p\<lparr>signal_page := None\<rparr>"

definition opu_event_free_process :: "ev_process \<Rightarrow> ev_process" where
  "opu_event_free_process p = shutdown_signal_page (destroy_events p)"

definition event_can_be_gpu_signaled :: "opu_event \<Rightarrow> bool" where
  "event_can_be_gpu_signaled ev \<longleftrightarrow> etype ev = OPU_EVENT_TYPE_SIGNAL \<or> etype ev = OPU_EVENT_TYPE_DEBUG"

definition event_can_be_cpu_signaled :: "opu_event \<Rightarrow> bool" where
  "event_can_be_cpu_signaled ev \<longleftrightarrow> etype ev = OPU_EVENT_TYPE_SIGNAL"

text \<open>The signal page of the user: \<open>buffer\<close> is what is in memory from \<open>kernel_address\<close> on.\<close>

definition opu_event_page_set :: "bool \<Rightarrow> (nat \<Rightarrow> u64) \<Rightarrow> u64 \<Rightarrow> ev_process \<Rightarrow> int \<times> ev_process" where
  "opu_event_page_set kzalloc_ok buffer sz p =
     (if signal_page p \<noteq> None then (- EBUSY, p)
      else if \<not> kzalloc_ok then (- ENOMEM, p)
      else (0, p\<lparr>signal_page := Some \<lparr>
                   slots = (\<lambda>i. if i < OPU_SIGNAL_EVENT_LIMIT then UNSIGNALED_EVENT_SLOT else buffer i),
                   user_address = 0, need_to_free_pages = False\<rparr>,
                 signal_mapped_size := sz\<rparr>))"

text \<open>The results besides the code: the event id, which is also the trigger data, the page offset and,
  for signal events, the slot index.\<close>

definition opu_event_create ::
  "allocs \<Rightarrow> u32 \<Rightarrow> bool \<Rightarrow> ev_process \<Rightarrow> int \<times> (u32 \<times> u64 \<times> u32 option) option \<times> ev_process" where
  "opu_event_create al event_type auto_reset' p =
     (case new_event al of
        None \<Rightarrow> (- ENOMEM, None, p)
      | Some a \<Rightarrow>
          let p1 = p\<lparr>ev_mem := (ev_mem p)(a \<mapsto> zero_event\<lparr>etype := event_type, auto_reset := auto_reset'\<rparr>)\<rparr>
          in case (if event_type = OPU_EVENT_TYPE_SIGNAL \<or> event_type = OPU_EVENT_TYPE_DEBUG
                   then create_signal_event al a p1 else create_other_event al a p1) of
               (ret, p2) \<Rightarrow>
                 if ret \<noteq> 0 then (ret, None, p2\<lparr>ev_mem := (ev_mem p2)(a := None)\<rparr>)
                 else
                   let i = (case ev_mem p2 a of None \<Rightarrow> 0 | Some ev \<Rightarrow> event_id ev);
                       sig = (event_type = OPU_EVENT_TYPE_SIGNAL \<or> event_type = OPU_EVENT_TYPE_DEBUG)
                   in (0, Some (i, if sig then OPU_MMAP_TYPE_EVENTS else 0, if sig then Some i else None), p2))"

definition opu_event_destroy :: "u32 \<Rightarrow> ev_process \<Rightarrow> int \<times> ev_process" where
  "opu_event_destroy i p =
     (case lookup_event_by_id p i of
        Some a \<Rightarrow> (0, destroy_event a p)
      | None \<Rightarrow> (- EINVAL, p))"

section \<open>Setting and resetting events\<close>

definition set_event :: "nat \<Rightarrow> ev_process \<Rightarrow> ev_process" where
  "set_event a p =
     (let ws = wq_of p a;
          p1 = upd_ev a (\<lambda>ev. ev\<lparr>signaled := (\<not> auto_reset ev \<or> ws = [])\<rparr>) p;
          p2 = fold (upd_waiter (\<lambda>w. w\<lparr>activated := True\<rparr>)) ws p1
      in wake_up_all a p2)"

definition cpu_signaled_at :: "ev_process \<Rightarrow> nat \<Rightarrow> bool" where
  "cpu_signaled_at p a = (case ev_mem p a of None \<Rightarrow> False | Some ev \<Rightarrow> event_can_be_cpu_signaled ev)"

definition opu_set_event :: "u32 \<Rightarrow> ev_process \<Rightarrow> int \<times> ev_process" where
  "opu_set_event i p =
     (case lookup_event_by_id p i of
        Some a \<Rightarrow> if cpu_signaled_at p a then (0, set_event a p) else (- EINVAL, p)
      | None \<Rightarrow> (- EINVAL, p))"

definition reset_event :: "nat \<Rightarrow> ev_process \<Rightarrow> ev_process" where
  "reset_event a p = upd_ev a (\<lambda>ev. ev\<lparr>signaled := False\<rparr>) p"

definition opu_reset_event :: "u32 \<Rightarrow> ev_process \<Rightarrow> int \<times> ev_process" where
  "opu_reset_event i p =
     (case lookup_event_by_id p i of
        Some a \<Rightarrow> if cpu_signaled_at p a then (0, reset_event a p) else (- EINVAL, p)
      | None \<Rightarrow> (- EINVAL, p))"

definition acknowledge_signal :: "nat \<Rightarrow> ev_process \<Rightarrow> ev_process" where
  "acknowledge_signal a p =
     (case ev_mem p a of None \<Rightarrow> p | Some ev \<Rightarrow> set_slot (unat (event_id ev)) UNSIGNALED_EVENT_SLOT p)"

definition set_event_from_interrupt :: "nat option \<Rightarrow> ev_process \<Rightarrow> ev_process" where
  "set_event_from_interrupt e p =
     (case e of
        None \<Rightarrow> p
      | Some a \<Rightarrow>
          (case ev_mem p a of
             None \<Rightarrow> p
           | Some ev \<Rightarrow> if event_can_be_gpu_signaled ev then set_event a (acknowledge_signal a p) else p))"

text \<open>The two exhaustive searches: over the events of the process, and over the slots.\<close>

definition scan_events :: "ev_process \<Rightarrow> ev_process" where
  "scan_events p =
     fold (\<lambda>e p. if slot_of p (fst e) \<noteq> UNSIGNALED_EVENT_SLOT then set_event_from_interrupt (Some (snd e)) p else p)
       (takeWhile (\<lambda>e. fst e < OPU_SIGNAL_EVENT_LIMIT) (event_idr p)) p"

definition scan_slots :: "ev_process \<Rightarrow> ev_process" where
  "scan_slots p =
     fold (\<lambda>i p. if slot_of p i \<noteq> UNSIGNALED_EVENT_SLOT
                 then set_event_from_interrupt (lookup_event_by_id p (of_nat i)) p else p)
       [0..<OPU_SIGNAL_EVENT_LIMIT] p"

text \<open>\<open>None\<close> is a process that is gone.\<close>

definition opu_signal_event_interrupt :: "u32 \<Rightarrow> u32 \<Rightarrow> ev_process option \<Rightarrow> ev_process option" where
  "opu_signal_event_interrupt partial_id valid_id_bits proc =
     (case proc of
        None \<Rightarrow> None
      | Some p \<Rightarrow>
          let ev = (if valid_id_bits \<noteq> 0 then lookup_signaled_event_by_partial_id p partial_id valid_id_bits else None)
          in Some (if ev \<noteq> None then set_event_from_interrupt ev p
                   else if signal_page p \<noteq> None then
                     (if signal_event_count p < of_nat (OPU_SIGNAL_EVENT_LIMIT div 64) then scan_events p else scan_slots p)
                   else p))"

section \<open>Waiting\<close>

datatype wait_result = OPU_IOC_WAIT_RESULT_COMPLETE | OPU_IOC_WAIT_RESULT_TIMEOUT | OPU_IOC_WAIT_RESULT_FAIL

definition alloc_event_waiters :: "nat \<Rightarrow> nat \<Rightarrow> ev_process \<Rightarrow> ev_process" where
  "alloc_event_waiters t n p = p\<lparr>waiters := (waiters p)(t := replicate n \<lparr>event = Uninit, activated = False\<rparr>)\<rparr>"

definition init_event_waiter_get_status :: "nat \<Rightarrow> nat \<Rightarrow> u32 \<Rightarrow> ev_process \<Rightarrow> int \<times> ev_process" where
  "init_event_waiter_get_status t i eid p =
     (case lookup_event_by_id p eid of
        None \<Rightarrow> (- EINVAL, p)
      | Some a \<Rightarrow>
          (case ev_mem p a of
             None \<Rightarrow> (- EINVAL, p)
           | Some ev \<Rightarrow>
               (0, upd_ev a (\<lambda>ev. ev\<lparr>signaled := signaled ev \<and> \<not> auto_reset ev\<rparr>)
                     (upd_waiter (\<lambda>w. \<lparr>event = Ev a, activated = signaled ev\<rparr>) (t, i) p))))"

text \<open>The first loop of \<open>opu_wait_on_events\<close>. The user's array is a list of event ids; \<open>None\<close> is an
  entry that cannot be copied from user space.\<close>

fun init_event_waiters :: "nat \<Rightarrow> nat \<Rightarrow> u32 option list \<Rightarrow> ev_process \<Rightarrow> int \<times> ev_process" where
  "init_event_waiters t i [] p = (0, p)"
| "init_event_waiters t i (None # es) p = (- EFAULT, p)"
| "init_event_waiters t i (Some eid # es) p =
     (case init_event_waiter_get_status t i eid p of
        (ret, p1) \<Rightarrow> if ret \<noteq> 0 then (ret, p1) else init_event_waiters t (Suc i) es p1)"

definition init_event_waiter_add_to_waitlist :: "nat \<Rightarrow> nat \<Rightarrow> ev_process \<Rightarrow> ev_process" where
  "init_event_waiter_add_to_waitlist t i p =
     (let w = waiters p t ! i
      in if activated w then p
         else case event w of
                Ev a \<Rightarrow> upd_ev a (\<lambda>ev. ev\<lparr>wq := (t, i) # wq ev\<rparr>) p
              | _ \<Rightarrow> p)"

fun test_event_loop :: "bool \<Rightarrow> nat \<Rightarrow> nat \<Rightarrow> opu_event_waiter list \<Rightarrow> wait_result" where
  "test_event_loop all' n activated_count [] =
     (if activated_count = n then OPU_IOC_WAIT_RESULT_COMPLETE else OPU_IOC_WAIT_RESULT_TIMEOUT)"
| "test_event_loop all' n activated_count (w # ws) =
     (if event w = Null then OPU_IOC_WAIT_RESULT_FAIL
      else if activated w then
        (if \<not> all' then OPU_IOC_WAIT_RESULT_COMPLETE else test_event_loop all' n (Suc activated_count) ws)
      else test_event_loop all' n activated_count ws)"

definition test_event_condition :: "bool \<Rightarrow> opu_event_waiter list \<Rightarrow> wait_result" where
  "test_event_condition all' ws = test_event_loop all' (length ws) 0 ws"

text \<open>The data of the memory events that were signaled, by index; \<open>copy_ok\<close> says which copies to user
  space work. \<open>None\<close>: the waiter of an activated event has no event to read.\<close>

definition deref :: "ev_process \<Rightarrow> event_ptr \<Rightarrow> opu_event option" where
  "deref p x = (case x of Ev a \<Rightarrow> ev_mem p a | _ \<Rightarrow> None)"

fun copy_event_data ::
  "(nat \<Rightarrow> bool) \<Rightarrow> ev_process \<Rightarrow> nat \<Rightarrow> opu_event_waiter list \<Rightarrow> (int \<times> (nat \<times> opu_hsa_memory_exception_data) list) option" where
  "copy_event_data copy_ok p i [] = Some (0, [])"
| "copy_event_data copy_ok p i (w # ws) =
     (if \<not> activated w then copy_event_data copy_ok p (Suc i) ws
      else case deref p (event w) of
             None \<Rightarrow> None
           | Some ev \<Rightarrow>
               if etype ev \<noteq> OPU_EVENT_TYPE_MEMORY then copy_event_data copy_ok p (Suc i) ws
               else if \<not> copy_ok i then Some (- EFAULT, [])
               else map_option (\<lambda>(r, ds). (r, (i, memory_exception_data ev) # ds)) (copy_event_data copy_ok p (Suc i) ws))"

definition copy_signaled_event_data ::
  "(nat \<Rightarrow> bool) \<Rightarrow> nat \<Rightarrow> ev_process \<Rightarrow> (int \<times> (nat \<times> opu_hsa_memory_exception_data) list) option" where
  "copy_signaled_event_data copy_ok t p = copy_event_data copy_ok p 0 (waiters p t)"

abbreviation MAX_SCHEDULE_TIMEOUT :: int where "MAX_SCHEDULE_TIMEOUT \<equiv> 0x7FFFFFFFFFFFFFFF"

definition user_timeout_to_jiffies :: "(u32 \<Rightarrow> u64) \<Rightarrow> u32 \<Rightarrow> int" where
  "user_timeout_to_jiffies msecs_to_jiffies user_timeout_ms =
     (if user_timeout_ms = 0 then 0
      else if user_timeout_ms = 0xFFFFFFFF then MAX_SCHEDULE_TIMEOUT
      else sint (msecs_to_jiffies (min user_timeout_ms 0x7FFFFFFF) + 1))"

text \<open>\<open>free_waiters\<close> takes the entry of every waiter with an event off that event's queue.\<close>

fun free_waiter_list :: "nat \<Rightarrow> nat \<Rightarrow> opu_event_waiter list \<Rightarrow> ev_process \<Rightarrow> ev_process option" where
  "free_waiter_list t i [] p = Some p"
| "free_waiter_list t i (w # ws) p =
     (if event w = Null then free_waiter_list t (Suc i) ws p
      else case event w of
             Ev a \<Rightarrow>
               if ev_mem p a = None then None
               else free_waiter_list t (Suc i) ws (upd_ev a (\<lambda>ev. ev\<lparr>wq := remove1 (t, i) (wq ev)\<rparr>) p)
           | _ \<Rightarrow> None)"

definition free_waiters :: "nat \<Rightarrow> ev_process \<Rightarrow> ev_process option" where
  "free_waiters t p = map_option (\<lambda>p. p\<lparr>waiters := (waiters p)(t := [])\<rparr>) (free_waiter_list t 0 (waiters p t) p)"

text \<open>The labels \<open>out_unlock\<close> and \<open>out\<close>: the code and the result for the user.\<close>

definition wait_out :: "int \<Rightarrow> wait_result \<Rightarrow> int \<times> wait_result" where
  "wait_out ret res =
     (if ret \<noteq> 0 then (ret, OPU_IOC_WAIT_RESULT_FAIL)
      else if res = OPU_IOC_WAIT_RESULT_FAIL then (- EIO, res)
      else (ret, res))"

datatype wait_status = Finished "int \<times> wait_result" | Waiting

text \<open>The first locked part of \<open>opu_wait_on_events\<close>, up to the wake-up loop.\<close>

definition wait_begin ::
  "bool \<Rightarrow> (nat \<Rightarrow> bool) \<Rightarrow> nat \<Rightarrow> u32 option list \<Rightarrow> bool \<Rightarrow> ev_process \<Rightarrow> (wait_status \<times> ev_process) option" where
  "wait_begin kmalloc_ok copy_ok t events all' p =
     (if \<not> kmalloc_ok then Some (Finished (wait_out (- ENOMEM) OPU_IOC_WAIT_RESULT_FAIL), p)
      else
        let p0 = alloc_event_waiters t (length events) p
        in case init_event_waiters t 0 events p0 of
             (ret, p1) \<Rightarrow>
               if ret \<noteq> 0 then map_option (Pair (Finished (wait_out ret OPU_IOC_WAIT_RESULT_FAIL))) (free_waiters t p1)
               else
                 let res = test_event_condition all' (waiters p1 t)
                 in if res = OPU_IOC_WAIT_RESULT_COMPLETE then
                      (case copy_signaled_event_data copy_ok t p1 of
                         None \<Rightarrow> None
                       | Some (ret, _) \<Rightarrow> map_option (Pair (Finished (wait_out ret res))) (free_waiters t p1))
                    else if res = OPU_IOC_WAIT_RESULT_FAIL then
                      map_option (Pair (Finished (wait_out 0 res))) (free_waiters t p1)
                    else Some (Waiting, fold (init_event_waiter_add_to_waitlist t) [0..<length events] p1))"

text \<open>The wake-up loop, in its two steps. Between them, and while the thread sleeps in
  \<open>schedule_timeout\<close>, the other threads run. First the checks for signals and the state change of the
  task: the code to leave the loop with, or none.\<close>

definition wait_prepare :: "bool \<Rightarrow> bool \<Rightarrow> nat \<Rightarrow> ev_process \<Rightarrow> int option \<times> ev_process" where
  "wait_prepare fatal pending t p =
     (if fatal then (Some (- EINTR), p\<lparr>asleep := (asleep p)(t := False)\<rparr>)
      else if pending then (Some (- ERESTARTSYS), p\<lparr>asleep := (asleep p)(t := False)\<rparr>)
      else (None, p\<lparr>asleep := (asleep p)(t := True)\<rparr>))"

text \<open>Then the test of the condition: the result to leave the loop with, or none when the thread calls
  \<open>schedule_timeout\<close>, which lets it sleep only when its state is still the one set above.\<close>

definition wait_test :: "bool \<Rightarrow> int \<Rightarrow> nat \<Rightarrow> ev_process \<Rightarrow> wait_result option \<times> ev_process" where
  "wait_test all' timeout t p =
     (let res = test_event_condition all' (waiters p t)
      in if res \<noteq> OPU_IOC_WAIT_RESULT_TIMEOUT \<or> timeout \<le> 0
         then (Some res, p\<lparr>asleep := (asleep p)(t := False)\<rparr>)
         else (None, p))"

text \<open>After the loop: the copy to the user and the second locked part.\<close>

definition wait_end :: "(nat \<Rightarrow> bool) \<Rightarrow> nat \<Rightarrow> int \<times> wait_result \<Rightarrow> ev_process \<Rightarrow> ((int \<times> wait_result) \<times> ev_process) option" where
  "wait_end copy_ok t rr p =
     (case rr of (ret, res) \<Rightarrow>
      case (if ret = 0 \<and> res = OPU_IOC_WAIT_RESULT_COMPLETE then copy_signaled_event_data copy_ok t p else Some (ret, [])) of
        None \<Rightarrow> None
      | Some (ret', _) \<Rightarrow> map_option (Pair (wait_out ret' res)) (free_waiters t p))"

section \<open>The signal page in user space\<close>

fun nbits :: "nat \<Rightarrow> nat" where
  "nbits n = (if n = 0 then 0 else Suc (nbits (n div 2)))"

declare nbits.simps [simp del]

definition get_order :: "u64 \<Rightarrow> nat" where
  "get_order n = (if n = 0 then 52 else nbits ((unat n - 1) div 4096))"

definition opu_event_mmap :: "int \<Rightarrow> u64 \<Rightarrow> u64 \<Rightarrow> ev_process \<Rightarrow> int \<times> ev_process" where
  "opu_event_mmap remap_ret vm_start vm_end p =
     (if get_order (of_nat OPU_SIGNAL_EVENT_LIMIT * 8) < get_order (vm_end - vm_start) then (- EINVAL, p)
      else case signal_page p of
             None \<Rightarrow> (- EINVAL, p)
           | Some pg \<Rightarrow>
               let p1 = p\<lparr>signal_page := Some (pg\<lparr>user_address := vm_start\<rparr>)\<rparr>
               in (remap_ret, if remap_ret = 0 then p1\<lparr>signal_mapped_size := vm_end - vm_start\<rparr> else p1))"

section \<open>Exceptions\<close>

text \<open>The events from \<open>OPU_FIRST_NONSIGNAL_EVENT_ID\<close> on, in the order of their ids.\<close>

definition nonsignal_events :: "ev_process \<Rightarrow> nat list" where
  "nonsignal_events p = map snd (filter (\<lambda>e. OPU_FIRST_NONSIGNAL_EVENT_ID \<le> fst e) (event_idr p))"

definition has_type :: "ev_process \<Rightarrow> u32 \<Rightarrow> nat \<Rightarrow> bool" where
  "has_type p ty a = (case ev_mem p a of None \<Rightarrow> False | Some ev \<Rightarrow> etype ev = ty)"

definition send_sig :: "posix_signal \<Rightarrow> ev_process \<Rightarrow> ev_process" where
  "send_sig sig p = p\<lparr>sent_signals := sig # sent_signals p\<rparr>"

definition lookup_events_by_type_and_signal ::
  "bool \<Rightarrow> u32 \<Rightarrow> opu_hsa_memory_exception_data option \<Rightarrow> ev_process \<Rightarrow> ev_process" where
  "lookup_events_by_type_and_signal send_sigterm ty ev_data p =
     (let found = filter (has_type p ty) (nonsignal_events p);
          p1 = fold (\<lambda>a p.
                 let q = set_event a p
                 in case ev_data of
                      Some d \<Rightarrow> if ty = OPU_EVENT_TYPE_MEMORY then upd_ev a (\<lambda>ev. ev\<lparr>memory_exception_data := d\<rparr>) q else q
                    | None \<Rightarrow> q) found p;
          p2 = (if ty = OPU_EVENT_TYPE_MEMORY then send_sig SIGSEGV p1 else p1)
      in if found = [] \<and> send_sigterm then send_sig SIGTERM p2 else p2)"

text \<open>The memory area at the faulting address, if any: its start, and whether it may be written or
  executed.\<close>

definition opu_signal_iommu_event ::
  "bool \<Rightarrow> opu_dev \<Rightarrow> u64 \<Rightarrow> bool \<Rightarrow> bool \<Rightarrow> bool \<Rightarrow> (u64 \<times> bool \<times> bool) option \<Rightarrow> ev_process option \<Rightarrow> ev_process option" where
  "opu_signal_iommu_event send_sigterm dev address is_write is_exec mm_alive vma proc =
     (case proc of
        None \<Rightarrow> None
      | Some p \<Rightarrow>
          if \<not> mm_alive then Some p
          else
            let fl = (case vma of
                  None \<Rightarrow> \<lparr>NotPresent = 1, ReadOnly = 0, NoExecute = 0, imprecise = 0\<rparr>
                | Some (vm_start, vm_write, vm_exec) \<Rightarrow>
                    if vm_start \<le> address then
                      \<lparr>NotPresent = 0, ReadOnly = (if is_write \<and> \<not> vm_write then 1 else 0),
                       NoExecute = (if is_exec \<and> \<not> vm_exec then 1 else 0), imprecise = 0\<rparr>
                    else \<lparr>NotPresent = 1, ReadOnly = 0, NoExecute = 0, imprecise = 0\<rparr>);
                d = zero_memory_data\<lparr>failure := fl, va := address, gpu_id := dev_id dev\<rparr>
            in if asic_family (device_info dev) \<noteq> CHIP_RAVEN \<and> asic_family (device_info dev) \<noteq> CHIP_RENOIR
               then Some (lookup_events_by_type_and_signal send_sigterm OPU_EVENT_TYPE_MEMORY (Some d) p)
               else Some p)"

definition opu_signal_hw_exception_event :: "bool \<Rightarrow> ev_process option \<Rightarrow> ev_process option" where
  "opu_signal_hw_exception_event send_sigterm proc =
     map_option (lookup_events_by_type_and_signal send_sigterm OPU_EVENT_TYPE_HW_EXCEPTION None) proc"

record opu_vm_fault_info =
  page_addr :: u64
  prot_valid :: bool
  prot_read :: bool
  prot_write :: bool
  prot_exec :: bool

definition bool_u32 :: "bool \<Rightarrow> u32" where
  "bool_u32 b = (if b then 1 else 0)"

definition opu_signal_vm_fault_event :: "opu_dev \<Rightarrow> opu_vm_fault_info option \<Rightarrow> ev_process option \<Rightarrow> ev_process option" where
  "opu_signal_vm_fault_event dev info proc =
     (let d0 = zero_memory_data\<lparr>gpu_id := dev_id dev, failure := (failure zero_memory_data)\<lparr>imprecise := 1\<rparr>\<rparr>;
          d = (case info of
                 None \<Rightarrow> d0
               | Some f \<Rightarrow> d0\<lparr>va := push_bit 12 (page_addr f),
                              failure := \<lparr>NotPresent = bool_u32 (prot_valid f), ReadOnly = bool_u32 (prot_write f),
                                          NoExecute = bool_u32 (prot_exec f), imprecise = 0\<rparr>\<rparr>)
      in map_option (\<lambda>p. fold (\<lambda>a p. set_event a (upd_ev a (\<lambda>ev. ev\<lparr>memory_exception_data := d\<rparr>) p))
                           (filter (has_type p OPU_EVENT_TYPE_MEMORY) (nonsignal_events p)) p) proc)"

text \<open>One event of the loops of the reset and of the poison handler.\<close>

definition signal_exception ::
  "opu_hsa_hw_exception_data \<Rightarrow> opu_hsa_memory_exception_data option \<Rightarrow> nat \<Rightarrow> ev_process \<Rightarrow> ev_process" where
  "signal_exception hwd md a p =
     (let p1 = (if has_type p OPU_EVENT_TYPE_HW_EXCEPTION a
                then set_event a (upd_ev a (\<lambda>ev. ev\<lparr>hw_exception_data := hwd\<rparr>) p) else p)
      in case md of
           Some d \<Rightarrow> if has_type p1 OPU_EVENT_TYPE_MEMORY a
                     then set_event a (upd_ev a (\<lambda>ev. ev\<lparr>memory_exception_data := d\<rparr>) p1) else p1
         | None \<Rightarrow> p1)"

definition opu_signal_reset_event :: "opu_dev \<Rightarrow> bool \<Rightarrow> ev_process list \<Rightarrow> ev_process list" where
  "opu_signal_reset_event dev sram_ecc_flag procs =
     (let cause = (if sram_ecc_flag then 1 else 0);
          hwd = zero_hw_data\<lparr>hw_gpu_id := dev_id dev, memory_lost := 1, reset_cause := cause\<rparr>;
          md = zero_memory_data\<lparr>ErrorType := 1, gpu_id := dev_id dev, failure := (failure zero_memory_data)\<lparr>imprecise := 1\<rparr>\<rparr>
      in map (\<lambda>p. fold (signal_exception hwd (if cause = 1 then Some md else None)) (nonsignal_events p) p) procs)"

definition opu_signal_poison_consumed_event :: "opu_dev \<Rightarrow> ev_process option \<Rightarrow> ev_process option" where
  "opu_signal_poison_consumed_event dev proc =
     (let hwd = zero_hw_data\<lparr>hw_gpu_id := dev_id dev, memory_lost := 1, reset_cause := 1\<rparr>;
          md = zero_memory_data\<lparr>ErrorType := 2, gpu_id := dev_id dev, failure := (failure zero_memory_data)\<lparr>imprecise := 1\<rparr>\<rparr>
      in map_option (\<lambda>p. send_sig SIGBUS (fold (signal_exception hwd (Some md)) (nonsignal_events p) p)) proc)"

end
