(* ===== verification/Opu_Events_Inv.thy ===== *)
theory Opu_Events_Inv
  imports Opu_Events
begin

text \<open>
  The invariant of the events of a process and that every operation of \<open>opu_events.c\<close> keeps it: the
  id allocator names exactly the living events, signal events have small ids and are counted, and a
  waiter that has not been activated is in the wait queue of a living event.
\<close>

section \<open>The id allocator\<close>

lemma first_free_spec:
  "first_free idr n i \<notin> fst ` set idr \<or> {i..<i + n} \<subseteq> fst ` set idr"
  "i \<le> first_free idr n i" "first_free idr n i \<le> i + n" "\<forall>j. i \<le> j \<and> j < first_free idr n i \<longrightarrow> j \<in> fst ` set idr"
proof (induction n arbitrary: i)
  case (Suc n)
  {
    case 1
    have "{i..<i + Suc n} = insert i {Suc i..<Suc i + n}" by auto
    then show ?case using Suc(1) [of "Suc i"] by simp
  next
    case 2
    show ?case using Suc(2) [of "Suc i"] by auto
  next
    case 3
    show ?case using Suc(3) [of "Suc i"] by auto
  next
    case 4
    show ?case
    proof (cases "i \<in> fst ` set idr")
      case True
      then show ?thesis using Suc(4) [of "Suc i"] by (metis Suc_leI first_free.simps(2) le_neq_implies_less)
    qed auto
  }
qed auto

lemma first_free_fresh: "first_free idr (Suc (length idr)) i \<notin> fst ` set idr"
proof -
  have "card (fst ` set idr) \<le> length idr" by (meson card_image_le card_length finite_set le_trans)
  then have "\<not> {i..<i + Suc (length idr)} \<subseteq> fst ` set idr"
    using card_mono [of "fst ` set idr" "{i..<i + Suc (length idr)}"] by auto
  then show ?thesis using first_free_spec(1) by blast
qed

definition idr_ok :: "(nat \<times> nat) list \<Rightarrow> bool" where
  "idr_ok idr \<longleftrightarrow> sorted_wrt (<) (map fst idr) \<and> distinct (map snd idr)"

lemma idr_ok_distinct: "idr_ok idr \<Longrightarrow> distinct (map fst idr)"
  by (simp add: idr_ok_def strict_sorted_iff)

lemma idr_ok_insort:
  assumes "idr_ok idr" and "i \<notin> fst ` set idr" and "a \<notin> snd ` set idr"
  shows "idr_ok (insort_key fst (i, a) idr)"
proof -
  have "sorted (map fst (insort_key fst (i, a) idr))"
    using assms(1) by (simp add: idr_ok_def sorted_insort_key strict_sorted_iff)
  moreover have "distinct (map fst (insort_key fst (i, a) idr))"
    using assms idr_ok_distinct [OF assms(1)] by (simp add: distinct_map distinct_insort set_insort_key inj_on_def) (metis image_eqI fst_conv)
  moreover have "distinct (map snd (insort_key fst (i, a) idr))"
    using assms by (simp add: idr_ok_def distinct_map distinct_insort set_insort_key inj_on_def) (metis image_eqI snd_conv)
  ultimately show ?thesis by (simp add: idr_ok_def strict_sorted_iff)
qed

lemma idr_ok_remove: "idr_ok idr \<Longrightarrow> idr_ok (idr_remove idr i)"
  by (auto simp: idr_ok_def idr_remove_def sorted_wrt_filter sorted_wrt_map distinct_map inj_on_def)

lemma idr_find_iff: "idr_ok idr \<Longrightarrow> idr_find idr i = Some a \<longleftrightarrow> (i, a) \<in> set idr"
  using idr_ok_distinct [of idr] by (simp add: idr_find_def)

section \<open>The invariant\<close>

text \<open>Signal events have the small ids.\<close>

definition event_at :: "ev_process \<Rightarrow> nat \<Rightarrow> nat \<Rightarrow> bool" where
  "event_at p i a \<longleftrightarrow> (\<exists>ev. ev_mem p a = Some ev \<and> unat (event_id ev) = i \<and>
     (is_signal_type (etype ev) \<longleftrightarrow> i < OPU_FIRST_NONSIGNAL_EVENT_ID))"

definition inv_idr :: "ev_process \<Rightarrow> bool" where
  "inv_idr p \<longleftrightarrow> idr_ok (event_idr p) \<and> (\<forall>(i, a)\<in>set (event_idr p). event_at p i a) \<and> dom (ev_mem p) = snd ` set (event_idr p) \<and>
     signal_event_count p = of_nat (length (filter (\<lambda>e. fst e < OPU_FIRST_NONSIGNAL_EVENT_ID) (event_idr p)))"

text \<open>A usable signal page has room for a slot, and not more than the small ids.\<close>

definition inv_page :: "ev_process \<Rightarrow> bool" where
  "inv_page p \<longleftrightarrow> (signal_page p \<noteq> None \<longrightarrow> 8 \<le> signal_mapped_size p \<and> signal_mapped_size p \<le> 0x200000000) \<and>
     (signal_page p = None \<longrightarrow> (\<forall>e\<in>set (event_idr p). OPU_FIRST_NONSIGNAL_EVENT_ID \<le> fst e))"

text \<open>Every entry of a wait queue is a waiter for that event, once; and a waiter that was not activated
  and whose event was not destroyed is in the queue of its event.\<close>

definition waiter_ok :: "ev_process \<Rightarrow> nat \<Rightarrow> nat \<Rightarrow> bool" where
  "waiter_ok p t i \<longleftrightarrow> (let w = waiters p t ! i in activated w \<or> event w = Null \<or>
     (\<exists>a. event w = Ev a \<and> (t, i) \<in> set (wq_of p a)))"

definition inv_queues :: "ev_process \<Rightarrow> bool" where
  "inv_queues p \<longleftrightarrow>
     (\<forall>a. distinct (wq_of p a) \<and> (\<forall>t i. (t, i) \<in> set (wq_of p a) \<longrightarrow> i < length (waiters p t) \<and> event (waiters p t ! i) = Ev a))"

definition inv_wait :: "ev_process \<Rightarrow> bool" where
  "inv_wait p \<longleftrightarrow> inv_queues p \<and> (\<forall>t i. i < length (waiters p t) \<longrightarrow> waiter_ok p t i)"

definition ev_inv :: "ev_process \<Rightarrow> bool" where
  "ev_inv p \<longleftrightarrow> inv_idr p \<and> inv_page p \<and> inv_wait p"

section \<open>Frames\<close>

lemma upd_ev_sel [simp]:
  "event_idr (upd_ev a f p) = event_idr p" "ev_mem (upd_ev a f p) = (ev_mem p)(a := map_option f (ev_mem p a))"
  "signal_page (upd_ev a f p) = signal_page p" "signal_mapped_size (upd_ev a f p) = signal_mapped_size p"
  "signal_event_count (upd_ev a f p) = signal_event_count p" "waiters (upd_ev a f p) = waiters p" "asleep (upd_ev a f p) = asleep p"
  by (simp_all add: upd_ev_def)

lemma set_slot_sel [simp]:
  "event_idr (set_slot i v p) = event_idr p" "ev_mem (set_slot i v p) = ev_mem p"
  "signal_page (set_slot i v p) = map_option (\<lambda>pg. pg\<lparr>slots := (slots pg)(i := v)\<rparr>) (signal_page p)"
  "signal_mapped_size (set_slot i v p) = signal_mapped_size p" "signal_event_count (set_slot i v p) = signal_event_count p"
  "waiters (set_slot i v p) = waiters p" "asleep (set_slot i v p) = asleep p"
  by (simp_all add: set_slot_def)

lemma upd_waiter_sel [simp]:
  "event_idr (upd_waiter f ti p) = event_idr p" "ev_mem (upd_waiter f ti p) = ev_mem p"
  "signal_page (upd_waiter f ti p) = signal_page p" "signal_mapped_size (upd_waiter f ti p) = signal_mapped_size p"
  "signal_event_count (upd_waiter f ti p) = signal_event_count p" "asleep (upd_waiter f ti p) = asleep p"
  "length (waiters (upd_waiter f ti p) t) = length (waiters p t)"
  by (simp_all add: upd_waiter_def split: prod.splits)

lemma fold_upd_waiter_sel [simp]:
  "event_idr (fold (upd_waiter f) ws p) = event_idr p" "ev_mem (fold (upd_waiter f) ws p) = ev_mem p"
  "signal_page (fold (upd_waiter f) ws p) = signal_page p" "signal_mapped_size (fold (upd_waiter f) ws p) = signal_mapped_size p"
  "signal_event_count (fold (upd_waiter f) ws p) = signal_event_count p" "asleep (fold (upd_waiter f) ws p) = asleep p"
  "length (waiters (fold (upd_waiter f) ws p) t) = length (waiters p t)"
  by (induction ws arbitrary: p) simp_all

lemma upd_waiter_nth:
  "i < length (waiters p t) \<Longrightarrow> waiters (upd_waiter f (t', j) p) t ! i = (if (t', j) = (t, i) then f (waiters p t ! i) else waiters p t ! i)"
  by (auto simp: upd_waiter_def nth_list_update)

lemma fold_upd_waiter_nth:
  assumes "\<And>w. f (f w) = f w" and "i < length (waiters p t)"
  shows "waiters (fold (upd_waiter f) ws p) t ! i = (if (t, i) \<in> set ws then f (waiters p t ! i) else waiters p t ! i)"
  using assms(2)
proof (induction ws arbitrary: p)
  case (Cons x ws)
  obtain t' j where x: "x = (t', j)" by fastforce
  show ?case using Cons.IH [of "upd_waiter f x p"] Cons.prems upd_waiter_nth [OF Cons.prems, of f t' j] assms(1)
    by (auto simp: x)
qed simp

lemma wake_entries_subset: "set (fst (wake_entries sl ws)) \<subseteq> set ws"
  by (induction sl ws rule: wake_entries.induct) (auto simp del: fun_upd_apply split: prod.splits)

lemma wake_entries_distinct: "distinct ws \<Longrightarrow> distinct (fst (wake_entries sl ws))"
proof (induction sl ws rule: wake_entries.induct)
  case (2 sl t i ws)
  then show ?case using wake_entries_subset [of sl ws] by (auto simp del: fun_upd_apply split: prod.splits)
qed simp

text \<open>No thread with an entry in the queue stays asleep, and no thread falls asleep.\<close>

lemma wake_entries_asleep: "snd (wake_entries sl ws) t \<longleftrightarrow> sl t \<and> t \<notin> fst ` set ws"
proof (induction sl ws rule: wake_entries.induct)
  case (2 sl t' i ws)
  show ?case
  proof (cases "sl t'")
    case True
    then have "snd (wake_entries sl ((t', i) # ws)) t \<longleftrightarrow> (sl(t' := False)) t \<and> t \<notin> fst ` set ws"
      using "2.IH"(1) [OF True] by (simp del: fun_upd_apply)
    then show ?thesis by auto
  next
    case False
    then show ?thesis using "2.IH"(2) [OF False] by (auto split: prod.splits)
  qed
qed simp

lemma wake_up_all_sel [simp]:
  "event_idr (wake_up_all a p) = event_idr p" "signal_page (wake_up_all a p) = signal_page p"
  "signal_mapped_size (wake_up_all a p) = signal_mapped_size p" "signal_event_count (wake_up_all a p) = signal_event_count p"
  "waiters (wake_up_all a p) = waiters p"
  "ev_mem (wake_up_all a p) = (ev_mem p)(a := map_option (\<lambda>ev. ev\<lparr>wq := fst (wake_entries (asleep p) (wq ev))\<rparr>) (ev_mem p a))"
  by (auto simp: wake_up_all_def split: option.splits prod.splits)

lemma wq_of_upd [simp]: "wq_of (upd_ev a f p) b = (if b = a then (case ev_mem p a of None \<Rightarrow> [] | Some ev \<Rightarrow> wq (f ev)) else wq_of p b)"
  by (simp add: wq_of_def split: option.splits)

lemma wq_of_wake: "wq_of (wake_up_all a p) b = (if b = a then fst (wake_entries (asleep p) (wq_of p a)) else wq_of p b)"
  by (simp add: wq_of_def split: option.splits)

section \<open>Operations that keep ids and queues in order\<close>

text \<open>The ids, types and counts of \<open>q\<close> are those of \<open>p\<close>.\<close>

definition same_ids :: "ev_process \<Rightarrow> ev_process \<Rightarrow> bool" where
  "same_ids p q \<longleftrightarrow> event_idr q = event_idr p \<and> signal_event_count q = signal_event_count p \<and>
     signal_mapped_size q = signal_mapped_size p \<and> (signal_page q = None \<longleftrightarrow> signal_page p = None) \<and>
     (\<forall>a. map_option (\<lambda>ev. (event_id ev, etype ev)) (ev_mem q a) = map_option (\<lambda>ev. (event_id ev, etype ev)) (ev_mem p a))"

text \<open>A thread that sleeps in \<open>q\<close> slept in \<open>p\<close>, with the same waiters.\<close>

definition woken :: "ev_process \<Rightarrow> ev_process \<Rightarrow> bool" where
  "woken p q \<longleftrightarrow> (\<forall>t. length (waiters q t) = length (waiters p t) \<and> (asleep q t \<longrightarrow> asleep p t \<and> waiters q t = waiters p t))"

definition keeps :: "ev_process \<Rightarrow> ev_process \<Rightarrow> bool" where
  "keeps p q \<longleftrightarrow> same_ids p q \<and> woken p q \<and> (inv_wait p \<longrightarrow> inv_wait q)"

lemma keeps_refl [simp]: "keeps p p"
  by (simp add: keeps_def same_ids_def woken_def)

lemma same_ids_trans: "same_ids p q \<Longrightarrow> same_ids q r \<Longrightarrow> same_ids p r"
  by (simp add: same_ids_def)

lemma keeps_trans: "keeps p q \<Longrightarrow> keeps q r \<Longrightarrow> keeps p r"
  using same_ids_trans [of p q r] by (simp add: keeps_def woken_def)

lemma keeps_fold: "(\<And>x p. keeps p (f x p)) \<Longrightarrow> keeps p (fold f xs p)"
  by (induction xs arbitrary: p) (auto intro: keeps_trans)

lemma same_ids_dom: "same_ids p q \<Longrightarrow> dom (ev_mem q) = dom (ev_mem p)"
proof -
  assume "same_ids p q"
  then have "map_option (\<lambda>ev. (event_id ev, etype ev)) (ev_mem q a) = map_option (\<lambda>ev. (event_id ev, etype ev)) (ev_mem p a)" for a
    by (simp add: same_ids_def)
  from arg_cong [OF this, of "\<lambda>x. x = None"] have "ev_mem q a = None \<longleftrightarrow> ev_mem p a = None" for a
    by simp
  then show ?thesis by (simp add: dom_def)
qed

lemma same_ids_event_at:
  assumes "same_ids p q"
  shows "event_at q i a = event_at p i a"
proof -
  have e: "event_at r i a \<longleftrightarrow> (\<exists>x. map_option (\<lambda>ev. (event_id ev, etype ev)) (ev_mem r a) = Some x \<and> unat (fst x) = i \<and>
      (is_signal_type (snd x) \<longleftrightarrow> i < OPU_FIRST_NONSIGNAL_EVENT_ID))" for r
    by (cases "ev_mem r a") (simp_all add: event_at_def)
  have "map_option (\<lambda>ev. (event_id ev, etype ev)) (ev_mem q a) = map_option (\<lambda>ev. (event_id ev, etype ev)) (ev_mem p a)"
    using assms by (simp add: same_ids_def)
  then show ?thesis unfolding e by simp
qed

lemma same_ids_inv:
  assumes "same_ids p q"
  shows "inv_idr q = inv_idr p" "inv_page q = inv_page p"
proof -
  have e: "event_idr q = event_idr p" "signal_event_count q = signal_event_count p"
    "signal_mapped_size q = signal_mapped_size p" "signal_page q = None \<longleftrightarrow> signal_page p = None"
    using assms by (simp_all add: same_ids_def)
  show "inv_idr q = inv_idr p" by (simp add: inv_idr_def e same_ids_dom [OF assms] same_ids_event_at [OF assms])
  show "inv_page q = inv_page p" unfolding inv_page_def e by (rule refl)
qed

lemma keeps_inv: "keeps p q \<Longrightarrow> ev_inv p \<Longrightarrow> ev_inv q"
  using same_ids_inv [of p q] by (simp add: ev_inv_def keeps_def)

lemma inv_wait_cong:
  assumes "\<And>b. wq_of q b = wq_of p b" and "waiters q = waiters p"
  shows "inv_wait q = inv_wait p"
  by (simp add: inv_wait_def inv_queues_def waiter_ok_def assms)

lemma keeps_upd_ev:
  assumes "\<And>ev. event_id (f ev) = event_id ev" "\<And>ev. etype (f ev) = etype ev" "\<And>ev. wq (f ev) = wq ev"
  shows "keeps p (upd_ev a f p)"
proof -
  have wq: "wq_of (upd_ev a f p) b = wq_of p b" for b using assms(3) by (simp add: wq_of_def split: option.splits)
  have "inv_wait (upd_ev a f p) = inv_wait p"
    using wq by (intro inv_wait_cong) simp_all
  moreover have "same_ids p (upd_ev a f p)"
    using assms by (auto simp: same_ids_def option.map_comp o_def)
  ultimately show ?thesis by (simp add: keeps_def woken_def)
qed

lemma keeps_set_slot: "keeps p (set_slot i v p)"
proof -
  have "wq_of (set_slot i v p) b = wq_of p b" for b by (simp add: wq_of_def)
  then have "inv_wait (set_slot i v p) = inv_wait p" by (intro inv_wait_cong) simp_all
  then show ?thesis by (simp add: keeps_def same_ids_def woken_def)
qed

lemma waiters_fold_other:
  assumes "t \<notin> fst ` set ws"
  shows "waiters (fold (upd_waiter f) ws p) t = waiters p t"
  using assms by (induction ws arbitrary: p) (auto simp: upd_waiter_def)

lemma set_event_sel:
  "event_idr (set_event a p) = event_idr p" "signal_page (set_event a p) = signal_page p"
  "signal_mapped_size (set_event a p) = signal_mapped_size p" "signal_event_count (set_event a p) = signal_event_count p"
  "asleep (set_event a p) = snd (wake_entries (asleep p) (wq_of p a))"
  "waiters (set_event a p) = waiters (fold (upd_waiter (\<lambda>w. w\<lparr>activated := True\<rparr>)) (wq_of p a) p)"
  "ev_mem (set_event a p) = (ev_mem p)(a := map_option (\<lambda>ev. ev\<lparr>signaled := (\<not> auto_reset ev \<or> wq ev = []),
     wq := fst (wake_entries (asleep p) (wq ev))\<rparr>) (ev_mem p a))"
proof -
  define ws where "ws = wq_of p a"
  define p1 where "p1 = upd_ev a (\<lambda>ev. ev\<lparr>signaled := (\<not> auto_reset ev \<or> ws = [])\<rparr>) p"
  define p2 where "p2 = fold (upd_waiter (\<lambda>w. w\<lparr>activated := True\<rparr>)) ws p1"
  have s: "set_event a p = wake_up_all a p2" by (simp add: set_event_def ws_def p1_def p2_def Let_def)
  have q: "wq_of p2 a = ws" by (simp add: p2_def p1_def ws_def wq_of_def split: option.splits)
  show "event_idr (set_event a p) = event_idr p" "signal_page (set_event a p) = signal_page p"
    "signal_mapped_size (set_event a p) = signal_mapped_size p" "signal_event_count (set_event a p) = signal_event_count p"
    by (simp_all add: s p2_def p1_def)
  show "asleep (set_event a p) = snd (wake_entries (asleep p) (wq_of p a))"
    using q by (auto simp: s wake_up_all_def wq_of_def p2_def p1_def ws_def split: option.splits prod.splits)
  have w: "waiters r = waiters r' \<Longrightarrow> waiters (fold (upd_waiter f) xs r) = waiters (fold (upd_waiter f) xs r')" for f xs r r'
  proof (induction xs arbitrary: r r')
    case (Cons x xs)
    show ?case using Cons.IH [of "upd_waiter f x r" "upd_waiter f x r'"] Cons.prems by (simp add: upd_waiter_def case_prod_unfold)
  qed simp
  show "waiters (set_event a p) = waiters (fold (upd_waiter (\<lambda>w. w\<lparr>activated := True\<rparr>)) (wq_of p a) p)"
    using w [of p1 p] by (simp add: s p2_def p1_def ws_def)
  show "ev_mem (set_event a p) = (ev_mem p)(a := map_option (\<lambda>ev. ev\<lparr>signaled := (\<not> auto_reset ev \<or> wq ev = []),
     wq := fst (wake_entries (asleep p) (wq ev))\<rparr>) (ev_mem p a))"
    by (cases "ev_mem p a") (auto simp: s p2_def p1_def ws_def wq_of_def)
qed

lemma set_event_wq:
  "wq_of (set_event a p) b = (if b = a then fst (wake_entries (asleep p) (wq_of p a)) else wq_of p b)"
  by (cases "ev_mem p a") (simp_all add: wq_of_def set_event_sel)

lemma set_event_waiter:
  "i < length (waiters p t) \<Longrightarrow> waiters (set_event a p) t ! i =
     (if (t, i) \<in> set (wq_of p a) then (waiters p t ! i)\<lparr>activated := True\<rparr> else waiters p t ! i)"
  by (simp add: set_event_sel fold_upd_waiter_nth)

lemma set_event_length [simp]: "length (waiters (set_event a p) t) = length (waiters p t)"
  by (simp add: set_event_sel)

lemma set_event_inv_wait:
  assumes "inv_wait p"
  shows "inv_wait (set_event a p)"
proof -
  have sub: "set (wq_of (set_event a p) b) \<subseteq> set (wq_of p b)" for b
    using wake_entries_subset by (simp add: set_event_wq)
  have q: "inv_queues p" using assms by (simp add: inv_wait_def)
  have "inv_queues (set_event a p)"
    unfolding inv_queues_def
  proof (intro allI conjI impI)
    fix b t i
    show "distinct (wq_of (set_event a p) b)" using q by (simp add: inv_queues_def set_event_wq wake_entries_distinct)
    assume "(t, i) \<in> set (wq_of (set_event a p) b)"
    then have "(t, i) \<in> set (wq_of p b)" using sub by blast
    then have "i < length (waiters p t)" "event (waiters p t ! i) = Ev b" using q by (simp_all add: inv_queues_def)
    then show "i < length (waiters (set_event a p) t)" "event (waiters (set_event a p) t ! i) = Ev b"
      by (simp_all add: set_event_waiter)
  qed
  moreover have "waiter_ok (set_event a p) t i" if "i < length (waiters p t)" for t i
  proof -
    have "waiter_ok p t i" using assms that by (simp add: inv_wait_def)
    moreover have "(t, i) \<in> set (wq_of p b) \<Longrightarrow> (t, i) \<in> set (wq_of (set_event a p) b) \<or> b = a" for b
      by (simp add: set_event_wq)
    ultimately show ?thesis unfolding waiter_ok_def Let_def set_event_waiter [OF that] by auto
  qed
  ultimately show ?thesis by (simp add: inv_wait_def)
qed

lemma keeps_set_event: "keeps p (set_event a p)"
proof -
  have "same_ids p (set_event a p)" by (simp add: same_ids_def set_event_sel option.map_comp o_def)
  moreover have "woken p (set_event a p)"
    using waiters_fold_other by (auto simp add: woken_def set_event_sel wake_entries_asleep)
  ultimately show ?thesis using set_event_inv_wait by (simp add: keeps_def)
qed

lemma keeps_opu_set_event: "keeps p (snd (opu_set_event i p))"
  by (simp add: opu_set_event_def keeps_set_event split: option.splits)

lemma keeps_opu_reset_event: "keeps p (snd (opu_reset_event i p))"
  by (simp add: opu_reset_event_def reset_event_def keeps_upd_ev split: option.splits)

lemma keeps_set_event_from_interrupt: "keeps p (set_event_from_interrupt e p)"
  by (auto simp: set_event_from_interrupt_def acknowledge_signal_def split: option.splits
      intro: keeps_trans [OF keeps_set_slot keeps_set_event])

lemma keeps_signal_event_interrupt:
  "opu_signal_event_interrupt i b (Some p) = Some q \<Longrightarrow> keeps p q"
  by (auto simp: opu_signal_event_interrupt_def scan_events_def scan_slots_def Let_def split: if_splits
      intro!: keeps_set_event_from_interrupt keeps_fold)

lemma keeps_send_sig: "keeps p (send_sig sig p)"
proof -
  have "inv_wait (send_sig sig p) = inv_wait p" by (intro inv_wait_cong) (simp_all add: send_sig_def wq_of_def)
  then show ?thesis by (simp add: keeps_def same_ids_def woken_def send_sig_def)
qed

lemma keeps_lookup_events_by_type_and_signal: "keeps p (lookup_events_by_type_and_signal st ty d p)"
proof -
  have "keeps r (let q = set_event a r in case d of Some d \<Rightarrow>
      if ty = OPU_EVENT_TYPE_MEMORY then upd_ev a (\<lambda>ev. ev\<lparr>memory_exception_data := d\<rparr>) q else q | None \<Rightarrow> q)" for a r
    by (auto simp: Let_def keeps_set_event split: option.splits intro: keeps_trans [OF keeps_set_event keeps_upd_ev])
  then have "keeps p (fold (\<lambda>a p. let q = set_event a p in case d of Some d \<Rightarrow>
      if ty = OPU_EVENT_TYPE_MEMORY then upd_ev a (\<lambda>ev. ev\<lparr>memory_exception_data := d\<rparr>) q else q | None \<Rightarrow> q) xs p)" for xs
    by (rule keeps_fold)
  then show ?thesis unfolding lookup_events_by_type_and_signal_def
    by (auto simp: Let_def intro: keeps_trans keeps_send_sig)
qed

lemma keeps_signal_exception: "keeps p (signal_exception hwd md a p)"
proof -
  have h: "keeps r (set_event a (upd_ev a (\<lambda>ev. ev\<lparr>hw_exception_data := hwd\<rparr>) r))" for r
    by (rule keeps_trans [OF keeps_upd_ev keeps_set_event]) simp_all
  have m: "keeps r (set_event a (upd_ev a (\<lambda>ev. ev\<lparr>memory_exception_data := d\<rparr>) r))" for r d
    by (rule keeps_trans [OF keeps_upd_ev keeps_set_event]) simp_all
  show ?thesis unfolding signal_exception_def
    by (auto simp: Let_def h m split: option.splits intro: keeps_trans [OF h m])
qed

lemma keeps_exceptions:
  "opu_signal_iommu_event st dev addr w x mm vma (Some p) = Some q \<Longrightarrow> keeps p q"
  "opu_signal_hw_exception_event st (Some p) = Some q \<Longrightarrow> keeps p q"
  "opu_signal_vm_fault_event dev info (Some p) = Some q \<Longrightarrow> keeps p q"
  "opu_signal_poison_consumed_event dev (Some p) = Some q \<Longrightarrow> keeps p q"
  "list_all2 keeps ps (opu_signal_reset_event dev ecc ps)"
proof -
  show "opu_signal_iommu_event st dev addr w x mm vma (Some p) = Some q \<Longrightarrow> keeps p q"
    by (auto simp: opu_signal_iommu_event_def Let_def keeps_lookup_events_by_type_and_signal split: if_splits)
  show "opu_signal_hw_exception_event st (Some p) = Some q \<Longrightarrow> keeps p q"
    by (auto simp: opu_signal_hw_exception_event_def keeps_lookup_events_by_type_and_signal)
  have "keeps r (set_event a (upd_ev a (\<lambda>ev. ev\<lparr>memory_exception_data := d\<rparr>) r))" for r a d
    by (rule keeps_trans [OF keeps_upd_ev keeps_set_event]) simp_all
  then show "opu_signal_vm_fault_event dev info (Some p) = Some q \<Longrightarrow> keeps p q"
    by (auto simp: opu_signal_vm_fault_event_def Let_def intro!: keeps_fold)
  show "opu_signal_poison_consumed_event dev (Some p) = Some q \<Longrightarrow> keeps p q"
    by (auto simp: opu_signal_poison_consumed_event_def Let_def
        intro!: keeps_trans [OF _ keeps_send_sig] keeps_fold keeps_signal_exception)
  show "list_all2 keeps ps (opu_signal_reset_event dev ecc ps)"
    unfolding opu_signal_reset_event_def Let_def list_all2_map2
    by (intro list_all2_refl keeps_fold keeps_signal_exception)
qed

end
