(* ===== verification/Opu_Events_Reach.thy ===== *)
theory Opu_Events_Reach
  imports Opu_Events_Inv
begin

text \<open>
  The operations of \<open>opu_events.c\<close> that create and destroy events and those that move waiters in and
  out of the wait queues keep the invariant of \<open>Opu_Events_Inv\<close>; the reachable states of the events of
  a process and its waiting threads.
\<close>

section \<open>Destroying events\<close>

lemma destroy_event_sel:
  assumes "ev_mem p a = Some ev"
  shows "event_idr (destroy_event a p) = idr_remove (event_idr p) (unat (event_id ev))"
    "ev_mem (destroy_event a p) = (ev_mem p)(a := None)"
    "signal_page (destroy_event a p) = signal_page p" "signal_mapped_size (destroy_event a p) = signal_mapped_size p"
    "signal_event_count (destroy_event a p) = signal_event_count p - (if is_signal_type (etype ev) then 1 else 0)"
    "waiters (destroy_event a p) = waiters (fold (upd_waiter (\<lambda>w. w\<lparr>event := Null\<rparr>)) (wq ev) p)"
    "asleep (destroy_event a p) = snd (wake_entries (asleep p) (wq ev))"
  using assms by (simp_all add: destroy_event_def Let_def) (simp add: wake_up_all_def case_prod_unfold)

lemma destroy_event_wq: "ev_mem p a = Some ev \<Longrightarrow> wq_of (destroy_event a p) b = (if b = a then [] else wq_of p b)"
  by (simp add: wq_of_def destroy_event_sel)

lemma destroy_event_waiter:
  assumes "ev_mem p a = Some ev" and "i < length (waiters p t)"
  shows "waiters (destroy_event a p) t ! i =
    (if (t, i) \<in> set (wq_of p a) then (waiters p t ! i)\<lparr>event := Null\<rparr> else waiters p t ! i)"
  using assms by (simp add: destroy_event_sel fold_upd_waiter_nth wq_of_def)

lemma destroy_event_woken: "woken p (destroy_event a p)"
proof (cases "ev_mem p a")
  case (Some ev)
  show ?thesis using waiters_fold_other by (auto simp add: woken_def destroy_event_sel [OF Some] wake_entries_asleep)
qed (simp add: destroy_event_def woken_def)

lemma destroy_event_inv_wait:
  assumes "inv_wait p"
  shows "inv_wait (destroy_event a p)"
proof (cases "ev_mem p a")
  case (Some ev)
  have len: "length (waiters (destroy_event a p) t) = length (waiters p t)" for t by (simp add: destroy_event_sel [OF Some])
  have q: "inv_queues p" using assms by (simp add: inv_wait_def)
  have "inv_queues (destroy_event a p)"
    unfolding inv_queues_def
  proof (intro allI conjI impI)
    fix b t i
    show "distinct (wq_of (destroy_event a p) b)" using q by (simp add: inv_queues_def destroy_event_wq [OF Some])
    assume "(t, i) \<in> set (wq_of (destroy_event a p) b)"
    then have b: "b \<noteq> a" "(t, i) \<in> set (wq_of p b)" by (auto simp: destroy_event_wq [OF Some] split: if_splits)
    then have w: "i < length (waiters p t)" "event (waiters p t ! i) = Ev b" using q by (simp_all add: inv_queues_def)
    moreover have "(t, i) \<notin> set (wq_of p a)" using q w(2) b(1) by (auto simp: inv_queues_def)
    ultimately show "i < length (waiters (destroy_event a p) t)" "event (waiters (destroy_event a p) t ! i) = Ev b"
      by (simp_all add: len destroy_event_waiter [OF Some])
  qed
  moreover have "waiter_ok (destroy_event a p) t i" if "i < length (waiters p t)" for t i
  proof -
    have "waiter_ok p t i" using assms that by (simp add: inv_wait_def)
    then show ?thesis
      unfolding waiter_ok_def Let_def destroy_event_waiter [OF Some that] destroy_event_wq [OF Some] by auto
  qed
  ultimately show ?thesis by (simp add: inv_wait_def len)
qed (use assms in \<open>simp add: destroy_event_def\<close>)

lemma idr_remove_count:
  assumes "distinct (map fst idr)" and "(i, a) \<in> set idr"
  shows "length (filter P idr) = length (filter P (idr_remove idr i)) + (if P (i, a) then 1 else 0)"
  using assms
proof (induction idr)
  case (Cons e idr)
  show ?case
  proof (cases "fst e = i")
    case True
    then have i: "\<forall>x\<in>set idr. fst x \<noteq> i" using Cons.prems(1) by (auto simp: image_iff)
    then have "idr_remove idr i = idr" by (simp add: idr_remove_def filter_id_conv)
    moreover have "e = (i, a)" using Cons.prems(2) i by auto
    ultimately show ?thesis by (simp add: idr_remove_def)
  next
    case False
    then show ?thesis using Cons by (auto simp: idr_remove_def)
  qed
qed simp

lemma destroy_event_inv_idr:
  assumes "inv_idr p"
  shows "inv_idr (destroy_event a p)"
proof (cases "ev_mem p a")
  case (Some ev)
  let ?i = "unat (event_id ev)"
  have ok: "idr_ok (event_idr p)" and at: "\<And>i a. (i, a) \<in> set (event_idr p) \<Longrightarrow> event_at p i a"
    and dom: "dom (ev_mem p) = snd ` set (event_idr p)"
    and cnt: "signal_event_count p = of_nat (length (filter (\<lambda>e. fst e < OPU_FIRST_NONSIGNAL_EVENT_ID) (event_idr p)))"
    using assms by (auto simp: inv_idr_def)
  have "a \<in> snd ` set (event_idr p)" using Some dom by auto
  then have ia: "(?i, a) \<in> set (event_idr p)" using at Some by (force simp: event_at_def)
  have mem: "e \<in> set (idr_remove (event_idr p) ?i) \<longleftrightarrow> e \<in> set (event_idr p) \<and> snd e \<noteq> a" for e
  proof -
    have "fst e = ?i \<longleftrightarrow> snd e = a" if "e \<in> set (event_idr p)"
      using ok that ia idr_ok_distinct [OF ok] unfolding idr_ok_def distinct_map inj_on_def by (metis fst_conv snd_conv)
    then show ?thesis by (auto simp: idr_remove_def)
  qed
  have "snd ` set (idr_remove (event_idr p) ?i) = snd ` set (event_idr p) - {a}" using mem by force
  moreover have "event_at (destroy_event a p) i b" if "(i, b) \<in> set (idr_remove (event_idr p) ?i)" for i b
    using that at [of i b] mem [of "(i, b)"] by (simp add: event_at_def destroy_event_sel [OF Some])
  moreover have "is_signal_type (etype ev) \<longleftrightarrow> ?i < OPU_FIRST_NONSIGNAL_EVENT_ID"
    using at [OF ia] Some by (simp add: event_at_def)
  ultimately show ?thesis
    using idr_ok_remove [OF ok] dom cnt idr_remove_count [OF idr_ok_distinct [OF ok] ia, of "\<lambda>e. fst e < OPU_FIRST_NONSIGNAL_EVENT_ID"]
    by (auto simp: inv_idr_def destroy_event_sel [OF Some])
qed (use assms in \<open>simp add: destroy_event_def\<close>)

lemma destroy_event_inv:
  assumes "ev_inv p"
  shows "ev_inv (destroy_event a p)"
proof (cases "ev_mem p a")
  case (Some ev)
  have "inv_page (destroy_event a p)" using assms
    by (auto simp: ev_inv_def inv_page_def destroy_event_sel [OF Some] idr_remove_def)
  then show ?thesis using assms by (simp add: ev_inv_def destroy_event_inv_idr destroy_event_inv_wait)
qed (use assms in \<open>simp add: destroy_event_def\<close>)

section \<open>Creating events\<close>

lemma idr_alloc_cases [consumes 1, case_names fail ok]:
  assumes "idr_alloc m idr a start e = (r, idr')"
  obtains err where "r = Inl err" "err < 0" "idr' = idr"
  | i where "r = Inr i" "start \<le> i" "i < (if e \<le> 0 then Suc INT_MAX else nat e)" "i \<notin> fst ` set idr" "idr' = insort_key fst (i, a) idr"
proof -
  define i where "i = first_free idr (Suc (length idr)) start"
  have "start \<le> i" "i \<notin> fst ` set idr" unfolding i_def by (rule first_free_spec(2) first_free_fresh)+
  moreover have "- ENOSPC < 0" "- ENOMEM < 0" by simp_all
  moreover have "(r, idr') = (if \<not> i < (if e \<le> 0 then Suc INT_MAX else nat e) then (Inl (- ENOSPC), idr)
      else if \<not> m then (Inl (- ENOMEM), idr) else (Inr i, insort_key fst (i, a) idr))"
    using assms by (simp only: idr_alloc_def Let_def i_def [symmetric])
  ultimately show ?thesis
    by (cases "i < (if e \<le> 0 then Suc INT_MAX else nat e)"; cases m) (use that in \<open>simp_all del: of_nat_Suc\<close>)
qed

lemma add_event_inv_idr:
  assumes "inv_idr p" and "a \<notin> dom (ev_mem p)" and "i \<notin> fst ` set (event_idr p)"
    and "event_idr q = insort_key fst (i, a) (event_idr p)" and "ev_mem q = (ev_mem p)(a \<mapsto> ev)"
    and "unat (event_id ev) = i" and "is_signal_type (etype ev) \<longleftrightarrow> i < OPU_FIRST_NONSIGNAL_EVENT_ID"
    and "signal_event_count q = signal_event_count p + (if i < OPU_FIRST_NONSIGNAL_EVENT_ID then 1 else 0)"
  shows "inv_idr q"
proof -
  have len: "length (filter P (insort_key fst x xs)) = (if P x then 1 else 0) + length (filter P xs)" for P and x :: "nat \<times> nat" and xs
    by (induction xs) auto
  have a: "a \<notin> snd ` set (event_idr p)" using assms(1,2) by (simp add: inv_idr_def)
  have "event_at q j b" if "(j, b) \<in> set (event_idr q)" for j b
  proof (cases "b = a")
    case True
    then have "j = i" using that a by (force simp: assms(4) set_insort_key)
    then show ?thesis using True assms(5-7) by (simp add: event_at_def)
  next
    case False
    then have "(j, b) \<in> set (event_idr p)" using that by (simp add: assms(4) set_insort_key)
    then have "event_at p j b" using assms(1) by (auto simp: inv_idr_def)
    then show ?thesis using False assms(5) by (simp add: event_at_def)
  qed
  moreover have "dom (ev_mem q) = snd ` set (event_idr q)"
    using assms(1) by (simp add: inv_idr_def assms(4,5) set_insort_key)
  moreover have "idr_ok (event_idr q)"
    using idr_ok_insort [of "event_idr p" i a] assms(1,3) a by (simp add: inv_idr_def assms(4))
  ultimately show ?thesis using assms(1,8) by (auto simp: inv_idr_def assms(4) len)
qed

lemma add_event_inv_wait:
  assumes "inv_wait p" and "a \<notin> dom (ev_mem p)" and "ev_mem q = (ev_mem p)(a \<mapsto> ev)" and "wq ev = []" and "waiters q = waiters p"
  shows "inv_wait q"
proof -
  have "wq_of q b = wq_of p b" for b using assms(2-4) by (auto simp: wq_of_def)
  then show ?thesis using inv_wait_cong [of q p] assms(1,5) by blast
qed

lemma inv_pageD:
  assumes "inv_page p" and "signal_page p \<noteq> None"
  shows "0 < sint (ucast (signal_mapped_size p div 8) :: u32)"
    "sint (ucast (signal_mapped_size p div 8) :: u32) \<le> int OPU_FIRST_NONSIGNAL_EVENT_ID"
proof -
  define n where "n = unat (signal_mapped_size p div 8)"
  have s: "8 \<le> signal_mapped_size p" "signal_mapped_size p \<le> 0x200000000" using assms by (simp_all add: inv_page_def)
  have n: "n = unat (signal_mapped_size p) div 8" by (simp add: n_def unat_div)
  have "8 \<le> unat (signal_mapped_size p)" "unat (signal_mapped_size p) \<le> 0x200000000"
    using s by (simp_all add: word_le_nat_alt)
  then have "1 \<le> n" "n \<le> 0x40000000" unfolding n by linarith+
  moreover have "sint (ucast (signal_mapped_size p div 8) :: u32) = signed_take_bit 31 (int n)"
    unfolding n_def signed_ucast_eq uint_nat by simp
  moreover have "signed_take_bit 31 (int n) = int n"
    by (rule signed_take_bit_int_eq_self) (use \<open>n \<le> 0x40000000\<close> in simp_all)
  ultimately show "0 < sint (ucast (signal_mapped_size p div 8) :: u32)"
    "sint (ucast (signal_mapped_size p div 8) :: u32) \<le> int OPU_FIRST_NONSIGNAL_EVENT_ID"
    by simp_all
qed

text \<open>The signal page is allocated on demand.\<close>

definition paged :: "ev_process \<Rightarrow> ev_process \<Rightarrow> bool" where
  "paged p q \<longleftrightarrow> q = p \<or> signal_page p = None \<and> (\<exists>pg. q = p\<lparr>signal_page := Some pg, signal_mapped_size := 2048\<rparr>)"

lemma paged_inv:
  assumes "paged p q" and "ev_inv p"
  shows "ev_inv q"
proof -
  have "inv_wait q = inv_wait p" using assms(1) by (intro inv_wait_cong) (auto simp: paged_def wq_of_def)
  moreover have "inv_idr (p\<lparr>signal_page := x, signal_mapped_size := y\<rparr>) = inv_idr p" for x y
    by (simp add: inv_idr_def event_at_def)
  then have "inv_idr q = inv_idr p" using assms(1) by (auto simp: paged_def)
  moreover have "inv_page q" using assms by (auto simp: paged_def inv_page_def ev_inv_def)
  ultimately show ?thesis using assms(2) by (simp add: ev_inv_def)
qed

lemma allocate_event_notification_slot_cases [consumes 2, case_names fail ok]:
  assumes "allocate_event_notification_slot al a p = (r, q)" and "inv_page p"
  obtains "r \<noteq> 0" "paged p q"
  | p1 i where "r = 0" "paged p p1" "signal_page p1 \<noteq> None" "i \<notin> fst ` set (event_idr p)" "i < OPU_FIRST_NONSIGNAL_EVENT_ID"
    "q = set_slot i UNSIGNALED_EVENT_SLOT (upd_ev a (\<lambda>ev. ev\<lparr>event_id := of_nat i\<rparr>) (p1\<lparr>event_idr := insort_key fst (i, a) (event_idr p1)\<rparr>))"
proof -
  define pg where "pg = (case signal_page p of
              None \<Rightarrow> (case allocate_signal_page (page_kzalloc al) (page_pages al) (page_garbage al) of
                         None \<Rightarrow> None
                       | Some pg \<Rightarrow> Some (p\<lparr>signal_page := Some pg, signal_mapped_size := 256 * 8\<rparr>))
            | Some pg \<Rightarrow> Some p)"
  show ?thesis
  proof (cases pg)
    case None
    then have "q = p" "r \<noteq> 0" using assms(1) by (simp_all add: allocate_event_notification_slot_def pg_def [symmetric])
    then show ?thesis using that(1) by (simp add: paged_def)
  next
    case (Some p1)
    then have pd: "paged p p1" and pn: "signal_page p1 \<noteq> None" and ei: "event_idr p1 = event_idr p"
      by (auto simp: pg_def paged_def split: option.splits)
    have ip: "inv_page p1" using assms(2) pd by (auto simp: inv_page_def paged_def)
    obtain r' idr' where al: "idr_alloc (idr_memory al) (event_idr p1) a 0 (sint (ucast (signal_mapped_size p1 div 8) :: u32)) = (r', idr')"
      by fastforce
    from al show ?thesis
    proof (cases rule: idr_alloc_cases)
      case (fail err)
      then have "r = err" "q = p1" using assms(1) al by (simp_all add: allocate_event_notification_slot_def pg_def [symmetric] Some)
      then show ?thesis using that(1) fail pd by auto
    next
      case (ok i)
      then have "r = 0" "q = set_slot i UNSIGNALED_EVENT_SLOT (upd_ev a (\<lambda>ev. ev\<lparr>event_id := of_nat i\<rparr>) (p1\<lparr>event_idr := idr'\<rparr>))"
        using assms(1) al by (simp_all add: allocate_event_notification_slot_def pg_def [symmetric] Some)
      moreover have "i < OPU_FIRST_NONSIGNAL_EVENT_ID" using ok(3) inv_pageD [OF ip pn] by (simp split: if_splits)
      ultimately show ?thesis using that(2) [OF _ pd pn] ok ei by auto
    qed
  qed
qed

lemma create_signal_event_cases [consumes 2, case_names limit fail ok]:
  assumes "create_signal_event al a p = (r, q)" and "inv_page p"
  obtains "r = - ENOSPC" "q = p\<lparr>signal_event_limit_reached := True\<rparr>"
  | "r \<noteq> 0" "paged p q"
  | p1 i pg where "r = 0" "paged p p1" "signal_page p1 = Some pg" "i \<notin> fst ` set (event_idr p)" "i < OPU_FIRST_NONSIGNAL_EVENT_ID"
    "q = upd_ev a (\<lambda>ev. ev\<lparr>user_signal_address := user_address pg + 8 * ucast (event_id ev)\<rparr>)
       (set_slot i UNSIGNALED_EVENT_SLOT (upd_ev a (\<lambda>ev. ev\<lparr>event_id := of_nat i\<rparr>)
         (p1\<lparr>event_idr := insort_key fst (i, a) (event_idr p1)\<rparr>))\<lparr>signal_event_count := signal_event_count p + 1\<rparr>)"
proof (cases "signal_mapped_size p \<noteq> 0 \<and> signal_event_count p = signal_mapped_size p div 8")
  case True
  then show ?thesis using assms(1) that(1) by (cases p) (auto simp: create_signal_event_def)
next
  case nlim: False
  obtain r' q' where al: "allocate_event_notification_slot al a p = (r', q')" by fastforce
  have cs: "create_signal_event al a p = (if r' \<noteq> 0 then (r', q') else
      let p2 = q'\<lparr>signal_event_count := signal_event_count q' + 1\<rparr>;
          base = (case signal_page p2 of None \<Rightarrow> 0 | Some pg \<Rightarrow> user_address pg)
      in (0, upd_ev a (\<lambda>ev. ev\<lparr>user_signal_address := base + 8 * ucast (event_id ev)\<rparr>) p2))"
    unfolding create_signal_event_def if_not_P [OF nlim] al by simp
  from al assms(2) show ?thesis
  proof (cases rule: allocate_event_notification_slot_cases)
    case fail
    then show ?thesis using that(2) assms(1) cs by simp
  next
    case (ok p1 i)
    obtain pg where pg: "signal_page p1 = Some pg" using ok(3) by blast
    have "signal_event_count p1 = signal_event_count p" using ok(2) by (auto simp: paged_def)
    then show ?thesis using assms(1) that(3) [OF _ ok(2) pg ok(4,5)] by (simp add: cs ok(1,6) Let_def pg)
  qed
qed

lemma opu_event_create_cases [consumes 3, case_names fail ok]:
  assumes "opu_event_create al ty ar p = (r, out, q)" and "inv_page p" and "new_event al \<notin> Some ` dom (ev_mem p)"
  obtains p1 where "r \<noteq> 0" "out = None" "paged p p1" "q = p1 \<or> q = p1\<lparr>signal_event_limit_reached := True\<rparr>"
  | a p1 i ev where "r = 0" "paged p p1" "new_event al = Some a" "i \<notin> fst ` set (event_idr p)" "i < 0x80000000"
    "i < OPU_FIRST_NONSIGNAL_EVENT_ID \<longleftrightarrow> is_signal_type ty" "is_signal_type ty \<Longrightarrow> signal_page p1 \<noteq> None"
    "event_idr q = insort_key fst (i, a) (event_idr p)" "ev_mem q = (ev_mem p)(a \<mapsto> ev)"
    "event_id ev = of_nat i" "etype ev = ty" "auto_reset ev = ar" "\<not> signaled ev" "wq ev = []" "waiters q = waiters p" "asleep q = asleep p"
    "signal_event_count q = signal_event_count p + (if is_signal_type ty then 1 else 0)"
    "signal_mapped_size q = signal_mapped_size p1" "signal_page q = None \<longleftrightarrow> signal_page p1 = None"
    "out = Some (of_nat i, if is_signal_type ty then OPU_MMAP_TYPE_EVENTS else 0, if is_signal_type ty then Some (of_nat i) else None)"
    "slot_of q i = UNSIGNALED_EVENT_SLOT \<or> \<not> is_signal_type ty"
proof (cases "new_event al")
  case None
  then show ?thesis using that(1) [of p] assms(1) by (simp add: opu_event_create_def paged_def)
next
  case (Some a)
  have fresh: "ev_mem p a = None" using assms(3) Some by auto
  define ev0 where "ev0 = zero_event\<lparr>etype := ty, auto_reset := ar\<rparr>"
  define p0 where "p0 = p\<lparr>ev_mem := (ev_mem p)(a \<mapsto> ev0)\<rparr>"
  have wq0: "wq ev0 = []" "etype ev0 = ty" "auto_reset ev0 = ar" "\<not> signaled ev0" by (simp_all add: ev0_def zero_event_def)
  have kept: "paged p0 p2 \<Longrightarrow> paged p (p2\<lparr>ev_mem := (ev_mem p2)(a := None)\<rparr>)" for p2
    using fresh by (auto simp: paged_def p0_def fun_upd_idem)
  show ?thesis
  proof (cases "is_signal_type ty")
    case False
    then have c: "opu_event_create al ty ar p = (case create_other_event al a p0 of (ret, p2) \<Rightarrow>
        if ret \<noteq> 0 then (ret, None, p2\<lparr>ev_mem := (ev_mem p2)(a := None)\<rparr>)
        else (0, Some (case ev_mem p2 a of None \<Rightarrow> 0 | Some ev \<Rightarrow> event_id ev, 0, None), p2))"
      by (simp add: opu_event_create_def Some Let_def is_signal_type_def p0_def ev0_def split: prod.splits)
    obtain r' idr' where al: "idr_alloc (idr_memory al) (event_idr p0) a OPU_FIRST_NONSIGNAL_EVENT_ID (sint (of_nat INT_MAX + 1 :: u32)) = (r', idr')"
      by fastforce
    have lim: "sint (of_nat INT_MAX + 1 :: u32) \<le> 0" by simp
    from al show ?thesis
    proof (cases rule: idr_alloc_cases)
      case (fail err)
      then have "r = err" "out = None" "q = p0\<lparr>ev_mem := (ev_mem p0)(a := None)\<rparr>"
        using assms(1) al by (simp_all add: c create_other_event_def)
      then show ?thesis using that(1) fail kept [of p0] by (simp add: paged_def)
    next
      case (ok i)
      then have "r = 0" "q = upd_ev a (\<lambda>ev. ev\<lparr>event_id := of_nat i\<rparr>) (p0\<lparr>event_idr := idr'\<rparr>)" "out = Some (of_nat i, 0, None)"
        using assms(1) al by (simp_all add: c create_other_event_def p0_def)
      moreover have "paged p p" by (simp add: paged_def)
      ultimately show ?thesis
        using that(2) [of p a i "ev0\<lparr>event_id := of_nat i\<rparr>"] ok lim False Some wq0 by (simp add: p0_def)
    qed
  next
    case True
    then have c: "opu_event_create al ty ar p = (case create_signal_event al a p0 of (ret, p2) \<Rightarrow>
        if ret \<noteq> 0 then (ret, None, p2\<lparr>ev_mem := (ev_mem p2)(a := None)\<rparr>)
        else let i = (case ev_mem p2 a of None \<Rightarrow> 0 | Some ev \<Rightarrow> event_id ev) in (0, Some (i, OPU_MMAP_TYPE_EVENTS, Some i), p2))"
      by (auto simp add: opu_event_create_def Some Let_def is_signal_type_def p0_def ev0_def split: prod.splits)
    obtain r' q' where cs: "create_signal_event al a p0 = (r', q')" by fastforce
    have "inv_page p0" using assms(2) by (simp add: inv_page_def p0_def)
    with cs show ?thesis
    proof (cases rule: create_signal_event_cases)
      case limit
      then have "r = - ENOSPC" "out = None" "q = (p0\<lparr>ev_mem := (ev_mem p0)(a := None)\<rparr>)\<lparr>signal_event_limit_reached := True\<rparr>"
        using assms(1) by (auto simp: c cs)
      then show ?thesis using that(1) kept [of p0] by (simp add: paged_def)
    next
      case fail
      then show ?thesis using that(1) [OF _ _ kept [OF fail(2)]] assms(1) by (auto simp: c cs)
    next
      case (ok p1 i pg)
      have pm: "ev_mem p1 a = Some ev0" "event_idr p1 = event_idr p" "(ev_mem p1)(a := v) = (ev_mem p)(a := v)" "waiters p1 = waiters p"
        "asleep p1 = asleep p" "signal_event_count p0 = signal_event_count p" for v
        using ok(2) by (auto simp: paged_def p0_def)
      have r: "r = 0" and q: "q = q'" and out: "out = Some (of_nat i, OPU_MMAP_TYPE_EVENTS, Some (of_nat i))"
        using assms(1) ok(1,6) pm(1) by (simp_all add: c cs Let_def)
      show ?thesis
      proof (rule that(2) [of "p1\<lparr>ev_mem := (ev_mem p1)(a := None)\<rparr>" a i
            "ev0\<lparr>event_id := of_nat i, user_signal_address := user_address pg + 8 * ucast (of_nat i :: u32)\<rparr>"])
        show "paged p (p1\<lparr>ev_mem := (ev_mem p1)(a := None)\<rparr>)" using kept [OF ok(2)] by simp
        show "i \<notin> fst ` set (event_idr p)" using ok(4) by (simp add: p0_def)
        show "ev_mem q = (ev_mem p)(a \<mapsto> ev0\<lparr>event_id := of_nat i, user_signal_address := user_address pg + 8 * ucast (of_nat i :: u32)\<rparr>)"
          by (simp add: q ok(6) pm del: fun_upd_apply) (simp add: pm)
      qed (use r out Some True ok wq0 pm in \<open>simp_all add: q slot_of_def\<close>)
    qed
  qed
qed

lemma ev_inv_limit [simp]: "ev_inv (p\<lparr>signal_event_limit_reached := b\<rparr>) = ev_inv p"
proof -
  have "inv_wait (p\<lparr>signal_event_limit_reached := b\<rparr>) = inv_wait p" by (intro inv_wait_cong) (simp_all add: wq_of_def)
  then show ?thesis by (simp add: ev_inv_def inv_idr_def event_at_def inv_page_def)
qed

lemma opu_event_create_inv:
  assumes "ev_inv p" and "new_event al \<notin> Some ` dom (ev_mem p)" and "opu_event_create al ty ar p = (r, out, q)"
  shows "ev_inv q"
proof -
  have "inv_page p" using assms(1) by (simp add: ev_inv_def)
  from assms(3) this assms(2) show ?thesis
  proof (cases rule: opu_event_create_cases)
    case (ok a p1 i ev)
    have a: "a \<notin> dom (ev_mem p)" using assms(2) ok(3) by auto
    have "unat (event_id ev) = i" using ok(5,10) by (simp add: unat_of_nat)
    then have "inv_idr q" using add_event_inv_idr [OF _ a ok(4) ok(8,9)] ok assms(1) by (simp add: ev_inv_def)
    moreover have "inv_wait q" using add_event_inv_wait [OF _ a ok(9,14,15)] assms(1) by (simp add: ev_inv_def)
    moreover have "inv_page p1" using paged_inv [OF ok(2) assms(1)] by (simp add: ev_inv_def)
    then have "inv_page q" using ok \<open>inv_page p\<close> by (auto simp: inv_page_def set_insort_key paged_def)
    ultimately show ?thesis by (simp add: ev_inv_def)
  qed (use assms(1) paged_inv in auto)
qed

section \<open>The signal page of the user\<close>

lemma opu_event_page_set_inv:
  assumes "ev_inv p" and "8 \<le> sz" and "sz \<le> 0x200000000"
  shows "ev_inv (snd (opu_event_page_set m buf sz p))"
proof -
  have "inv_wait (snd (opu_event_page_set m buf sz p)) = inv_wait p"
    by (intro inv_wait_cong) (simp_all add: opu_event_page_set_def wq_of_def)
  then show ?thesis using assms by (auto simp: ev_inv_def inv_idr_def event_at_def inv_page_def opu_event_page_set_def)
qed

lemma nbits_bound: "n < 2 ^ nbits n"
  by (induction n rule: nbits.induct) (subst nbits.simps, auto)

lemma get_order_le_3:
  assumes "get_order n \<le> 3"
  shows "n \<noteq> 0" "unat n \<le> 32768"
proof -
  show n: "n \<noteq> 0" using assms by (auto simp: get_order_def)
  have "(2::nat) ^ get_order n \<le> 2 ^ 3" using assms by (rule power_increasing) simp
  then have "(unat n - 1) div 4096 < 8" using nbits_bound [of "(unat n - 1) div 4096"] n by (simp add: get_order_def)
  then show "unat n \<le> 32768" by linarith
qed

lemma get_order_limit: "get_order 32768 = 3"
  by (simp add: get_order_def nbits.simps)

lemma opu_event_mmap_inv:
  assumes "ev_inv p" and "8 \<le> e - s"
  shows "ev_inv (snd (opu_event_mmap r s e p))"
proof -
  have "inv_wait (snd (opu_event_mmap r s e p)) = inv_wait p"
    by (intro inv_wait_cong) (simp_all add: opu_event_mmap_def wq_of_def Let_def split: option.splits)
  moreover have "inv_idr (snd (opu_event_mmap r s e p)) = inv_idr p"
    by (simp add: inv_idr_def event_at_def opu_event_mmap_def Let_def split: option.splits)
  moreover have "e - s \<le> 0x200000000" if "get_order (e - s) \<le> 3"
    using get_order_le_3(2) [OF that] by (simp add: word_le_nat_alt)
  then have "inv_page (snd (opu_event_mmap r s e p))"
    using assms by (auto simp: ev_inv_def inv_page_def opu_event_mmap_def Let_def get_order_limit split: option.splits)
  ultimately show ?thesis using assms by (simp add: ev_inv_def)
qed

end
