(* ===== verification/Opu_Events_Wait.thy ===== *)
theory Opu_Events_Wait
  imports Opu_Events_Reach
begin

text \<open>
  The three parts of \<open>opu_wait_on_events\<close> keep the invariant of the events, and the reachable states of
  a process whose threads create, signal, destroy and wait for events, in any interleaving.
\<close>

section \<open>Leaving: \<open>free_waiters\<close>\<close>

text \<open>The queues without the entries of one waiter array.\<close>

lemma remove1_filter: "distinct xs \<Longrightarrow> remove1 x xs = filter (\<lambda>y. y \<noteq> x) xs"
  by (simp add: distinct_remove1_removeAll removeAll_filter_not_eq eq_commute)

lemma free_waiter_list_spec:
  assumes "free_waiter_list t i ws p = Some q" and "\<And>b. distinct (wq_of p b)"
  shows "same_ids p q" "waiters q = waiters p" "asleep q = asleep p"
    "wq_of q b = filter (\<lambda>e. \<not> (\<exists>j<length ws. e = (t, i + j) \<and> event (ws ! j) = Ev b)) (wq_of p b)"
proof -
  have "same_ids p q \<and> waiters q = waiters p \<and> asleep q = asleep p \<and>
    (\<forall>b. wq_of q b = filter (\<lambda>e. \<not> (\<exists>j<length ws. e = (t, i + j) \<and> event (ws ! j) = Ev b)) (wq_of p b))"
    using assms
  proof (induction t i ws p rule: free_waiter_list.induct)
    case (1 t i p)
    then show ?case by (simp add: same_ids_def)
  next
    case (2 t i w ws p)
    have split: "(\<exists>j<length (w # ws). e = (t, i + j) \<and> event ((w # ws) ! j) = Ev b) \<longleftrightarrow>
        e = (t, i) \<and> event w = Ev b \<or> (\<exists>j<length ws. e = (t, Suc i + j) \<and> event (ws ! j) = Ev b)" for e b
      by (auto simp: less_Suc_eq_0_disj)
    show ?case
    proof (cases "event w")
      case Uninit
      then show ?thesis using "2.prems"(1) by simp
    next
      case Null
      then have "free_waiter_list t (Suc i) ws p = Some q" using "2.prems"(1) by simp
      from "2.IH"(1) [OF Null this "2.prems"(2)] show ?thesis unfolding split using Null by simp
    next
      case (Ev a)
      define p1 where "p1 = upd_ev a (\<lambda>ev. ev\<lparr>wq := remove1 (t, i) (wq ev)\<rparr>) p"
      have m: "ev_mem p a \<noteq> None" and f: "free_waiter_list t (Suc i) ws p1 = Some q"
        using "2.prems"(1) Ev by (auto simp: p1_def split: if_splits)
      have wq1: "wq_of p1 b = (if b = a then remove1 (t, i) (wq_of p a) else wq_of p b)" for b
        by (simp add: p1_def) (simp add: wq_of_def split: option.splits)
      then have "\<And>b. distinct (wq_of p1 b)" using "2.prems"(2) by simp
      from "2.IH"(2) [OF _ Ev m, folded p1_def, OF _ f this] Ev
      have ih: "same_ids p1 q" "waiters q = waiters p1" "asleep q = asleep p1"
        "\<And>b. wq_of q b = filter (\<lambda>e. \<not> (\<exists>j<length ws. e = (t, Suc i + j) \<and> event (ws ! j) = Ev b)) (wq_of p1 b)"
        by simp_all
      have "same_ids p p1" by (auto simp: same_ids_def p1_def option.map_comp o_def)
      then have "same_ids p q" using ih(1) by (rule same_ids_trans)
      moreover have "waiters q = waiters p" "asleep q = asleep p" using ih by (simp_all add: p1_def)
      moreover have "wq_of q b = filter (\<lambda>e. \<not> (\<exists>j<length (w # ws). e = (t, i + j) \<and> event ((w # ws) ! j) = Ev b)) (wq_of p b)" for b
        unfolding split ih(4) wq1 using remove1_filter [OF "2.prems"(2) [of a]] Ev by (auto simp: intro!: filter_cong)
      ultimately show ?thesis by blast
    qed
  qed
  then show "same_ids p q" "waiters q = waiters p" "asleep q = asleep p"
    "wq_of q b = filter (\<lambda>e. \<not> (\<exists>j<length ws. e = (t, i + j) \<and> event (ws ! j) = Ev b)) (wq_of p b)"
    by blast+
qed

text \<open>All threads but \<open>t\<close> have their waiters in order.\<close>

definition others_ok :: "nat \<Rightarrow> ev_process \<Rightarrow> bool" where
  "others_ok t p \<longleftrightarrow> inv_queues p \<and> (\<forall>t' i. t' \<noteq> t \<and> i < length (waiters p t') \<longrightarrow> waiter_ok p t' i)"

lemma free_waiters_spec:
  assumes "free_waiters t p = Some q" and "others_ok t p"
  shows "same_ids p q" "waiters q = (waiters p)(t := [])" "asleep q = asleep p" "inv_wait q"
proof -
  obtain r where r: "free_waiter_list t 0 (waiters p t) p = Some r" and q: "q = r\<lparr>waiters := (waiters r)(t := [])\<rparr>"
    using assms(1) by (auto simp: free_waiters_def)
  have iq: "inv_queues p" using assms(2) by (simp add: others_ok_def)
  then have "\<And>b. distinct (wq_of p b)" by (simp add: inv_queues_def)
  note spec = free_waiter_list_spec [OF r this]
  show "same_ids p q" "asleep q = asleep p" using spec(1-3) by (auto simp: q same_ids_def)
  show wt: "waiters q = (waiters p)(t := [])" using spec(2) by (simp add: q)
  have wq: "wq_of q b = filter (\<lambda>e. fst e \<noteq> t) (wq_of p b)" for b
  proof -
    have "(\<exists>j<length (waiters p t). e = (t, 0 + j) \<and> event (waiters p t ! j) = Ev b) \<longleftrightarrow> fst e = t" if "e \<in> set (wq_of p b)" for e
      using iq that by (cases e) (auto simp: inv_queues_def)
    moreover have "wq_of q b = wq_of r b" by (simp add: q wq_of_def)
    ultimately show ?thesis by (simp add: spec(4) cong: filter_cong)
  qed
  have "inv_queues q"
    using iq by (auto simp: inv_queues_def wq wt)
  moreover have "waiter_ok q t' i" if "i < length (waiters q t')" for t' i
    using that assms(2) by (auto simp: others_ok_def waiter_ok_def Let_def wq wt split: if_splits)
  ultimately show "inv_wait q" by (simp add: inv_wait_def)
qed

section \<open>Entering\<close>

text \<open>Only the waiters of thread \<open>t\<close> change, and flags of events.\<close>

definition inits :: "nat \<Rightarrow> ev_process \<Rightarrow> ev_process \<Rightarrow> bool" where
  "inits t p q \<longleftrightarrow> same_ids p q \<and> (\<forall>b. wq_of q b = wq_of p b) \<and> asleep q = asleep p \<and>
     (\<forall>t'. t' \<noteq> t \<longrightarrow> waiters q t' = waiters p t') \<and> length (waiters q t) = length (waiters p t)"

lemma inits_trans: "inits t p q \<Longrightarrow> inits t q r \<Longrightarrow> inits t p r"
  using same_ids_trans by (auto simp: inits_def)

lemma init_event_waiter_get_status_spec:
  assumes "init_event_waiter_get_status t i eid p = (r, q)"
  shows "inits t p q" "\<And>j. j \<noteq> i \<Longrightarrow> waiters q t ! j = waiters p t ! j"
    "r = 0 \<Longrightarrow> i < length (waiters p t) \<Longrightarrow> \<exists>a. event (waiters q t ! i) = Ev a \<and> a \<in> dom (ev_mem q)"
proof -
  consider "r \<noteq> 0" "q = p" | a ev where "r = 0" "ev_mem p a = Some ev"
    "q = upd_ev a (\<lambda>ev. ev\<lparr>signaled := signaled ev \<and> \<not> auto_reset ev\<rparr>) (upd_waiter (\<lambda>w. \<lparr>event = Ev a, activated = signaled ev\<rparr>) (t, i) p)"
  proof (cases "lookup_event_by_id p eid")
    case None
    then show ?thesis using assms that(1) by (simp add: init_event_waiter_get_status_def)
  next
    case (Some a)
    show ?thesis
    proof (cases "ev_mem p a")
      case None
      then show ?thesis using assms that(1) Some by (simp add: init_event_waiter_get_status_def)
    next
      case (Some ev)
      then show ?thesis using assms that(2) [of a ev] \<open>lookup_event_by_id p eid = Some a\<close>
        by (simp add: init_event_waiter_get_status_def del: fun_upd_apply)
    qed
  qed
  note cs = this
  show "inits t p q" using cs
  proof cases
    case (2 a ev)
    have "same_ids p q" using 2(2) by (auto simp: 2(3) same_ids_def)
    moreover have "wq_of q b = wq_of p b" for b using 2(2) by (simp add: 2(3) wq_of_def)
    moreover have "waiters q t' = waiters p t'" if "t' \<noteq> t" for t' using that by (simp add: 2(3) upd_waiter_def)
    ultimately show ?thesis by (simp add: inits_def 2(3))
  qed (simp add: inits_def same_ids_def)
  show "waiters q t ! j = waiters p t ! j" if "j \<noteq> i" for j
    using cs that by cases (simp_all add: upd_waiter_def)
  show "\<exists>a. event (waiters q t ! i) = Ev a \<and> a \<in> dom (ev_mem q)" if "r = 0" "i < length (waiters p t)"
    using cs that by cases (auto simp: upd_waiter_def)
qed

lemma init_event_waiters_spec:
  assumes "init_event_waiters t i es p = (r, q)" and "i + length es \<le> length (waiters p t)"
  shows "inits t p q" "\<And>j. j < i \<Longrightarrow> waiters q t ! j = waiters p t ! j"
    "r = 0 \<Longrightarrow> \<forall>j. i \<le> j \<and> j < i + length es \<longrightarrow> (\<exists>a. event (waiters q t ! j) = Ev a \<and> a \<in> dom (ev_mem q))"
proof -
  have "inits t p q \<and> (\<forall>j<i. waiters q t ! j = waiters p t ! j) \<and>
    (r = 0 \<longrightarrow> (\<forall>j. i \<le> j \<and> j < i + length es \<longrightarrow> (\<exists>a. event (waiters q t ! j) = Ev a \<and> a \<in> dom (ev_mem q))))"
    using assms
  proof (induction t i es p rule: init_event_waiters.induct)
    case (3 t i eid es p)
    obtain r1 p1 where g: "init_event_waiter_get_status t i eid p = (r1, p1)" by fastforce
    note gs = init_event_waiter_get_status_spec [OF g]
    show ?case
    proof (cases "r1 = 0")
      case False
      then have "r = r1" "q = p1" using "3.prems"(1) g by simp_all
      then show ?thesis using gs False by auto
    next
      case True
      then have f: "init_event_waiters t (Suc i) es p1 = (r, q)" using "3.prems"(1) g by simp
      have len: "Suc i + length es \<le> length (waiters p1 t)" using gs(1) "3.prems"(2) by (simp add: inits_def)
      have ih: "inits t p1 q" "\<forall>j<Suc i. waiters q t ! j = waiters p1 t ! j"
        "r = 0 \<longrightarrow> (\<forall>j. Suc i \<le> j \<and> j < Suc i + length es \<longrightarrow> (\<exists>a. event (waiters q t ! j) = Ev a \<and> a \<in> dom (ev_mem q)))"
        using "3.IH" [OF g [symmetric] _ f len] True by auto
      have "\<exists>a. event (waiters p1 t ! i) = Ev a \<and> a \<in> dom (ev_mem p1)" using gs(3) True "3.prems"(2) by simp
      then have "\<exists>a. event (waiters q t ! i) = Ev a \<and> a \<in> dom (ev_mem q)"
        using ih(1,2) same_ids_dom [of p1 q] by (auto simp: inits_def)
      then have "\<exists>a. event (waiters q t ! j) = Ev a \<and> a \<in> dom (ev_mem q)" if "r = 0" "i \<le> j" "j < i + length (Some eid # es)" for j
        using ih(3) that by (cases "j = i") auto
      then show ?thesis using ih(2) inits_trans [OF gs(1) ih(1)] gs(2) by auto
    qed
  qed (auto simp: inits_def same_ids_def)
  then show "inits t p q" "\<And>j. j < i \<Longrightarrow> waiters q t ! j = waiters p t ! j"
    "r = 0 \<Longrightarrow> \<forall>j. i \<le> j \<and> j < i + length es \<longrightarrow> (\<exists>a. event (waiters q t ! j) = Ev a \<and> a \<in> dom (ev_mem q))"
    by blast+
qed

lemma add_to_waitlist_spec:
  assumes "\<forall>j<n. \<forall>b. event (waiters p t ! j) = Ev b \<longrightarrow> b \<in> dom (ev_mem p)"
  shows "same_ids p (fold (init_event_waiter_add_to_waitlist t) [0..<n] p)"
    "waiters (fold (init_event_waiter_add_to_waitlist t) [0..<n] p) = waiters p"
    "asleep (fold (init_event_waiter_add_to_waitlist t) [0..<n] p) = asleep p"
    "wq_of (fold (init_event_waiter_add_to_waitlist t) [0..<n] p) b =
       map (Pair t) (rev (filter (\<lambda>j. \<not> activated (waiters p t ! j) \<and> event (waiters p t ! j) = Ev b) [0..<n])) @ wq_of p b"
proof -
  define F where "F n = fold (init_event_waiter_add_to_waitlist t) [0..<n] p" for n
  have "same_ids p (F n) \<and> waiters (F n) = waiters p \<and> asleep (F n) = asleep p \<and> (\<forall>b. wq_of (F n) b =
       map (Pair t) (rev (filter (\<lambda>j. \<not> activated (waiters p t ! j) \<and> event (waiters p t ! j) = Ev b) [0..<n])) @ wq_of p b)"
    using assms
  proof (induction n)
    case 0
    then show ?case by (simp add: F_def same_ids_def)
  next
    case (Suc n)
    have "same_ids p (F n) \<and> waiters (F n) = waiters p \<and> asleep (F n) = asleep p \<and> (\<forall>b. wq_of (F n) b =
       map (Pair t) (rev (filter (\<lambda>j. \<not> activated (waiters p t ! j) \<and> event (waiters p t ! j) = Ev b) [0..<n])) @ wq_of p b)"
      using Suc.prems by (intro Suc.IH) (simp add: less_Suc_eq)
    then have ih: "same_ids p (F n)" "waiters (F n) = waiters p" "asleep (F n) = asleep p"
      "\<And>b. wq_of (F n) b = map (Pair t) (rev (filter (\<lambda>j. \<not> activated (waiters p t ! j) \<and> event (waiters p t ! j) = Ev b) [0..<n])) @ wq_of p b"
      by blast+
    have step: "F (Suc n) = init_event_waiter_add_to_waitlist t n (F n)" by (simp add: F_def)
    show ?case
    proof (cases "\<not> activated (waiters p t ! n) \<and> (\<exists>a. event (waiters p t ! n) = Ev a)")
      case True
      then obtain a where a: "\<not> activated (waiters p t ! n)" "event (waiters p t ! n) = Ev a" by blast
      then have u: "F (Suc n) = upd_ev a (\<lambda>ev. ev\<lparr>wq := (t, n) # wq ev\<rparr>) (F n)"
        by (simp add: step init_event_waiter_add_to_waitlist_def ih(2))
      have "a \<in> dom (ev_mem (F n))" using Suc.prems [rule_format, OF lessI a(2)] same_ids_dom [OF ih(1)] by blast
      then have "wq_of (F (Suc n)) b = (if b = a then (t, n) # wq_of (F n) a else wq_of (F n) b)" for b
        by (auto simp: u wq_of_def)
      moreover have "same_ids (F n) (F (Suc n))" by (simp add: same_ids_def u option.map_comp o_def)
      ultimately show ?thesis using ih same_ids_trans [OF ih(1)] a by (auto simp: u)
    next
      case False
      then have "F (Suc n) = F n"
        by (auto simp: step init_event_waiter_add_to_waitlist_def ih(2) Let_def split: event_ptr.splits)
      then show ?thesis using ih False by auto
    qed
  qed
  then show "same_ids p (fold (init_event_waiter_add_to_waitlist t) [0..<n] p)"
    "waiters (fold (init_event_waiter_add_to_waitlist t) [0..<n] p) = waiters p"
    "asleep (fold (init_event_waiter_add_to_waitlist t) [0..<n] p) = asleep p"
    "wq_of (fold (init_event_waiter_add_to_waitlist t) [0..<n] p) b =
       map (Pair t) (rev (filter (\<lambda>j. \<not> activated (waiters p t ! j) \<and> event (waiters p t ! j) = Ev b) [0..<n])) @ wq_of p b"
    by (simp_all add: F_def)
qed

definition no_entries :: "nat \<Rightarrow> ev_process \<Rightarrow> bool" where
  "no_entries t p \<longleftrightarrow> (\<forall>b i. (t, i) \<notin> set (wq_of p b))"

lemma inits_others:
  assumes "others_ok t p" and "no_entries t p" and "inits t p q"
  shows "others_ok t q" "no_entries t q"
proof -
  have w: "wq_of q b = wq_of p b" "t' \<noteq> t \<Longrightarrow> waiters q t' = waiters p t'" for b t' using assms(3) by (simp_all add: inits_def)
  show "no_entries t q" using assms(2) by (simp add: no_entries_def w)
  have "inv_queues q" unfolding inv_queues_def
  proof (intro allI conjI impI)
    fix b t' i
    have iq: "inv_queues p" using assms(1) by (simp add: others_ok_def)
    then show "distinct (wq_of q b)" by (simp add: inv_queues_def w)
    assume e: "(t', i) \<in> set (wq_of q b)"
    then have "t' \<noteq> t" using assms(2) by (auto simp: no_entries_def w)
    then show "i < length (waiters q t')" "event (waiters q t' ! i) = Ev b" using iq e by (simp_all add: inv_queues_def w)
  qed
  moreover have "waiter_ok q t' i" if "t' \<noteq> t" "i < length (waiters q t')" for t' i
    using assms(1) that(2) unfolding w(2) [OF that(1)] by (simp add: that(1) others_ok_def waiter_ok_def w)
  ultimately show "others_ok t q" by (simp add: others_ok_def)
qed

lemma alloc_event_waiters_spec:
  assumes "inv_wait p" and "waiters p t = []"
  shows "others_ok t (alloc_event_waiters t n p)" "no_entries t (alloc_event_waiters t n p)" "same_ids p (alloc_event_waiters t n p)"
    "asleep (alloc_event_waiters t n p) = asleep p" "length (waiters (alloc_event_waiters t n p) t) = n"
    "t' \<noteq> t \<Longrightarrow> waiters (alloc_event_waiters t n p) t' = waiters p t'"
proof -
  let ?q = "alloc_event_waiters t n p"
  have w: "wq_of ?q b = wq_of p b" for b by (simp add: alloc_event_waiters_def wq_of_def)
  have wt: "t' \<noteq> t \<Longrightarrow> waiters ?q t' = waiters p t'" for t' by (simp add: alloc_event_waiters_def)
  have n: "(t, i) \<notin> set (wq_of p b)" for b i using assms by (force simp: inv_wait_def inv_queues_def)
  then show "no_entries t ?q" by (simp add: no_entries_def w)
  have "inv_queues ?q" unfolding inv_queues_def
  proof (intro allI conjI impI)
    fix b t' i
    have iq: "inv_queues p" using assms(1) by (simp add: inv_wait_def)
    then show "distinct (wq_of ?q b)" by (simp add: inv_queues_def w)
    assume e: "(t', i) \<in> set (wq_of ?q b)"
    then have "t' \<noteq> t" using n by (auto simp: w)
    then show "i < length (waiters ?q t')" "event (waiters ?q t' ! i) = Ev b" using iq e by (simp_all add: inv_queues_def w wt)
  qed
  moreover have "waiter_ok ?q t' i" if "t' \<noteq> t" "i < length (waiters ?q t')" for t' i
    using assms(1) that(2) unfolding wt [OF that(1)] by (simp add: that(1) inv_wait_def waiter_ok_def w wt)
  ultimately show "others_ok t ?q" by (simp add: others_ok_def)
  show "same_ids p ?q" "asleep ?q = asleep p" "length (waiters ?q t) = n" "t' \<noteq> t \<Longrightarrow> waiters ?q t' = waiters p t'"
    by (simp_all add: alloc_event_waiters_def same_ids_def)
qed

lemma add_to_waitlist_inv_wait:
  assumes "others_ok t p" and "no_entries t p"
    and "\<forall>j<length (waiters p t). \<exists>a. event (waiters p t ! j) = Ev a \<and> a \<in> dom (ev_mem p)"
  shows "inv_wait (fold (init_event_waiter_add_to_waitlist t) [0..<length (waiters p t)] p)"
proof -
  let ?n = "length (waiters p t)"
  define q where "q = fold (init_event_waiter_add_to_waitlist t) [0..<?n] p"
  have "\<forall>j<?n. \<forall>b. event (waiters p t ! j) = Ev b \<longrightarrow> b \<in> dom (ev_mem p)" using assms(3) by auto
  note s = add_to_waitlist_spec [OF this, folded q_def]
  have set: "set (wq_of q b) = {(t, j) |j. j < ?n \<and> \<not> activated (waiters p t ! j) \<and> event (waiters p t ! j) = Ev b} \<union> set (wq_of p b)" for b
    by (auto simp: s(4))
  have "inv_queues q" unfolding inv_queues_def
  proof (intro allI conjI impI)
    fix b t' i
    show "distinct (wq_of q b)" using assms(1,2)
      by (auto simp: s(4) others_ok_def inv_queues_def no_entries_def distinct_map inj_on_def)
    assume "(t', i) \<in> set (wq_of q b)"
    then show "i < length (waiters q t')" "event (waiters q t' ! i) = Ev b"
      using assms(1) unfolding set by (auto simp: others_ok_def inv_queues_def s(2))
  qed
  moreover have "waiter_ok q t' i" if i: "i < length (waiters q t')" for t' i
  proof (cases "t' = t")
    case True
    then obtain a where "event (waiters p t ! i) = Ev a" using assms(3) i by (auto simp: s(2))
    then show ?thesis using i True by (auto simp: waiter_ok_def Let_def s(2) set)
  next
    case False
    then have "waiter_ok p t' i" using assms(1) i by (simp add: others_ok_def s(2))
    then show ?thesis by (auto simp: waiter_ok_def Let_def s(2) set)
  qed
  ultimately show ?thesis by (simp add: inv_wait_def q_def)
qed

text \<open>What \<open>wait_begin\<close> does to the state of thread \<open>t\<close> and leaves of the others.\<close>

lemma wait_begin_spec:
  assumes "ev_inv p" and "waiters p t = []" and "wait_begin m c t es all' p = Some (st, q)"
  shows "ev_inv q" "asleep q = asleep p" "\<And>t'. t' \<noteq> t \<Longrightarrow> waiters q t' = waiters p t'" "st \<noteq> Waiting \<Longrightarrow> waiters q t = []"
proof -
  define p0 where "p0 = alloc_event_waiters t (length es) p"
  obtain r p1 where r: "init_event_waiters t 0 es p0 = (r, p1)" by fastforce
  have iw: "inv_wait p" using assms(1) by (simp add: ev_inv_def)
  note a = alloc_event_waiters_spec [where n = "length es", OF iw assms(2), folded p0_def]
  note i = init_event_waiters_spec [OF r, unfolded a(5), simplified]
  note o = inits_others [OF a(1,2) i(1)]
  have p1: "same_ids p p1" "asleep p1 = asleep p" "\<And>t'. t' \<noteq> t \<Longrightarrow> waiters p1 t' = waiters p t'" "length (waiters p1 t) = length es"
    using i(1) a same_ids_trans [OF a(3)] by (simp_all add: inits_def)
  define q2 where "q2 = fold (init_event_waiter_add_to_waitlist t) [0..<length es] p1"
  consider "q = p" "waiters q t = []" | "free_waiters t p1 = Some q" | "st = Waiting" "r = 0" "q = q2"
    using assms(2,3) r unfolding wait_begin_def Let_def p0_def [symmetric] q2_def
    by (auto split: if_splits option.splits)
  note cs = this
  have fr: "ev_inv q" "asleep q = asleep p" "\<And>t'. t' \<noteq> t \<Longrightarrow> waiters q t' = waiters p t'" "waiters q t = []" if "free_waiters t p1 = Some q"
    using free_waiters_spec [OF that o(1)] p1 same_ids_inv [of p q] same_ids_trans [OF p1(1)] assms(1) by (simp_all add: ev_inv_def)
  have wt: "ev_inv q2" "asleep q2 = asleep p" "\<And>t'. t' \<noteq> t \<Longrightarrow> waiters q2 t' = waiters p t'" if "r = 0"
  proof -
    have d: "\<forall>j<length (waiters p1 t). \<exists>a. event (waiters p1 t ! j) = Ev a \<and> a \<in> dom (ev_mem p1)"
      using i(3) that p1(4) by simp
    then have "\<forall>j<length es. \<forall>b. event (waiters p1 t ! j) = Ev b \<longrightarrow> b \<in> dom (ev_mem p1)" using p1(4) by auto
    note s = add_to_waitlist_spec [OF this, folded q2_def]
    have "inv_wait q2" using add_to_waitlist_inv_wait [OF o d] by (simp add: q2_def p1(4))
    then show "ev_inv q2" "asleep q2 = asleep p" "\<And>t'. t' \<noteq> t \<Longrightarrow> waiters q2 t' = waiters p t'"
      using s p1 same_ids_inv [of p q2] same_ids_trans [OF p1(1) s(1)] assms(1) by (simp_all add: ev_inv_def)
  qed
  show "ev_inv q" "asleep q = asleep p" "\<And>t'. t' \<noteq> t \<Longrightarrow> waiters q t' = waiters p t'" "st \<noteq> Waiting \<Longrightarrow> waiters q t = []"
    using cs by (cases; use fr wt assms(1) in auto)+
qed

lemma wait_end_spec:
  assumes "ev_inv p" and "wait_end c t rr p = Some (res, q)"
  shows "ev_inv q" "asleep q = asleep p" "waiters q = (waiters p)(t := [])"
proof -
  have "free_waiters t p = Some q" using assms(2) by (auto simp: wait_end_def split: prod.splits option.splits)
  moreover have "others_ok t p" using assms(1) by (simp add: ev_inv_def others_ok_def inv_wait_def)
  ultimately show "ev_inv q" "asleep q = asleep p" "waiters q = (waiters p)(t := [])"
    using free_waiters_spec same_ids_inv [of p q] assms(1) by (simp_all add: ev_inv_def)
qed

lemma ev_inv_asleep [simp]: "ev_inv (p\<lparr>asleep := s\<rparr>) = ev_inv p"
proof -
  have "inv_wait (p\<lparr>asleep := s\<rparr>) = inv_wait p" by (intro inv_wait_cong) (simp_all add: wq_of_def)
  then show ?thesis by (simp add: ev_inv_def inv_idr_def event_at_def inv_page_def)
qed

section \<open>Reachable states\<close>

text \<open>Where a thread is in \<open>opu_wait_on_events\<close>: not in it, before the signal checks of the loop, after
  its state change, after a test that told it to sleep, or past the loop.\<close>

datatype phase = Idle | Looping bool | Prepared bool | Blocked bool | Leaving "int \<times> wait_result"

text \<open>The operations on a process, in any order and on behalf of any thread. A page given by the user
  and a mapping have room for a slot at least, and a new event is at a free address. A thread comes
  back from \<open>schedule_timeout\<close> with its state set to running.\<close>

inductive ev_reach :: "ev_process \<Rightarrow> (nat \<Rightarrow> phase) \<Rightarrow> bool" where
  init: "ev_mem p = Map.empty \<Longrightarrow> waiters p = (\<lambda>_. []) \<Longrightarrow> ev_reach (opu_event_init_process p) (\<lambda>_. Idle)"
| create: "ev_reach p ph \<Longrightarrow> new_event al \<notin> Some ` dom (ev_mem p) \<Longrightarrow> opu_event_create al ty ar p = (r, out, q) \<Longrightarrow> ev_reach q ph"
| destroy: "ev_reach p ph \<Longrightarrow> opu_event_destroy i p = (r, q) \<Longrightarrow> ev_reach q ph"
| set: "ev_reach p ph \<Longrightarrow> opu_set_event i p = (r, q) \<Longrightarrow> ev_reach q ph"
| reset: "ev_reach p ph \<Longrightarrow> opu_reset_event i p = (r, q) \<Longrightarrow> ev_reach q ph"
| page: "ev_reach p ph \<Longrightarrow> 8 \<le> sz \<Longrightarrow> sz \<le> 0x200000000 \<Longrightarrow> opu_event_page_set m buf sz p = (r, q) \<Longrightarrow> ev_reach q ph"
| mmap: "ev_reach p ph \<Longrightarrow> 8 \<le> e - s \<Longrightarrow> opu_event_mmap x s e p = (r, q) \<Longrightarrow> ev_reach q ph"
| gpu: "ev_reach p ph \<Longrightarrow> opu_signal_event_interrupt i bits (Some p) = Some q \<Longrightarrow> ev_reach q ph"
| slot: "ev_reach p ph \<Longrightarrow> ev_reach (set_slot i v p) ph"
| iommu: "ev_reach p ph \<Longrightarrow> opu_signal_iommu_event st dev addr w x mm vma (Some p) = Some q \<Longrightarrow> ev_reach q ph"
| hw: "ev_reach p ph \<Longrightarrow> opu_signal_hw_exception_event st (Some p) = Some q \<Longrightarrow> ev_reach q ph"
| vm: "ev_reach p ph \<Longrightarrow> opu_signal_vm_fault_event dev info (Some p) = Some q \<Longrightarrow> ev_reach q ph"
| gpu_reset: "ev_reach p ph \<Longrightarrow> opu_signal_reset_event dev ecc [p] = [q] \<Longrightarrow> ev_reach q ph"
| poison: "ev_reach p ph \<Longrightarrow> opu_signal_poison_consumed_event dev (Some p) = Some q \<Longrightarrow> ev_reach q ph"
| enter: "ev_reach p ph \<Longrightarrow> ph t = Idle \<Longrightarrow> wait_begin m c t es all' p = Some (Waiting, q) \<Longrightarrow> ev_reach q (ph(t := Looping all'))"
| enter_out: "ev_reach p ph \<Longrightarrow> ph t = Idle \<Longrightarrow> wait_begin m c t es all' p = Some (Finished res, q) \<Longrightarrow> ev_reach q ph"
| prepare: "ev_reach p ph \<Longrightarrow> ph t = Looping all' \<Longrightarrow> wait_prepare fatal pend t p = (None, q) \<Longrightarrow> ev_reach q (ph(t := Prepared all'))"
| interrupted: "ev_reach p ph \<Longrightarrow> ph t = Looping all' \<Longrightarrow> wait_prepare fatal pend t p = (Some r, q) \<Longrightarrow>
    ev_reach q (ph(t := Leaving (r, OPU_IOC_WAIT_RESULT_TIMEOUT)))"
| block: "ev_reach p ph \<Longrightarrow> ph t = Prepared all' \<Longrightarrow> wait_test all' timeout t p = (None, q) \<Longrightarrow> ev_reach q (ph(t := Blocked all'))"
| result: "ev_reach p ph \<Longrightarrow> ph t = Prepared all' \<Longrightarrow> wait_test all' timeout t p = (Some res, q) \<Longrightarrow> ev_reach q (ph(t := Leaving (0, res)))"
| resume: "ev_reach p ph \<Longrightarrow> ph t = Blocked all' \<Longrightarrow> ev_reach (p\<lparr>asleep := (asleep p)(t := False)\<rparr>) (ph(t := Looping all'))"
| leave: "ev_reach p ph \<Longrightarrow> ph t = Leaving rr \<Longrightarrow> wait_end c t rr p = Some (res, q) \<Longrightarrow> ev_reach q (ph(t := Idle))"

text \<open>A thread not in \<open>opu_wait_on_events\<close> has no waiters, and the condition of a thread that sleeps in
  \<open>schedule_timeout\<close> does not hold.\<close>

definition inv_phase :: "ev_process \<Rightarrow> (nat \<Rightarrow> phase) \<Rightarrow> bool" where
  "inv_phase p ph \<longleftrightarrow> (\<forall>t. (ph t = Idle \<longrightarrow> waiters p t = []) \<and>
     (\<forall>all'. ph t = Blocked all' \<longrightarrow> asleep p t \<longrightarrow> test_event_condition all' (waiters p t) = OPU_IOC_WAIT_RESULT_TIMEOUT))"

lemma inv_phase_woken: "woken p q \<Longrightarrow> inv_phase p ph \<Longrightarrow> inv_phase q ph"
  unfolding inv_phase_def woken_def by (metis length_0_conv)

lemma inv_phase_upd:
  assumes "inv_phase p ph" and "\<And>t'. t' \<noteq> t \<Longrightarrow> waiters q t' = waiters p t' \<and> (asleep q t' \<longrightarrow> asleep p t')"
    and "x = Idle \<Longrightarrow> waiters q t = []"
    and "\<And>all'. x = Blocked all' \<Longrightarrow> asleep q t \<Longrightarrow> test_event_condition all' (waiters q t) = OPU_IOC_WAIT_RESULT_TIMEOUT"
  shows "inv_phase q (ph(t := x))"
  using assms by (auto simp: inv_phase_def)

definition sys_inv :: "ev_process \<Rightarrow> (nat \<Rightarrow> phase) \<Rightarrow> bool" where
  "sys_inv p ph \<longleftrightarrow> ev_inv p \<and> inv_phase p ph"

lemma sys_inv_keeps: "sys_inv p ph \<Longrightarrow> keeps p q \<Longrightarrow> sys_inv q ph"
  using keeps_inv inv_phase_woken by (auto simp: sys_inv_def keeps_def)

lemma sys_inv_frame: "sys_inv p ph \<Longrightarrow> ev_inv q \<Longrightarrow> waiters q = waiters p \<Longrightarrow> asleep q = asleep p \<Longrightarrow> sys_inv q ph"
  by (simp add: sys_inv_def inv_phase_def)

lemma sys_inv_init:
  assumes "ev_mem p = Map.empty" and "waiters p = (\<lambda>_. [])"
  shows "sys_inv (opu_event_init_process p) (\<lambda>_. Idle)"
  using assms by (simp add: sys_inv_def inv_phase_def opu_event_init_process_def ev_inv_def inv_idr_def idr_ok_def inv_page_def
      inv_wait_def inv_queues_def wq_of_def)

lemma sys_inv_create:
  assumes "sys_inv p ph" and "new_event al \<notin> Some ` dom (ev_mem p)" and "opu_event_create al ty ar p = (r, out, q)"
  shows "sys_inv q ph"
proof -
  have i: "ev_inv p" "inv_page p" using assms(1) by (simp_all add: sys_inv_def ev_inv_def)
  from assms(3) i(2) assms(2) have "waiters q = waiters p \<and> asleep q = asleep p"
    by (cases rule: opu_event_create_cases) (auto simp: paged_def)
  then show ?thesis using sys_inv_frame assms(1) opu_event_create_inv [OF i(1) assms(2,3)] by blast
qed

lemma sys_inv_destroy:
  assumes "sys_inv p ph" and "opu_event_destroy i p = (r, q)"
  shows "sys_inv q ph"
proof -
  have "q = p \<or> (\<exists>a. q = destroy_event a p)" using assms(2) by (auto simp: opu_event_destroy_def split: option.splits)
  then show ?thesis
    using assms(1) destroy_event_inv inv_phase_woken [OF destroy_event_woken] by (auto simp: sys_inv_def)
qed

lemma sys_inv_enter:
  assumes "sys_inv p ph" and "ph t = Idle" and "wait_begin m c t es all' p = Some (st, q)"
    and "x = (case st of Waiting \<Rightarrow> Looping all' | Finished _ \<Rightarrow> Idle)"
  shows "sys_inv q (ph(t := x))"
proof -
  have e: "ev_inv p" "waiters p t = []" and ip: "inv_phase p ph" using assms(1,2) by (simp_all add: sys_inv_def inv_phase_def)
  note s = wait_begin_spec [OF e assms(3)]
  have "inv_phase q (ph(t := x))"
    by (rule inv_phase_upd [OF ip]) (use s assms(4) in \<open>auto split: wait_status.splits\<close>)
  then show ?thesis using s(1) by (simp add: sys_inv_def)
qed

lemma sys_inv_asleep:
  assumes "sys_inv p ph" and "x \<noteq> Idle"
    and "\<And>all'. x = Blocked all' \<Longrightarrow> test_event_condition all' (waiters p t) = OPU_IOC_WAIT_RESULT_TIMEOUT"
  shows "sys_inv (p\<lparr>asleep := (asleep p)(t := b)\<rparr>) (ph(t := x))" "sys_inv p (ph(t := x))"
  using assms by (auto simp: sys_inv_def intro: inv_phase_upd)

lemma sys_inv_leave:
  assumes "sys_inv p ph" and "wait_end c t rr p = Some (res, q)"
  shows "sys_inv q (ph(t := Idle))"
proof -
  have e: "ev_inv p" and ip: "inv_phase p ph" using assms(1) by (simp_all add: sys_inv_def)
  note s = wait_end_spec [OF e assms(2)]
  have "inv_phase q (ph(t := Idle))" by (rule inv_phase_upd [OF ip]) (use s in auto)
  then show ?thesis using s(1) by (simp add: sys_inv_def)
qed

lemma ev_reach_inv: "ev_reach p ph \<Longrightarrow> sys_inv p ph"
proof (induction rule: ev_reach.induct)
  case (page p ph sz m buf r q)
  have "waiters q = waiters p" "asleep q = asleep p" using page.hyps(4) by (auto simp: opu_event_page_set_def split: if_splits)
  moreover have "ev_inv q" using opu_event_page_set_inv [of p sz m buf] page by (simp add: sys_inv_def)
  ultimately show ?case using sys_inv_frame [OF page.IH] by blast
next
  case (mmap p ph e s x r q)
  have "waiters q = waiters p" "asleep q = asleep p" using mmap.hyps(3)
    by (auto simp: opu_event_mmap_def Let_def split: if_splits option.splits)
  moreover have "ev_inv q" using opu_event_mmap_inv [of p e s x] mmap by (simp add: sys_inv_def)
  ultimately show ?case using sys_inv_frame [OF mmap.IH] by blast
next
  case (set p ph i r q)
  then show ?case using sys_inv_keeps [OF set.IH keeps_opu_set_event, of i] by simp
next
  case (reset p ph i r q)
  then show ?case using sys_inv_keeps [OF reset.IH keeps_opu_reset_event, of i] by simp
next
  case (gpu_reset p ph dev ecc q)
  then show ?case using sys_inv_keeps keeps_exceptions(5) [of "[p]" dev ecc] by simp
next
  case (enter p ph t m c es all' q)
  then show ?case using sys_inv_enter [of p ph t m c es all' Waiting q] by (simp del: fun_upd_apply)
next
  case (enter_out p ph t m c es all' res q)
  then show ?case using sys_inv_enter [of p ph t m c es all' "Finished res" q] by (simp add: fun_upd_idem)
next
  case (prepare p ph t all' fatal pend q)
  then show ?case using sys_inv_asleep(1) [OF prepare.IH] by (auto simp: wait_prepare_def simp del: fun_upd_apply split: if_splits)
next
  case (interrupted p ph t all' fatal pend r q)
  then show ?case using sys_inv_asleep(1) [OF interrupted.IH] by (auto simp: wait_prepare_def simp del: fun_upd_apply split: if_splits)
next
  case (block p ph t all' timeout q)
  then show ?case using sys_inv_asleep(2) [OF block.IH] by (auto simp: wait_test_def Let_def simp del: fun_upd_apply split: if_splits)
next
  case (result p ph t all' timeout res q)
  then show ?case using sys_inv_asleep(1) [OF result.IH] by (auto simp: wait_test_def Let_def simp del: fun_upd_apply split: if_splits)
qed (blast intro: sys_inv_init sys_inv_create sys_inv_destroy sys_inv_leave sys_inv_asleep(1) sys_inv_keeps
    keeps_signal_event_interrupt keeps_set_slot keeps_exceptions)+

end
