(* ===== verification/Opu_Events_Props.thy ===== *)
theory Opu_Events_Props
  imports Opu_Events_Wait
begin

text \<open>
  What the events of a process promise: the invariant of all reachable states, that no wake-up is lost,
  that the two exhaustive searches of the interrupt handler agree, that the partial id lookup finds the
  first match, and what creating, destroying, signaling and waiting return; and the two ways in which a
  wait uses a pointer that does not point to an event.
\<close>

section \<open>Reachable states\<close>

text \<open>
  C3. In every reachable state, whatever the threads of the process and the device do, the ids and the
  events correspond one to one, the ids of signal events are the small ones and their number is the
  event count; a signal page has room for a slot; every entry of a wait queue is a waiter for that
  event, and every waiter of a thread is activated, or its event was destroyed, or it is in the queue
  of its event, so that a signal reaches it.
\<close>
theorem events_invariant: "ev_reach p ph \<Longrightarrow> ev_inv p"
  using ev_reach_inv by (simp add: sys_inv_def)

definition no_events :: ev_process where
  "no_events = \<lparr>event_idr = [], ev_mem = Map.empty, signal_page = None, signal_mapped_size = 0, signal_event_count = 0,
     signal_event_limit_reached = False, waiters = (\<lambda>_. []), asleep = (\<lambda>_. False), sent_signals = []\<rparr>"

lemma init_no_events: "opu_event_init_process no_events = no_events"
  by (simp add: opu_event_init_process_def no_events_def)

lemma reach_no_events: "ev_reach no_events (\<lambda>_. Idle)"
  using ev_reach.init [of no_events] unfolding init_no_events by (simp add: no_events_def)

definition example_allocs :: "nat \<Rightarrow> allocs" where
  "example_allocs a = \<lparr>new_event = Some a, page_kzalloc = True, page_pages = True, page_garbage = (\<lambda>_. 0), idr_memory = True\<rparr>"

definition one_event :: ev_process where
  "one_event = snd (snd (opu_event_create (example_allocs 5) OPU_EVENT_TYPE_SIGNAL False no_events))"

lemma reach_one_event: "ev_reach one_event (\<lambda>_. Idle)"
proof -
  obtain r out where c: "opu_event_create (example_allocs 5) OPU_EVENT_TYPE_SIGNAL False no_events = (r, out, one_event)"
    unfolding one_event_def by (metis prod.collapse)
  show ?thesis by (rule ev_reach.create [OF reach_no_events _ c]) (simp add: no_events_def)
qed

lemma one_event_sel:
  "event_idr one_event = [(0, 5)]" "signal_event_count one_event = 1"
  by (simp_all add: one_event_def opu_event_create_def example_allocs_def create_signal_event_def
      allocate_event_notification_slot_def allocate_signal_page_def idr_alloc_def no_events_def Let_def)

theorem events_invariant_witness: "ev_inv one_event \<and> event_idr one_event = [(0, 5)] \<and> signal_event_count one_event = 1"
  using events_invariant [OF reach_one_event] one_event_sel by simp

text \<open>
  C4. No wake-up is lost: a thread that sleeps in the wake-up loop of \<open>opu_wait_on_events\<close>, that is,
  that was told to sleep by a test and whose state is still the sleeping one, waits for a condition that
  does not hold now. Whenever a signal or the destruction of an event completes its condition or makes
  it fail, also between the test and the call of \<open>schedule_timeout\<close>, it is woken.
\<close>
theorem no_lost_wakeup:
  "ev_reach p ph \<Longrightarrow> ph t = Blocked all' \<Longrightarrow> asleep p t \<Longrightarrow>
   test_event_condition all' (waiters p t) = OPU_IOC_WAIT_RESULT_TIMEOUT"
  using ev_reach_inv by (auto simp: sys_inv_def inv_phase_def)

text \<open>Two signal events at addresses 5 and 6 with ids 0 and 1, and thread 2.\<close>

definition example_event :: "nat \<Rightarrow> (nat \<times> nat) list \<Rightarrow> bool \<Rightarrow> opu_event" where
  "example_event i q s = zero_event\<lparr>event_id := of_nat i, wq := q, signaled := s, user_signal_address := 8 * of_nat i\<rparr>"

definition example_state ::
  "(nat \<times> nat) list \<Rightarrow> opu_event option \<Rightarrow> opu_event \<Rightarrow> opu_event_waiter list \<Rightarrow> bool \<Rightarrow> ev_process" where
  "example_state idr a b ws sl = \<lparr>event_idr = idr, ev_mem = (\<lambda>x. if x = 5 then a else if x = 6 then Some b else None),
     signal_page = Some \<lparr>slots = (\<lambda>i. if i < OPU_SIGNAL_EVENT_LIMIT then UNSIGNALED_EVENT_SLOT else 0), user_address = 0, need_to_free_pages = True\<rparr>,
     signal_mapped_size = 2048, signal_event_count = of_nat (length idr),
     signal_event_limit_reached = False, waiters = (\<lambda>t. if t = 2 then ws else []), asleep = (\<lambda>t. t = 2 \<and> sl), sent_signals = []\<rparr>"

abbreviation both_events :: "(nat \<times> nat) list \<Rightarrow> (nat \<times> nat) list \<Rightarrow> bool \<Rightarrow> opu_event_waiter list \<Rightarrow> bool \<Rightarrow> ev_process" where
  "both_events qa qb s ws sl \<equiv> example_state [(0, 5), (1, 6)] (Some (example_event 0 qa s)) (example_event 1 qb False) ws sl"

abbreviation event_b :: "(nat \<times> nat) list \<Rightarrow> bool \<Rightarrow> opu_event_waiter list \<Rightarrow> bool \<Rightarrow> ev_process" where
  "event_b qb s ws sl \<equiv> example_state [(1, 6)] None (example_event 1 qb s) ws sl"

abbreviation both_waiters :: "bool \<Rightarrow> bool \<Rightarrow> opu_event_waiter list" where
  "both_waiters x y \<equiv> [\<lparr>event = Ev 5, activated = x\<rparr>, \<lparr>event = Ev 6, activated = y\<rparr>]"

lemma reach_two_events: "ev_reach (both_events [] [] False [] False) (\<lambda>_. Idle)"
proof -
  have "opu_event_create (example_allocs 6) OPU_EVENT_TYPE_SIGNAL False one_event =
      (0, Some (1, OPU_MMAP_TYPE_EVENTS, Some 1), both_events [] [] False [] False)"
    by (simp add: one_event_def opu_event_create_def example_allocs_def create_signal_event_def fun_eq_iff
      allocate_event_notification_slot_def allocate_signal_page_def idr_alloc_def no_events_def Let_def
      example_state_def example_event_def zero_event_def upd_ev_def set_slot_def)
  then show ?thesis by (rule ev_reach.create [OF reach_one_event, rotated])
    (simp add: one_event_def opu_event_create_def example_allocs_def create_signal_event_def
      allocate_event_notification_slot_def allocate_signal_page_def idr_alloc_def no_events_def Let_def)
qed

lemma example_wait_begin:
  "wait_begin True c 2 [Some 0, Some 1] True (both_events [] [] False [] False) =
     Some (Waiting, both_events [(2, 0)] [(2, Suc 0)] False (both_waiters False False) False)"
  by (simp add: wait_begin_def alloc_event_waiters_def init_event_waiter_get_status_def lookup_event_by_id_def idr_find_def
      example_state_def example_event_def zero_event_def upd_ev_def upd_waiter_def test_event_condition_def fun_eq_iff
      init_event_waiter_add_to_waitlist_def)

lemmas example_defs = example_state_def example_event_def zero_event_def upd_ev_def upd_waiter_def fun_eq_iff

lemma reach_loop:
  "ev_reach p (ph(t := Looping x)) \<Longrightarrow> wait_prepare f g t p = (None, q) \<Longrightarrow> ev_reach q (ph(t := Prepared x))"
  "ev_reach p (ph(t := Prepared x)) \<Longrightarrow> wait_test x timeout t p = (None, q) \<Longrightarrow> ev_reach q (ph(t := Blocked x))"
  "ev_reach p (ph(t := Prepared x)) \<Longrightarrow> wait_test x timeout t p = (Some res, q) \<Longrightarrow> ev_reach q (ph(t := Leaving (0, res)))"
  "ev_reach p (ph(t := Blocked x)) \<Longrightarrow> ev_reach (p\<lparr>asleep := (asleep p)(t := False)\<rparr>) (ph(t := Looping x))"
  using ev_reach.prepare [of p "ph(t := Looping x)" t x f g q] ev_reach.block [of p "ph(t := Prepared x)" t x timeout q]
    ev_reach.result [of p "ph(t := Prepared x)" t x timeout res q] ev_reach.resume [of p "ph(t := Blocked x)" t x]
  by simp_all

lemma reach_waiting:
  "ev_reach (both_events [(2, 0)] [(2, Suc 0)] False (both_waiters False False) True) ((\<lambda>_. Idle)(2 := Blocked True))"
proof -
  let ?s = "\<lambda>sl. both_events [(2, 0)] [(2, Suc 0)] False (both_waiters False False) sl"
  have "ev_reach (?s False) ((\<lambda>_. Idle)(2 := Looping True))"
    using ev_reach.enter [OF reach_two_events _ example_wait_begin] by simp
  moreover have "wait_prepare False False 2 (?s False) = (None, ?s True)" by (simp add: wait_prepare_def example_defs)
  ultimately have "ev_reach (?s True) ((\<lambda>_. Idle)(2 := Prepared True))" by (rule reach_loop(1))
  moreover have "wait_test True 1 2 (?s True) = (None, ?s True)" by (simp add: wait_test_def test_event_condition_def example_state_def)
  ultimately show ?thesis by (rule reach_loop(2))
qed

theorem no_lost_wakeup_witness:
  "\<exists>p ph. ev_reach p ph \<and> ph 2 = Blocked True \<and> asleep p 2 \<and> length (waiters p 2) = 2 \<and>
     test_event_condition True (waiters p 2) = OPU_IOC_WAIT_RESULT_TIMEOUT"
proof (intro exI conjI)
  let ?p = "both_events [(2, 0)] [(2, Suc 0)] False (both_waiters False False) True"
  show "ev_reach ?p ((\<lambda>_. Idle)(2 := Blocked True))" by (rule reach_waiting)
  show "((\<lambda>_. Idle)(2 := Blocked True)) 2 = Blocked True" "asleep ?p 2" "length (waiters ?p 2) = 2"
    by (simp_all add: example_state_def)
  show "test_event_condition True (waiters ?p 2) = OPU_IOC_WAIT_RESULT_TIMEOUT"
    by (rule no_lost_wakeup [OF reach_waiting]) (simp_all add: example_state_def)
qed

section \<open>Pointers that do not point to an event\<close>

text \<open>Thread 2 waits for both events. The first is signaled, which takes the thread's entry off its wait
  queue, and destroyed; the waiter keeps the address.\<close>

lemma example_signal_destroy:
  "opu_set_event 0 (both_events [(2, 0)] [(2, Suc 0)] False (both_waiters False False) True) =
     (0, both_events [] [(2, Suc 0)] True (both_waiters True False) False)"
  "opu_event_destroy 0 (both_events [] [(2, Suc 0)] True (both_waiters True False) False) =
     (0, event_b [(2, Suc 0)] False (both_waiters True False) False)"
  "opu_set_event 1 (event_b [(2, Suc 0)] False (both_waiters True False) False) =
     (0, event_b [(2, Suc 0)] True (both_waiters True True) False)"
  by (simp_all add: opu_set_event_def lookup_event_by_id_def idr_find_def cpu_signaled_at_def event_can_be_cpu_signaled_def set_event_def
      wq_of_def wake_up_all_def opu_event_destroy_def destroy_event_def Let_def is_signal_type_def idr_remove_def example_defs)

lemma reach_complete:
  "ev_reach (event_b [(2, Suc 0)] True (both_waiters True True) False)
     ((\<lambda>_. Idle)(2 := Leaving (0, OPU_IOC_WAIT_RESULT_COMPLETE)))"
proof -
  let ?s = "\<lambda>sl. event_b [(2, Suc 0)] True (both_waiters True True) sl"
  have "ev_reach (?s False) ((\<lambda>_. Idle)(2 := Blocked True))"
    by (rule ev_reach.set [OF ev_reach.destroy [OF ev_reach.set [OF reach_waiting]]]) (rule example_signal_destroy)+
  moreover have "(?s False)\<lparr>asleep := (asleep (?s False))(2 := False)\<rparr> = ?s False" by (simp add: example_state_def fun_eq_iff)
  ultimately have "ev_reach (?s False) ((\<lambda>_. Idle)(2 := Looping True))"
    using reach_loop(4) [of "?s False" "\<lambda>_. Idle" 2 True] by simp
  moreover have "wait_prepare False False 2 (?s False) = (None, ?s True)" by (simp add: wait_prepare_def example_defs)
  ultimately have "ev_reach (?s True) ((\<lambda>_. Idle)(2 := Prepared True))" by (rule reach_loop(1))
  moreover have "wait_test True 1 2 (?s True) = (Some OPU_IOC_WAIT_RESULT_COMPLETE, ?s False)"
    by (simp add: wait_test_def test_event_condition_def example_defs)
  ultimately show ?thesis by (rule reach_loop(3))
qed

text \<open>
  C37. An event can be destroyed while a thread that waits for it and others still refers to it: there
  is a run of the system after which a thread leaves the wake-up loop with its condition complete, and
  the copy of the event data to the user reads an event that was destroyed and freed. (The signal took
  the thread's entry off the wait queue, so that \<open>destroy_event\<close> did not find the waiter.)
\<close>
theorem wait_all_reads_destroyed_event:
  "\<exists>p ph. ev_reach p ph \<and> ph 2 = Leaving (0, OPU_IOC_WAIT_RESULT_COMPLETE) \<and> copy_signaled_event_data c 2 p = None \<and>
     wait_end c 2 (0, OPU_IOC_WAIT_RESULT_COMPLETE) p = None"
proof (intro exI conjI)
  let ?p = "event_b [(2, Suc 0)] True (both_waiters True True) False"
  show "ev_reach ?p ((\<lambda>_. Idle)(2 := Leaving (0, OPU_IOC_WAIT_RESULT_COMPLETE)))" by (rule reach_complete)
  show "copy_signaled_event_data c 2 ?p = None" "wait_end c 2 (0, OPU_IOC_WAIT_RESULT_COMPLETE) ?p = None"
    by (simp_all add: wait_end_def copy_signaled_event_data_def deref_def example_state_def)
qed simp

lemma free_waiter_list_uninit: "Uninit \<in> event ` set ws \<Longrightarrow> free_waiter_list t i ws p = None"
  by (induction t i ws p rule: free_waiter_list.induct) (auto split: event_ptr.splits)

lemma init_event_waiters_unknown:
  assumes "\<exists>x\<in>set es. case x of None \<Rightarrow> True | Some eid \<Rightarrow> lookup_event_by_id p eid = None"
  shows "fst (init_event_waiters t i es p) \<noteq> 0"
  using assms
proof (induction t i es p rule: init_event_waiters.induct)
  case (3 t i eid es p)
  obtain r q where g: "init_event_waiter_get_status t i eid p = (r, q)" by fastforce
  have "event_idr q = event_idr p" using init_event_waiter_get_status_spec(1) [OF g] by (simp add: inits_def same_ids_def)
  then have l: "lookup_event_by_id q = lookup_event_by_id p" by (simp add: lookup_event_by_id_def fun_eq_iff)
  show ?case
  proof (cases "r = 0")
    case True
    then have s: "lookup_event_by_id p eid \<noteq> None" using g by (cases "lookup_event_by_id p eid") (auto simp: init_event_waiter_get_status_def)
    then have "\<exists>x\<in>set es. case x of None \<Rightarrow> True | Some eid \<Rightarrow> lookup_event_by_id q eid = None" using "3.prems" unfolding l by auto
    then show ?thesis using "3.IH" [OF g [symmetric]] g True by simp
  qed (simp add: g)
qed auto

lemma init_event_waiters_fail_uninit:
  assumes "init_event_waiters t i es p = (r, q)" and "r \<noteq> 0" and "\<forall>j<length es. event (waiters p t ! (i + j)) = Uninit"
    and "i + length es \<le> length (waiters p t)"
  shows "Uninit \<in> event ` set (waiters q t)"
  using assms
proof (induction t i es p rule: init_event_waiters.induct)
  case (2 t i es p)
  then have "q = p" "event (waiters p t ! i) = Uninit" "i < length (waiters p t)" by (auto dest: spec [of _ 0])
  then show ?case by (metis image_eqI nth_mem)
next
  case (3 t i eid es p)
  obtain r1 p1 where g: "init_event_waiter_get_status t i eid p = (r1, p1)" by fastforce
  note gs = init_event_waiter_get_status_spec(1,2) [OF g]
  show ?case
  proof (cases "r1 = 0")
    case False
    then have "q = p" using g "3.prems"(1) by (auto simp: init_event_waiter_get_status_def split: option.splits)
    moreover have "event (waiters p t ! i) = Uninit" "i < length (waiters p t)" using "3.prems"(3,4) by (auto dest: spec [of _ 0])
    ultimately show ?thesis by (metis image_eqI nth_mem)
  next
    case True
    have "event (waiters p1 t ! (Suc i + j)) = Uninit" if "j < length es" for j
      using gs(2) [of "Suc i + j"] "3.prems"(3) [rule_format, of "Suc j"] that by simp
    then show ?thesis using "3.IH" [OF g [symmetric]] True "3.prems" gs(1) g by (simp add: inits_def)
  qed
qed simp

text \<open>
  C38. When a wait names an event that does not exist, or one of its entries cannot be read from user
  space, the error exit of \<open>opu_wait_on_events\<close> uses a waiter whose event pointer was never set:
  \<open>alloc_event_waiters\<close> leaves what \<open>kmalloc_array\<close> returns there, and \<open>free_waiters\<close> takes every pointer
  that is not null for an event.
\<close>
theorem wait_unknown_event_uses_uninitialised_pointer:
  assumes "\<exists>x\<in>set es. case x of None \<Rightarrow> True | Some eid \<Rightarrow> lookup_event_by_id p eid = None"
  shows "wait_begin True c t es all' p = None"
proof -
  define p0 where "p0 = alloc_event_waiters t (length es) p"
  obtain r p1 where i: "init_event_waiters t 0 es p0 = (r, p1)" by fastforce
  have l: "lookup_event_by_id p0 = lookup_event_by_id p" by (simp add: lookup_event_by_id_def p0_def alloc_event_waiters_def fun_eq_iff)
  have r: "r \<noteq> 0" using init_event_waiters_unknown [of es p0 t 0, unfolded l, OF assms] i by simp
  have "Uninit \<in> event ` set (waiters p1 t)"
    by (rule init_event_waiters_fail_uninit [OF i r]) (simp_all add: p0_def alloc_event_waiters_def)
  then have "free_waiters t p1 = None" by (simp add: free_waiters_def free_waiter_list_uninit)
  then show ?thesis using i r by (simp add: wait_begin_def p0_def)
qed

theorem wait_unknown_event_uses_uninitialised_pointer_witness:
  "lookup_event_by_id one_event 7 = None \<and> wait_begin True (\<lambda>_. True) 2 [Some 0, Some 7] False one_event = None"
proof -
  have "lookup_event_by_id one_event 7 = None" by (simp add: lookup_event_by_id_def idr_find_def one_event_sel)
  then show ?thesis using wait_unknown_event_uses_uninitialised_pointer [of "[Some 0, Some 7]" one_event "\<lambda>_. True" 2 False] by simp
qed

section \<open>Signals of the device\<close>

lemma set_event_from_interrupt_idr [simp]: "event_idr (set_event_from_interrupt e p) = event_idr p"
  using keeps_set_event_from_interrupt [of p e] by (simp add: keeps_def same_ids_def)

text \<open>The ids below a bound, in order, are the numbers below it that are ids.\<close>

lemma idr_below:
  assumes "idr_ok idr"
  shows "map fst (takeWhile (\<lambda>e. fst e < n) idr) = filter (\<lambda>i. i \<in> fst ` set idr) [0..<n]"
proof -
  have srt: "sorted_wrt (<) (map fst idr)" using assms by (simp add: idr_ok_def)
  have tw: "takeWhile (\<lambda>e. fst e < n) idr = filter (\<lambda>e. fst e < n) idr"
    using srt
  proof (induction idr)
    case (Cons e idr)
    then have "\<not> fst e < n \<Longrightarrow> filter (\<lambda>e. fst e < n) idr = []" by (fastforce simp: filter_empty_conv)
    then show ?case using Cons by auto
  qed simp
  have "sorted_wrt (<) (map fst (takeWhile (\<lambda>e. fst e < n) idr))"
    using srt unfolding tw sorted_wrt_map by (rule sorted_wrt_filter)
  then show ?thesis by (intro sorted_distinct_set_unique) (auto simp: strict_sorted_iff tw sorted_wrt_filter)
qed

lemma fold_filter_skip: "(\<And>x p. x \<in> set xs \<Longrightarrow> \<not> Q x \<Longrightarrow> I p \<Longrightarrow> f x p = p) \<Longrightarrow> (\<And>x p. I p \<Longrightarrow> I (f x p)) \<Longrightarrow> I p \<Longrightarrow>
   fold f xs p = fold f (filter Q xs) p"
  by (induction xs arbitrary: p) auto

text \<open>
  C6. The two exhaustive searches of the interrupt handler do the same: with few events it walks over
  the events of the process, with many over the slots of the signal page, and both signal the same
  events, in the same order, and clear the same slots.
\<close>
theorem scan_events_eq_scan_slots:
  assumes "ev_reach p ph"
  shows "scan_events p = scan_slots p"
proof -
  have ok: "idr_ok (event_idr p)" using ev_reach_inv [OF assms] by (simp add: sys_inv_def ev_inv_def inv_idr_def)
  define f where "f i r = (if slot_of r i \<noteq> UNSIGNALED_EVENT_SLOT
    then set_event_from_interrupt (lookup_event_by_id r (of_nat i)) r else r)" for i r
  define I where "I r \<longleftrightarrow> event_idr r = event_idr p" for r :: ev_process
  have If: "I r \<Longrightarrow> I (f i r)" for i r by (simp add: I_def f_def)
  have skip: "f i r = r" if "i \<in> set [0..<OPU_SIGNAL_EVENT_LIMIT]" "\<not> i \<in> fst ` set (event_idr p)" "I r" for i r
  proof -
    have "unat (of_nat i :: u32) = i" using that(1) by (simp add: unat_of_nat)
    then have "lookup_event_by_id r (of_nat i) = None"
      using that(2,3) by (simp add: lookup_event_by_id_def idr_find_def I_def map_of_eq_None_iff)
    then show ?thesis by (simp add: f_def set_event_from_interrupt_def)
  qed
  have "f = (\<lambda>i r. if slot_of r i \<noteq> UNSIGNALED_EVENT_SLOT then set_event_from_interrupt (lookup_event_by_id r (of_nat i)) r else r)"
    by (intro ext) (simp only: f_def)
  then have "scan_slots p = fold f [0..<OPU_SIGNAL_EVENT_LIMIT] p" by (simp only: scan_slots_def)
  also have "\<dots> = fold f (filter (\<lambda>i. i \<in> fst ` set (event_idr p)) [0..<OPU_SIGNAL_EVENT_LIMIT]) p"
    by (rule fold_filter_skip [where I = I]) (use skip If in \<open>auto simp: I_def\<close>)
  also have "\<dots> = fold f (map fst (takeWhile (\<lambda>e. fst e < OPU_SIGNAL_EVENT_LIMIT) (event_idr p))) p"
    by (simp only: idr_below [OF ok])
  also have "\<dots> = fold (\<lambda>e. f (fst e)) (takeWhile (\<lambda>e. fst e < OPU_SIGNAL_EVENT_LIMIT) (event_idr p)) p"
    by (simp add: fold_map comp_def)
  also have "\<dots> = scan_events p"
  proof -
    define g where "g e r = (if slot_of r (fst e) \<noteq> UNSIGNALED_EVENT_SLOT then set_event_from_interrupt (Some (snd e)) r else r)"
      for e :: "nat \<times> nat" and r
    have eq: "f (fst e) r = g e r" if "e \<in> set (takeWhile (\<lambda>e. fst e < OPU_SIGNAL_EVENT_LIMIT) (event_idr p))" "I r" for e r
    proof -
      have e: "fst e < OPU_SIGNAL_EVENT_LIMIT" "e \<in> set (event_idr p)" using set_takeWhileD [OF that(1)] by simp_all
      have "unat (of_nat (fst e) :: u32) = fst e" using e(1) by (simp add: unat_of_nat)
      then have "lookup_event_by_id r (of_nat (fst e)) = Some (snd e)"
        using e(2) that(2) by (simp add: lookup_event_by_id_def I_def idr_find_iff [OF ok])
      then show ?thesis by (simp add: f_def g_def)
    qed
    have "I r \<Longrightarrow> \<forall>e\<in>set xs. e \<in> set (takeWhile (\<lambda>e. fst e < OPU_SIGNAL_EVENT_LIMIT) (event_idr p)) \<Longrightarrow>
        fold (\<lambda>e. f (fst e)) xs r = fold g xs r" for xs r
    proof (induction xs arbitrary: r)
      case (Cons e xs)
      then show ?case using eq [of e r] If [of r "fst e"] by simp
    qed simp
    from this [of p] have "fold (\<lambda>e. f (fst e)) (takeWhile (\<lambda>e. fst e < OPU_SIGNAL_EVENT_LIMIT) (event_idr p)) p =
        fold g (takeWhile (\<lambda>e. fst e < OPU_SIGNAL_EVENT_LIMIT) (event_idr p)) p" by (simp add: I_def)
    moreover have "g = (\<lambda>e r. if slot_of r (fst e) \<noteq> UNSIGNALED_EVENT_SLOT then set_event_from_interrupt (Some (snd e)) r else r)"
      by (intro ext) (simp only: g_def)
    ultimately show ?thesis by (simp only: scan_events_def)
  qed
  finally show ?thesis by simp
qed

theorem scan_events_eq_scan_slots_witness: "scan_events one_event = scan_slots one_event \<and> event_idr one_event = [(0, 5)]"
  using scan_events_eq_scan_slots [OF reach_one_event] one_event_sel by simp

lemma find_append_none: "\<forall>x\<in>set xs. \<not> Q x \<Longrightarrow> find Q (xs @ ys) = find Q ys"
  by (induction xs) auto

lemma find_upt_eq: "(k::nat) < n \<Longrightarrow> find (\<lambda>j. j = k \<and> Q j) [0..<n] = (if Q k then Some k else None)"
proof -
  assume k: "k < n"
  have "[0..<n] = [0..<k] @ k # [Suc k..<n]" using k by (metis upt_conv_Cons upt_add_eq_append le_add_diff_inverse less_imp_le zero_le)
  moreover have "find (\<lambda>j. j = k \<and> Q j) [Suc k..<n] = None" by (auto simp: find_None_iff)
  ultimately show ?thesis by (simp add: find_append_none)
qed

lemma partial_scan_spec:
  assumes "0 < step" and "i mod step = r"
  shows "partial_scan p step i = (case find (\<lambda>j. j mod step = r \<and> slot_of p j \<noteq> UNSIGNALED_EVENT_SLOT \<and> idr_find (event_idr p) j \<noteq> None)
    [i..<OPU_SIGNAL_EVENT_LIMIT] of None \<Rightarrow> None | Some j \<Rightarrow> idr_find (event_idr p) j)"
  using assms
proof (induction p step i rule: partial_scan.induct)
  case (1 p step i)
  let ?P = "\<lambda>j. j mod step = r \<and> slot_of p j \<noteq> UNSIGNALED_EVENT_SLOT \<and> idr_find (event_idr p) j \<noteq> None"
  show ?case
  proof (cases "i < OPU_SIGNAL_EVENT_LIMIT")
    case False
    then show ?thesis by (subst partial_scan.simps) simp
  next
    case True
    have between: "\<not> ?P j" if "i < j" "j < i + step" for j
    proof -
      have "j mod step \<noteq> i mod step"
      proof
        assume "j mod step = i mod step"
        then have "step dvd j - i" using that by (simp add: mod_eq_dvd_iff_nat)
        then show False using that by (auto dest: dvd_imp_le)
      qed
      then show ?thesis using "1.prems"(2) by simp
    qed
    have rest: "find ?P [Suc i..<OPU_SIGNAL_EVENT_LIMIT] = find ?P [i + step..<OPU_SIGNAL_EVENT_LIMIT]"
    proof (cases "i + step \<le> OPU_SIGNAL_EVENT_LIMIT")
      case True
      then have "[Suc i..<OPU_SIGNAL_EVENT_LIMIT] = [Suc i..<i + step] @ [i + step..<OPU_SIGNAL_EVENT_LIMIT]"
        using upt_add_eq_append [of "Suc i" "i + step" "OPU_SIGNAL_EVENT_LIMIT - (i + step)"] "1.prems"(1) by simp
      moreover have "\<forall>x\<in>set [Suc i..<i + step]. \<not> ?P x" using between by auto
      ultimately show ?thesis by (simp only: find_append_none)
    next
      case False
      have "find ?P [Suc i..<OPU_SIGNAL_EVENT_LIMIT] = None"
        unfolding find_None_iff using between False by auto
      then show ?thesis using False by simp
    qed
    have ih: "partial_scan p step (i + step) = (case find ?P [i + step..<OPU_SIGNAL_EVENT_LIMIT] of None \<Rightarrow> None | Some j \<Rightarrow> idr_find (event_idr p) j)"
      if "slot_of p i = UNSIGNALED_EVENT_SLOT \<or> idr_find (event_idr p) i = None"
      using "1.IH" True "1.prems" that by (cases "slot_of p i = UNSIGNALED_EVENT_SLOT") simp_all
    show ?thesis
      using True "1.prems" ih rest
      by (subst partial_scan.simps) (auto simp: upt_conv_Cons split: option.splits)
  qed
qed

text \<open>
  C7. The partial id of an interrupt finds the first signaled event that matches: with the low
  \<open>bits\<close> bits of an id given, the lookup returns the event with the smallest id below the limit that has
  these low bits, whose slot is signaled and that exists, and none when there is no such event; on the
  fast path of complete ids as on the general one.
\<close>
theorem partial_id_finds_first_match:
  assumes "signal_page p \<noteq> None" and "unat i < 2 ^ unat bits"
  shows "lookup_signaled_event_by_partial_id p i bits =
    (case find (\<lambda>j. j mod 2 ^ unat bits = unat i \<and> slot_of p j \<noteq> UNSIGNALED_EVENT_SLOT \<and> idr_find (event_idr p) j \<noteq> None)
       [0..<OPU_SIGNAL_EVENT_LIMIT] of None \<Rightarrow> None | Some j \<Rightarrow> idr_find (event_idr p) j)"
proof -
  let ?s = "2 ^ unat bits :: nat"
  let ?Q = "\<lambda>j. slot_of p j \<noteq> UNSIGNALED_EVENT_SLOT \<and> idr_find (event_idr p) j \<noteq> None"
  let ?spec = "case find (\<lambda>j. j mod ?s = unat i \<and> ?Q j) [0..<OPU_SIGNAL_EVENT_LIMIT] of None \<Rightarrow> None | Some j \<Rightarrow> idr_find (event_idr p) j"
  have lim: "of_nat OPU_SIGNAL_EVENT_LIMIT \<le> i \<longleftrightarrow> OPU_SIGNAL_EVENT_LIMIT \<le> unat i" by (simp add: word_le_nat_alt)
  consider (big) "OPU_SIGNAL_EVENT_LIMIT \<le> unat i"
    | (fast) "unat i < OPU_SIGNAL_EVENT_LIMIT" "31 < bits \<or> OPU_SIGNAL_EVENT_LIMIT \<le> ?s"
    | (general) "unat i < OPU_SIGNAL_EVENT_LIMIT" "\<not> (31 < bits \<or> OPU_SIGNAL_EVENT_LIMIT \<le> ?s)" by linarith
  then show ?thesis
  proof cases
    case big
    have "\<not> j mod ?s = unat i" if "j < OPU_SIGNAL_EVENT_LIMIT" for j
      using mod_less_eq_dividend [of j ?s] that big by linarith
    then have "find (\<lambda>j. j mod ?s = unat i \<and> ?Q j) [0..<OPU_SIGNAL_EVENT_LIMIT] = None" by (auto simp: find_None_iff)
    then show ?thesis using big lim by (simp add: lookup_signaled_event_by_partial_id_def)
  next
    case fast
    have s: "OPU_SIGNAL_EVENT_LIMIT \<le> ?s"
    proof (cases "31 < bits")
      case True
      then have "32 \<le> unat bits" by (simp add: word_less_nat_alt)
      then have "(2::nat) ^ 32 \<le> ?s" by (rule power_increasing) simp
      then show ?thesis by simp
    qed (use fast in simp)
    have "find (\<lambda>j. j mod ?s = unat i \<and> ?Q j) [0..<OPU_SIGNAL_EVENT_LIMIT] = find (\<lambda>j. j = unat i \<and> ?Q j) [0..<OPU_SIGNAL_EVENT_LIMIT]"
      by (rule find_cong [OF refl]) (use s in auto)
    also have "\<dots> = (if ?Q (unat i) then Some (unat i) else None)" by (rule find_upt_eq [OF fast(1)])
    finally show ?thesis using assms(1) fast lim by (auto simp: lookup_signaled_event_by_partial_id_def)
  next
    case general
    have "[0..<n] = [0..<unat i] @ [unat i..<n]" if "unat i < n" for n
      using that by (metis upt_add_eq_append le_add_diff_inverse less_imp_le zero_le)
    from this [OF general(1)] have "[0..<OPU_SIGNAL_EVENT_LIMIT] = [0..<unat i] @ [unat i..<OPU_SIGNAL_EVENT_LIMIT]" .
    moreover have "\<forall>j\<in>set [0..<unat i]. \<not> (j mod ?s = unat i \<and> ?Q j)" using assms(2) by auto
    ultimately have a: "find (\<lambda>j. j mod ?s = unat i \<and> ?Q j) [0..<OPU_SIGNAL_EVENT_LIMIT] =
        find (\<lambda>j. j mod ?s = unat i \<and> ?Q j) [unat i..<OPU_SIGNAL_EVENT_LIMIT]"
      by (simp only: find_append_none)
    have b: "lookup_signaled_event_by_partial_id p i bits = partial_scan p ?s (unat i)"
      using assms(1) general lim by (auto simp: lookup_signaled_event_by_partial_id_def)
    have c: "partial_scan p ?s (unat i) = (case find (\<lambda>j. j mod ?s = unat i \<and> ?Q j) [unat i..<OPU_SIGNAL_EVENT_LIMIT] of
        None \<Rightarrow> None | Some j \<Rightarrow> idr_find (event_idr p) j)"
      by (rule partial_scan_spec) (use assms(2) in simp_all)
    show ?thesis unfolding a b c by (rule refl)
  qed
qed

theorem partial_id_finds_first_match_witness:
  "signal_page (set_slot 1 7 (both_events [] [] False [] False)) \<noteq> None \<and>
   lookup_signaled_event_by_partial_id (set_slot 1 7 (both_events [] [] False [] False)) 1 12 = Some 6"
proof -
  let ?p = "set_slot 1 7 (both_events [] [] False [] False)"
  let ?P = "\<lambda>j::nat. j mod 2 ^ unat (12 :: u32) = unat (1 :: u32) \<and> slot_of ?p j \<noteq> UNSIGNALED_EVENT_SLOT \<and> idr_find (event_idr ?p) j \<noteq> None"
  have "[0..<OPU_SIGNAL_EVENT_LIMIT] = 0 # Suc 0 # [Suc (Suc 0)..<OPU_SIGNAL_EVENT_LIMIT]"
    by (subst upt_conv_Cons, simp, subst upt_conv_Cons, simp) (rule refl)
  moreover have "find ?P (0 # Suc 0 # xs) = Some 1" for xs by (simp add: slot_of_def idr_find_def example_state_def)
  ultimately have f: "find ?P [0..<OPU_SIGNAL_EVENT_LIMIT] = Some 1" by (simp only:)
  have pg: "signal_page ?p \<noteq> None" "unat (1 :: u32) < 2 ^ unat (12 :: u32)" by (simp_all add: example_state_def)
  have "lookup_signaled_event_by_partial_id ?p 1 12 = idr_find (event_idr ?p) 1"
    unfolding partial_id_finds_first_match [OF pg] f by simp
  then show ?thesis using pg(1) by (simp add: idr_find_def example_state_def)
qed

section \<open>Creating, signaling and waiting\<close>

lemma idr_remove_insort:
  assumes "i \<notin> fst ` set idr"
  shows "idr_remove (insort_key fst (i, a) idr) i = idr"
  using assms by (induction idr) (auto simp: idr_remove_def filter_id_conv)

text \<open>
  C8. Destroying an event that was just created gives back the ids, the events, the event count and
  the waiting threads as they were before it was created.
\<close>
theorem event_create_destroy_roundtrip:
  assumes "ev_inv p" and "new_event al \<notin> Some ` dom (ev_mem p)" and "opu_event_create al ty ar p = (0, Some (i, off, slot), q)"
  shows "fst (opu_event_destroy i q) = 0 \<and> event_idr (snd (opu_event_destroy i q)) = event_idr p \<and>
    ev_mem (snd (opu_event_destroy i q)) = ev_mem p \<and> signal_event_count (snd (opu_event_destroy i q)) = signal_event_count p \<and>
    waiters (snd (opu_event_destroy i q)) = waiters p \<and> asleep (snd (opu_event_destroy i q)) = asleep p"
proof -
  have pg: "inv_page p" using assms(1) by (simp add: ev_inv_def)
  from assms(3) pg assms(2) show ?thesis
  proof (cases rule: opu_event_create_cases)
    case (ok a p1 k ev)
    have i: "i = of_nat k" using ok(20) by simp
    have k: "unat i = k" using ok(5) by (simp add: i unat_of_nat)
    have "inv_idr q" using opu_event_create_inv [OF assms] by (simp add: ev_inv_def)
    then have "lookup_event_by_id q i = Some a"
      by (simp add: lookup_event_by_id_def k idr_find_iff inv_idr_def) (simp add: ok(8) set_insort_key)
    then have d: "opu_event_destroy i q = (0, destroy_event a q)" by (simp add: opu_event_destroy_def)
    have m: "ev_mem q a = Some ev" by (simp add: ok(9))
    have "unat (event_id ev) = k" using ok(10) k i by simp
    moreover have "ev_mem p a = None" using assms(2) ok(3) by auto
    ultimately show ?thesis
      unfolding d fst_conv snd_conv destroy_event_sel [OF m] using ok(4,8,9,11,14-17) by (simp add: idr_remove_insort fun_upd_idem)
  qed simp
qed

lemma ev_inv_no_events: "ev_inv no_events"
  using ev_reach_inv [OF reach_no_events] by (simp add: sys_inv_def)

theorem event_create_destroy_roundtrip_witness:
  "\<exists>i off slot. opu_event_create (example_allocs 5) OPU_EVENT_TYPE_SIGNAL False no_events = (0, Some (i, off, slot), one_event) \<and>
     fst (opu_event_destroy i one_event) = 0 \<and> event_idr (snd (opu_event_destroy i one_event)) = []"
proof -
  have c: "opu_event_create (example_allocs 5) OPU_EVENT_TYPE_SIGNAL False no_events = (0, Some (0, OPU_MMAP_TYPE_EVENTS, Some 0), one_event)"
    unfolding one_event_def by (simp add: opu_event_create_def example_allocs_def create_signal_event_def
      allocate_event_notification_slot_def allocate_signal_page_def idr_alloc_def no_events_def Let_def)
  have "new_event (example_allocs 5) \<notin> Some ` dom (ev_mem no_events)" by (simp add: no_events_def)
  from event_create_destroy_roundtrip [OF ev_inv_no_events this c] c show ?thesis by (auto simp: no_events_def)
qed

text \<open>
  A signal for an event that nobody waits for is kept: the next wait for it completes at once, in
  its first locked part, and consumes the signal exactly when the event resets itself.
\<close>
theorem signal_before_wait_completes:
  assumes "lookup_event_by_id p i = Some a" and "ev_mem p a = Some ev" and "wq ev = []" and "etype ev = OPU_EVENT_TYPE_SIGNAL"
  shows "\<exists>q ev'. wait_begin True c t [Some i] all' (snd (opu_set_event i p)) = Some (Finished (0, OPU_IOC_WAIT_RESULT_COMPLETE), q) \<and>
    fst (opu_set_event i p) = 0 \<and> ev_mem q a = Some ev' \<and> (signaled ev' \<longleftrightarrow> \<not> auto_reset ev) \<and> waiters q t = []"
proof -
  define r where "r = set_event a p"
  have s: "opu_set_event i p = (0, r)"
    using assms by (simp add: opu_set_event_def cpu_signaled_at_def event_can_be_cpu_signaled_def r_def)
  define ev1 where "ev1 = ev\<lparr>signaled := True\<rparr>"
  have m: "ev_mem r a = Some ev1" using assms(2,3) by (simp add: r_def set_event_sel ev1_def)
  have l: "event_idr r = event_idr p" by (simp add: r_def set_event_sel)
  show ?thesis
    using assms m l by (simp add: s wait_begin_def alloc_event_waiters_def lookup_event_by_id_def init_event_waiter_get_status_def
        upd_waiter_def upd_ev_def test_event_condition_def copy_signaled_event_data_def deref_def free_waiters_def ev1_def wait_out_def)
qed

theorem signal_before_wait_completes_witness:
  "\<exists>q. wait_begin True (\<lambda>_. True) 2 [Some 0] False (snd (opu_set_event 0 (both_events [] [] False [] False))) =
     Some (Finished (0, OPU_IOC_WAIT_RESULT_COMPLETE), q)"
  using signal_before_wait_completes [of "both_events [] [] False [] False" 0 5 "example_event 0 [] False" "\<lambda>_. True" 2 False]
  by (auto simp: lookup_event_by_id_def idr_find_def example_state_def example_event_def zero_event_def)

text \<open>
  C5. A signal reaches a thread that sleeps in \<open>opu_wait_on_events\<close> for any one of several events: after
  \<open>set_event\<close> on one of them it does not sleep any more, and, when none of its events was destroyed, its
  next test of the condition ends the wait with the result that it is complete.
\<close>
theorem signal_wakes_any_waiter:
  assumes "ev_reach p ph" and "ph t = Blocked False" and "(t, i) \<in> set (wq_of p a)" and "\<forall>w\<in>set (waiters p t). event w \<noteq> Null"
  shows "\<not> asleep (set_event a p) t \<and>
    fst (wait_test False timeout t (snd (wait_prepare False False t (set_event a p)))) = Some OPU_IOC_WAIT_RESULT_COMPLETE"
proof -
  let ?q = "set_event a p"
  have inv: "inv_wait p" using ev_reach_inv [OF assms(1)] by (simp add: sys_inv_def ev_inv_def)
  then have i: "i < length (waiters p t)" using assms(3) by (simp add: inv_wait_def inv_queues_def)
  have sl: "\<not> asleep ?q t" using assms(3) by (force simp: set_event_sel wake_entries_asleep)
  have act: "activated (waiters ?q t ! i)" using assms(3) by (simp add: set_event_waiter [OF i])
  have nn: "event w \<noteq> Null" if "w \<in> set (waiters ?q t)" for w
  proof -
    obtain j where j: "j < length (waiters p t)" "w = waiters ?q t ! j" using \<open>w \<in> _\<close> by (auto simp: in_set_conv_nth)
    then show ?thesis using assms(4) by (simp add: set_event_waiter)
  qed
  have loop: "test_event_loop False n k ws = OPU_IOC_WAIT_RESULT_COMPLETE"
    if "\<exists>w\<in>set ws. activated w" "\<forall>w\<in>set ws. event w \<noteq> Null" for n k ws
    using that by (induction ws arbitrary: k) auto
  have "test_event_condition False (waiters ?q t) = OPU_IOC_WAIT_RESULT_COMPLETE"
    unfolding test_event_condition_def using act nn i by (intro loop) (auto intro!: bexI [of _ "waiters ?q t ! i"])
  then show ?thesis using sl by (simp add: wait_prepare_def wait_test_def)
qed

text \<open>Thread 2 sleeps, waiting for either of the two events.\<close>

lemma reach_waiting_any:
  "ev_reach (both_events [(2, 0)] [(2, Suc 0)] False (both_waiters False False) True) ((\<lambda>_. Idle)(2 := Blocked False))"
proof -
  let ?s = "\<lambda>sl. both_events [(2, 0)] [(2, Suc 0)] False (both_waiters False False) sl"
  have "wait_begin True (\<lambda>_. True) 2 [Some 0, Some 1] False (both_events [] [] False [] False) = Some (Waiting, ?s False)"
    by (simp add: wait_begin_def alloc_event_waiters_def init_event_waiter_get_status_def lookup_event_by_id_def idr_find_def
      test_event_condition_def init_event_waiter_add_to_waitlist_def example_defs)
  from ev_reach.enter [OF reach_two_events _ this] have "ev_reach (?s False) ((\<lambda>_. Idle)(2 := Looping False))" by simp
  moreover have "wait_prepare False False 2 (?s False) = (None, ?s True)" by (simp add: wait_prepare_def example_defs)
  ultimately have "ev_reach (?s True) ((\<lambda>_. Idle)(2 := Prepared False))" by (rule reach_loop(1))
  moreover have "wait_test False 1 2 (?s True) = (None, ?s True)" by (simp add: wait_test_def test_event_condition_def example_state_def)
  ultimately show ?thesis by (rule reach_loop(2))
qed

theorem signal_wakes_any_waiter_witness:
  "\<exists>p ph. ev_reach p ph \<and> ph 2 = Blocked False \<and> asleep p 2 \<and> \<not> asleep (set_event 6 p) 2 \<and>
     fst (wait_test False 1 2 (snd (wait_prepare False False 2 (set_event 6 p)))) = Some OPU_IOC_WAIT_RESULT_COMPLETE"
proof -
  let ?p = "both_events [(2, 0)] [(2, Suc 0)] False (both_waiters False False) True"
  have h: "((\<lambda>_. Idle)(2 := Blocked False)) 2 = Blocked False" "(2, Suc 0) \<in> set (wq_of ?p 6)"
    "\<forall>w\<in>set (waiters ?p 2). event w \<noteq> Null" "asleep ?p 2"
    by (simp_all add: wq_of_def example_state_def example_event_def)
  then show ?thesis using reach_waiting_any signal_wakes_any_waiter [OF reach_waiting_any h(1-3), of 1] by blast
qed

end
