(* ===== verification/Opu_Svm.thy ===== *)
theory Opu_Svm
  imports Opu_Prelude
begin

text \<open>
  Shared virtual memory (\<open>opu_svm.c\<close>): the ranges of a process's address space and their attributes.
  Ranges are numbered objects; the interval tree of the kernel is the list of its nodes in the order of
  their start, the iteration over the nodes that overlap an interval goes through that list. Addresses
  are in pages, as in the code. The attribute constants are not in the repository and are parameters.
\<close>

section \<open>Data\<close>

datatype svm_work_list_ops = SVM_OP_NULL | SVM_OP_UNMAP_RANGE | SVM_OP_UPDATE_RANGE_NOTIFIER
  | SVM_OP_UPDATE_RANGE_NOTIFIER_AND_MAP | SVM_OP_ADD_RANGE | SVM_OP_ADD_RANGE_AND_MAP

text \<open>\<open>struct svm_range\<close>. \<open>it_start\<close> and \<open>it_last\<close> are its node in the interval tree, \<open>notif\<close> the interval
  of its notifier in bytes; the DMA addresses are one array for each GPU.\<close>

record svm_range =
  rstart :: u64
  rlast :: u64
  it_start :: u64
  it_last :: u64
  npages :: u64
  dma_addr :: "nat \<Rightarrow> u64 list option"
  ttm_res :: "nat option"
  roffset :: u64
  svm_bo :: "nat option"
  rflags :: u32
  preferred_loc :: u32
  prefetch_loc :: u32
  actual_loc :: u32
  granularity :: u8
  notif :: "u64 \<times> u64"
  work_op :: svm_work_list_ops
  child_list :: "nat list"
  bitmap_access :: bitmap
  bitmap_aip :: bitmap
  invalid :: nat

definition zero_range :: svm_range where
  "zero_range = \<lparr>rstart = 0, rlast = 0, it_start = 0, it_last = 0, npages = 0, dma_addr = (\<lambda>_. None), ttm_res = None, roffset = 0,
     svm_bo = None, rflags = 0, preferred_loc = 0, prefetch_loc = 0, actual_loc = 0, granularity = 0, notif = (0, 0),
     work_op = SVM_OP_NULL, child_list = [], bitmap_access = (\<lambda>_. False), bitmap_aip = (\<lambda>_. False), invalid = 0\<rparr>"

text \<open>\<open>struct svm_range_list\<close>, with the ranges, the buffer objects they share (reference count and list of
  ranges), and a count of the allocations so far, which numbers new ranges.\<close>

record svm_state =
  rng :: "nat \<Rightarrow> svm_range"
  objects :: "nat list"
  svm_list :: "nat list"
  deferred_range_list :: "nat list"
  bitmap_supported :: bitmap
  evicted_ranges :: nat
  bo_kref :: "nat \<Rightarrow> nat"
  bo_range_list :: "nat \<Rightarrow> nat list"
  allocs :: nat

record vma = vm_start :: u64 vm_end :: u64 vm_device :: bool

datatype svm_attr_type = OPU_IOCTL_SVM_ATTR_PREFERRED_LOC | OPU_IOCTL_SVM_ATTR_PREFETCH_LOC | OPU_IOCTL_SVM_ATTR_ACCESS
  | OPU_IOCTL_SVM_ATTR_ACCESS_IN_PLACE | OPU_IOCTL_SVM_ATTR_NO_ACCESS | OPU_IOCTL_SVM_ATTR_SET_FLAGS
  | OPU_IOCTL_SVM_ATTR_CLR_FLAGS | OPU_IOCTL_SVM_ATTR_GRANULARITY | SVM_ATTR_OTHER u32

type_synonym svm_attribute = "svm_attr_type \<times> u32"

text \<open>The surroundings: which allocations succeed, the GPU ids of \<open>pdds\<close> (\<open>None\<close> is a \<open>NULL\<close> entry), the
  address space, the attribute constants, the XGMI hives; migration and the mapping to the GPUs.\<close>

record svm_env =
  alloc_ok :: "nat \<Rightarrow> bool"
  pdd_ids :: "u32 option list"
  xnack_enabled :: bool
  find_vma :: "u64 \<Rightarrow> vma option"
  loc_sysmem :: u32
  loc_undefined :: u32
  flag_host_access :: u32
  flag_coherent :: u32
  same_hive :: "nat \<Rightarrow> nat \<Rightarrow> bool"
  migrate_vram_to_ram :: "nat \<Rightarrow> svm_state \<Rightarrow> int \<times> svm_state"
  migrate_to_vram :: "nat \<Rightarrow> u32 \<Rightarrow> svm_state \<Rightarrow> int \<times> svm_state"
  validate_and_map :: "nat \<Rightarrow> svm_state \<Rightarrow> int \<times> svm_state"
  validate_gpu :: "nat \<Rightarrow> nat \<Rightarrow> svm_state \<Rightarrow> int \<times> svm_state"

abbreviation MAX_GPU_INSTANCE :: nat where "MAX_GPU_INSTANCE \<equiv> 16"

definition upd_r :: "nat \<Rightarrow> (svm_range \<Rightarrow> svm_range) \<Rightarrow> svm_state \<Rightarrow> svm_state" where
  "upd_r r f s = s\<lparr>rng := (rng s)(r := f (rng s r))\<rparr>"

section \<open>GPUs of the process\<close>

definition opu_process_device_from_gpuidx :: "svm_env \<Rightarrow> nat \<Rightarrow> u32 option" where
  "opu_process_device_from_gpuidx env i = (if i < length (pdd_ids env) then pdd_ids env ! i else None)"

definition opu_process_gpuidx_from_gpuid :: "svm_env \<Rightarrow> u32 \<Rightarrow> int" where
  "opu_process_gpuidx_from_gpuid env gpu_id =
     (case List.find (\<lambda>i. pdd_ids env ! i = Some gpu_id) [0..<length (pdd_ids env)] of
        Some i \<Rightarrow> int i
      | None \<Rightarrow> - EINVAL)"

section \<open>The interval tree and the notifiers\<close>

text \<open>A new node goes behind the nodes with the same start.\<close>

definition interval_tree_insert :: "nat \<Rightarrow> svm_state \<Rightarrow> svm_state" where
  "interval_tree_insert r s =
     (let before = (\<lambda>x. it_start (rng s x) \<le> it_start (rng s r))
      in s\<lparr>objects := takeWhile before (objects s) @ r # dropWhile before (objects s)\<rparr>)"

definition interval_tree_remove :: "nat \<Rightarrow> svm_state \<Rightarrow> svm_state" where
  "interval_tree_remove r s = s\<lparr>objects := remove1 r (objects s)\<rparr>"

definition overlaps :: "svm_state \<Rightarrow> u64 \<Rightarrow> u64 \<Rightarrow> nat \<Rightarrow> bool" where
  "overlaps s start lst x \<longleftrightarrow> it_start (rng s x) \<le> lst \<and> start \<le> it_last (rng s x)"

text \<open>\<open>interval_tree_iter_first\<close> and \<open>_next\<close>: the tree from the first node that overlaps.\<close>

definition iter_from :: "svm_state \<Rightarrow> u64 \<Rightarrow> u64 \<Rightarrow> nat list \<Rightarrow> nat list" where
  "iter_from s start lst xs = dropWhile (\<lambda>x. \<not> overlaps s start lst x) xs"

definition svm_range_add_notifier_locked :: "nat \<Rightarrow> svm_state \<Rightarrow> svm_state" where
  "svm_range_add_notifier_locked r = upd_r r (\<lambda>x. x\<lparr>notif := (push_bit 12 (rstart x), push_bit 12 (rstart x) + push_bit 12 (npages x) - 1)\<rparr>)"

text \<open>Removing a notifier leaves its interval in the range.\<close>

definition svm_range_add_to_svms :: "nat \<Rightarrow> svm_state \<Rightarrow> svm_state" where
  "svm_range_add_to_svms r s =
     interval_tree_insert r (upd_r r (\<lambda>x. x\<lparr>it_start := rstart x, it_last := rlast x\<rparr>) (s\<lparr>svm_list := svm_list s @ [r]\<rparr>))"

definition svm_range_unlink :: "nat \<Rightarrow> svm_state \<Rightarrow> svm_state" where
  "svm_range_unlink r s =
     (let s1 = (case svm_bo (rng s r) of
                  Some b \<Rightarrow> s\<lparr>bo_range_list := (bo_range_list s)(b := remove1 r (bo_range_list s b))\<rparr>
                | None \<Rightarrow> s);
          s2 = s1\<lparr>svm_list := remove1 r (svm_list s1)\<rparr>
      in if it_start (rng s2 r) \<noteq> 0 \<and> it_last (rng s2 r) \<noteq> 0 then interval_tree_remove r s2 else s2)"

section \<open>Buffer objects, creation and release of ranges\<close>

definition svm_range_bo_release :: "nat \<Rightarrow> svm_state \<Rightarrow> svm_state" where
  "svm_range_bo_release b s =
     (fold (\<lambda>r. upd_r r (\<lambda>x. x\<lparr>svm_bo := None\<rparr>)) (bo_range_list s b) s)\<lparr>bo_range_list := (bo_range_list s)(b := [])\<rparr>"

definition svm_range_bo_unref :: "nat option \<Rightarrow> svm_state \<Rightarrow> svm_state" where
  "svm_range_bo_unref bo s =
     (case bo of
        None \<Rightarrow> s
      | Some b \<Rightarrow>
          let s1 = s\<lparr>bo_kref := (bo_kref s)(b := bo_kref s b - 1)\<rparr>
          in if bo_kref s b = 1 then svm_range_bo_release b s1 else s1)"

definition svm_range_vram_node_free :: "nat \<Rightarrow> svm_state \<Rightarrow> svm_state" where
  "svm_range_vram_node_free r s = upd_r r (\<lambda>x. x\<lparr>ttm_res := None\<rparr>) (svm_range_bo_unref (svm_bo (rng s r)) s)"

definition svm_range_free_dma_mappings :: "svm_env \<Rightarrow> nat \<Rightarrow> svm_state \<Rightarrow> svm_state" where
  "svm_range_free_dma_mappings env r =
     upd_r r (\<lambda>x. x\<lparr>dma_addr := (\<lambda>g. if g < MAX_GPU_INSTANCE \<and> opu_process_device_from_gpuidx env g \<noteq> None then None else dma_addr x g)\<rparr>)"

definition svm_range_free :: "svm_env \<Rightarrow> nat \<Rightarrow> svm_state \<Rightarrow> svm_state" where
  "svm_range_free env r s = svm_range_free_dma_mappings env r (svm_range_vram_node_free r s)"

definition svm_range_set_default_attributes :: "svm_env \<Rightarrow> svm_range \<Rightarrow> svm_range" where
  "svm_range_set_default_attributes env x =
     x\<lparr>preferred_loc := loc_undefined env, prefetch_loc := loc_undefined env, granularity := 9,
       rflags := flag_host_access env OR flag_coherent env\<rparr>"

text \<open>A new range: its fields, before it gets a number.\<close>

definition new_range :: "svm_env \<Rightarrow> svm_state \<Rightarrow> u64 \<Rightarrow> u64 \<Rightarrow> svm_range" where
  "new_range env s start lst =
     svm_range_set_default_attributes env
       (zero_range\<lparr>npages := lst - start + 1, rstart := start, rlast := lst,
          bitmap_access := (if xnack_enabled env then bitmap_supported s else (\<lambda>_. False))\<rparr>)"

definition svm_range_new :: "svm_env \<Rightarrow> u64 \<Rightarrow> u64 \<Rightarrow> svm_state \<Rightarrow> nat option \<times> svm_state" where
  "svm_range_new env start lst s =
     (let s1 = s\<lparr>allocs := Suc (allocs s)\<rparr>
      in if \<not> alloc_ok env (allocs s) then (None, s1)
         else (Some (allocs s), s1\<lparr>rng := (rng s1)(allocs s := new_range env s start lst)\<rparr>))"

section \<open>Attributes\<close>

definition check_gpuidx :: "svm_state \<Rightarrow> int \<Rightarrow> int" where
  "check_gpuidx s gpuidx =
     (if gpuidx < 0 then - EINVAL
      else if gpuidx < int MAX_GPU_INSTANCE \<and> \<not> bitmap_supported s (nat gpuidx) then - EINVAL
      else 0)"

definition svm_check_attr1 :: "svm_env \<Rightarrow> svm_state \<Rightarrow> svm_attribute \<Rightarrow> int" where
  "svm_check_attr1 env s a =
     (let val = snd a; lookup = check_gpuidx s (opu_process_gpuidx_from_gpuid env val); none = check_gpuidx s (int MAX_GPU_INSTANCE)
      in case fst a of
           OPU_IOCTL_SVM_ATTR_PREFERRED_LOC \<Rightarrow> if val \<noteq> loc_sysmem env \<and> val \<noteq> loc_undefined env then lookup else none
         | OPU_IOCTL_SVM_ATTR_PREFETCH_LOC \<Rightarrow> if val \<noteq> loc_sysmem env then lookup else none
         | OPU_IOCTL_SVM_ATTR_ACCESS \<Rightarrow> lookup
         | OPU_IOCTL_SVM_ATTR_ACCESS_IN_PLACE \<Rightarrow> lookup
         | OPU_IOCTL_SVM_ATTR_NO_ACCESS \<Rightarrow> lookup
         | OPU_IOCTL_SVM_ATTR_SET_FLAGS \<Rightarrow> none
         | OPU_IOCTL_SVM_ATTR_CLR_FLAGS \<Rightarrow> none
         | OPU_IOCTL_SVM_ATTR_GRANULARITY \<Rightarrow> none
         | SVM_ATTR_OTHER _ \<Rightarrow> - EINVAL)"

fun svm_range_check_attr :: "svm_env \<Rightarrow> svm_state \<Rightarrow> svm_attribute list \<Rightarrow> int" where
  "svm_range_check_attr env s [] = 0"
| "svm_range_check_attr env s (a # as) =
     (if svm_check_attr1 env s a \<noteq> 0 then svm_check_attr1 env s a else svm_range_check_attr env s as)"

definition svm_apply_attr1 :: "svm_env \<Rightarrow> svm_attribute \<Rightarrow> svm_range \<Rightarrow> svm_range" where
  "svm_apply_attr1 env a x =
     (let val = snd a; g = nat (opu_process_gpuidx_from_gpuid env val)
      in case fst a of
           OPU_IOCTL_SVM_ATTR_PREFERRED_LOC \<Rightarrow> x\<lparr>preferred_loc := val\<rparr>
         | OPU_IOCTL_SVM_ATTR_PREFETCH_LOC \<Rightarrow> x\<lparr>prefetch_loc := val\<rparr>
         | OPU_IOCTL_SVM_ATTR_NO_ACCESS \<Rightarrow> x\<lparr>bitmap_access := clear_bit_at g (bitmap_access x), bitmap_aip := clear_bit_at g (bitmap_aip x)\<rparr>
         | OPU_IOCTL_SVM_ATTR_ACCESS \<Rightarrow> x\<lparr>bitmap_access := set_bit_at g (bitmap_access x), bitmap_aip := clear_bit_at g (bitmap_aip x)\<rparr>
         | OPU_IOCTL_SVM_ATTR_ACCESS_IN_PLACE \<Rightarrow> x\<lparr>bitmap_access := clear_bit_at g (bitmap_access x), bitmap_aip := set_bit_at g (bitmap_aip x)\<rparr>
         | OPU_IOCTL_SVM_ATTR_SET_FLAGS \<Rightarrow> x\<lparr>rflags := rflags x OR val\<rparr>
         | OPU_IOCTL_SVM_ATTR_CLR_FLAGS \<Rightarrow> x\<lparr>rflags := rflags x AND NOT val\<rparr>
         | OPU_IOCTL_SVM_ATTR_GRANULARITY \<Rightarrow> x\<lparr>granularity := ucast val\<rparr>
         | SVM_ATTR_OTHER _ \<Rightarrow> x)"

definition svm_range_apply_attrs :: "svm_env \<Rightarrow> svm_attribute list \<Rightarrow> svm_range \<Rightarrow> svm_range" where
  "svm_range_apply_attrs env attrs x = fold (svm_apply_attr1 env) attrs x"

definition svm_range_is_same_attrs :: "svm_range \<Rightarrow> svm_range \<Rightarrow> bool" where
  "svm_range_is_same_attrs old new \<longleftrightarrow>
     prefetch_loc old = prefetch_loc new \<and> rflags old = rflags new \<and> granularity old = granularity new"


section \<open>Splitting\<close>

text \<open>One array: the part for the new range and the rest. The code of the allocations is the result.\<close>

definition svm_range_split_array ::
  "svm_env \<Rightarrow> u64 list option \<Rightarrow> u64 \<Rightarrow> u64 \<Rightarrow> u64 \<Rightarrow> u64 \<Rightarrow> svm_state \<Rightarrow> int \<times> (u64 list \<times> u64 list) option \<times> svm_state" where
  "svm_range_split_array env pold old_start old_n new_start new_n s =
     (case pold of
        None \<Rightarrow> (0, None, s)
      | Some xs \<Rightarrow>
          if \<not> alloc_ok env (allocs s) then (- ENOMEM, None, s\<lparr>allocs := Suc (allocs s)\<rparr>)
          else if \<not> alloc_ok env (Suc (allocs s)) then (- ENOMEM, None, s\<lparr>allocs := Suc (Suc (allocs s))\<rparr>)
          else (0, Some (take (unat new_n) (drop (unat (new_start - old_start)) xs),
                         take (unat old_n) (drop (if new_start = old_start then unat new_n else 0) xs)),
                s\<lparr>allocs := Suc (Suc (allocs s))\<rparr>))"

fun split_pages_loop :: "svm_env \<Rightarrow> nat \<Rightarrow> nat \<Rightarrow> u64 \<Rightarrow> nat list \<Rightarrow> svm_state \<Rightarrow> int \<times> svm_state" where
  "split_pages_loop env new old n [] s = (0, s)"
| "split_pages_loop env new old n (g # gs) s =
     (case svm_range_split_array env (dma_addr (rng s old) g) (rstart (rng s old)) n (rstart (rng s new)) (npages (rng s new)) s of
        (r, parts, s1) \<Rightarrow>
          if r \<noteq> 0 then (r, s1)
          else split_pages_loop env new old n gs
                 (case parts of
                    None \<Rightarrow> s1
                  | Some (xs, ys) \<Rightarrow> upd_r new (\<lambda>x. x\<lparr>dma_addr := (dma_addr x)(g := Some xs)\<rparr>)
                                      (upd_r old (\<lambda>x. x\<lparr>dma_addr := (dma_addr x)(g := Some ys)\<rparr>) s1)))"

definition svm_range_split_pages :: "svm_env \<Rightarrow> nat \<Rightarrow> nat \<Rightarrow> u64 \<Rightarrow> u64 \<Rightarrow> svm_state \<Rightarrow> int \<times> svm_state" where
  "svm_range_split_pages env new old start lst s = split_pages_loop env new old (lst - start + 1) [0..<MAX_GPU_INSTANCE] s"

text \<open>The buffer object is shared; \<open>None\<close> is a range without one, which the code does not test.\<close>

definition share_bo :: "nat \<Rightarrow> nat option \<Rightarrow> svm_state \<Rightarrow> svm_state" where
  "share_bo r bo s =
     (let s1 = upd_r r (\<lambda>x. x\<lparr>svm_bo := bo\<rparr>) s
      in case bo of
           None \<Rightarrow> s1
         | Some b \<Rightarrow> s1\<lparr>bo_kref := (bo_kref s1)(b := Suc (bo_kref s1 b)), bo_range_list := (bo_range_list s1)(b := r # bo_range_list s1 b)\<rparr>)"

definition svm_range_split_nodes :: "nat \<Rightarrow> nat \<Rightarrow> u64 \<Rightarrow> u64 \<Rightarrow> svm_state \<Rightarrow> svm_state" where
  "svm_range_split_nodes new old start lst s =
     (let n = lst - start + 1; o0 = rng s old; n0 = rng s new;
          s1 = (if rstart n0 = rstart o0
                then upd_r old (\<lambda>x. x\<lparr>roffset := roffset x + npages n0\<rparr>) (upd_r new (\<lambda>x. x\<lparr>roffset := roffset o0\<rparr>) s)
                else upd_r new (\<lambda>x. x\<lparr>roffset := roffset o0 + n\<rparr>) s)
      in upd_r new (\<lambda>x. x\<lparr>ttm_res := ttm_res o0\<rparr>) (share_bo new (svm_bo o0) s1))"

definition copy_attrs :: "svm_range \<Rightarrow> svm_range \<Rightarrow> svm_range" where
  "copy_attrs old x =
     x\<lparr>rflags := rflags old, preferred_loc := preferred_loc old, prefetch_loc := prefetch_loc old, actual_loc := actual_loc old,
       granularity := granularity old, bitmap_access := bitmap_access old, bitmap_aip := bitmap_aip old\<rparr>"

definition svm_range_split_adjust :: "svm_env \<Rightarrow> nat \<Rightarrow> nat \<Rightarrow> u64 \<Rightarrow> u64 \<Rightarrow> svm_state \<Rightarrow> int \<times> svm_state" where
  "svm_range_split_adjust env new old start lst s =
     (if rstart (rng s new) < rstart (rng s old) \<or> rlast (rng s old) < rlast (rng s new) then (- EINVAL, s)
      else case svm_range_split_pages env new old start lst s of (r, s1) \<Rightarrow>
        if r \<noteq> 0 then (r, s1)
        else
          let s2 = (if actual_loc (rng s1 old) \<noteq> 0 \<and> ttm_res (rng s1 old) \<noteq> None then svm_range_split_nodes new old start lst s1 else s1);
              s3 = upd_r old (\<lambda>x. x\<lparr>npages := lst - start + 1, rstart := start, rlast := lst\<rparr>) s2
          in (0, upd_r new (copy_attrs (rng s3 old)) s3))"

text \<open>The new range, when the code is 0.\<close>

definition svm_range_split :: "svm_env \<Rightarrow> nat \<Rightarrow> u64 \<Rightarrow> u64 \<Rightarrow> svm_state \<Rightarrow> int \<times> nat option \<times> svm_state" where
  "svm_range_split env prange start lst s =
     (let old_start = rstart (rng s prange); old_last = rlast (rng s prange)
      in if old_start \<noteq> start \<and> old_last \<noteq> lst then (- EINVAL, None, s)
         else if start < old_start \<or> old_last < lst then (- EINVAL, None, s)
         else case (if old_start = start then svm_range_new env (lst + 1) old_last s else svm_range_new env old_start (start - 1) s) of
                (None, s1) \<Rightarrow> (- ENOMEM, None, s1)
              | (Some new, s1) \<Rightarrow>
                  (case svm_range_split_adjust env new prange start lst s1 of (r, s2) \<Rightarrow>
                     if r \<noteq> 0 then (r, None, svm_range_free env new s2) else (0, Some new, s2)))"

definition svm_range_split_tail :: "svm_env \<Rightarrow> nat \<Rightarrow> u64 \<Rightarrow> nat list \<Rightarrow> svm_state \<Rightarrow> int \<times> nat list \<times> svm_state" where
  "svm_range_split_tail env prange new_last insert_list s =
     (case svm_range_split env prange (rstart (rng s prange)) new_last s of
        (r, Some tail, s1) \<Rightarrow> (r, tail # insert_list, s1)
      | (r, None, s1) \<Rightarrow> (r, insert_list, s1))"

definition svm_range_split_head :: "svm_env \<Rightarrow> nat \<Rightarrow> u64 \<Rightarrow> nat list \<Rightarrow> svm_state \<Rightarrow> int \<times> nat list \<times> svm_state" where
  "svm_range_split_head env prange new_start insert_list s =
     (case svm_range_split env prange new_start (rlast (rng s prange)) s of
        (r, Some head, s1) \<Rightarrow> (r, head # insert_list, s1)
      | (r, None, s1) \<Rightarrow> (r, insert_list, s1))"

definition svm_range_clone :: "svm_env \<Rightarrow> nat \<Rightarrow> svm_state \<Rightarrow> nat option \<times> svm_state" where
  "svm_range_clone env old s =
     (case svm_range_new env (rstart (rng s old)) (rlast (rng s old)) s of
        (None, s1) \<Rightarrow> (None, s1)
      | (Some new, s1) \<Rightarrow>
          let s2 = (if svm_bo (rng s1 old) \<noteq> None
                    then share_bo new (svm_bo (rng s1 old)) (upd_r new (\<lambda>x. x\<lparr>ttm_res := ttm_res (rng s1 old), roffset := roffset (rng s1 old)\<rparr>) s1)
                    else s1)
          in (Some new, upd_r new (copy_attrs (rng s2 old)) s2))"

section \<open>Overlapping ranges\<close>

text \<open>The lists of a change: the ranges to update, to insert and to remove.\<close>

record change =
  update_list :: "nat list"
  insert_list :: "nat list"
  remove_list :: "nat list"

text \<open>A node that sticks out of the interval: it is cloned, and the parts outside are split off the clone.\<close>

definition overlap_clone :: "svm_env \<Rightarrow> nat \<Rightarrow> u64 \<Rightarrow> u64 \<Rightarrow> change \<Rightarrow> svm_state \<Rightarrow> int \<times> nat \<times> change \<times> svm_state" where
  "overlap_clone env node start lst c s =
     (case svm_range_clone env node s of
        (None, s1) \<Rightarrow> (- ENOMEM, node, c, s1)
      | (Some prange, s1) \<Rightarrow>
          let c1 = c\<lparr>remove_list := node # remove_list c, insert_list := prange # insert_list c\<rparr>
          in case (if it_start (rng s1 node) < start then svm_range_split_head env prange start (insert_list c1) s1 else (0, insert_list c1, s1)) of
               (r, ins, s2) \<Rightarrow>
                 if r \<noteq> 0 then (r, prange, c1\<lparr>insert_list := ins\<rparr>, s2)
                 else case (if lst < it_last (rng s2 node) then svm_range_split_tail env prange lst ins s2 else (0, ins, s2)) of
                        (r, ins', s3) \<Rightarrow> (r, prange, c1\<lparr>insert_list := ins'\<rparr>, s3))"

definition overlap_node :: "svm_env \<Rightarrow> svm_range \<Rightarrow> nat \<Rightarrow> u64 \<Rightarrow> u64 \<Rightarrow> change \<Rightarrow> svm_state \<Rightarrow> int \<times> change \<times> svm_state" where
  "overlap_node env new node start lst c s =
     (case (if it_start (rng s node) < start \<or> lst < it_last (rng s node) then overlap_clone env node start lst c s else (0, node, c, s)) of
        (r, prange, c1, s1) \<Rightarrow>
          if r \<noteq> 0 then (r, c1, s1)
          else
            let c2 = (if \<not> svm_range_is_same_attrs (rng s1 prange) new then c1\<lparr>update_list := prange # update_list c1\<rparr> else c1)
            in if start < it_start (rng s1 node)
               then (case svm_range_new env start (it_start (rng s1 node) - 1) s1 of
                       (None, s2) \<Rightarrow> (- ENOMEM, c2, s2)
                     | (Some n, s2) \<Rightarrow> (0, c2\<lparr>insert_list := n # insert_list c2, update_list := n # update_list c2\<rparr>, s2))
               else (0, c2, s1))"

text \<open>The loop over the tree: \<open>xs\<close> starts with the current node. The next node is looked up with the
  start of this round. The result has the start that is left.\<close>

function overlap_loop ::
  "svm_env \<Rightarrow> svm_range \<Rightarrow> u64 \<Rightarrow> nat list \<Rightarrow> u64 \<Rightarrow> change \<Rightarrow> svm_state \<Rightarrow> int \<times> u64 \<times> change \<times> svm_state" where
  "overlap_loop env new lst [] start c s = (0, start, c, s)"
| "overlap_loop env new lst (node # rest) start c s =
     (case overlap_node env new node start lst c s of
        (r, c1, s1) \<Rightarrow>
          if r \<noteq> 0 then (r, start, c1, s1)
          else overlap_loop env new lst (iter_from s start lst rest) (min (it_last (rng s node)) lst + 1) c1 s1)"
  by pat_completeness auto
termination
  by (relation "measure (\<lambda>(env, new, lst, xs, start, c, s). length xs)") (auto simp: iter_from_def length_dropWhile_le less_Suc_eq_le)

definition svm_range_handle_overlap ::
  "svm_env \<Rightarrow> svm_range \<Rightarrow> u64 \<Rightarrow> u64 \<Rightarrow> svm_state \<Rightarrow> int \<times> u64 \<times> change \<times> svm_state" where
  "svm_range_handle_overlap env new start lst s =
     (case overlap_loop env new lst (iter_from s start lst (objects s)) start \<lparr>update_list = [], insert_list = [], remove_list = []\<rparr> s of
        (r, start', c, s1) \<Rightarrow>
          if r \<noteq> 0 then (r, 0, c, fold (svm_range_free env) (insert_list c) s1)
          else (0, if start' \<le> lst then lst - start' + 1 else 0, c, s1))"

text \<open>\<open>None\<close> is the use of the \<open>NULL\<close> that \<open>svm_range_new\<close> returns without memory.\<close>

definition svm_range_add :: "svm_env \<Rightarrow> u64 \<Rightarrow> u64 \<Rightarrow> svm_attribute list \<Rightarrow> svm_state \<Rightarrow> (int \<times> change \<times> svm_state) option" where
  "svm_range_add env start sz attrs s =
     (let lst = start + sz - 1
      in case svm_range_handle_overlap env (svm_range_apply_attrs env attrs zero_range) start lst s of
           (r, left, c, s1) \<Rightarrow>
             if r \<noteq> 0 then Some (r, c, s1)
             else if left = 0 then Some (0, c, s1)
             else (case svm_range_new env (lst - left + 1) lst s1 of
                     (None, _) \<Rightarrow> None
                   | (Some n, s2) \<Rightarrow> Some (0, c\<lparr>insert_list := n # insert_list c, update_list := n # update_list c\<rparr>, s2)))"


section \<open>Setting attributes\<close>

text \<open>The loop over the areas of the address space; \<open>None\<close> is a loop that does not end.\<close>

partial_function (option) svm_valid_loop :: "svm_env \<Rightarrow> u64 \<Rightarrow> u64 \<Rightarrow> bool option" where
  "svm_valid_loop env start end_addr =
     (case find_vma env start of
        None \<Rightarrow> Some False
      | Some v \<Rightarrow>
          if start < vm_start v \<or> vm_device v then Some False
          else if min end_addr (vm_end v) < end_addr then svm_valid_loop env (min end_addr (vm_end v)) end_addr
          else Some True)"

definition svm_range_is_valid :: "svm_env \<Rightarrow> u64 \<Rightarrow> u64 \<Rightarrow> bool option" where
  "svm_range_is_valid env start sz = svm_valid_loop env (push_bit 12 start) (push_bit 12 start + push_bit 12 sz)"

text \<open>The location to prefetch to: the loop over the GPUs that may access the range.\<close>

fun prefetch_loop :: "svm_env \<Rightarrow> nat \<Rightarrow> u32 \<Rightarrow> nat list \<Rightarrow> u32" where
  "prefetch_loop env bo_adev loc [] = loc"
| "prefetch_loop env bo_adev loc (g # gs) =
     (if opu_process_device_from_gpuidx env g = None \<or> g = bo_adev \<or> same_hive env g bo_adev then prefetch_loop env bo_adev loc gs else 0)"

definition svm_range_get_adev_by_id :: "svm_env \<Rightarrow> u32 \<Rightarrow> nat option" where
  "svm_range_get_adev_by_id env gpu_id =
     (let i = opu_process_gpuidx_from_gpuid env gpu_id
      in if i < 0 \<or> opu_process_device_from_gpuidx env (nat i) = None then None else Some (nat i))"

definition svm_range_best_prefetch_location :: "svm_env \<Rightarrow> svm_range \<Rightarrow> u32" where
  "svm_range_best_prefetch_location env x =
     (if xnack_enabled env then prefetch_loc x
      else if prefetch_loc x = 0 \<or> prefetch_loc x = loc_undefined env then prefetch_loc x
      else case svm_range_get_adev_by_id env (prefetch_loc x) of
             None \<Rightarrow> 0
           | Some a \<Rightarrow> prefetch_loop env a (prefetch_loc x) (filter (\<lambda>g. bitmap_access x g \<or> bitmap_aip x g) [0..<MAX_GPU_INSTANCE]))"

definition svm_range_trigger_migration :: "svm_env \<Rightarrow> nat \<Rightarrow> svm_state \<Rightarrow> int \<times> bool \<times> svm_state" where
  "svm_range_trigger_migration env r s =
     (let loc = svm_range_best_prefetch_location env (rng s r)
      in if loc = loc_undefined env \<or> loc = actual_loc (rng s r) then (0, False, s)
         else case (if loc = 0 then migrate_vram_to_ram env r s else migrate_to_vram env r loc s) of (e, s1) \<Rightarrow> (e, e = 0, s1))"

fun migrate_loop :: "svm_env \<Rightarrow> nat list \<Rightarrow> svm_state \<Rightarrow> int \<times> svm_state" where
  "migrate_loop env [] s = (0, s)"
| "migrate_loop env (r # rs) s =
     (case svm_range_trigger_migration env r s of
        (e, migrated, s1) \<Rightarrow>
          if e \<noteq> 0 then (e, s1)
          else if migrated \<and> \<not> xnack_enabled env then migrate_loop env rs s1
          else case validate_and_map env r s1 of (e, s2) \<Rightarrow> if e \<noteq> 0 then (e, s2) else migrate_loop env rs s2)"

text \<open>The transaction: insert, update, remove.\<close>

definition insert_range :: "nat \<Rightarrow> svm_state \<Rightarrow> svm_state" where
  "insert_range r s = svm_range_add_notifier_locked r (svm_range_add_to_svms r s)"

definition remove_range :: "svm_env \<Rightarrow> nat \<Rightarrow> svm_state \<Rightarrow> svm_state" where
  "remove_range env r s = svm_range_free env r (svm_range_unlink r s)"

definition apply_change :: "svm_env \<Rightarrow> svm_attribute list \<Rightarrow> change \<Rightarrow> svm_state \<Rightarrow> svm_state" where
  "apply_change env attrs c s =
     fold (remove_range env) (remove_list c)
       (fold (\<lambda>r. upd_r r (svm_range_apply_attrs env attrs)) (update_list c) (fold insert_range (insert_list c) s))"

section \<open>Reading attributes\<close>

text \<open>The values collected over the ranges: the flags say what is still asked for.\<close>

record attr_values =
  get_preferred :: bool
  get_prefetch :: bool
  get_accessible :: bool
  get_flags :: bool
  get_granularity :: bool
  v_location :: u32
  v_prefetch :: u32
  v_access :: bitmap
  v_aip :: bitmap
  v_flags :: u32
  v_granularity :: u8

definition merge_location :: "svm_env \<Rightarrow> u32 \<Rightarrow> u32 \<Rightarrow> bool \<times> u32" where
  "merge_location env acc loc =
     (if loc = loc_undefined env \<or> (acc \<noteq> loc_undefined env \<and> acc \<noteq> loc) then (False, loc_undefined env) else (True, loc))"

definition collect_attrs :: "svm_env \<Rightarrow> svm_range \<Rightarrow> attr_values \<Rightarrow> attr_values" where
  "collect_attrs env x v =
     (let v1 = (if get_preferred v then
                  (case merge_location env (v_location v) (preferred_loc x) of (g, l) \<Rightarrow> v\<lparr>get_preferred := g, v_location := l\<rparr>) else v);
          v2 = (if get_prefetch v1 then
                  (case merge_location env (v_prefetch v1) (prefetch_loc x) of (g, l) \<Rightarrow> v1\<lparr>get_prefetch := g, v_prefetch := l\<rparr>) else v1);
          v3 = (if get_accessible v2 then v2\<lparr>v_access := (\<lambda>g. v_access v2 g \<and> bitmap_access x g), v_aip := (\<lambda>g. v_aip v2 g \<and> bitmap_aip x g)\<rparr> else v2);
          v4 = (if get_flags v3 then v3\<lparr>v_flags := v_flags v3 AND rflags x\<rparr> else v3)
      in if get_granularity v4 \<and> granularity x < v_granularity v4 then v4\<lparr>v_granularity := granularity x\<rparr> else v4)"

fun wanted_attrs :: "svm_attribute list \<Rightarrow> attr_values \<Rightarrow> attr_values option" where
  "wanted_attrs [] v = Some v"
| "wanted_attrs (a # as) v =
     (case fst a of
        OPU_IOCTL_SVM_ATTR_PREFERRED_LOC \<Rightarrow> wanted_attrs as (v\<lparr>get_preferred := True\<rparr>)
      | OPU_IOCTL_SVM_ATTR_PREFETCH_LOC \<Rightarrow> wanted_attrs as (v\<lparr>get_prefetch := True\<rparr>)
      | OPU_IOCTL_SVM_ATTR_ACCESS \<Rightarrow> wanted_attrs as (v\<lparr>get_accessible := True\<rparr>)
      | OPU_IOCTL_SVM_ATTR_SET_FLAGS \<Rightarrow> wanted_attrs as (v\<lparr>get_flags := True\<rparr>)
      | OPU_IOCTL_SVM_ATTR_GRANULARITY \<Rightarrow> wanted_attrs as (v\<lparr>get_granularity := True\<rparr>)
      | _ \<Rightarrow> None)"

text \<open>Filling in the values: an unknown GPU ends it.\<close>

fun fill_values :: "svm_env \<Rightarrow> attr_values \<Rightarrow> svm_attribute list \<Rightarrow> int \<times> svm_attribute list" where
  "fill_values env v [] = (0, [])"
| "fill_values env v (a # as) =
     (let go = (\<lambda>b. case fill_values env v as of (r, bs) \<Rightarrow> (r, b # bs))
      in case fst a of
           OPU_IOCTL_SVM_ATTR_PREFERRED_LOC \<Rightarrow> go (fst a, v_location v)
         | OPU_IOCTL_SVM_ATTR_PREFETCH_LOC \<Rightarrow> go (fst a, v_prefetch v)
         | OPU_IOCTL_SVM_ATTR_ACCESS \<Rightarrow>
             (let g = opu_process_gpuidx_from_gpuid env (snd a)
              in if g < 0 then (- EINVAL, a # as)
                 else if v_access v (nat g) then go (OPU_IOCTL_SVM_ATTR_ACCESS, snd a)
                 else if v_aip v (nat g) then go (OPU_IOCTL_SVM_ATTR_ACCESS_IN_PLACE, snd a)
                 else go (OPU_IOCTL_SVM_ATTR_NO_ACCESS, snd a))
         | OPU_IOCTL_SVM_ATTR_SET_FLAGS \<Rightarrow> go (fst a, v_flags v)
         | OPU_IOCTL_SVM_ATTR_GRANULARITY \<Rightarrow> go (fst a, ucast (v_granularity v))
         | _ \<Rightarrow> go a)"

text \<open>The nodes that overlap, in the order of the iteration, which looks each one up from its predecessor.\<close>

definition default_values :: "svm_env \<Rightarrow> svm_state \<Rightarrow> attr_values \<Rightarrow> attr_values" where
  "default_values env s v =
     (let x = svm_range_set_default_attributes env zero_range
      in v\<lparr>v_location := preferred_loc x, v_prefetch := prefetch_loc x, v_granularity := granularity x, v_flags := rflags x,
           v_access := (if xnack_enabled env then bitmap_supported s else (\<lambda>_. False)), v_aip := (\<lambda>_. False)\<rparr>)"

function collect_loop :: "svm_env \<Rightarrow> svm_state \<Rightarrow> u64 \<Rightarrow> u64 \<Rightarrow> nat list \<Rightarrow> attr_values \<Rightarrow> attr_values" where
  "collect_loop env s start lst [] v = v"
| "collect_loop env s start lst (node # rest) v =
     collect_loop env s start lst (iter_from s start lst rest) (collect_attrs env (rng s node) v)"
  by pat_completeness auto
termination
  by (relation "measure (\<lambda>(env, s, start, lst, xs, v). length xs)") (auto simp: iter_from_def length_dropWhile_le less_Suc_eq_le)

definition svm_range_get_attr ::
  "svm_env \<Rightarrow> u64 \<Rightarrow> u64 \<Rightarrow> svm_attribute list \<Rightarrow> svm_state \<Rightarrow> (int \<times> svm_attribute list) option" where
  "svm_range_get_attr env start sz attrs s =
     (let lst = start + sz - 1;
          v0 = \<lparr>get_preferred = False, get_prefetch = False, get_accessible = False, get_flags = False, get_granularity = False,
                v_location = loc_undefined env, v_prefetch = loc_undefined env, v_access = bitmap_supported s, v_aip = bitmap_supported s,
                v_flags = 0xffffffff, v_granularity = 0xff\<rparr>
      in case svm_range_is_valid env start sz of
           None \<Rightarrow> None
         | Some False \<Rightarrow> Some (- EINVAL, attrs)
         | Some True \<Rightarrow>
             (case wanted_attrs attrs v0 of
                None \<Rightarrow> Some (- EINVAL, attrs)
              | Some v \<Rightarrow>
                  (case iter_from s start lst (objects s) of
                     [] \<Rightarrow> Some (fill_values env (default_values env s v) attrs)
                   | nodes \<Rightarrow> Some (fill_values env (collect_loop env s start lst nodes v) attrs))))"

end
