(* ===== verification/Opu_Svm_Work.thy ===== *)
theory Opu_Svm_Work
  imports Opu_Svm
begin

text \<open>
  The rest of \<open>opu_svm.c\<close> that changes ranges: the work that the notifiers of the address space leave for
  later, page faults of the GPUs, and the two requests of a process, which wait for that work first.
\<close>

section \<open>Deferred work\<close>

definition svm_range_add_child :: "nat \<Rightarrow> nat \<Rightarrow> svm_work_list_ops \<Rightarrow> svm_state \<Rightarrow> svm_state" where
  "svm_range_add_child prange pchild wop s =
     upd_r prange (\<lambda>x. x\<lparr>child_list := child_list x @ [pchild]\<rparr>) (upd_r pchild (\<lambda>x. x\<lparr>work_op := wop\<rparr>) s)"

definition svm_range_update_notifier_and_interval_tree :: "nat \<Rightarrow> svm_state \<Rightarrow> svm_state" where
  "svm_range_update_notifier_and_interval_tree r s =
     (let start = drop_bit 12 (fst (notif (rng s r))); lst = drop_bit 12 (snd (notif (rng s r)))
      in if rstart (rng s r) = start \<and> rlast (rng s r) = lst then s
         else
           let s1 = (if start \<noteq> 0 \<and> lst \<noteq> 0 then interval_tree_remove r s else s);
               s2 = upd_r r (\<lambda>x. x\<lparr>it_start := rstart x, it_last := rlast x\<rparr>) s1
           in svm_range_add_notifier_locked r (interval_tree_insert r s2))"

definition svm_range_handle_list_op :: "svm_env \<Rightarrow> nat \<Rightarrow> svm_state \<Rightarrow> svm_state" where
  "svm_range_handle_list_op env r s =
     (case work_op (rng s r) of
        SVM_OP_NULL \<Rightarrow> s
      | SVM_OP_UNMAP_RANGE \<Rightarrow> remove_range env r s
      | SVM_OP_UPDATE_RANGE_NOTIFIER \<Rightarrow> svm_range_update_notifier_and_interval_tree r s
      | SVM_OP_UPDATE_RANGE_NOTIFIER_AND_MAP \<Rightarrow> svm_range_update_notifier_and_interval_tree r s
      | SVM_OP_ADD_RANGE \<Rightarrow> insert_range r s
      | SVM_OP_ADD_RANGE_AND_MAP \<Rightarrow> insert_range r s)"

text \<open>One entry of the deferred list: its children in order, then the range itself.\<close>

definition handle_child :: "svm_env \<Rightarrow> nat \<Rightarrow> nat \<Rightarrow> svm_state \<Rightarrow> svm_state" where
  "handle_child env r c s = svm_range_handle_list_op env c (upd_r r (\<lambda>x. x\<lparr>child_list := remove1 c (child_list x)\<rparr>) s)"

definition handle_deferred :: "svm_env \<Rightarrow> nat \<Rightarrow> svm_state \<Rightarrow> svm_state" where
  "handle_deferred env r s =
     (let s1 = s\<lparr>deferred_range_list := remove1 r (deferred_range_list s)\<rparr>
      in svm_range_handle_list_op env r (fold (handle_child env r) (child_list (rng s1 r)) s1))"

definition svm_range_deferred_list_work :: "svm_env \<Rightarrow> svm_state \<Rightarrow> svm_state" where
  "svm_range_deferred_list_work env s = fold (handle_deferred env) (deferred_range_list s) s"

definition svm_range_add_list_work :: "nat \<Rightarrow> svm_work_list_ops \<Rightarrow> svm_state \<Rightarrow> svm_state" where
  "svm_range_add_list_work r wop s =
     (if r \<in> set (deferred_range_list s)
      then (if wop \<noteq> SVM_OP_NULL \<and> work_op (rng s r) \<noteq> SVM_OP_UNMAP_RANGE then upd_r r (\<lambda>x. x\<lparr>work_op := wop\<rparr>) s else s)
      else (upd_r r (\<lambda>x. x\<lparr>work_op := wop\<rparr>) s)\<lparr>deferred_range_list := deferred_range_list s @ [r]\<rparr>)"

section \<open>Unmapped memory\<close>

text \<open>A refused split (\<open>-EINVAL\<close>) leaves the pointer alone; \<open>None\<close> is the use of the \<open>NULL\<close> that a split
  without memory leaves.\<close>

definition split_ptr :: "nat \<Rightarrow> int \<times> nat option \<times> svm_state \<Rightarrow> nat option \<times> svm_state" where
  "split_ptr keep res = (case res of (r, p, s) \<Rightarrow> (if r = - EINVAL then Some keep else p, s))"

definition svm_range_unmap_split :: "svm_env \<Rightarrow> nat \<Rightarrow> nat \<Rightarrow> u64 \<Rightarrow> u64 \<Rightarrow> svm_state \<Rightarrow> svm_state option" where
  "svm_range_unmap_split env parent prange start lst s =
     (if work_op (rng s prange) = SVM_OP_UNMAP_RANGE then Some s
      else if rlast (rng s prange) < start \<or> lst < rstart (rng s prange) then Some s
      else
        case (if rstart (rng s prange) < start then
                split_ptr prange (svm_range_split env prange (rstart (rng s prange)) (start - 1) s)
              else (Some prange, s)) of
          (None, _) \<Rightarrow> None
        | (Some tail, s1) \<Rightarrow>
            (case (if lst < rlast (rng s1 tail) then
                     split_ptr prange (svm_range_split env tail (lst + 1) (rlast (rng s1 tail)) s1)
                   else (Some prange, s1)) of
               (None, _) \<Rightarrow> None
             | (Some head, s2) \<Rightarrow>
                 Some (if head \<noteq> prange \<and> tail \<noteq> prange
                       then svm_range_add_child parent tail SVM_OP_ADD_RANGE (svm_range_add_child parent head SVM_OP_UNMAP_RANGE s2)
                       else if tail \<noteq> prange then svm_range_add_child parent tail SVM_OP_UNMAP_RANGE s2
                       else if head \<noteq> prange then svm_range_add_child parent head SVM_OP_UNMAP_RANGE s2
                       else if parent \<noteq> prange then upd_r prange (\<lambda>x. x\<lparr>work_op := SVM_OP_UNMAP_RANGE\<rparr>) s2
                       else s2)))"

text \<open>The loop over the children reads the list while it grows: children that the loop adds are visited too.\<close>

fun unmap_children :: "svm_env \<Rightarrow> nat \<Rightarrow> u64 \<Rightarrow> u64 \<Rightarrow> nat \<Rightarrow> nat \<Rightarrow> svm_state \<Rightarrow> svm_state option" where
  "unmap_children env prange start lst i 0 s = (if i < length (child_list (rng s prange)) then None else Some s)"
| "unmap_children env prange start lst i (Suc fuel) s =
     (if i < length (child_list (rng s prange))
      then (case svm_range_unmap_split env prange (child_list (rng s prange) ! i) start lst s of
              None \<Rightarrow> None
            | Some s1 \<Rightarrow> unmap_children env prange start lst (Suc i) fuel s1)
      else Some s)"

definition svm_range_unmap_from_cpu :: "svm_env \<Rightarrow> nat \<Rightarrow> nat \<Rightarrow> u64 \<Rightarrow> u64 \<Rightarrow> svm_state \<Rightarrow> svm_state option" where
  "svm_range_unmap_from_cpu env fuel prange start lst s =
     (let unmap_parent = (start \<le> rstart (rng s prange) \<and> rlast (rng s prange) \<le> lst)
      in case unmap_children env prange start lst 0 fuel s of
           None \<Rightarrow> None
         | Some s1 \<Rightarrow>
             (case svm_range_unmap_split env prange prange start lst s1 of
                None \<Rightarrow> None
              | Some s2 \<Rightarrow> Some (svm_range_add_list_work prange (if unmap_parent then SVM_OP_UNMAP_RANGE else SVM_OP_UPDATE_RANGE_NOTIFIER) s2)))"

text \<open>A range shrinks to the block of its granularity around an address.\<close>

definition svm_range_split_by_granularity :: "svm_env \<Rightarrow> u64 \<Rightarrow> nat \<Rightarrow> nat \<Rightarrow> svm_state \<Rightarrow> int \<times> svm_state" where
  "svm_range_split_by_granularity env addr parent prange s =
     (let sz = push_bit (unat (granularity (rng s prange))) 1 :: u64;
          start = addr AND NOT (sz - 1);
          lst = ((addr + 1 + (sz - 1)) AND NOT (sz - 1)) - 1
      in case (if rstart (rng s prange) < start then
                 (case svm_range_split env prange start (rlast (rng s prange)) s of
                    (r, Some head, s1) \<Rightarrow> (r, svm_range_add_child parent head SVM_OP_ADD_RANGE s1)
                  | (r, None, s1) \<Rightarrow> (r, s1))
               else (0, s)) of
           (r, s1) \<Rightarrow>
             if r \<noteq> 0 then (r, s1)
             else case (if lst < rlast (rng s1 prange) then
                          (case svm_range_split env prange (rstart (rng s1 prange)) lst s1 of
                             (r, Some tail, s2) \<Rightarrow> (r, svm_range_add_child parent tail SVM_OP_ADD_RANGE s2)
                           | (r, None, s2) \<Rightarrow> (r, s2))
                        else (0, s1)) of
                    (r, s2) \<Rightarrow>
                      if r \<noteq> 0 then (r, s2)
                      else (0, if xnack_enabled env \<and> work_op (rng s2 prange) = SVM_OP_ADD_RANGE
                               then upd_r prange (\<lambda>x. x\<lparr>work_op := SVM_OP_ADD_RANGE_AND_MAP\<rparr>) s2 else s2))"

section \<open>Faults\<close>

text \<open>The range of an address and its parent.\<close>

definition svm_range_from_addr :: "svm_state \<Rightarrow> u64 \<Rightarrow> (nat \<times> nat) option" where
  "svm_range_from_addr s addr =
     (case iter_from s addr addr (objects s) of
        [] \<Rightarrow> None
      | prange # _ \<Rightarrow>
          if rstart (rng s prange) \<le> addr \<and> addr \<le> rlast (rng s prange) then Some (prange, prange)
          else map_option (\<lambda>c. (c, prange)) (List.find (\<lambda>c. rstart (rng s c) \<le> addr \<and> addr \<le> rlast (rng s c)) (child_list (rng s prange))))"

definition svm_range_skip_recover :: "svm_state \<Rightarrow> nat \<Rightarrow> bool" where
  "svm_range_skip_recover s r \<longleftrightarrow>
     (r \<in> set (deferred_range_list s) \<or> child_list (rng s r) \<noteq> []) \<and>
     work_op (rng s r) \<in> {SVM_OP_UNMAP_RANGE, SVM_OP_ADD_RANGE_AND_MAP, SVM_OP_ADD_RANGE}"

text \<open>The GPU is given by its index, \<open>None\<close> when the process has no data for it. The location \<open>None\<close> is \<open>-1\<close>.\<close>

definition svm_range_best_restore_location :: "svm_env \<Rightarrow> svm_range \<Rightarrow> nat option \<Rightarrow> u32 option" where
  "svm_range_best_restore_location env x gpu =
     (case gpu of
        None \<Rightarrow> None
      | Some g \<Rightarrow>
          (case opu_process_device_from_gpuidx env g of
             None \<Rightarrow> None
           | Some gpuid \<Rightarrow>
               if preferred_loc x = gpuid then Some (preferred_loc x)
               else if bitmap_access x g then Some gpuid
               else if bitmap_aip x g then
                 (if actual_loc x = 0 then Some 0
                  else case svm_range_get_adev_by_id env (actual_loc x) of
                         Some b \<Rightarrow> if same_hive env g b then Some (actual_loc x) else Some 0
                       | None \<Rightarrow> Some 0)
               else None))"

text \<open>The free space around an address: at most the 2 MiB block, inside the area, between the ranges.\<close>

definition svm_range_get_range_boundaries :: "svm_env \<Rightarrow> u64 \<Rightarrow> svm_state \<Rightarrow> (u64 \<times> u64) option" where
  "svm_range_get_range_boundaries env addr s =
     (case find_vma env (push_bit 12 addr) of
        None \<Rightarrow> None
      | Some v \<Rightarrow>
          if push_bit 12 addr < vm_start v then None
          else
            let start_limit = max (drop_bit 12 (vm_start v)) (addr AND NOT (512 - 1));
                end_limit = min (drop_bit 12 (vm_end v)) ((addr + 1 + (512 - 1)) AND NOT (512 - 1));
                after = iter_from s (addr + 1) (- 1) (objects s);
                end_limit' = (case after of [] \<Rightarrow> end_limit | n # _ \<Rightarrow> min end_limit (it_start (rng s n)));
                before = take (length (objects s) - length after) (objects s)
            in if before = [] then Some (start_limit, end_limit' - 1)
               else let n = List.last before
                    in if addr \<le> it_last (rng s n) then None
                       else Some (max start_limit (it_last (rng s n) + 1), end_limit' - 1))"

definition svm_range_create_unregistered_range :: "svm_env \<Rightarrow> nat option \<Rightarrow> u64 \<Rightarrow> svm_state \<Rightarrow> nat option \<times> svm_state" where
  "svm_range_create_unregistered_range env gpu addr s =
     (case svm_range_get_range_boundaries env addr s of
        None \<Rightarrow> (None, s)
      | Some (start, lst) \<Rightarrow>
          (case svm_range_new env start lst s of
             (None, s1) \<Rightarrow> (None, s1)
           | (Some r, s1) \<Rightarrow> if gpu = None then (None, svm_range_free env r s1) else (Some r, insert_range r s1)))"

text \<open>A fault of a GPU with retry. \<open>gpu\<close> is its index in the process, \<open>recent\<close> tells that the range was restored
  just now. \<open>None\<close> is the use of \<open>NULL\<close> in \<open>svm_range_count_fault\<close>, which takes the list of ranges from the range.\<close>

abbreviation EAGAIN :: int where "EAGAIN \<equiv> 11"
abbreviation EACCES :: int where "EACCES \<equiv> 13"
abbreviation ESRCH :: int where "ESRCH \<equiv> 3"

definition restore_migrate :: "svm_env \<Rightarrow> nat \<Rightarrow> u32 \<Rightarrow> svm_state \<Rightarrow> int \<times> svm_state" where
  "restore_migrate env r best_loc s =
     (if actual_loc (rng s r) = best_loc then (0, s)
      else if best_loc = 0 then migrate_vram_to_ram env r s
      else case migrate_to_vram env r best_loc s of (e, s1) \<Rightarrow>
             if e = 0 then (0, s1) else if actual_loc (rng s1 r) \<noteq> 0 then migrate_vram_to_ram env r s1 else (0, s1))"

definition restore_range :: "svm_env \<Rightarrow> nat option \<Rightarrow> (nat \<Rightarrow> bool) \<Rightarrow> nat \<Rightarrow> svm_state \<Rightarrow> int \<times> svm_state" where
  "restore_range env gpu recent r s =
     (if svm_range_skip_recover s r \<or> recent r then (0, s)
      else case svm_range_best_restore_location env (rng s r) gpu of
             None \<Rightarrow> (- EACCES, s)
           | Some best_loc \<Rightarrow>
               (case restore_migrate env r best_loc s of (e, s1) \<Rightarrow>
                  if e \<noteq> 0 then (e, s1) else validate_gpu env (the gpu) r s1))"

definition svm_range_restore_pages ::
  "svm_env \<Rightarrow> bool \<Rightarrow> bool \<Rightarrow> bool \<Rightarrow> nat option \<Rightarrow> (nat \<Rightarrow> bool) \<Rightarrow> u64 \<Rightarrow> svm_state \<Rightarrow> (int \<times> svm_state) option" where
  "svm_range_restore_pages env svm_api process_found mm_found gpu recent addr s =
     (if \<not> svm_api then Some (- EFAULT, s)
      else if \<not> process_found then Some (- ESRCH, s)
      else if \<not> xnack_enabled env then Some (- EFAULT, s)
      else if \<not> mm_found then Some (- ESRCH, s)
      else case (case svm_range_from_addr s addr of
                   Some (r, _) \<Rightarrow> (Some r, s)
                 | None \<Rightarrow> svm_range_create_unregistered_range env gpu addr s) of
             (None, _) \<Rightarrow> None
           | (Some r, s1) \<Rightarrow> (case restore_range env gpu recent r s1 of (e, s2) \<Rightarrow> Some (if e = - EAGAIN then 0 else e, s2)))"

section \<open>The requests of a process\<close>

definition svm_range_set_attr :: "svm_env \<Rightarrow> u64 \<Rightarrow> u64 \<Rightarrow> svm_attribute list \<Rightarrow> svm_state \<Rightarrow> (int \<times> svm_state) option" where
  "svm_range_set_attr env start sz attrs s =
     (if svm_range_check_attr env s attrs \<noteq> 0 then Some (svm_range_check_attr env s attrs, s)
      else
        let s1 = svm_range_deferred_list_work env s
        in case svm_range_is_valid env start sz of
             None \<Rightarrow> None
           | Some False \<Rightarrow> Some (- EFAULT, s1)
           | Some True \<Rightarrow>
               (case svm_range_add env start sz attrs s1 of
                  None \<Rightarrow> None
                | Some (r, c, s2) \<Rightarrow>
                    if r \<noteq> 0 then Some (r, s2) else Some (migrate_loop env (update_list c) (apply_change env attrs c s2))))"

datatype svm_op = OPU_IOCTL_SVM_OP_SET_ATTR | OPU_IOCTL_SVM_OP_GET_ATTR | SVM_OP_OTHER

definition svm_ioctl :: "svm_env \<Rightarrow> svm_op \<Rightarrow> u64 \<Rightarrow> u64 \<Rightarrow> svm_attribute list \<Rightarrow> svm_state \<Rightarrow> (int \<times> svm_attribute list \<times> svm_state) option" where
  "svm_ioctl env op start sz attrs s =
     (case op of
        OPU_IOCTL_SVM_OP_SET_ATTR \<Rightarrow> map_option (\<lambda>(r, t). (r, attrs, t)) (svm_range_set_attr env (drop_bit 12 start) (drop_bit 12 sz) attrs s)
      | OPU_IOCTL_SVM_OP_GET_ATTR \<Rightarrow> map_option (\<lambda>(r, as). (r, as, s)) (svm_range_get_attr env (drop_bit 12 start) (drop_bit 12 sz) attrs s)
      | SVM_OP_OTHER \<Rightarrow> Some (EINVAL, attrs, s))"

definition opu_ioctl_svm :: "svm_env \<Rightarrow> svm_op \<Rightarrow> u64 \<Rightarrow> u64 \<Rightarrow> svm_attribute list \<Rightarrow> svm_state \<Rightarrow> (int \<times> svm_attribute list \<times> svm_state) option" where
  "opu_ioctl_svm env op start_addr sz attrs s =
     (if start_addr AND 0xFFF \<noteq> 0 \<or> sz AND 0xFFF \<noteq> 0 then Some (- EINVAL, attrs, s)
      else if start_addr = 0 \<or> sz = 0 then Some (- EINVAL, attrs, s)
      else svm_ioctl env op start_addr sz attrs s)"

definition svm_range_list_init :: "svm_env \<Rightarrow> (nat \<Rightarrow> bool) \<Rightarrow> svm_state \<Rightarrow> svm_state" where
  "svm_range_list_init env svm_supported s =
     s\<lparr>objects := [], svm_list := [], deferred_range_list := [], evicted_ranges := 0,
       bitmap_supported := fold (\<lambda>i b. if svm_supported i then set_bit_at i b else b) [0..<length (pdd_ids env)] (bitmap_supported s)\<rparr>"

definition svm_range_list_fini :: "svm_env \<Rightarrow> svm_state \<Rightarrow> svm_state" where
  "svm_range_list_fini env s = (let s1 = svm_range_deferred_list_work env s in fold (remove_range env) (svm_list s1) s1)"

end
