(* ===== verification/Opu_Svm_Split.thy ===== *)
theory Opu_Svm_Split
  imports Opu_Svm_Work
begin

text \<open>
  Splitting a range: the two parts have its pages, its attributes, and for every page the DMA address and the
  place in video memory that the page had.
\<close>

section \<open>Words\<close>

lemma unat_lt2p_u64: "unat (m :: u64) < 2 ^ 64"
  using unsigned_less [of m] by simp

lemma word_le_pred: "0 < x \<Longrightarrow> y \<le> x - 1 \<longleftrightarrow> y < (x :: u64)"
proof -
  assume "0 < x"
  then have "unat (x - 1) = unat x - 1" "0 < unat x" by (simp_all add: unat_minus_one unat_gt_0 word_gt_0)
  then show ?thesis by (simp add: word_le_nat_alt word_less_nat_alt) arith
qed

lemma word_succ_le: "x < m \<Longrightarrow> x + 1 \<le> y \<longleftrightarrow> x < (y :: u64)"
proof -
  assume "x < m"
  then have "unat x + 1 < 2 ^ 64" using unat_lt2p_u64 [of m] by (simp add: word_less_nat_alt)
  then have "unat (x + 1) = unat x + 1" by (simp add: unat_word_ariths)
  then show ?thesis by (simp add: word_le_nat_alt word_less_nat_alt Suc_le_eq)
qed

lemma word_less_succ: "x < m \<Longrightarrow> y < x + 1 \<longleftrightarrow> y \<le> (x :: u64)"
  by (metis word_succ_le linorder_not_le)

section \<open>Frames\<close>

text \<open>What a range says about its pages: its interval and its attributes.\<close>

definition covers :: "svm_range \<Rightarrow> u64 \<Rightarrow> bool" where
  "covers x pg \<longleftrightarrow> rstart x \<le> pg \<and> pg \<le> rlast x"

definition attrs_of :: "svm_range \<Rightarrow> svm_range" where
  "attrs_of x = zero_range\<lparr>rflags := rflags x, preferred_loc := preferred_loc x, prefetch_loc := prefetch_loc x, granularity := granularity x,
     bitmap_access := bitmap_access x, bitmap_aip := bitmap_aip x\<rparr>"

text \<open>The lists of ranges stay, and so do the ranges outside a set.\<close>

definition same_lists :: "svm_state \<Rightarrow> svm_state \<Rightarrow> bool" where
  "same_lists s t \<longleftrightarrow> objects t = objects s \<and> svm_list t = svm_list s \<and> deferred_range_list t = deferred_range_list s \<and>
     bitmap_supported t = bitmap_supported s"

definition touches :: "nat set \<Rightarrow> svm_state \<Rightarrow> svm_state \<Rightarrow> bool" where
  "touches N s t \<longleftrightarrow> same_lists s t \<and> allocs s \<le> allocs t \<and> (\<forall>x. x \<notin> N \<longrightarrow> rng t x = rng s x)"

lemma touches_refl [simp]: "touches N s s"
  by (simp add: touches_def same_lists_def)

lemma touches_trans: "touches N s t \<Longrightarrow> touches M t u \<Longrightarrow> touches (N \<union> M) s u"
  by (auto simp: touches_def same_lists_def)

lemma touches_mono: "touches N s t \<Longrightarrow> N \<subseteq> M \<Longrightarrow> touches M s t"
  by (auto simp: touches_def)

lemma upd_r_sel [simp]:
  "rng (upd_r r f s) = (rng s)(r := f (rng s r))" "objects (upd_r r f s) = objects s" "svm_list (upd_r r f s) = svm_list s"
  "deferred_range_list (upd_r r f s) = deferred_range_list s" "bitmap_supported (upd_r r f s) = bitmap_supported s" "allocs (upd_r r f s) = allocs s"
  "bo_kref (upd_r r f s) = bo_kref s" "bo_range_list (upd_r r f s) = bo_range_list s"
  by (simp_all add: upd_r_def)

lemma share_bo_sel [simp]:
  "rng (share_bo r bo s) = (rng s)(r := (rng s r)\<lparr>svm_bo := bo\<rparr>)" "objects (share_bo r bo s) = objects s" "svm_list (share_bo r bo s) = svm_list s"
  "deferred_range_list (share_bo r bo s) = deferred_range_list s" "bitmap_supported (share_bo r bo s) = bitmap_supported s"
  "allocs (share_bo r bo s) = allocs s"
  by (simp_all add: share_bo_def Let_def split: option.splits)

lemma svm_range_new_cases:
  assumes "svm_range_new env start lst s = (res, t)"
  obtains (fail) "res = None" "t = s\<lparr>allocs := Suc (allocs s)\<rparr>" "\<not> alloc_ok env (allocs s)"
    | (ok) "res = Some (allocs s)" "t = s\<lparr>allocs := Suc (allocs s), rng := (rng s)(allocs s := new_range env s start lst)\<rparr>"
  using assms by (auto simp: svm_range_new_def Let_def split: if_splits)

lemma new_range_sel [simp]:
  "rstart (new_range env s a b) = a" "rlast (new_range env s a b) = b" "npages (new_range env s a b) = b - a + 1"
  "child_list (new_range env s a b) = []" "dma_addr (new_range env s a b) = (\<lambda>_. None)" "work_op (new_range env s a b) = SVM_OP_NULL"
  "it_start (new_range env s a b) = 0" "it_last (new_range env s a b) = 0" "notif (new_range env s a b) = (0, 0)"
  by (simp_all add: new_range_def svm_range_set_default_attributes_def zero_range_def)

section \<open>The arrays of DMA addresses\<close>

text \<open>Both arrays of a split, when the allocations succeed for all GPUs.\<close>

definition split_dma :: "svm_range \<Rightarrow> svm_range \<Rightarrow> u64 \<Rightarrow> nat \<Rightarrow> (u64 list \<times> u64 list) option" where
  "split_dma old new n g = map_option (\<lambda>xs. (take (unat (npages new)) (drop (unat (rstart new - rstart old)) xs),
     take (unat n) (drop (if rstart new = rstart old then unat (npages new) else 0) xs))) (dma_addr old g)"

definition same_but_dma :: "svm_range \<Rightarrow> svm_range \<Rightarrow> bool" where
  "same_but_dma x y \<longleftrightarrow> (\<exists>d. y = x\<lparr>dma_addr := d\<rparr>)"

lemma same_but_dma_sel:
  assumes "same_but_dma x y"
  shows "rstart y = rstart x" "rlast y = rlast x" "npages y = npages x" "attrs_of y = attrs_of x" "actual_loc y = actual_loc x"
    "ttm_res y = ttm_res x" "roffset y = roffset x" "svm_bo y = svm_bo x" "child_list y = child_list x" "work_op y = work_op x" "notif y = notif x"
    "it_start y = it_start x" "it_last y = it_last x" "rflags y = rflags x" "preferred_loc y = preferred_loc x" "prefetch_loc y = prefetch_loc x"
    "granularity y = granularity x" "bitmap_access y = bitmap_access x" "bitmap_aip y = bitmap_aip x"
  using assms by (auto simp: same_but_dma_def attrs_of_def)

lemma same_but_dma_upd: "same_but_dma x y \<Longrightarrow> same_but_dma x (y\<lparr>dma_addr := d\<rparr>)"
  by (auto simp: same_but_dma_def)

text \<open>The GPUs in \<open>G\<close> have been split.\<close>

definition dma_split_at :: "nat set \<Rightarrow> nat \<Rightarrow> nat \<Rightarrow> u64 \<Rightarrow> svm_state \<Rightarrow> svm_state \<Rightarrow> bool" where
  "dma_split_at G new old n s t \<longleftrightarrow> touches {new, old} s t \<and>
     same_but_dma (rng s old) (rng t old) \<and> same_but_dma (rng s new) (rng t new) \<and>
     (\<forall>g. dma_addr (rng t old) g = (if g \<in> G then map_option snd (split_dma (rng s old) (rng s new) n g) else dma_addr (rng s old) g)) \<and>
     (\<forall>g. dma_addr (rng t new) g = (if g \<in> G \<and> dma_addr (rng s old) g \<noteq> None then map_option fst (split_dma (rng s old) (rng s new) n g)
       else dma_addr (rng s new) g))"

lemma dma_split_step:
  assumes a: "dma_split_at G new old n s0 s" and "new \<noteq> old" and "rng s1 = rng s" and "touches {} s s1"
    and p: "parts = split_dma (rng s0 old) (rng s0 new) n g"
  shows "dma_split_at (insert g G) new old n s0 (case parts of None \<Rightarrow> s1
    | Some (xs, ys) \<Rightarrow> upd_r new (\<lambda>x. x\<lparr>dma_addr := (dma_addr x)(g := Some xs)\<rparr>) (upd_r old (\<lambda>x. x\<lparr>dma_addr := (dma_addr x)(g := Some ys)\<rparr>) s1))"
proof (cases "dma_addr (rng s0 old) g")
  case None
  then have "parts = None" by (simp add: p split_dma_def)
  moreover have "touches {new, old} s0 s1" using touches_trans [of "{new, old}" s0 s "{}" s1] a assms(4) by (simp add: dma_split_at_def)
  ultimately show ?thesis using a None assms(3) unfolding dma_split_at_def by (simp add: split_dma_def)
next
  case (Some zs)
  then obtain xs ys where x: "parts = Some (xs, ys)" by (auto simp: p split_dma_def)
  let ?t = "upd_r new (\<lambda>x. x\<lparr>dma_addr := (dma_addr x)(g := Some xs)\<rparr>) (upd_r old (\<lambda>x. x\<lparr>dma_addr := (dma_addr x)(g := Some ys)\<rparr>) s1)"
  have "touches {new, old} s0 s1" using touches_trans [of "{new, old}" s0 s "{}" s1] a assms(4) by (simp add: dma_split_at_def)
  then have "touches {new, old} s0 ?t" by (auto simp: touches_def same_lists_def)
  then show ?thesis using a x assms(2,3) Some p [symmetric] unfolding dma_split_at_def by (simp add: same_but_dma_upd)
qed

lemma split_pages_loop_split:
  assumes "split_pages_loop env new old n gs s = (r, t)" and "new \<noteq> old" and "distinct gs" and "dma_split_at G new old n s0 s" and "G \<inter> set gs = {}"
  shows "(r = 0 \<longrightarrow> dma_split_at (G \<union> set gs) new old n s0 t) \<and> touches {new, old} s0 t \<and>
    same_but_dma (rng s0 old) (rng t old) \<and> same_but_dma (rng s0 new) (rng t new)"
  using assms
proof (induction gs arbitrary: s G)
  case Nil
  then show ?case by (simp add: dma_split_at_def)
next
  case (Cons g gs)
  obtain e parts s1 where 1: "svm_range_split_array env (dma_addr (rng s old) g) (rstart (rng s old)) n (rstart (rng s new)) (npages (rng s new)) s
      = (e, parts, s1)" by (metis prod_cases3)
  have g: "g \<notin> G" and tr: "touches {new, old} s0 s" using Cons.prems(4,5) by (auto simp: dma_split_at_def)
  have d: "dma_addr (rng s old) g = dma_addr (rng s0 old) g" "rstart (rng s old) = rstart (rng s0 old)" "rstart (rng s new) = rstart (rng s0 new)"
    "npages (rng s new) = npages (rng s0 new)" using Cons.prems(4) g by (simp_all add: dma_split_at_def same_but_dma_sel)
  show ?case
  proof (cases "e = 0")
    case False
    then have "t = s1" "r = e" using Cons.prems(1) 1 by simp_all
    moreover have "touches {} s s1" using 1 False by (auto simp: svm_range_split_array_def touches_def same_lists_def split: option.splits if_splits)
    moreover have "touches {new, old} s0 s1" using touches_trans [OF tr calculation(3)] by simp
    ultimately show ?thesis using False Cons.prems(4) by (simp add: dma_split_at_def touches_def)
  next
    case True
    let ?s2 = "case parts of None \<Rightarrow> s1 | Some (xs, ys) \<Rightarrow> upd_r new (\<lambda>x. x\<lparr>dma_addr := (dma_addr x)(g := Some xs)\<rparr>)
        (upd_r old (\<lambda>x. x\<lparr>dma_addr := (dma_addr x)(g := Some ys)\<rparr>) s1)"
    have l: "split_pages_loop env new old n gs ?s2 = (r, t)" using Cons.prems(1) 1 True by simp
    have "parts = split_dma (rng s0 old) (rng s0 new) n g" "rng s1 = rng s" "touches {} s s1"
      using 1 True d by (auto simp: svm_range_split_array_def split_dma_def touches_def same_lists_def split: option.splits if_splits)
    then have "dma_split_at (insert g G) new old n s0 ?s2" by (intro dma_split_step [OF Cons.prems(4,2)])
    from Cons.IH [OF l Cons.prems(2) _ this] Cons.prems(3,5) show ?thesis by simp
  qed
qed


section \<open>The split\<close>

lemma dma_split_start: "new \<noteq> old \<Longrightarrow> dma_split_at {} new old n s s"
  by (simp add: dma_split_at_def same_but_dma_def) (metis svm_range.surjective svm_range.update_convs(6))

lemma svm_range_split_pages_dma:
  assumes "svm_range_split_pages env new old start lst s = (r, t)" and "new \<noteq> old"
  shows "r = 0 \<Longrightarrow> dma_split_at {..<MAX_GPU_INSTANCE} new old (lst - start + 1) s t" and "touches {new, old} s t"
    and "same_but_dma (rng s old) (rng t old)"
  using split_pages_loop_split [OF assms(1) [unfolded svm_range_split_pages_def] assms(2) _ dma_split_start [OF assms(2)]]
  by (simp_all add: atLeast0LessThan)

text \<open>What a split leaves: the two ranges.\<close>

definition in_vram :: "svm_range \<Rightarrow> bool" where
  "in_vram x \<longleftrightarrow> actual_loc x \<noteq> 0 \<and> ttm_res x \<noteq> None"

text \<open>The remaining range \<open>y\<close> of \<open>x\<close>, and the new range \<open>z\<close> that was \<open>n\<close>.\<close>

definition split_rest :: "svm_range \<Rightarrow> svm_range \<Rightarrow> u64 \<Rightarrow> u64 \<Rightarrow> svm_range \<Rightarrow> bool" where
  "split_rest x n start lst y \<longleftrightarrow> rstart y = start \<and> rlast y = lst \<and> npages y = lst - start + 1 \<and> attrs_of y = attrs_of x \<and>
     actual_loc y = actual_loc x \<and> it_start y = it_start x \<and> it_last y = it_last x \<and> child_list y = child_list x \<and> work_op y = work_op x \<and>
     notif y = notif x \<and> ttm_res y = ttm_res x \<and> svm_bo y = svm_bo x \<and>
     (\<forall>g < MAX_GPU_INSTANCE. dma_addr y g = map_option snd (split_dma x n (lst - start + 1) g)) \<and>
     roffset y = roffset x + (if in_vram x \<and> rstart n = rstart x then npages n else 0)"

definition split_new :: "svm_range \<Rightarrow> svm_range \<Rightarrow> u64 \<Rightarrow> u64 \<Rightarrow> svm_range \<Rightarrow> bool" where
  "split_new x n start lst z \<longleftrightarrow> rstart z = rstart n \<and> rlast z = rlast n \<and> npages z = npages n \<and> attrs_of z = attrs_of x \<and>
     actual_loc z = actual_loc x \<and> it_start z = it_start n \<and> it_last z = it_last n \<and> child_list z = child_list n \<and> work_op z = work_op n \<and>
     notif z = notif n \<and>
     (\<forall>g < MAX_GPU_INSTANCE. dma_addr z g = (if dma_addr x g = None then dma_addr n g else map_option fst (split_dma x n (lst - start + 1) g))) \<and>
     (in_vram x \<longrightarrow> ttm_res z = ttm_res x \<and> svm_bo z = svm_bo x \<and> roffset z = roffset x + (if rstart n = rstart x then 0 else lst - start + 1))"

lemma svm_range_split_nodes_sel:
  fixes s :: svm_state
  assumes "t = svm_range_split_nodes new old start lst s" and "new \<noteq> old"
  shows "touches {new, old} s t"
    "rng t old = (rng s old)\<lparr>roffset := roffset (rng s old) + (if rstart (rng s new) = rstart (rng s old) then npages (rng s new) else 0)\<rparr>"
    "rng t new = (rng s new)\<lparr>roffset := roffset (rng s old) + (if rstart (rng s new) = rstart (rng s old) then 0 else lst - start + 1),
       svm_bo := svm_bo (rng s old), ttm_res := ttm_res (rng s old)\<rparr>"
  using assms by (auto simp: svm_range_split_nodes_def Let_def touches_def same_lists_def)

lemma svm_range_split_adjust_done:
  assumes "svm_range_split_adjust env new old start lst s = (r, t)" and "new \<noteq> old"
  shows "touches {new, old} s t" and "r \<noteq> 0 \<Longrightarrow> same_but_dma (rng s old) (rng t old)" and "r = 0 \<Longrightarrow> split_rest (rng s old) (rng s new) start lst (rng t old)"
    and "r = 0 \<Longrightarrow> split_new (rng s old) (rng s new) start lst (rng t new)"
proof -
  obtain r1 s1 where 1: "svm_range_split_pages env new old start lst s = (r1, s1)" by fastforce
  note d = svm_range_split_pages_dma [OF 1 assms(2)]
  define s2 where "s2 = (if actual_loc (rng s1 old) \<noteq> 0 \<and> ttm_res (rng s1 old) \<noteq> None then svm_range_split_nodes new old start lst s1 else s1)"
  have t2: "touches {new, old} s1 s2" using svm_range_split_nodes_sel(1) [OF refl assms(2)] by (simp add: s2_def)
  define s3 where "s3 = upd_r old (\<lambda>x. x\<lparr>npages := lst - start + 1, rstart := start, rlast := lst\<rparr>) s2"
  have c: "r = - EINVAL \<and> t = s \<or> r = r1 \<and> r1 \<noteq> 0 \<and> t = s1 \<or> r = 0 \<and> r1 = 0 \<and> t = upd_r new (copy_attrs (rng s3 old)) s3"
    using assms(1) 1 by (auto simp: svm_range_split_adjust_def Let_def s3_def s2_def split: if_splits)
  have "touches {new, old} s s2" using touches_trans [OF d(2) t2] by simp
  then have "touches {new, old} s (upd_r new (copy_attrs (rng s3 old)) s3)" by (auto simp: touches_def same_lists_def s3_def)
  then show "touches {new, old} s t" using c d(2) by auto
  show "same_but_dma (rng s old) (rng t old)" if "r \<noteq> 0"
    using c that d(3) dma_split_start [OF assms(2), of 0 s] by (auto simp: dma_split_at_def)
  assume r: "r = 0"
  then have r1: "r1 = 0" and t: "t = upd_r new (copy_attrs (rng s3 old)) s3" using c by auto
  note e = d(1) [OF r1]
  have o1: "same_but_dma (rng s old) (rng s1 old)" and n1: "same_but_dma (rng s new) (rng s1 new)" using e by (simp_all add: dma_split_at_def)
  have v: "actual_loc (rng s1 old) \<noteq> 0 \<and> ttm_res (rng s1 old) \<noteq> None \<longleftrightarrow> in_vram (rng s old)" by (simp add: in_vram_def same_but_dma_sel [OF o1])
  have o2: "rng s2 old = (rng s1 old)\<lparr>roffset := roffset (rng s old) + (if in_vram (rng s old) \<and> rstart (rng s new) = rstart (rng s old) then npages (rng s new) else 0)\<rparr>"
    using svm_range_split_nodes_sel(2) [OF refl assms(2), of start lst s1] unfolding s2_def v
    by (simp add: same_but_dma_sel [OF o1] same_but_dma_sel [OF n1])
  have n2: "in_vram (rng s old) \<longrightarrow> rng s2 new = (rng s1 new)\<lparr>roffset := roffset (rng s old) + (if rstart (rng s new) = rstart (rng s old) then 0 else lst - start + 1),
      svm_bo := svm_bo (rng s old), ttm_res := ttm_res (rng s old)\<rparr>" "\<not> in_vram (rng s old) \<longrightarrow> rng s2 new = rng s1 new"
    using svm_range_split_nodes_sel(3) [OF refl assms(2), of start lst s1] unfolding s2_def v
    by (simp_all add: same_but_dma_sel [OF o1] same_but_dma_sel [OF n1])
  have y: "rng t old = (rng s2 old)\<lparr>npages := lst - start + 1, rstart := start, rlast := lst\<rparr>" using assms(2) by (simp add: t s3_def)
  have z: "rng t new = copy_attrs (rng t old) (rng s2 new)" using assms(2) by (simp add: t s3_def)
  show "split_rest (rng s old) (rng s new) start lst (rng t old)"
    using e assms(2) unfolding split_rest_def y o2 by (simp add: same_but_dma_sel [OF o1] dma_split_at_def) (simp add: attrs_of_def same_but_dma_sel [OF o1])
  show "split_new (rng s old) (rng s new) start lst (rng t new)"
    using e assms(2) n2 unfolding split_new_def z y o2 copy_attrs_def
    by (cases "in_vram (rng s old)") (simp_all add: same_but_dma_sel [OF o1] same_but_dma_sel [OF n1] dma_split_at_def attrs_of_def)
qed


text \<open>What the attributes of pages depend on.\<close>

definition core :: "svm_range \<Rightarrow> svm_range" where
  "core x = x\<lparr>dma_addr := (\<lambda>_. None), ttm_res := None, roffset := 0, svm_bo := None, actual_loc := 0, invalid := 0\<rparr>"

definition keeps_core :: "nat set \<Rightarrow> svm_state \<Rightarrow> svm_state \<Rightarrow> bool" where
  "keeps_core N s t \<longleftrightarrow> same_lists s t \<and> allocs s \<le> allocs t \<and> (\<forall>x. x \<notin> N \<longrightarrow> core (rng t x) = core (rng s x))"

lemma core_sel:
  assumes "core y = core x"
  shows "rstart y = rstart x" "rlast y = rlast x" "npages y = npages x" "attrs_of y = attrs_of x" "child_list y = child_list x"
    "work_op y = work_op x" "notif y = notif x" "it_start y = it_start x" "it_last y = it_last x" "rflags y = rflags x"
    "prefetch_loc y = prefetch_loc x" "granularity y = granularity x"
  using arg_cong [OF assms, of rstart] arg_cong [OF assms, of rlast] arg_cong [OF assms, of npages] arg_cong [OF assms, of attrs_of]
    arg_cong [OF assms, of child_list] arg_cong [OF assms, of work_op] arg_cong [OF assms, of notif] arg_cong [OF assms, of it_start]
    arg_cong [OF assms, of it_last] arg_cong [OF assms, of rflags] arg_cong [OF assms, of prefetch_loc] arg_cong [OF assms, of granularity]
  by (simp_all add: core_def attrs_of_def)

lemma touches_keeps: "touches N s t \<Longrightarrow> keeps_core N s t"
  by (auto simp: touches_def keeps_core_def)

lemma keeps_core_refl [simp]: "keeps_core N s s"
  by (simp add: keeps_core_def same_lists_def)

lemma keeps_core_trans: "keeps_core N s t \<Longrightarrow> keeps_core M t u \<Longrightarrow> keeps_core (N \<union> M) s u"
  by (auto simp: keeps_core_def same_lists_def)

lemma keeps_core_mono: "keeps_core N s t \<Longrightarrow> N \<subseteq> M \<Longrightarrow> keeps_core M s t"
  by (auto simp: keeps_core_def)

lemma fold_clear_bo: "touches {} s t \<Longrightarrow> keeps_core {} s (fold (\<lambda>r. upd_r r (\<lambda>x. x\<lparr>svm_bo := None\<rparr>)) xs t)"
proof -
  have "keeps_core {} s (fold (\<lambda>r. upd_r r (\<lambda>x. x\<lparr>svm_bo := None\<rparr>)) xs t)" if "keeps_core {} s t" for t
    using that by (induction xs arbitrary: t) (simp_all add: keeps_core_def same_lists_def core_def)
  then show "touches {} s t \<Longrightarrow> keeps_core {} s (fold (\<lambda>r. upd_r r (\<lambda>x. x\<lparr>svm_bo := None\<rparr>)) xs t)" by (simp add: touches_keeps)
qed

lemma svm_range_free_keeps: "keeps_core {} s (svm_range_free env r s)"
proof -
  have "keeps_core {} s (svm_range_bo_unref bo s)" for bo
  proof (cases bo)
    case (Some b)
    let ?s = "s\<lparr>bo_kref := (bo_kref s)(b := bo_kref s b - 1)\<rparr>"
    have "touches {} s ?s" by (simp add: touches_def same_lists_def)
    from fold_clear_bo [OF this] touches_keeps [OF this] Some show ?thesis
      by (auto simp: svm_range_bo_unref_def svm_range_bo_release_def Let_def keeps_core_def same_lists_def)
  qed (simp add: svm_range_bo_unref_def)
  from this [of "svm_bo (rng s r)"] show ?thesis
    by (simp add: svm_range_free_def svm_range_free_dma_mappings_def svm_range_vram_node_free_def keeps_core_def same_lists_def core_def)
qed

lemma svm_range_split_cases:
  assumes "svm_range_split env p start lst s = (r, res, t)" and "p < allocs s"
  obtains (failed) "r \<noteq> 0" "res = None" "keeps_core {allocs s} s t"
    | (split) n where "r = 0" "res = Some (allocs s)" "touches {allocs s, p} s t" "allocs s < allocs t"
        "split_rest (rng s p) n start lst (rng t p)" "split_new (rng s p) n start lst (rng t (allocs s))"
        "n = (if rstart (rng s p) = start then new_range env s (lst + 1) (rlast (rng s p)) else new_range env s (rstart (rng s p)) (start - 1))"
        "rstart (rng s p) = start \<or> rlast (rng s p) = lst" "rstart (rng s p) \<le> start" "lst \<le> rlast (rng s p)"
proof -
  let ?x = "rng s p"
  define n where "n = (if rstart ?x = start then new_range env s (lst + 1) (rlast ?x) else new_range env s (rstart ?x) (start - 1))"
  show ?thesis
  proof (cases "rstart ?x \<noteq> start \<and> rlast ?x \<noteq> lst \<or> start < rstart ?x \<or> rlast ?x < lst")
    case True
    then have "r = - EINVAL" "res = None" "t = s" using assms(1) by (auto simp: svm_range_split_def Let_def split: if_splits)
    then show ?thesis by (intro failed) simp_all
  next
    case False
    obtain q s1 where 1: "(if rstart ?x = start then svm_range_new env (lst + 1) (rlast ?x) s else svm_range_new env (rstart ?x) (start - 1) s) = (q, s1)"
      by fastforce
    then have k: "q = None \<and> s1 = s\<lparr>allocs := Suc (allocs s)\<rparr> \<or> q = Some (allocs s) \<and> s1 = s\<lparr>allocs := Suc (allocs s), rng := (rng s)(allocs s := n)\<rparr>"
      by (auto simp: svm_range_new_def Let_def n_def split: if_splits)
    show ?thesis
    proof (cases q)
      case None
      then have "r = - ENOMEM" "res = None" "t = s1" using assms(1) False 1 by (auto simp: svm_range_split_def Let_def split: if_splits)
      then show ?thesis using k None by (intro failed) (auto simp: keeps_core_def same_lists_def)
    next
      case (Some new)
      with k have new: "new = allocs s" and s1: "s1 = s\<lparr>allocs := Suc (allocs s), rng := (rng s)(allocs s := n)\<rparr>" by auto
      obtain r2 s2 where 2: "svm_range_split_adjust env new p start lst s1 = (r2, s2)" by fastforce
      have res: "(r, res, t) = (if r2 \<noteq> 0 then (r2, None, svm_range_free env new s2) else (0, Some new, s2))"
        using assms(1) False 1 2 Some by (auto simp: svm_range_split_def Let_def split: if_splits)
      have np: "new \<noteq> p" using new assms(2) by simp
      note a = svm_range_split_adjust_done [OF 2 np]
      have s1': "rng s1 p = ?x" "rng s1 new = n" "touches {new} s s1" using np new by (simp_all add: s1 touches_def same_lists_def)
      show ?thesis
      proof (cases "r2 = 0")
        case True
        then have "r = 0" "res = Some (allocs s)" "t = s2" using res new by simp_all
        moreover have "touches {allocs s, p} s s2" using touches_trans [OF s1'(3) a(1)] new by (simp add: insert_commute)
        moreover have "allocs s < allocs s2" using a(1) by (simp add: touches_def s1)
        ultimately show ?thesis using a(3,4) [OF True] False new s1' n_def by (intro split) auto
      next
        case f: False
        have "keeps_core {new} s s2"
          using touches_trans [OF s1'(3) a(1)] a(2) [OF f] s1'(1) by (auto simp: touches_def keeps_core_def same_but_dma_def core_def)
        then have "keeps_core {new} s (svm_range_free env new s2)" using keeps_core_trans [OF _ svm_range_free_keeps] by fastforce
        then show ?thesis using res f new by (intro failed) simp_all
      qed
    qed
  qed
qed


text \<open>A split inside a range fails only without memory.\<close>

definition out_of_memory :: "svm_env \<Rightarrow> int \<Rightarrow> bool" where
  "out_of_memory env r \<longleftrightarrow> r = - ENOMEM \<and> (\<exists>n. \<not> alloc_ok env n)"

lemma split_pages_loop_error: "split_pages_loop env new old n gs s = (r, t) \<Longrightarrow> r \<noteq> 0 \<Longrightarrow> out_of_memory env r"
proof (induction gs arbitrary: s)
  case (Cons g gs)
  obtain e parts s1 where 1: "svm_range_split_array env (dma_addr (rng s old) g) (rstart (rng s old)) n (rstart (rng s new)) (npages (rng s new)) s
      = (e, parts, s1)" by (metis prod_cases3)
  then have "e \<noteq> 0 \<longrightarrow> out_of_memory env e" by (auto simp: svm_range_split_array_def out_of_memory_def split: option.splits if_splits)
  then show ?case using Cons 1 by (auto split: if_splits)
qed simp

lemma svm_range_split_error:
  assumes sp: "svm_range_split env p start lst s = (r, res, t)" and r: "r \<noteq> 0" and p: "p < allocs s"
    and b: "rstart (rng s p) \<le> start" "lst \<le> rlast (rng s p)" "start \<le> lst"
      "rstart (rng s p) = start \<and> lst < rlast (rng s p) \<or> rstart (rng s p) < start \<and> lst = rlast (rng s p)"
  shows "out_of_memory env r"
proof -
  let ?x = "rng s p"
  obtain q s1 where 1: "(if rstart ?x = start then svm_range_new env (lst + 1) (rlast ?x) s else svm_range_new env (rstart ?x) (start - 1) s) = (q, s1)"
    by fastforce
  show ?thesis
  proof (cases q)
    case None
    then have "r = - ENOMEM" using sp b 1 by (auto simp: svm_range_split_def Let_def split: if_splits)
    moreover have "\<not> alloc_ok env (allocs s)" using 1 None by (auto simp: svm_range_new_def Let_def split: if_splits)
    ultimately show ?thesis by (auto simp: out_of_memory_def)
  next
    case (Some new)
    then have n: "rng s1 p = ?x" "new \<noteq> p" "rng s1 new = (if rstart ?x = start then new_range env s (lst + 1) (rlast ?x) else new_range env s (rstart ?x) (start - 1))"
      using 1 p by (auto simp: svm_range_new_def Let_def split: if_splits)
    have "\<not> (rstart (rng s1 new) < rstart ?x \<or> rlast ?x < rlast (rng s1 new))"
    proof (cases "rstart ?x = start")
      case True
      then have "lst < rlast ?x" using b(4) by auto
      then show ?thesis using n(3) True b(3) word_less_succ [of lst "rlast ?x" start] by auto
    next
      case False
      then have "0 < start" using b(1,4) word_gt_0 [of start] by auto
      from word_le_pred [OF this, of "start - 1"] show ?thesis using n(3) False b(2,3) by auto
    qed
    then have "svm_range_split_adjust env new p start lst s1 = (case svm_range_split_pages env new p start lst s1 of (r, s1) \<Rightarrow>
        if r \<noteq> 0 then (r, s1) else
          let s2 = (if actual_loc (rng s1 p) \<noteq> 0 \<and> ttm_res (rng s1 p) \<noteq> None then svm_range_split_nodes new p start lst s1 else s1);
              s3 = upd_r p (\<lambda>x. x\<lparr>npages := lst - start + 1, rstart := start, rlast := lst\<rparr>) s2
          in (0, upd_r new (copy_attrs (rng s3 p)) s3))"
      unfolding svm_range_split_adjust_def n(1) by (rule if_not_P)
    moreover obtain r2 s2 where "svm_range_split_pages env new p start lst s1 = (r2, s2)" by fastforce
    moreover from this have "r2 \<noteq> 0 \<longrightarrow> out_of_memory env r2" using split_pages_loop_error by (simp add: svm_range_split_pages_def)
    ultimately show ?thesis using sp r b 1 Some by (auto simp: svm_range_split_def Let_def split: if_splits)
  qed
qed

section \<open>Pages of a split range\<close>

definition dma_of :: "svm_range \<Rightarrow> nat \<Rightarrow> u64 \<Rightarrow> u64 option" where
  "dma_of x g pg = map_option (\<lambda>xs. xs ! unat (pg - rstart x)) (dma_addr x g)"

definition vram_of :: "svm_range \<Rightarrow> u64 \<Rightarrow> nat option \<times> u64" where
  "vram_of x pg = (ttm_res x, roffset x + (pg - rstart x))"

definition range_wf :: "svm_range \<Rightarrow> bool" where
  "range_wf x \<longleftrightarrow> rstart x \<le> rlast x \<and> rlast x < - 1 \<and> npages x = rlast x - rstart x + 1 \<and>
     (\<forall>g xs. g < MAX_GPU_INSTANCE \<and> dma_addr x g = Some xs \<longrightarrow> length xs = unat (npages x))"

lemma unat_pages:
  fixes a b :: u64
  assumes "a \<le> b" and "b < - 1"
  shows "unat (b - a + 1) = unat b - unat a + 1"
proof -
  have "unat (b - a) = unat b - unat a" using assms(1) by (simp add: unat_sub)
  moreover have "unat b < 2 ^ 64 - 1" using assms(2) by (simp add: word_less_nat_alt unsigned_minus_1_eq_mask mask_eq_exp_minus_1)
  ultimately show ?thesis by (simp add: unat_word_ariths)
qed

lemma split_array_pages:
  fixes a b m pg :: u64
  assumes "a < m" and "m \<le> b" and "b < - 1" and "length xs = unat (b - a + 1)"
  shows "length (take (unat (b - m + 1)) (drop (unat (m - a)) xs)) = unat (b - m + 1)"
    and "length (take (unat (m - 1 - a + 1)) xs) = unat (m - 1 - a + 1)"
    and "m \<le> pg \<Longrightarrow> pg \<le> b \<Longrightarrow> take (unat (b - m + 1)) (drop (unat (m - a)) xs) ! unat (pg - m) = xs ! unat (pg - a)"
    and "a \<le> pg \<Longrightarrow> pg < m \<Longrightarrow> take (unat (m - 1 - a + 1)) xs ! unat (pg - a) = xs ! unat (pg - a)"
proof -
  have n: "unat a < unat m" "unat m \<le> unat b" using assms(1,2) by (simp_all add: word_less_nat_alt word_le_nat_alt)
  have u: "unat (b - m + 1) = unat b - unat m + 1" "unat (m - a) = unat m - unat a" "unat (b - a + 1) = unat b - unat a + 1"
    "unat (m - 1 - a + 1) = unat m - unat a"
    using unat_pages [of m b] unat_pages [of a b] assms by (simp_all add: unat_sub)
  then show "length (take (unat (b - m + 1)) (drop (unat (m - a)) xs)) = unat (b - m + 1)" "length (take (unat (m - 1 - a + 1)) xs) = unat (m - 1 - a + 1)"
    using n assms(4) by simp_all
  show "take (unat (b - m + 1)) (drop (unat (m - a)) xs) ! unat (pg - m) = xs ! unat (pg - a)" if "m \<le> pg" "pg \<le> b"
  proof -
    have "a \<le> pg" using that(1) assms(1) by simp
    then have "unat (pg - m) = unat pg - unat m" "unat (pg - a) = unat pg - unat a" "unat m \<le> unat pg" "unat pg \<le> unat b"
      using that by (simp_all add: unat_sub word_le_nat_alt)
    then show ?thesis using n u assms(4) by (simp add: nth_drop)
  qed
  show "take (unat (m - 1 - a + 1)) xs ! unat (pg - a) = xs ! unat (pg - a)" if "a \<le> pg" "pg < m"
  proof -
    have "unat (pg - a) = unat pg - unat a" "unat a \<le> unat pg" "unat pg < unat m"
      using that by (simp_all add: unat_sub word_le_nat_alt word_less_nat_alt)
    then show ?thesis using u by simp
  qed
qed


text \<open>A part of a range: it has the DMA addresses and the place in video memory of its pages.\<close>

definition part_of :: "svm_range \<Rightarrow> svm_range \<Rightarrow> bool" where
  "part_of x w \<longleftrightarrow> range_wf w \<and> (\<forall>pg. covers w pg \<longrightarrow> (\<forall>g < MAX_GPU_INSTANCE. dma_of w g pg = dma_of x g pg) \<and>
     (in_vram x \<longrightarrow> vram_of w pg = vram_of x pg))"

lemma lower_part:
  assumes x: "range_wf x" "rstart x < m" "m \<le> rlast x" and w: "rstart w = rstart x" "rlast w = m - 1" "npages w = m - 1 - rstart x + 1"
    and d: "\<forall>g < MAX_GPU_INSTANCE. dma_addr w g = map_option (take (unat (m - 1 - rstart x + 1))) (dma_addr x g)"
    and v: "in_vram x \<longrightarrow> ttm_res w = ttm_res x \<and> roffset w = roffset x"
  shows "part_of x w"
proof -
  have m: "0 < m" using x(2) word_gt_0 [of m] by auto
  have c: "covers w pg \<longleftrightarrow> rstart x \<le> pg \<and> pg < m" for pg using word_le_pred [OF m] by (simp add: covers_def w)
  have e: "rlast x < - 1" and len: "\<And>g xs. g < MAX_GPU_INSTANCE \<Longrightarrow> dma_addr x g = Some xs \<Longrightarrow> length xs = unat (rlast x - rstart x + 1)"
    using x(1) by (auto simp: range_wf_def)
  have "m - 1 < m" using word_le_pred [OF m, of "m - 1"] by simp
  then have b: "rstart x \<le> m - 1" "m - 1 < - 1" using word_le_pred [OF m, of "rstart x"] x(2,3) e by simp_all
  note p = split_array_pages [OF x(2,3) e len]
  have "range_wf w" using b d p(2) by (auto simp: range_wf_def w)
  moreover have "dma_of w g pg = dma_of x g pg" if "covers w pg" "g < MAX_GPU_INSTANCE" for g pg
    using that c d p(4) by (cases "dma_addr x g") (auto simp: dma_of_def w)
  ultimately show ?thesis using v by (simp add: part_of_def vram_of_def w)
qed

lemma upper_part:
  assumes x: "range_wf x" "rstart x < m" "m \<le> rlast x" and w: "rstart w = m" "rlast w = rlast x" "npages w = rlast x - m + 1"
    and d: "\<forall>g < MAX_GPU_INSTANCE. dma_addr w g = map_option (\<lambda>xs. take (unat (rlast x - m + 1)) (drop (unat (m - rstart x)) xs)) (dma_addr x g)"
    and v: "in_vram x \<longrightarrow> ttm_res w = ttm_res x \<and> roffset w = roffset x + (m - rstart x)"
  shows "part_of x w"
proof -
  have e: "rlast x < - 1" and len: "\<And>g xs. g < MAX_GPU_INSTANCE \<Longrightarrow> dma_addr x g = Some xs \<Longrightarrow> length xs = unat (rlast x - rstart x + 1)"
    using x(1) by (auto simp: range_wf_def)
  note p = split_array_pages [OF x(2,3) e len]
  have "range_wf w" using x(3) e d p(1) by (auto simp: range_wf_def w)
  moreover have "dma_of w g pg = dma_of x g pg" if "covers w pg" "g < MAX_GPU_INSTANCE" for g pg
    using that d p(3) by (cases "dma_addr x g") (auto simp: dma_of_def covers_def w)
  ultimately show ?thesis using v by (simp add: part_of_def vram_of_def w)
qed

text \<open>
  C19. Splitting a range loses nothing. When \<open>svm_range_split\<close> of a range succeeds and leaves a rest, every page of
  the old range is in exactly one of the two ranges, with the attributes and the location of the old range;
  for every GPU a page keeps_core its DMA address, and a range in video memory keeps_core for each page the place in its
  buffer; both ranges have as many pages, and as long arrays, as their interval needs. No other range changes.
\<close>
theorem svm_range_split_keeps_pages:
  assumes "svm_range_split env p start lst s = (0, Some new, t)" and "p < allocs s" and "range_wf (rng s p)" and "start \<le> lst"
    and "rstart (rng s p) \<noteq> start \<or> rlast (rng s p) \<noteq> lst"
  shows "(\<forall>pg. covers (rng s p) pg \<longleftrightarrow> covers (rng t p) pg \<noteq> covers (rng t new) pg) \<and>
    (\<forall>x\<in>{p, new}. range_wf (rng t x) \<and> attrs_of (rng t x) = attrs_of (rng s p) \<and> actual_loc (rng t x) = actual_loc (rng s p) \<and>
       (\<forall>pg. covers (rng t x) pg \<longrightarrow> (\<forall>g < MAX_GPU_INSTANCE. dma_of (rng t x) g pg = dma_of (rng s p) g pg) \<and>
          (in_vram (rng s p) \<longrightarrow> vram_of (rng t x) pg = vram_of (rng s p) pg))) \<and>
    (\<forall>x. x \<noteq> p \<and> x \<noteq> new \<longrightarrow> rng t x = rng s x)"
proof -
  let ?x = "rng s p" and ?y = "rng t p" and ?z = "rng t new"
  obtain n where new: "new = allocs s" and tch: "touches {allocs s, p} s t" and y: "split_rest ?x n start lst ?y" and z: "split_new ?x n start lst ?z"
    and n: "n = (if rstart ?x = start then new_range env s (lst + 1) (rlast ?x) else new_range env s (rstart ?x) (start - 1))"
    and b: "rstart ?x = start \<or> rlast ?x = lst" "rstart ?x \<le> start" "lst \<le> rlast ?x"
    using assms(1,2) by (cases rule: svm_range_split_cases) auto
  have w: "rstart ?x \<le> rlast ?x" "rlast ?x < - 1" "npages ?x = rlast ?x - rstart ?x + 1"
    "\<And>g xs. g < MAX_GPU_INSTANCE \<Longrightarrow> dma_addr ?x g = Some xs \<Longrightarrow> length xs = unat (rlast ?x - rstart ?x + 1)"
    using assms(3) by (auto simp: range_wf_def)
  define m where "m = (if rstart ?x = start then lst + 1 else start)"
  have m: "rstart ?x < m" "m \<le> rlast ?x" and yz: "if rstart ?x = start
      then rstart ?y = rstart ?x \<and> rlast ?y = m - 1 \<and> rstart ?z = m \<and> rlast ?z = rlast ?x \<and> n = new_range env s m (rlast ?x) \<and> lst = m - 1
      else rstart ?z = rstart ?x \<and> rlast ?z = m - 1 \<and> rstart ?y = m \<and> rlast ?y = rlast ?x \<and> n = new_range env s (rstart ?x) (m - 1) \<and> lst = rlast ?x \<and> start = m"
  proof -
    have l: "rstart ?x = start \<longrightarrow> lst < rlast ?x" using assms(5) b(3) by auto
    have lm: "lst < - 1" using b(3) w(2) by simp
    then show "rstart ?x < m" "m \<le> rlast ?x"
      using l b assms(4) word_succ_le [OF lm] word_less_succ [OF lm] by (auto simp: m_def)
    have "lst + 1 - 1 = lst" by simp
    then show "if rstart ?x = start
      then rstart ?y = rstart ?x \<and> rlast ?y = m - 1 \<and> rstart ?z = m \<and> rlast ?z = rlast ?x \<and> n = new_range env s m (rlast ?x) \<and> lst = m - 1
      else rstart ?z = rstart ?x \<and> rlast ?z = m - 1 \<and> rstart ?y = m \<and> rlast ?y = rlast ?x \<and> n = new_range env s (rstart ?x) (m - 1) \<and> lst = rlast ?x \<and> start = m"
      using y z n b(1) by (auto simp: split_rest_def split_new_def m_def)
  qed
  have parts: "part_of ?x ?y \<and> part_of ?x ?z"
  proof (cases "rstart ?x = start")
    case True
    have "part_of ?x ?y"
      using y yz True m(1) by (intro lower_part [OF assms(3) m]) (auto simp: split_rest_def split_dma_def option.map_comp comp_def in_vram_def)
    moreover have "part_of ?x ?z"
      using z yz True m(1) by (intro upper_part [OF assms(3) m]) (auto simp: split_new_def split_dma_def option.map_comp comp_def split: option.splits)
    ultimately show ?thesis by simp
  next
    case False
    have "part_of ?x ?y"
      using y yz False m(1) by (intro upper_part [OF assms(3) m]) (auto simp: split_rest_def split_dma_def option.map_comp comp_def)
    moreover have "part_of ?x ?z"
      using z yz False m(1) by (intro lower_part [OF assms(3) m]) (auto simp: split_new_def split_dma_def option.map_comp comp_def split: option.splits)
    ultimately show ?thesis by simp
  qed
  have "0 < m" using m(1) word_gt_0 [of m] by auto
  then have c: "covers ?x pg \<longleftrightarrow> covers ?y pg \<noteq> covers ?z pg" for pg
    using yz m word_le_pred [of m pg] by (auto simp: covers_def split: if_splits)
  have "attrs_of ?y = attrs_of ?x" "actual_loc ?y = actual_loc ?x" "attrs_of ?z = attrs_of ?x" "actual_loc ?z = actual_loc ?x"
    using y z by (simp_all add: split_rest_def split_new_def)
  then show ?thesis using parts c tch new by (simp add: part_of_def touches_def)
qed

text \<open>A process with one GPU and one area of memory, and two ranges: the pages 16 to 31 on the GPU, and 40 to 47.\<close>

definition ex_env :: "bool \<Rightarrow> svm_env" where
  "ex_env mem = \<lparr>alloc_ok = (\<lambda>_. mem), pdd_ids = [Some 7], xnack_enabled = False,
     find_vma = (\<lambda>a. if a < 0x100000 then Some \<lparr>vm_start = 0x1000, vm_end = 0x100000, vm_device = False\<rparr> else None),
     loc_sysmem = 0, loc_undefined = 0xffffffff, flag_host_access = 1, flag_coherent = 2, same_hive = (\<lambda>_ _. False),
     migrate_vram_to_ram = (\<lambda>r s. (0, s)), migrate_to_vram = (\<lambda>r l s. (0, s)), validate_and_map = (\<lambda>r s. (0, s)), validate_gpu = (\<lambda>g r s. (0, s))\<rparr>"

definition ex_range :: "u64 \<Rightarrow> u64 \<Rightarrow> svm_range" where
  "ex_range a b = zero_range\<lparr>rstart := a, rlast := b, it_start := a, it_last := b, npages := b - a + 1, granularity := 9, rflags := 3,
     notif := (push_bit 12 a, push_bit 12 a + push_bit 12 (b - a + 1) - 1)\<rparr>"

definition ex_svms :: svm_state where
  "ex_svms = \<lparr>rng = (\<lambda>r. if r = 0 then (ex_range 16 31)\<lparr>actual_loc := 7, ttm_res := Some 0, svm_bo := Some 0, roffset := 100,
        dma_addr := (\<lambda>g. if g = 0 then Some (map (\<lambda>i. 0x5000 + of_nat i) [0..<16]) else None)\<rparr> else ex_range 40 47),
     objects = [0, 1], svm_list = [0, 1], deferred_range_list = [], bitmap_supported = (\<lambda>i. i = 0), evicted_ranges = 0,
     bo_kref = (\<lambda>_. 1), bo_range_list = (\<lambda>b. if b = 0 then [0] else []), allocs = 2\<rparr>"

lemma ex_split: "\<exists>t. svm_range_split (ex_env True) 0 20 31 ex_svms = (0, Some 2, t)"
proof -
  have "(\<lambda>(r, n, t). (r, n)) (svm_range_split (ex_env True) 0 20 31 ex_svms) = (0, Some 2)" by code_simp
  then show ?thesis by (cases "svm_range_split (ex_env True) 0 20 31 ex_svms") auto
qed

lemma ex_range_wf: "range_wf (rng ex_svms 0)"
  by (simp add: range_wf_def ex_svms_def ex_range_def zero_range_def)

theorem svm_range_split_keeps_pages_witness:
  "\<exists>t. svm_range_split (ex_env True) 0 20 31 ex_svms = (0, Some 2, t) \<and>
    dma_of (rng t 0) 0 25 = dma_of (rng ex_svms 0) 0 25 \<and> vram_of (rng t 0) 25 = vram_of (rng ex_svms 0) 25 \<and>
    covers (rng t 0) 25 \<noteq> covers (rng t 2) 25 \<and> attrs_of (rng t 2) = attrs_of (rng ex_svms 0)"
proof -
  obtain t where t: "svm_range_split (ex_env True) 0 20 31 ex_svms = (0, Some 2, t)" using ex_split by blast
  have b: "0 < allocs ex_svms" "(20 :: u64) \<le> 31" "rstart (rng ex_svms 0) \<noteq> 20 \<or> rlast (rng ex_svms 0) \<noteq> 31"
    "in_vram (rng ex_svms 0)" "covers (rng ex_svms 0) 25"
    by (simp_all add: ex_svms_def ex_range_def zero_range_def in_vram_def covers_def)
  note k = svm_range_split_keeps_pages [OF t b(1) ex_range_wf b(2,3)]
  have "rstart (rng t 0) = 20" "rlast (rng t 0) = 31"
    using t b(1) by (auto elim!: svm_range_split_cases simp: split_rest_def)
  then have "covers (rng t 0) 25" by (simp add: covers_def)
  then show ?thesis using k b(4,5) t by auto
qed

end
