(* ===== verification/Opu_Svm_Overlap.thy ===== *)
theory Opu_Svm_Overlap
  imports Opu_Svm_Split
begin

text \<open>
  The ranges that overlap an interval: cloning and splitting one of them gives ranges without common pages that
  cover what it covered, and the loop over all of them gives a change of the set of ranges whose effect on every
  page is known.
\<close>

section \<open>Sets of ranges and their pages\<close>

definition default_attrs :: "svm_env \<Rightarrow> svm_state \<Rightarrow> svm_range" where
  "default_attrs env s = attrs_of (new_range env s 0 0)"

lemma attrs_of_new_range [simp]: "attrs_of (new_range env s a b) = default_attrs env s"
  by (simp add: default_attrs_def new_range_def attrs_of_def svm_range_set_default_attributes_def zero_range_def)

lemma default_attrs_cong: "bitmap_supported t = bitmap_supported s \<Longrightarrow> default_attrs env t = default_attrs env s"
  by (simp add: default_attrs_def new_range_def)

definition apart :: "svm_state \<Rightarrow> nat set \<Rightarrow> bool" where
  "apart s R \<longleftrightarrow> (\<forall>x\<in>R. \<forall>y\<in>R. \<forall>pg. covers (rng s x) pg \<and> covers (rng s y) pg \<longrightarrow> x = y)"

text \<open>The page \<open>pg\<close> belongs to a range of \<open>R\<close> with the attributes \<open>a\<close>, and \<open>u\<close> tells whether that range is in \<open>U\<close>.\<close>

definition page_is :: "svm_state \<Rightarrow> nat set \<Rightarrow> nat set \<Rightarrow> u64 \<Rightarrow> svm_range \<Rightarrow> bool \<Rightarrow> bool" where
  "page_is s R U pg a u \<longleftrightarrow> (\<exists>x\<in>R. covers (rng s x) pg \<and> attrs_of (rng s x) = a \<and> (x \<in> U) = u)"

text \<open>A range that is not in the tree yet, and the ids of a later part of the run.\<close>

definition fresh :: "svm_range \<Rightarrow> bool" where
  "fresh x \<longleftrightarrow> 0 < rstart x \<and> rstart x \<le> rlast x \<and> rlast x < - 1 \<and> npages x = rlast x - rstart x + 1 \<and>
     child_list x = [] \<and> work_op x = SVM_OP_NULL"

lemma fresh_new_range [simp]: "fresh (new_range env s a b) \<longleftrightarrow> 0 < a \<and> a \<le> b \<and> b < - 1"
  by (simp add: fresh_def)

section \<open>One range\<close>

text \<open>The clone \<open>p\<close> of \<open>x\<close> has been cut down to the pages from \<open>lo\<close> to \<open>hi\<close>; the ranges \<open>P\<close> have the other pages.\<close>

definition cut :: "svm_range \<Rightarrow> nat \<Rightarrow> nat \<Rightarrow> nat list \<Rightarrow> u64 \<Rightarrow> u64 \<Rightarrow> svm_state \<Rightarrow> bool" where
  "cut x A p P lo hi s \<longleftrightarrow> distinct (p # P) \<and> set (p # P) \<subseteq> {A..<allocs s} \<and>
     (\<forall>y\<in>set (p # P). fresh (rng s y) \<and> attrs_of (rng s y) = attrs_of x) \<and> apart s (set (p # P)) \<and>
     rstart (rng s p) = lo \<and> rlast (rng s p) = hi \<and> rstart x \<le> lo \<and> lo \<le> hi \<and> hi \<le> rlast x \<and>
     (\<forall>pg. (\<exists>y\<in>set P. covers (rng s y) pg) \<longleftrightarrow> covers x pg \<and> \<not> (lo \<le> pg \<and> pg \<le> hi))"

lemma split_done:
  assumes "svm_range_split env p start lst s = (0, res, t)" and "p < allocs s"
  obtains n where "res = Some (allocs s)" "touches {allocs s, p} s t" "allocs s < allocs t"
    "split_rest (rng s p) n start lst (rng t p)" "split_new (rng s p) n start lst (rng t (allocs s))"
    "n = (if rstart (rng s p) = start then new_range env s (lst + 1) (rlast (rng s p)) else new_range env s (rstart (rng s p)) (start - 1))"
  using assms by (cases rule: svm_range_split_cases) auto

lemma cut_split:
  assumes c: "cut x A p P lo hi s" and tch: "touches {allocs s, p} s t" and al: "allocs s < allocs t"
    and fr: "fresh (rng t p)" "fresh (rng t (allocs s))" "attrs_of (rng t p) = attrs_of (rng s p)" "attrs_of (rng t (allocs s)) = attrs_of (rng s p)"
    and b: "rstart (rng t p) = lo'" "rlast (rng t p) = hi'" "lo \<le> lo'" "hi' \<le> hi"
    and new: "\<And>pg. covers (rng t (allocs s)) pg \<longleftrightarrow> lo \<le> pg \<and> pg \<le> hi \<and> \<not> (lo' \<le> pg \<and> pg \<le> hi')"
  shows "cut x A p (allocs s # P) lo' hi' t"
proof -
  have ids: "distinct (p # P)" "set (p # P) \<subseteq> {A..<allocs s}" using c by (auto simp: cut_def)
  then have n: "allocs s \<notin> set (p # P)" by auto
  have same: "rng t y = rng s y" if "y \<in> set P" for y
  proof -
    have "y \<noteq> p" "y \<noteq> allocs s" using that ids(1) n by auto
    then show ?thesis using tch by (simp add: touches_def)
  qed
  have le: "lo' \<le> hi'" using fr(1) b(1,2) by (simp add: fresh_def)
  have pc: "covers (rng s p) pg \<longleftrightarrow> lo \<le> pg \<and> pg \<le> hi" for pg using c by (auto simp: cut_def covers_def)
  have pt: "covers (rng t p) pg \<longleftrightarrow> lo' \<le> pg \<and> pg \<le> hi'" for pg using b by (simp add: covers_def)
  have ap: "apart t (set (p # allocs s # P))"
  proof -
    have 1: "\<not> (covers (rng s y) pg \<and> lo \<le> pg \<and> pg \<le> hi)" if "y \<in> set P" for y pg using c that by (auto simp: cut_def)
    have 2: "covers (rng t y) pg \<Longrightarrow> \<not> covers (rng t p) pg \<and> \<not> covers (rng t (allocs s)) pg" if "y \<in> set P" for y pg
      using 1 [OF that, of pg] same [OF that] b(3,4) unfolding pt new by (metis order_trans)
    have 3: "\<not> (covers (rng t p) pg \<and> covers (rng t (allocs s)) pg)" for pg unfolding pt new by blast
    have 4: "covers (rng t y) pg \<and> covers (rng t z) pg \<longrightarrow> y = z" if "y \<in> set P" "z \<in> set P" for y z pg
      using c that unfolding cut_def apart_def same [OF that(1)] same [OF that(2)] by (meson list.set_intros(2))
    show ?thesis unfolding apart_def using 2 3 4 by simp blast
  qed
  have cov: "(\<exists>y\<in>set (allocs s # P). covers (rng t y) pg) \<longleftrightarrow> covers x pg \<and> \<not> (lo' \<le> pg \<and> pg \<le> hi')" for pg
  proof -
    have "(\<exists>y\<in>set P. covers (rng t y) pg) \<longleftrightarrow> covers x pg \<and> \<not> (lo \<le> pg \<and> pg \<le> hi)" using c same by (simp add: cut_def)
    moreover have "lo \<le> pg \<and> pg \<le> hi \<longrightarrow> covers x pg" using c by (auto simp: cut_def covers_def)
    ultimately show ?thesis using b(3,4) by (simp add: new) (metis order_trans)
  qed
  have ids': "distinct (p # allocs s # P)" "set (p # allocs s # P) \<subseteq> {A..<allocs t}" using ids n al by auto
  have fr': "\<forall>y\<in>set (p # allocs s # P). fresh (rng t y) \<and> attrs_of (rng t y) = attrs_of x"
    using c fr same by (simp add: cut_def)
  show ?thesis using c ids' fr' ap cov b le by (auto simp: cut_def)
qed

lemma cut_bounds:
  assumes "cut x A p P lo hi s"
  shows "p < allocs s" "rstart (rng s p) = lo" "rlast (rng s p) = hi" "0 < lo" "lo \<le> hi" "hi < - 1" "child_list (rng s p) = []"
    "work_op (rng s p) = SVM_OP_NULL"
  using assms by (auto simp: cut_def fresh_def)

lemma cut_head:
  assumes c: "cut x A p P lo hi s" and sp: "svm_range_split env p m hi s = (0, res, t)" and m: "lo < m" "m \<le> hi"
  shows "res = Some (allocs s) \<and> cut x A p (allocs s # P) m hi t \<and> touches {allocs s, p} s t"
proof -
  note b = cut_bounds [OF c]
  from sp b(1) show ?thesis
  proof (rule split_done)
    fix n assume r: "res = Some (allocs s)" "touches {allocs s, p} s t" "allocs s < allocs t"
      "split_rest (rng s p) n m hi (rng t p)" "split_new (rng s p) n m hi (rng t (allocs s))"
      and n: "n = (if rstart (rng s p) = m then new_range env s (hi + 1) (rlast (rng s p)) else new_range env s (rstart (rng s p)) (m - 1))"
    have n': "n = new_range env s lo (m - 1)" using n m(1) b(2) by simp
    have m0: "0 < m" using m(1) b(4) by simp
    have e: "rstart (rng t p) = m" "rlast (rng t p) = hi" "rstart (rng t (allocs s)) = lo" "rlast (rng t (allocs s)) = m - 1"
      using r(4,5) n' by (simp_all add: split_rest_def split_new_def)
    have lm: "lo \<le> m - 1" "m - 1 < m" using word_le_pred [OF m0] m(1) word_le_pred [OF m0, of "m - 1"] by simp_all
    have "fresh (rng t p)" "fresh (rng t (allocs s))"
      using r(4,5) n' b m lm by (auto simp: split_rest_def split_new_def fresh_def)
    moreover have "covers (rng t (allocs s)) pg \<longleftrightarrow> lo \<le> pg \<and> pg \<le> hi \<and> \<not> (m \<le> pg \<and> pg \<le> hi)" for pg
      using word_le_pred [OF m0, of pg] m(2) by (auto simp: covers_def e)
    ultimately have "cut x A p (allocs s # P) m hi t"
      using r e m(1) by (intro cut_split [OF c r(2,3)]) (simp_all add: split_rest_def split_new_def)
    then show ?thesis using r by simp
  qed
qed

lemma cut_tail:
  assumes c: "cut x A p P lo hi s" and sp: "svm_range_split env p lo m s = (0, res, t)" and m: "lo \<le> m" "m < hi"
  shows "res = Some (allocs s) \<and> cut x A p (allocs s # P) lo m t \<and> touches {allocs s, p} s t"
proof -
  note b = cut_bounds [OF c]
  from sp b(1) show ?thesis
  proof (rule split_done)
    fix n assume r: "res = Some (allocs s)" "touches {allocs s, p} s t" "allocs s < allocs t"
      "split_rest (rng s p) n lo m (rng t p)" "split_new (rng s p) n lo m (rng t (allocs s))"
      and n: "n = (if rstart (rng s p) = lo then new_range env s (m + 1) (rlast (rng s p)) else new_range env s (rstart (rng s p)) (lo - 1))"
    have n': "n = new_range env s (m + 1) hi" using n b(2,3) by simp
    have e: "rstart (rng t p) = lo" "rlast (rng t p) = m" "rstart (rng t (allocs s)) = m + 1" "rlast (rng t (allocs s)) = hi"
      using r(4,5) n' by (simp_all add: split_rest_def split_new_def)
    have lm: "m + 1 \<le> hi" "0 < m + 1" using word_succ_le [OF m(2)] word_less_succ [OF m(2), of 0] m(2) by simp_all
    have "fresh (rng t p)" "fresh (rng t (allocs s))"
      using r(4,5) n' b m lm by (auto simp: split_rest_def split_new_def fresh_def)
    moreover have "covers (rng t (allocs s)) pg \<longleftrightarrow> lo \<le> pg \<and> pg \<le> hi \<and> \<not> (lo \<le> pg \<and> pg \<le> m)" for pg
      using word_succ_le [OF m(2), of pg] m by (auto simp: covers_def e)
    ultimately have "cut x A p (allocs s # P) lo m t"
      using r e m by (intro cut_split [OF c r(2,3)]) (simp_all add: split_rest_def split_new_def)
    then show ?thesis using r by simp
  qed
qed

lemma svm_range_clone_cases:
  assumes "svm_range_clone env old s = (res, t)" and "old < allocs s"
  obtains (fail) "res = None" "keeps_core {} s t" "\<not> alloc_ok env (allocs s)"
    | (ok) "res = Some (allocs s)" "touches {allocs s} s t" "allocs t = Suc (allocs s)" "rstart (rng t (allocs s)) = rstart (rng s old)"
        "rlast (rng t (allocs s)) = rlast (rng s old)" "npages (rng t (allocs s)) = rlast (rng s old) - rstart (rng s old) + 1"
        "attrs_of (rng t (allocs s)) = attrs_of (rng s old)" "child_list (rng t (allocs s)) = []" "work_op (rng t (allocs s)) = SVM_OP_NULL"
proof -
  obtain q s1 where 1: "svm_range_new env (rstart (rng s old)) (rlast (rng s old)) s = (q, s1)" by fastforce
  from 1 show ?thesis
  proof (cases rule: svm_range_new_cases)
    case fail
    then show ?thesis using assms(1) 1 by (intro that(1)) (auto simp: svm_range_clone_def keeps_core_def same_lists_def)
  next
    case ok
    define n where "n = new_range env s (rstart (rng s old)) (rlast (rng s old))"
    have "t = (let s2 = (if svm_bo (rng s1 old) \<noteq> None
           then share_bo (allocs s) (svm_bo (rng s1 old)) (upd_r (allocs s) (\<lambda>x. x\<lparr>ttm_res := ttm_res (rng s1 old), roffset := roffset (rng s1 old)\<rparr>) s1)
           else s1) in upd_r (allocs s) (copy_attrs (rng s2 old)) s2)" and res: "res = Some (allocs s)"
      using assms(1) 1 ok(1) unfolding svm_range_clone_def by (simp_all add: Let_def)
    moreover have "rng s1 (allocs s) = n" "rng s1 old = rng s old" "allocs s1 = Suc (allocs s)" using ok assms(2) by (simp_all add: n_def)
    moreover have "touches {allocs s} s s1" using ok by (simp add: touches_def same_lists_def)
    ultimately have "touches {allocs s} s t" "allocs t = Suc (allocs s)" "rstart (rng t (allocs s)) = rstart n" "rlast (rng t (allocs s)) = rlast n"
      "npages (rng t (allocs s)) = npages n" "attrs_of (rng t (allocs s)) = attrs_of (rng s old)" "child_list (rng t (allocs s)) = child_list n"
      "work_op (rng t (allocs s)) = work_op n"
      using assms(2) by (auto simp: Let_def touches_def same_lists_def copy_attrs_def attrs_of_def)
    then show ?thesis using res by (intro that(2)) (simp_all add: n_def)
  qed
qed

text \<open>A range of the tree, as the change finds it.\<close>

definition linked :: "svm_range \<Rightarrow> bool" where
  "linked x \<longleftrightarrow> fresh x \<and> it_start x = rstart x \<and> it_last x = rlast x"

lemma cut_clone:
  assumes "linked x" "touches {allocs s} s t" "allocs t = Suc (allocs s)" "rstart (rng t (allocs s)) = rstart x"
    "rlast (rng t (allocs s)) = rlast x" "npages (rng t (allocs s)) = rlast x - rstart x + 1"
    "attrs_of (rng t (allocs s)) = attrs_of x" "child_list (rng t (allocs s)) = []" "work_op (rng t (allocs s)) = SVM_OP_NULL"
  shows "cut x (allocs s) (allocs s) [] (rstart x) (rlast x) t"
  using assms by (auto simp: cut_def linked_def fresh_def apart_def covers_def)

lemma touches_later_trans: "touches {A..} s t \<Longrightarrow> touches {A..} t u \<Longrightarrow> touches {A..} s u"
  using touches_trans [of "{A..}" s t "{A..}" u] by simp

lemma keeps_core_later_trans: "keeps_core {A..} s t \<Longrightarrow> keeps_core {A..} t u \<Longrightarrow> keeps_core {A..} s u"
  using keeps_core_trans [of "{A..}" s t "{A..}" u] by simp

definition clone_head :: "svm_env \<Rightarrow> nat \<Rightarrow> u64 \<Rightarrow> nat \<Rightarrow> nat list \<Rightarrow> svm_state \<Rightarrow> int \<times> nat list \<times> svm_state" where
  "clone_head env node start p ins s = (if it_start (rng s node) < start then svm_range_split_head env p start ins s else (0, ins, s))"

definition clone_tail :: "svm_env \<Rightarrow> nat \<Rightarrow> u64 \<Rightarrow> nat \<Rightarrow> nat list \<Rightarrow> svm_state \<Rightarrow> int \<times> nat list \<times> svm_state" where
  "clone_tail env node lst p ins s = (if lst < it_last (rng s node) then svm_range_split_tail env p lst ins s else (0, ins, s))"

lemma clone_head_cut:
  assumes h: "clone_head env node start p ins s = (r, ins', t)" and c: "cut x A p P (rstart x) hi s" and x: "x = rng s node" "linked x"
    and b: "start \<le> hi"
  shows "if r = 0 then \<exists>Q. cut x A p Q (max start (rstart x)) hi t \<and> (ins = P @ I \<longrightarrow> ins' = Q @ I) \<and> touches {A..} s t
    else ins' = ins \<and> keeps_core {A..} s t \<and> out_of_memory env r"
proof -
  note cb = cut_bounds [OF c]
  have A: "A \<le> p" "A \<le> allocs s" using c by (auto simp: cut_def)
  show ?thesis
  proof (cases "rstart x < start")
    case False
    then have "max start (rstart x) = rstart x" by simp
    moreover have "r = 0" "ins' = ins" "t = s" using h False x by (simp_all add: clone_head_def linked_def)
    ultimately show ?thesis using c by auto
  next
    case True
    then have mx: "max start (rstart x) = start" by simp
    obtain res where sp: "svm_range_split env p start hi s = (r, res, t)" and ins': "ins' = (case res of Some h \<Rightarrow> h # ins | None \<Rightarrow> ins)"
      using h x True cb(3) by (auto simp: clone_head_def linked_def svm_range_split_head_def split: prod.splits option.splits)
    show ?thesis
    proof (cases "r = 0")
      case r: True
      note k = cut_head [OF c sp [unfolded r] True b]
      then have "touches {A..} s t" using A touches_mono [of "{allocs s, p}" s t "{A..}"] by simp
      then show ?thesis using k ins' r unfolding mx by (auto intro!: exI [of _ "allocs s # P"])
    next
      case False
      have "out_of_memory env r" using svm_range_split_error [OF sp False cb(1)] cb True b by (auto simp: linked_def)
      from sp cb(1) show ?thesis
        using False ins' A \<open>out_of_memory env r\<close> by (cases rule: svm_range_split_cases) (auto intro: keeps_core_mono)
    qed
  qed
qed

lemma clone_tail_cut:
  assumes h: "clone_tail env node lst p ins s = (r, ins', t)" and c: "cut x A p P lo (rlast x) s" and x: "x = rng s node" "linked x"
    and b: "lo \<le> lst"
  shows "if r = 0 then \<exists>Q. cut x A p Q lo (min lst (rlast x)) t \<and> (ins = P @ I \<longrightarrow> ins' = Q @ I) \<and> touches {A..} s t
    else ins' = ins \<and> keeps_core {A..} s t \<and> out_of_memory env r"
proof -
  note cb = cut_bounds [OF c]
  have A: "A \<le> p" "A \<le> allocs s" using c by (auto simp: cut_def)
  show ?thesis
  proof (cases "lst < rlast x")
    case False
    then have "min lst (rlast x) = rlast x" by simp
    moreover have "r = 0" "ins' = ins" "t = s" using h False x by (simp_all add: clone_tail_def linked_def)
    ultimately show ?thesis using c by auto
  next
    case True
    then have mx: "min lst (rlast x) = lst" by simp
    obtain res where sp: "svm_range_split env p lo lst s = (r, res, t)" and ins': "ins' = (case res of Some h \<Rightarrow> h # ins | None \<Rightarrow> ins)"
      using h x True cb(2) by (auto simp: clone_tail_def linked_def svm_range_split_tail_def split: prod.splits option.splits)
    show ?thesis
    proof (cases "r = 0")
      case r: True
      note k = cut_tail [OF c sp [unfolded r] b True]
      then have "touches {A..} s t" using A touches_mono [of "{allocs s, p}" s t "{A..}"] by simp
      then show ?thesis using k ins' r unfolding mx by (auto intro!: exI [of _ "allocs s # P"])
    next
      case False
      have "out_of_memory env r" using svm_range_split_error [OF sp False cb(1)] cb True b by (auto simp: linked_def)
      from sp cb(1) show ?thesis
        using False ins' A \<open>out_of_memory env r\<close> by (cases rule: svm_range_split_cases) (auto intro: keeps_core_mono)
    qed
  qed
qed

lemma overlap_clone_eq:
  "overlap_clone env node start lst c s =
     (case svm_range_clone env node s of
        (None, s1) \<Rightarrow> (- ENOMEM, node, c, s1)
      | (Some p, s1) \<Rightarrow>
          (case clone_head env node start p (p # insert_list c) s1 of
             (r, ins, s2) \<Rightarrow>
               if r \<noteq> 0 then (r, p, c\<lparr>remove_list := node # remove_list c, insert_list := ins\<rparr>, s2)
               else case clone_tail env node lst p ins s2 of
                      (r, ins', s3) \<Rightarrow> (r, p, c\<lparr>remove_list := node # remove_list c, insert_list := ins'\<rparr>, s3)))"
  by (simp add: overlap_clone_def clone_head_def clone_tail_def Let_def split: option.splits prod.splits if_splits)

lemma overlap_clone_cut:
  assumes o: "overlap_clone env node start lst c s = (r, p, c1, t)" and n: "node < allocs s" and x: "x = rng s node" "linked x"
    and b: "start \<le> lst" "rstart x \<le> lst" "start \<le> rlast x"
  shows "if r = 0 then p = allocs s \<and> touches {allocs s..} s t \<and> (\<exists>Q. cut x (allocs s) p Q (max start (rstart x)) (min lst (rlast x)) t \<and>
      c1 = c\<lparr>remove_list := node # remove_list c, insert_list := Q @ p # insert_list c\<rparr>)
    else keeps_core {allocs s..} s t \<and> out_of_memory env r"
proof -
  let ?A = "allocs s"
  obtain q s1 where 1: "svm_range_clone env node s = (q, s1)" by fastforce
  from 1 n show ?thesis
  proof (cases rule: svm_range_clone_cases)
    case fail
    then show ?thesis using o 1 by (auto simp: overlap_clone_eq out_of_memory_def intro: keeps_core_mono)
  next
    case ok
    have t1: "touches {?A..} s s1" using touches_mono [OF ok(2)] by simp
    have x1: "x = rng s1 node" using t1 n x(1) by (simp add: touches_def)
    obtain r2 ins s2 where 2: "clone_head env node start ?A (?A # insert_list c) s1 = (r2, ins, s2)" by (metis prod_cases3)
    have "cut x ?A ?A [] (rstart x) (rlast x) s1" using cut_clone [OF x(2) ok(2,3)] ok x(1) by simp
    note h = clone_head_cut [OF 2 this x1 x(2) b(3), of "?A # insert_list c"]
    show ?thesis
    proof (cases "r2 = 0")
      case False
      then have k: "keeps_core {?A..} s1 s2" "out_of_memory env r2" using h by simp_all
      from keeps_core_later_trans [OF touches_keeps [OF t1] k(1)] show ?thesis using o 1 ok(1) 2 False k(2) by (simp add: overlap_clone_eq)
    next
      case True
      then obtain P where P: "cut x ?A ?A P (max start (rstart x)) (rlast x) s2" "ins = P @ ?A # insert_list c" "touches {?A..} s1 s2" using h by auto
      have t2: "touches {?A..} s s2" by (rule touches_later_trans [OF t1 P(3)])
      then have x2: "x = rng s2 node" using n x(1) by (simp add: touches_def)
      obtain r3 ins' s3 where 3: "clone_tail env node lst ?A ins s2 = (r3, ins', s3)" by (metis prod_cases3)
      have "max start (rstart x) \<le> lst" using b by simp
      note g = clone_tail_cut [OF 3 P(1) x2 x(2) this, of "?A # insert_list c"]
      have e: "r = r3" "p = ?A" "c1 = c\<lparr>remove_list := node # remove_list c, insert_list := ins'\<rparr>" "t = s3"
        using o 1 ok(1) 2 True 3 by (simp_all add: overlap_clone_eq)
      show ?thesis
      proof (cases "r3 = 0")
        case True
        then obtain Q where "cut x ?A ?A Q (max start (rstart x)) (min lst (rlast x)) s3" "ins' = Q @ ?A # insert_list c" "touches {?A..} s2 s3"
          using g P(2) by auto
        then show ?thesis using e True touches_later_trans [OF t2] by auto
      next
        case False
        then show ?thesis using g e keeps_core_later_trans [OF touches_keeps [OF t2]] by simp
      qed
    qed
  qed
qed

text \<open>The node or its clone is \<open>p\<close>; \<open>P\<close> are the new ranges and \<open>D\<close> is the node when it goes.\<close>

definition staged :: "svm_range \<Rightarrow> nat \<Rightarrow> u64 \<Rightarrow> u64 \<Rightarrow> nat \<Rightarrow> nat \<Rightarrow> nat list \<Rightarrow> nat list \<Rightarrow> svm_state \<Rightarrow> bool" where
  "staged x node start lst A p P D t \<longleftrightarrow> distinct P \<and> set P \<subseteq> {A..<allocs t} \<and> (\<forall>y\<in>set P. fresh (rng t y)) \<and> (D = [] \<or> D = [node]) \<and>
     p \<in> set P \<union> ({node} - set D) \<and> apart t (set P \<union> ({node} - set D)) \<and>
     (\<forall>y\<in>set P \<union> ({node} - set D). attrs_of (rng t y) = attrs_of x) \<and>
     (\<forall>pg. covers (rng t p) pg \<longleftrightarrow> covers x pg \<and> start \<le> pg \<and> pg \<le> lst) \<and>
     (\<forall>pg. (\<exists>y\<in>set P \<union> ({node} - set D). covers (rng t y) pg) \<longleftrightarrow> covers x pg)"

lemma staged_cut:
  assumes c: "cut x A p Q (max start (rstart x)) (min lst (rlast x)) t"
  shows "staged x node start lst A p (Q @ [p]) [node] t"
proof -
  have p: "covers (rng t p) pg \<longleftrightarrow> covers x pg \<and> start \<le> pg \<and> pg \<le> lst" for pg using c by (auto simp: cut_def covers_def)
  have "(\<exists>y\<in>set Q. covers (rng t y) pg) \<longleftrightarrow> covers x pg \<and> \<not> (start \<le> pg \<and> pg \<le> lst)" for pg using c by (auto simp: cut_def covers_def)
  then show ?thesis using c p by (auto simp: staged_def cut_def insert_commute)
qed

lemma staged_keep:
  assumes "x = rng t node" "start \<le> rstart x" "rlast x \<le> lst"
  shows "staged x node start lst A node [] [] t"
  using assms by (auto simp: staged_def apart_def covers_def)

definition node_pages :: "svm_range \<Rightarrow> svm_range \<Rightarrow> svm_range \<Rightarrow> u64 \<Rightarrow> u64 \<Rightarrow> u64 \<Rightarrow> svm_range \<Rightarrow> bool \<Rightarrow> bool" where
  "node_pages d new x start lst pg a u \<longleftrightarrow>
     (if start \<le> pg \<and> pg \<le> lst \<and> pg \<le> rlast x
      then if rstart x \<le> pg then a = attrs_of x \<and> (u \<longleftrightarrow> \<not> svm_range_is_same_attrs x new) else a = d \<and> u
      else covers x pg \<and> a = attrs_of x \<and> \<not> u)"

text \<open>The ranges \<open>K\<close> that stand for one node after its round, and those among them to update.\<close>

definition node_done :: "svm_env \<Rightarrow> svm_range \<Rightarrow> svm_range \<Rightarrow> nat \<Rightarrow> u64 \<Rightarrow> u64 \<Rightarrow> svm_state \<Rightarrow> nat list \<Rightarrow> nat list \<Rightarrow> nat list \<Rightarrow> svm_state \<Rightarrow> bool" where
  "node_done env new x node start lst s U P D t \<longleftrightarrow> touches {allocs s..} s t \<and> distinct P \<and> set P \<subseteq> {allocs s..<allocs t} \<and>
     (\<forall>y\<in>set P. fresh (rng t y)) \<and> (D = [] \<or> D = [node]) \<and> distinct U \<and> set U \<subseteq> set P \<union> ({node} - set D) \<and>
     apart t (set P \<union> ({node} - set D)) \<and>
     (\<forall>pg a u. page_is t (set P \<union> ({node} - set D)) (set U) pg a u \<longleftrightarrow> node_pages (default_attrs env s) new x start lst pg a u)"

lemma same_attrs_cong: "attrs_of x = attrs_of y \<Longrightarrow> svm_range_is_same_attrs x z = svm_range_is_same_attrs y z"
  by (drule arg_cong [of _ _ "\<lambda>a. (prefetch_loc a, rflags a, granularity a)"]) (simp add: attrs_of_def svm_range_is_same_attrs_def)

lemma staged_pages:
  assumes st: "staged x node start lst A p P D t" and U: "U = (if svm_range_is_same_attrs x new then [] else [p])"
  shows "page_is t (set P \<union> ({node} - set D)) (set U) pg a u \<longleftrightarrow> covers x pg \<and> a = attrs_of x \<and>
    (u \<longleftrightarrow> \<not> svm_range_is_same_attrs x new \<and> start \<le> pg \<and> pg \<le> lst)"
proof -
  let ?K = "set P \<union> ({node} - set D)"
  have a: "\<forall>y\<in>?K. attrs_of (rng t y) = attrs_of x" and pK: "p \<in> ?K" and ap: "apart t ?K"
    and p: "covers (rng t p) pg \<longleftrightarrow> covers x pg \<and> start \<le> pg \<and> pg \<le> lst" and k: "(\<exists>y\<in>?K. covers (rng t y) pg) \<longleftrightarrow> covers x pg"
    using st unfolding staged_def by blast+
  have u: "y \<in> set U \<longleftrightarrow> \<not> svm_range_is_same_attrs x new \<and> start \<le> pg \<and> pg \<le> lst" if "y \<in> ?K" "covers (rng t y) pg" for y
  proof -
    have c: "covers x pg" using that k by blast
    have "y = p \<longleftrightarrow> start \<le> pg \<and> pg \<le> lst"
    proof
      assume "y = p" then show "start \<le> pg \<and> pg \<le> lst" using that p by blast
    next
      assume "start \<le> pg \<and> pg \<le> lst"
      then have "covers (rng t p) pg" using p c by blast
      then show "y = p" using ap that pK unfolding apart_def by blast
    qed
    then show ?thesis by (simp add: U)
  qed
  show ?thesis unfolding page_is_def using a u k by blast
qed

lemma staged_node_done:
  assumes st: "staged x node start lst (allocs s) p P D t" and U: "U = (if svm_range_is_same_attrs x new then [] else [p])"
    and tch: "touches {allocs s..} s t" and b: "rstart x \<le> start" "linked x"
  shows "node_done env new x node start lst s U P D t"
proof -
  have "page_is t (set P \<union> ({node} - set D)) (set U) pg a u \<longleftrightarrow> node_pages (default_attrs env s) new x start lst pg a u" for pg a u
    using b unfolding staged_pages [OF st U] node_pages_def covers_def by auto
  then show ?thesis using st U tch by (auto simp: node_done_def staged_def)
qed

lemma gap_node_done:
  assumes st: "staged x node start lst (allocs s) p P D t" and U: "U = (if svm_range_is_same_attrs x new then [] else [p])"
    and tch: "touches {allocs s..} s t" and n: "node < allocs s" and b: "start < rstart x" "0 < start" "rstart x \<le> lst" "linked x"
    and t': "t' = t\<lparr>allocs := Suc (allocs t), rng := (rng t)(allocs t := new_range env t start (rstart x - 1))\<rparr>"
  shows "node_done env new x node start lst s (allocs t # U) (allocs t # P) D t'"
proof -
  let ?K = "set P \<union> ({node} - set D)" and ?g = "allocs t"
  have al: "allocs s \<le> ?g" using tch by (simp add: touches_def)
  have P: "set P \<subseteq> {allocs s..<?g}" and UK: "set U \<subseteq> ?K" and D: "D = [] \<or> D = [node]" using st U by (auto simp: staged_def)
  then have g: "?g \<notin> set P" "?g \<notin> ?K" using n al by auto
  then have gU: "?g \<notin> set U" using UK by blast
  have r0: "0 < rstart x" using b(1,2) by simp
  have gc: "covers (new_range env t start (rstart x - 1)) pg \<longleftrightarrow> start \<le> pg \<and> pg < rstart x" for pg
    using word_le_pred [OF r0] by (simp add: covers_def)
  have same: "rng t' y = rng t y" if "y \<in> ?K" for y using that g by (auto simp: t')
  have new: "rng t' ?g = new_range env t start (rstart x - 1)" by (simp add: t')
  have cx: "covers (rng t y) pg \<Longrightarrow> rstart x \<le> pg" if "y \<in> ?K" for y pg using st that unfolding staged_def covers_def by blast
  have K': "set (?g # P) \<union> ({node} - set D) = insert ?g ?K" by simp
  have ap: "apart t' (insert ?g ?K)"
  proof -
    have "\<not> (covers (rng t' ?g) pg \<and> covers (rng t' y) pg)" if "y \<in> ?K" for y pg using cx [OF that, of pg] same [OF that] unfolding new gc by auto
    moreover have "covers (rng t' y) pg \<and> covers (rng t' z) pg \<longrightarrow> y = z" if "y \<in> ?K" "z \<in> ?K" for y z pg
      using st that unfolding same [OF that(1)] same [OF that(2)] staged_def apart_def by blast
    ultimately show ?thesis unfolding apart_def by blast
  qed
  have def_eq: "default_attrs env t = default_attrs env s" using tch by (intro default_attrs_cong) (simp add: touches_def same_lists_def)
  have pages: "page_is t' (insert ?g ?K) (set (?g # U)) pg a u \<longleftrightarrow> node_pages (default_attrs env s) new x start lst pg a u" for pg a u
  proof -
    have "page_is t' (insert ?g ?K) (set (?g # U)) pg a u \<longleftrightarrow>
        covers (rng t' ?g) pg \<and> attrs_of (rng t' ?g) = a \<and> u \<or> page_is t ?K (set U) pg a u"
      unfolding page_is_def using same g gU by auto
    also have "\<dots> \<longleftrightarrow> start \<le> pg \<and> pg < rstart x \<and> default_attrs env s = a \<and> u \<or> covers x pg \<and> a = attrs_of x \<and>
        (u \<longleftrightarrow> \<not> svm_range_is_same_attrs x new \<and> start \<le> pg \<and> pg \<le> lst)"
      unfolding staged_pages [OF st U] new gc by (simp add: def_eq)
    also have "\<dots> \<longleftrightarrow> node_pages (default_attrs env s) new x start lst pg a u"
      using b unfolding node_pages_def covers_def linked_def fresh_def by auto
    finally show ?thesis .
  qed
  have "fresh (rng t' ?g)"
    using b r0 word_le_pred [OF r0, of "rstart x - 1"] word_le_pred [OF r0, of start] unfolding new fresh_new_range linked_def fresh_def by auto
  moreover have "\<forall>y\<in>set P. fresh (rng t' y)" using st same by (auto simp: staged_def)
  moreover have "touches {allocs s..} s t'" using tch al by (auto simp: touches_def same_lists_def t')
  ultimately show ?thesis
    using st g gU P al ap pages UK D U unfolding node_done_def K' by (auto simp: staged_def t')
qed

lemma overlap_node_done:
  assumes o: "overlap_node env new node start lst c s = (r, c1, t)" and n: "node < allocs s" and x: "x = rng s node" "linked x"
    and b: "start \<le> lst" "rstart x \<le> lst" "start \<le> rlast x" "0 < start"
  shows "if r = 0 then \<exists>U P D. node_done env new x node start lst s U P D t \<and>
      c1 = \<lparr>update_list = U @ update_list c, insert_list = P @ insert_list c, remove_list = D @ remove_list c\<rparr>
    else keeps_core {allocs s..} s t \<and> out_of_memory env r"
proof -
  obtain r1 p c' s1 where 1: "(if it_start x < start \<or> lst < it_last x then overlap_clone env node start lst c s else (0, node, c, s)) = (r1, p, c', s1)"
    by (metis prod_cases4)
  have xi: "it_start x = rstart x" "it_last x = rlast x" using x(2) by (simp_all add: linked_def)
  show ?thesis
  proof (cases "r1 = 0")
    case False
    then have "r = r1" "t = s1" using o 1 x(1) by (simp_all add: overlap_node_def)
    moreover have "keeps_core {allocs s..} s s1 \<and> out_of_memory env r1" using 1 False overlap_clone_cut [OF _ n x b(1,2,3), of env c r1 p c' s1] by (auto split: if_splits)
    ultimately show ?thesis using False by simp
  next
    case True
    obtain P D where st: "staged x node start lst (allocs s) p P D s1" and tch: "touches {allocs s..} s s1"
      and c': "c' = c\<lparr>insert_list := P @ insert_list c, remove_list := D @ remove_list c\<rparr>"
    proof (cases "it_start x < start \<or> lst < it_last x")
      case out: True
      then have "overlap_clone env node start lst c s = (0, p, c', s1)" using 1 True by simp
      from overlap_clone_cut [OF this n x b(1,2,3)] obtain Q where Q: "touches {allocs s..} s s1" "cut x (allocs s) p Q (max start (rstart x)) (min lst (rlast x)) s1"
        "c' = c\<lparr>remove_list := node # remove_list c, insert_list := Q @ p # insert_list c\<rparr>" by auto
      show ?thesis by (rule that [of "Q @ [p]" "[node]", OF staged_cut [OF Q(2)] Q(1)]) (simp add: Q(3))
    next
      case False
      then have "p = node" "c' = c" "s1 = s" "start \<le> rstart x" "rlast x \<le> lst" using 1 xi by auto
      then show ?thesis using staged_keep [OF x(1), of start lst "allocs s"] by (intro that [of "[]" "[]"]) simp_all
    qed
    have x1: "rng s1 node = x" using tch n x(1) by (simp add: touches_def)
    have "attrs_of (rng s1 p) = attrs_of x" using st unfolding staged_def by blast
    note same = same_attrs_cong [OF this, of new]
    define U where "U = (if svm_range_is_same_attrs x new then [] else [p])"
    define c2 where "c2 = c'\<lparr>update_list := U @ update_list c\<rparr>"
    have upd: "(if \<not> svm_range_is_same_attrs (rng s1 p) new then c'\<lparr>update_list := p # update_list c'\<rparr> else c') = c2"
      unfolding same c2_def U_def c' by simp
    have o': "(r, c1, t) = (if start < rstart x then (case svm_range_new env start (rstart x - 1) s1 of
         (None, s2) \<Rightarrow> (- ENOMEM, c2, s2) | (Some n, s2) \<Rightarrow> (0, c2\<lparr>insert_list := n # insert_list c2, update_list := n # update_list c2\<rparr>, s2)) else (0, c2, s1))"
      using o unfolding overlap_node_def x(1) [symmetric] unfolding 1 unfolding prod.case Let_def True upd x1 xi by simp
    have c2: "c2 = \<lparr>update_list = U @ update_list c, insert_list = P @ insert_list c, remove_list = D @ remove_list c\<rparr>"
      by (simp add: c2_def c')
    show ?thesis
    proof (cases "start < rstart x")
      case False
      then have "r = 0" "c1 = c2" "t = s1" using o' by simp_all
      then show ?thesis using staged_node_done [OF st U_def tch _ x(2)] False c2 by auto
    next
      case gap: True
      obtain q s2 where 2: "svm_range_new env start (rstart x - 1) s1 = (q, s2)" by fastforce
      from 2 show ?thesis
      proof (cases rule: svm_range_new_cases)
        case fail
        then show ?thesis using o' gap 2 tch by (auto simp: keeps_core_def touches_def same_lists_def out_of_memory_def)
      next
        case ok
        have "r = 0" "c1 = c2\<lparr>insert_list := allocs s1 # insert_list c2, update_list := allocs s1 # update_list c2\<rparr>" "t = s2" using o' gap 2 ok(1) by simp_all
        then show ?thesis using gap_node_done [OF st U_def tch n gap b(4,2) x(2) ok(2)] c2 by auto
      qed
    qed
  qed
qed

end
