(* ===== verification/Opu_Svm_Change.thy ===== *)
theory Opu_Svm_Change
  imports Opu_Svm_Overlap
begin

text \<open>
  The change that \<open>svm_range_add\<close> computes: the ranges of the tree, without those to remove and with those to
  insert, have no common pages; every page of the interval is in one of them, every other page is where it was;
  and the ranges to update are those inside the interval whose attributes differ.
\<close>

section \<open>The invariant of the ranges\<close>

definition in_tree :: "svm_range \<Rightarrow> bool" where
  "in_tree x \<longleftrightarrow> linked x \<and> notif x = (push_bit 12 (rstart x), push_bit 12 (rstart x) + push_bit 12 (npages x) - 1)"

definition svms_ok :: "svm_state \<Rightarrow> bool" where
  "svms_ok s \<longleftrightarrow> sorted_wrt (\<lambda>x y. rlast (rng s x) < rstart (rng s y)) (objects s) \<and>
     (\<forall>x\<in>set (objects s). in_tree (rng s x) \<and> x < allocs s) \<and>
     distinct (svm_list s) \<and> set (svm_list s) = set (objects s) \<and> deferred_range_list s = []"

lemma sorted_apart:
  assumes "sorted_wrt (\<lambda>x y. rlast (rng s x) < rstart (rng s y)) xs"
  shows "apart s (set xs)"
  using assms
proof (induction xs)
  case (Cons x xs)
  have "\<not> (covers (rng s x) pg \<and> covers (rng s y) pg)" if "y \<in> set xs" for y pg
    using Cons.prems that by (fastforce simp: covers_def)
  then show ?case using Cons unfolding apart_def by simp blast
qed (simp add: apart_def)

lemma apart_sorted:
  assumes "apart s (set xs)" and "distinct xs" and "\<forall>x\<in>set xs. rstart (rng s x) \<le> rlast (rng s x)"
    and "sorted_wrt (\<lambda>x y. rstart (rng s x) \<le> rstart (rng s y)) xs"
  shows "sorted_wrt (\<lambda>x y. rlast (rng s x) < rstart (rng s y)) xs"
  using assms
proof (induction xs)
  case (Cons x xs)
  have "rlast (rng s x) < rstart (rng s y)" if y: "y \<in> set xs" for y
  proof (rule ccontr)
    assume "\<not> rlast (rng s x) < rstart (rng s y)"
    then have "covers (rng s x) (rstart (rng s y))" "covers (rng s y) (rstart (rng s y))" using Cons.prems(3,4) y by (auto simp: covers_def)
    then have "x = y" using Cons.prems(1) y unfolding apart_def by (meson list.set_intros)
    then show False using Cons.prems(2) y by simp
  qed
  moreover have "sorted_wrt (\<lambda>x y. rlast (rng s x) < rstart (rng s y)) xs"
    using Cons by (auto simp: apart_def)
  ultimately show ?case by simp
qed simp

lemma svms_okD:
  assumes "svms_ok s"
  shows "apart s (set (objects s))" "\<And>x. x \<in> set (objects s) \<Longrightarrow> in_tree (rng s x)" "\<And>x. x \<in> set (objects s) \<Longrightarrow> x < allocs s"
    "sorted_wrt (\<lambda>x y. rlast (rng s x) < rstart (rng s y)) (objects s)"
  using assms sorted_apart by (auto simp: svms_ok_def)

section \<open>The loop as a walk over the overlapping ranges\<close>

fun node_loop :: "svm_env \<Rightarrow> svm_range \<Rightarrow> u64 \<Rightarrow> nat list \<Rightarrow> u64 \<Rightarrow> change \<Rightarrow> svm_state \<Rightarrow> int \<times> u64 \<times> change \<times> svm_state" where
  "node_loop env new lst [] start c s = (0, start, c, s)"
| "node_loop env new lst (node # rest) start c s =
     (case overlap_node env new node start lst c s of
        (r, c1, s1) \<Rightarrow> if r \<noteq> 0 then (r, start, c1, s1) else node_loop env new lst rest (min (it_last (rng s node)) lst + 1) c1 s1)"

definition begins_by :: "svm_state \<Rightarrow> u64 \<Rightarrow> nat \<Rightarrow> bool" where
  "begins_by s lst x \<longleftrightarrow> rstart (rng s x) \<le> lst"

text \<open>The old ranges keep their fields during the loop, so the nodes to visit are known from the start.\<close>

lemma overlap_loop_walk:
  assumes "\<forall>x\<in>set xs. in_tree (rng s0 x) \<and> x < allocs s0 \<and> start \<le> rlast (rng s0 x)" and "sorted_wrt (\<lambda>x y. rlast (rng s0 x) < rstart (rng s0 y)) xs"
    and "touches {allocs s0..} s0 s" and "start \<le> lst" and "0 < start"
  shows "overlap_loop env new lst (dropWhile (\<lambda>x. \<not> begins_by s0 lst x) xs) start c s = node_loop env new lst (filter (begins_by s0 lst) xs) start c s"
  using assms
proof (induction xs arbitrary: start c s)
  case (Cons x xs)
  have later: "rlast (rng s0 x) < rstart (rng s0 y)" if "y \<in> set xs" for y using Cons.prems(2) that by simp
  have old: "rng s y = rng s0 y" if "y \<in> set (x # xs)" for y using Cons.prems(1,3) that by (auto simp: touches_def)
  have x: "linked (rng s0 x)" "x < allocs s0" "start \<le> rlast (rng s0 x)" using Cons.prems(1) by (auto simp: in_tree_def)
  show ?case
  proof (cases "begins_by s0 lst x")
    case False
    have "\<not> begins_by s0 lst y" if "y \<in> set xs" for y
      using False later [OF that] x(1) by (auto simp: begins_by_def linked_def fresh_def)
    then have "dropWhile (\<lambda>x. \<not> begins_by s0 lst x) (x # xs) = []" "filter (begins_by s0 lst) (x # xs) = []" using False by (simp_all add: filter_empty_conv)
    then show ?thesis by simp
  next
    case True
    obtain r c1 s1 where 1: "overlap_node env new x start lst c s = (r, c1, s1)" by (metis prod_cases3)
    have rx: "rng s0 x = rng s x" "linked (rng s0 x)" "rng s x = rng s0 x" using old x(1) by simp_all
    have n: "x < allocs s" using x(2) Cons.prems(3) by (simp add: touches_def)
    have ov: "overlaps s start lst y \<longleftrightarrow> begins_by s0 lst y" if "y \<in> set xs" for y
      using old [of y] that Cons.prems(1) by (auto simp: overlaps_def begins_by_def in_tree_def linked_def)
    have it: "iter_from s start lst xs = dropWhile (\<lambda>x. \<not> begins_by s0 lst x) xs"
      unfolding iter_from_def by (rule dropWhile_cong) (simp_all add: ov)
    have il: "it_last (rng s x) = rlast (rng s0 x)" using old x(1) by (simp add: linked_def)
    let ?start = "min (rlast (rng s0 x)) lst + 1"
    have "overlap_loop env new lst (dropWhile (\<lambda>x. \<not> begins_by s0 lst x) xs) ?start c1 s1 =
        node_loop env new lst (filter (begins_by s0 lst) xs) ?start c1 s1" if r: "r = 0"
    proof (cases "\<exists>y\<in>set xs. begins_by s0 lst y")
      case False
      then have e: "dropWhile (\<lambda>x. \<not> begins_by s0 lst x) xs = []" "filter (begins_by s0 lst) xs = []" by (simp_all add: filter_empty_conv)
      show ?thesis unfolding e by simp
    next
      case y: True
      have b: "rstart (rng s0 x) \<le> lst" using True by (simp add: begins_by_def)
      have "touches {allocs s..} s s1"
        using overlap_node_done [OF 1 n rx(1,2) Cons.prems(4) b x(3) Cons.prems(5)] unfolding if_P [OF r] node_done_def by blast
      moreover have "{allocs s..} \<subseteq> {allocs s0..}" using Cons.prems(3) by (simp add: touches_def)
      ultimately have "touches {allocs s0..} s s1" by (rule touches_mono)
      then have t1: "touches {allocs s0..} s0 s1" by (rule touches_later_trans [OF Cons.prems(3)])
      have lt: "rlast (rng s0 x) < lst" using y later unfolding begins_by_def by (metis less_le_trans)
      then have st: "?start = rlast (rng s0 x) + 1" by simp
      have "?start \<le> rlast (rng s0 z)" if "z \<in> set xs" for z
        using later [OF that] Cons.prems(1) that unfolding st word_succ_le [OF lt] by (force simp: in_tree_def linked_def fresh_def)
      moreover have "?start \<le> lst" "0 < ?start" using lt unfolding st by (simp_all add: word_succ_le [OF lt] word_less_succ [OF lt])
      ultimately show ?thesis using Cons.prems(1,2) t1 by (intro Cons.IH) auto
    qed
    then show ?thesis using True by (simp add: 1 it il)
  qed
qed simp

section \<open>What the change does to the pages\<close>

abbreviation old_page :: "svm_state \<Rightarrow> u64 \<Rightarrow> svm_range \<Rightarrow> bool" where
  "old_page s pg a \<equiv> page_is s (set (objects s)) {} pg a False"

definition after_change :: "svm_state \<Rightarrow> change \<Rightarrow> nat set" where
  "after_change s c = (set (objects s) - set (remove_list c)) \<union> set (insert_list c)"

text \<open>The pages from \<open>st0\<close> up to \<open>start\<close> have been visited.\<close>

definition change_pages :: "svm_env \<Rightarrow> svm_range \<Rightarrow> svm_state \<Rightarrow> u64 \<Rightarrow> u64 \<Rightarrow> u64 \<Rightarrow> svm_range \<Rightarrow> bool \<Rightarrow> bool" where
  "change_pages env new s0 st0 start pg a u \<longleftrightarrow>
     (if st0 \<le> pg \<and> pg < start
      then if \<exists>b. old_page s0 pg b then old_page s0 pg a \<and> (u \<longleftrightarrow> \<not> svm_range_is_same_attrs a new) else a = default_attrs env s0 \<and> u
      else old_page s0 pg a \<and> \<not> u)"

definition change_inv :: "svm_env \<Rightarrow> svm_range \<Rightarrow> svm_state \<Rightarrow> u64 \<Rightarrow> u64 \<Rightarrow> change \<Rightarrow> svm_state \<Rightarrow> bool" where
  "change_inv env new s0 st0 start c s \<longleftrightarrow> touches {allocs s0..} s0 s \<and>
     distinct (insert_list c) \<and> set (insert_list c) \<subseteq> {allocs s0..<allocs s} \<and> (\<forall>y\<in>set (insert_list c). fresh (rng s y)) \<and>
     distinct (remove_list c) \<and> set (remove_list c) \<subseteq> set (objects s0) \<and>
     distinct (update_list c) \<and> set (update_list c) \<subseteq> after_change s0 c \<and> apart s (after_change s0 c) \<and>
     (\<forall>pg a u. page_is s (after_change s0 c) (set (update_list c)) pg a u \<longleftrightarrow> change_pages env new s0 st0 start pg a u)"

lemma attrs_of_idem [simp]: "attrs_of (attrs_of x) = attrs_of x"
  by (simp add: attrs_of_def zero_range_def)

lemma same_attrs_attrs_of [simp]: "svm_range_is_same_attrs (attrs_of x) y = svm_range_is_same_attrs x y"
  by (rule same_attrs_cong) simp

lemma old_page_covers:
  assumes "svms_ok s" "x \<in> set (objects s)" "covers (rng s x) pg"
  shows "old_page s pg a \<longleftrightarrow> a = attrs_of (rng s x)"
  using svms_okD(1) [OF assms(1)] assms(2,3) unfolding page_is_def apart_def by blast

lemma change_inv_start: "svms_ok s \<Longrightarrow> change_inv env new s st0 st0 \<lparr>update_list = [], insert_list = [], remove_list = []\<rparr> s"
  using svms_okD(1) [of s] by (auto simp: change_inv_def after_change_def change_pages_def page_is_def)

text \<open>The node \<open>node\<close> is the next one to visit; the pages before it have no range.\<close>

definition next_node :: "svm_state \<Rightarrow> u64 \<Rightarrow> u64 \<Rightarrow> u64 \<Rightarrow> change \<Rightarrow> nat \<Rightarrow> bool" where
  "next_node s0 st0 start lst c node \<longleftrightarrow> node \<in> set (objects s0) \<and> node \<notin> set (remove_list c) \<and>
     rstart (rng s0 node) \<le> lst \<and> start \<le> rlast (rng s0 node) \<and> st0 \<le> start \<and> start \<le> lst \<and> lst < - 1 \<and>
     (start = st0 \<or> start \<le> rstart (rng s0 node)) \<and> (\<forall>pg a. start \<le> pg \<and> pg < rstart (rng s0 node) \<longrightarrow> \<not> old_page s0 pg a)"

lemma change_pages_step:
  assumes ok: "svms_ok s0" and n: "next_node s0 st0 start lst c node" and x: "x = rng s0 node"
  shows "change_pages env new s0 st0 start pg a u \<and> \<not> covers x pg \<or> node_pages (default_attrs env s0) new x start lst pg a u \<longleftrightarrow>
    change_pages env new s0 st0 (min (rlast x) lst + 1) pg a u"
proof -
  have nb: "node \<in> set (objects s0)" "rstart x \<le> lst" "start \<le> rlast x" "st0 \<le> start" "start \<le> lst" "lst < - 1" "start = st0 \<or> start \<le> rstart x"
    "\<And>pg a. start \<le> pg \<Longrightarrow> pg < rstart x \<Longrightarrow> \<not> old_page s0 pg a"
    using n x unfolding next_node_def by blast+
  have "min (rlast x) lst < - 1" using nb(6) by (simp add: min_less_iff_disj)
  from word_less_succ [OF this] have s': "pg < min (rlast x) lst + 1 \<longleftrightarrow> pg \<le> rlast x \<and> pg \<le> lst" by simp
  have old: "old_page s0 pg a \<longleftrightarrow> a = attrs_of x" if "covers x pg" for a using old_page_covers [OF ok nb(1)] that x by blast
  show ?thesis
  proof (cases "covers x pg")
    case True
    have "\<exists>b. old_page s0 pg b" using old [OF True] by blast
    moreover have "st0 \<le> pg \<longleftrightarrow> start \<le> pg" using nb(4,7) True by (auto simp: covers_def)
    ultimately show ?thesis
      using True old [OF True] by (auto simp: change_pages_def node_pages_def s' covers_def)
  next
    case False
    show ?thesis
    proof (cases "start \<le> pg \<and> pg \<le> rlast x \<and> pg \<le> lst")
      case True
      then have "pg < rstart x" using False by (auto simp: covers_def)
      then have "\<not> old_page s0 pg b" for b using nb(8) True by blast
      moreover have "st0 \<le> pg" "\<not> pg < start" using nb(4) True by auto
      ultimately show ?thesis using True \<open>pg < rstart x\<close> linorder_not_le [of "rstart x" pg] by (auto simp: change_pages_def node_pages_def s' False)
    next
      case f: False
      then have "st0 \<le> pg \<and> pg < min (rlast x) lst + 1 \<longleftrightarrow> st0 \<le> pg \<and> pg < start"
        using nb(3,5) unfolding s' by auto
      moreover have "\<not> node_pages (default_attrs env s0) new x start lst pg a u" using f False by (auto simp: node_pages_def)
      ultimately show ?thesis using False by (simp add: change_pages_def)
    qed
  qed
qed

lemma change_inv_step:
  assumes ok: "svms_ok s0" and inv: "change_inv env new s0 st0 start c s" and n: "next_node s0 st0 start lst c node" and x: "x = rng s0 node"
    and d: "node_done env new x node start lst s U P D t"
  shows "change_inv env new s0 st0 (min (rlast x) lst + 1)
    \<lparr>update_list = U @ update_list c, insert_list = P @ insert_list c, remove_list = D @ remove_list c\<rparr> t" (is "change_inv _ _ _ _ ?start ?c t")
proof -
  let ?R = "after_change s0 c" and ?K = "set P \<union> ({node} - set D)" and ?V = "set (update_list c)"
  have tch: "touches {allocs s0..} s0 s" and ins: "set (insert_list c) \<subseteq> {allocs s0..<allocs s}" and rem: "set (remove_list c) \<subseteq> set (objects s0)"
    and V: "?V \<subseteq> ?R" and ap: "apart s ?R" and pages: "\<And>pg a u. page_is s ?R ?V pg a u \<longleftrightarrow> change_pages env new s0 st0 start pg a u"
    using inv unfolding change_inv_def by blast+
  have nt: "touches {allocs s..} s t" and P: "set P \<subseteq> {allocs s..<allocs t}" and D: "D = [] \<or> D = [node]" and U: "set U \<subseteq> ?K" "distinct U"
    and apK: "apart t ?K" and pgK: "\<And>pg a u. page_is t ?K (set U) pg a u \<longleftrightarrow> node_pages (default_attrs env s) new x start lst pg a u"
    using d unfolding node_done_def by blast+
  have node: "node \<in> set (objects s0)" "node \<notin> set (remove_list c)" "start \<le> rlast x" using n x unfolding next_node_def by blast+
  have al: "allocs s0 \<le> allocs s" using tch by (simp add: touches_def)
  have R_old: "y < allocs s" if "y \<in> ?R" for y using that ins svms_okD(3) [OF ok] al unfolding after_change_def by fastforce
  have nR: "node \<in> ?R" using node by (simp add: after_change_def)
  have xs: "rng s node = x" using tch svms_okD(3) [OF ok node(1)] x by (simp add: touches_def)
  have same: "rng t y = rng s y" if "y \<in> ?R" for y using nt R_old [OF that] by (simp add: touches_def)
  have lx: "in_tree x" using svms_okD(2) [OF ok node(1)] x by simp
  have nV: "node \<notin> ?V"
  proof
    assume "node \<in> ?V"
    then have "page_is s ?R ?V (rlast x) (attrs_of x) True" using nR xs lx unfolding page_is_def by (force simp: covers_def in_tree_def linked_def fresh_def)
    then show False using node(3) unfolding pages change_pages_def by (metis linorder_not_le)
  qed
  have P_new: "y \<notin> ?R" if "y \<in> set P" for y using that P R_old by fastforce
  have R': "after_change s0 ?c = (?R - {node}) \<union> ?K"
    using D nR P_new svms_okD(3) [OF ok node(1)] ins by (auto simp: after_change_def)
  have dis: "\<not> (covers (rng t y) pg \<and> covers (rng t k) pg)" if y: "y \<in> ?R - {node}" and k: "k \<in> ?K" for y k pg
  proof
    assume c: "covers (rng t y) pg \<and> covers (rng t k) pg"
    then have y': "covers (rng s y) pg" using y same by simp
    have "\<not> covers x pg" using ap y y' nR xs unfolding apart_def by blast
    moreover have "page_is t ?K (set U) pg (attrs_of (rng t k)) (k \<in> set U)" using k c unfolding page_is_def by blast
    ultimately have "start \<le> pg" "pg < rstart x" by (auto simp: pgK node_pages_def covers_def split: if_splits)
    moreover have "change_pages env new s0 st0 start pg (attrs_of (rng s y)) (y \<in> ?V)" using y y' pages unfolding page_is_def by blast
    ultimately show False using n x unfolding next_node_def change_pages_def by (auto split: if_splits)
  qed
  have ap': "apart t (after_change s0 ?c)"
  proof -
    have "covers (rng t y) pg \<and> covers (rng t z) pg \<longrightarrow> y = z" if "y \<in> ?R" "z \<in> ?R" for y z pg using ap that unfolding apart_def same [OF that(1)] same [OF that(2)] by blast
    then show ?thesis using apK dis unfolding R' apart_def by blast
  qed
  have pg': "page_is t (after_change s0 ?c) (set (update_list ?c)) pg a u \<longleftrightarrow> change_pages env new s0 st0 ?start pg a u" for pg a u
  proof -
    have 1: "y \<in> set U \<union> ?V \<longleftrightarrow> y \<in> ?V" if "y \<in> ?R - {node}" for y using that U P_new by blast
    have 2: "y \<in> set U \<union> ?V \<longleftrightarrow> y \<in> set U" if "y \<in> ?K" for y using that V P_new nV by blast
    have "page_is t (after_change s0 ?c) (set (update_list ?c)) pg a u \<longleftrightarrow>
        page_is t (?R - {node}) (set U \<union> ?V) pg a u \<or> page_is t ?K (set U \<union> ?V) pg a u" unfolding R' page_is_def by auto
    also have "page_is t (?R - {node}) (set U \<union> ?V) pg a u \<longleftrightarrow> page_is s (?R - {node}) ?V pg a u" unfolding page_is_def using 1 same by (metis (no_types, lifting) Diff_iff)
    also have "\<dots> \<longleftrightarrow> page_is s ?R ?V pg a u \<and> \<not> covers x pg" using ap nR xs unfolding page_is_def apart_def by blast
    also have "page_is t ?K (set U \<union> ?V) pg a u \<longleftrightarrow> page_is t ?K (set U) pg a u" unfolding page_is_def using 2 by blast
    finally show ?thesis
      using change_pages_step [OF ok n x, of env new pg a u] default_attrs_cong [of s s0 env] tch unfolding pages pgK
      by (simp add: touches_def same_lists_def)
  qed
  have "{allocs s..} \<subseteq> {allocs s0..}" using al by simp
  from touches_later_trans [OF tch touches_mono [OF nt this]] have t': "touches {allocs s0..} s0 t" .
  have fr: "\<forall>y\<in>set (P @ insert_list c). fresh (rng t y)" using inv d same by (auto simp: change_inv_def node_done_def after_change_def)
  have ids: "distinct (P @ insert_list c)" "set (P @ insert_list c) \<subseteq> {allocs s0..<allocs t}"
    using inv d P P_new ins nt al by (auto simp: change_inv_def node_done_def after_change_def touches_def)
  have "distinct (D @ remove_list c)" "set (D @ remove_list c) \<subseteq> set (objects s0)" using inv D node rem by (auto simp: change_inv_def)
  moreover have "set (U @ update_list c) \<subseteq> after_change s0 ?c" using U V D nV unfolding R' by auto
  moreover have "distinct (U @ update_list c)" using inv U V P_new nV by (auto simp: change_inv_def)
  ultimately show ?thesis unfolding change_inv_def using t' fr ids ap' pg' by simp
qed

text \<open>The nodes that are left to visit.\<close>

definition to_visit :: "svm_state \<Rightarrow> u64 \<Rightarrow> u64 \<Rightarrow> u64 \<Rightarrow> change \<Rightarrow> nat list \<Rightarrow> bool" where
  "to_visit s0 st0 start lst c nodes \<longleftrightarrow> sorted_wrt (\<lambda>x y. rlast (rng s0 x) < rstart (rng s0 y)) nodes \<and> set nodes \<subseteq> set (objects s0) \<and>
     set nodes \<inter> set (remove_list c) = {} \<and> st0 \<le> start \<and> start \<le> lst + 1 \<and> lst < - 1 \<and> (nodes \<noteq> [] \<longrightarrow> start \<le> lst) \<and>
     (\<forall>y\<in>set nodes. rstart (rng s0 y) \<le> lst \<and> start \<le> rlast (rng s0 y) \<and> (start = st0 \<or> start \<le> rstart (rng s0 y))) \<and>
     (\<forall>y\<in>set (objects s0). \<forall>pg. covers (rng s0 y) pg \<and> start \<le> pg \<and> pg \<le> lst \<longrightarrow> y \<in> set nodes)"

lemma to_visit_next:
  assumes ok: "svms_ok s0" and v: "to_visit s0 st0 start lst c (node # rest)"
  shows "next_node s0 st0 start lst c node"
proof -
  have "\<not> old_page s0 pg a" if pg: "start \<le> pg" "pg < rstart (rng s0 node)" for pg a
  proof
    assume "old_page s0 pg a"
    then obtain y where y: "y \<in> set (objects s0)" "covers (rng s0 y) pg" unfolding page_is_def by blast
    have "pg \<le> lst" using pg(2) v by (auto simp: to_visit_def)
    then have "y \<in> set (node # rest)" using y pg(1) v unfolding to_visit_def by blast
    then consider "y = node" | "y \<in> set rest" by auto
    then show False
    proof cases
      case 1
      then show False using y(2) pg(2) by (auto simp: covers_def)
    next
      case 2
      then have "rlast (rng s0 node) < rstart (rng s0 y)" using v by (simp add: to_visit_def)
      moreover have "rstart (rng s0 node) \<le> rlast (rng s0 node)" using v svms_okD(2) [OF ok, of node] by (auto simp: to_visit_def in_tree_def linked_def fresh_def)
      ultimately show False using y(2) pg(2) by (auto simp: covers_def)
    qed
  qed
  then show ?thesis using v unfolding to_visit_def next_node_def by auto
qed

lemma to_visit_step:
  assumes ok: "svms_ok s0" and v: "to_visit s0 st0 start lst c (node # rest)" and x: "x = rng s0 node" and c': "set (remove_list c') \<subseteq> insert node (set (remove_list c))"
  shows "to_visit s0 st0 (min (rlast x) lst + 1) lst c' rest"
proof -
  let ?start = "min (rlast x) lst + 1"
  have lst: "lst < - 1" "start \<le> lst" "st0 \<le> start" using v by (auto simp: to_visit_def)
  have m: "min (rlast x) lst < - 1" using lst(1) by (simp add: min_less_iff_disj)
  have later: "rlast x < rstart (rng s0 y)" if "y \<in> set rest" for y using v x that by (simp add: to_visit_def)
  have wf: "rstart (rng s0 y) \<le> rlast (rng s0 y)" if "y \<in> set (node # rest)" for y
    using v that svms_okD(2) [OF ok, of y] by (auto simp: to_visit_def in_tree_def linked_def fresh_def)
  have rest: "?start \<le> rstart (rng s0 y) \<and> rstart (rng s0 y) \<le> lst \<and> ?start \<le> rlast (rng s0 y)" if "y \<in> set rest" for y
  proof -
    have "rstart (rng s0 y) \<le> lst" using v that by (simp add: to_visit_def)
    moreover have "?start \<le> rstart (rng s0 y)" using later [OF that] unfolding word_succ_le [OF m] by (simp add: min_less_iff_disj)
    ultimately show ?thesis using wf [of y] that by auto
  qed
  have "start \<le> min (rlast x) lst" using v x by (simp add: to_visit_def)
  moreover have "z \<le> ?start" if "z \<le> min (rlast x) lst" for z using that word_less_succ [OF m, of z] by (simp add: order_less_imp_le)
  ultimately have st: "start \<le> ?start" "st0 \<le> ?start" using lst(3) order_trans [of st0 start] by auto
  have up: "?start \<le> lst + 1" using word_succ_le [OF m] word_less_succ [OF lst(1), of "min (rlast x) lst"] by (simp add: min.coboundedI2)
  have "y \<in> set rest" if y: "y \<in> set (objects s0)" "covers (rng s0 y) pg" "?start \<le> pg" "pg \<le> lst" for y pg
  proof -
    have "y \<in> set (node # rest)" using v y order_trans [OF st(1) y(3)] unfolding to_visit_def by blast
    moreover have "min (rlast x) lst < pg" using y(3) unfolding word_succ_le [OF m] .
    then have "y \<noteq> node" using y(2,4) x by (auto simp: covers_def min_less_iff_disj)
    ultimately show ?thesis by simp
  qed
  moreover have "set rest \<inter> set (remove_list c') = {}"
  proof -
    have "node \<notin> set rest" using later wf [of node] x by fastforce
    then show ?thesis using c' v by (auto simp: to_visit_def)
  qed
  moreover have "rest \<noteq> [] \<longrightarrow> ?start \<le> lst" using rest by (cases rest) (auto intro: order_trans)
  ultimately show ?thesis using v rest st up unfolding to_visit_def by auto
qed

lemma node_loop_change:
  assumes "svms_ok s0" and "node_loop env new lst nodes start c s = (r, start', c', t)" and "change_inv env new s0 st0 start c s"
    and "to_visit s0 st0 start lst c nodes" and "0 < st0"
  shows "if r = 0 then change_inv env new s0 st0 start' c' t \<and> to_visit s0 st0 start' lst c' [] else keeps_core {allocs s0..} s0 t \<and> out_of_memory env r"
  using assms
proof (induction nodes arbitrary: start c s)
  case (Cons node rest)
  let ?x = "rng s0 node"
  note n = to_visit_next [OF Cons.prems(1,4)]
  have node: "node \<in> set (objects s0)" "start \<le> lst" "rstart ?x \<le> lst" "start \<le> rlast ?x" "0 < start"
    using n Cons.prems(5) less_le_trans [of 0 st0 start] unfolding next_node_def by blast+
  have tch: "touches {allocs s0..} s0 s" and al: "allocs s0 \<le> allocs s" using Cons.prems(3) by (simp_all add: change_inv_def touches_def)
  have x: "?x = rng s node" using tch svms_okD(3) [OF Cons.prems(1) node(1)] by (simp add: touches_def)
  have lx: "linked ?x" using svms_okD(2) [OF Cons.prems(1) node(1)] by (simp add: in_tree_def)
  obtain r1 c1 s1 where 1: "overlap_node env new node start lst c s = (r1, c1, s1)" by (metis prod_cases3)
  have "node < allocs s" using svms_okD(3) [OF Cons.prems(1) node(1)] al by simp
  note o = overlap_node_done [OF 1 this x lx node(2,3,4,5)]
  show ?case
  proof (cases "r1 = 0")
    case False
    then have "keeps_core {allocs s..} s s1" "out_of_memory env r1" using o by simp_all
    from keeps_core_mono [OF this(1)] have "keeps_core {allocs s0..} s s1" by (simp add: al)
    then have "keeps_core {allocs s0..} s0 s1" by (rule keeps_core_later_trans [OF touches_keeps [OF tch]])
    then show ?thesis using Cons.prems(2) 1 False \<open>out_of_memory env r1\<close> by simp
  next
    case True
    obtain U P D where d: "node_done env new ?x node start lst s U P D s1"
      and c1: "c1 = \<lparr>update_list = U @ update_list c, insert_list = P @ insert_list c, remove_list = D @ remove_list c\<rparr>"
      using o unfolding if_P [OF True] by blast
    have il: "it_last (rng s node) = rlast ?x" using lx x by (simp add: linked_def)
    have l: "node_loop env new lst rest (min (rlast ?x) lst + 1) c1 s1 = (r, start', c', t)" using Cons.prems(2) 1 True by (simp add: il)
    have "change_inv env new s0 st0 (min (rlast ?x) lst + 1) c1 s1" unfolding c1 by (rule change_inv_step [OF Cons.prems(1,3) n refl d])
    moreover have "set (remove_list c1) \<subseteq> insert node (set (remove_list c))" using d by (auto simp: c1 node_done_def)
    ultimately show ?thesis using to_visit_step [OF Cons.prems(1,4) refl] by (intro Cons.IH [OF Cons.prems(1) l _ _ Cons.prems(5)])
  qed
qed simp

section \<open>The whole change\<close>

lemma to_visit_start:
  assumes ok: "svms_ok s" and b: "0 < start" "start \<le> lst" "lst < - 1"
  shows "to_visit s start start lst \<lparr>update_list = [], insert_list = [], remove_list = []\<rparr> (filter (overlaps s start lst) (objects s))"
proof -
  have ov: "overlaps s start lst x \<longleftrightarrow> rstart (rng s x) \<le> lst \<and> start \<le> rlast (rng s x)" if "x \<in> set (objects s)" for x
    using svms_okD(2) [OF ok that] by (simp add: overlaps_def in_tree_def linked_def)
  have "start \<le> lst + 1" using word_less_succ [OF b(3), of start] b(2) by (simp add: order_less_imp_le)
  moreover have "overlaps s start lst y" if "y \<in> set (objects s)" "covers (rng s y) pg" "start \<le> pg" "pg \<le> lst" for y pg
    using that ov [OF that(1)] by (auto simp: covers_def)
  ultimately show ?thesis using b ov sorted_wrt_filter [OF svms_okD(4) [OF ok]] unfolding to_visit_def by auto
qed

lemma dropWhile_initial:
  assumes "sorted_wrt (\<lambda>x y. P y \<longrightarrow> P x) xs"
  shows "x \<in> set (dropWhile P xs) \<Longrightarrow> \<not> P x" and "filter Q (dropWhile P xs) = filter (\<lambda>x. Q x \<and> \<not> P x) xs"
    and "dropWhile (\<lambda>x. \<not> (Q x \<and> \<not> P x)) xs = dropWhile (\<lambda>x. \<not> Q x) (dropWhile P xs)"
proof -
  have "(\<forall>x\<in>set (dropWhile P xs). \<not> P x) \<and> filter Q (dropWhile P xs) = filter (\<lambda>x. Q x \<and> \<not> P x) xs \<and>
      dropWhile (\<lambda>x. \<not> (Q x \<and> \<not> P x)) xs = dropWhile (\<lambda>x. \<not> Q x) (dropWhile P xs)"
    using assms
  proof (induction xs)
    case (Cons x xs)
    show ?case
    proof (cases "P x")
      case True
      then have e: "dropWhile P (x # xs) = dropWhile P xs" "filter (\<lambda>x. Q x \<and> \<not> P x) (x # xs) = filter (\<lambda>x. Q x \<and> \<not> P x) xs"
        "dropWhile (\<lambda>x. \<not> (Q x \<and> \<not> P x)) (x # xs) = dropWhile (\<lambda>x. \<not> (Q x \<and> \<not> P x)) xs" by simp_all
      show ?thesis unfolding e by (rule Cons.IH) (use Cons.prems in simp)
    next
      case False
      then have "\<forall>y\<in>set (x # xs). \<not> P y" using Cons.prems by auto
      moreover from this have "filter (\<lambda>x. Q x \<and> \<not> P x) (x # xs) = filter Q (x # xs)"
        "dropWhile (\<lambda>x. \<not> (Q x \<and> \<not> P x)) (x # xs) = dropWhile (\<lambda>x. \<not> Q x) (x # xs)"
        by (auto intro!: filter_cong dropWhile_cong)
      ultimately show ?thesis using False by simp
    qed
  qed simp
  then show "x \<in> set (dropWhile P xs) \<Longrightarrow> \<not> P x" "filter Q (dropWhile P xs) = filter (\<lambda>x. Q x \<and> \<not> P x) xs"
    "dropWhile (\<lambda>x. \<not> (Q x \<and> \<not> P x)) xs = dropWhile (\<lambda>x. \<not> Q x) (dropWhile P xs)" by blast+
qed

lemma overlap_loop_filter:
  assumes ok: "svms_ok s" and b: "0 < start" "start \<le> lst"
  shows "overlap_loop env new lst (iter_from s start lst (objects s)) start c s = node_loop env new lst (filter (overlaps s start lst) (objects s)) start c s"
proof -
  define xs where "xs = dropWhile (\<lambda>x. rlast (rng s x) < start) (objects s)"
  have ov: "overlaps s start lst x \<longleftrightarrow> begins_by s lst x \<and> \<not> rlast (rng s x) < start" if "x \<in> set (objects s)" for x
    using svms_okD(2) [OF ok that] by (auto simp: overlaps_def begins_by_def in_tree_def linked_def)
  have sub: "x \<in> set (objects s)" if "x \<in> set xs" for x using that unfolding xs_def by (rule set_dropWhileD)
  have "sorted_wrt (\<lambda>x y. rlast (rng s y) < start \<longrightarrow> rlast (rng s x) < start) (objects s)"
    using svms_okD(4) [OF ok]
  proof (rule sorted_wrt_mono_rel [rotated])
    fix x y assume "y \<in> set (objects s)" "rlast (rng s x) < rstart (rng s y)"
    then show "rlast (rng s y) < start \<longrightarrow> rlast (rng s x) < start" using svms_okD(2) [OF ok, of y] by (auto simp: in_tree_def linked_def fresh_def)
  qed
  note d = dropWhile_initial [OF this]
  have late: "start \<le> rlast (rng s x)" if "x \<in> set xs" for x using d(1) [of x] that by (simp add: xs_def)
  have it: "iter_from s start lst (objects s) = dropWhile (\<lambda>x. \<not> begins_by s lst x) xs"
    unfolding iter_from_def xs_def d(3) [symmetric] by (rule dropWhile_cong) (simp_all add: ov)
  have fl: "filter (overlaps s start lst) (objects s) = filter (begins_by s lst) xs"
    unfolding xs_def d(2) by (rule filter_cong) (simp_all add: ov)
  have "sorted_wrt (\<lambda>x y. rlast (rng s x) < rstart (rng s y)) xs" using svms_okD(4) [OF ok] unfolding xs_def by (metis sorted_wrt_append takeWhile_dropWhile_id)
  then show ?thesis unfolding it fl using svms_okD [OF ok] sub late b by (intro overlap_loop_walk) auto
qed

text \<open>The pages behind the last range get a range of their own.\<close>

lemma change_inv_rest:
  assumes ok: "svms_ok s0" and inv: "change_inv env new s0 st0 start c s" and v: "to_visit s0 st0 start lst c []" and b: "start \<le> lst" "0 < st0"
    and t: "t = s\<lparr>allocs := Suc (allocs s), rng := (rng s)(allocs s := new_range env s start lst)\<rparr>"
  shows "change_inv env new s0 st0 (lst + 1) (c\<lparr>insert_list := allocs s # insert_list c, update_list := allocs s # update_list c\<rparr>) t" (is "change_inv _ _ _ _ _ ?c t")
proof -
  let ?R = "after_change s0 c" and ?g = "allocs s" and ?V = "set (update_list c)"
  have tch: "touches {allocs s0..} s0 s" and ins: "set (insert_list c) \<subseteq> {allocs s0..<allocs s}" and V: "?V \<subseteq> ?R" and ap: "apart s ?R"
    and pages: "\<And>pg a u. page_is s ?R ?V pg a u \<longleftrightarrow> change_pages env new s0 st0 start pg a u"
    using inv unfolding change_inv_def by blast+
  have st: "st0 \<le> start" "lst < - 1" and none: "\<And>pg a. start \<le> pg \<Longrightarrow> pg \<le> lst \<Longrightarrow> \<not> old_page s0 pg a"
    using v by (auto simp: to_visit_def page_is_def)
  have al: "allocs s0 \<le> allocs s" using tch by (simp add: touches_def)
  have R_old: "y < allocs s" if "y \<in> ?R" for y using that ins svms_okD(3) [OF ok] al unfolding after_change_def by fastforce
  then have gR: "?g \<notin> ?R" "?g \<notin> ?V" using V by auto
  have same: "rng t y = rng s y" if "y \<in> ?R" for y using gR that by (auto simp: t)
  have new: "rng t ?g = new_range env s start lst" by (simp add: t)
  have gc: "covers (rng t ?g) pg \<longleftrightarrow> start \<le> pg \<and> pg \<le> lst" for pg by (simp add: new covers_def)
  have R': "after_change s0 ?c = insert ?g ?R" using svms_okD(3) [OF ok] al by (fastforce simp: after_change_def)
  have dis: "\<not> covers (rng s y) pg" if "y \<in> ?R" "start \<le> pg" "pg \<le> lst" for y pg
  proof
    assume "covers (rng s y) pg"
    then have "change_pages env new s0 st0 start pg (attrs_of (rng s y)) (y \<in> ?V)" using that(1) pages unfolding page_is_def by blast
    then show False using that(2) none [OF that(2,3)] unfolding change_pages_def by (metis linorder_not_le)
  qed
  have ap': "apart t (insert ?g ?R)"
  proof -
    have "covers (rng t y) pg \<and> covers (rng t z) pg \<longrightarrow> y = z" if "y \<in> ?R" "z \<in> ?R" for y z pg
      using ap that unfolding apart_def same [OF that(1)] same [OF that(2)] by blast
    moreover have "\<not> (covers (rng t ?g) pg \<and> covers (rng t y) pg)" if "y \<in> ?R" for y pg using dis that same [OF that] by (auto simp: gc)
    ultimately show ?thesis unfolding apart_def by blast
  qed
  have df: "default_attrs env s = default_attrs env s0" using tch by (intro default_attrs_cong) (simp add: touches_def same_lists_def)
  have ga: "attrs_of (rng t ?g) = default_attrs env s0" by (simp add: new df)
  have pg': "page_is t (insert ?g ?R) (insert ?g ?V) pg a u \<longleftrightarrow> change_pages env new s0 st0 (lst + 1) pg a u" for pg a u
  proof -
    have "page_is t (insert ?g ?R) (insert ?g ?V) pg a u \<longleftrightarrow> covers (rng t ?g) pg \<and> attrs_of (rng t ?g) = a \<and> u \<or> page_is s ?R ?V pg a u"
      unfolding page_is_def using same gR by auto
    also have "\<dots> \<longleftrightarrow> start \<le> pg \<and> pg \<le> lst \<and> a = default_attrs env s0 \<and> u \<or> change_pages env new s0 st0 start pg a u"
      unfolding gc pages ga by auto
    also have "\<dots> \<longleftrightarrow> change_pages env new s0 st0 (lst + 1) pg a u"
      using none [of pg] st(1) b(1) unfolding change_pages_def word_less_succ [OF st(2)] by (auto split: if_splits)
    finally show ?thesis .
  qed
  have "0 < start" using b(2) st(1) by simp
  then have "\<forall>y\<in>set (insert_list ?c). fresh (rng t y)" using inv same b(1) st(2) new by (auto simp: change_inv_def after_change_def)
  moreover have "touches {allocs s0..} s0 t" using tch al by (auto simp: touches_def same_lists_def t)
  moreover have "distinct (insert_list ?c)" "set (insert_list ?c) \<subseteq> {allocs s0..<allocs t}" using inv ins al by (auto simp: change_inv_def t)
  moreover have "set (update_list ?c) \<subseteq> insert ?g ?R" "distinct (update_list ?c)" using V inv gR by (auto simp: change_inv_def)
  ultimately show ?thesis using inv ap' pg' unfolding change_inv_def R' by simp
qed

lemma svm_range_add_change:
  assumes ok: "svms_ok s" and a: "svm_range_add env start sz attrs s = Some (r, c, t)" and lst: "lst = start + sz - 1"
    and b: "0 < start" "start \<le> lst" "lst < - 1"
  shows "if r = 0 then change_inv env (svm_range_apply_attrs env attrs zero_range) s start (lst + 1) c t else keeps_core {allocs s..} s t \<and> out_of_memory env r"
proof -
  let ?new = "svm_range_apply_attrs env attrs zero_range" and ?c0 = "\<lparr>update_list = [], insert_list = [], remove_list = []\<rparr>"
  obtain r1 start' c1 s1 where 1: "node_loop env ?new lst (filter (overlaps s start lst) (objects s)) start ?c0 s = (r1, start', c1, s1)" by (metis prod_cases4)
  note l = node_loop_change [OF ok 1 change_inv_start [OF ok] to_visit_start [OF ok b] b(1)]
  have h: "svm_range_handle_overlap env ?new start lst s = (if r1 \<noteq> 0 then (r1, 0, c1, fold (svm_range_free env) (insert_list c1) s1)
      else (0, if start' \<le> lst then lst - start' + 1 else 0, c1, s1))"
    by (simp add: svm_range_handle_overlap_def overlap_loop_filter [OF ok b(1,2)] 1)
  show ?thesis
  proof (cases "r1 = 0")
    case False
    have "keeps_core {} u (fold (svm_range_free env) xs u)" for xs u
    proof (induction xs arbitrary: u)
      case (Cons x xs)
      then show ?case using keeps_core_trans [OF svm_range_free_keeps [of u env x] Cons.IH] by simp
    qed simp
    then have "keeps_core {allocs s..} s (fold (svm_range_free env) (insert_list c1) s1)"
      using l False keeps_core_trans [of "{allocs s..}" s s1 "{}"] by simp
    then show ?thesis using a h lst False l by (auto simp: svm_range_add_def Let_def)
  next
    case True
    then have i: "change_inv env ?new s start start' c1 s1" and v: "to_visit s start start' lst c1 []" using l by simp_all
    show ?thesis
    proof (cases "start' \<le> lst")
      case False
      then have "start' = lst + 1" using v word_less_succ [OF b(3), of start'] by (auto simp: to_visit_def)
      then show ?thesis using a h lst True False i by (auto simp: svm_range_add_def Let_def)
    next
      case left: True
      have "unat (lst - start' + 1) = unat lst - unat start' + 1" by (rule unat_pages [OF left b(3)])
      then have n0: "lst - start' + 1 \<noteq> 0" by (metis add_is_0 one_neq_zero unat_0)
      have e: "lst - (lst - start' + 1) + 1 = start'" by simp
      obtain q s2 where 2: "svm_range_new env start' lst s1 = (q, s2)" by fastforce
      from 2 show ?thesis
      proof (cases rule: svm_range_new_cases)
        case fail
        then show ?thesis using a h lst True left n0 2 by (simp add: svm_range_add_def Let_def e)
      next
        case k: ok
        then have "r = 0" "c = c1\<lparr>insert_list := allocs s1 # insert_list c1, update_list := allocs s1 # update_list c1\<rparr>" "t = s2"
          using a h lst True left n0 2 by (auto simp: svm_range_add_def Let_def e)
        then show ?thesis using change_inv_rest [OF ok i v left b(1) k(2)] by simp
      qed
    qed
  qed
qed

end
