(* ===== verification/Opu_Svm_Props.thy ===== *)
theory Opu_Svm_Props
  imports Opu_Svm_Change
begin

text \<open>
  Applying a change, and what the two requests of a process do: setting attributes changes the attributes of the
  pages of the interval and of no other page, and is all or nothing up to the migrations that follow it.
\<close>

section \<open>Applying a change\<close>

definition place :: "svm_range \<Rightarrow> svm_range" where
  "place x = x\<lparr>it_start := rstart x, it_last := rlast x,
     notif := (push_bit 12 (rstart x), push_bit 12 (rstart x) + push_bit 12 (npages x) - 1)\<rparr>"

definition by_start :: "svm_state \<Rightarrow> bool" where
  "by_start s \<longleftrightarrow> distinct (objects s) \<and> sorted_wrt (\<lambda>x y. it_start (rng s x) \<le> it_start (rng s y)) (objects s)"

lemma insert_range_sel:
  "rng (insert_range r s) = (rng s)(r := place (rng s r))" "svm_list (insert_range r s) = svm_list s @ [r]"
  "deferred_range_list (insert_range r s) = deferred_range_list s" "bitmap_supported (insert_range r s) = bitmap_supported s"
  "allocs (insert_range r s) = allocs s"
  by (simp_all add: insert_range_def svm_range_add_notifier_locked_def svm_range_add_to_svms_def interval_tree_insert_def upd_r_def place_def Let_def)

lemma insert_range_by_start:
  assumes "by_start s" and "r \<notin> set (objects s)"
  shows "by_start (insert_range r s)" and "set (objects (insert_range r s)) = insert r (set (objects s))"
proof -
  define f where "f = (\<lambda>x. it_start (rng (insert_range r s) x))"
  define T where "T = takeWhile (\<lambda>x. f x \<le> f r) (objects s)"
  define D where "D = dropWhile (\<lambda>x. f x \<le> f r) (objects s)"
  have f': "f = (\<lambda>x. it_start (((rng s)(r := place (rng s r))) x))" by (simp add: f_def insert_range_sel)
  have f: "f x = it_start (rng s x)" if "x \<in> set (objects s)" for x using that assms(2) by (auto simp: f')
  have o: "objects (insert_range r s) = T @ r # D"
    unfolding T_def D_def f' by (simp add: insert_range_def svm_range_add_notifier_locked_def svm_range_add_to_svms_def interval_tree_insert_def upd_r_def place_def Let_def)
  have td: "objects s = T @ D" by (simp add: T_def D_def)
  have "sorted_wrt (\<lambda>x y. f x \<le> f y) (objects s)"
    using assms(1) unfolding by_start_def by (auto intro: sorted_wrt_mono_rel [rotated] simp: f)
  then have 1: "sorted_wrt (\<lambda>x y. f x \<le> f y) (T @ D)" unfolding td .
  have "f r \<le> f (hd D)" if "D \<noteq> []" using hd_dropWhile [of "\<lambda>x. f x \<le> f r" "objects s"] that by (simp add: D_def)
  then have 2: "f r \<le> f x" if "x \<in> set D" for x using that 1 by (cases D) (auto simp: sorted_wrt_append)
  have "f x \<le> f r" if "x \<in> set T" for x using set_takeWhileD that by (fastforce simp: T_def)
  then have "sorted_wrt (\<lambda>x y. f x \<le> f y) (objects (insert_range r s))" using 1 2 unfolding o by (auto simp: sorted_wrt_append)
  moreover have "distinct (objects (insert_range r s))" using assms unfolding o td by_start_def by auto
  ultimately show "by_start (insert_range r s)" by (simp add: by_start_def f_def)
  show "set (objects (insert_range r s)) = insert r (set (objects s))" unfolding o td by simp
qed

lemma fold_insert_range:
  assumes "by_start s" and "distinct I" and "set I \<inter> set (objects s) = {}" and "t = fold insert_range I s"
  shows "by_start t \<and> set (objects t) = set (objects s) \<union> set I \<and> svm_list t = svm_list s @ I \<and> deferred_range_list t = deferred_range_list s \<and>
    bitmap_supported t = bitmap_supported s \<and> allocs t = allocs s \<and> (\<forall>x. rng t x = (if x \<in> set I then place (rng s x) else rng s x))"
  using assms
proof (induction I arbitrary: s)
  case (Cons r I)
  note i = insert_range_by_start [OF Cons.prems(1), of r]
  have r: "r \<notin> set (objects s)" using Cons.prems(3) by simp
  have "set I \<inter> set (objects (insert_range r s)) = {}" using Cons.prems(2,3) i(2) [OF r] by auto
  from Cons.IH [OF i(1) [OF r] _ this] Cons.prems(2,4) show ?case by (auto simp: i(2) [OF r] insert_range_sel)
qed simp

text \<open>Setting attributes changes nothing else of a range.\<close>

definition body_of :: "svm_range \<Rightarrow> svm_range" where
  "body_of x = x\<lparr>rflags := 0, preferred_loc := 0, prefetch_loc := 0, granularity := 0, bitmap_access := (\<lambda>_. False), bitmap_aip := (\<lambda>_. False)\<rparr>"

lemma apply_attr1_parts:
  "body_of (svm_apply_attr1 env a x) = body_of x" "attrs_of (svm_apply_attr1 env a x) = svm_apply_attr1 env a (attrs_of x)"
  by (simp_all add: svm_apply_attr1_def body_of_def attrs_of_def zero_range_def Let_def split: svm_attr_type.splits)

lemma apply_attrs_parts:
  "body_of (svm_range_apply_attrs env attrs x) = body_of x"
  "attrs_of (svm_range_apply_attrs env attrs x) = svm_range_apply_attrs env attrs (attrs_of x)"
proof -
  have "body_of (fold (svm_apply_attr1 env) attrs x) = body_of x \<and> attrs_of (fold (svm_apply_attr1 env) attrs x) = fold (svm_apply_attr1 env) attrs (attrs_of x)"
    by (induction attrs arbitrary: x) (simp_all add: apply_attr1_parts)
  then show "body_of (svm_range_apply_attrs env attrs x) = body_of x"
    "attrs_of (svm_range_apply_attrs env attrs x) = svm_range_apply_attrs env attrs (attrs_of x)" by (simp_all add: svm_range_apply_attrs_def)
qed

lemma body_of_sel:
  assumes "body_of y = body_of x"
  shows "rstart y = rstart x" "rlast y = rlast x" "npages y = npages x" "it_start y = it_start x" "it_last y = it_last x" "notif y = notif x"
    "child_list y = child_list x" "work_op y = work_op x" "in_tree y = in_tree x" "covers y pg = covers x pg"
proof -
  show s: "rstart y = rstart x" "rlast y = rlast x" "npages y = npages x" "it_start y = it_start x" "it_last y = it_last x" "notif y = notif x"
    "child_list y = child_list x" "work_op y = work_op x"
    using arg_cong [OF assms, of rstart] arg_cong [OF assms, of rlast] arg_cong [OF assms, of npages] arg_cong [OF assms, of it_start]
      arg_cong [OF assms, of it_last] arg_cong [OF assms, of notif] arg_cong [OF assms, of child_list] arg_cong [OF assms, of work_op]
    by (simp_all add: body_of_def)
  then show "in_tree y = in_tree x" "covers y pg = covers x pg" by (simp_all add: in_tree_def linked_def fresh_def covers_def)
qed

lemma fold_apply_attrs:
  assumes "distinct U"
  shows "touches (set U) s (fold (\<lambda>r. upd_r r f) U s) \<and> allocs (fold (\<lambda>r. upd_r r f) U s) = allocs s \<and>
    (\<forall>x\<in>set U. rng (fold (\<lambda>r. upd_r r f) U s) x = f (rng s x))"
  using assms
proof (induction U arbitrary: s)
  case (Cons r U)
  let ?s = "upd_r r f s"
  have "touches {r} s ?s" by (simp add: touches_def same_lists_def)
  moreover have "touches (set U) ?s (fold (\<lambda>r. upd_r r f) U ?s)" using Cons by simp
  ultimately have "touches (set (r # U)) s (fold (\<lambda>r. upd_r r f) (r # U) s)" using touches_trans [of "{r}" s ?s "set U"] by simp
  moreover have "rng (fold (\<lambda>r. upd_r r f) U ?s) r = rng ?s r" using Cons by (simp add: touches_def)
  ultimately show ?case using Cons by (auto simp: fun_upd_def)
qed simp

lemma remove_range_frame:
  assumes "it_start (rng s r) \<noteq> 0" and "it_last (rng s r) \<noteq> 0"
  shows "keeps_core {} (s\<lparr>objects := remove1 r (objects s), svm_list := remove1 r (svm_list s)\<rparr>) (remove_range env r s)"
proof -
  have "keeps_core {} (s\<lparr>objects := remove1 r (objects s), svm_list := remove1 r (svm_list s)\<rparr>) (svm_range_unlink r s)"
    using assms by (simp add: svm_range_unlink_def interval_tree_remove_def Let_def keeps_core_def same_lists_def split: option.splits)
  from keeps_core_trans [OF this svm_range_free_keeps [of _ env r]] show ?thesis by (simp add: remove_range_def)
qed

lemma fold_remove_range:
  assumes "\<forall>x\<in>set D. in_tree (rng s x)"
  shows "keeps_core {} (s\<lparr>objects := fold remove1 D (objects s), svm_list := fold remove1 D (svm_list s)\<rparr>) (fold (remove_range env) D s)"
  using assms
proof (induction D arbitrary: s)
  case (Cons r D)
  have "it_start (rng s r) \<noteq> 0" "it_last (rng s r) \<noteq> 0" using Cons.prems by (auto simp: in_tree_def linked_def fresh_def)
  note k = remove_range_frame [OF this, of env]
  have "in_tree (rng (remove_range env r s) x)" if "x \<in> set D" for x
    using Cons.prems that core_sel [of "rng (remove_range env r s) x" "rng s x"] k by (simp add: keeps_core_def in_tree_def linked_def fresh_def)
  then have "keeps_core {} ((remove_range env r s)\<lparr>objects := fold remove1 D (objects (remove_range env r s)), svm_list := fold remove1 D (svm_list (remove_range env r s))\<rparr>)
      (fold (remove_range env) D (remove_range env r s))" by (intro Cons.IH) simp
  then show ?case using k by (simp add: keeps_core_def same_lists_def)
qed simp

lemma fold_remove1_filter: "distinct xs \<Longrightarrow> fold remove1 D xs = filter (\<lambda>x. x \<notin> set D) xs"
proof (induction D arbitrary: xs)
  case (Cons d D)
  have "fold remove1 D (remove1 d xs) = filter (\<lambda>x. x \<notin> set D) (removeAll d xs)"
    using Cons distinct_remove1_removeAll [OF Cons.prems, of d] by (simp add: distinct_removeAll)
  then show ?case by (auto simp: removeAll_filter_not_eq intro: filter_cong)
qed simp

lemma in_tree_place: "fresh x \<Longrightarrow> in_tree (place x)"
  by (simp add: in_tree_def linked_def fresh_def place_def)

lemma core_in_tree: "core y = core x \<Longrightarrow> in_tree y = in_tree x \<and> covers y pg = covers x pg \<and> attrs_of y = attrs_of x"
  using core_sel [of y x] by (simp add: in_tree_def linked_def fresh_def covers_def)

lemma svms_ok_by_start:
  assumes ok: "svms_ok s"
  shows "by_start s"
proof -
  have "distinct xs" if "sorted_wrt (\<lambda>x y. rlast (rng s x) < rstart (rng s y)) xs" "\<forall>x\<in>set xs. rstart (rng s x) \<le> rlast (rng s x)" for xs
    using that by (induction xs) force+
  then have "distinct (objects s)" using svms_okD(2,4) [OF ok] by (simp add: in_tree_def linked_def fresh_def)
  moreover have "sorted_wrt (\<lambda>x y. it_start (rng s x) \<le> it_start (rng s y)) (objects s)"
    using svms_okD(4) [OF ok]
  proof (rule sorted_wrt_mono_rel [rotated])
    fix x y assume "x \<in> set (objects s)" "y \<in> set (objects s)" "rlast (rng s x) < rstart (rng s y)"
    then show "it_start (rng s x) \<le> it_start (rng s y)"
      using svms_okD(2) [OF ok, of x] svms_okD(2) [OF ok, of y] by (auto simp: in_tree_def linked_def fresh_def)
  qed
  ultimately show ?thesis by (simp add: by_start_def)
qed

text \<open>The ranges after the change, one by one.\<close>

lemma apply_change_ranges:
  assumes ok: "svms_ok s" and inv: "change_inv env new s start end_page c t" and u: "u = apply_change env attrs c t"
  shows "distinct (objects u) \<and> set (objects u) = after_change s c \<and> sorted_wrt (\<lambda>x y. it_start (rng u x) \<le> it_start (rng u y)) (objects u) \<and>
    distinct (svm_list u) \<and> set (svm_list u) = after_change s c \<and> deferred_range_list u = [] \<and> bitmap_supported u = bitmap_supported s \<and> allocs t \<le> allocs u \<and>
    (\<forall>x\<in>after_change s c. in_tree (rng u x) \<and> (\<forall>pg. covers (rng u x) pg = covers (rng t x) pg) \<and>
       attrs_of (rng u x) = (if x \<in> set (update_list c) then svm_range_apply_attrs env attrs (attrs_of (rng t x)) else attrs_of (rng t x)))"
proof -
  let ?I = "insert_list c" and ?U = "update_list c" and ?D = "remove_list c" and ?R = "after_change s c" and ?f = "svm_range_apply_attrs env attrs"
  define t1 where "t1 = fold insert_range ?I t"
  define t2 where "t2 = fold (\<lambda>r. upd_r r ?f) ?U t1"
  have tch: "touches {allocs s..} s t" and I: "distinct ?I" "set ?I \<subseteq> {allocs s..<allocs t}" and fr: "\<And>y. y \<in> set ?I \<Longrightarrow> fresh (rng t y)"
    and D: "set ?D \<subseteq> set (objects s)" and U: "distinct ?U" "set ?U \<subseteq> ?R" using inv unfolding change_inv_def by blast+
  have ob: "objects t = objects s" "svm_list t = svm_list s" "deferred_range_list t = []" "bitmap_supported t = bitmap_supported s"
    using tch ok by (simp_all add: touches_def same_lists_def svms_ok_def)
  have old: "rng t x = rng s x" if "x \<in> set (objects s)" for x using tch svms_okD(3) [OF ok that] by (simp add: touches_def)
  have dI: "set ?I \<inter> set (objects s) = {}" using I(2) svms_okD(3) [OF ok] by fastforce
  have "sorted_wrt (\<lambda>x y. it_start (rng t x) \<le> it_start (rng t y)) (objects s)"
    using svms_ok_by_start [OF ok] unfolding by_start_def by (auto intro: sorted_wrt_mono_rel [rotated] simp: old)
  then have bs: "by_start t" using svms_ok_by_start [OF ok] ob by (simp add: by_start_def)
  have dI': "set ?I \<inter> set (objects t) = {}" using dI ob by simp
  note i = fold_insert_range [OF bs I(1) dI' t1_def]
  note a = fold_apply_attrs [OF U(1), of t1 ?f, folded t2_def]
  have b2: "body_of (rng t2 x) = body_of (rng t1 x)" for x
    using a apply_attrs_parts(1) by (cases "x \<in> set ?U") (auto simp: touches_def)
  have a2: "attrs_of (rng t2 x) = (if x \<in> set ?U then ?f (attrs_of (rng t1 x)) else attrs_of (rng t1 x))" for x
    using a apply_attrs_parts(2) [of env attrs] by (cases "x \<in> set ?U") (auto simp: touches_def)
  have r1: "in_tree (rng t1 x) \<and> (\<forall>pg. covers (rng t1 x) pg = covers (rng t x) pg) \<and> attrs_of (rng t1 x) = attrs_of (rng t x)" if x: "x \<in> set (objects s) \<union> set ?I" for x
  proof (cases "x \<in> set ?I")
    case True
    then show ?thesis using i in_tree_place [OF fr] by (simp add: covers_def attrs_of_def place_def)
  next
    case False
    then show ?thesis using i x old svms_okD(2) [OF ok] by simp
  qed
  have r2: "in_tree (rng t2 x)" "covers (rng t2 x) pg = covers (rng t x) pg" if "x \<in> set (objects s) \<union> set ?I" for x pg
    using r1 [OF that] body_of_sel [OF b2] by auto
  have "\<forall>x\<in>set ?D. in_tree (rng t2 x)" using r2(1) D by blast
  from fold_remove_range [OF this, of env] have k: "keeps_core {} (t2\<lparr>objects := fold remove1 ?D (objects t2), svm_list := fold remove1 ?D (svm_list t2)\<rparr>) u"
    by (simp add: u apply_change_def t1_def t2_def)
  have l2: "objects t2 = objects t1" "svm_list t2 = svm_list s @ ?I" "distinct (objects t2)" "distinct (svm_list t2)"
    "deferred_range_list t2 = []" "bitmap_supported t2 = bitmap_supported s" "allocs t2 = allocs t"
    using a i ob ok I(1) dI by (auto simp: touches_def same_lists_def by_start_def svms_ok_def)
  have l: "objects u = filter (\<lambda>x. x \<notin> set ?D) (objects t1)" "svm_list u = filter (\<lambda>x. x \<notin> set ?D) (svm_list s @ ?I)"
    using k fold_remove1_filter [OF l2(3)] fold_remove1_filter [OF l2(4)] l2(1,2) by (simp_all add: keeps_core_def same_lists_def)
  have cu: "core (rng u x) = core (rng t2 x)" for x using k by (simp add: keeps_core_def)
  have it: "it_start (rng u x) = it_start (rng t1 x)" for x using core_sel(8) [OF cu] body_of_sel(4) [OF b2] by metis
  have so: "set (objects u) = ?R" using i dI D ob by (auto simp: l after_change_def)
  have sl: "set (svm_list u) = ?R" using ok dI D by (auto simp: l after_change_def svms_ok_def)
  have sub: "x \<in> set (objects s) \<union> set ?I" if "x \<in> ?R" for x using that by (auto simp: after_change_def)
  have "in_tree (rng u x) \<and> (\<forall>pg. covers (rng u x) pg = covers (rng t x) pg) \<and>
      attrs_of (rng u x) = (if x \<in> set ?U then ?f (attrs_of (rng t x)) else attrs_of (rng t x))" if x: "x \<in> ?R" for x
    using core_in_tree [OF cu] r2 [OF sub [OF x]] a2 [of x] r1 [OF sub [OF x]] by simp
  moreover have "sorted_wrt (\<lambda>x y. it_start (rng u x) \<le> it_start (rng u y)) (objects u)"
    using conjunct1 [OF i] unfolding it l by_start_def by (blast intro: sorted_wrt_filter)
  moreover have "distinct (objects u)" "distinct (svm_list u)" using l2 by (auto simp: l)
  moreover have "deferred_range_list u = []" "bitmap_supported u = bitmap_supported s" "allocs t \<le> allocs u" using k l2 by (simp_all add: keeps_core_def same_lists_def)
  ultimately show ?thesis using so sl by blast
qed

section \<open>Setting attributes\<close>

text \<open>The abstract view: the attributes of a page, when a range covers it. A request turns the attributes of each
  page of its interval into new ones; it skips ranges that \<open>svm_range_is_same_attrs\<close> takes for unchanged.\<close>

definition page_attr :: "svm_state \<Rightarrow> u64 \<Rightarrow> svm_range option" where
  "page_attr s pg = map_option (\<lambda>x. attrs_of (rng s x)) (List.find (\<lambda>x. covers (rng s x) pg) (objects s))"

definition set_page :: "svm_env \<Rightarrow> svm_attribute list \<Rightarrow> svm_range \<Rightarrow> svm_range option \<Rightarrow> svm_range" where
  "set_page env attrs d p =
     (case p of
        None \<Rightarrow> svm_range_apply_attrs env attrs d
      | Some a \<Rightarrow> if svm_range_is_same_attrs a (svm_range_apply_attrs env attrs zero_range) then a else svm_range_apply_attrs env attrs a)"

lemma page_attr_old_page:
  assumes "apart s (set (objects s))"
  shows "page_attr s pg = Some a \<longleftrightarrow> old_page s pg a" and "page_attr s pg = None \<longleftrightarrow> (\<nexists>a. old_page s pg a)"
proof -
  have 1: "page_attr s pg = Some a \<longleftrightarrow> old_page s pg a" for a
  proof (cases "List.find (\<lambda>x. covers (rng s x) pg) (objects s)")
    case None
    moreover have "\<forall>x\<in>set (objects s). \<not> covers (rng s x) pg" using None by (simp add: find_None_iff)
    ultimately show ?thesis by (simp add: page_attr_def page_is_def)
  next
    case (Some x)
    then have "x \<in> set (objects s)" "covers (rng s x) pg" by (auto simp: find_Some_iff)
    then show ?thesis using Some assms unfolding page_attr_def page_is_def apart_def by auto
  qed
  show "page_attr s pg = Some a \<longleftrightarrow> old_page s pg a" by (rule 1)
  show "page_attr s pg = None \<longleftrightarrow> (\<nexists>a. old_page s pg a)" unfolding 1 [symmetric] by (cases "page_attr s pg") simp_all
qed

lemma page_attr_keeps:
  assumes "svms_ok s" and "keeps_core {allocs s..} s t"
  shows "svms_ok t" and "objects t = objects s" and "page_attr t pg = page_attr s pg"
proof -
  have o: "objects t = objects s" and l: "svm_list t = svm_list s" "deferred_range_list t = deferred_range_list s" "allocs s \<le> allocs t"
    using assms(2) by (simp_all add: keeps_core_def same_lists_def)
  have c: "core (rng t x) = core (rng s x)" if "x \<in> set (objects s)" for x using assms svms_okD(3) [OF assms(1) that] by (simp add: keeps_core_def)
  have "sorted_wrt (\<lambda>x y. rlast (rng t x) < rstart (rng t y)) (objects s)"
    using svms_okD(4) [OF assms(1)] by (rule sorted_wrt_mono_rel [rotated]) (simp add: core_sel [OF c])
  moreover have "in_tree (rng t x) \<and> x < allocs t" if "x \<in> set (objects s)" for x
    using core_in_tree [OF c [OF that]] svms_okD(2,3) [OF assms(1) that] l by simp
  ultimately show ok: "svms_ok t" using assms(1) o l by (simp add: svms_ok_def)
  show "objects t = objects s" by (rule o)
  have "old_page t pg a \<longleftrightarrow> old_page s pg a" for a unfolding page_is_def o using core_in_tree [OF c] by auto
  then show "page_attr t pg = page_attr s pg"
    using page_attr_old_page [OF svms_okD(1) [OF ok]] page_attr_old_page [OF svms_okD(1) [OF assms(1)]] by (metis option.exhaust)
qed

lemma apply_change_pages:
  assumes ok: "svms_ok s" and inv: "change_inv env (svm_range_apply_attrs env attrs zero_range) s start (lst + 1) c t" and u: "u = apply_change env attrs c t"
    and lst: "lst < - 1"
  shows "svms_ok u" and "page_attr u pg = (if start \<le> pg \<and> pg \<le> lst then Some (set_page env attrs (default_attrs env s) (page_attr s pg)) else page_attr s pg)"
    and "r \<in> set (update_list c) \<Longrightarrow> covers (rng u r) pg \<Longrightarrow> start \<le> pg \<and> pg \<le> lst"
proof -
  let ?R = "after_change s c" and ?U = "set (update_list c)" and ?f = "svm_range_apply_attrs env attrs"
  note a = apply_change_ranges [OF ok inv u]
  have R: "set (objects u) = ?R" and cov: "\<And>x pg. x \<in> ?R \<Longrightarrow> covers (rng u x) pg = covers (rng t x) pg"
    and att: "\<And>x. x \<in> ?R \<Longrightarrow> attrs_of (rng u x) = (if x \<in> ?U then ?f (attrs_of (rng t x)) else attrs_of (rng t x))"
    and it: "\<And>x. x \<in> ?R \<Longrightarrow> in_tree (rng u x)" using a by blast+
  have apt: "apart t ?R" and pages: "\<And>pg a v. page_is t ?R ?U pg a v \<longleftrightarrow> change_pages env (?f zero_range) s start (lst + 1) pg a v"
    and UR: "?U \<subseteq> ?R" and ins: "set (insert_list c) \<subseteq> {allocs s..<allocs t}" and al: "allocs s \<le> allocs t"
    using inv unfolding change_inv_def touches_def by blast+
  have ap: "apart u (set (objects u))" using apt cov unfolding R apart_def by blast
  have "sorted_wrt (\<lambda>x y. rstart (rng u x) \<le> rstart (rng u y)) (objects u)"
  proof (rule sorted_wrt_mono_rel)
    show "sorted_wrt (\<lambda>x y. it_start (rng u x) \<le> it_start (rng u y)) (objects u)" using a by blast
    show "rstart (rng u x) \<le> rstart (rng u y)" if "x \<in> set (objects u)" "y \<in> set (objects u)" "it_start (rng u x) \<le> it_start (rng u y)" for x y
      using that it [of x] it [of y] by (simp add: R in_tree_def linked_def)
  qed
  then have "sorted_wrt (\<lambda>x y. rlast (rng u x) < rstart (rng u y)) (objects u)"
    using a it by (intro apart_sorted [OF ap]) (auto simp: in_tree_def linked_def fresh_def)
  moreover have "x < allocs u" if "x \<in> ?R" for x using that ins al svms_okD(3) [OF ok] a unfolding after_change_def by fastforce
  ultimately show "svms_ok u" using a it unfolding svms_ok_def by simp
  show "start \<le> pg \<and> pg \<le> lst" if "r \<in> ?U" "covers (rng u r) pg"
  proof -
    have "page_is t ?R ?U pg (attrs_of (rng t r)) True" using that UR cov unfolding page_is_def by blast
    then show ?thesis unfolding pages change_pages_def word_less_succ [OF lst] by (auto split: if_splits)
  qed
  have op: "old_page u pg b \<longleftrightarrow> (\<exists>a v. change_pages env (?f zero_range) s start (lst + 1) pg a v \<and> b = (if v then ?f a else a))" for b
  proof
    assume "old_page u pg b"
    then obtain x where "x \<in> ?R" "covers (rng t x) pg" "b = (if x \<in> ?U then ?f (attrs_of (rng t x)) else attrs_of (rng t x))"
      unfolding page_is_def R using cov att by metis
    then show "\<exists>a v. change_pages env (?f zero_range) s start (lst + 1) pg a v \<and> b = (if v then ?f a else a)"
      unfolding pages [symmetric] page_is_def by blast
  next
    assume "\<exists>a v. change_pages env (?f zero_range) s start (lst + 1) pg a v \<and> b = (if v then ?f a else a)"
    then show "old_page u pg b" unfolding pages [symmetric] page_is_def R using cov att by auto
  qed
  note pa = page_attr_old_page [OF svms_okD(1) [OF ok]] and pu = page_attr_old_page [OF ap]
  show "page_attr u pg = (if start \<le> pg \<and> pg \<le> lst then Some (set_page env attrs (default_attrs env s) (page_attr s pg)) else page_attr s pg)"
  proof (cases "start \<le> pg \<and> pg \<le> lst")
    case True
    then have "change_pages env (?f zero_range) s start (lst + 1) pg a v \<longleftrightarrow> (if \<exists>b. old_page s pg b
        then old_page s pg a \<and> (v \<longleftrightarrow> \<not> svm_range_is_same_attrs a (?f zero_range)) else a = default_attrs env s \<and> v)" for a v
      unfolding change_pages_def word_less_succ [OF lst] by simp
    then have "old_page u pg (set_page env attrs (default_attrs env s) (page_attr s pg))"
      unfolding op using pa [of pg] by (cases "page_attr s pg") (auto simp: set_page_def)
    then show ?thesis using True pu(1) by simp
  next
    case False
    then have "change_pages env (?f zero_range) s start (lst + 1) pg a v \<longleftrightarrow> old_page s pg a \<and> \<not> v" for a v
      unfolding change_pages_def word_less_succ [OF lst] by (simp only: if_False)
    then have "old_page u pg b \<longleftrightarrow> old_page s pg b" for b unfolding op by auto
    then show ?thesis unfolding if_not_P [OF False] using pa pu by (metis option.exhaust)
  qed
qed

end
