(* ===== verification/Opu_Svm_Requests.thy ===== *)
theory Opu_Svm_Requests
  imports Opu_Svm_Props
begin

text \<open>
  The requests of a process on its ranges: the properties of \<open>svm_range_set_attr\<close>, \<open>svm_range_is_valid\<close> and
  \<open>svm_range_get_attr\<close>, on the attributes of pages.
\<close>

section \<open>Setting attributes\<close>

lemma svm_range_add_null: "svm_range_add env start sz attrs s = None \<Longrightarrow> \<exists>n. \<not> alloc_ok env n"
  by (auto simp: svm_range_add_def svm_range_new_def Let_def split: prod.splits if_splits option.splits)

lemma svm_range_set_attr_flushed:
  assumes "svms_ok s" and "svm_range_check_attr env s attrs = 0" and "svm_range_is_valid env start sz = Some True"
  shows "svm_range_set_attr env start sz attrs s = (case svm_range_add env start sz attrs s of
    None \<Rightarrow> None | Some (r, c, t) \<Rightarrow> if r \<noteq> 0 then Some (r, t) else Some (migrate_loop env (update_list c) (apply_change env attrs c t)))"
  using assms by (simp add: svm_range_set_attr_def svm_range_deferred_list_work_def svms_ok_def)

text \<open>
  C9. Setting attributes refines the update of a map from pages to attributes. When the request passes its checks and
  memory is available, \<open>svm_range_set_attr\<close> reaches its migrations with ranges that are well formed, sorted and
  disjoint; each page of the interval has the requested attributes on top of its old ones, or of the defaults when
  it had none (a range that looks unchanged is left alone), and no other page changes. The ranges handed to the
  migrations lie inside the interval.
\<close>
theorem svm_range_set_attr_pages:
  assumes "svms_ok s" and "svm_range_check_attr env s attrs = 0" and "svm_range_is_valid env start sz = Some True"
    and "\<forall>n. alloc_ok env n" and "0 < start" and "start \<le> start + sz - 1" and "start + sz - 1 < - 1"
  shows "\<exists>(c :: change) u. svm_range_set_attr env start sz attrs s = Some (migrate_loop env (update_list c) u) \<and> svms_ok u \<and>
    (\<forall>pg. page_attr u pg = (if start \<le> pg \<and> pg \<le> start + sz - 1 then Some (set_page env attrs (default_attrs env s) (page_attr s pg)) else page_attr s pg)) \<and>
    (\<forall>r\<in>set (update_list c). \<forall>pg. covers (rng u r) pg \<longrightarrow> start \<le> pg \<and> pg \<le> start + sz - 1)"
proof -
  obtain r c t where a: "svm_range_add env start sz attrs s = Some (r, c, t)"
    using svm_range_add_null [of env start sz attrs s] assms(4) by (cases "svm_range_add env start sz attrs s") auto
  note ch = svm_range_add_change [OF assms(1) a refl assms(5-7)]
  have r: "r = 0" using ch assms(4) by (auto simp: out_of_memory_def split: if_splits)
  define u where "u = apply_change env attrs c t"
  have e: "svm_range_set_attr env start sz attrs s = Some (migrate_loop env (update_list c) u)"
    by (simp add: svm_range_set_attr_flushed [OF assms(1-3)] a r u_def)
  note p = apply_change_pages [OF assms(1) ch [unfolded if_P [OF r]] u_def assms(7)]
  show ?thesis
  proof (intro exI conjI ballI allI impI)
    show "svm_range_set_attr env start sz attrs s = Some (migrate_loop env (update_list c) u)" by (rule e)
  qed (use p in auto)
qed


lemma ex_svms_ok: "svms_ok ex_svms"
  by (simp add: svms_ok_def in_tree_def linked_def fresh_def ex_svms_def ex_range_def zero_range_def)

lemma ex_is_valid: "svm_range_is_valid (ex_env mem) 24 20 = Some True"
  unfolding svm_range_is_valid_def by (subst svm_valid_loop.simps) (simp add: ex_env_def)

lemma ex_check_attr: "svm_range_check_attr (ex_env mem) ex_svms [(OPU_IOCTL_SVM_ATTR_GRANULARITY, 5)] = 0"
  by (simp add: svm_check_attr1_def check_gpuidx_def)

theorem svm_range_set_attr_pages_witness:
  "\<exists>(c :: change) u. svm_range_set_attr (ex_env True) 24 20 [(OPU_IOCTL_SVM_ATTR_GRANULARITY, 5)] ex_svms = Some (migrate_loop (ex_env True) (update_list c) u) \<and>
    svms_ok u \<and> page_attr u 23 = page_attr ex_svms 23 \<and> map_option granularity (page_attr u 24) = Some 5 \<and> map_option granularity (page_attr u 35) = Some 5"
proof -
  obtain c :: change and u where e: "svm_range_set_attr (ex_env True) 24 20 [(OPU_IOCTL_SVM_ATTR_GRANULARITY, 5)] ex_svms = Some (migrate_loop (ex_env True) (update_list c) u)"
    and ok: "svms_ok u" and p: "\<And>pg. page_attr u pg = (if 24 \<le> pg \<and> pg \<le> 24 + 20 - 1
      then Some (set_page (ex_env True) [(OPU_IOCTL_SVM_ATTR_GRANULARITY, 5)] (default_attrs (ex_env True) ex_svms) (page_attr ex_svms pg)) else page_attr ex_svms pg)"
    using svm_range_set_attr_pages [OF ex_svms_ok ex_check_attr ex_is_valid, of True] by (auto simp: ex_env_def)
  have "page_attr ex_svms 24 = Some (attrs_of (rng ex_svms 0))" "page_attr ex_svms 35 = None"
    by (simp_all add: page_attr_def ex_svms_def ex_range_def zero_range_def covers_def)
  then have "map_option granularity (page_attr u 24) = Some 5" "map_option granularity (page_attr u 35) = Some 5"
    unfolding p by (simp_all add: set_page_def svm_range_is_same_attrs_def svm_range_apply_attrs_def svm_apply_attr1_def attrs_of_def zero_range_def
      ex_svms_def ex_range_def default_attrs_def new_range_def svm_range_set_default_attributes_def)
  then show ?thesis using e ok p [of 23] by auto
qed

lemma ex_add_fails: "\<exists>c t. svm_range_add (ex_env False) 24 20 [(OPU_IOCTL_SVM_ATTR_GRANULARITY, 5)] ex_svms = Some (- 12, c, t)"
proof -
  have "map_option fst (svm_range_add (ex_env False) 24 20 [(OPU_IOCTL_SVM_ATTR_GRANULARITY, 5)] ex_svms) = Some (- 12)" by code_simp
  then show ?thesis by auto
qed


section \<open>Valid intervals\<close>



end
