(* ===== verification/Opu_Crat.thy ===== *)
theory Opu_Crat
  imports Opu_Dev
begin

text \<open>
  The component resource association table (\<open>opu_crat.c\<close>, \<open>opu_crat.h\<close>): its packed structures as bytes, and the
  parser that turns an image of the table into a list of topology devices. An image is the list of its bytes;
  a structure is read at an offset. Reading a structure that does not lie inside the image, or through a
  \<open>NULL\<close>, is a \<open>Fault\<close>.
\<close>

section \<open>Bytes\<close>

datatype 'a access = Inside 'a | Fault

definition le_bytes :: "nat \<Rightarrow> 'a::len word \<Rightarrow> u8 list" where
  "le_bytes n w = map (\<lambda>i. ucast (drop_bit (8 * i) w)) [0..<n]"

definition le_word :: "u8 list \<Rightarrow> 'a::len word" where
  "le_word bs = foldr (\<lambda>b w. ucast b OR push_bit 8 w) bs 0"

definition rd :: "nat \<Rightarrow> u8 list \<Rightarrow> nat \<Rightarrow> 'a::len word" where
  "rd n img off = le_word (take n (drop off img))"

section \<open>Structures of the table\<close>

text \<open>The reserved fields, the identifiers that nothing reads, and \<open>io_count\<close> are zero in a table that the
  driver writes and are left out of the records.\<close>

record crat_header =
  h_signature :: "u8 list"
  h_length :: u32
  h_oem_id :: "u8 list"
  h_oem_table_id :: "u8 list"
  h_oem_revision :: u32
  h_total_entries :: u32
  h_num_domains :: u16

record crat_subtype_computeunit =
  cu_flags :: u32
  cu_proximity_domain :: u32
  cu_processor_id_low :: u32
  num_cpu_cores :: u16
  num_simd_cores :: u16
  max_waves_simd :: u16
  hsa_capability :: u16
  cu_lds_size_in_kb :: u16
  cu_wave_front_size :: u8
  num_banks :: u8
  cu_array_count :: u8
  num_cu_per_array :: u8
  num_simd_per_cu :: u8
  max_slots_scatch_cu :: u8

record crat_subtype_memory =
  mem_flags :: u32
  mem_proximity_domain :: u32
  length_low :: u32
  length_high :: u32
  mem_width :: u32
  visibility_type :: u8

record crat_subtype_cache =
  cache_flags :: u32
  cache_processor_id_low :: u32
  cache_sibling_map :: "u8 list"
  c_cache_size :: u32
  c_cache_level :: u8
  lines_per_tag :: u8
  cache_line_size :: u16
  associativity :: u8
  c_cache_latency :: u16

record crat_subtype_iolink =
  link_flags :: u32
  proximity_domain_from :: u32
  proximity_domain_to :: u32
  io_interface_type :: u8
  version_major :: u8
  version_minor :: u16
  minimum_latency :: u32
  maximum_latency :: u32
  minimum_bandwidth_mbs :: u32
  maximum_bandwidth_mbs :: u32
  recommended_transfer_size :: u32
  num_hops_xgmi :: u8

abbreviation CRAT_SUBTYPE_COMPUTEUNIT_AFFINITY :: u8 where "CRAT_SUBTYPE_COMPUTEUNIT_AFFINITY \<equiv> 0"
abbreviation CRAT_SUBTYPE_MEMORY_AFFINITY :: u8 where "CRAT_SUBTYPE_MEMORY_AFFINITY \<equiv> 1"
abbreviation CRAT_SUBTYPE_CACHE_AFFINITY :: u8 where "CRAT_SUBTYPE_CACHE_AFFINITY \<equiv> 2"
abbreviation CRAT_SUBTYPE_IOLINK_AFFINITY :: u8 where "CRAT_SUBTYPE_IOLINK_AFFINITY \<equiv> 5"
abbreviation CRAT_IOLINK_TYPE_HYPERTRANSPORT :: u8 where "CRAT_IOLINK_TYPE_HYPERTRANSPORT \<equiv> 1"
abbreviation CRAT_IOLINK_TYPE_PCIEXPRESS :: u8 where "CRAT_IOLINK_TYPE_PCIEXPRESS \<equiv> 2"
abbreviation CRAT_IOLINK_TYPE_QPI_1_1 :: u8 where "CRAT_IOLINK_TYPE_QPI_1_1 \<equiv> 5"
abbreviation CRAT_IOLINK_TYPE_XGMI :: u8 where "CRAT_IOLINK_TYPE_XGMI \<equiv> 11"
abbreviation CRAT_IOLINK_FLAGS_BI_DIRECTIONAL :: u32 where "CRAT_IOLINK_FLAGS_BI_DIRECTIONAL \<equiv> 0x80000000"

text \<open>The sizes of the structures: 8 bytes for the common start, 48 for the header.\<close>

abbreviation sizeof_header :: nat where "sizeof_header \<equiv> 48"
abbreviation sizeof_generic :: nat where "sizeof_generic \<equiv> 8"
abbreviation sizeof_computeunit :: nat where "sizeof_computeunit \<equiv> 40"
abbreviation sizeof_memory :: nat where "sizeof_memory \<equiv> 40"
abbreviation sizeof_cache :: nat where "sizeof_cache \<equiv> 64"
abbreviation sizeof_iolink :: nat where "sizeof_iolink \<equiv> 64"

definition header_at :: "u8 list \<Rightarrow> crat_header" where
  "header_at img = \<lparr>h_signature = take 4 img, h_length = rd 4 img 4, h_oem_id = take 6 (drop 10 img),
     h_oem_table_id = take 8 (drop 16 img), h_oem_revision = rd 4 img 24, h_total_entries = rd 4 img 36, h_num_domains = rd 2 img 40\<rparr>"

definition cu_at :: "u8 list \<Rightarrow> nat \<Rightarrow> crat_subtype_computeunit" where
  "cu_at img p = \<lparr>cu_flags = rd 4 img (p + 4), cu_proximity_domain = rd 4 img (p + 8), cu_processor_id_low = rd 4 img (p + 12),
     num_cpu_cores = rd 2 img (p + 16), num_simd_cores = rd 2 img (p + 18), max_waves_simd = rd 2 img (p + 20),
     hsa_capability = rd 2 img (p + 24), cu_lds_size_in_kb = rd 2 img (p + 26), cu_wave_front_size = rd 1 img (p + 28), num_banks = rd 1 img (p + 29),
     cu_array_count = rd 1 img (p + 32), num_cu_per_array = rd 1 img (p + 33), num_simd_per_cu = rd 1 img (p + 34),
     max_slots_scatch_cu = rd 1 img (p + 35)\<rparr>"

definition mem_at :: "u8 list \<Rightarrow> nat \<Rightarrow> crat_subtype_memory" where
  "mem_at img p = \<lparr>mem_flags = rd 4 img (p + 4), mem_proximity_domain = rd 4 img (p + 8), length_low = rd 4 img (p + 20),
     length_high = rd 4 img (p + 24), mem_width = rd 4 img (p + 28), visibility_type = rd 1 img (p + 32)\<rparr>"

definition cache_at :: "u8 list \<Rightarrow> nat \<Rightarrow> crat_subtype_cache" where
  "cache_at img p = \<lparr>cache_flags = rd 4 img (p + 4), cache_processor_id_low = rd 4 img (p + 8), cache_sibling_map = take 32 (drop (p + 12) img),
     c_cache_size = rd 4 img (p + 44), c_cache_level = rd 1 img (p + 48), lines_per_tag = rd 1 img (p + 49), cache_line_size = rd 2 img (p + 50),
     associativity = rd 1 img (p + 52), c_cache_latency = rd 2 img (p + 54)\<rparr>"

definition iolink_at :: "u8 list \<Rightarrow> nat \<Rightarrow> crat_subtype_iolink" where
  "iolink_at img p = \<lparr>link_flags = rd 4 img (p + 4), proximity_domain_from = rd 4 img (p + 8), proximity_domain_to = rd 4 img (p + 12),
     io_interface_type = rd 1 img (p + 16), version_major = rd 1 img (p + 17), version_minor = rd 2 img (p + 18),
     minimum_latency = rd 4 img (p + 20), maximum_latency = rd 4 img (p + 24), minimum_bandwidth_mbs = rd 4 img (p + 28),
     maximum_bandwidth_mbs = rd 4 img (p + 32), recommended_transfer_size = rd 4 img (p + 36), num_hops_xgmi = rd 1 img (p + 63)\<rparr>"

section \<open>Topology devices\<close>

record opu_node_properties =
  cpu_cores_count :: u32
  simd_count :: u32
  mem_banks_count :: u32
  caches_count :: u32
  io_links_count :: u32
  cpu_core_id_base :: u32
  simd_id_base :: u32
  capability :: u32
  max_waves_per_simd :: u32
  lds_size_in_kb :: u32
  wave_front_size :: u32
  array_count :: u32
  cu_per_simd_array :: u32
  simd_per_cu :: u32
  max_slots_scratch_cu :: u32
  np_hive_id :: u64
  np_num_gws :: u32
  np_simd_arrays_per_engine :: u32
  np_vendor_id :: u32
  np_device_id :: u32
  np_location_id :: u32
  np_domain :: u32
  np_max_engine_clk_fcompute :: u32
  np_max_engine_clk_ccompute :: u32
  np_drm_render_minor :: int
  np_num_sdma_engines :: u32
  np_num_sdma_xgmi_engines :: u32
  np_num_sdma_queues_per_engine :: u32
  np_num_cp_queues :: u32
  np_name :: string

record opu_mem_properties =
  heap_type :: u32
  size_in_bytes :: u64
  m_flags :: u32
  m_width :: u32
  mem_clk_max :: u32

record opu_cache_properties =
  processor_id_low :: u32
  cache_level :: u32
  cache_size :: u32
  cacheline_size :: u32
  cachelines_per_tag :: u32
  cache_assoc :: u32
  cache_latency :: u32
  cache_type :: u32
  sibling_map :: "u8 list"

record opu_iolink_properties =
  iolink_type :: u32
  ver_maj :: u32
  ver_min :: u32
  node_from :: u32
  node_to :: u32
  weight :: u32
  min_latency :: u32
  max_latency :: u32
  min_bandwidth :: u32
  max_bandwidth :: u32
  rec_transfer_size :: u32
  l_flags :: u32

record opu_topology_device =
  gpu_id :: u32
  proximity_domain :: u32
  node_props :: opu_node_properties
  mem_props :: "opu_mem_properties list"
  cache_count :: u32
  cache_props :: "opu_cache_properties list"
  io_link_count :: u32
  io_link_props :: "opu_iolink_properties list"
  tgpu :: "nat option"
  oem_id :: "u8 list"
  oem_table_id :: "u8 list"
  oem_revision :: u32

definition zero_props :: opu_node_properties where
  "zero_props = \<lparr>cpu_cores_count = 0, simd_count = 0, mem_banks_count = 0, caches_count = 0, io_links_count = 0, cpu_core_id_base = 0,
     simd_id_base = 0, capability = 0, max_waves_per_simd = 0, lds_size_in_kb = 0, wave_front_size = 0, array_count = 0, cu_per_simd_array = 0,
     simd_per_cu = 0, max_slots_scratch_cu = 0,
     np_hive_id = 0, np_num_gws = 0, np_simd_arrays_per_engine = 0, np_vendor_id = 0, np_device_id = 0, np_location_id = 0, np_domain = 0, np_max_engine_clk_fcompute = 0, np_max_engine_clk_ccompute = 0, np_drm_render_minor = 0, np_num_sdma_engines = 0, np_num_sdma_xgmi_engines = 0, np_num_sdma_queues_per_engine = 0, np_num_cp_queues = 0, np_name = []\<rparr>"

definition zero_device :: opu_topology_device where
  "zero_device = \<lparr>gpu_id = 0, proximity_domain = 0, node_props = zero_props, mem_props = [], cache_count = 0, cache_props = [], io_link_count = 0,
     io_link_props = [], tgpu = None, oem_id = replicate 6 0, oem_table_id = replicate 8 0, oem_revision = 0\<rparr>"

text \<open>The list under construction, the master list of \<open>opu_topology.c\<close> with its counters, and the number of
  allocations so far.\<close>

record topology =
  device_list :: "opu_topology_device list"
  topology_device_list :: "opu_topology_device list"
  num_devices :: u32
  generation_count :: u32
  t_allocs :: nat

record crat_env =
  t_alloc_ok :: "nat \<Rightarrow> bool"
  node_distance :: "u32 \<Rightarrow> u32 \<Rightarrow> u32"

fun upd_first :: "('a \<Rightarrow> bool) \<Rightarrow> ('a \<Rightarrow> 'a) \<Rightarrow> 'a list \<Rightarrow> 'a list" where
  "upd_first P f [] = []"
| "upd_first P f (x # xs) = (if P x then f x # xs else x # upd_first P f xs)"

text \<open>An allocation, of a topology device or of properties.\<close>

definition t_alloc :: "crat_env \<Rightarrow> topology \<Rightarrow> bool \<times> topology" where
  "t_alloc env t = (t_alloc_ok env (t_allocs t), t\<lparr>t_allocs := Suc (t_allocs t)\<rparr>)"

definition opu_topology_device_by_proximity_domain :: "u32 \<Rightarrow> topology \<Rightarrow> opu_topology_device option" where
  "opu_topology_device_by_proximity_domain pd t = List.find (\<lambda>d. proximity_domain d = pd) (topology_device_list t)"

definition opu_create_topology_device :: "crat_env \<Rightarrow> topology \<Rightarrow> bool \<times> topology" where
  "opu_create_topology_device env t =
     (case t_alloc env t of (ok, t1) \<Rightarrow> if ok then (True, t1\<lparr>device_list := device_list t1 @ [zero_device]\<rparr>) else (False, t1))"

definition opu_release_topology_device_list :: "topology \<Rightarrow> topology" where
  "opu_release_topology_device_list t = t\<lparr>device_list := []\<rparr>"

section \<open>Parsing\<close>

text \<open>Compute units.\<close>

definition upd_props :: "(opu_node_properties \<Rightarrow> opu_node_properties) \<Rightarrow> opu_topology_device \<Rightarrow> opu_topology_device" where
  "upd_props f d = d\<lparr>node_props := f (node_props d)\<rparr>"

definition opu_populated_cu_info_cpu :: "crat_subtype_computeunit \<Rightarrow> opu_topology_device \<Rightarrow> opu_topology_device" where
  "opu_populated_cu_info_cpu cu = upd_props (\<lambda>p. p\<lparr>cpu_cores_count := ucast (num_cpu_cores cu), cpu_core_id_base := cu_processor_id_low cu,
     capability := (if hsa_capability cu AND 0x10 \<noteq> 0 then capability p OR 2 else capability p)\<rparr>)"

definition opu_populated_cu_info_gpu :: "crat_subtype_computeunit \<Rightarrow> opu_topology_device \<Rightarrow> opu_topology_device" where
  "opu_populated_cu_info_gpu cu = upd_props (\<lambda>p. p\<lparr>simd_id_base := cu_processor_id_low cu, simd_count := ucast (num_simd_cores cu),
     lds_size_in_kb := ucast (cu_lds_size_in_kb cu), max_waves_per_simd := ucast (max_waves_simd cu), wave_front_size := ucast (cu_wave_front_size cu),
     array_count := ucast (cu_array_count cu), cu_per_simd_array := ucast (num_cu_per_array cu), simd_per_cu := ucast (num_simd_per_cu cu),
     max_slots_scratch_cu := ucast (max_slots_scatch_cu cu),
     capability := (if hsa_capability cu AND 2 \<noteq> 0 then capability p OR 1 else capability p)\<rparr>)"

definition opu_parse_subtype_cu :: "crat_subtype_computeunit \<Rightarrow> topology \<Rightarrow> int \<times> topology" where
  "opu_parse_subtype_cu cu t =
     (0, t\<lparr>device_list := upd_first (\<lambda>d. cu_proximity_domain cu = proximity_domain d)
            (\<lambda>d. let d1 = (if cu_flags cu AND 4 \<noteq> 0 then opu_populated_cu_info_cpu cu d else d)
                 in if cu_flags cu AND 8 \<noteq> 0 then opu_populated_cu_info_gpu cu d1 else d1) (device_list t)\<rparr>)"

text \<open>Memory: banks of the same kind are one.\<close>

definition mem_key :: "u32 \<Rightarrow> u32 \<Rightarrow> u32 \<Rightarrow> opu_mem_properties \<Rightarrow> bool" where
  "mem_key ht fl w p \<longleftrightarrow> heap_type p = ht \<and> m_flags p = fl \<and> m_width p = w"

definition find_subtype_mem :: "u32 \<Rightarrow> u32 \<Rightarrow> u32 \<Rightarrow> opu_topology_device \<Rightarrow> opu_mem_properties option" where
  "find_subtype_mem ht fl w d = List.find (mem_key ht fl w) (mem_props d)"

definition mem_heap :: "crat_subtype_memory \<Rightarrow> opu_topology_device \<Rightarrow> u32" where
  "mem_heap mem d = (if cpu_cores_count (node_props d) = 0 then if visibility_type mem = 0 then 2 else ucast (visibility_type mem) else 0)"

definition mem_flags_of :: "crat_subtype_memory \<Rightarrow> u32" where
  "mem_flags_of mem = (if mem_flags mem AND 2 \<noteq> 0 then 1 else 0) OR (if mem_flags mem AND 4 \<noteq> 0 then 2 else 0)"

definition mem_bytes :: "crat_subtype_memory \<Rightarrow> u64" where
  "mem_bytes mem = push_bit 32 (ucast (length_high mem)) + ucast (length_low mem)"

definition opu_parse_subtype_mem :: "crat_env \<Rightarrow> crat_subtype_memory \<Rightarrow> topology \<Rightarrow> int \<times> topology" where
  "opu_parse_subtype_mem env mem t =
     (let here = (\<lambda>d. mem_proximity_domain mem = proximity_domain d); fl = mem_flags_of mem; w = mem_width mem
      in case List.find here (device_list t) of
           None \<Rightarrow> (0, t)
         | Some d \<Rightarrow>
             (let ht = mem_heap mem d
              in case find_subtype_mem ht fl w d of
                   Some _ \<Rightarrow> (0, t\<lparr>device_list := upd_first here (\<lambda>d. d\<lparr>mem_props := upd_first (mem_key ht fl w)
                       (\<lambda>p. p\<lparr>size_in_bytes := size_in_bytes p + mem_bytes mem\<rparr>) (mem_props d)\<rparr>) (device_list t)\<rparr>)
                 | None \<Rightarrow>
                     (case t_alloc env t of (ok, t1) \<Rightarrow>
                        if \<not> ok then (- ENOMEM, t1)
                        else (0, t1\<lparr>device_list := upd_first here (\<lambda>d. upd_props (\<lambda>p. p\<lparr>mem_banks_count := mem_banks_count p + 1\<rparr>)
                               (d\<lparr>mem_props := mem_props d @ [\<lparr>heap_type = ht, size_in_bytes = mem_bytes mem, m_flags = fl, m_width = w, mem_clk_max = 0\<rparr>]\<rparr>)) (device_list t1)\<rparr>))))"

text \<open>Caches go to the first device that has their processor.\<close>

definition cache_here :: "u32 \<Rightarrow> opu_topology_device \<Rightarrow> bool" where
  "cache_here i d \<longleftrightarrow>
     (let p = node_props d; total = array_count p * cu_per_simd_array p
      in cpu_core_id_base p \<le> i \<and> i \<le> cpu_core_id_base p + cpu_cores_count p \<or> simd_id_base p \<le> i \<and> i < simd_id_base p + total)"

definition cache_type_of :: "crat_subtype_cache \<Rightarrow> u32" where
  "cache_type_of c = (if cache_flags c AND 2 \<noteq> 0 then 1 else 0) OR (if cache_flags c AND 4 \<noteq> 0 then 2 else 0) OR
     (if cache_flags c AND 8 \<noteq> 0 then 4 else 0) OR (if cache_flags c AND 16 \<noteq> 0 then 8 else 0)"

definition cache_props_of :: "crat_subtype_cache \<Rightarrow> opu_cache_properties" where
  "cache_props_of c = \<lparr>processor_id_low = cache_processor_id_low c, cache_level = ucast (c_cache_level c), cache_size = c_cache_size c,
     cacheline_size = ucast (cache_line_size c), cachelines_per_tag = ucast (lines_per_tag c), cache_assoc = ucast (associativity c),
     cache_latency = ucast (c_cache_latency c), cache_type = cache_type_of c, sibling_map = cache_sibling_map c\<rparr>"

definition opu_parse_subtype_cache :: "crat_env \<Rightarrow> crat_subtype_cache \<Rightarrow> topology \<Rightarrow> int \<times> topology" where
  "opu_parse_subtype_cache env c t =
     (let here = cache_here (cache_processor_id_low c)
      in case List.find here (device_list t) of
           None \<Rightarrow> (0, t)
         | Some _ \<Rightarrow>
             (case t_alloc env t of (ok, t1) \<Rightarrow>
                if \<not> ok then (- ENOMEM, t1)
                else (0, t1\<lparr>device_list := upd_first here (\<lambda>d. upd_props (\<lambda>p. p\<lparr>caches_count := caches_count p + 1\<rparr>)
                       (d\<lparr>cache_count := cache_count d + 1, cache_props := cache_props d @ [cache_props_of c]\<rparr>)) (device_list t1)\<rparr>)))"

text \<open>Links; the other direction of a link goes to a device of the master list.\<close>

definition link_props_of :: "crat_env \<Rightarrow> crat_subtype_iolink \<Rightarrow> opu_iolink_properties" where
  "link_props_of env l = \<lparr>iolink_type = ucast (io_interface_type l), ver_maj = ucast (version_major l), ver_min = ucast (version_minor l),
     node_from = proximity_domain_from l, node_to = proximity_domain_to l,
     weight = (if io_interface_type l = CRAT_IOLINK_TYPE_PCIEXPRESS then 20
               else if io_interface_type l = CRAT_IOLINK_TYPE_XGMI then 15 * ucast (num_hops_xgmi l)
               else node_distance env (proximity_domain_from l) (proximity_domain_to l)),
     min_latency = minimum_latency l, max_latency = maximum_latency l, min_bandwidth = minimum_bandwidth_mbs l, max_bandwidth = maximum_bandwidth_mbs l,
     rec_transfer_size = recommended_transfer_size l, l_flags = 0\<rparr>"

definition add_link :: "opu_iolink_properties \<Rightarrow> opu_topology_device \<Rightarrow> opu_topology_device" where
  "add_link p d = upd_props (\<lambda>q. q\<lparr>io_links_count := io_links_count q + 1\<rparr>)
     (d\<lparr>io_link_count := io_link_count d + 1, io_link_props := io_link_props d @ [p]\<rparr>)"

definition opu_parse_subtype_iolink :: "crat_env \<Rightarrow> crat_subtype_iolink \<Rightarrow> topology \<Rightarrow> (int \<times> topology) access" where
  "opu_parse_subtype_iolink env l t =
     (let here = (\<lambda>d. proximity_domain_from l = proximity_domain d); there = (\<lambda>d. proximity_domain d = proximity_domain_to l); p = link_props_of env l
      in case List.find here (device_list t) of
           None \<Rightarrow> Inside (0, t)
         | Some _ \<Rightarrow>
             (case t_alloc env t of (ok, t1) \<Rightarrow>
                if \<not> ok then Inside (- ENOMEM, t1)
                else
                  let t2 = t1\<lparr>device_list := upd_first here (add_link p) (device_list t1)\<rparr>
                  in if link_flags l AND CRAT_IOLINK_FLAGS_BI_DIRECTIONAL = 0 then Inside (0, t2)
                     else case opu_topology_device_by_proximity_domain (proximity_domain_to l) t2 of
                            None \<Rightarrow> Inside (- ENODEV, t2)
                          | Some _ \<Rightarrow>
                              (case t_alloc env t2 of (ok, t3) \<Rightarrow>
                                 if \<not> ok then Fault
                                 else Inside (0, t3\<lparr>topology_device_list := upd_first there
                                        (add_link (p\<lparr>node_from := proximity_domain_to l, node_to := proximity_domain_from l\<rparr>)) (topology_device_list t3)\<rparr>))))"

text \<open>A structure is read when it lies inside the image.\<close>

definition at :: "u8 list \<Rightarrow> nat \<Rightarrow> nat \<Rightarrow> 'a access \<Rightarrow> 'a access" where
  "at img p n r = (if p + n \<le> length img then r else Fault)"

definition opu_parse_subtype :: "crat_env \<Rightarrow> u8 list \<Rightarrow> nat \<Rightarrow> topology \<Rightarrow> (int \<times> topology) access" where
  "opu_parse_subtype env img p t =
     (let ty = rd 1 img p :: u8
      in if ty = CRAT_SUBTYPE_COMPUTEUNIT_AFFINITY then at img p sizeof_computeunit (Inside (opu_parse_subtype_cu (cu_at img p) t))
         else if ty = CRAT_SUBTYPE_MEMORY_AFFINITY then at img p sizeof_memory (Inside (opu_parse_subtype_mem env (mem_at img p) t))
         else if ty = CRAT_SUBTYPE_CACHE_AFFINITY then at img p sizeof_cache (Inside (opu_parse_subtype_cache env (cache_at img p) t))
         else if ty = CRAT_SUBTYPE_IOLINK_AFFINITY then at img p sizeof_iolink (opu_parse_subtype_iolink env (iolink_at img p) t)
         else Inside (0, t))"

text \<open>The loop over the subtypes; \<open>None\<close> is a loop that does not end.\<close>

partial_function (option) parse_loop :: "crat_env \<Rightarrow> u8 list \<Rightarrow> nat \<Rightarrow> nat \<Rightarrow> topology \<Rightarrow> (int \<times> topology) access option" where
  "parse_loop env img image_len p t =
     (if \<not> p + sizeof_generic < image_len then Some (Inside (0, t))
      else if \<not> p + sizeof_generic \<le> length img then Some Fault
      else case (if rd 4 img (p + 4) AND (1 :: u32) \<noteq> 0 then opu_parse_subtype env img p t else Inside (0, t)) of
             Fault \<Rightarrow> Some Fault
           | Inside rt \<Rightarrow>
               if fst rt \<noteq> 0 then Some (Inside rt) else parse_loop env img image_len (p + unat (rd 1 img (p + 1) :: u8)) (snd rt))"

text \<open>One device for each domain; the last allocation decides. The OEM fields go to the last device.\<close>

definition upd_last :: "('a \<Rightarrow> 'a) \<Rightarrow> 'a list \<Rightarrow> 'a list" where
  "upd_last f xs = (if xs = [] then [] else butlast xs @ [f (List.last xs)])"

fun create_devices :: "crat_env \<Rightarrow> nat \<Rightarrow> u32 \<Rightarrow> topology \<Rightarrow> bool \<times> topology" where
  "create_devices env 0 pd t = (True, t)"
| "create_devices env (Suc n) pd t =
     (case opu_create_topology_device env t of (ok, t1) \<Rightarrow>
        if \<not> ok then (False, t1)
        else create_devices env n (pd + 1) (t1\<lparr>device_list := upd_last (\<lambda>d. d\<lparr>proximity_domain := pd\<rparr>) (device_list t1)\<rparr>))"

definition opu_parse_crat_table :: "crat_env \<Rightarrow> u8 list option \<Rightarrow> u32 \<Rightarrow> topology \<Rightarrow> (int \<times> topology) access option" where
  "opu_parse_crat_table env crat_image pd t =
     (case crat_image of
        None \<Rightarrow> Some (Inside (- EINVAL, t))
      | Some img \<Rightarrow>
          if device_list t \<noteq> [] then Some (Inside (- EINVAL, t))
          else if length img < sizeof_header then Some Fault
          else
            let h = header_at img
            in case create_devices env (unat (h_num_domains h)) pd t of (ok, t1) \<Rightarrow>
                 if \<not> ok \<or> h_num_domains h = 0 then Some (Inside (- ENOMEM, opu_release_topology_device_list t1))
                 else
                   let t2 = t1\<lparr>device_list := upd_last (\<lambda>d. d\<lparr>oem_id := h_oem_id h, oem_table_id := h_oem_table_id h, oem_revision := h_oem_revision h\<rparr>) (device_list t1)\<rparr>
                   in map_option (\<lambda>a. case a of
                        Fault \<Rightarrow> Fault
                      | Inside (r, t3) \<Rightarrow> Inside (if r \<noteq> 0 then (r, opu_release_topology_device_list t3) else (0, t3)))
                        (parse_loop env img (unat (h_length h)) sizeof_header t2))"

end
