(* ===== verification/Opu_Vcrat.thy ===== *)
theory Opu_Vcrat
  imports Opu_Crat
begin

text \<open>
  Virtual tables (\<open>opu_crat.c\<close>): for the NUMA nodes of the host and for a GPU the driver writes a table by itself.
  A table under construction is the record of its header and the bytes of its entries; the code keeps the size
  that is left in a signed integer and writes each entry where the last one ended.
\<close>

section \<open>Writing structures\<close>

text \<open>Each structure is cleared before its fields are set.\<close>

definition zeros :: "nat \<Rightarrow> u8 list" where
  "zeros n = replicate n 0"

definition generic_bytes :: "u8 \<Rightarrow> nat \<Rightarrow> u32 \<Rightarrow> u8 list" where
  "generic_bytes ty n fl = [ty, of_nat n, 0, 0] @ le_bytes 4 fl"

definition header_bytes :: "crat_header \<Rightarrow> u8 list" where
  "header_bytes h = h_signature h @ le_bytes 4 (h_length h) @ zeros 2 @ h_oem_id h @ h_oem_table_id h @ le_bytes 4 (h_oem_revision h) @ zeros 8 @
     le_bytes 4 (h_total_entries h) @ le_bytes 2 (h_num_domains h) @ zeros 6"

definition cu_bytes :: "crat_subtype_computeunit \<Rightarrow> u8 list" where
  "cu_bytes c = generic_bytes CRAT_SUBTYPE_COMPUTEUNIT_AFFINITY sizeof_computeunit (cu_flags c) @ le_bytes 4 (cu_proximity_domain c) @
     le_bytes 4 (cu_processor_id_low c) @ le_bytes 2 (num_cpu_cores c) @ le_bytes 2 (num_simd_cores c) @ le_bytes 2 (max_waves_simd c) @ zeros 2 @
     le_bytes 2 (hsa_capability c) @ le_bytes 2 (cu_lds_size_in_kb c) @ le_bytes 1 (cu_wave_front_size c) @ le_bytes 1 (num_banks c) @ zeros 2 @
     le_bytes 1 (cu_array_count c) @ le_bytes 1 (num_cu_per_array c) @ le_bytes 1 (num_simd_per_cu c) @ le_bytes 1 (max_slots_scatch_cu c) @ zeros 4"

definition mem_bytes_of :: "crat_subtype_memory \<Rightarrow> u8 list" where
  "mem_bytes_of m = generic_bytes CRAT_SUBTYPE_MEMORY_AFFINITY sizeof_memory (mem_flags m) @ le_bytes 4 (mem_proximity_domain m) @ zeros 8 @
     le_bytes 4 (length_low m) @ le_bytes 4 (length_high m) @ le_bytes 4 (mem_width m) @ le_bytes 1 (visibility_type m) @ zeros 7"

definition cache_bytes :: "crat_subtype_cache \<Rightarrow> u8 list" where
  "cache_bytes c = generic_bytes CRAT_SUBTYPE_CACHE_AFFINITY sizeof_cache (cache_flags c) @ le_bytes 4 (cache_processor_id_low c) @ cache_sibling_map c @
     le_bytes 4 (c_cache_size c) @ le_bytes 1 (c_cache_level c) @ le_bytes 1 (lines_per_tag c) @ le_bytes 2 (cache_line_size c) @
     le_bytes 1 (associativity c) @ zeros 1 @ le_bytes 2 (c_cache_latency c) @ zeros 8"

definition iolink_bytes :: "crat_subtype_iolink \<Rightarrow> u8 list" where
  "iolink_bytes l = generic_bytes CRAT_SUBTYPE_IOLINK_AFFINITY sizeof_iolink (link_flags l) @ le_bytes 4 (proximity_domain_from l) @
     le_bytes 4 (proximity_domain_to l) @ le_bytes 1 (io_interface_type l) @ le_bytes 1 (version_major l) @ le_bytes 2 (version_minor l) @
     le_bytes 4 (minimum_latency l) @ le_bytes 4 (maximum_latency l) @ le_bytes 4 (minimum_bandwidth_mbs l) @ le_bytes 4 (maximum_bandwidth_mbs l) @
     le_bytes 4 (recommended_transfer_size l) @ zeros 23 @ le_bytes 1 (num_hops_xgmi l)"

definition zero_cu :: crat_subtype_computeunit where
  "zero_cu = \<lparr>cu_flags = 0, cu_proximity_domain = 0, cu_processor_id_low = 0, num_cpu_cores = 0, num_simd_cores = 0, max_waves_simd = 0,
     hsa_capability = 0, cu_lds_size_in_kb = 0, cu_wave_front_size = 0, num_banks = 0, cu_array_count = 0, num_cu_per_array = 0, num_simd_per_cu = 0,
     max_slots_scatch_cu = 0\<rparr>"

definition zero_mem :: crat_subtype_memory where
  "zero_mem = \<lparr>mem_flags = 0, mem_proximity_domain = 0, length_low = 0, length_high = 0, mem_width = 0, visibility_type = 0\<rparr>"

definition zero_cache :: crat_subtype_cache where
  "zero_cache = \<lparr>cache_flags = 0, cache_processor_id_low = 0, cache_sibling_map = zeros 32, c_cache_size = 0, c_cache_level = 0, lines_per_tag = 0,
     cache_line_size = 0, associativity = 0, c_cache_latency = 0\<rparr>"

definition zero_iolink :: crat_subtype_iolink where
  "zero_iolink = \<lparr>link_flags = 0, proximity_domain_from = 0, proximity_domain_to = 0, io_interface_type = 0, version_major = 0, version_minor = 0,
     minimum_latency = 0, maximum_latency = 0, minimum_bandwidth_mbs = 0, maximum_bandwidth_mbs = 0, recommended_transfer_size = 0, num_hops_xgmi = 0\<rparr>"

section \<open>Processors of the host\<close>

text \<open>The host: its NUMA nodes, the processors of a node (\<open>None\<close> is no mask), the APIC ids, the pages that the zones of
  a node manage, the vendor and the OEM fields of the DSDT.\<close>

record host =
  online_nodes :: "nat list"
  cpumask_of_node :: "nat \<Rightarrow> nat list option"
  nr_cpu_ids :: nat
  apicid :: "nat \<Rightarrow> u16"
  zone_pages :: "nat \<Rightarrow> u64 list"
  vendor_amd :: bool
  dsdt :: "(u8 \<times> u8 list \<times> u8 list) option"

definition opu_cpumask_to_apic_id :: "host \<Rightarrow> nat list option \<Rightarrow> int" where
  "opu_cpumask_to_apic_id h cpumask =
     (case cpumask of
        None \<Rightarrow> - 1
      | Some cpus \<Rightarrow>
          let first = (case cpus of [] \<Rightarrow> nr_cpu_ids h | c # _ \<Rightarrow> c)
          in if nr_cpu_ids h \<le> first then - 1 else int (unat (apicid h first)))"

definition opu_numa_node_to_apic_id :: "host \<Rightarrow> nat \<Rightarrow> int" where
  "opu_numa_node_to_apic_id h nid = opu_cpumask_to_apic_id h (cpumask_of_node h nid)"

record vcrat =
  avail :: int
  v_header :: crat_header
  body :: "u8 list"

definition opu_fill_cu_for_cpu :: "host \<Rightarrow> nat \<Rightarrow> u32 \<Rightarrow> vcrat \<Rightarrow> int \<times> vcrat" where
  "opu_fill_cu_for_cpu h nid pd v =
     (let v1 = v\<lparr>avail := avail v - int sizeof_computeunit\<rparr>; apic = opu_numa_node_to_apic_id h nid
      in if avail v1 < 0 then (- ENOMEM, v1)
         else if (word_of_int apic :: u32) = - 1 then (- EINVAL, v1)
         else (0, v1\<lparr>body := body v1 @ cu_bytes (zero_cu\<lparr>cu_flags := 1 OR 4, cu_proximity_domain := pd, cu_processor_id_low := word_of_int apic,
                 num_cpu_cores := of_nat (length (case cpumask_of_node h nid of None \<Rightarrow> [] | Some cs \<Rightarrow> cs))\<rparr>)\<rparr>))"

definition opu_fill_mem_info_for_cpu :: "host \<Rightarrow> nat \<Rightarrow> u32 \<Rightarrow> vcrat \<Rightarrow> int \<times> vcrat" where
  "opu_fill_mem_info_for_cpu h nid pd v =
     (let v1 = v\<lparr>avail := avail v - int sizeof_memory\<rparr>; bytes = push_bit 12 (sum_list (zone_pages h nid)) :: u64
      in if avail v1 < 0 then (- ENOMEM, v1)
         else (0, v1\<lparr>body := body v1 @ mem_bytes_of (zero_mem\<lparr>mem_flags := 1, length_low := ucast bytes, length_high := ucast (drop_bit 32 bytes),
                 mem_proximity_domain := pd\<rparr>)\<rparr>))"

text \<open>The links of a node to the others; the result has their number.\<close>

fun fill_links :: "host \<Rightarrow> nat \<Rightarrow> nat list \<Rightarrow> nat \<Rightarrow> vcrat \<Rightarrow> int \<times> nat \<times> vcrat" where
  "fill_links h nid [] n v = (0, n, v)"
| "fill_links h nid (to # ns) n v =
     (if to = nid then fill_links h nid ns n v
      else
        let v1 = v\<lparr>avail := avail v - int sizeof_iolink\<rparr>
        in if avail v1 < 0 then (- ENOMEM, n, v1)
           else fill_links h nid ns (Suc n) (v1\<lparr>body := body v1 @ iolink_bytes (zero_iolink\<lparr>link_flags := 1, proximity_domain_from := of_nat nid,
                  proximity_domain_to := of_nat to,
                  io_interface_type := (if vendor_amd h then CRAT_IOLINK_TYPE_HYPERTRANSPORT else CRAT_IOLINK_TYPE_QPI_1_1)\<rparr>)\<rparr>))"

definition opu_fill_iolink_info_for_cpu :: "host \<Rightarrow> nat \<Rightarrow> vcrat \<Rightarrow> int \<times> nat \<times> vcrat" where
  "opu_fill_iolink_info_for_cpu h nid v = fill_links h nid (online_nodes h) 0 v"

definition count_entries :: "nat \<Rightarrow> nat \<Rightarrow> vcrat \<Rightarrow> vcrat" where
  "count_entries len n v = v\<lparr>v_header := (v_header v)\<lparr>h_length := h_length (v_header v) + of_nat (len * n),
     h_total_entries := h_total_entries (v_header v) + of_nat n\<rparr>\<rparr>"

definition fill_node :: "host \<Rightarrow> nat \<Rightarrow> vcrat \<Rightarrow> int \<times> vcrat" where
  "fill_node h nid v =
     (if opu_numa_node_to_apic_id h nid = - 1 then (0, v)
      else
        let pd = ucast (h_num_domains (v_header v))
        in case opu_fill_cu_for_cpu h nid pd v of (r, v1) \<Rightarrow>
             if r < 0 then (r, v1)
             else case opu_fill_mem_info_for_cpu h nid pd (count_entries sizeof_computeunit 1 v1) of (r, v2) \<Rightarrow>
               if r < 0 then (r, v2)
               else case opu_fill_iolink_info_for_cpu h nid (count_entries sizeof_memory 1 v2) of (r, n, v3) \<Rightarrow>
                 if r < 0 then (r, v3)
                 else let v4 = count_entries sizeof_iolink n v3
                      in (0, v4\<lparr>v_header := (v_header v4)\<lparr>h_num_domains := h_num_domains (v_header v4) + 1\<rparr>\<rparr>))"

fun fill_nodes :: "host \<Rightarrow> nat list \<Rightarrow> vcrat \<Rightarrow> int \<times> vcrat" where
  "fill_nodes h [] v = (0, v)"
| "fill_nodes h (nid # ns) v = (case fill_node h nid v of (r, v1) \<Rightarrow> if r < 0 then (r, v1) else fill_nodes h ns v1)"

definition new_header :: crat_header where
  "new_header = \<lparr>h_signature = [0x43, 0x52, 0x41, 0x54], h_length = of_nat sizeof_header, h_oem_id = zeros 6, h_oem_table_id = zeros 8,
     h_oem_revision = 0, h_total_entries = 0, h_num_domains = 0\<rparr>"

text \<open>The image, when the code is 0.\<close>

definition opu_create_vcrat_image_cpu :: "host \<Rightarrow> int \<Rightarrow> int \<times> u8 list" where
  "opu_create_vcrat_image_cpu h sz =
     (if sz - int sizeof_header < 0 then (- ENOMEM, [])
      else
        let hd = (case dsdt h of None \<Rightarrow> new_header
                  | Some (revision, oem, oem_table) \<Rightarrow> new_header\<lparr>h_oem_revision := ucast revision, h_oem_id := oem, h_oem_table_id := oem_table\<rparr>)
        in case fill_nodes h (online_nodes h) \<lparr>avail = sz - int sizeof_header, v_header = hd, body = []\<rparr> of (r, v) \<Rightarrow>
             if r < 0 then (r, []) else (0, header_bytes (v_header v) @ body v))"

section \<open>Caches of a GPU\<close>

record opu_gpu_cache_info =
  g_cache_size :: u32
  g_cache_level :: u32
  g_flags :: u32
  num_cu_shared :: u32

abbreviation data_cache :: u32 where "data_cache \<equiv> 0x1 OR 0x2 OR 0x10"
abbreviation inst_cache :: u32 where "inst_cache \<equiv> 0x1 OR 0x4 OR 0x10"

definition kaveri_cache_info :: "opu_gpu_cache_info list" where
  "kaveri_cache_info = [\<lparr>g_cache_size = 16, g_cache_level = 1, g_flags = data_cache, num_cu_shared = 1\<rparr>,
     \<lparr>g_cache_size = 16, g_cache_level = 1, g_flags = inst_cache, num_cu_shared = 2\<rparr>,
     \<lparr>g_cache_size = 8, g_cache_level = 1, g_flags = data_cache, num_cu_shared = 2\<rparr>]"

definition carrizo_cache_info :: "opu_gpu_cache_info list" where
  "carrizo_cache_info = [\<lparr>g_cache_size = 16, g_cache_level = 1, g_flags = data_cache, num_cu_shared = 1\<rparr>,
     \<lparr>g_cache_size = 8, g_cache_level = 1, g_flags = inst_cache, num_cu_shared = 4\<rparr>,
     \<lparr>g_cache_size = 4, g_cache_level = 1, g_flags = data_cache, num_cu_shared = 4\<rparr>]"

definition vega10_cache_info :: "opu_gpu_cache_info list" where
  "vega10_cache_info = [\<lparr>g_cache_size = 16, g_cache_level = 1, g_flags = data_cache, num_cu_shared = 1\<rparr>,
     \<lparr>g_cache_size = 32, g_cache_level = 1, g_flags = inst_cache, num_cu_shared = 3\<rparr>,
     \<lparr>g_cache_size = 16, g_cache_level = 1, g_flags = data_cache, num_cu_shared = 3\<rparr>,
     \<lparr>g_cache_size = 4096, g_cache_level = 2, g_flags = data_cache, num_cu_shared = 16\<rparr>]"

definition raven_cache_info :: "opu_gpu_cache_info list" where
  "raven_cache_info = [\<lparr>g_cache_size = 16, g_cache_level = 1, g_flags = data_cache, num_cu_shared = 1\<rparr>,
     \<lparr>g_cache_size = 32, g_cache_level = 1, g_flags = inst_cache, num_cu_shared = 3\<rparr>,
     \<lparr>g_cache_size = 16, g_cache_level = 1, g_flags = data_cache, num_cu_shared = 3\<rparr>,
     \<lparr>g_cache_size = 1024, g_cache_level = 2, g_flags = data_cache, num_cu_shared = 11\<rparr>]"

definition renoir_cache_info :: "opu_gpu_cache_info list" where
  "renoir_cache_info = [\<lparr>g_cache_size = 16, g_cache_level = 1, g_flags = data_cache, num_cu_shared = 1\<rparr>,
     \<lparr>g_cache_size = 32, g_cache_level = 1, g_flags = inst_cache, num_cu_shared = 3\<rparr>,
     \<lparr>g_cache_size = 16, g_cache_level = 1, g_flags = data_cache, num_cu_shared = 3\<rparr>,
     \<lparr>g_cache_size = 1024, g_cache_level = 2, g_flags = data_cache, num_cu_shared = 8\<rparr>]"

definition vega12_cache_info :: "opu_gpu_cache_info list" where
  "vega12_cache_info = [\<lparr>g_cache_size = 16, g_cache_level = 1, g_flags = data_cache, num_cu_shared = 1\<rparr>,
     \<lparr>g_cache_size = 32, g_cache_level = 1, g_flags = inst_cache, num_cu_shared = 3\<rparr>,
     \<lparr>g_cache_size = 16, g_cache_level = 1, g_flags = data_cache, num_cu_shared = 3\<rparr>,
     \<lparr>g_cache_size = 2048, g_cache_level = 2, g_flags = data_cache, num_cu_shared = 5\<rparr>]"

definition vega20_cache_info :: "opu_gpu_cache_info list" where
  "vega20_cache_info = [\<lparr>g_cache_size = 16, g_cache_level = 1, g_flags = data_cache, num_cu_shared = 1\<rparr>,
     \<lparr>g_cache_size = 32, g_cache_level = 1, g_flags = inst_cache, num_cu_shared = 3\<rparr>,
     \<lparr>g_cache_size = 16, g_cache_level = 1, g_flags = data_cache, num_cu_shared = 3\<rparr>,
     \<lparr>g_cache_size = 8192, g_cache_level = 2, g_flags = data_cache, num_cu_shared = 16\<rparr>]"

definition aldebaran_cache_info :: "opu_gpu_cache_info list" where
  "aldebaran_cache_info = [\<lparr>g_cache_size = 16, g_cache_level = 1, g_flags = data_cache, num_cu_shared = 1\<rparr>,
     \<lparr>g_cache_size = 32, g_cache_level = 1, g_flags = inst_cache, num_cu_shared = 2\<rparr>,
     \<lparr>g_cache_size = 16, g_cache_level = 1, g_flags = data_cache, num_cu_shared = 2\<rparr>,
     \<lparr>g_cache_size = 8192, g_cache_level = 2, g_flags = data_cache, num_cu_shared = 14\<rparr>]"

definition navi10_cache_info :: "opu_gpu_cache_info list" where
  "navi10_cache_info = [\<lparr>g_cache_size = 16, g_cache_level = 1, g_flags = data_cache, num_cu_shared = 1\<rparr>,
     \<lparr>g_cache_size = 32, g_cache_level = 1, g_flags = inst_cache, num_cu_shared = 2\<rparr>,
     \<lparr>g_cache_size = 16, g_cache_level = 1, g_flags = data_cache, num_cu_shared = 2\<rparr>,
     \<lparr>g_cache_size = 128, g_cache_level = 1, g_flags = data_cache, num_cu_shared = 10\<rparr>,
     \<lparr>g_cache_size = 4096, g_cache_level = 2, g_flags = data_cache, num_cu_shared = 10\<rparr>]"

definition vangogh_cache_info :: "opu_gpu_cache_info list" where
  "vangogh_cache_info = [\<lparr>g_cache_size = 16, g_cache_level = 1, g_flags = data_cache, num_cu_shared = 1\<rparr>,
     \<lparr>g_cache_size = 32, g_cache_level = 1, g_flags = inst_cache, num_cu_shared = 2\<rparr>,
     \<lparr>g_cache_size = 16, g_cache_level = 1, g_flags = data_cache, num_cu_shared = 2\<rparr>,
     \<lparr>g_cache_size = 128, g_cache_level = 1, g_flags = data_cache, num_cu_shared = 8\<rparr>,
     \<lparr>g_cache_size = 1024, g_cache_level = 2, g_flags = data_cache, num_cu_shared = 8\<rparr>]"

definition navi14_cache_info :: "opu_gpu_cache_info list" where
  "navi14_cache_info = [\<lparr>g_cache_size = 16, g_cache_level = 1, g_flags = data_cache, num_cu_shared = 1\<rparr>,
     \<lparr>g_cache_size = 32, g_cache_level = 1, g_flags = inst_cache, num_cu_shared = 2\<rparr>,
     \<lparr>g_cache_size = 16, g_cache_level = 1, g_flags = data_cache, num_cu_shared = 2\<rparr>,
     \<lparr>g_cache_size = 128, g_cache_level = 1, g_flags = data_cache, num_cu_shared = 12\<rparr>,
     \<lparr>g_cache_size = 2048, g_cache_level = 2, g_flags = data_cache, num_cu_shared = 12\<rparr>]"

definition sienna_cichlid_cache_info :: "opu_gpu_cache_info list" where
  "sienna_cichlid_cache_info = [\<lparr>g_cache_size = 16, g_cache_level = 1, g_flags = data_cache, num_cu_shared = 1\<rparr>,
     \<lparr>g_cache_size = 32, g_cache_level = 1, g_flags = inst_cache, num_cu_shared = 2\<rparr>,
     \<lparr>g_cache_size = 16, g_cache_level = 1, g_flags = data_cache, num_cu_shared = 2\<rparr>,
     \<lparr>g_cache_size = 128, g_cache_level = 1, g_flags = data_cache, num_cu_shared = 10\<rparr>,
     \<lparr>g_cache_size = 4096, g_cache_level = 2, g_flags = data_cache, num_cu_shared = 10\<rparr>,
     \<lparr>g_cache_size = 128, g_cache_level = 3, g_flags = data_cache, num_cu_shared = 10\<rparr>]"

definition navy_flounder_cache_info :: "opu_gpu_cache_info list" where
  "navy_flounder_cache_info = [\<lparr>g_cache_size = 16, g_cache_level = 1, g_flags = data_cache, num_cu_shared = 1\<rparr>,
     \<lparr>g_cache_size = 32, g_cache_level = 1, g_flags = inst_cache, num_cu_shared = 2\<rparr>,
     \<lparr>g_cache_size = 16, g_cache_level = 1, g_flags = data_cache, num_cu_shared = 2\<rparr>,
     \<lparr>g_cache_size = 128, g_cache_level = 1, g_flags = data_cache, num_cu_shared = 10\<rparr>,
     \<lparr>g_cache_size = 3072, g_cache_level = 2, g_flags = data_cache, num_cu_shared = 10\<rparr>,
     \<lparr>g_cache_size = 96, g_cache_level = 3, g_flags = data_cache, num_cu_shared = 10\<rparr>]"

definition dimgrey_cavefish_cache_info :: "opu_gpu_cache_info list" where
  "dimgrey_cavefish_cache_info = [\<lparr>g_cache_size = 16, g_cache_level = 1, g_flags = data_cache, num_cu_shared = 1\<rparr>,
     \<lparr>g_cache_size = 32, g_cache_level = 1, g_flags = inst_cache, num_cu_shared = 2\<rparr>,
     \<lparr>g_cache_size = 16, g_cache_level = 1, g_flags = data_cache, num_cu_shared = 2\<rparr>,
     \<lparr>g_cache_size = 128, g_cache_level = 1, g_flags = data_cache, num_cu_shared = 8\<rparr>,
     \<lparr>g_cache_size = 2048, g_cache_level = 2, g_flags = data_cache, num_cu_shared = 8\<rparr>,
     \<lparr>g_cache_size = 32, g_cache_level = 3, g_flags = data_cache, num_cu_shared = 8\<rparr>]"

definition beige_goby_cache_info :: "opu_gpu_cache_info list" where
  "beige_goby_cache_info = [\<lparr>g_cache_size = 16, g_cache_level = 1, g_flags = data_cache, num_cu_shared = 1\<rparr>,
     \<lparr>g_cache_size = 32, g_cache_level = 1, g_flags = inst_cache, num_cu_shared = 2\<rparr>,
     \<lparr>g_cache_size = 16, g_cache_level = 1, g_flags = data_cache, num_cu_shared = 2\<rparr>,
     \<lparr>g_cache_size = 128, g_cache_level = 1, g_flags = data_cache, num_cu_shared = 8\<rparr>,
     \<lparr>g_cache_size = 1024, g_cache_level = 2, g_flags = data_cache, num_cu_shared = 8\<rparr>,
     \<lparr>g_cache_size = 16, g_cache_level = 3, g_flags = data_cache, num_cu_shared = 8\<rparr>]"

definition yellow_carp_cache_info :: "opu_gpu_cache_info list" where
  "yellow_carp_cache_info = [\<lparr>g_cache_size = 16, g_cache_level = 1, g_flags = data_cache, num_cu_shared = 1\<rparr>,
     \<lparr>g_cache_size = 32, g_cache_level = 1, g_flags = inst_cache, num_cu_shared = 2\<rparr>,
     \<lparr>g_cache_size = 16, g_cache_level = 1, g_flags = data_cache, num_cu_shared = 2\<rparr>,
     \<lparr>g_cache_size = 128, g_cache_level = 1, g_flags = data_cache, num_cu_shared = 6\<rparr>,
     \<lparr>g_cache_size = 2048, g_cache_level = 2, g_flags = data_cache, num_cu_shared = 6\<rparr>]"

definition cache_table :: "asic_family \<Rightarrow> opu_gpu_cache_info list option" where
  "cache_table f =
     (case f of
        CHIP_KAVERI \<Rightarrow> Some kaveri_cache_info | CHIP_HAWAII \<Rightarrow> Some kaveri_cache_info | CHIP_CARRIZO \<Rightarrow> Some carrizo_cache_info
      | CHIP_TONGA \<Rightarrow> Some carrizo_cache_info | CHIP_FIJI \<Rightarrow> Some carrizo_cache_info | CHIP_POLARIS10 \<Rightarrow> Some carrizo_cache_info
      | CHIP_POLARIS11 \<Rightarrow> Some carrizo_cache_info | CHIP_POLARIS12 \<Rightarrow> Some carrizo_cache_info | CHIP_VEGAM \<Rightarrow> Some carrizo_cache_info
      | CHIP_VEGA10 \<Rightarrow> Some vega10_cache_info | CHIP_VEGA12 \<Rightarrow> Some vega12_cache_info | CHIP_VEGA20 \<Rightarrow> Some vega20_cache_info
      | CHIP_ARCTURUS \<Rightarrow> Some vega20_cache_info | CHIP_ALDEBARAN \<Rightarrow> Some aldebaran_cache_info | CHIP_RAVEN \<Rightarrow> Some raven_cache_info
      | CHIP_RENOIR \<Rightarrow> Some renoir_cache_info | CHIP_NAVI10 \<Rightarrow> Some navi10_cache_info | CHIP_NAVI12 \<Rightarrow> Some navi10_cache_info
      | CHIP_NAVI14 \<Rightarrow> Some navi14_cache_info | CHIP_SIENNA_CICHLID \<Rightarrow> Some sienna_cichlid_cache_info
      | CHIP_NAVY_FLOUNDER \<Rightarrow> Some navy_flounder_cache_info | CHIP_DIMGREY_CAVEFISH \<Rightarrow> Some dimgrey_cavefish_cache_info
      | CHIP_VANGOGH \<Rightarrow> Some vangogh_cache_info | CHIP_BEIGE_GOBY \<Rightarrow> Some beige_goby_cache_info | CHIP_YELLOW_CARP \<Rightarrow> Some yellow_carp_cache_info
      | CHIP_OTHER _ \<Rightarrow> None)"

end
