(* ===== verification/Opu_Crat_Codec.thy ===== *)
theory Opu_Crat_Codec
  imports Opu_Vcrat
begin

text \<open>
  Reading what was written: the structures of a table come back from their bytes, and the parser of \<open>opu_crat.c\<close>, which
  walks over an image with a pointer, does on the bytes of a table what a fold over its entries does.
\<close>

section \<open>Words and bytes\<close>

lemma bit_le_word:
  "bit (le_word bs :: 'a::len word) i \<longleftrightarrow> i < LENGTH('a) \<and> i div 8 < length bs \<and> bit (bs ! (i div 8)) (i mod 8)"
proof (induction bs arbitrary: i)
  case Nil
  show ?case by (simp add: le_word_def)
next
  case (Cons b bs)
  have step: "(le_word (b # bs) :: 'a word) = ucast b OR push_bit 8 (le_word bs)"
    by (simp add: le_word_def)
  show ?case
  proof (cases "i < 8")
    case True
    then show ?thesis by (auto simp: step bit_simps)
  next
    case False
    then obtain j where j: "i = j + 8" by (metis add.commute le_Suc_ex not_less)
    have high: "\<not> bit (ucast b :: 'a word) i"
      using False by (auto simp: bit_simps dest: bit_imp_le_length)
    have "(j + 8) div 8 = Suc (j div 8)" "(j + 8) mod 8 = j mod 8" by simp_all
    then show ?thesis using Cons.IH [of j] high by (auto simp: step j bit_simps)
  qed
qed

lemma length_le_bytes [simp]: "length (le_bytes n w) = n"
  by (simp add: le_bytes_def)

lemma le_word_le_bytes:
  assumes "LENGTH('a) = 8 * n"
  shows "le_word (le_bytes n (w :: 'a::len word)) = w"
proof (rule bit_word_eqI)
  fix i assume i: "i < LENGTH('a)"
  then have d: "i div 8 < n" using assms by auto
  have "8 * (i div 8) + i mod 8 = i" by simp
  then show "bit (le_word (le_bytes n w) :: 'a word) i = bit w i"
    using i d by (simp add: bit_le_word) (simp add: le_bytes_def bit_simps)
qed

lemma le_bytes_1: "le_bytes (Suc 0) (w :: u8) = [w]"
  by (simp add: le_bytes_def)

lemma le_bytes_2: "le_bytes 2 w = [ucast w, ucast (drop_bit 8 w)]"
  by (simp add: le_bytes_def numeral_2_eq_2)

lemma le_bytes_4: "le_bytes 4 w = [ucast w, ucast (drop_bit 8 w), ucast (drop_bit 16 w), ucast (drop_bit 24 w)]"
  by (simp add: le_bytes_def upt_conv_Cons)

lemma le_word_u8 [simp]: "le_word [w] = (w :: u8)"
  using le_word_le_bytes [of 1 w] by (simp add: le_bytes_1)

lemma le_word_u16 [simp]: "le_word [ucast w, ucast (drop_bit 8 w)] = (w :: u16)"
  using le_word_le_bytes [of 2 w] by (simp add: le_bytes_2)

lemma le_word_u32 [simp]: "le_word [ucast w, ucast (drop_bit 8 w), ucast (drop_bit 16 w), ucast (drop_bit 24 w)] = (w :: u32)"
  using le_word_le_bytes [of 4 w] by (simp add: le_bytes_4)

lemma rd_shift [simp]: "rd n (pre @ img) (length pre + off) = rd n img off"
  by (simp add: rd_def)

lemma rd_start: "rd n (pre @ img) (length pre) = rd n img 0"
  by (simp add: rd_def)

lemma zeros_unfold: "zeros (Suc 0) = [0]" "zeros 2 = [0, 0]" "zeros 4 = [0, 0, 0, 0]" "zeros 6 = [0, 0, 0, 0, 0, 0]" "zeros 7 = [0, 0, 0, 0, 0, 0, 0]"
  "zeros 8 = [0, 0, 0, 0, 0, 0, 0, 0]"
  by (simp_all add: zeros_def numeral_eq_Suc)

lemma length_zeros [simp]: "length (zeros n) = n"
  by (simp add: zeros_def)

lemmas bytes_simps = le_bytes_1 le_bytes_2 le_bytes_4 zeros_unfold generic_bytes_def

section \<open>Structures\<close>

lemma cu_at_bytes: "cu_at (pre @ cu_bytes c @ post) (length pre) = c"
  by (simp add: cu_at_def) (simp add: cu_bytes_def bytes_simps rd_def)

lemma mem_at_bytes: "mem_at (pre @ mem_bytes_of m @ post) (length pre) = m"
  by (simp add: mem_at_def) (simp add: mem_bytes_of_def bytes_simps rd_def)

lemma cache_at_bytes:
  assumes "length (cache_sibling_map c) = 32"
  shows "cache_at (pre @ cache_bytes c @ post) (length pre) = c"
  using assms by (simp add: cache_at_def) (simp add: cache_bytes_def bytes_simps rd_def)

lemma iolink_at_bytes: "iolink_at (pre @ iolink_bytes l @ post) (length pre) = l"
  by (simp add: iolink_at_def) (simp add: iolink_bytes_def bytes_simps rd_def)

definition header_ok :: "crat_header \<Rightarrow> bool" where
  "header_ok h \<longleftrightarrow> length (h_signature h) = 4 \<and> length (h_oem_id h) = 6 \<and> length (h_oem_table_id h) = 8"

lemma header_at_bytes: "header_ok h \<Longrightarrow> header_at (header_bytes h @ post) = h"
  by (simp add: header_at_def header_ok_def) (simp add: header_bytes_def bytes_simps rd_def)

lemma length_header_bytes: "header_ok h \<Longrightarrow> length (header_bytes h) = sizeof_header"
  by (simp add: header_ok_def header_bytes_def)

lemma length_bytes [simp]:
  "length (cu_bytes c) = 40" "length (mem_bytes_of m) = 40" "length (iolink_bytes l) = 64"
  "length (cache_bytes d) = 32 + length (cache_sibling_map d)"
  by (simp_all add: cu_bytes_def mem_bytes_of_def cache_bytes_def iolink_bytes_def generic_bytes_def)

text \<open>What the parser relies on for each structure: written with its size anywhere in an image, it is read back.\<close>

locale struct_codec =
  fixes enc :: "'a \<Rightarrow> u8 list" and dec :: "u8 list \<Rightarrow> nat \<Rightarrow> 'a" and fits :: "'a \<Rightarrow> bool" and n :: nat
  assumes dec_enc: "fits x \<Longrightarrow> dec (pre @ enc x @ post) (length pre) = x"
    and length_enc: "fits x \<Longrightarrow> length (enc x) = n"
begin

lemma read_back: "fits x \<Longrightarrow> at (pre @ enc x @ post) (length pre) n (f (dec (pre @ enc x @ post) (length pre))) = f x"
  by (simp add: at_def dec_enc length_enc)

lemma enc_inject: "fits x \<Longrightarrow> fits y \<Longrightarrow> enc x = enc y \<longleftrightarrow> x = y"
  by (metis dec_enc)

end

interpretation cu_codec: struct_codec cu_bytes cu_at "\<lambda>_. True" 40
  by unfold_locales (simp_all add: cu_at_bytes)

interpretation mem_codec: struct_codec mem_bytes_of mem_at "\<lambda>_. True" 40
  by unfold_locales (simp_all add: mem_at_bytes)

interpretation cache_codec: struct_codec cache_bytes cache_at "\<lambda>c. length (cache_sibling_map c) = 32" 64
  by unfold_locales (simp_all add: cache_at_bytes)

interpretation iolink_codec: struct_codec iolink_bytes iolink_at "\<lambda>_. True" 64
  by unfold_locales (simp_all add: iolink_at_bytes)

section \<open>Entries\<close>

text \<open>The table as a list of entries, which is what its bytes mean.\<close>

datatype entry =
    CU crat_subtype_computeunit
  | MEM crat_subtype_memory
  | CACHE crat_subtype_cache
  | LINK crat_subtype_iolink

fun entry_bytes :: "entry \<Rightarrow> u8 list" where
  "entry_bytes (CU c) = cu_bytes c"
| "entry_bytes (MEM m) = mem_bytes_of m"
| "entry_bytes (CACHE c) = cache_bytes c"
| "entry_bytes (LINK l) = iolink_bytes l"

fun entry_flags :: "entry \<Rightarrow> u32" where
  "entry_flags (CU c) = cu_flags c"
| "entry_flags (MEM m) = mem_flags m"
| "entry_flags (CACHE c) = cache_flags c"
| "entry_flags (LINK l) = link_flags l"

fun entry_ok :: "entry \<Rightarrow> bool" where
  "entry_ok (CACHE c) \<longleftrightarrow> length (cache_sibling_map c) = 32"
| "entry_ok _ \<longleftrightarrow> True"

fun parse_entry :: "crat_env \<Rightarrow> entry \<Rightarrow> topology \<Rightarrow> (int \<times> topology) access" where
  "parse_entry env (CU c) t = Inside (opu_parse_subtype_cu c t)"
| "parse_entry env (MEM m) t = Inside (opu_parse_subtype_mem env m t)"
| "parse_entry env (CACHE c) t = Inside (opu_parse_subtype_cache env c t)"
| "parse_entry env (LINK l) t = opu_parse_subtype_iolink env l t"

fun parse_entries :: "crat_env \<Rightarrow> entry list \<Rightarrow> topology \<Rightarrow> (int \<times> topology) access" where
  "parse_entries env [] t = Inside (0, t)"
| "parse_entries env (e # es) t =
     (case (if entry_flags e AND 1 \<noteq> 0 then parse_entry env e t else Inside (0, t)) of
        Fault \<Rightarrow> Fault
      | Inside rt \<Rightarrow> if fst rt \<noteq> 0 then Inside rt else parse_entries env es (snd rt))"

definition table_bytes :: "entry list \<Rightarrow> u8 list" where
  "table_bytes es = concat (map entry_bytes es)"

lemma length_entry_bytes:
  "entry_ok e \<Longrightarrow> length (entry_bytes e) = (case e of CU _ \<Rightarrow> 40 | MEM _ \<Rightarrow> 40 | CACHE _ \<Rightarrow> 64 | LINK _ \<Rightarrow> 64)"
  by (cases e) simp_all

lemma rd_type: "(rd 1 (pre @ entry_bytes e @ post) (length pre) :: u8) = (case e of CU _ \<Rightarrow> 0 | MEM _ \<Rightarrow> 1 | CACHE _ \<Rightarrow> 2 | LINK _ \<Rightarrow> 5)"
  by (cases e) (simp_all add: rd_start, simp_all add: cu_bytes_def mem_bytes_of_def cache_bytes_def iolink_bytes_def bytes_simps rd_def)

lemma rd_length:
  "entry_ok e \<Longrightarrow> unat (rd 1 (pre @ entry_bytes e @ post) (length pre + 1) :: u8) = length (entry_bytes e)"
  by (subst rd_shift, cases e)
    (simp_all add: length_entry_bytes, simp_all add: cu_bytes_def mem_bytes_of_def cache_bytes_def iolink_bytes_def bytes_simps rd_def)

lemma rd_flags: "(rd 4 (pre @ entry_bytes e @ post) (length pre + 4) :: u32) = entry_flags e"
  by (subst rd_shift, cases e) (simp_all add: cu_bytes_def mem_bytes_of_def cache_bytes_def iolink_bytes_def bytes_simps rd_def)

lemma opu_parse_subtype_bytes:
  assumes "entry_ok e"
  shows "opu_parse_subtype env (pre @ entry_bytes e @ post) (length pre) t = parse_entry env e t"
  unfolding opu_parse_subtype_def rd_type Let_def using assms
  by (cases e) (simp_all add: cu_codec.read_back [where f = "\<lambda>c. Inside (opu_parse_subtype_cu c t)"]
      mem_codec.read_back [where f = "\<lambda>m. Inside (opu_parse_subtype_mem env m t)"]
      cache_codec.read_back [where f = "\<lambda>c. Inside (opu_parse_subtype_cache env c t)"]
      iolink_codec.read_back [where f = "\<lambda>l. opu_parse_subtype_iolink env l t"])

section \<open>The loop over the bytes\<close>

lemma parse_loop_bytes:
  assumes "\<forall>e\<in>set es. entry_ok e" "length img = image_len" "img = pre @ table_bytes es"
  shows "parse_loop env img image_len (length pre) t = Some (parse_entries env es t)"
  using assms
proof (induction es arbitrary: pre t)
  case Nil
  then show ?case by (subst parse_loop.simps) (simp add: table_bytes_def)
next
  case (Cons e es)
  have ok: "entry_ok e" and oks: "\<forall>e\<in>set es. entry_ok e" and img: "img = pre @ entry_bytes e @ table_bytes es"
    using Cons.prems by (simp_all add: table_bytes_def)
  have l: "8 < length (entry_bytes e)" using length_entry_bytes [OF ok] by (cases e) auto
  have next_entry: "parse_loop env img image_len (length pre + length (entry_bytes e)) t' = Some (parse_entries env es t')" for t'
  proof -
    have "parse_loop env img image_len (length (pre @ entry_bytes e)) t' = Some (parse_entries env es t')"
      by (rule Cons.IH [OF oks Cons.prems(2)]) (simp add: img)
    then show ?thesis by simp
  qed
  have here: "unat (rd 1 img (length pre + 1) :: u8) = length (entry_bytes e)" "(rd 4 img (length pre + 4) :: u32) = entry_flags e"
    "opu_parse_subtype env img (length pre) t = parse_entry env e t"
    unfolding img by (rule rd_length [OF ok] rd_flags opu_parse_subtype_bytes [OF ok])+
  have inside: "length pre + 8 < image_len" "length pre + 8 \<le> length img"
    using l Cons.prems(2) unfolding img by simp_all
  show ?case
    by (subst parse_loop.simps) (simp only: inside here next_entry not_True_eq_False if_False parse_entries.simps(2) split: access.split if_split, auto)
qed

text \<open>What a table means: devices for its domains, its OEM fields, and its entries in their order.\<close>

definition parse_table :: "crat_env \<Rightarrow> crat_header \<Rightarrow> entry list \<Rightarrow> u32 \<Rightarrow> topology \<Rightarrow> (int \<times> topology) access" where
  "parse_table env h es pd t =
     (case create_devices env (unat (h_num_domains h)) pd t of (ok, t1) \<Rightarrow>
        if \<not> ok \<or> h_num_domains h = 0 then Inside (- ENOMEM, opu_release_topology_device_list t1)
        else case parse_entries env es (t1\<lparr>device_list := upd_last (\<lambda>d. d\<lparr>oem_id := h_oem_id h, oem_table_id := h_oem_table_id h,
                    oem_revision := h_oem_revision h\<rparr>) (device_list t1)\<rparr>) of
               Fault \<Rightarrow> Fault
             | Inside (r, t3) \<Rightarrow> Inside (if r \<noteq> 0 then (r, opu_release_topology_device_list t3) else (0, t3)))"

definition table_ok :: "crat_header \<Rightarrow> entry list \<Rightarrow> bool" where
  "table_ok h es \<longleftrightarrow> header_ok h \<and> list_all entry_ok es \<and> unat (h_length h) = sizeof_header + length (table_bytes es)"

lemma opu_parse_crat_table_bytes:
  assumes "table_ok h es" "device_list t = []"
  shows "opu_parse_crat_table env (Some (header_bytes h @ table_bytes es)) pd t = Some (parse_table env h es pd t)"
proof -
  have h: "header_ok h" and es: "\<forall>e\<in>set es. entry_ok e" and len: "unat (h_length h) = 48 + length (table_bytes es)"
    using assms(1) by (simp_all add: table_ok_def list_all_iff)
  have l: "length (header_bytes h) = 48" by (rule length_header_bytes [OF h])
  have loop: "parse_loop env (header_bytes h @ table_bytes es) (48 + length (table_bytes es)) 48 t' = Some (parse_entries env es t')" for t'
    using parse_loop_bytes [OF es, of "header_bytes h @ table_bytes es" "48 + length (table_bytes es)" "header_bytes h" env t'] l by simp
  show ?thesis
    unfolding opu_parse_crat_table_def parse_table_def option.case Let_def header_at_bytes [OF h] len loop
    using assms(2) l by (simp split: prod.split access.split)
qed

end
