(* ===== verification/Opu_Crat_Props.thy ===== *)
theory Opu_Crat_Props
  imports Opu_Crat_Codec
begin

text \<open>
  Properties of the parser for every image, well-formed or not: what it leaves in the lists of devices, and when it ends.
\<close>

section \<open>Counters of a device\<close>

text \<open>The counters of a device, which user space reads to find the directories of its node, are the lengths of its lists.\<close>

definition counted :: "opu_topology_device \<Rightarrow> bool" where
  "counted d \<longleftrightarrow> mem_banks_count (node_props d) = of_nat (length (mem_props d)) \<and>
     caches_count (node_props d) = of_nat (length (cache_props d)) \<and> cache_count d = of_nat (length (cache_props d)) \<and>
     io_links_count (node_props d) = of_nat (length (io_link_props d)) \<and> io_link_count d = of_nat (length (io_link_props d))"

definition t_counted :: "topology \<Rightarrow> bool" where
  "t_counted t \<longleftrightarrow> list_all counted (device_list t) \<and> list_all counted (topology_device_list t)"

text \<open>A step of the parser keeps the counters right and the devices under construction in their domains.\<close>

definition domains :: "topology \<Rightarrow> u32 list" where
  "domains t = map proximity_domain (device_list t)"

definition master_domains :: "topology \<Rightarrow> u32 list" where
  "master_domains t = map proximity_domain (topology_device_list t)"

definition same_master :: "topology \<Rightarrow> topology \<Rightarrow> bool" where
  "same_master t t' \<longleftrightarrow> master_domains t' = master_domains t \<and> num_devices t' = num_devices t \<and> generation_count t' = generation_count t"

definition keeps_counts :: "topology \<Rightarrow> topology \<Rightarrow> bool" where
  "keeps_counts t t' \<longleftrightarrow> (t_counted t \<longrightarrow> t_counted t') \<and> domains t' = domains t \<and> same_master t t'"

lemma same_master_refl [simp]: "same_master t t"
  by (simp add: same_master_def)

lemma same_master_trans: "same_master t t1 \<Longrightarrow> same_master t1 t2 \<Longrightarrow> same_master t t2"
  by (simp add: same_master_def)

lemma same_master_simps [simp]:
  "same_master t (t'\<lparr>device_list := ds\<rparr>) = same_master t t'" "same_master t (t'\<lparr>t_allocs := n\<rparr>) = same_master t t'"
  "same_master t (opu_release_topology_device_list t') = same_master t t'"
  by (simp_all add: same_master_def master_domains_def opu_release_topology_device_list_def)

lemma keeps_counts_refl [simp]: "keeps_counts t t"
  by (simp add: keeps_counts_def)

lemma keeps_counts_trans: "keeps_counts t t1 \<Longrightarrow> keeps_counts t1 t2 \<Longrightarrow> keeps_counts t t2"
  by (auto simp: keeps_counts_def intro: same_master_trans)

lemma length_upd_first [simp]: "length (upd_first P f xs) = length xs"
  by (induction xs) auto

lemma list_all_upd_first: "list_all Q xs \<Longrightarrow> (\<And>x. Q x \<Longrightarrow> Q (f x)) \<Longrightarrow> list_all Q (upd_first P f xs)"
  by (induction xs) auto

lemma map_upd_first: "(\<And>x. g (f x) = g x) \<Longrightarrow> map g (upd_first P f xs) = map g xs"
  by (induction xs) auto

lemma keeps_counts_device_list:
  assumes "\<And>d. counted d \<Longrightarrow> counted (f d)" "\<And>d. proximity_domain (f d) = proximity_domain d"
  shows "keeps_counts t (t\<lparr>device_list := upd_first P f (device_list t)\<rparr>)"
  using assms by (auto simp: keeps_counts_def t_counted_def domains_def map_upd_first intro: list_all_upd_first)

lemma keeps_counts_master:
  assumes "\<And>d. counted d \<Longrightarrow> counted (f d)" "\<And>d. proximity_domain (f d) = proximity_domain d"
  shows "keeps_counts t (t\<lparr>topology_device_list := upd_first P f (topology_device_list t)\<rparr>)"
  using assms by (auto simp: keeps_counts_def t_counted_def domains_def same_master_def master_domains_def map_upd_first intro: list_all_upd_first)

lemma keeps_counts_alloc: "t_alloc env t = (ok, t1) \<Longrightarrow> keeps_counts t t1"
  by (auto simp: t_alloc_def keeps_counts_def t_counted_def domains_def)

lemma counted_upd_props:
  assumes "mem_banks_count (f (node_props d)) = mem_banks_count (node_props d)" "caches_count (f (node_props d)) = caches_count (node_props d)"
    "io_links_count (f (node_props d)) = io_links_count (node_props d)" "counted d"
  shows "counted (upd_props f d)"
  using assms by (simp add: counted_def upd_props_def)

lemma opu_parse_subtype_cu_keeps: "opu_parse_subtype_cu cu t = (r, t') \<Longrightarrow> keeps_counts t t'"
  unfolding opu_parse_subtype_cu_def prod.inject
  by (elim conjE, erule subst, rule keeps_counts_device_list)
    (auto simp: Let_def opu_populated_cu_info_cpu_def opu_populated_cu_info_gpu_def upd_props_def counted_def)

lemma opu_parse_subtype_mem_keeps:
  assumes "opu_parse_subtype_mem env mem t = (r, t')"
  shows "keeps_counts t t'"
proof -
  obtain ok t1 where a: "t_alloc env t = (ok, t1)" by fastforce
  note k = keeps_counts_alloc [OF a]
  show ?thesis using assms a k
    by (auto simp: opu_parse_subtype_mem_def Let_def counted_def upd_props_def split: option.splits if_splits
        intro!: keeps_counts_device_list keeps_counts_trans [OF k keeps_counts_device_list])
qed

lemma opu_parse_subtype_cache_keeps:
  assumes "opu_parse_subtype_cache env c t = (r, t')"
  shows "keeps_counts t t'"
proof -
  obtain ok t1 where a: "t_alloc env t = (ok, t1)" by fastforce
  note k = keeps_counts_alloc [OF a]
  show ?thesis using assms a k
    by (auto simp: opu_parse_subtype_cache_def Let_def counted_def upd_props_def split: option.splits if_splits
        intro!: keeps_counts_device_list keeps_counts_trans [OF k keeps_counts_device_list])
qed

lemma counted_add_link: "counted d \<Longrightarrow> counted (add_link p d)"
  by (simp add: counted_def add_link_def upd_props_def)

lemma proximity_add_link: "proximity_domain (add_link p d) = proximity_domain d"
  by (simp add: add_link_def upd_props_def)

lemma opu_parse_subtype_iolink_keeps:
  assumes "opu_parse_subtype_iolink env l t = Inside (r, t')"
  shows "keeps_counts t t'"
proof -
  obtain ok t1 where a: "t_alloc env t = (ok, t1)" by fastforce
  define t2 where "t2 = t1\<lparr>device_list := upd_first (\<lambda>d. proximity_domain_from l = proximity_domain d) (add_link (link_props_of env l)) (device_list t1)\<rparr>"
  obtain ok2 t3 where b: "t_alloc env t2 = (ok2, t3)" by fastforce
  have k2: "keeps_counts t t2"
    unfolding t2_def by (rule keeps_counts_trans [OF keeps_counts_alloc [OF a] keeps_counts_device_list]) (auto simp: counted_add_link proximity_add_link)
  have k3: "keeps_counts t t3" by (rule keeps_counts_trans [OF k2 keeps_counts_alloc [OF b]])
  have m: "keeps_counts t (t3\<lparr>topology_device_list := upd_first P (add_link p) (topology_device_list t3)\<rparr>)" for P p
    by (rule keeps_counts_trans [OF k3 keeps_counts_master]) (auto simp: counted_add_link proximity_add_link)
  show ?thesis using assms a b k2 m keeps_counts_alloc [OF a]
    by (auto simp: opu_parse_subtype_iolink_def Let_def t2_def [symmetric] split: option.splits if_splits)
qed

lemma opu_parse_subtype_keeps: "opu_parse_subtype env img p t = Inside (r, t') \<Longrightarrow> keeps_counts t t'"
  unfolding opu_parse_subtype_def Let_def at_def
  by (auto split: if_splits dest: opu_parse_subtype_cu_keeps opu_parse_subtype_mem_keeps opu_parse_subtype_cache_keeps opu_parse_subtype_iolink_keeps)

lemma parse_loop_keeps_all: "parse_loop env img image_len p t = Some a \<Longrightarrow> (\<forall>r t'. a = Inside (r, t') \<longrightarrow> keeps_counts t t')"
proof (induction rule: parse_loop.raw_induct [rotated, consumes 1, case_names step])
  case (step f env img image_len p t a)
  show ?case
  proof (intro allI impI)
    fix r t' assume a: "a = Inside (r, t')"
    have rest: "keeps_counts t t'" if "f env img image_len q t1 = Some (Inside (r, t'))" "keeps_counts t t1" for q t1
      using step(1) [OF that(1)] that(2) by (auto intro: keeps_counts_trans)
    show "keeps_counts t t'" using step(2) unfolding a
      by (auto split: if_splits access.splits dest: opu_parse_subtype_keeps intro: rest)
  qed
qed

lemmas parse_loop_keeps = parse_loop_keeps_all [rule_format, OF _ refl]

section \<open>The devices of a table\<close>

text \<open>A table with one domain, used below as an example: its processors, its memory and a cache.\<close>

definition sample_header :: crat_header where
  "sample_header = new_header\<lparr>h_length := 192, h_total_entries := 3, h_num_domains := 1\<rparr>"

definition sample_entries :: "entry list" where
  "sample_entries = [CU (zero_cu\<lparr>cu_flags := 5, num_cpu_cores := 4\<rparr>), MEM (zero_mem\<lparr>mem_flags := 1, length_low := 0x1000\<rparr>),
     CACHE (zero_cache\<lparr>cache_flags := 3, c_cache_size := 16, c_cache_level := 1\<rparr>)]"

definition sample_env :: crat_env where
  "sample_env = \<lparr>t_alloc_ok = (\<lambda>_. True), node_distance = (\<lambda>_ _. 10)\<rparr>"

definition no_devices :: topology where
  "no_devices = \<lparr>device_list = [], topology_device_list = [], num_devices = 0, generation_count = 0, t_allocs = 0\<rparr>"

lemma sample_table_ok: "table_ok sample_header sample_entries"
  by (simp add: table_ok_def header_ok_def sample_header_def sample_entries_def new_header_def table_bytes_def zero_cache_def)

lemma sample_parse:
  "\<exists>t'. opu_parse_crat_table sample_env (Some (header_bytes sample_header @ table_bytes sample_entries)) 0 no_devices = Some (Inside (0, t')) \<and>
     map mem_props (device_list t') = [[\<lparr>heap_type = 0, size_in_bytes = 0x1000, m_flags = 0, m_width = 0, mem_clk_max = 0\<rparr>]]"
  by (subst opu_parse_crat_table_bytes [OF sample_table_ok])
    (simp_all add: parse_table_def sample_header_def sample_entries_def sample_env_def no_devices_def new_header_def zero_cu_def zero_mem_def
      zero_cache_def opu_create_topology_device_def t_alloc_def upd_last_def zero_device_def zero_props_def opu_parse_subtype_cu_def
      opu_populated_cu_info_cpu_def opu_parse_subtype_mem_def find_subtype_mem_def upd_props_def mem_heap_def mem_flags_of_def mem_bytes_def
      opu_parse_subtype_cache_def cache_here_def Let_def)

lemma counted_zero_device: "counted zero_device"
  by (simp add: counted_def zero_device_def zero_props_def)

lemma upd_last_snoc: "upd_last f (xs @ [x]) = xs @ [f x]"
  by (simp add: upd_last_def)

lemma map_upd_last: "(\<And>x. g (f x) = g x) \<Longrightarrow> map g (upd_last f xs) = map g xs"
  by (cases xs rule: rev_cases) (simp_all add: upd_last_def)

lemma list_all_upd_last: "list_all Q xs \<Longrightarrow> (\<And>x. Q x \<Longrightarrow> Q (f x)) \<Longrightarrow> list_all Q (upd_last f xs)"
  by (cases xs rule: rev_cases) (simp_all add: upd_last_def)

lemma create_devices_counted:
  "create_devices env n pd t = (ok, t') \<Longrightarrow> t_counted t \<Longrightarrow>
     t_counted t' \<and> same_master t t' \<and> (ok \<longrightarrow> domains t' = domains t @ map (\<lambda>i. pd + of_nat i) [0..<n])"
proof (induction n arbitrary: pd t)
  case 0
  then show ?case by simp
next
  case (Suc n)
  obtain ok1 t1 where c: "opu_create_topology_device env t = (ok1, t1)" by fastforce
  define t2 where "t2 = t1\<lparr>device_list := upd_last (\<lambda>d. d\<lparr>proximity_domain := pd\<rparr>) (device_list t1)\<rparr>"
  have t1: "t_counted t1" "same_master t t1" using c Suc.prems(2)
    by (auto simp: opu_create_topology_device_def t_alloc_def t_counted_def counted_zero_device split: if_splits)
  show ?case
  proof (cases ok1)
    case False
    then show ?thesis using Suc.prems(1) c t1 by simp
  next
    case True
    have d: "device_list t1 = device_list t @ [zero_device]" "topology_device_list t1 = topology_device_list t"
      using c True by (auto simp: opu_create_topology_device_def t_alloc_def split: if_splits)
    have "t_counted t2" using t1 unfolding t2_def t_counted_def by (auto intro: list_all_upd_last simp: counted_def)
    moreover have "same_master t t2" using t1(2) by (simp add: t2_def)
    moreover have "domains t2 = domains t @ [pd]" by (simp add: t2_def domains_def d upd_last_snoc)
    moreover have "create_devices env n (pd + 1) t2 = (ok, t')" using Suc.prems(1) c True by (simp add: t2_def)
    ultimately show ?thesis using Suc.IH [of "pd + 1" t2]
      by (simp add: upt_conv_Cons map_Suc_upt [symmetric] comp_def algebra_simps same_master_trans [of t t2 t'] del: upt_Suc)
  qed
qed

lemma opu_parse_crat_table_devices:
  assumes "opu_parse_crat_table env crat_image pd t = Some (Inside (r, t'))" "device_list t = []" "t_counted t"
  shows "t_counted t' \<and> same_master t t' \<and>
    (if r = 0 then \<exists>img. crat_image = Some img \<and> domains t' = map (\<lambda>i. pd + of_nat i) [0..<unat (h_num_domains (header_at img))]
     else device_list t' = [])"
proof (cases crat_image)
  case None
  then show ?thesis using assms by (auto simp: opu_parse_crat_table_def)
next
  case (Some img)
  define n where "n = unat (h_num_domains (header_at img))"
  obtain ok t1 where c: "create_devices env n pd t = (ok, t1)" by fastforce
  define t2 where "t2 = t1\<lparr>device_list := upd_last (\<lambda>d. d\<lparr>oem_id := h_oem_id (header_at img), oem_table_id := h_oem_table_id (header_at img),
    oem_revision := h_oem_revision (header_at img)\<rparr>) (device_list t1)\<rparr>"
  note t1 = create_devices_counted [OF c assms(3)]
  have t2: "t_counted t2" "domains t2 = domains t1" "same_master t t2"
    using t1 by (auto simp: t2_def t_counted_def domains_def map_upd_last counted_def intro: list_all_upd_last)
  have release: "t_counted s \<Longrightarrow> t_counted (opu_release_topology_device_list s) \<and> device_list (opu_release_topology_device_list s) = []" for s
    by (simp add: t_counted_def opu_release_topology_device_list_def)
  have loop: "keeps_counts t2 t3" if "parse_loop env img len p t2 = Some (Inside (q, t3))" for len p q t3
    by (rule parse_loop_keeps [OF that])
  show ?thesis
  proof (cases "length img < 48 \<or> \<not> ok \<or> h_num_domains (header_at img) = 0")
    case True
    then show ?thesis using assms t1 release [of t1]
      by (auto simp: Some opu_parse_crat_table_def Let_def n_def [symmetric] c split: if_splits)
  next
    case False
    then obtain a where p0: "parse_loop env img (unat (h_length (header_at img))) 48 t2 = Some a"
      and r0: "(case a of Fault \<Rightarrow> Fault | Inside (q, t3) \<Rightarrow> Inside (if q \<noteq> 0 then (q, opu_release_topology_device_list t3) else (0, t3))) = Inside (r, t')"
      using assms(1,2) by (auto simp: Some opu_parse_crat_table_def Let_def n_def [symmetric] c t2_def [symmetric])
    then obtain q t3 where p: "parse_loop env img (unat (h_length (header_at img))) 48 t2 = Some (Inside (q, t3))"
      and r: "(r, t') = (if q \<noteq> 0 then (q, opu_release_topology_device_list t3) else (0, t3))"
      by (cases a) (auto split: prod.splits)
    have t3: "t_counted t3" "domains t3 = domains t2" "same_master t t3"
      using loop [OF p] t2(1,3) same_master_trans [of t t2 t3] by (simp_all add: keeps_counts_def)
    have "domains t = []" using assms(2) by (simp add: domains_def)
    then show ?thesis using r t3 t2(2) t1 False release [OF t3(1)] by (cases "q = 0") (simp_all add: Some n_def)
  qed
qed

text \<open>C15. Whatever the image holds, when the parser of a table returns, every device it made and every device of the
  master list that it touched has counters of memory banks, caches and links which agree with its lists; on success
  there is one device for each domain of the header, in consecutive proximity domains, and on failure none is left.\<close>

theorem opu_parse_crat_table_counted:
  assumes "opu_parse_crat_table env crat_image pd t = Some (Inside (r, t'))" "device_list t = []" "t_counted t"
  shows "t_counted t' \<and>
    (if r = 0 then \<exists>img. crat_image = Some img \<and> domains t' = map (\<lambda>i. pd + of_nat i) [0..<unat (h_num_domains (header_at img))]
     else device_list t' = [])"
  using opu_parse_crat_table_devices [OF assms] by blast

theorem opu_parse_crat_table_counted_witness:
  "\<exists>t'. opu_parse_crat_table sample_env (Some (header_bytes sample_header @ table_bytes sample_entries)) 0 no_devices = Some (Inside (0, t')) \<and>
     t_counted t' \<and> domains t' = [0]"
proof -
  obtain t' where p: "opu_parse_crat_table sample_env (Some (header_bytes sample_header @ table_bytes sample_entries)) 0 no_devices = Some (Inside (0, t'))"
    using sample_parse by blast
  have h: "header_at (header_bytes sample_header @ table_bytes sample_entries) = sample_header"
    by (rule header_at_bytes) (use sample_table_ok in \<open>simp add: table_ok_def\<close>)
  have "device_list no_devices = []" "t_counted no_devices" by (simp_all add: no_devices_def t_counted_def)
  from opu_parse_crat_table_counted [OF p this] show ?thesis
    using p by (auto simp: h, simp add: sample_header_def)
qed

section \<open>The end of the loop\<close>

text \<open>The offsets at which the loop looks for a subtype.\<close>

inductive offset :: "u8 list \<Rightarrow> nat \<Rightarrow> nat \<Rightarrow> bool" for img image_len where
  offset_first: "offset img image_len sizeof_header"
| offset_next: "offset img image_len p \<Longrightarrow> p + sizeof_generic < image_len \<Longrightarrow> offset img image_len (p + unat (rd 1 img (p + 1) :: u8))"

lemma parse_loop_ends:
  assumes "\<And>p. offset img image_len p \<Longrightarrow> p + 8 < image_len \<Longrightarrow> (rd 1 img (p + 1) :: u8) \<noteq> 0" "offset img image_len p"
  shows "\<exists>a. parse_loop env img image_len p t = Some a"
  using assms(2)
proof (induction "image_len - p" arbitrary: p t rule: less_induct)
  case less
  show ?case
  proof (cases "p + 8 < image_len")
    case False
    then show ?thesis by (subst parse_loop.simps) simp
  next
    case True
    define q where "q = p + unat (rd 1 img (p + 1) :: u8)"
    have "0 < unat (rd 1 img (p + 1) :: u8)" using assms(1) [OF less.prems True] by (simp add: unat_gt_0)
    then have "image_len - q < image_len - p" "offset img image_len q"
      using True offset_next [OF less.prems True] by (auto simp: q_def)
    then have rest: "\<exists>a. parse_loop env img image_len q t' = Some a" for t' using less.hyps by blast
    show ?thesis
      by (subst parse_loop.simps) (use True rest in \<open>auto simp: q_def split: access.split\<close>)
  qed
qed

text \<open>A disabled subtype of length 0 is looked at forever.\<close>

lemma parse_loop_zero_length:
  assumes "p + 8 < image_len" "p + 8 \<le> length img" "rd 4 img (p + 4) AND (1 :: u32) = 0" "(rd 1 img (p + 1) :: u8) = 0"
  shows "parse_loop env img image_len p t = None"
proof -
  have "parse_loop env img image_len p t = Some a \<Longrightarrow>
      \<not> (p + 8 < image_len \<and> p + 8 \<le> length img \<and> rd 4 img (p + 4) AND (1 :: u32) = 0 \<and> (rd 1 img (p + 1) :: u8) = 0)" for a
  proof (induction rule: parse_loop.raw_induct [rotated, consumes 1, case_names step])
    case (step f env img image_len p t a)
    show ?case
    proof
      assume z: "p + 8 < image_len \<and> p + 8 \<le> length img \<and> rd 4 img (p + 4) AND (1 :: u32) = 0 \<and> (rd 1 img (p + 1) :: u8) = 0"
      then have "f env img image_len p t = Some a" using step(2) by simp
      then show False using step(1) z by blast
    qed
  qed
  then show ?thesis using assms by (cases "parse_loop env img image_len p t") auto
qed

text \<open>C16. Parsing ends, with a result or with an access outside the image, for every image in which no subtype that the
  loop reaches has length 0.\<close>

theorem opu_parse_crat_table_ends:
  assumes "\<And>p. offset img (unat (h_length (header_at img))) p \<Longrightarrow> p + 8 < unat (h_length (header_at img)) \<Longrightarrow> (rd 1 img (p + 1) :: u8) \<noteq> 0"
  shows "\<exists>a. opu_parse_crat_table env (Some img) pd t = Some a"
proof -
  have "\<exists>a. parse_loop env img (unat (h_length (header_at img))) 48 t' = Some a" for t'
    by (rule parse_loop_ends [OF assms offset_first])
  then show ?thesis
    by (auto simp: opu_parse_crat_table_def Let_def split: prod.split)
qed

text \<open>A table whose only subtype is of an unknown type.\<close>

definition odd_image :: "u8 list" where
  "odd_image = header_bytes (sample_header\<lparr>h_length := 60\<rparr>) @ [9, 8, 0, 0, 1, 0, 0, 0, 0, 0, 0, 0]"

theorem opu_parse_crat_table_ends_witness: "\<exists>a. opu_parse_crat_table sample_env (Some odd_image) 0 no_devices = Some a"
proof (rule opu_parse_crat_table_ends)
  have ok: "header_ok (sample_header\<lparr>h_length := 60\<rparr>)" by (simp add: header_ok_def sample_header_def new_header_def)
  have l: "unat (h_length (header_at odd_image)) = 60" unfolding odd_image_def header_at_bytes [OF ok] by simp
  have r: "(rd 1 odd_image (48 + 1) :: u8) = 8"
    using rd_shift [of 1 "header_bytes (sample_header\<lparr>h_length := 60\<rparr>)" "[9, 8, 0, 0, 1, 0, 0, 0, 0, 0, 0, 0]" 1] length_header_bytes [OF ok]
    by (simp add: odd_image_def rd_def)
  fix p assume o: "offset odd_image (unat (h_length (header_at odd_image))) p" and p: "p + 8 < unat (h_length (header_at odd_image))"
  have "p = 48 \<or> p = 56" using o unfolding l by (induction rule: offset.induct) (use r in auto)
  then show "(rd 1 odd_image (p + 1) :: u8) \<noteq> 0" using p r unfolding l by auto
qed

end
