(* ===== verification/Opu_Vcrat_Cpu.thy ===== *)
theory Opu_Vcrat_Cpu
  imports Opu_Crat_Props
begin

text \<open>
  The virtual table of the host: what \<open>opu_create_vcrat_image_cpu\<close> writes is the bytes of a list of entries, it fits in the
  size that \<open>opu_create_crat_image_virtual\<close> computes, and parsing it gives the nodes of the host back.
\<close>

section \<open>Entries of a node\<close>

definition node_cpus :: "host \<Rightarrow> nat \<Rightarrow> nat list" where
  "node_cpus h nid = (case cpumask_of_node h nid of None \<Rightarrow> [] | Some cs \<Rightarrow> cs)"

definition node_bytes :: "host \<Rightarrow> nat \<Rightarrow> u64" where
  "node_bytes h nid = push_bit 12 (sum_list (zone_pages h nid))"

definition node_cu :: "host \<Rightarrow> nat \<Rightarrow> u32 \<Rightarrow> crat_subtype_computeunit" where
  "node_cu h nid pd = zero_cu\<lparr>cu_flags := 1 OR 4, cu_proximity_domain := pd, cu_processor_id_low := word_of_int (opu_numa_node_to_apic_id h nid),
     num_cpu_cores := of_nat (length (node_cpus h nid))\<rparr>"

definition node_mem :: "host \<Rightarrow> nat \<Rightarrow> u32 \<Rightarrow> crat_subtype_memory" where
  "node_mem h nid pd = zero_mem\<lparr>mem_flags := 1, length_low := ucast (node_bytes h nid), length_high := ucast (drop_bit 32 (node_bytes h nid)),
     mem_proximity_domain := pd\<rparr>"

definition node_link :: "host \<Rightarrow> nat \<Rightarrow> nat \<Rightarrow> crat_subtype_iolink" where
  "node_link h nid to = zero_iolink\<lparr>link_flags := 1, proximity_domain_from := of_nat nid, proximity_domain_to := of_nat to,
     io_interface_type := (if vendor_amd h then CRAT_IOLINK_TYPE_HYPERTRANSPORT else CRAT_IOLINK_TYPE_QPI_1_1)\<rparr>"

definition node_entries :: "host \<Rightarrow> nat \<Rightarrow> u32 \<Rightarrow> entry list" where
  "node_entries h nid pd = CU (node_cu h nid pd) # MEM (node_mem h nid pd) # map (\<lambda>to. LINK (node_link h nid to)) (filter (\<lambda>to. to \<noteq> nid) (online_nodes h))"

fun host_entries :: "host \<Rightarrow> u16 \<Rightarrow> nat list \<Rightarrow> entry list" where
  "host_entries h pd [] = []"
| "host_entries h pd (nid # ns) =
     (if opu_numa_node_to_apic_id h nid = - 1 then host_entries h pd ns else node_entries h nid (ucast pd) @ host_entries h (pd + 1) ns)"

definition usable_nodes :: "host \<Rightarrow> nat list \<Rightarrow> nat list" where
  "usable_nodes h ns = filter (\<lambda>nid. opu_numa_node_to_apic_id h nid \<noteq> - 1) ns"

lemma table_bytes_simps [simp]:
  "table_bytes [] = []" "table_bytes (e # es) = entry_bytes e @ table_bytes es" "table_bytes (es @ fs) = table_bytes es @ table_bytes fs"
  by (simp_all add: table_bytes_def)

lemma length_links [simp]: "length (table_bytes (map (\<lambda>to. LINK (f to)) ns)) = 64 * length ns"
  by (induction ns) simp_all

lemma length_node_entries: "length (table_bytes (node_entries h nid pd)) = 80 + 64 * length (filter (\<lambda>to. to \<noteq> nid) (online_nodes h))"
  by (simp add: node_entries_def)

lemma entries_ok: "list_all entry_ok (host_entries h pd ns)"
  by (induction ns arbitrary: pd) (auto simp: node_entries_def list_all_iff)

section \<open>Writing a node\<close>

text \<open>A table after some more entries.\<close>

definition grown :: "entry list \<Rightarrow> nat \<Rightarrow> vcrat \<Rightarrow> vcrat" where
  "grown es m v = \<lparr>avail = avail v - int (length (table_bytes es)),
     v_header = (v_header v)\<lparr>h_length := h_length (v_header v) + of_nat (length (table_bytes es)),
        h_total_entries := h_total_entries (v_header v) + of_nat (length es), h_num_domains := h_num_domains (v_header v) + of_nat m\<rparr>,
     body = body v @ table_bytes es\<rparr>"

lemma fill_links_spec:
  assumes "int (64 * length (filter (\<lambda>to. to \<noteq> nid) ns)) \<le> avail v"
  shows "fill_links h nid ns n v = (0, n + length (filter (\<lambda>to. to \<noteq> nid) ns),
    v\<lparr>avail := avail v - int (64 * length (filter (\<lambda>to. to \<noteq> nid) ns)),
      body := body v @ table_bytes (map (\<lambda>to. LINK (node_link h nid to)) (filter (\<lambda>to. to \<noteq> nid) ns))\<rparr>)"
  using assms
proof (induction ns arbitrary: n v)
  case (Cons to ns)
  show ?case
  proof (cases "to = nid")
    case False
    then show ?thesis using Cons.prems
      by (simp add: Let_def Cons.IH node_link_def [symmetric])
  qed (use Cons in simp)
qed simp

lemma apic_word:
  "opu_numa_node_to_apic_id h nid \<noteq> - 1 \<Longrightarrow> (word_of_int (opu_numa_node_to_apic_id h nid) :: u32) \<noteq> - 1"
proof -
  assume "opu_numa_node_to_apic_id h nid \<noteq> - 1"
  then obtain a :: u16 where a: "opu_numa_node_to_apic_id h nid = int (unat a)"
    by (auto simp: opu_numa_node_to_apic_id_def opu_cpumask_to_apic_id_def Let_def split: option.splits if_splits)
  have "(word_of_int (int (unat a)) :: u32) = ucast a" by simp
  moreover have "(ucast a :: u32) \<noteq> - 1"
  proof
    assume "(ucast a :: u32) = - 1"
    then have "unat (ucast a :: u32) = unat (- 1 :: u32)" by simp
    moreover have s: "unat a < 2 ^ 16" using unsigned_less [of a] by simp
    moreover have "unat (ucast a :: u32) = unat a" using s by (simp add: unsigned_ucast_eq take_bit_nat_eq_self)
    moreover have "unat (- 1 :: u32) = 2 ^ 32 - 1" by (simp add: unsigned_minus_1_eq_mask mask_eq_exp_minus_1)
    ultimately show False by simp
  qed
  ultimately show ?thesis using a by simp
qed

lemma fill_node_spec:
  assumes "opu_numa_node_to_apic_id h nid \<noteq> - 1" "int (80 + 64 * length (filter (\<lambda>to. to \<noteq> nid) (online_nodes h))) \<le> avail v"
  shows "fill_node h nid v = (0, grown (node_entries h nid (ucast (h_num_domains (v_header v)))) 1 v)"
proof -
  let ?pd = "ucast (h_num_domains (v_header v)) :: u32"
  define v1 where "v1 = v\<lparr>avail := avail v - 40, body := body v @ cu_bytes (node_cu h nid ?pd)\<rparr>"
  define v2 where "v2 = (count_entries 40 1 v1)\<lparr>avail := avail v - 80, body := body v1 @ mem_bytes_of (node_mem h nid ?pd)\<rparr>"
  have cu: "opu_fill_cu_for_cpu h nid ?pd v = (0, v1)"
    using assms apic_word [OF assms(1)] by (simp add: opu_fill_cu_for_cpu_def Let_def v1_def node_cu_def node_cpus_def)
  have mem: "opu_fill_mem_info_for_cpu h nid ?pd (count_entries 40 1 v1) = (0, v2)"
    using assms by (simp add: opu_fill_mem_info_for_cpu_def Let_def v2_def v1_def count_entries_def node_mem_def node_bytes_def)
  have a: "avail v2 = avail v - 80" by (simp add: v2_def)
  have links: "opu_fill_iolink_info_for_cpu h nid (count_entries 40 1 v2) = (0, length (filter (\<lambda>to. to \<noteq> nid) (online_nodes h)),
      (count_entries 40 1 v2)\<lparr>avail := avail v - 80 - int (64 * length (filter (\<lambda>to. to \<noteq> nid) (online_nodes h))),
        body := body v2 @ table_bytes (map (\<lambda>to. LINK (node_link h nid to)) (filter (\<lambda>to. to \<noteq> nid) (online_nodes h)))\<rparr>)"
    unfolding opu_fill_iolink_info_for_cpu_def using assms(2)
    by (subst fill_links_spec) (simp_all add: a count_entries_def)
  show ?thesis
    unfolding fill_node_def if_not_P [OF assms(1)] Let_def cu mem links prod.case
    by (simp add: grown_def node_entries_def count_entries_def v1_def v2_def algebra_simps)
qed

lemma grown_grown: "grown fs n (grown es m v) = grown (es @ fs) (m + n) v"
  by (simp add: grown_def algebra_simps)

lemma grown_none: "grown [] 0 v = v"
  by (simp add: grown_def)

lemma fill_nodes_spec:
  assumes "\<forall>nid\<in>set ns. length (filter (\<lambda>to. to \<noteq> nid) (online_nodes h)) = m" "int (length ns * (80 + 64 * m)) \<le> avail v"
  shows "fill_nodes h ns v = (0, grown (host_entries h (h_num_domains (v_header v)) ns) (length (usable_nodes h ns)) v)"
  using assms
proof (induction ns arbitrary: v)
  case Nil
  show ?case by (simp add: usable_nodes_def grown_none)
next
  case (Cons nid ns)
  have m: "length (filter (\<lambda>to. to \<noteq> nid) (online_nodes h)) = m" using Cons.prems(1) by simp
  show ?case
  proof (cases "opu_numa_node_to_apic_id h nid = - 1")
    case True
    then have "fill_node h nid v = (0, v)" by (simp add: fill_node_def)
    then show ?thesis using Cons.IH [of v] Cons.prems True by (simp add: usable_nodes_def)
  next
    case False
    let ?v = "grown (node_entries h nid (ucast (h_num_domains (v_header v)))) 1 v"
    have f: "fill_node h nid v = (0, ?v)"
      by (rule fill_node_spec [OF False], rule order_trans [OF _ Cons.prems(2)], unfold of_nat_le_iff m) simp
    have a: "int (length ns * (80 + 64 * m)) \<le> avail ?v"
      using Cons.prems(2) m by (simp add: grown_def length_node_entries algebra_simps)
    have d: "h_num_domains (v_header ?v) = h_num_domains (v_header v) + 1" by (simp add: grown_def)
    have "fill_nodes h ns ?v = (0, grown (host_entries h (h_num_domains (v_header ?v)) ns) (length (usable_nodes h ns)) ?v)"
      by (rule Cons.IH) (use Cons.prems(1) a in simp_all)
    then show ?thesis using False f d by (simp add: usable_nodes_def grown_grown)
  qed
qed

section \<open>The whole table\<close>

definition vcrat_cpu_size :: "nat \<Rightarrow> nat" where
  "vcrat_cpu_size n = sizeof_header + n * (sizeof_computeunit + sizeof_memory + (n - 1) * sizeof_iolink)"

definition dsdt_header :: "host \<Rightarrow> crat_header" where
  "dsdt_header h = (case dsdt h of None \<Rightarrow> new_header
     | Some (revision, oem, oem_table) \<Rightarrow> new_header\<lparr>h_oem_revision := ucast revision, h_oem_id := oem, h_oem_table_id := oem_table\<rparr>)"

definition host_table :: "host \<Rightarrow> entry list" where
  "host_table h = host_entries h 0 (online_nodes h)"

definition host_header :: "host \<Rightarrow> crat_header" where
  "host_header h = (dsdt_header h)\<lparr>h_length := of_nat (sizeof_header + length (table_bytes (host_table h))),
     h_total_entries := of_nat (length (host_table h)), h_num_domains := of_nat (length (usable_nodes h (online_nodes h)))\<rparr>"

lemma length_others:
  assumes "distinct ns" "nid \<in> set ns"
  shows "length (filter (\<lambda>to. to \<noteq> nid) ns) = length ns - 1"
proof -
  have "(\<lambda>to. to \<noteq> nid) = (\<lambda>to. nid \<noteq> to)" by auto
  then have "filter (\<lambda>to. to \<noteq> nid) ns = remove1 nid ns"
    using assms(1) by (simp add: distinct_remove1_removeAll removeAll_filter_not_eq)
  then show ?thesis using assms(2) by (simp add: length_remove1)
qed

lemma length_host_entries:
  "\<forall>nid\<in>set ns. length (filter (\<lambda>to. to \<noteq> nid) (online_nodes h)) = m \<Longrightarrow>
     length (table_bytes (host_entries h pd ns)) = length (usable_nodes h ns) * (80 + 64 * m)"
  by (induction ns arbitrary: pd) (auto simp: usable_nodes_def length_node_entries)

lemma opu_create_vcrat_image_cpu_bytes:
  assumes "distinct (online_nodes h)"
  shows "opu_create_vcrat_image_cpu h (int (vcrat_cpu_size (length (online_nodes h)))) = (0, header_bytes (host_header h) @ table_bytes (host_table h))"
proof -
  let ?ns = "online_nodes h"
  let ?v = "\<lparr>avail = int (vcrat_cpu_size (length ?ns)) - 48, v_header = dsdt_header h, body = []\<rparr>"
  have m: "\<forall>nid\<in>set ?ns. length (filter (\<lambda>to. to \<noteq> nid) ?ns) = length ?ns - 1" using assms by (simp add: length_others)
  have h0: "h_num_domains (dsdt_header h) = 0" "h_length (dsdt_header h) = 48" "h_total_entries (dsdt_header h) = 0"
    by (simp_all add: dsdt_header_def new_header_def split: option.split)
  have "fill_nodes h ?ns ?v = (0, grown (host_table h) (length (usable_nodes h ?ns)) ?v)"
    using fill_nodes_spec [OF m, of ?v] h0 by (simp add: vcrat_cpu_size_def host_table_def algebra_simps)
  moreover have "48 \<le> vcrat_cpu_size (length ?ns)" by (simp add: vcrat_cpu_size_def)
  ultimately show ?thesis
    by (simp add: opu_create_vcrat_image_cpu_def dsdt_header_def [symmetric]) (simp add: grown_def host_header_def h0)
qed

section \<open>Parsing it back\<close>

text \<open>The device that a node of the host should get, on a host whose nodes are 0 to n - 1. The fields of the firmware go to the last one.\<close>

definition node_device :: "crat_env \<Rightarrow> host \<Rightarrow> nat \<Rightarrow> nat \<Rightarrow> opu_topology_device \<Rightarrow> opu_topology_device" where
  "node_device env h n nid d = d\<lparr>
     node_props := (node_props d)\<lparr>cpu_cores_count := of_nat (length (node_cpus h nid)), cpu_core_id_base := word_of_int (opu_numa_node_to_apic_id h nid),
       mem_banks_count := 1, io_links_count := of_nat (n - 1)\<rparr>,
     mem_props := [\<lparr>heap_type = 0, size_in_bytes = node_bytes h nid, m_flags = 0, m_width = 0, mem_clk_max = 0\<rparr>],
     io_link_count := of_nat (n - 1),
     io_link_props := map (\<lambda>to. link_props_of env (node_link h nid to)) (filter (\<lambda>to. to \<noteq> nid) [0..<n])\<rparr>"

definition new_device :: "host \<Rightarrow> nat \<Rightarrow> nat \<Rightarrow> opu_topology_device" where
  "new_device h n nid = (if Suc nid = n then zero_device\<lparr>proximity_domain := of_nat nid, oem_id := h_oem_id (dsdt_header h),
     oem_table_id := h_oem_table_id (dsdt_header h), oem_revision := h_oem_revision (dsdt_header h)\<rparr> else zero_device\<lparr>proximity_domain := of_nat nid\<rparr>)"

lemma parse_entries_append:
  "parse_entries env es t = Inside (0, t') \<Longrightarrow> parse_entries env (es @ fs) t = parse_entries env fs t'"
  by (induction es arbitrary: t) (auto split: access.splits if_splits)

lemma upd_first_map:
  assumes "k < n" "P (g k)" "\<And>i. i < n \<Longrightarrow> i \<noteq> k \<Longrightarrow> \<not> P (g i)"
  shows "upd_first P f (map g [0..<n]) = map (g(k := f (g k))) [0..<n]"
proof -
  have "upd_first P f (map g [a..<n]) = map (g(k := f (g k))) [a..<n]" if "a \<le> k" for a
    using that
  proof (induction "k - a" arbitrary: a)
    case 0
    then have "a = k" by simp
    moreover have "map (g(k := f (g k))) [Suc k..<n] = map g [Suc k..<n]" by (rule map_cong) auto
    ultimately show ?case using assms by (simp add: upt_conv_Cons)
  next
    case (Suc m)
    then have "a < n" "a \<noteq> k" "Suc a \<le> k" using assms(1) by auto
    then show ?case using Suc assms(3) [of a] by (simp add: upt_conv_Cons)
  qed
  then show ?thesis by simp
qed

lemma find_map_upt:
  assumes "k < n" "P (g k)" "\<And>i. i < n \<Longrightarrow> i \<noteq> k \<Longrightarrow> \<not> P (g i)"
  shows "List.find P (map g [0..<n]) = Some (g k)"
proof -
  have "List.find P (map g [0..<n]) = Some (map g [0..<n] ! k)"
    unfolding find_Some_iff by (rule exI [of _ k]) (use assms in auto)
  then show ?thesis using assms(1) by simp
qed

text \<open>A device list with one device per domain.\<close>

definition in_domains :: "nat \<Rightarrow> (nat \<Rightarrow> opu_topology_device) \<Rightarrow> bool" where
  "in_domains n g \<longleftrightarrow> n \<le> 0x10000 \<and> (\<forall>i<n. proximity_domain (g i) = of_nat i)"

lemma of_nat_domain: "i < n \<Longrightarrow> j < n \<Longrightarrow> n \<le> 0x10000 \<Longrightarrow> (of_nat i :: u32) = of_nat j \<longleftrightarrow> i = j"
  by (subst word_of_nat_eq_iff) (simp add: take_bit_nat_eq_self)

lemma upd_domain:
  assumes "in_domains n g" "k < n"
  shows "upd_first (\<lambda>d. of_nat k = proximity_domain d) f (map g [0..<n]) = map (g(k := f (g k))) [0..<n]"
    "List.find (\<lambda>d. of_nat k = proximity_domain d) (map g [0..<n]) = Some (g k)"
  using assms by (auto simp: in_domains_def of_nat_domain intro!: upd_first_map find_map_upt)

lemma in_domains_upd: "in_domains n g \<Longrightarrow> proximity_domain d = proximity_domain (g k) \<Longrightarrow> in_domains n (g(k := d))"
  by (auto simp: in_domains_def)

definition always_allocates :: "crat_env \<Rightarrow> bool" where
  "always_allocates env \<longleftrightarrow> (\<forall>i. t_alloc_ok env i)"

lemma parse_node_cu:
  assumes "device_list t = map g [0..<n]" "in_domains n g" "k < n"
  shows "\<exists>t'. opu_parse_subtype_cu (node_cu h k (of_nat k)) t = (0, t') \<and> topology_device_list t' = topology_device_list t \<and>
    device_list t' = map (g(k := upd_props (\<lambda>p. p\<lparr>cpu_cores_count := ucast (of_nat (length (node_cpus h k)) :: u16),
       cpu_core_id_base := word_of_int (opu_numa_node_to_apic_id h k)\<rparr>) (g k))) [0..<n]"
  using upd_domain [OF assms(2,3)] assms(1)
  by (simp add: opu_parse_subtype_cu_def node_cu_def zero_cu_def opu_populated_cu_info_cpu_def Let_def)

lemma mem_bytes_node: "mem_bytes (node_mem h nid pd) = node_bytes h nid"
proof -
  have "push_bit 32 (ucast (ucast (drop_bit 32 b) :: u32)) + ucast (ucast b :: u32) = (b :: u64)" for b
  proof -
    have "push_bit 32 (ucast (ucast (drop_bit 32 b) :: u32)) + ucast (ucast b :: u32) =
        push_bit 32 (ucast (ucast (drop_bit 32 b) :: u32)) OR (ucast (ucast b :: u32) :: u64)"
      by (rule disjunctive_add) (auto simp: bit_simps)
    also have "\<dots> = b" by (rule bit_word_eqI) (auto simp: bit_simps)
    finally show ?thesis .
  qed
  then show ?thesis by (simp add: mem_bytes_def node_mem_def)
qed

lemma parse_node_mem:
  assumes "device_list t = map g [0..<n]" "in_domains n g" "k < n" "cpu_cores_count (node_props (g k)) \<noteq> 0" "mem_props (g k) = []"
    "always_allocates env"
  shows "\<exists>t'. opu_parse_subtype_mem env (node_mem h k (of_nat k)) t = (0, t') \<and> topology_device_list t' = topology_device_list t \<and>
    device_list t' = map (g(k := upd_props (\<lambda>p. p\<lparr>mem_banks_count := mem_banks_count p + 1\<rparr>)
      ((g k)\<lparr>mem_props := [\<lparr>heap_type = 0, size_in_bytes = node_bytes h k, m_flags = 0, m_width = 0, mem_clk_max = 0\<rparr>]\<rparr>))) [0..<n]"
proof -
  have m: "mem_proximity_domain (node_mem h k (of_nat k)) = of_nat k" "mem_flags_of (node_mem h k (of_nat k)) = 0" "mem_width (node_mem h k (of_nat k)) = 0"
    "mem_heap (node_mem h k (of_nat k)) (g k) = 0"
    using assms(4) by (simp_all add: node_mem_def mem_flags_of_def zero_mem_def mem_heap_def)
  show ?thesis using upd_domain [OF assms(2,3)] assms
    by (simp add: opu_parse_subtype_mem_def Let_def m mem_bytes_node find_subtype_mem_def t_alloc_def always_allocates_def)
qed

lemma parse_node_links:
  assumes "device_list t = map g [0..<n]" "in_domains n g" "k < n" "always_allocates env"
  shows "\<exists>t'. parse_entries env (map (\<lambda>to. LINK (node_link h k to)) ns) t = Inside (0, t') \<and> topology_device_list t' = topology_device_list t \<and>
    device_list t' = map (g(k := fold (\<lambda>to. add_link (link_props_of env (node_link h k to))) ns (g k))) [0..<n]"
  using assms
proof (induction ns arbitrary: t g)
  case Nil
  then show ?case by simp
next
  case (Cons to ns)
  let ?l = "node_link h k to"
  let ?g = "g(k := add_link (link_props_of env ?l) (g k))"
  have l: "proximity_domain_from ?l = of_nat k" "link_flags ?l = 1" by (simp_all add: node_link_def)
  obtain t1 where t1: "opu_parse_subtype_iolink env ?l t = Inside (0, t1)" "topology_device_list t1 = topology_device_list t" "device_list t1 = map ?g [0..<n]"
    using upd_domain [OF Cons.prems(2,3)] Cons.prems(1,4)
    by (simp add: opu_parse_subtype_iolink_def Let_def l t_alloc_def always_allocates_def)
  have g: "in_domains n ?g" by (rule in_domains_upd [OF Cons.prems(2)]) (rule proximity_add_link)
  from Cons.IH [OF t1(3) g Cons.prems(3,4), unfolded fun_upd_upd fun_upd_same] show ?case using t1 by (simp add: l)
qed

lemma fold_add_link:
  "fold (\<lambda>to. add_link (f to)) ns d = d\<lparr>node_props := (node_props d)\<lparr>io_links_count := io_links_count (node_props d) + of_nat (length ns)\<rparr>,
     io_link_count := io_link_count d + of_nat (length ns), io_link_props := io_link_props d @ map f ns\<rparr>"
  by (induction ns arbitrary: d) (simp_all add: add_link_def upd_props_def algebra_simps)

text \<open>A host whose nodes are numbered from 0 without holes, each with processors.\<close>

definition plain_host :: "host \<Rightarrow> nat \<Rightarrow> bool" where
  "plain_host h n \<longleftrightarrow> online_nodes h = [0..<n] \<and> 0 < n \<and> n \<le> 1024 \<and>
     list_all (\<lambda>i. opu_numa_node_to_apic_id h i \<noteq> - 1 \<and> length (node_cpus h i) < 0x10000) [0..<n] \<and>
     (case dsdt h of None \<Rightarrow> True | Some (_, oem, oem_table) \<Rightarrow> length oem = 6 \<and> length oem_table = 8)"

lemma node_cpus_nonempty: "opu_numa_node_to_apic_id h i \<noteq> - 1 \<Longrightarrow> node_cpus h i \<noteq> []"
  by (auto simp: opu_numa_node_to_apic_id_def opu_cpumask_to_apic_id_def node_cpus_def split: option.splits)

lemma ucast_of_nat_u16: "c < 0x10000 \<Longrightarrow> (ucast (of_nat c :: u16) :: u32) = of_nat c"
  by (simp add: unsigned_of_nat take_bit_nat_eq_self)

lemma parse_node:
  assumes "device_list t = map g [0..<n]" "in_domains n g" "k < n" "always_allocates env" "plain_host h n" "g k = new_device h n k"
  shows "\<exists>t'. parse_entries env (node_entries h k (of_nat k)) t = Inside (0, t') \<and> topology_device_list t' = topology_device_list t \<and>
    device_list t' = map (g(k := node_device env h n k (g k))) [0..<n]"
proof -
  let ?c = "of_nat (length (node_cpus h k)) :: u32"
  let ?d1 = "upd_props (\<lambda>p. p\<lparr>cpu_cores_count := ?c, cpu_core_id_base := word_of_int (opu_numa_node_to_apic_id h k)\<rparr>) (g k)"
  let ?d2 = "upd_props (\<lambda>p. p\<lparr>mem_banks_count := mem_banks_count p + 1\<rparr>)
      (?d1\<lparr>mem_props := [\<lparr>heap_type = 0, size_in_bytes = node_bytes h k, m_flags = 0, m_width = 0, mem_clk_max = 0\<rparr>]\<rparr>)"
  have hk: "opu_numa_node_to_apic_id h k \<noteq> - 1" "length (node_cpus h k) < 0x10000" "online_nodes h = [0..<n]"
    using assms(3,5) by (auto simp: plain_host_def list_all_iff)
  have c: "?c \<noteq> 0" using node_cpus_nonempty [OF hk(1)] hk(2) of_nat_domain [of "length (node_cpus h k)" "0x10000" 0] by simp
  note uc = ucast_of_nat_u16 [OF hk(2)]
  obtain t1 where t1: "opu_parse_subtype_cu (node_cu h k (of_nat k)) t = (0, t1)" "topology_device_list t1 = topology_device_list t"
      "device_list t1 = map (g(k := ?d1)) [0..<n]"
    using parse_node_cu [OF assms(1-3), of h] unfolding uc by blast
  have g1: "in_domains n (g(k := ?d1))" by (rule in_domains_upd [OF assms(2)]) (simp add: upd_props_def)
  obtain t2 where t2: "opu_parse_subtype_mem env (node_mem h k (of_nat k)) t1 = (0, t2)" "topology_device_list t2 = topology_device_list t1"
      "device_list t2 = map (g(k := ?d2)) [0..<n]"
    using parse_node_mem [OF t1(3) g1 assms(3) _ _ assms(4), of h] c assms(6)
    by (auto simp: upd_props_def new_device_def zero_device_def fun_upd_def split: if_splits)
  have g2: "in_domains n (g(k := ?d2))" by (rule in_domains_upd [OF assms(2)]) (simp add: upd_props_def)
  have others: "length (filter (\<lambda>to. to \<noteq> k) [0..<n]) = n - 1" using length_others [of "[0..<n]" k] assms(3) by simp
  have d: "fold (\<lambda>to. add_link (link_props_of env (node_link h k to))) (filter (\<lambda>to. to \<noteq> k) [0..<n]) ?d2 = node_device env h n k (g k)"
    unfolding fold_add_link others by (simp add: assms(6) node_device_def new_device_def zero_device_def zero_props_def upd_props_def)
  obtain t3 where t3: "parse_entries env (map (\<lambda>to. LINK (node_link h k to)) (filter (\<lambda>to. to \<noteq> k) [0..<n])) t2 = Inside (0, t3)"
      "topology_device_list t3 = topology_device_list t2" "device_list t3 = map (g(k := node_device env h n k (g k))) [0..<n]"
    using parse_node_links [OF t2(3) g2 assms(3,4), of h "filter (\<lambda>to. to \<noteq> k) [0..<n]"] unfolding fun_upd_upd fun_upd_same d by blast
  have "cu_flags (node_cu h k (of_nat k)) AND 1 \<noteq> 0" "mem_flags (node_mem h k (of_nat k)) AND 1 \<noteq> 0"
    by (simp_all add: node_cu_def node_mem_def)
  then show ?thesis using t1 t2 t3 by (simp add: node_entries_def hk(3))
qed

lemma parse_nodes:
  assumes "device_list t = map g [0..<n]" "in_domains n g" "k \<le> n" "always_allocates env" "plain_host h n" "\<forall>i. k \<le> i \<longrightarrow> g i = new_device h n i"
  shows "\<exists>t'. parse_entries env (host_entries h (of_nat k) [k..<n]) t = Inside (0, t') \<and> topology_device_list t' = topology_device_list t \<and>
    device_list t' = map (\<lambda>i. if k \<le> i then node_device env h n i (g i) else g i) [0..<n]"
  using assms(1-3,6)
proof (induction "n - k" arbitrary: k t g)
  case 0
  then show ?case by auto
next
  case (Suc m)
  have k: "k < n" using Suc.hyps(2) by simp
  have apic: "opu_numa_node_to_apic_id h k \<noteq> - 1" "n \<le> 1024" using assms(5) k by (auto simp: plain_host_def list_all_iff)
  let ?g = "g(k := node_device env h n k (g k))"
  obtain t1 where t1: "parse_entries env (node_entries h k (of_nat k)) t = Inside (0, t1)" "topology_device_list t1 = topology_device_list t"
      "device_list t1 = map ?g [0..<n]"
    using parse_node [OF Suc.prems(1,2) k assms(4,5)] Suc.prems(4) by auto
  have g: "in_domains n ?g" by (rule in_domains_upd [OF Suc.prems(2)]) (simp add: node_device_def)
  obtain t2 where t2: "parse_entries env (host_entries h (of_nat (Suc k)) [Suc k..<n]) t1 = Inside (0, t2)"
      "topology_device_list t2 = topology_device_list t1" "device_list t2 = map (\<lambda>i. if Suc k \<le> i then node_device env h n i (?g i) else ?g i) [0..<n]"
  proof -
    have "m = n - Suc k" "Suc k \<le> n" "\<forall>i. Suc k \<le> i \<longrightarrow> ?g i = new_device h n i" using Suc.hyps(2) Suc.prems(4) k by auto
    from Suc.hyps(1) [OF this(1) t1(3) g this(2,3)] that show ?thesis by blast
  qed
  have e: "host_entries h (of_nat k) [k..<n] = node_entries h k (of_nat k) @ host_entries h (of_nat (Suc k)) [Suc k..<n]"
    using apic k by (simp add: upt_conv_Cons ucast_of_nat_u16 add.commute)
  have "parse_entries env (host_entries h (of_nat k) [k..<n]) t = Inside (0, t2)"
    unfolding e using parse_entries_append [OF t1(1)] t2(1) by simp
  moreover have "device_list t2 = map (\<lambda>i. if k \<le> i then node_device env h n i (g i) else g i) [0..<n]"
    unfolding t2(3) by (rule map_cong) (auto simp: not_less_eq_eq dest: le_antisym)
  ultimately show ?case using t1(2) t2(2) by auto
qed

lemma create_devices_all:
  assumes "always_allocates env"
  shows "\<exists>t'. create_devices env n pd t = (True, t') \<and> topology_device_list t' = topology_device_list t \<and>
    device_list t' = device_list t @ map (\<lambda>i. zero_device\<lparr>proximity_domain := pd + of_nat i\<rparr>) [0..<n]"
proof (induction n arbitrary: pd t)
  case (Suc n)
  let ?t = "t\<lparr>t_allocs := Suc (t_allocs t), device_list := device_list t @ [zero_device\<lparr>proximity_domain := pd\<rparr>]\<rparr>"
  have "create_devices env (Suc n) pd t = create_devices env n (pd + 1) ?t"
    using assms by (simp add: opu_create_topology_device_def t_alloc_def always_allocates_def upd_last_snoc)
  moreover have "[0..<Suc n] = 0 # map Suc [0..<n]" by (simp only: upt_conv_Cons map_Suc_upt zero_less_Suc)
  ultimately show ?case using Suc.IH [of "pd + 1" ?t] by (simp add: comp_def add.assoc del: upt_Suc)
qed simp

lemma upd_last_map: "0 < n \<Longrightarrow> upd_last f (map g [0..<n]) = map (\<lambda>i. if Suc i = n then f (g i) else g i) [0..<n]"
  by (cases n) (auto simp: upd_last_def)

lemma plain_host_facts:
  assumes "plain_host h n"
  shows "usable_nodes h (online_nodes h) = [0..<n]" "header_ok (host_header h)" "length (table_bytes (host_table h)) = n * (80 + 64 * (n - 1))"
    "table_ok (host_header h) (host_table h)"
proof -
  have ns: "online_nodes h = [0..<n]" and n: "n \<le> 1024" using assms by (auto simp: plain_host_def)
  show u: "usable_nodes h (online_nodes h) = [0..<n]"
    unfolding usable_nodes_def ns by (rule filter_True) (use assms in \<open>auto simp: plain_host_def list_all_iff\<close>)
  show ok: "header_ok (host_header h)"
    using assms by (auto simp: plain_host_def header_ok_def host_header_def dsdt_header_def new_header_def split: option.splits)
  have "\<forall>nid\<in>set (online_nodes h). length (filter (\<lambda>to. to \<noteq> nid) (online_nodes h)) = n - 1" using length_others [of "online_nodes h"] ns by auto
  from length_host_entries [OF this, of 0] show l: "length (table_bytes (host_table h)) = n * (80 + 64 * (n - 1))"
    by (simp add: host_table_def u)
  have "n * (80 + 64 * (n - 1)) \<le> 1024 * (80 + 64 * 1024)" by (rule mult_le_mono) (use n in auto)
  then have "unat (of_nat (48 + n * (80 + 64 * (n - 1))) :: u32) = 48 + n * (80 + 64 * (n - 1))"
    by (simp only: unsigned_of_nat) (simp add: take_bit_nat_eq_self)
  then show "table_ok (host_header h) (host_table h)"
    using ok l entries_ok by (simp add: table_ok_def host_header_def) (simp add: host_table_def entries_ok)
qed

lemma vcrat_cpu_parsed:
  assumes "plain_host h n" "always_allocates env" "device_list t = []"
  shows "\<exists>img t'. opu_create_vcrat_image_cpu h (int (vcrat_cpu_size n)) = (0, img) \<and> length img = vcrat_cpu_size n \<and>
    opu_parse_crat_table env (Some img) 0 t = Some (Inside (0, t')) \<and> topology_device_list t' = topology_device_list t \<and>
    device_list t' = map (\<lambda>nid. node_device env h n nid (new_device h n nid)) [0..<n]"
proof -
  let ?img = "header_bytes (host_header h) @ table_bytes (host_table h)"
  have n: "online_nodes h = [0..<n]" "0 < n" "n \<le> 1024" using assms(1) by (auto simp: plain_host_def)
  note facts = plain_host_facts [OF assms(1)]
  have doms: "h_num_domains (host_header h) = of_nat n" "unat (of_nat n :: u16) = n" "(of_nat n :: u16) \<noteq> 0"
  proof -
    show u: "unat (of_nat n :: u16) = n" using n(3) by (simp add: unsigned_of_nat take_bit_nat_eq_self)
    show "(of_nat n :: u16) \<noteq> 0" using u n(2) by (metis unsigned_0 less_irrefl)
    show "h_num_domains (host_header h) = of_nat n" unfolding host_header_def facts(1) by simp
  qed
  have create: "opu_create_vcrat_image_cpu h (int (vcrat_cpu_size n)) = (0, ?img)"
    using opu_create_vcrat_image_cpu_bytes [of h] n(1) by simp
  have len: "length ?img = vcrat_cpu_size n"
    using length_header_bytes [OF facts(2)] facts(3) by (simp add: vcrat_cpu_size_def mult.commute)
  obtain t1 where t1: "create_devices env n 0 t = (True, t1)" "topology_device_list t1 = topology_device_list t"
      "device_list t1 = map (\<lambda>i. zero_device\<lparr>proximity_domain := of_nat i\<rparr>) [0..<n]"
    using create_devices_all [OF assms(2), of n 0 t] assms(3) by auto
  define t2 where "t2 = t1\<lparr>device_list := upd_last (\<lambda>d. d\<lparr>oem_id := h_oem_id (host_header h), oem_table_id := h_oem_table_id (host_header h),
      oem_revision := h_oem_revision (host_header h)\<rparr>) (device_list t1)\<rparr>"
  have t2: "device_list t2 = map (new_device h n) [0..<n]"
    unfolding t2_def t1(3) by (simp add: upd_last_map [OF n(2)] new_device_def host_header_def)
  have g: "in_domains n (new_device h n)" using n(3) by (simp add: in_domains_def new_device_def)
  obtain t3 where t3: "parse_entries env (host_table h) t2 = Inside (0, t3)" "topology_device_list t3 = topology_device_list t2"
      "device_list t3 = map (\<lambda>nid. node_device env h n nid (new_device h n nid)) [0..<n]"
    using parse_nodes [OF t2 g _ assms(2,1), of 0] n(1) by (auto simp: host_table_def)
  have "opu_parse_crat_table env (Some ?img) 0 t = Some (Inside (0, t3))"
    unfolding opu_parse_crat_table_bytes [OF facts(4) assms(3)] parse_table_def
    by (simp add: doms t1(1) t2_def [symmetric] t3(1))
  moreover have "topology_device_list t3 = topology_device_list t" using t1(2) t3(2) by (simp add: t2_def)
  ultimately show ?thesis using create len t3(3) by blast
qed


definition two_node_host :: host where
  "two_node_host = \<lparr>online_nodes = [0, 1], cpumask_of_node = (\<lambda>nid. if nid < 2 then Some [4 * nid, 4 * nid + 1, 4 * nid + 2] else None), nr_cpu_ids = 7,
     apicid = of_nat, zone_pages = (\<lambda>_. [0x1000, 0x80000]), vendor_amd = True, dsdt = Some (2, [1, 2, 3, 4, 5, 6], [1, 2, 3, 4, 5, 6, 7, 8])\<rparr>"


end
