(* ===== verification/Opu_Vcrat_Gpu.thy ===== *)
theory Opu_Vcrat_Gpu
  imports Opu_Vcrat_Cpu
begin

text \<open>
  The virtual table of a GPU (\<open>opu_crat.c\<close>): its compute units, memory, caches and links, and the entry point that allocates and
  creates a virtual table. The units, the local memory and the links of the GPU come from the graphics driver: they are a record
  here. Reading \<open>cu_bitmap\<close> or writing the sibling map outside their bounds, a shift by 32 or more and a \<open>NULL\<close> are a \<open>Fault\<close>.
\<close>

section \<open>The GPU\<close>

record opu_cu_info =
  num_shader_engines :: u32
  num_shader_arrays_per_engine :: u32
  num_cu_per_sh :: u32
  cu_active_number :: u32
  ci_simd_per_cu :: u32
  ci_max_waves_per_simd :: u32
  ci_wave_front_size :: u32
  max_scratch_slots_per_cu :: u32
  lds_size :: u32
  cu_bitmap :: "u32 list list"

record gpu =
  gpu_family :: asic_family
  gpu_cu_info :: opu_cu_info
  local_mem_size_public :: u64
  local_mem_size_private :: u64
  vram_width :: u32
  use_iommu_v2 :: bool
  amd_iommu_err :: int
  ats_sup :: bool
  pri_sup :: bool
  pasid_sup :: bool
  debug_largebar :: bool
  connected_to_cpu :: bool
  numa_node :: "u32 option"
  hive_id :: u64
  hive_id_of :: "nat \<Rightarrow> u64"
  xgmi_hops :: "nat \<Rightarrow> u8"

definition opu_dev_is_large_bar :: "gpu \<Rightarrow> bool" where
  "opu_dev_is_large_bar g \<longleftrightarrow>
     (if debug_largebar g then True else if use_iommu_v2 g then False else local_mem_size_private g = 0 \<and> 0 < local_mem_size_public g)"

definition opu_iommu_check_device :: "gpu \<Rightarrow> int" where
  "opu_iommu_check_device g =
     (if \<not> use_iommu_v2 g then - ENODEV
      else if amd_iommu_err g \<noteq> 0 then amd_iommu_err g
      else if \<not> (ats_sup g \<and> pri_sup g \<and> pasid_sup g) then - ENODEV else 0)"

definition get_and_inc_gpu_processor_id :: "u32 \<Rightarrow> u32 \<Rightarrow> u32 \<times> u32" where
  "get_and_inc_gpu_processor_id total_cu_count gpu_processor_id_low = (gpu_processor_id_low, gpu_processor_id_low + total_cu_count)"

section \<open>Caches\<close>

definition ffs :: "u32 \<Rightarrow> nat" where
  "ffs w = (case List.find (bit w) [0..<32] of None \<Rightarrow> 0 | Some i \<Rightarrow> Suc i)"

definition cu_bitmap_at :: "opu_cu_info \<Rightarrow> nat \<Rightarrow> nat \<Rightarrow> u32 access" where
  "cu_bitmap_at ci i j =
     (let row = i mod 4; col = j + i div 4
      in if row < length (cu_bitmap ci) \<and> col < length (cu_bitmap ci ! row) then Inside (cu_bitmap ci ! row ! col) else Fault)"

definition shared_mask :: "opu_gpu_cache_info \<Rightarrow> u32" where
  "shared_mask info = push_bit (unat (num_cu_shared info)) 1 - 1"

definition gpu_cache :: "opu_gpu_cache_info \<Rightarrow> u32 \<Rightarrow> nat \<Rightarrow> crat_subtype_cache" where
  "gpu_cache info cu_processor_id first_active_cu = zero_cache\<lparr>cache_flags := g_flags info,
     cache_processor_id_low := cu_processor_id + of_nat (first_active_cu - 1), c_cache_level := ucast (g_cache_level info),
     c_cache_size := g_cache_size info\<rparr>"

definition no_room :: "int \<Rightarrow> bool" where
  "no_room mem_available \<longleftrightarrow> (word_of_int mem_available :: u64) < of_nat sizeof_cache"

definition fill_in_l1_pcache :: "opu_gpu_cache_info \<Rightarrow> int \<Rightarrow> u32 \<Rightarrow> u32 \<Rightarrow> nat \<Rightarrow> (int \<times> crat_subtype_cache option) access" where
  "fill_in_l1_pcache info mem_available cu_bitmask cu_processor_id cu_block =
     (if no_room mem_available then Inside (- ENOMEM, None)
      else if 32 \<le> cu_block then Fault
      else
        let msk = drop_bit cu_block cu_bitmask AND shared_mask info; first_active_cu = ffs msk
        in if first_active_cu \<noteq> 0
           then Inside (0, Some ((gpu_cache info cu_processor_id first_active_cu)\<lparr>cache_sibling_map := le_bytes 4 (drop_bit (first_active_cu - 1) msk) @ zeros 28\<rparr>))
           else Inside (1, None))"

text \<open>The masks that the loop over the shader arrays writes: each array gets the mask that the array before it left.\<close>

fun sibling_masks :: "opu_cu_info \<Rightarrow> opu_gpu_cache_info \<Rightarrow> (nat \<times> nat) list \<Rightarrow> u32 \<Rightarrow> u32 list access" where
  "sibling_masks ci info [] msk = Inside []"
| "sibling_masks ci info ((i, j) # arrays) msk =
     (case cu_bitmap_at ci i j of
        Fault \<Rightarrow> Fault
      | Inside bm \<Rightarrow> (case sibling_masks ci info arrays (bm AND shared_mask info) of Fault \<Rightarrow> Fault | Inside ms \<Rightarrow> Inside (msk # ms)))"

definition shader_arrays :: "opu_cu_info \<Rightarrow> (nat \<times> nat) list" where
  "shader_arrays ci = List.product [0..<unat (num_shader_engines ci)] [0..<unat (num_shader_arrays_per_engine ci)]"

definition fill_in_l2_l3_pcache :: "opu_gpu_cache_info \<Rightarrow> opu_cu_info \<Rightarrow> int \<Rightarrow> u32 \<Rightarrow> (int \<times> crat_subtype_cache option) access" where
  "fill_in_l2_l3_pcache info ci mem_available cu_processor_id =
     (if no_room mem_available then Inside (- ENOMEM, None)
      else case cu_bitmap_at ci 0 0 of
        Fault \<Rightarrow> Fault
      | Inside bm \<Rightarrow>
          let msk = bm AND shared_mask info; first_active_cu = ffs msk
          in if first_active_cu = 0 then Inside (1, None)
             else case sibling_masks ci info (shader_arrays ci) (drop_bit (first_active_cu - 1) msk) of
                    Fault \<Rightarrow> Fault
                  | Inside ms \<Rightarrow>
                      if 32 < 4 * length ms then Fault
                      else Inside (0, Some ((gpu_cache info cu_processor_id first_active_cu)\<lparr>cache_sibling_map := concat (map (le_bytes 4) ms) @ zeros (32 - 4 * length ms)\<rparr>)))"

text \<open>The entries written, the size left, the two results and the processor id of the next block.\<close>

record cfill =
  c_entries :: "crat_subtype_cache list"
  c_avail :: int
  c_filled :: int
  c_count :: int
  c_id :: u32

definition put_cache :: "crat_subtype_cache option \<Rightarrow> cfill \<Rightarrow> cfill" where
  "put_cache c st =
     (case c of
        None \<Rightarrow> st
      | Some c \<Rightarrow> st\<lparr>c_entries := c_entries st @ [c], c_count := c_count st + 1, c_avail := c_avail st - int sizeof_cache, c_filled := c_filled st + int sizeof_cache\<rparr>)"

text \<open>The blocks of one array; an error ends only this loop.\<close>

fun fill_blocks :: "opu_cu_info \<Rightarrow> opu_gpu_cache_info \<Rightarrow> u32 \<Rightarrow> nat list \<Rightarrow> cfill \<Rightarrow> cfill access" where
  "fill_blocks ci info bm [] st = Inside st"
| "fill_blocks ci info bm (k # ks) st =
     (case fill_in_l1_pcache info (c_avail st) bm (c_id st) k of
        Fault \<Rightarrow> Fault
      | Inside (r, c) \<Rightarrow>
          if r < 0 then Inside st
          else
            let st1 = put_cache c st; n = unat (num_cu_per_sh ci); s = unat (num_cu_shared info)
            in fill_blocks ci info bm ks (st1\<lparr>c_id := c_id st1 + of_nat (if k + s \<le> n then s else n - k)\<rparr>))"

definition cu_blocks :: "opu_cu_info \<Rightarrow> opu_gpu_cache_info \<Rightarrow> nat list" where
  "cu_blocks ci info = filter (\<lambda>k. unat (num_cu_shared info) dvd k) [0..<unat (num_cu_per_sh ci)]"

fun fill_arrays :: "opu_cu_info \<Rightarrow> opu_gpu_cache_info \<Rightarrow> (nat \<times> nat) list \<Rightarrow> cfill \<Rightarrow> cfill access" where
  "fill_arrays ci info [] st = Inside st"
| "fill_arrays ci info ((i, j) # arrays) st =
     (if cu_blocks ci info = [] then fill_arrays ci info arrays st
      else case cu_bitmap_at ci i j of
        Fault \<Rightarrow> Fault
      | Inside bm \<Rightarrow> (case fill_blocks ci info bm (cu_blocks ci info) st of Fault \<Rightarrow> Fault | Inside st1 \<Rightarrow> fill_arrays ci info arrays st1))"

fun fill_caches :: "opu_cu_info \<Rightarrow> u32 \<Rightarrow> opu_gpu_cache_info list \<Rightarrow> cfill \<Rightarrow> cfill access" where
  "fill_caches ci gpu_processor_id [] st = Inside st"
| "fill_caches ci gpu_processor_id (info # infos) st =
     (let st0 = st\<lparr>c_id := gpu_processor_id\<rparr>
      in if g_cache_level info = 1
         then case fill_arrays ci info (shader_arrays ci) st0 of Fault \<Rightarrow> Fault | Inside st1 \<Rightarrow> fill_caches ci gpu_processor_id infos st1
         else case fill_in_l2_l3_pcache info ci (c_avail st0) (c_id st0) of
                Fault \<Rightarrow> Fault
              | Inside (r, c) \<Rightarrow> if r < 0 then Inside st0 else fill_caches ci gpu_processor_id infos (put_cache c st0))"

definition opu_fill_gpu_cache_info :: "asic_family \<Rightarrow> u32 \<Rightarrow> int \<Rightarrow> opu_cu_info \<Rightarrow> (int \<times> cfill) access" where
  "opu_fill_gpu_cache_info family gpu_processor_id available_size ci =
     (let st = \<lparr>c_entries = [], c_avail = available_size, c_filled = 0, c_count = 0, c_id = gpu_processor_id\<rparr>
      in case cache_table family of
           None \<Rightarrow> Inside (- EINVAL, st)
         | Some infos \<Rightarrow> (case fill_caches ci gpu_processor_id infos st of Fault \<Rightarrow> Fault | Inside st1 \<Rightarrow> Inside (0, st1)))"

section \<open>Memory and links\<close>

definition opu_fill_gpu_memory_affinity :: "gpu \<Rightarrow> u8 \<Rightarrow> u64 \<Rightarrow> u32 \<Rightarrow> vcrat \<Rightarrow> int \<times> vcrat" where
  "opu_fill_gpu_memory_affinity g ty bytes pd v =
     (let v1 = v\<lparr>avail := avail v - int sizeof_memory\<rparr>
      in if avail v1 < 0 then (- ENOMEM, v1)
         else (0, v1\<lparr>body := body v1 @ mem_bytes_of (zero_mem\<lparr>mem_flags := 1, mem_proximity_domain := pd, length_low := ucast bytes,
                 length_high := ucast (drop_bit 32 bytes), mem_width := vram_width g, visibility_type := ty\<rparr>)\<rparr>))"

definition opu_fill_gpu_direct_io_link_to_cpu :: "gpu \<Rightarrow> u32 \<Rightarrow> vcrat \<Rightarrow> int \<times> vcrat" where
  "opu_fill_gpu_direct_io_link_to_cpu g pd v =
     (let v1 = v\<lparr>avail := avail v - int sizeof_iolink\<rparr>;
          fl = (if opu_dev_is_large_bar g \<or> connected_to_cpu g then 1 OR CRAT_IOLINK_FLAGS_BI_DIRECTIONAL else 1)
      in if avail v1 < 0 then (- ENOMEM, v1)
         else (0, v1\<lparr>body := body v1 @ iolink_bytes (zero_iolink\<lparr>link_flags := fl,
                 io_interface_type := (if connected_to_cpu g then CRAT_IOLINK_TYPE_XGMI else CRAT_IOLINK_TYPE_PCIEXPRESS),
                 num_hops_xgmi := (if connected_to_cpu g then 1 else 0), proximity_domain_from := pd,
                 proximity_domain_to := (case numa_node g of None \<Rightarrow> 0 | Some n \<Rightarrow> n)\<rparr>)\<rparr>))"

definition opu_fill_gpu_xgmi_link_to_gpu :: "gpu \<Rightarrow> nat \<Rightarrow> u32 \<Rightarrow> u32 \<Rightarrow> vcrat \<Rightarrow> int \<times> vcrat" where
  "opu_fill_gpu_xgmi_link_to_gpu g peer from to v =
     (let v1 = v\<lparr>avail := avail v - int sizeof_iolink\<rparr>
      in if avail v1 < 0 then (- ENOMEM, v1)
         else (0, v1\<lparr>body := body v1 @ iolink_bytes (zero_iolink\<lparr>link_flags := 1 OR CRAT_IOLINK_FLAGS_BI_DIRECTIONAL,
                 io_interface_type := CRAT_IOLINK_TYPE_XGMI, proximity_domain_from := from, proximity_domain_to := to,
                 num_hops_xgmi := xgmi_hops g peer\<rparr>)\<rparr>))"

fun fill_peers :: "gpu \<Rightarrow> topology \<Rightarrow> u32 \<Rightarrow> nat list \<Rightarrow> vcrat \<Rightarrow> (int \<times> vcrat) access" where
  "fill_peers g t pd [] v = Inside (0, v)"
| "fill_peers g t pd (nid # nids) v =
     (case opu_topology_device_by_proximity_domain (of_nat nid) t of
        None \<Rightarrow> Fault
      | Some d \<Rightarrow>
          (case tgpu d of
             None \<Rightarrow> fill_peers g t pd nids v
           | Some peer \<Rightarrow>
               if hive_id_of g peer \<noteq> hive_id g then fill_peers g t pd nids v
               else case opu_fill_gpu_xgmi_link_to_gpu g peer pd (of_nat nid) v of (r, v1) \<Rightarrow>
                      if r < 0 then Inside (r, v1) else fill_peers g t pd nids (count_entries sizeof_iolink 1 v1)))"

section \<open>The table of a GPU\<close>

abbreviation VCRAT_SIZE_FOR_GPU :: int where "VCRAT_SIZE_FOR_GPU \<equiv> 16384"

definition gpu_cu :: "gpu \<Rightarrow> u32 \<Rightarrow> u32 \<Rightarrow> crat_subtype_computeunit" where
  "gpu_cu g pd cuid =
     (let ci = gpu_cu_info g
      in zero_cu\<lparr>cu_flags := 1 OR 8, cu_proximity_domain := pd, num_simd_per_cu := ucast (ci_simd_per_cu ci),
           num_simd_cores := ucast (ci_simd_per_cu ci * cu_active_number ci), max_waves_simd := ucast (ci_max_waves_per_simd ci),
           cu_wave_front_size := ucast (ci_wave_front_size ci),
           cu_array_count := ucast (num_shader_arrays_per_engine ci * num_shader_engines ci), cu_processor_id_low := cuid,
           num_cu_per_array := ucast (num_cu_per_sh ci), max_slots_scatch_cu := ucast (max_scratch_slots_per_cu ci),
           num_banks := ucast (num_shader_engines ci), cu_lds_size_in_kb := ucast (lds_size ci),
           hsa_capability := (if opu_iommu_check_device g = 0 then 0x10 else 0)\<rparr>)"

definition gpu_total_cu :: "gpu \<Rightarrow> u32" where
  "gpu_total_cu g = ucast (ucast (num_shader_arrays_per_engine (gpu_cu_info g) * num_shader_engines (gpu_cu_info g)) :: u8) * num_cu_per_sh (gpu_cu_info g)"

definition fill_gpu_rest :: "gpu \<Rightarrow> topology \<Rightarrow> u32 \<Rightarrow> u32 \<Rightarrow> vcrat \<Rightarrow> (int \<times> u8 list) access" where
  "fill_gpu_rest g t pd cuid v =
     (let priv = (if debug_largebar g then 0 else local_mem_size_private g)
      in case (if priv = 0 then opu_fill_gpu_memory_affinity g 1 (local_mem_size_public g) pd v
               else opu_fill_gpu_memory_affinity g 2 (local_mem_size_public g + priv) pd v) of (r, v1) \<Rightarrow>
         if r < 0 then Inside (r, [])
         else let v2 = count_entries sizeof_memory 1 v1
              in case opu_fill_gpu_cache_info (gpu_family g) cuid (avail v2) (gpu_cu_info g) of
                   Fault \<Rightarrow> Fault
                 | Inside (r, c) \<Rightarrow>
                     if r < 0 then Inside (r, [])
                     else let hd = v_header v2;
                              v3 = v2\<lparr>avail := avail v2 - c_filled c, body := body v2 @ concat (map cache_bytes (c_entries c)),
                                v_header := hd\<lparr>h_length := h_length hd + word_of_int (c_filled c), h_total_entries := h_total_entries hd + word_of_int (c_count c)\<rparr>\<rparr>
                          in case opu_fill_gpu_direct_io_link_to_cpu g pd v3 of (r, v4) \<Rightarrow>
                               if r < 0 then Inside (r, [])
                               else let v5 = count_entries sizeof_iolink 1 v4
                                    in case (if hive_id g \<noteq> 0 then fill_peers g t pd [0..<unat pd] v5 else Inside (0, v5)) of
                                         Fault \<Rightarrow> Fault
                                       | Inside (r, v6) \<Rightarrow> if r < 0 then Inside (r, []) else Inside (r, header_bytes (v_header v6) @ body v6))"

text \<open>The result has the code with the image and the next processor id, which changes also when a later part fails.\<close>

definition opu_create_vcrat_image_gpu :: "gpu \<Rightarrow> topology \<Rightarrow> int \<Rightarrow> u32 \<Rightarrow> u32 \<Rightarrow> (int \<times> u8 list) access \<times> u32" where
  "opu_create_vcrat_image_gpu g t sz pd gpu_processor_id_low =
     (if sz < VCRAT_SIZE_FOR_GPU then (Inside (- EINVAL, []), gpu_processor_id_low)
      else if sz - int sizeof_header < 0 then (Inside (- ENOMEM, []), gpu_processor_id_low)
      else if sz - int sizeof_header - int sizeof_computeunit < 0 then (Inside (- ENOMEM, []), gpu_processor_id_low)
      else case get_and_inc_gpu_processor_id (gpu_total_cu g) gpu_processor_id_low of (cuid, next) \<Rightarrow>
        (let v = \<lparr>avail = sz - int sizeof_header - int sizeof_computeunit, v_header = new_header\<lparr>h_num_domains := 1\<rparr>, body = cu_bytes (gpu_cu g pd cuid)\<rparr>
         in (fill_gpu_rest g t pd cuid (count_entries sizeof_computeunit 1 v), next)))"

section \<open>Creating a virtual table\<close>

text \<open>The image, and the next processor id. The first argument tells whether the buffer can be allocated.\<close>

definition opu_create_crat_image_virtual ::
  "bool \<Rightarrow> host \<Rightarrow> topology \<Rightarrow> nat \<Rightarrow> gpu option \<Rightarrow> u32 \<Rightarrow> u32 \<Rightarrow> (int \<times> u8 list option) access \<times> u32" where
  "opu_create_crat_image_virtual alloc_ok h t flags kdev pd ids =
     (let result = (\<lambda>a. case a of Fault \<Rightarrow> Fault | Inside (r, img) \<Rightarrow> Inside (r, if r = 0 then Some img else None))
      in if flags = 1 then
           (if \<not> alloc_ok then Inside (- ENOMEM, None)
            else result (Inside (opu_create_vcrat_image_cpu h (int (vcrat_cpu_size (length (online_nodes h)))))), ids)
         else if flags = 2 then
           (case kdev of
              None \<Rightarrow> (Inside (- EINVAL, None), ids)
            | Some g \<Rightarrow>
                if \<not> alloc_ok then (Inside (- ENOMEM, None), ids)
                else case opu_create_vcrat_image_gpu g t VCRAT_SIZE_FOR_GPU pd ids of (a, ids') \<Rightarrow> (result a, ids'))
         else (Inside (- EINVAL, None), ids))"

end
