(* ===== verification/Opu_Vcrat_Props.thy ===== *)
theory Opu_Vcrat_Props
  imports Opu_Vcrat_Gpu
begin

text \<open>
  The table of a GPU fits in its buffer and is well formed, whatever the GPU: the size that is left never becomes negative without
  the function failing, and the length in the header counts exactly the bytes of the entries.
\<close>

section \<open>Caches\<close>

text \<open>The entries written so far: they take the size that is gone, and the two results count them.\<close>

definition cfill_ok :: "int \<Rightarrow> cfill \<Rightarrow> bool" where
  "cfill_ok room st \<longleftrightarrow> 0 \<le> c_avail st \<and> c_avail st = room - 64 * int (length (c_entries st)) \<and> c_filled st = 64 * int (length (c_entries st)) \<and>
     c_count st = int (length (c_entries st)) \<and> list_all (\<lambda>c. length (cache_sibling_map c) = 32) (c_entries st)"

lemma no_room_iff: "0 \<le> a \<Longrightarrow> a < 0x80000000 \<Longrightarrow> no_room a \<longleftrightarrow> a < 64"
  unfolding no_room_def by (simp add: word_less_def uint_word_of_int take_bit_int_eq_self)

definition cache_fits :: "int \<Rightarrow> crat_subtype_cache option \<Rightarrow> bool" where
  "cache_fits a c \<longleftrightarrow> (\<forall>x. c = Some x \<longrightarrow> \<not> no_room a \<and> length (cache_sibling_map x) = 32)"

lemma fill_in_l1_pcache_fits: "fill_in_l1_pcache info a bm i k = Inside (r, c) \<Longrightarrow> cache_fits a c"
  by (auto simp: fill_in_l1_pcache_def Let_def cache_fits_def split: if_splits)

lemma length_masks: "length (concat (map (le_bytes 4) (ms :: u32 list))) = 4 * length ms"
  by (induction ms) auto

lemma fill_in_l2_l3_pcache_fits: "fill_in_l2_l3_pcache info ci a i = Inside (r, c) \<Longrightarrow> cache_fits a c"
  by (auto simp: fill_in_l2_l3_pcache_def Let_def cache_fits_def length_masks split: if_splits access.splits)

lemma put_cache_ok:
  assumes "cfill_ok room st" "cache_fits (c_avail st) c" "room < 0x80000000"
  shows "cfill_ok room (put_cache c st)"
proof (cases c)
  case (Some x)
  have "64 \<le> c_avail st" using no_room_iff [of "c_avail st"] assms Some by (auto simp: cfill_ok_def cache_fits_def)
  then show ?thesis using assms Some by (simp add: cfill_ok_def put_cache_def cache_fits_def)
qed (use assms in \<open>simp add: put_cache_def\<close>)

lemma cfill_ok_id [simp]: "cfill_ok room (st\<lparr>c_id := i\<rparr>) = cfill_ok room st"
  by (simp add: cfill_ok_def)

lemma fill_blocks_ok: "fill_blocks ci info bm ks st = Inside st' \<Longrightarrow> cfill_ok room st \<Longrightarrow> room < 0x80000000 \<Longrightarrow> cfill_ok room st'"
  by (induction ks arbitrary: st) (auto simp: Let_def put_cache_ok dest: fill_in_l1_pcache_fits split: access.splits if_splits)

lemma fill_arrays_ok: "fill_arrays ci info as st = Inside st' \<Longrightarrow> cfill_ok room st \<Longrightarrow> room < 0x80000000 \<Longrightarrow> cfill_ok room st'"
  by (induction as arbitrary: st rule: list.induct) (auto split: access.splits if_splits, blast intro: fill_blocks_ok)

lemma fill_caches_ok: "fill_caches ci i infos st = Inside st' \<Longrightarrow> cfill_ok room st \<Longrightarrow> room < 0x80000000 \<Longrightarrow> cfill_ok room st'"
proof (induction infos arbitrary: st)
  case (Cons info infos)
  show ?case
  proof (cases "g_cache_level info = 1")
    case True
    then show ?thesis using Cons by (auto split: access.splits dest: fill_arrays_ok)
  next
    case False
    have put: "cfill_ok room (put_cache c (st\<lparr>c_id := i\<rparr>))" if "fill_in_l2_l3_pcache info ci (c_avail st) i = Inside (r, c)" for r c
      by (rule put_cache_ok) (use Cons.prems fill_in_l2_l3_pcache_fits [OF that] in simp_all)
    show ?thesis using Cons.prems Cons.IH [OF _ put] False
      by (auto simp: Let_def split: access.splits if_splits)
  qed
qed simp

lemma opu_fill_gpu_cache_info_ok:
  assumes "opu_fill_gpu_cache_info family i room ci = Inside (r, st)" "0 \<le> room" "room < 0x80000000"
  shows "cfill_ok room st"
proof -
  let ?st = "\<lparr>c_entries = [], c_avail = room, c_filled = 0, c_count = 0, c_id = i\<rparr>"
  have "cfill_ok room ?st" using assms(2) by (simp add: cfill_ok_def)
  then show ?thesis using assms(1,3)
    by (auto simp: opu_fill_gpu_cache_info_def Let_def intro: fill_caches_ok split: option.splits access.splits)
qed

section \<open>The table\<close>

text \<open>A table under construction that has the given entries, in a buffer of the given size.\<close>

definition vcrat_ok :: "int \<Rightarrow> entry list \<Rightarrow> vcrat \<Rightarrow> bool" where
  "vcrat_ok sz es v \<longleftrightarrow> body v = table_bytes es \<and> list_all entry_ok es \<and> 0 \<le> avail v \<and> avail v = sz - 48 - int (length (table_bytes es)) \<and>
     v_header v = new_header\<lparr>h_length := of_nat (48 + length (table_bytes es)), h_total_entries := of_nat (length es), h_num_domains := 1\<rparr>"

lemma add_entries:
  assumes "vcrat_ok sz es v" "list_all entry_ok fs" "int (length (table_bytes fs)) \<le> avail v"
  shows "vcrat_ok sz (es @ fs) (v\<lparr>avail := avail v - int (length (table_bytes fs)), body := body v @ table_bytes fs,
    v_header := (v_header v)\<lparr>h_length := h_length (v_header v) + of_nat (length (table_bytes fs)),
      h_total_entries := h_total_entries (v_header v) + of_nat (length fs)\<rparr>\<rparr>)"
  using assms by (simp add: vcrat_ok_def add.assoc)

lemma add_entry:
  assumes "vcrat_ok sz es v" "entry_ok e" "n = length (entry_bytes e)" "0 \<le> avail v - int n"
  shows "vcrat_ok sz (es @ [e]) (count_entries n 1 (v\<lparr>avail := avail v - int n, body := body v @ entry_bytes e\<rparr>))"
  using add_entries [OF assms(1), of "[e]"] assms(2-4) by (simp add: count_entries_def)

lemma opu_fill_gpu_memory_affinity_ok:
  "opu_fill_gpu_memory_affinity g ty n pd v = (r, v') \<Longrightarrow> vcrat_ok sz es v \<Longrightarrow> \<not> r < 0 \<Longrightarrow> \<exists>es'. vcrat_ok sz es' (count_entries 40 (Suc 0) v')"
  using add_entry [of sz es v "MEM m" 40 for m]
  by (auto simp: opu_fill_gpu_memory_affinity_def Let_def split: if_splits)

lemma opu_fill_gpu_direct_io_link_to_cpu_ok:
  "opu_fill_gpu_direct_io_link_to_cpu g pd v = (r, v') \<Longrightarrow> vcrat_ok sz es v \<Longrightarrow> \<not> r < 0 \<Longrightarrow> \<exists>es'. vcrat_ok sz es' (count_entries 64 (Suc 0) v')"
  using add_entry [of sz es v "LINK l" 64 for l]
  by (auto simp: opu_fill_gpu_direct_io_link_to_cpu_def Let_def split: if_splits)

lemma opu_fill_gpu_xgmi_link_to_gpu_ok:
  "opu_fill_gpu_xgmi_link_to_gpu g peer pd to v = (r, v') \<Longrightarrow> vcrat_ok sz es v \<Longrightarrow> \<not> r < 0 \<Longrightarrow> \<exists>es'. vcrat_ok sz es' (count_entries 64 (Suc 0) v')"
  using add_entry [of sz es v "LINK l" 64 for l]
  by (auto simp: opu_fill_gpu_xgmi_link_to_gpu_def Let_def split: if_splits)

lemma fill_peers_ok:
  "fill_peers g t pd nids v = Inside (r, v') \<Longrightarrow> vcrat_ok sz es v \<Longrightarrow> \<not> r < 0 \<Longrightarrow> r = 0 \<and> (\<exists>es'. vcrat_ok sz es' v')"
proof (induction nids arbitrary: v es)
  case (Cons nid nids)
  show ?case using Cons.prems
    by (auto split: option.splits if_splits prod.splits dest: Cons.IH dest!: opu_fill_gpu_xgmi_link_to_gpu_ok)
qed auto


lemma concat_caches: "concat (map cache_bytes cs) = table_bytes (map CACHE cs)"
  by (induction cs) simp_all

lemma length_caches: "list_all (\<lambda>c. length (cache_sibling_map c) = 32) cs \<Longrightarrow> length (table_bytes (map CACHE cs)) = 64 * length cs"
  by (induction cs) simp_all

lemma fill_gpu_rest_ok:
  assumes "fill_gpu_rest g t pd cuid v = Inside (r, img)" "vcrat_ok sz es v" "\<not> r < 0" "sz < 0x80000000"
  shows "r = 0 \<and> (\<exists>es' v'. vcrat_ok sz es' v' \<and> img = header_bytes (v_header v') @ body v')"
proof -
  define priv where "priv = (if debug_largebar g then 0 else local_mem_size_private g)"
  obtain r1 v1 where m: "(if priv = 0 then opu_fill_gpu_memory_affinity g 1 (local_mem_size_public g) pd v
      else opu_fill_gpu_memory_affinity g 2 (local_mem_size_public g + priv) pd v) = (r1, v1)" by fastforce
  define v2 where "v2 = count_entries 40 (Suc 0) v1"
  have r1: "\<not> r1 < 0" using assms(1,3) m by (auto simp: fill_gpu_rest_def priv_def [symmetric])
  obtain es2 where es2: "vcrat_ok sz es2 v2"
    using m assms(2) r1 by (auto simp: v2_def dest: opu_fill_gpu_memory_affinity_ok split: if_splits)
  obtain r2 c where c: "opu_fill_gpu_cache_info (gpu_family g) cuid (avail v2) (gpu_cu_info g) = Inside (r2, c)" and r2: "\<not> r2 < 0"
    using assms(1,3) m r1 by (auto simp: fill_gpu_rest_def priv_def [symmetric] v2_def Let_def split: access.splits if_splits)
  have room: "0 \<le> avail v2" "avail v2 < 0x80000000" using es2 assms(4) by (simp_all add: vcrat_ok_def)
  note cok = opu_fill_gpu_cache_info_ok [OF c room, unfolded cfill_ok_def]
  define v3 where "v3 = v2\<lparr>avail := avail v2 - c_filled c, body := body v2 @ concat (map cache_bytes (c_entries c)),
      v_header := (v_header v2)\<lparr>h_length := h_length (v_header v2) + word_of_int (c_filled c), h_total_entries := h_total_entries (v_header v2) + word_of_int (c_count c)\<rparr>\<rparr>"
  have "vcrat_ok sz (es2 @ map CACHE (c_entries c)) v3"
    using add_entries [OF es2, of "map CACHE (c_entries c)"] cok length_caches [of "c_entries c"]
    by (simp add: v3_def concat_caches list.pred_map comp_def)
  then obtain es3 where es3: "vcrat_ok sz es3 v3" by blast
  obtain r4 v4 where l: "opu_fill_gpu_direct_io_link_to_cpu g pd v3 = (r4, v4)" by fastforce
  have rest: "(if r4 < 0 then Inside (r4, [])
      else case (if hive_id g \<noteq> 0 then fill_peers g t pd [0..<unat pd] (count_entries 64 (Suc 0) v4) else Inside (0, count_entries 64 (Suc 0) v4)) of
             Fault \<Rightarrow> Fault
           | Inside (r, v6) \<Rightarrow> if r < 0 then Inside (r, []) else Inside (r, header_bytes (v_header v6) @ body v6)) = Inside (r, img)"
    using assms(1) m r1 c r2 l
    by (cases "r4 < 0"; cases "hive_id g = 0") (simp_all add: fill_gpu_rest_def priv_def [symmetric] v2_def [symmetric] v3_def [symmetric] Let_def)
  then have r4: "\<not> r4 < 0" using assms(3) by auto
  obtain es4 where es4: "vcrat_ok sz es4 (count_entries 64 (Suc 0) v4)"
    using opu_fill_gpu_direct_io_link_to_cpu_ok [OF l es3 r4] by blast
  have peers: "r = 0 \<and> (\<exists>es'. vcrat_ok sz es' b)" if "fill_peers g t pd [0..<unat pd] (count_entries 64 (Suc 0) v4) = Inside (r, b)" for b
    by (rule fill_peers_ok [OF that es4 assms(3)])
  show ?thesis using rest r4 es4 assms(3) by (auto split: if_splits access.splits dest!: peers) blast+
qed

lemma vcrat_ok_table:
  assumes "vcrat_ok sz es v" "sz < 0x80000000"
  shows "table_ok (v_header v) es" "length (header_bytes (v_header v) @ body v) \<le> nat sz" "h_num_domains (v_header v) = 1"
proof -
  have n: "48 + length (table_bytes es) < 0x80000000" "48 + length (table_bytes es) \<le> nat sz" using assms by (auto simp: vcrat_ok_def)
  have h: "header_ok (v_header v)" using assms(1) by (simp add: vcrat_ok_def header_ok_def new_header_def)
  have "unat (of_nat (48 + length (table_bytes es)) :: u32) = 48 + length (table_bytes es)"
    using n(1) by (simp only: unsigned_of_nat) (simp add: take_bit_nat_eq_self)
  then show "table_ok (v_header v) es" using assms(1) h by (simp add: table_ok_def vcrat_ok_def)
  show "length (header_bytes (v_header v) @ body v) \<le> nat sz"
    using length_header_bytes [OF h] n(2) assms(1) by (simp add: vcrat_ok_def)
  show "h_num_domains (v_header v) = 1" using assms(1) by (simp add: vcrat_ok_def)
qed

lemma vcrat_gpu_table:
  assumes "opu_create_crat_image_virtual ok h t 2 (Some g) pd ids = (Inside (r, Some img), ids')" "device_list s = []"
  shows "r = 0 \<and> length img \<le> 4 * 4096 \<and> (\<exists>hd es. img = header_bytes hd @ table_bytes es \<and> table_ok hd es \<and> h_num_domains hd = 1 \<and>
    opu_parse_crat_table env (Some img) pd s = Some (parse_table env hd es pd s))"
proof -
  obtain a where a: "opu_create_vcrat_image_gpu g t VCRAT_SIZE_FOR_GPU pd ids = (a, ids')"
    and r: "a = Inside (r, img)" "r = 0"
    using assms(1)
    by (auto simp: opu_create_crat_image_virtual_def Let_def split: if_splits prod.splits access.splits)
  obtain v0 cuid where v0: "fill_gpu_rest g t pd cuid (count_entries 40 (Suc 0) v0) = Inside (r, img)"
    and v0_def: "v0 = \<lparr>avail = 16296, v_header = new_header\<lparr>h_num_domains := 1\<rparr>, body = cu_bytes (gpu_cu g pd cuid)\<rparr>"
    using a r by (auto simp: opu_create_vcrat_image_gpu_def get_and_inc_gpu_processor_id_def Let_def)
  have "vcrat_ok 16384 [CU (gpu_cu g pd cuid)] (count_entries 40 (Suc 0) v0)"
    by (simp add: vcrat_ok_def v0_def count_entries_def new_header_def)
  from fill_gpu_rest_ok [OF v0 this] r(2) obtain es v where v: "vcrat_ok 16384 es v" "img = header_bytes (v_header v) @ body v" by auto
  have b: "body v = table_bytes es" using v(1) by (simp add: vcrat_ok_def)
  note t = vcrat_ok_table [OF v(1), simplified]
  show ?thesis
    using r(2) t v(2) opu_parse_crat_table_bytes [OF t(1) assms(2), of env pd] unfolding b by auto
qed

text \<open>C14. Whatever the GPU and the topology are, when the driver creates the virtual table of a GPU the image fits in the four
  pages of its buffer and is a well-formed table of one domain, so that parsing it never leaves the image and never loops: it
  is the fold over the entries.\<close>

theorem vcrat_gpu_wellformed:
  assumes "opu_create_crat_image_virtual ok h t 2 (Some g) pd ids = (Inside (r, Some img), ids')" "device_list s = []"
  shows "r = 0 \<and> length img \<le> 4 * 4096 \<and> (\<exists>hd es. img = header_bytes hd @ table_bytes es \<and> table_ok hd es \<and> h_num_domains hd = 1 \<and>
    opu_parse_crat_table env (Some img) pd s = Some (parse_table env hd es pd s))"
  by (rule vcrat_gpu_table [OF assms])

definition small_gpu :: gpu where
  "small_gpu = \<lparr>gpu_family = CHIP_KAVERI,
     gpu_cu_info = \<lparr>num_shader_engines = 1, num_shader_arrays_per_engine = 1, num_cu_per_sh = 2, cu_active_number = 2, ci_simd_per_cu = 4,
       ci_max_waves_per_simd = 10, ci_wave_front_size = 64, max_scratch_slots_per_cu = 32, lds_size = 64, cu_bitmap = [[3]]\<rparr>,
     local_mem_size_public = 0x10000000, local_mem_size_private = 0, vram_width = 256, use_iommu_v2 = False, amd_iommu_err = 0, ats_sup = False,
     pri_sup = False, pasid_sup = False, debug_largebar = False, connected_to_cpu = False, numa_node = None, hive_id = 0, hive_id_of = (\<lambda>_. 0),
     xgmi_hops = (\<lambda>_. 0)\<rparr>"

lemma small_gpu_image:
  "\<exists>img. opu_create_crat_image_virtual True two_node_host no_devices 2 (Some small_gpu) 2 0x80001000 = (Inside (0, Some img), 0x80001002)"
  by (simp add: opu_create_crat_image_virtual_def opu_create_vcrat_image_gpu_def get_and_inc_gpu_processor_id_def gpu_total_cu_def fill_gpu_rest_def
      opu_fill_gpu_memory_affinity_def opu_fill_gpu_direct_io_link_to_cpu_def opu_fill_gpu_cache_info_def kaveri_cache_info_def cache_table_def
      shader_arrays_def cu_blocks_def cu_bitmap_at_def fill_in_l1_pcache_def no_room_def shared_mask_def ffs_def put_cache_def count_entries_def
      upt_rec Let_def small_gpu_def)

theorem vcrat_gpu_wellformed_witness:
  "\<exists>img hd es. opu_create_crat_image_virtual True two_node_host no_devices 2 (Some small_gpu) 2 0x80001000 = (Inside (0, Some img), 0x80001002) \<and>
     length img \<le> 4 * 4096 \<and> table_ok hd es \<and> opu_parse_crat_table sample_env (Some img) 2 no_devices = Some (parse_table sample_env hd es 2 no_devices)"
proof -
  obtain img where i: "opu_create_crat_image_virtual True two_node_host no_devices 2 (Some small_gpu) 2 0x80001000 = (Inside (0, Some img), 0x80001002)"
    using small_gpu_image by blast
  have "device_list no_devices = []" by (simp add: no_devices_def)
  from vcrat_gpu_wellformed [OF i this, of sample_env] i show ?thesis by blast
qed

text \<open>The sibling map of a shared cache: apart from the first, the place of an array has the units of the array before it.\<close>

lemma sibling_masks_shifted:
  "sibling_masks ci info arrays m = Inside ms \<Longrightarrow> Suc k < length arrays \<Longrightarrow>
     cu_bitmap_at ci (fst (arrays ! k)) (snd (arrays ! k)) = Inside bm \<Longrightarrow> ms ! Suc k = bm AND shared_mask info"
proof (induction arrays arbitrary: m ms k)
  case (Cons a arrays)
  obtain i j where a: "a = (i, j)" by fastforce
  obtain b ms' where b: "cu_bitmap_at ci i j = Inside b" "sibling_masks ci info arrays (b AND shared_mask info) = Inside ms'" "ms = m # ms'"
    using Cons.prems(1) by (auto simp: a split: access.splits)
  show ?case
  proof (cases k)
    case 0
    then obtain c arrays' where "arrays = c # arrays'" using Cons.prems(2) by (cases arrays) auto
    then show ?thesis using b Cons.prems(3) 0 a by (cases c) (auto split: access.splits)
  next
    case (Suc k')
    then show ?thesis using Cons.IH [OF b(2), of k'] Cons.prems b(3) by simp
  qed
qed simp

text \<open>A proximity domain below the new one that no device of the master list has, which is what removing a GPU leaves, is a \<open>NULL\<close>.\<close>

lemma fill_peers_missing:
  "nid \<in> set nids \<Longrightarrow> opu_topology_device_by_proximity_domain (of_nat nid) t = None \<Longrightarrow>
     fill_peers g t pd nids v = Fault \<or> (\<exists>r v'. fill_peers g t pd nids v = Inside (r, v') \<and> r < 0)"
  by (induction nids arbitrary: v) (auto split: option.splits prod.splits)

end
