(* ===== verification/Opu_Topology.thy ===== *)
theory Opu_Topology
  imports Opu_Vcrat_Props
begin

text \<open>
  The topology (\<open>opu_topology.c\<close>): the master list of devices, which the driver builds from the tables of \<open>opu_crat.c\<close> at start and
  extends with each GPU. A device is named by its place in the list. The sysfs tree, which shows the list to user space, is the
  result code of building it; the performance counters of the IOMMU are not modelled.
\<close>

section \<open>State\<close>

text \<open>\<open>top\<close> has the lists and counters; the others are \<open>sys_props\<close>, \<open>topology_crat_proximity_domain\<close> and
  \<open>gpu_processor_id_low\<close>.\<close>

record topo =
  top :: topology
  platform_id :: u64
  platform_oem :: u64
  platform_rev :: u64
  topology_crat_proximity_domain :: u32
  gpu_processor_id_low :: u32

text \<open>What the firmware gives: the table, that there is none, or an error.\<close>

datatype acpi = ACPI_Table "u8 list" | ACPI_Not_Found | ACPI_Error

record firmware =
  ignore_crat :: bool
  acpi_crat :: acpi
  acpi_alloc_ok :: bool
  vcrat_alloc_ok :: bool
  sysfs_result :: int
  dmi_entries :: "(u8 \<times> u8 \<times> u8 list) list"

abbreviation ENODATA :: int where "ENODATA \<equiv> 61"

section \<open>Lookups\<close>

definition opu_topology_device_by_id :: "u32 \<Rightarrow> topology \<Rightarrow> opu_topology_device option" where
  "opu_topology_device_by_id gid t = List.find (\<lambda>d. gpu_id d = gid) (topology_device_list t)"

definition opu_device_by_id :: "u32 \<Rightarrow> topology \<Rightarrow> nat option" where
  "opu_device_by_id gid t = (case opu_topology_device_by_id gid t of None \<Rightarrow> None | Some d \<Rightarrow> tgpu d)"

text \<open>The loop counts devices in eight bits.\<close>

fun enum_loop :: "u8 \<Rightarrow> u8 \<Rightarrow> opu_topology_device list \<Rightarrow> int \<times> nat option" where
  "enum_loop idx device_idx [] = (- 1, None)"
| "enum_loop idx device_idx (d # ds) = (if device_idx = idx then (0, tgpu d) else enum_loop idx (device_idx + 1) ds)"

definition opu_topology_enum_opu_devices :: "u8 \<Rightarrow> topology \<Rightarrow> int \<times> nat option" where
  "opu_topology_enum_opu_devices idx t = enum_loop idx 0 (topology_device_list t)"

section \<open>The master list\<close>

fun move_all :: "opu_topology_device list \<Rightarrow> topology \<Rightarrow> topology" where
  "move_all [] t = t"
| "move_all (d # ds) t = move_all ds (t\<lparr>device_list := ds, topology_device_list := topology_device_list t @ [d], num_devices := num_devices t + 1\<rparr>)"

definition opu_topology_update_device_list :: "topology \<Rightarrow> topology" where
  "opu_topology_update_device_list t = move_all (device_list t) t"

definition opu_is_acpi_crat_invalid :: "opu_topology_device list \<Rightarrow> bool" where
  "opu_is_acpi_crat_invalid ds \<longleftrightarrow> \<not> list_ex (\<lambda>d. cpu_cores_count (node_props d) \<noteq> 0 \<and> simd_count (node_props d) \<noteq> 0) ds"

definition opu_create_crat_image_acpi :: "firmware \<Rightarrow> int \<times> u8 list option" where
  "opu_create_crat_image_acpi fw =
     (if ignore_crat fw then (- ENODATA, None)
      else case acpi_crat fw of
             ACPI_Not_Found \<Rightarrow> (- ENODATA, None)
           | ACPI_Error \<Rightarrow> (- EINVAL, None)
           | ACPI_Table crat_table \<Rightarrow> if \<not> acpi_alloc_ok fw then (- ENOMEM, None) else (0, Some crat_table))"

text \<open>The eight bytes at \<open>oem_id\<close> run into \<open>oem_table_id\<close>; the mask keeps the first six.\<close>

definition opu_update_system_properties :: "topo \<Rightarrow> topo" where
  "opu_update_system_properties s =
     (let ds = topology_device_list (top s)
      in if ds = [] then s
         else let d = List.last ds
              in s\<lparr>platform_id := le_word (take 8 (oem_id d @ oem_table_id d)) AND 0xFFFFFFFFFFFF, platform_oem := le_word (oem_table_id d),
                   platform_rev := ucast (oem_revision d)\<rparr>)"

definition find_system_memory :: "u8 \<times> u8 \<times> u8 list \<Rightarrow> opu_topology_device \<Rightarrow> opu_topology_device" where
  "find_system_memory dm d =
     (case dm of (ty, len, dmi_data) \<Rightarrow>
        if ty = 17 \<and> 0x15 \<le> len
        then let w = rd 2 dmi_data 0x6 :: u16; clk = rd 2 dmi_data 0x11 :: u16
             in d\<lparr>mem_props := map (\<lambda>m. m\<lparr>m_width := (if w \<noteq> 0xFFFF \<and> w \<noteq> 0 then ucast w else m_width m),
                    mem_clk_max := (if clk \<noteq> 0 then ucast clk else mem_clk_max m)\<rparr>) (mem_props d)\<rparr>
        else d)"

definition opu_add_non_crat_information :: "firmware \<Rightarrow> opu_topology_device \<Rightarrow> opu_topology_device" where
  "opu_add_non_crat_information fw d = (if tgpu d = None then fold find_system_memory (dmi_entries fw) d else d)"

section \<open>Start\<close>

definition upd_head :: "('a \<Rightarrow> 'a) \<Rightarrow> 'a list \<Rightarrow> 'a list" where
  "upd_head f xs = (case xs of [] \<Rightarrow> [] | x # xs \<Rightarrow> f x # xs)"

text \<open>What follows once the devices are in the temporary list; \<open>list_first_entry\<close> needs one.\<close>

definition finish_init :: "firmware \<Rightarrow> bool \<Rightarrow> topo \<Rightarrow> (int \<times> topo) access" where
  "finish_init fw cpu_only_node s =
     (if device_list (top s) = [] then Fault
      else
        let t1 = opu_topology_update_device_list (top s); r = sysfs_result fw;
            s1 = s\<lparr>top := t1, topology_crat_proximity_domain := num_devices t1 - 1\<rparr>;
            s2 = (if r = 0 then opu_update_system_properties (s1\<lparr>top := (top s1)\<lparr>generation_count := generation_count (top s1) + 1\<rparr>\<rparr>) else s1);
            s3 = (if cpu_only_node then s2\<lparr>top := (top s2)\<lparr>topology_device_list := upd_head (opu_add_non_crat_information fw) (topology_device_list (top s2))\<rparr>\<rparr> else s2)
        in Inside (r, s3))"

definition init_virtual :: "crat_env \<Rightarrow> firmware \<Rightarrow> host \<Rightarrow> topo \<Rightarrow> (int \<times> topo) access option" where
  "init_virtual env fw h s =
     (case opu_create_crat_image_virtual (vcrat_alloc_ok fw) h (top s) 1 None 0 (gpu_processor_id_low s) of (a, ids) \<Rightarrow>
        (case a of
           Fault \<Rightarrow> Some Fault
         | Inside (r, img) \<Rightarrow>
             if r \<noteq> 0 then Some (Inside (r, s))
             else map_option (\<lambda>b. case b of
                    Fault \<Rightarrow> Fault
                  | Inside (r, t) \<Rightarrow> if r \<noteq> 0 then Inside (r, s\<lparr>top := t\<rparr>) else finish_init fw True (s\<lparr>top := t\<rparr>))
                  (opu_parse_crat_table env img 0 (top s))))"

definition opu_topology_init :: "crat_env \<Rightarrow> firmware \<Rightarrow> host \<Rightarrow> topo \<Rightarrow> (int \<times> topo) access option" where
  "opu_topology_init env fw h s =
     (let s0 = s\<lparr>top := (top s)\<lparr>device_list := [], topology_device_list := [], num_devices := 0, generation_count := 0\<rparr>,
            platform_id := 0, platform_oem := 0, platform_rev := 0\<rparr>
      in case opu_create_crat_image_acpi fw of (r, img) \<Rightarrow>
           if r \<noteq> 0 then init_virtual env fw h s0
           else case opu_parse_crat_table env img 0 (top s0) of
                  None \<Rightarrow> None
                | Some Fault \<Rightarrow> Some Fault
                | Some (Inside (r, t)) \<Rightarrow>
                    if r \<noteq> 0 \<or> opu_is_acpi_crat_invalid (device_list t)
                    then init_virtual env fw h (s0\<lparr>top := opu_release_topology_device_list t\<rparr>)
                    else Some (finish_init fw False (s0\<lparr>top := t\<rparr>)))"

section \<open>Adding a GPU\<close>

text \<open>What the code reads of a GPU beside its table: the facts of the graphics driver, of PCI and of the device structure.\<close>

record gpu_facts =
  gf_gpu :: gpu
  gf_devfn :: u32
  gf_subsystem_vendor :: u16
  gf_subsystem_device :: u16
  gf_bus_number :: u32
  hash_32 :: "u32 \<Rightarrow> u32"
  gf_asic_name :: string
  gf_vendor :: u32
  gf_device :: u32
  gf_asic_rev_id :: u32
  gf_location_id :: u32
  gf_domain :: u32
  gf_max_engine_clk :: u32
  gf_cpu_khz :: u32
  gf_render_minor :: int
  gf_num_sdma_engines :: u32
  gf_num_xgmi_sdma_engines :: u32
  gf_num_sdma_queues_per_engine :: u32
  gf_gws :: bool
  gf_no_hws :: bool
  gf_num_gws :: u32
  gf_num_cp_queues :: u32
  gf_mem_clk_max :: u32
  gf_ras_gfx :: bool
  gf_ras_umc :: bool
  gf_ras_any :: bool
  gf_is_vega10 :: bool
  gf_svm_api :: bool
  gf_pci_atomic_requested :: bool
  family_of :: "nat \<Rightarrow> asic_family"
  atomic_completer :: "nat \<Rightarrow> bool"

definition opu_generate_gpu_id :: "gpu_facts \<Rightarrow> u32" where
  "opu_generate_gpu_id f =
     (let local_mem_size = local_mem_size_private (gf_gpu f) + local_mem_size_public (gf_gpu f)
      in foldl (\<lambda>hashout b. hashout XOR hash_32 f b) 0 [gf_devfn f, ucast (gf_subsystem_vendor f) OR push_bit 16 (ucast (gf_subsystem_device f)),
           gf_domain f, gf_device f, gf_bus_number f, ucast local_mem_size, ucast (drop_bit 32 local_mem_size)])"

text \<open>The place of the first device that can take the GPU. The memory, cache and link structures also point to the GPU of their device.\<close>

definition takes_gpu :: "gpu \<Rightarrow> opu_topology_device \<Rightarrow> bool" where
  "takes_gpu g d \<longleftrightarrow> \<not> (\<not> use_iommu_v2 g \<and> cpu_cores_count (node_props d) \<noteq> 0) \<and> tgpu d = None \<and> 0 < simd_count (node_props d)"

fun first_place :: "('a \<Rightarrow> bool) \<Rightarrow> 'a list \<Rightarrow> nat option" where
  "first_place P [] = None"
| "first_place P (x # xs) = (if P x then Some 0 else map_option Suc (first_place P xs))"

definition opu_assign_gpu :: "gpu \<Rightarrow> nat \<Rightarrow> opu_topology_device list \<Rightarrow> nat option \<times> opu_topology_device list" where
  "opu_assign_gpu g k ds = (first_place (takes_gpu g) ds, upd_first (takes_gpu g) (\<lambda>d. d\<lparr>tgpu := Some k\<rparr>) ds)"

definition opu_double_confirm_iommu_support :: "bool \<Rightarrow> opu_topology_device list \<Rightarrow> bool" where
  "opu_double_confirm_iommu_support needs_iommu_device ds \<longleftrightarrow>
     needs_iommu_device \<and> list_ex (\<lambda>d. cpu_cores_count (node_props d) \<noteq> 0 \<and> simd_count (node_props d) \<noteq> 0 \<and> tgpu d = None) ds"

section \<open>Flags of the links\<close>

abbreviation NO_ATOMICS :: u32 where "NO_ATOMICS \<equiv> 4 OR 8"
abbreviation NON_COHERENT :: u32 where "NON_COHERENT \<equiv> 2"

text \<open>The flags that the two functions add to a link; the first is for links from a GPU or, with a target, to one.\<close>

definition opu_set_iolink_no_atomics :: "gpu_facts \<Rightarrow> nat option \<Rightarrow> opu_iolink_properties \<Rightarrow> opu_iolink_properties" where
  "opu_set_iolink_no_atomics f target_gpu l =
     (if iolink_type l = 11 then l
      else case target_gpu of
             Some k \<Rightarrow> if \<not> atomic_completer f k then l\<lparr>l_flags := l_flags l OR NO_ATOMICS\<rparr> else l
           | None \<Rightarrow> if \<not> gf_pci_atomic_requested f \<or> gpu_family (gf_gpu f) = CHIP_HAWAII then l\<lparr>l_flags := l_flags l OR NO_ATOMICS\<rparr> else l)"

definition outbound_non_coherent :: "gpu_facts \<Rightarrow> nat option \<Rightarrow> u32 \<Rightarrow> bool" where
  "outbound_non_coherent f to_gpu ty \<longleftrightarrow> (case to_gpu of None \<Rightarrow> False | Some k \<Rightarrow> ty = 2 \<or> ty = 11 \<and> family_of f k = CHIP_VEGA20)"

definition inbound_non_coherent :: "gpu_facts \<Rightarrow> nat option \<Rightarrow> u32 \<Rightarrow> bool" where
  "inbound_non_coherent f to_gpu ty \<longleftrightarrow> to_gpu = None \<and> ty = 2 \<or> outbound_non_coherent f to_gpu ty"

definition upd_link :: "nat \<Rightarrow> nat \<Rightarrow> (opu_iolink_properties \<Rightarrow> opu_iolink_properties) \<Rightarrow> opu_topology_device list \<Rightarrow> opu_topology_device list" where
  "upd_link d l f ds = ds[d := (ds ! d)\<lparr>io_link_props := (io_link_props (ds ! d))[l := f (io_link_props (ds ! d) ! l)]\<rparr>]"

definition set_flag :: "bool \<Rightarrow> opu_iolink_properties \<Rightarrow> opu_iolink_properties" where
  "set_flag b l = (if b then l\<lparr>l_flags := l_flags l OR NON_COHERENT\<rparr> else l)"

definition opu_set_iolink_non_coherent :: "gpu_facts \<Rightarrow> nat \<times> nat \<Rightarrow> nat \<times> nat \<Rightarrow> opu_topology_device list \<Rightarrow> opu_topology_device list" where
  "opu_set_iolink_non_coherent f outbound inbound ds =
     (let to_gpu = tgpu (ds ! fst inbound); ty = iolink_type (io_link_props (ds ! fst inbound) ! snd inbound)
      in upd_link (fst inbound) (snd inbound) (set_flag (inbound_non_coherent f to_gpu ty))
           (upd_link (fst outbound) (snd outbound) (set_flag (outbound_non_coherent f to_gpu ty)) ds))"

fun inbound_links :: "gpu_facts \<Rightarrow> nat \<Rightarrow> nat \<times> nat \<Rightarrow> nat \<Rightarrow> nat list \<Rightarrow> opu_topology_device list \<Rightarrow> opu_topology_device list" where
  "inbound_links f k link peer [] ds = ds"
| "inbound_links f k link peer (m # ms) ds =
     (if node_to (io_link_props (ds ! peer) ! m) \<noteq> node_from (io_link_props (ds ! fst link) ! snd link) then inbound_links f k link peer ms ds
      else inbound_links f k link peer ms
             (opu_set_iolink_non_coherent f link (peer, m)
               (upd_link peer m (\<lambda>l. opu_set_iolink_no_atomics f (Some k) (l\<lparr>l_flags := 1\<rparr>)) ds)))"

fun outbound_links :: "gpu_facts \<Rightarrow> nat \<Rightarrow> nat \<Rightarrow> nat list \<Rightarrow> opu_topology_device list \<Rightarrow> opu_topology_device list" where
  "outbound_links f k d [] ds = ds"
| "outbound_links f k d (n # ns) ds =
     (let ds1 = upd_link d n (\<lambda>l. opu_set_iolink_no_atomics f None (l\<lparr>l_flags := 1\<rparr>)) ds
      in case first_place (\<lambda>e. proximity_domain e = node_to (io_link_props (ds1 ! d) ! n)) ds1 of
           None \<Rightarrow> outbound_links f k d ns ds1
         | Some peer \<Rightarrow> outbound_links f k d ns (inbound_links f k (d, n) peer [0..<length (io_link_props (ds1 ! peer))] ds1))"

definition opu_fill_iolink_non_crat_info :: "gpu_facts \<Rightarrow> nat \<Rightarrow> nat \<Rightarrow> opu_topology_device list \<Rightarrow> opu_topology_device list" where
  "opu_fill_iolink_non_crat_info f k d ds = outbound_links f k d [0..<length (io_link_props (ds ! d))] ds"

section \<open>The device of a GPU\<close>

definition doorbell_type :: "asic_family \<Rightarrow> u32" where
  "doorbell_type a =
     (if a \<in> {CHIP_KAVERI, CHIP_HAWAII, CHIP_TONGA} then 0
      else if a \<in> {CHIP_CARRIZO, CHIP_FIJI, CHIP_POLARIS10, CHIP_POLARIS11, CHIP_POLARIS12, CHIP_VEGAM} then push_bit 12 1 AND 0x3000
      else case a of CHIP_OTHER _ \<Rightarrow> 0 | _ \<Rightarrow> push_bit 12 2 AND 0x3000)"

definition describe_gpu :: "gpu_facts \<Rightarrow> u32 \<Rightarrow> opu_topology_device \<Rightarrow> opu_topology_device" where
  "describe_gpu f gid d = upd_props (\<lambda>p. p\<lparr>np_name := take 32 (gf_asic_name f),
       np_simd_arrays_per_engine := num_shader_arrays_per_engine (gpu_cu_info (gf_gpu f)), np_vendor_id := gf_vendor f, np_device_id := gf_device f,
       capability := capability p OR (push_bit 22 (gf_asic_rev_id f) AND 0x03c00000), np_location_id := gf_location_id f, np_domain := gf_domain f,
       np_max_engine_clk_fcompute := gf_max_engine_clk f, np_max_engine_clk_ccompute := gf_cpu_khz f div 1000, np_drm_render_minor := gf_render_minor f,
       np_hive_id := hive_id (gf_gpu f), np_num_sdma_engines := gf_num_sdma_engines f, np_num_sdma_xgmi_engines := gf_num_xgmi_sdma_engines f,
       np_num_sdma_queues_per_engine := gf_num_sdma_queues_per_engine f, np_num_gws := (if gf_gws f \<and> \<not> gf_no_hws f then gf_num_gws f else 0),
       np_num_cp_queues := gf_num_cp_queues f\<rparr>)
     (d\<lparr>gpu_id := gid, mem_props := map (\<lambda>m. m\<lparr>mem_clk_max := gf_mem_clk_max f\<rparr>) (mem_props d)\<rparr>)"

definition gpu_capability :: "gpu_facts \<Rightarrow> opu_topology_device \<Rightarrow> opu_topology_device" where
  "gpu_capability f = upd_props (\<lambda>p.
     let fam = gpu_family (gf_gpu f); ci = gpu_cu_info (gf_gpu f);
         c1 = capability p OR doorbell_type fam;
         c2 = (if use_iommu_v2 (gf_gpu f) then c1 OR 2 else c1 AND NOT 2);
         c3 = c2 OR (if gf_ras_gfx f then 0x04000000 else 0) OR (if gf_ras_umc f then 0x00100000 else 0);
         c4 = (if \<not> gf_is_vega10 f then c3 OR (if gf_ras_any f then 0x00200000 else 0) else c3);
         c5 = (if gf_svm_api f then c4 OR 0x08000000 else c4);
         p1 = p\<lparr>capability := c5\<rparr>
     in if fam = CHIP_CARRIZO then p1\<lparr>simd_count := ci_simd_per_cu ci * cu_active_number ci, max_waves_per_simd := 10\<rparr> else p1)"

definition finish_add :: "gpu_facts \<Rightarrow> nat \<Rightarrow> nat \<Rightarrow> opu_topology_device list \<Rightarrow> opu_topology_device list" where
  "finish_add f k d ds =
     (let ds1 = ds[d := describe_gpu f (opu_generate_gpu_id f) (ds ! d)];
          ds2 = opu_fill_iolink_non_crat_info f k d ds1
      in ds2[d := gpu_capability f (ds2 ! d)])"

definition set_master :: "opu_topology_device list \<Rightarrow> topo \<Rightarrow> topo" where
  "set_master ds s = s\<lparr>top := (top s)\<lparr>topology_device_list := ds\<rparr>\<rparr>"

text \<open>The temporary list is local to the function: it is empty at its start and what is left there is not part of the result.\<close>

definition add_parsed :: "firmware \<Rightarrow> gpu_facts \<Rightarrow> nat \<Rightarrow> topo \<Rightarrow> int \<times> topo" where
  "add_parsed fw f k s =
     (let t1 = opu_topology_update_device_list (top s); r = sysfs_result fw;
          s1 = s\<lparr>top := (if r = 0 then t1\<lparr>generation_count := generation_count t1 + 1\<rparr> else t1)\<rparr>
      in case opu_assign_gpu (gf_gpu f) k (topology_device_list (top s1)) of
           (None, ds) \<Rightarrow> (- ENODEV, set_master ds s1)
         | (Some d, ds) \<Rightarrow> (r, set_master (finish_add f k d ds) s1))"

definition opu_topology_add_device :: "crat_env \<Rightarrow> firmware \<Rightarrow> host \<Rightarrow> gpu_facts \<Rightarrow> nat \<Rightarrow> topo \<Rightarrow> (int \<times> topo) access option" where
  "opu_topology_add_device env fw h f k s0 =
     (let pd = topology_crat_proximity_domain s0 + 1;
          s = s0\<lparr>topology_crat_proximity_domain := pd, top := (top s0)\<lparr>device_list := []\<rparr>\<rparr>
      in case opu_assign_gpu (gf_gpu f) k (topology_device_list (top s)) of
           (Some d, ds) \<Rightarrow> Some (Inside (0, set_master (finish_add f k d ds) s))
         | (None, ds) \<Rightarrow>
             (case opu_create_crat_image_virtual (vcrat_alloc_ok fw) h (top s) 2 (Some (gf_gpu f)) pd (gpu_processor_id_low s) of (a, ids) \<Rightarrow>
                (case a of
                   Fault \<Rightarrow> Some Fault
                 | Inside (r, img) \<Rightarrow>
                     let s1 = s\<lparr>gpu_processor_id_low := ids\<rparr>
                     in if r \<noteq> 0 then Some (Inside (r, s1))
                        else map_option (\<lambda>b. case b of
                               Fault \<Rightarrow> Fault
                             | Inside (r, t) \<Rightarrow> if r \<noteq> 0 then Inside (r, s1\<lparr>top := t\<rparr>) else Inside (add_parsed fw f k (s1\<lparr>top := t\<rparr>)))
                             (opu_parse_crat_table env img pd (top s1)))))"

section \<open>Removing a GPU\<close>

definition opu_topology_remove_device :: "nat \<Rightarrow> topo \<Rightarrow> int \<times> topo" where
  "opu_topology_remove_device k s =
     (case first_place (\<lambda>d. tgpu d = Some k) (topology_device_list (top s)) of
        None \<Rightarrow> (- ENODEV, s)
      | Some d \<Rightarrow>
          (0, s\<lparr>top := (top s)\<lparr>topology_device_list := take d (topology_device_list (top s)) @ drop (Suc d) (topology_device_list (top s)),
                num_devices := num_devices (top s) - 1\<rparr>\<rparr>))"

end
