(* ===== verification/Opu_Topology_Props.thy ===== *)
theory Opu_Topology_Props
  imports Opu_Topology
begin

text \<open>
  The master list over the life of the driver: its start on a host, and what adding and removing GPUs keep of it.
\<close>

section \<open>Lists\<close>

lemma move_all_eq:
  "device_list t = ds \<Longrightarrow> move_all ds t =
     t\<lparr>device_list := [], topology_device_list := topology_device_list t @ ds, num_devices := num_devices t + of_nat (length ds)\<rparr>"
  by (induction ds arbitrary: t) (auto simp: add.assoc)

lemma opu_topology_update_device_list_eq:
  "opu_topology_update_device_list t = t\<lparr>device_list := [], topology_device_list := topology_device_list t @ device_list t,
     num_devices := num_devices t + of_nat (length (device_list t))\<rparr>"
  by (simp add: opu_topology_update_device_list_def move_all_eq)

text \<open>An update of the list that keeps every device in its place and domain, with its counters right.\<close>

definition keeps_device :: "opu_topology_device \<Rightarrow> opu_topology_device \<Rightarrow> bool" where
  "keeps_device d d' \<longleftrightarrow> (counted d \<longrightarrow> counted d') \<and> proximity_domain d' = proximity_domain d"

abbreviation same_shape :: "opu_topology_device list \<Rightarrow> opu_topology_device list \<Rightarrow> bool" where
  "same_shape \<equiv> list_all2 keeps_device"

lemma keeps_device_refl [simp]: "keeps_device d d"
  by (simp add: keeps_device_def)

lemma same_shape_refl [simp]: "same_shape ds ds"
  by (simp add: list_all2_refl)

lemma same_shape_trans: "same_shape ds es \<Longrightarrow> same_shape es fs \<Longrightarrow> same_shape ds fs"
  by (rule list_all2_trans [of keeps_device keeps_device keeps_device ds es fs]) (auto simp: keeps_device_def)

lemma same_shape_domains: "same_shape ds es \<Longrightarrow> map proximity_domain es = map proximity_domain ds"
  by (induction rule: list_all2_induct) (auto simp: keeps_device_def)

lemma same_shape_counted: "same_shape ds es \<Longrightarrow> list_all counted ds \<Longrightarrow> list_all counted es"
  by (induction rule: list_all2_induct) (auto simp: keeps_device_def)

text \<open>The contract of an update of one device, and what it gives for updates of the list.\<close>

locale device_update =
  fixes f :: "opu_topology_device \<Rightarrow> opu_topology_device"
  assumes keeps: "keeps_device d (f d)"
begin

lemma update_place: "same_shape ds (ds[i := f (ds ! i)])"
  using keeps by (cases "i < length ds") (auto simp: list_all2_conv_all_nth nth_list_update)

lemma update_first: "same_shape ds (upd_first P f ds)"
  using keeps by (induction ds) (auto simp: list_all2_refl)

lemma update_head: "same_shape ds (upd_head f ds)"
  using keeps by (cases ds) (simp_all add: upd_head_def list_all2_refl)

end

interpretation describe: device_update "describe_gpu f gid" for f gid
  by unfold_locales (simp add: keeps_device_def describe_gpu_def upd_props_def counted_def)

interpretation capable: device_update "gpu_capability f" for f
  by unfold_locales (simp add: keeps_device_def gpu_capability_def upd_props_def counted_def Let_def)

interpretation assigned: device_update "\<lambda>d. d\<lparr>tgpu := k\<rparr>" for k
  by unfold_locales (simp add: keeps_device_def counted_def)

interpretation link_flags: device_update "\<lambda>d. d\<lparr>io_link_props := (io_link_props d)[l := f (io_link_props d ! l)]\<rparr>" for l f
  by unfold_locales (simp add: keeps_device_def counted_def)

interpretation dmi: device_update "find_system_memory dm" for dm
  by unfold_locales (cases dm, simp add: find_system_memory_def keeps_device_def counted_def Let_def)

lemma fold_memory_keeps: "keeps_device d (fold find_system_memory dms d)"
proof (induction dms arbitrary: d)
  case (Cons dm dms)
  then show ?case using dmi.keeps [of d dm] by (simp add: keeps_device_def)
qed simp

interpretation non_crat: device_update "opu_add_non_crat_information fw" for fw
  by unfold_locales (simp add: opu_add_non_crat_information_def fold_memory_keeps)

lemma upd_link_shape: "same_shape ds (upd_link i l f ds)"
  unfolding upd_link_def by (rule link_flags.update_place)

lemma inbound_links_shape: "same_shape ds (inbound_links f k link peer ms ds)"
proof (induction ms arbitrary: ds)
  case (Cons m ms)
  have "same_shape ds (opu_set_iolink_non_coherent f link (peer, m) (upd_link peer m g ds))" for g
    unfolding opu_set_iolink_non_coherent_def Let_def
    by (rule same_shape_trans [OF upd_link_shape same_shape_trans [OF upd_link_shape upd_link_shape]])
  then show ?case using Cons.IH by (auto intro: same_shape_trans)
qed simp

lemma outbound_links_shape: "same_shape ds (outbound_links f k d ns ds)"
proof (induction ns arbitrary: ds)
  case (Cons n ns)
  show ?case unfolding outbound_links.simps Let_def
    by (split option.split, intro conjI allI impI)
      (rule same_shape_trans [OF upd_link_shape Cons.IH] same_shape_trans [OF upd_link_shape same_shape_trans [OF inbound_links_shape Cons.IH]])+
qed simp

lemma finish_add_shape: "same_shape ds (finish_add f k d ds)"
  unfolding finish_add_def Let_def opu_fill_iolink_non_crat_info_def
  by (rule same_shape_trans [OF describe.update_place same_shape_trans [OF outbound_links_shape capable.update_place]])

lemma opu_assign_gpu_shape: "opu_assign_gpu g k ds = (d, es) \<Longrightarrow> same_shape ds es"
  by (auto simp: opu_assign_gpu_def intro: assigned.update_first)

section \<open>The invariant\<close>

definition topo_ok :: "topo \<Rightarrow> bool" where
  "topo_ok s \<longleftrightarrow> list_all counted (topology_device_list (top s)) \<and> num_devices (top s) = of_nat (length (topology_device_list (top s))) \<and>
     distinct (master_domains (top s)) \<and> list_all (\<lambda>p. p \<le> topology_crat_proximity_domain s) (master_domains (top s))"

lemma topo_ok_set_master:
  assumes "topo_ok s" "same_shape (topology_device_list (top s)) ds"
  shows "topo_ok (set_master ds s)"
  using assms same_shape_domains [OF assms(2)] same_shape_counted [OF assms(2)] list_all2_lengthD [OF assms(2)]
  by (simp add: topo_ok_def set_master_def master_domains_def)

lemma topo_ok_empty: "topology_device_list (top s) = [] \<Longrightarrow> num_devices (top s) = 0 \<Longrightarrow> topo_ok s"
  by (simp add: topo_ok_def master_domains_def)

lemma of_nat_le_pred: "i < n \<Longrightarrow> n \<le> 0x10000 \<Longrightarrow> (of_nat i :: u32) \<le> of_nat (n - 1)"
  by (simp only: word_le_nat_alt unsigned_of_nat) (simp add: take_bit_nat_eq_self)

lemma of_nat_u16_facts:
  fixes w :: u16
  shows "distinct (map (\<lambda>i. of_nat i :: u32) [0..<unat w])" "list_all (\<lambda>p. p \<le> of_nat (unat w) - 1) (map (\<lambda>i. of_nat i :: u32) [0..<unat w])"
proof -
  have w: "unat w < 0x10000" using unsigned_less [of w] by simp
  show "distinct (map (\<lambda>i. of_nat i :: u32) [0..<unat w])"
    unfolding distinct_map using w by (auto simp: inj_on_def of_nat_domain [of _ "unat w"])
  have "(of_nat i :: u32) \<le> of_nat (unat w) - 1" if i: "i < unat w" for i
  proof -
    have e: "(of_nat (unat w) :: u32) - 1 = of_nat (unat w - 1)" using i by (simp add: of_nat_diff)
    show ?thesis unfolding e by (rule of_nat_le_pred [OF i]) (use w in simp)
  qed
  then show "list_all (\<lambda>p. p \<le> of_nat (unat w) - 1) (map (\<lambda>i. of_nat i :: u32) [0..<unat w])" by (simp add: list_all_iff)
qed

text \<open>A parsed table of domains from 0, moved to an empty master list.\<close>

lemma finish_init_ok:
  assumes "finish_init fw b s = Inside (r, s')" "t_counted (top s)" "topology_device_list (top s) = []" "num_devices (top s) = 0"
    "domains (top s) = map (\<lambda>i. of_nat i) [0..<unat (w :: u16)]"
  shows "topo_ok s'"
proof -
  let ?t1 = "opu_topology_update_device_list (top s)"
  let ?s1 = "s\<lparr>top := ?t1, topology_crat_proximity_domain := num_devices ?t1 - 1\<rparr>"
  have len: "length (device_list (top s)) = unat w" using arg_cong [OF assms(5), of length] by (simp add: domains_def)
  have ok: "topo_ok ?s1" using assms(2-5) of_nat_u16_facts [of w]
    by (simp add: topo_ok_def opu_topology_update_device_list_eq master_domains_def domains_def t_counted_def len)
  have sys: "topo_ok (opu_update_system_properties x) = topo_ok x" for x
    by (simp add: opu_update_system_properties_def Let_def topo_ok_def)
  have gen: "topo_ok (x\<lparr>top := (top x)\<lparr>generation_count := n\<rparr>\<rparr>) = topo_ok x" for x n
    by (simp add: topo_ok_def master_domains_def)
  have head: "topo_ok (x\<lparr>top := (top x)\<lparr>topology_device_list := upd_head (opu_add_non_crat_information fw) (topology_device_list (top x))\<rparr>\<rparr>)" if "topo_ok x" for x
    using topo_ok_set_master [OF that non_crat.update_head [where fw = fw]] by (simp add: set_master_def)
  have g: "topo_ok (opu_update_system_properties (?s1\<lparr>top := ?t1\<lparr>generation_count := n\<rparr>\<rparr>))" for n
    using ok gen [of n ?s1] sys by simp
  show ?thesis using assms(1) ok g head [OF ok] head [OF g] unfolding finish_init_def Let_def
    by (auto split: if_splits)
qed

section \<open>The operations\<close>

definition started :: "topo \<Rightarrow> bool" where
  "started s \<longleftrightarrow> device_list (top s) = [] \<and> topology_device_list (top s) = [] \<and> num_devices (top s) = 0"

lemma started_counted: "started s \<Longrightarrow> t_counted (top s)"
  by (simp add: started_def t_counted_def)

lemma parsed_start:
  assumes "opu_parse_crat_table env img 0 (top s) = Some (Inside (r, t))" "started s"
  shows "t_counted t" "topology_device_list t = []" "num_devices t = 0" "r = 0 \<Longrightarrow> \<exists>w :: u16. domains t = map (\<lambda>i. of_nat i) [0..<unat w]"
proof -
  note p = opu_parse_crat_table_devices [OF assms(1) _ started_counted [OF assms(2)]]
  have d: "device_list (top s) = []" using assms(2) by (simp add: started_def)
  show "t_counted t" using p [OF d] by simp
  show "topology_device_list t = []" "num_devices t = 0"
    using p [OF d] assms(2) by (simp_all add: same_master_def master_domains_def started_def)
  show "\<exists>w :: u16. domains t = map (\<lambda>i. of_nat i) [0..<unat w]" if "r = 0" using p [OF d] that by auto
qed

lemma init_virtual_ok:
  assumes "init_virtual env fw h s = Some (Inside (r, s'))" "started s"
  shows "topo_ok s'"
proof -
  obtain a ids where c: "opu_create_crat_image_virtual (vcrat_alloc_ok fw) h (top s) (Suc 0) None 0 (gpu_processor_id_low s) = (a, ids)" by fastforce
  have empty: "topo_ok s" using assms(2) by (simp add: started_def topo_ok_empty)
  have parsed: "topo_ok s'" if p: "opu_parse_crat_table env img 0 (top s) = Some (Inside (q, t))"
    and e: "(if q \<noteq> 0 then Inside (q, s\<lparr>top := t\<rparr>) else finish_init fw True (s\<lparr>top := t\<rparr>)) = Inside (r, s')" for img q t
  proof (cases "q = 0")
    case True
    then obtain w :: u16 where "domains t = map (\<lambda>i. of_nat i) [0..<unat w]" using parsed_start(4) [OF p assms(2)] by blast
    then show ?thesis using finish_init_ok [of fw True "s\<lparr>top := t\<rparr>" r s' w] e True parsed_start(1-3) [OF p assms(2)] by simp
  next
    case False
    then show ?thesis using e parsed_start(2,3) [OF p assms(2)] by (auto intro: topo_ok_empty)
  qed
  obtain q img where a: "a = Inside (q, img)" using assms(1) by (cases a) (auto simp: init_virtual_def c)
  show ?thesis
  proof (cases "q = 0")
    case True
    then obtain b where b: "opu_parse_crat_table env img 0 (top s) = Some b" "(case b of Fault \<Rightarrow> Fault
        | Inside (q, t) \<Rightarrow> if q \<noteq> 0 then Inside (q, s\<lparr>top := t\<rparr>) else finish_init fw True (s\<lparr>top := t\<rparr>)) = Inside (r, s')"
      using assms(1) a by (auto simp: init_virtual_def c)
    then show ?thesis using parsed by (cases b) auto
  qed (use assms(1) a empty in \<open>simp add: init_virtual_def c\<close>)
qed

lemma opu_topology_init_ok:
  assumes "opu_topology_init env fw h s = Some (Inside (r, s'))"
  shows "topo_ok s'"
proof -
  let ?s0 = "s\<lparr>top := (top s)\<lparr>device_list := [], topology_device_list := [], num_devices := 0, generation_count := 0\<rparr>,
            platform_id := 0, platform_oem := 0, platform_rev := 0\<rparr>"
  obtain q img where c: "opu_create_crat_image_acpi fw = (q, img)" by fastforce
  have s0: "started ?s0" by (simp add: started_def)
  show ?thesis
  proof (cases "q = 0")
    case False
    then show ?thesis using assms c init_virtual_ok [OF _ s0] by (simp add: opu_topology_init_def)
  next
    case True
    then obtain b where b: "opu_parse_crat_table env img 0 (top ?s0) = Some b" "b \<noteq> Fault"
      using assms c by (auto simp: opu_topology_init_def Let_def split: option.splits access.splits)
    then obtain q2 t where p: "opu_parse_crat_table env img 0 (top ?s0) = Some (Inside (q2, t))"
      and e: "(if q2 \<noteq> 0 \<or> opu_is_acpi_crat_invalid (device_list t) then init_virtual env fw h (?s0\<lparr>top := opu_release_topology_device_list t\<rparr>)
        else Some (finish_init fw False (?s0\<lparr>top := t\<rparr>))) = Some (Inside (r, s'))"
      using assms c True by (cases b) (auto simp: opu_topology_init_def Let_def)
    note t = parsed_start [OF p s0]
    show ?thesis
    proof (cases "q2 \<noteq> 0 \<or> opu_is_acpi_crat_invalid (device_list t)")
      case True
      have "started (?s0\<lparr>top := opu_release_topology_device_list t\<rparr>)" using t(2,3) by (simp add: started_def opu_release_topology_device_list_def)
      then show ?thesis using init_virtual_ok e True by auto
    next
      case False
      then obtain w :: u16 where "domains t = map (\<lambda>i. of_nat i) [0..<unat w]" using t(4) by blast
      then show ?thesis using finish_init_ok [of fw False "?s0\<lparr>top := t\<rparr>" r s' w] e False t(1-3) by simp
    qed
  qed
qed

lemma first_place_less: "first_place P xs = Some i \<Longrightarrow> i < length xs"
  by (induction xs arbitrary: i) (auto split: if_splits)

lemma opu_topology_remove_device_ok:
  assumes "opu_topology_remove_device k s = (r, s')" "topo_ok s"
  shows "topo_ok s'"
proof (cases "first_place (\<lambda>d. tgpu d = Some k) (topology_device_list (top s))")
  case (Some i)
  let ?ds = "topology_device_list (top s)"
  have i: "i < length ?ds" by (rule first_place_less [OF Some])
  have split: "?ds = take i ?ds @ ?ds ! i # drop (Suc i) ?ds" by (rule id_take_nth_drop [OF i])
  have n: "of_nat (length ?ds) - 1 = (of_nat (length (take i ?ds @ drop (Suc i) ?ds)) :: u32)" using i by (simp add: of_nat_diff)
  have d: "distinct (map proximity_domain (take i ?ds @ ?ds ! i # drop (Suc i) ?ds))" "list_all counted (take i ?ds @ ?ds ! i # drop (Suc i) ?ds)"
    "list_all (\<lambda>p. p \<le> topology_crat_proximity_domain s) (map proximity_domain (take i ?ds @ ?ds ! i # drop (Suc i) ?ds))"
    using assms(2) unfolding split [symmetric] by (simp_all add: topo_ok_def master_domains_def)
  have e: "s' = s\<lparr>top := (top s)\<lparr>topology_device_list := take i ?ds @ drop (Suc i) ?ds, num_devices := num_devices (top s) - 1\<rparr>\<rparr>"
    using assms(1) Some by (simp add: opu_topology_remove_device_def)
  show ?thesis unfolding e using d n assms(2) by (auto simp: topo_ok_def master_domains_def list_all_iff)
qed (use assms in \<open>simp add: opu_topology_remove_device_def\<close>)

lemma add_parsed_ok:
  assumes "add_parsed fw f k s = (r, s')" "topo_ok (s\<lparr>top := opu_topology_update_device_list (top s)\<rparr>)"
  shows "topo_ok s'"
proof -
  define s1 where "s1 = s\<lparr>top := (if sysfs_result fw = 0
      then (opu_topology_update_device_list (top s))\<lparr>generation_count := generation_count (opu_topology_update_device_list (top s)) + 1\<rparr>
      else opu_topology_update_device_list (top s))\<rparr>"
  have s1: "topo_ok s1" using assms(2) by (simp add: s1_def topo_ok_def master_domains_def)
  obtain d ds where a: "opu_assign_gpu (gf_gpu f) k (topology_device_list (top s1)) = (d, ds)" by fastforce
  have sh: "same_shape (topology_device_list (top s1)) ds" by (rule opu_assign_gpu_shape [OF a])
  note finish = topo_ok_set_master [OF s1 same_shape_trans [OF sh finish_add_shape]]
  show ?thesis using assms(1) topo_ok_set_master [OF s1 sh] finish
    unfolding add_parsed_def Let_def s1_def [symmetric] a by (auto split: option.splits)
qed

text \<open>A new domain above all others.\<close>

lemma topo_ok_grow:
  assumes "topo_ok s0" "topology_crat_proximity_domain s0 \<noteq> - 1" "t_counted t" "same_master (top s0) t" "domains t = [topology_crat_proximity_domain s0 + 1]"
  shows "topo_ok (s0\<lparr>topology_crat_proximity_domain := topology_crat_proximity_domain s0 + 1, gpu_processor_id_low := i,
    top := opu_topology_update_device_list t\<rparr>)"
proof -
  let ?c = "topology_crat_proximity_domain s0"
  have "1 + ?c \<noteq> 0" using assms(2) by (simp add: add_eq_0_iff)
  then have lt: "?c < ?c + 1" using unatSuc [of ?c] by (simp add: word_less_nat_alt add.commute)
  have len: "length (device_list t) = 1" using arg_cong [OF assms(5), of length] by (simp add: domains_def)
  have m: "map proximity_domain (topology_device_list t) = map proximity_domain (topology_device_list (top s0))" "num_devices t = num_devices (top s0)"
    using assms(4) by (simp_all add: same_master_def master_domains_def)
  have l: "length (topology_device_list t) = length (topology_device_list (top s0))" using arg_cong [OF m(1), of length] by simp
  have old: "p \<le> ?c" if "p \<in> proximity_domain ` set (topology_device_list (top s0))" for p
    using assms(1) that by (auto simp: topo_ok_def master_domains_def list_all_iff)
  have fresh: "?c + 1 \<notin> proximity_domain ` set (topology_device_list (top s0))" using old lt by force
  have above: "p \<le> ?c + 1" if "p \<in> proximity_domain ` set (topology_device_list (top s0))" for p
    using old [OF that] lt by simp
  show ?thesis using assms(1,3,5) m len l fresh above
    by (auto simp: topo_ok_def opu_topology_update_device_list_eq master_domains_def domains_def t_counted_def list_all_iff simp flip: set_map)
qed

lemma topo_ok_counter:
  assumes "topo_ok s0" "topology_crat_proximity_domain s0 \<noteq> - 1"
  shows "topo_ok (s0\<lparr>topology_crat_proximity_domain := topology_crat_proximity_domain s0 + 1, top := (top s0)\<lparr>device_list := ds\<rparr>\<rparr>)"
proof -
  let ?c = "topology_crat_proximity_domain s0"
  have "1 + ?c \<noteq> 0" using assms(2) by (simp add: add_eq_0_iff)
  then have "?c < ?c + 1" using unatSuc [of ?c] by (simp add: word_less_nat_alt add.commute)
  then show ?thesis using assms(1) by (auto simp: topo_ok_def master_domains_def list_all_iff)
qed

lemma topo_ok_same_master:
  assumes "topo_ok s" "same_master (top s) t" "t_counted t"
  shows "topo_ok (s\<lparr>gpu_processor_id_low := i, top := t\<rparr>)"
proof -
  have m: "map proximity_domain (topology_device_list t) = map proximity_domain (topology_device_list (top s))" "num_devices t = num_devices (top s)"
    using assms(2) by (simp_all add: same_master_def master_domains_def)
  have "length (topology_device_list t) = length (topology_device_list (top s))" using arg_cong [OF m(1), of length] by simp
  then show ?thesis using assms(1,3) m by (simp add: topo_ok_def master_domains_def t_counted_def)
qed

text \<open>The state in which the table of a new GPU is parsed, and the device that the table gives.\<close>

definition gpu_start :: "topo \<Rightarrow> topo" where
  "gpu_start s0 = s0\<lparr>topology_crat_proximity_domain := topology_crat_proximity_domain s0 + 1, top := (top s0)\<lparr>device_list := []\<rparr>\<rparr>"

lemma gpu_start_facts:
  assumes "topo_ok s0" "topology_crat_proximity_domain s0 \<noteq> - 1"
  shows "topo_ok (gpu_start s0)" "t_counted (top (gpu_start s0))" "device_list (top (gpu_start s0)) = []" "same_master (top s0) (top (gpu_start s0))"
  using topo_ok_counter [OF assms] assms(1) by (simp_all add: gpu_start_def t_counted_def topo_ok_def)

lemma gpu_table_domain:
  assumes "opu_create_crat_image_virtual ok h (top (gpu_start s0)) 2 (Some g) pd ids = (Inside (0, img), ids')"
    "opu_parse_crat_table env img pd (top (gpu_start s0)) = Some (Inside (0, t))" "topo_ok s0" "topology_crat_proximity_domain s0 \<noteq> - 1"
  shows "domains t = [pd]"
proof -
  note c = gpu_start_facts [OF assms(3,4)]
  obtain bytes where img: "img = Some bytes" and d: "domains t = map (\<lambda>i. pd + of_nat i) [0..<unat (h_num_domains (header_at bytes))]"
    using opu_parse_crat_table_devices [OF assms(2) c(3,2)] by auto
  obtain hd es where "bytes = header_bytes hd @ table_bytes es" "table_ok hd es" "h_num_domains hd = 1"
    using vcrat_gpu_table [OF assms(1) [unfolded img] c(3), of env] by blast
  then show ?thesis using d header_at_bytes [of hd "table_bytes es"] by (simp add: table_ok_def)
qed

lemma gpu_parsed_ok:
  assumes "(case x of Fault \<Rightarrow> Fault | Inside (r, t) \<Rightarrow> if r \<noteq> 0 then Inside (r, (gpu_start s0)\<lparr>gpu_processor_id_low := ids', top := t\<rparr>)
      else Inside (add_parsed fw f k ((gpu_start s0)\<lparr>gpu_processor_id_low := ids', top := t\<rparr>))) = Inside (r, s')"
    "opu_parse_crat_table env img (topology_crat_proximity_domain s0 + 1) (top (gpu_start s0)) = Some x"
    "opu_create_crat_image_virtual ok h (top (gpu_start s0)) 2 (Some g) (topology_crat_proximity_domain s0 + 1) ids = (Inside (0, img), ids')"
    "topo_ok s0" "topology_crat_proximity_domain s0 \<noteq> - 1"
  shows "topo_ok s'"
proof -
  note c = gpu_start_facts [OF assms(4,5)]
  obtain r2 t where x: "x = Inside (r2, t)" using assms(1) by (cases x) auto
  note pt = opu_parse_crat_table_devices [OF assms(2) [unfolded x] c(3,2)]
  show ?thesis
  proof (cases "r2 = 0")
    case False
    then show ?thesis using assms(1) x topo_ok_same_master [OF c(1), of t ids'] pt by auto
  next
    case True
    have d: "domains t = [topology_crat_proximity_domain s0 + 1]"
      by (rule gpu_table_domain [OF assms(3) _ assms(4,5)]) (use assms(2) x True in simp)
    have "topo_ok ((gpu_start s0)\<lparr>gpu_processor_id_low := ids', top := opu_topology_update_device_list t\<rparr>)"
      using topo_ok_grow [OF assms(4,5) _ _ d, of ids'] pt same_master_trans [OF c(4), of t] by (simp add: gpu_start_def)
    moreover have "add_parsed fw f k ((gpu_start s0)\<lparr>gpu_processor_id_low := ids', top := t\<rparr>) = (r, s')" using assms(1) x True by simp
    ultimately show ?thesis using add_parsed_ok [of fw f k "(gpu_start s0)\<lparr>gpu_processor_id_low := ids', top := t\<rparr>" r s'] by simp
  qed
qed

lemma opu_topology_add_device_ok:
  assumes "opu_topology_add_device env fw h f k s0 = Some (Inside (r, s'))" "topo_ok s0" "topology_crat_proximity_domain s0 \<noteq> - 1"
  shows "topo_ok s'"
proof -
  let ?s = "gpu_start s0" and ?pd = "topology_crat_proximity_domain s0 + 1"
  have s: "topo_ok ?s" by (rule gpu_start_facts [OF assms(2,3)])
  obtain place ds where a: "opu_assign_gpu (gf_gpu f) k (topology_device_list (top ?s)) = (place, ds)" by fastforce
  obtain b ids where v: "opu_create_crat_image_virtual (vcrat_alloc_ok fw) h (top ?s) 2 (Some (gf_gpu f)) ?pd (gpu_processor_id_low ?s) = (b, ids)" by fastforce
  note ok = assms(1) [unfolded opu_topology_add_device_def Let_def, folded gpu_start_def, unfolded a v prod.case]
  show ?thesis
  proof (cases place)
    case (Some d)
    then show ?thesis using ok topo_ok_set_master [OF s same_shape_trans [OF opu_assign_gpu_shape [OF a] finish_add_shape]] by auto
  next
    case None
    then obtain q img where b: "b = Inside (q, img)" using ok by (cases b) auto
    show ?thesis
    proof (cases "q = 0")
      case False
      then show ?thesis using ok None b s by (auto simp: topo_ok_def)
    next
      case True
      then show ?thesis using ok None b gpu_parsed_ok [OF _ _ v [unfolded b True] assms(2,3)] by auto
    qed
  qed
qed

section \<open>The topology over the life of the driver\<close>

inductive topo_reach :: "topo \<Rightarrow> bool" where
  reach_init: "opu_topology_init env fw h s = Some (Inside (r, s')) \<Longrightarrow> topo_reach s'"
| reach_add: "topo_reach s \<Longrightarrow> topology_crat_proximity_domain s \<noteq> - 1 \<Longrightarrow>
    opu_topology_add_device env fw h f k s = Some (Inside (r, s')) \<Longrightarrow> topo_reach s'"
| reach_remove: "topo_reach s \<Longrightarrow> opu_topology_remove_device k s = (r, s') \<Longrightarrow> topo_reach s'"

text \<open>C11. From the start of the driver on, through any sequence of GPUs that are added and removed and whichever of these calls fail,
  the number of nodes in the system properties is the number of devices of the master list, no two devices have the same proximity
  domain, no domain is above the counter that the next GPU gets its domain from, and the counters of every device agree with its lists.\<close>

theorem topology_invariant:
  assumes "topo_reach s"
  shows "num_devices (top s) = of_nat (length (topology_device_list (top s))) \<and> distinct (map proximity_domain (topology_device_list (top s))) \<and>
    list_all (\<lambda>d. proximity_domain d \<le> topology_crat_proximity_domain s \<and> counted d) (topology_device_list (top s))"
proof -
  have "topo_ok s" using assms
    by (induction rule: topo_reach.induct)
      (blast intro: opu_topology_init_ok opu_topology_add_device_ok opu_topology_remove_device_ok)+
  then show ?thesis by (auto simp: topo_ok_def master_domains_def list_all_iff)
qed

lemma topology_init_parsed:
  assumes "plain_host h n" "always_allocates env" "vcrat_alloc_ok fw" "fst (opu_create_crat_image_acpi fw) \<noteq> 0" "sysfs_result fw = 0"
  shows "\<exists>s'. opu_topology_init env fw h s = Some (Inside (0, s')) \<and> num_devices (top s') = of_nat n \<and> generation_count (top s') = 1 \<and>
    topology_crat_proximity_domain s' = of_nat n - 1 \<and>
    topology_device_list (top s') =
      upd_head (opu_add_non_crat_information fw) (map (\<lambda>nid. node_device env h n nid (new_device h n nid)) [0..<n])"
proof -
  define s0 where "s0 = s\<lparr>top := (top s)\<lparr>device_list := [], topology_device_list := [], num_devices := 0, generation_count := 0\<rparr>,
            platform_id := 0, platform_oem := 0, platform_rev := 0\<rparr>"
  have n: "length (online_nodes h) = n" "0 < n" using assms(1) by (simp_all add: plain_host_def)
  have d0: "device_list (top s0) = []" by (simp add: s0_def)
  obtain img t where create: "opu_create_vcrat_image_cpu h (int (vcrat_cpu_size n)) = (0, img)"
    and parse: "opu_parse_crat_table env (Some img) 0 (top s0) = Some (Inside (0, t))" "topology_device_list t = topology_device_list (top s0)"
      "device_list t = map (\<lambda>nid. node_device env h n nid (new_device h n nid)) [0..<n]"
    using vcrat_cpu_parsed [OF assms(1,2) d0] by blast
  have keep: "num_devices t = 0" "generation_count t = 0"
    using opu_parse_crat_table_devices [OF parse(1) d0] by (simp_all add: t_counted_def s0_def same_master_def)
  have virt: "opu_create_crat_image_virtual True h (top s0) (Suc 0) None 0 (gpu_processor_id_low s0) = (Inside (0, Some img), gpu_processor_id_low s0)"
    using create n(1) by (simp add: opu_create_crat_image_virtual_def)
  obtain r acpi_img where r: "opu_create_crat_image_acpi fw = (r, acpi_img)" "r \<noteq> 0" using assms(4) by (cases "opu_create_crat_image_acpi fw") simp
  have "opu_topology_init env fw h s = init_virtual env fw h s0"
    using r by (simp add: opu_topology_init_def s0_def Let_def)
  also have "\<dots> = Some (finish_init fw True (s0\<lparr>top := t\<rparr>))"
    using virt parse(1) assms(3) by (simp add: init_virtual_def)
  finally have init: "opu_topology_init env fw h s = Some (finish_init fw True (s0\<lparr>top := t\<rparr>))" .
  show ?thesis using n(2) parse(2,3) keep assms(5)
    by (simp add: init finish_init_def Let_def opu_topology_update_device_list_eq opu_update_system_properties_def s0_def)
qed


definition plain_firmware :: firmware where
  "plain_firmware = \<lparr>ignore_crat = False, acpi_crat = ACPI_Not_Found, acpi_alloc_ok = True, vcrat_alloc_ok = True, sysfs_result = 0,
     dmi_entries = [(17, 0x28, replicate 6 0 @ [64, 0] @ replicate 9 0 @ [0x80, 0x0C])]\<rparr>"

definition fresh_topo :: topo where
  "fresh_topo = \<lparr>top = no_devices, platform_id = 0, platform_oem = 0, platform_rev = 0, topology_crat_proximity_domain = 0,
     gpu_processor_id_low = 0x80001000\<rparr>"

lemma two_node_host_plain: "plain_host two_node_host 2"
  by (simp add: plain_host_def two_node_host_def opu_numa_node_to_apic_id_def opu_cpumask_to_apic_id_def node_cpus_def upt_rec Let_def)

lemma plain_environment:
  "always_allocates sample_env" "vcrat_alloc_ok plain_firmware" "fst (opu_create_crat_image_acpi plain_firmware) \<noteq> 0" "sysfs_result plain_firmware = 0"
  by (simp_all add: always_allocates_def sample_env_def plain_firmware_def opu_create_crat_image_acpi_def)


theorem topology_invariant_witness:
  "\<exists>s. topo_reach s \<and> num_devices (top s) = 2 \<and> length (topology_device_list (top s)) = 2 \<and> distinct (map proximity_domain (topology_device_list (top s)))"
proof -
  obtain s where s: "opu_topology_init sample_env plain_firmware two_node_host fresh_topo = Some (Inside (0, s))" "num_devices (top s) = of_nat 2"
      "topology_device_list (top s) = upd_head (opu_add_non_crat_information plain_firmware)
        (map (\<lambda>nid. node_device sample_env two_node_host 2 nid (new_device two_node_host 2 nid)) [0..<2])"
    using topology_init_parsed [OF two_node_host_plain plain_environment, of fresh_topo] by blast
  have r: "topo_reach s" by (rule reach_init [OF s(1)])
  have "length (topology_device_list (top s)) = 2" unfolding s(3) by (simp add: upd_head_def upt_rec)
  then show ?thesis using topology_invariant [OF r] r s(2) by auto
qed

end
