(* ===== verification/Opu_Flat_Memory.thy ===== *)
theory Opu_Flat_Memory
  imports Opu_Topology_Props
begin

text \<open>
  The apertures of a process on each GPU (\<open>opu_flat_memory.c\<close>): the addresses of group memory (LDS), of scratch memory and of the
  memory that the GPU translates. The GPUs are those of the topology, which the loop enumerates by place.
\<close>

section \<open>Apertures\<close>

record apertures =
  lds_base :: u64
  lds_limit :: u64
  gpuvm_base :: u64
  gpuvm_limit :: u64
  scratch_base :: u64
  scratch_limit :: u64
  cwsr_base :: u64
  ib_base :: u64

definition no_apertures :: apertures where
  "no_apertures = \<lparr>lds_base = 0, lds_limit = 0, gpuvm_base = 0, gpuvm_limit = 0, scratch_base = 0, scratch_limit = 0, cwsr_base = 0, ib_base = 0\<rparr>"

abbreviation MAKE_GPUVM_APP_BASE_VI :: "u64 \<Rightarrow> u64" where
  "MAKE_GPUVM_APP_BASE_VI gpu_num \<equiv> push_bit 61 gpu_num + 0x1000000000000"
abbreviation MAKE_GPUVM_APP_LIMIT :: "u64 \<Rightarrow> u64 \<Rightarrow> u64" where
  "MAKE_GPUVM_APP_LIMIT base sz \<equiv> (base AND 0xFFFFFF0000000000) + sz - 1"
abbreviation MAKE_SCRATCH_APP_BASE_VI :: u64 where "MAKE_SCRATCH_APP_BASE_VI \<equiv> push_bit 61 1 + 0x100000000"
abbreviation MAKE_SCRATCH_APP_LIMIT :: "u64 \<Rightarrow> u64" where
  "MAKE_SCRATCH_APP_LIMIT base \<equiv> (base AND 0xFFFFFFFF00000000) OR 0xFFFFFFFF"
abbreviation MAKE_LDS_APP_BASE_VI :: u64 where "MAKE_LDS_APP_BASE_VI \<equiv> push_bit 61 1 + 0"
abbreviation MAKE_LDS_APP_LIMIT :: "u64 \<Rightarrow> u64" where
  "MAKE_LDS_APP_LIMIT base \<equiv> (base AND 0xFFFFFFFF00000000) OR 0xFFFFFFFF"
abbreviation MAKE_LDS_APP_BASE_V9 :: u64 where "MAKE_LDS_APP_BASE_V9 \<equiv> push_bit 48 1"
abbreviation MAKE_SCRATCH_APP_BASE_V9 :: u64 where "MAKE_SCRATCH_APP_BASE_V9 \<equiv> push_bit 48 2"
abbreviation SVM_USER_BASE :: u64 where "SVM_USER_BASE \<equiv> 0x1000000"
abbreviation SVM_CWSR_BASE :: u64 where "SVM_CWSR_BASE \<equiv> SVM_USER_BASE - 0x2000"
abbreviation SVM_IB_BASE :: u64 where "SVM_IB_BASE \<equiv> SVM_CWSR_BASE - PAGE_SIZE"

text \<open>What the functions read of the GPU with a given number, and of the process.\<close>

record flat_env =
  fe_family :: "nat \<Rightarrow> asic_family"
  fe_iommu_v2 :: "nat \<Rightarrow> bool"
  fe_gpuvm_size :: "nat \<Rightarrow> u64"
  fe_denied :: "nat \<Rightarrow> bool"
  fe_pdd_ok :: "nat \<Rightarrow> bool"
  is_32bit_user_mode :: bool

definition opu_init_apertures_vi :: "flat_env \<Rightarrow> nat \<Rightarrow> u8 \<Rightarrow> apertures \<Rightarrow> apertures" where
  "opu_init_apertures_vi fe k idn a =
     (let a1 = a\<lparr>lds_base := MAKE_LDS_APP_BASE_VI, lds_limit := MAKE_LDS_APP_LIMIT MAKE_LDS_APP_BASE_VI\<rparr>;
          vm = MAKE_GPUVM_APP_BASE_VI (ucast idn + 1);
          a2 = (if \<not> fe_iommu_v2 fe k then a1\<lparr>gpuvm_base := SVM_USER_BASE, gpuvm_limit := fe_gpuvm_size fe k - 1\<rparr>
                else a1\<lparr>gpuvm_base := vm, gpuvm_limit := MAKE_GPUVM_APP_LIMIT vm (fe_gpuvm_size fe k)\<rparr>)
      in a2\<lparr>scratch_base := MAKE_SCRATCH_APP_BASE_VI, scratch_limit := MAKE_SCRATCH_APP_LIMIT MAKE_SCRATCH_APP_BASE_VI\<rparr>)"

definition opu_init_apertures_v9 :: "flat_env \<Rightarrow> nat \<Rightarrow> apertures \<Rightarrow> apertures" where
  "opu_init_apertures_v9 fe k a = a\<lparr>lds_base := MAKE_LDS_APP_BASE_V9, lds_limit := MAKE_LDS_APP_LIMIT MAKE_LDS_APP_BASE_V9,
     gpuvm_base := SVM_USER_BASE, gpuvm_limit := fe_gpuvm_size fe k - 1,
     scratch_base := MAKE_SCRATCH_APP_BASE_V9, scratch_limit := MAKE_SCRATCH_APP_LIMIT MAKE_SCRATCH_APP_BASE_V9\<rparr>"

definition vi_family :: "asic_family \<Rightarrow> bool" where
  "vi_family f \<longleftrightarrow> f \<in> {CHIP_KAVERI, CHIP_HAWAII, CHIP_CARRIZO, CHIP_TONGA, CHIP_FIJI, CHIP_POLARIS10, CHIP_POLARIS11, CHIP_POLARIS12, CHIP_VEGAM}"

text \<open>The apertures of one GPU; \<open>None\<close> is an unexpected chip.\<close>

definition init_pdd :: "flat_env \<Rightarrow> nat \<Rightarrow> u8 \<Rightarrow> apertures \<Rightarrow> apertures option" where
  "init_pdd fe k idn a =
     (if is_32bit_user_mode fe
      then Some (a\<lparr>lds_base := 0, lds_limit := 0, gpuvm_base := 0, gpuvm_limit := 0, scratch_base := 0, scratch_limit := 0\<rparr>)
      else
        let reserve = (\<lambda>a. if \<not> fe_iommu_v2 fe k then a\<lparr>cwsr_base := SVM_CWSR_BASE, ib_base := SVM_IB_BASE\<rparr> else a)
        in case fe_family fe k of
             CHIP_OTHER _ \<Rightarrow> None
           | f \<Rightarrow> Some (reserve (if vi_family f then opu_init_apertures_vi fe k idn a else opu_init_apertures_v9 fe k a)))"

text \<open>The loop over the devices, with the structures created so far; \<open>None\<close> is a loop that does not end.\<close>

partial_function (option) aperture_loop :: "flat_env \<Rightarrow> topology \<Rightarrow> u8 \<Rightarrow> (nat \<times> apertures) list \<Rightarrow> (int \<times> (nat \<times> apertures) list) option" where
  "aperture_loop fe t idn pdds =
     (case opu_topology_enum_opu_devices idn t of (r, g) \<Rightarrow>
        if r \<noteq> 0 then Some (0, pdds)
        else case g of
               None \<Rightarrow> aperture_loop fe t (idn + 1) pdds
             | Some k \<Rightarrow>
                 if fe_denied fe k then aperture_loop fe t (idn + 1) pdds
                 else if \<not> fe_pdd_ok fe k then Some (- ENOMEM, pdds)
                 else case init_pdd fe k idn no_apertures of
                        None \<Rightarrow> Some (- EINVAL, pdds @ [(k, no_apertures)])
                      | Some a \<Rightarrow> aperture_loop fe t (idn + 1) (pdds @ [(k, a)]))"

definition opu_init_apertures :: "flat_env \<Rightarrow> topology \<Rightarrow> (int \<times> (nat \<times> apertures) list) option" where
  "opu_init_apertures fe t = aperture_loop fe t 0 []"

section \<open>Enumeration\<close>

text \<open>With fewer than 256 devices the index names the place in the list.\<close>

lemma unat_next_u8:
  assumes "unat (x :: u8) < unat (y :: u8)"
  shows "unat (x + 1) = Suc (unat x)"
proof -
  have "unat (- 1 :: u8) = 255" by (simp add: unsigned_minus_1_eq_mask mask_eq_exp_minus_1)
  moreover have "unat y < 256" using unsigned_less [of y] by simp
  ultimately have "x \<noteq> - 1" using assms by auto
  then have "1 + x \<noteq> 0" by (simp add: add_eq_0_iff)
  then show ?thesis using unatSuc [of x] by (simp add: add.commute)
qed

lemma enum_loop_nth:
  assumes "unat dx + length ds \<le> 256" "unat dx \<le> unat idx"
  shows "enum_loop idx dx ds = (if unat idx - unat dx < length ds then (0, tgpu (ds ! (unat idx - unat dx))) else (- 1, None))"
  using assms
proof (induction ds arbitrary: dx)
  case (Cons d ds)
  show ?case
  proof (cases "dx = idx")
    case False
    then have lt: "unat dx < unat idx" using Cons.prems(2) by (simp add: order_less_le word_unat_eq_iff)
    note s = unat_next_u8 [OF lt]
    have "enum_loop idx (dx + 1) ds = (if unat idx - unat (dx + 1) < length ds then (0, tgpu (ds ! (unat idx - unat (dx + 1)))) else (- 1, None))"
      by (rule Cons.IH) (use s lt Cons.prems in simp_all)
    moreover have "unat idx - unat dx = Suc (unat idx - unat (dx + 1))" using s lt by simp
    ultimately show ?thesis using False by simp
  qed simp
qed simp

lemma enum_nth:
  assumes "length (topology_device_list t) \<le> 256"
  shows "opu_topology_enum_opu_devices idx t =
    (if unat idx < length (topology_device_list t) then (0, tgpu (topology_device_list t ! unat idx)) else (- 1, None))"
  using enum_loop_nth [of 0 "topology_device_list t" idx] assms by (simp add: opu_topology_enum_opu_devices_def)

section \<open>What the loop leaves\<close>

text \<open>Two areas, each given by its first and last address, that do not meet.\<close>

definition areas_apart :: "u64 \<times> u64 \<Rightarrow> u64 \<times> u64 \<Rightarrow> bool" where
  "areas_apart x y \<longleftrightarrow> snd x < fst y \<or> snd y < fst x"

definition apertures_ok :: "apertures \<Rightarrow> bool" where
  "apertures_ok a \<longleftrightarrow> lds_limit a = lds_base a + 0xFFFFFFFF \<and> scratch_limit a = scratch_base a + 0xFFFFFFFF \<and> gpuvm_base a \<le> gpuvm_limit a \<and>
     areas_apart (lds_base a, lds_limit a) (scratch_base a, scratch_limit a) \<and> areas_apart (lds_base a, lds_limit a) (gpuvm_base a, gpuvm_limit a) \<and>
     areas_apart (scratch_base a, scratch_limit a) (gpuvm_base a, gpuvm_limit a)"

lemma unat_limit:
  assumes "s \<noteq> 0" "unat (c :: u64) + unat s < 2 ^ 64"
  shows "unat (c + s - 1) = unat c + unat s - 1"
proof -
  have add: "unat (c + s) = unat c + unat s" using assms(2) by (simp add: unat_word_ariths)
  have "0 < unat s" using assms(1) by (simp add: unat_gt_0)
  then have "c + s \<noteq> 0" using add by (metis add_is_0 less_irrefl unsigned_0)
  then show ?thesis using unat_minus_one [of "c + s"] add by simp
qed

lemma three_bits: "\<exists>m < 8. push_bit 61 (x :: u64) = push_bit 61 (of_nat m)"
proof (intro exI [of _ "unat (take_bit 3 x)"] conjI)
  show "unat (take_bit 3 x) < 8" unfolding unsigned_take_bit_eq using take_bit_nat_less_exp [of 3 "unat x"] by simp
  show "push_bit 61 x = push_bit 61 (of_nat (unat (take_bit 3 x)))"
    by (rule bit_word_eqI) (auto simp: bit_simps)
qed

lemma three_bit_cases: "(m :: nat) < 8 \<Longrightarrow> m = 0 \<or> m = 1 \<or> m = 2 \<or> m = 3 \<or> m = 4 \<or> m = 5 \<or> m = 6 \<or> m = 7"
  by auto

lemma vm_aperture:
  assumes "m < 8" "s \<noteq> 0" "s \<le> 0x800000000000"
  defines "b \<equiv> push_bit 61 (of_nat m) + 0x1000000000000 :: u64"
  shows "b \<le> MAKE_GPUVM_APP_LIMIT b s" "areas_apart (MAKE_LDS_APP_BASE_VI, MAKE_LDS_APP_LIMIT MAKE_LDS_APP_BASE_VI) (b, MAKE_GPUVM_APP_LIMIT b s)"
    "areas_apart (MAKE_SCRATCH_APP_BASE_VI, MAKE_SCRATCH_APP_LIMIT MAKE_SCRATCH_APP_BASE_VI) (b, MAKE_GPUVM_APP_LIMIT b s)"
proof -
  have s: "0 < unat s" "unat s \<le> 0x800000000000" using assms(2,3) by (simp_all add: unat_gt_0 word_le_nat_alt)
  have b: "b AND 0xFFFFFF0000000000 = b" "unat b + unat s < 2 ^ 64" "m = 0 \<and> b = 0x1000000000000 \<or> 0x2001000000000000 \<le> b"
    using three_bit_cases [OF assms(1)] s unfolding b_def by auto
  note l = unat_limit [OF assms(2) b(2)]
  show "b \<le> MAKE_GPUVM_APP_LIMIT b s" unfolding b(1) using l s by (simp add: word_le_nat_alt)
  have low: "MAKE_GPUVM_APP_LIMIT b s < MAKE_LDS_APP_BASE_VI" if "b = 0x1000000000000"
    unfolding b(1) using l s that by (simp add: word_less_nat_alt)
  have high: "MAKE_LDS_APP_LIMIT MAKE_LDS_APP_BASE_VI < b" "MAKE_SCRATCH_APP_LIMIT MAKE_SCRATCH_APP_BASE_VI < b" if "0x2001000000000000 \<le> b"
    using that by (simp_all add: word_less_nat_alt word_le_nat_alt)
  show "areas_apart (MAKE_LDS_APP_BASE_VI, MAKE_LDS_APP_LIMIT MAKE_LDS_APP_BASE_VI) (b, MAKE_GPUVM_APP_LIMIT b s)"
    using b(3) low high by (auto simp: areas_apart_def)
  have "MAKE_LDS_APP_BASE_VI < MAKE_SCRATCH_APP_BASE_VI" by simp
  then show "areas_apart (MAKE_SCRATCH_APP_BASE_VI, MAKE_SCRATCH_APP_LIMIT MAKE_SCRATCH_APP_BASE_VI) (b, MAKE_GPUVM_APP_LIMIT b s)"
    using b(3) low high(2) unfolding areas_apart_def fst_conv snd_conv by (meson order_less_trans)
qed

definition sizes_ok :: "flat_env \<Rightarrow> bool" where
  "sizes_ok fe \<longleftrightarrow> (\<forall>k. SVM_USER_BASE < fe_gpuvm_size fe k \<and> fe_gpuvm_size fe k \<le> 0x800000000000)"

lemma svm_aperture:
  assumes "SVM_USER_BASE < s" "s \<le> 0x800000000000"
  shows "SVM_USER_BASE \<le> s - 1" "s - 1 < 0x800000000000"
proof -
  have "s \<noteq> 0" using assms(1) by auto
  then have "unat (s - 1) = unat s - 1" by (rule unat_minus_one)
  then show "SVM_USER_BASE \<le> s - 1" "s - 1 < 0x800000000000" using assms by (simp_all add: word_less_nat_alt word_le_nat_alt)
qed

lemma opu_init_apertures_vi_ok:
  assumes "sizes_ok fe"
  shows "apertures_ok (opu_init_apertures_vi fe k idn a)"
proof -
  let ?s = "fe_gpuvm_size fe k"
  have s: "SVM_USER_BASE < ?s" "?s \<le> 0x800000000000" using assms by (simp_all add: sizes_ok_def)
  note svm = svm_aperture [OF s]
  have s0: "?s \<noteq> 0" using s(1) by auto
  obtain m where m: "m < 8" "push_bit 61 (ucast idn + 1 :: u64) = push_bit 61 (of_nat m)" using three_bits by blast
  note vm = vm_aperture [OF m(1) s0 s(2), folded m(2)]
  have far: "?s - 1 < 0x2000000000000000" "?s - 1 < 0x2000000100000000" using svm(2) by (simp_all add: word_less_nat_alt)
  show ?thesis using svm far vm by (simp add: opu_init_apertures_vi_def Let_def apertures_ok_def areas_apart_def)
qed

lemma opu_init_apertures_v9_ok:
  assumes "sizes_ok fe"
  shows "apertures_ok (opu_init_apertures_v9 fe k a)"
proof -
  let ?s = "fe_gpuvm_size fe k"
  have s: "SVM_USER_BASE < ?s" "?s \<le> 0x800000000000" using assms by (simp_all add: sizes_ok_def)
  note svm = svm_aperture [OF s]
  have "?s - 1 < 0x1000000000000" "?s - 1 < 0x2000000000000" using svm(2) by (simp_all add: word_less_nat_alt)
  then show ?thesis using svm by (simp add: opu_init_apertures_v9_def apertures_ok_def areas_apart_def)
qed

lemma init_pdd_ok:
  assumes "sizes_ok fe" "\<not> is_32bit_user_mode fe" "init_pdd fe k idn a0 = Some a"
  shows "apertures_ok a" "\<not> fe_iommu_v2 fe k \<Longrightarrow> gpuvm_base a = SVM_USER_BASE \<and> cwsr_base a + 0x2000 = gpuvm_base a \<and> ib_base a + PAGE_SIZE = cwsr_base a"
proof -
  let ?r = "\<lambda>a. if \<not> fe_iommu_v2 fe k then a\<lparr>cwsr_base := SVM_CWSR_BASE, ib_base := SVM_IB_BASE\<rparr> else a"
  have keep: "apertures_ok (?r x) = apertures_ok x" for x by (simp add: apertures_ok_def)
  have a: "a = ?r (opu_init_apertures_vi fe k idn a0) \<or> a = ?r (opu_init_apertures_v9 fe k a0)"
    using assms(2,3) by (simp add: init_pdd_def Let_def split: asic_family.splits if_splits)
  then show "apertures_ok a" using keep opu_init_apertures_vi_ok [OF assms(1)] opu_init_apertures_v9_ok [OF assms(1)] by blast
  show "gpuvm_base a = SVM_USER_BASE \<and> cwsr_base a + 0x2000 = gpuvm_base a \<and> ib_base a + PAGE_SIZE = cwsr_base a" if "\<not> fe_iommu_v2 fe k"
    using a that by (auto simp: opu_init_apertures_vi_def opu_init_apertures_v9_def Let_def)
qed

text \<open>The structures of the loop when it succeeds: those of the GPUs that the process may use, in the order of the list.\<close>

definition visible_gpus :: "flat_env \<Rightarrow> opu_topology_device list \<Rightarrow> nat list" where
  "visible_gpus fe ds = filter (\<lambda>k. \<not> fe_denied fe k) (concat (map (\<lambda>d. case tgpu d of None \<Rightarrow> [] | Some k \<Rightarrow> [k]) ds))"

lemma visible_gpus_Cons: "visible_gpus fe (d # ds) = (case tgpu d of None \<Rightarrow> [] | Some k \<Rightarrow> if fe_denied fe k then [] else [k]) @ visible_gpus fe ds"
  by (simp add: visible_gpus_def split: option.split)

lemma unat_place: "i \<le> n \<Longrightarrow> n < 256 \<Longrightarrow> unat (of_nat i :: u8) = i"
  by (simp add: unsigned_of_nat take_bit_nat_eq_self)

lemma aperture_loop_last:
  assumes "length (topology_device_list t) < 256"
  shows "aperture_loop fe t (of_nat (length (topology_device_list t))) pdds = Some (0, pdds)"
  using assms unat_place [OF order_refl assms] by (subst aperture_loop.simps) (simp add: enum_nth)

lemma aperture_loop_step:
  assumes "length (topology_device_list t) < 256" "i < length (topology_device_list t)"
  shows "aperture_loop fe t (of_nat i) pdds =
    (case tgpu (topology_device_list t ! i) of
       None \<Rightarrow> aperture_loop fe t (of_nat (Suc i)) pdds
     | Some k \<Rightarrow>
         if fe_denied fe k then aperture_loop fe t (of_nat (Suc i)) pdds
         else if \<not> fe_pdd_ok fe k then Some (- ENOMEM, pdds)
         else case init_pdd fe k (of_nat i) no_apertures of
                None \<Rightarrow> Some (- EINVAL, pdds @ [(k, no_apertures)])
              | Some a \<Rightarrow> aperture_loop fe t (of_nat (Suc i)) (pdds @ [(k, a)]))"
proof -
  have n: "(of_nat i :: u8) + 1 = of_nat (Suc i)" by simp
  have "opu_topology_enum_opu_devices (of_nat i) t = (0, tgpu (topology_device_list t ! i))"
    using assms unat_place [of i "length (topology_device_list t)"] by (simp add: enum_nth)
  then show ?thesis by (subst aperture_loop.simps) (simp only: n prod.case simp_thms if_False)
qed

lemma aperture_loop_ends:
  assumes "length (topology_device_list t) < 256" "i \<le> length (topology_device_list t)" "sizes_ok fe" "\<not> is_32bit_user_mode fe"
    "list_all (\<lambda>p. apertures_ok (snd p)) pdds"
  shows "\<exists>r new. aperture_loop fe t (of_nat i) pdds = Some (r, pdds @ new) \<and>
    (r = 0 \<longrightarrow> map fst new = visible_gpus fe (drop i (topology_device_list t)) \<and> list_all (\<lambda>p. apertures_ok (snd p)) (pdds @ new))"
  using assms(2,5)
proof (induction "length (topology_device_list t) - i" arbitrary: i pdds)
  case 0
  then have "i = length (topology_device_list t)" by simp
  then show ?case using 0 aperture_loop_last [OF assms(1), of fe pdds] by (intro exI [of _ 0] exI [of _ "[]"]) (simp add: visible_gpus_def)
next
  case (Suc m)
  let ?ds = "topology_device_list t"
  have i: "i < length ?ds" "m = length ?ds - Suc i" "Suc i \<le> length ?ds" using Suc.hyps(2) by simp_all
  have d: "drop i ?ds = ?ds ! i # drop (Suc i) ?ds" by (rule Cons_nth_drop_Suc [OF i(1), symmetric])
  note IH = Suc.hyps(1) [OF i(2,3)] and step = aperture_loop_step [OF assms(1) i(1), of fe pdds]
  show ?case
  proof (cases "\<exists>k a. tgpu (?ds ! i) = Some k \<and> \<not> fe_denied fe k \<and> fe_pdd_ok fe k \<and> init_pdd fe k (of_nat i) no_apertures = Some a")
    case False
    then show ?thesis using step IH [OF Suc.prems(2)] by (auto simp: d visible_gpus_Cons split: option.splits)
  next
    case True
    then obtain k a where k: "tgpu (?ds ! i) = Some k" "\<not> fe_denied fe k" "fe_pdd_ok fe k" and a: "init_pdd fe k (of_nat i) no_apertures = Some a" by blast
    have "list_all (\<lambda>p. apertures_ok (snd p)) (pdds @ [(k, a)])" using Suc.prems(2) init_pdd_ok(1) [OF assms(3,4) a] by simp
    then obtain r new where new: "aperture_loop fe t (of_nat (Suc i)) (pdds @ [(k, a)]) = Some (r, (pdds @ [(k, a)]) @ new)"
        "r = 0 \<longrightarrow> map fst new = visible_gpus fe (drop (Suc i) ?ds) \<and> list_all (\<lambda>p. apertures_ok (snd p)) ((pdds @ [(k, a)]) @ new)"
      using IH by blast
    have "aperture_loop fe t (of_nat i) pdds = Some (r, pdds @ (k, a) # new)" using step k a new(1) by simp
    then show ?thesis using new(2) k by (intro exI [of _ r] exI [of _ "(k, a) # new"]) (simp add: d visible_gpus_Cons)
  qed
qed

lemma aperture_loop_code: "aperture_loop fe t i p = Some x \<Longrightarrow> fst x \<le> 0"
proof (induction rule: aperture_loop.raw_induct [rotated, consumes 1, case_names step])
  case (step f fe t i p x)
  then show ?case by (auto split: prod.splits if_splits option.splits)
qed

text \<open>C17. With fewer than 256 devices, preparing the apertures of a 64-bit process ends. When it succeeds, every GPU that the process may
  use has apertures, in the order of the topology, and on each the 4 GB of group memory, the 4 GB of scratch memory and the
  memory that the GPU translates do not meet.\<close>

theorem opu_init_apertures_disjoint:
  assumes "length (topology_device_list t) < 256" "sizes_ok fe" "\<not> is_32bit_user_mode fe"
  shows "\<exists>r pdds. opu_init_apertures fe t = Some (r, pdds) \<and>
    (if r = 0 then map fst pdds = visible_gpus fe (topology_device_list t) \<and> list_all (\<lambda>p. apertures_ok (snd p)) pdds else r < 0)"
proof -
  obtain r new where l: "aperture_loop fe t 0 [] = Some (r, new)"
    "r = 0 \<longrightarrow> map fst new = visible_gpus fe (topology_device_list t) \<and> list_all (\<lambda>p. apertures_ok (snd p)) new"
    using aperture_loop_ends [OF assms(1) _ assms(2,3), of 0 "[]"] by auto
  have "r = 0 \<or> r < 0" using aperture_loop_code [OF l(1)] by auto
  then show ?thesis using l unfolding opu_init_apertures_def by auto
qed

definition one_gpu_topology :: topology where
  "one_gpu_topology = no_devices\<lparr>topology_device_list := [zero_device, zero_device\<lparr>proximity_domain := 1, tgpu := Some 0\<rparr>], num_devices := 2\<rparr>"

definition vega_env :: flat_env where
  "vega_env = \<lparr>fe_family = (\<lambda>_. CHIP_VEGA10), fe_iommu_v2 = (\<lambda>_. False), fe_gpuvm_size = (\<lambda>_. 0x800000000000), fe_denied = (\<lambda>_. False),
     fe_pdd_ok = (\<lambda>_. True), is_32bit_user_mode = False\<rparr>"

theorem opu_init_apertures_disjoint_witness:
  "\<exists>a. opu_init_apertures vega_env one_gpu_topology = Some (0, [(0, a)]) \<and> apertures_ok a"
proof -
  have e: "opu_topology_enum_opu_devices 0 one_gpu_topology = (0, None)" "opu_topology_enum_opu_devices 1 one_gpu_topology = (0, Some 0)"
    "opu_topology_enum_opu_devices 2 one_gpu_topology = (- 1, None)"
    by (simp_all add: opu_topology_enum_opu_devices_def one_gpu_topology_def zero_device_def)
  have v: "init_pdd vega_env 0 1 no_apertures \<noteq> None" "fe_denied vega_env 0 = False" "fe_pdd_ok vega_env 0 = True"
    by (simp_all add: init_pdd_def vega_env_def)
  obtain a where a: "init_pdd vega_env 0 1 no_apertures = Some a" using v(1) by blast
  have "aperture_loop vega_env one_gpu_topology 2 [(0, a)] = Some (0, [(0, a)])" by (subst aperture_loop.simps) (simp add: e)
  then have "aperture_loop vega_env one_gpu_topology 1 [] = Some (0, [(0, a)])" by (subst aperture_loop.simps) (simp add: e v a)
  then have "opu_init_apertures vega_env one_gpu_topology = Some (0, [(0, a)])"
    unfolding opu_init_apertures_def by (subst aperture_loop.simps) (simp add: e)
  moreover have "length (topology_device_list one_gpu_topology) < 256" "sizes_ok vega_env" "\<not> is_32bit_user_mode vega_env"
    by (simp_all add: one_gpu_topology_def sizes_ok_def vega_env_def)
  ultimately show ?thesis using opu_init_apertures_disjoint [of one_gpu_topology vega_env] by auto
qed

end
