(* ===== verification/Opu_Smi.thy ===== *)
theory Opu_Smi
  imports Opu_Interrupt Opu_Crat
begin

text \<open>
  System management events (\<open>opu_smi_events.c\<close>): a process opens a file on a device, writes the mask of the events it wants and
  reads lines of text, which the driver puts into a FIFO of bytes per client. The ids of the clients stand for their files.
\<close>

section \<open>Clients\<close>

abbreviation EAGAIN :: int where "EAGAIN \<equiv> 11"
abbreviation MAX_KFIFO_SIZE :: nat where "MAX_KFIFO_SIZE \<equiv> 1024"

record kfd_smi_client =
  cl_file :: nat
  cl_fifo :: kfifo
  cl_events :: u64
  cl_wakeups :: nat

record smi_dev =
  smi_clients :: "kfd_smi_client list"
  reset_seq_num :: u32

definition kfd_smi_ev_poll :: "kfd_smi_client \<Rightarrow> bool" where
  "kfd_smi_ev_poll c \<longleftrightarrow> kfifo_data (cl_fifo c) \<noteq> []"

text \<open>\<open>sizeof(buf)\<close> is the size of a pointer. The bytes that were taken, and the code that the caller gets.\<close>

definition kfd_smi_ev_read :: "bool \<Rightarrow> bool \<Rightarrow> nat \<Rightarrow> kfd_smi_client \<Rightarrow> int \<times> u8 list \<times> kfd_smi_client" where
  "kfd_smi_ev_read alloc_ok copy_ok sz c =
     (if \<not> alloc_ok then (- ENOMEM, [], c)
      else if length (kfifo_data (cl_fifo c)) = 0 then (- EAGAIN, [], c)
      else
        let to_copy = min sz (min 8 (length (kfifo_data (cl_fifo c))))
        in case kfifo_out (cl_fifo c) to_copy of (r, bs, f) \<Rightarrow>
             let c1 = c\<lparr>cl_fifo := f\<rparr>
             in if r = 0 then (- EAGAIN, bs, c1) else if \<not> copy_ok then (- EFAULT, bs, c1) else (int to_copy, bs, c1))"

definition kfd_smi_ev_write :: "bool \<Rightarrow> u8 list \<Rightarrow> kfd_smi_client \<Rightarrow> int \<times> kfd_smi_client" where
  "kfd_smi_ev_write user_ok user c =
     (if \<not> user_ok \<or> length user < 8 then (- EFAULT, c) else (8, c\<lparr>cl_events := le_word (take 8 user)\<rparr>))"

definition kfd_smi_ev_release :: "nat \<Rightarrow> smi_dev \<Rightarrow> smi_dev" where
  "kfd_smi_ev_release file d = d\<lparr>smi_clients := filter (\<lambda>c. cl_file c \<noteq> file) (smi_clients d)\<rparr>"

definition new_client :: "nat \<Rightarrow> kfd_smi_client" where
  "new_client file = \<lparr>cl_file = file, cl_fifo = \<lparr>kfifo_data = [], kfifo_size = MAX_KFIFO_SIZE\<rparr>, cl_events = 0, cl_wakeups = 0\<rparr>"

text \<open>The outcome of the three allocations; the last one gives the file.\<close>

definition kfd_smi_event_open :: "bool \<Rightarrow> int \<Rightarrow> int + nat \<Rightarrow> smi_dev \<Rightarrow> int \<times> smi_dev" where
  "kfd_smi_event_open client_ok fifo_result file_result d =
     (if \<not> client_ok then (- ENOMEM, d)
      else if fifo_result \<noteq> 0 then (fifo_result, d)
      else case file_result of
             Inl e \<Rightarrow> (e, d)
           | Inr file \<Rightarrow> (0, d\<lparr>smi_clients := new_client file # smi_clients d\<rparr>))"

section \<open>Events\<close>

abbreviation KFD_SMI_EVENT_VMFAULT :: nat where "KFD_SMI_EVENT_VMFAULT \<equiv> 1"
abbreviation KFD_SMI_EVENT_THERMAL_THROTTLE :: nat where "KFD_SMI_EVENT_THERMAL_THROTTLE \<equiv> 2"
abbreviation KFD_SMI_EVENT_GPU_PRE_RESET :: nat where "KFD_SMI_EVENT_GPU_PRE_RESET \<equiv> 3"
abbreviation KFD_SMI_EVENT_GPU_POST_RESET :: nat where "KFD_SMI_EVENT_GPU_POST_RESET \<equiv> 4"

definition wants :: "nat \<Rightarrow> kfd_smi_client \<Rightarrow> bool" where
  "wants smi_event c \<longleftrightarrow> cl_events c AND push_bit (smi_event - 1) 1 \<noteq> 0"

definition has_room :: "u8 list \<Rightarrow> kfd_smi_client \<Rightarrow> bool" where
  "has_room msg c \<longleftrightarrow> length msg \<le> kfifo_size (cl_fifo c) - length (kfifo_data (cl_fifo c))"

definition deliver :: "nat \<Rightarrow> u8 list \<Rightarrow> kfd_smi_client \<Rightarrow> kfd_smi_client" where
  "deliver smi_event msg c =
     (if \<not> wants smi_event c then c
      else if has_room msg c then c\<lparr>cl_fifo := snd (kfifo_in (cl_fifo c) msg), cl_wakeups := cl_wakeups c + 1\<rparr>
      else c)"

definition add_event_to_kfifo :: "nat \<Rightarrow> u8 list \<Rightarrow> smi_dev \<Rightarrow> smi_dev" where
  "add_event_to_kfifo smi_event msg d = d\<lparr>smi_clients := map (deliver smi_event msg) (smi_clients d)\<rparr>"

text \<open>A number in hexadecimal, as \<open>%x\<close> prints it, and the text that \<open>snprintf\<close> leaves in a buffer: the code copies as many bytes
  as the text needs, which is outside the buffer when it is longer than that.\<close>

definition hex_digit :: "nat \<Rightarrow> u8" where
  "hex_digit n = of_nat (if n < 10 then 48 + n else 87 + n)"

fun hex :: "nat \<Rightarrow> u8 list" where
  "hex n = (if n < 16 then [hex_digit n] else hex (n div 16) @ [hex_digit (n mod 16)])"

declare hex.simps [simp del]

definition message :: "nat \<Rightarrow> u8 list \<Rightarrow> u8 list access" where
  "message sz txt = (if sz < length txt then Fault else Inside (take (length txt) (take (sz - 1) txt @ [0])))"

definition send :: "nat \<Rightarrow> nat \<Rightarrow> u8 list \<Rightarrow> smi_dev \<Rightarrow> smi_dev access" where
  "send smi_event sz txt d = (case message sz txt of Fault \<Rightarrow> Fault | Inside msg \<Rightarrow> Inside (add_event_to_kfifo smi_event msg d))"

definition kfd_smi_event_update_gpu_reset :: "bool \<Rightarrow> smi_dev \<Rightarrow> smi_dev access" where
  "kfd_smi_event_update_gpu_reset post_reset d =
     (if smi_clients d = [] then Inside d
      else
        let event = (if post_reset then KFD_SMI_EVENT_GPU_POST_RESET else KFD_SMI_EVENT_GPU_PRE_RESET);
            d1 = (if post_reset then d else d\<lparr>reset_seq_num := reset_seq_num d + 1\<rparr>)
        in send event 12 (hex event @ [32] @ hex (unat (reset_seq_num d1)) @ [10]) d1)"

definition kfd_smi_event_update_thermal_throttling :: "u32 \<Rightarrow> u64 \<Rightarrow> smi_dev \<Rightarrow> smi_dev access" where
  "kfd_smi_event_update_thermal_throttling throttle_bitmask throttle_int_counter d =
     (if smi_clients d = [] then Inside d
      else send KFD_SMI_EVENT_THERMAL_THROTTLE 29
             (hex KFD_SMI_EVENT_THERMAL_THROTTLE @ [32] @ hex (unat throttle_bitmask) @ [58] @ hex (unat throttle_int_counter) @ [10]) d)"

definition kfd_smi_event_update_vmfault :: "u32 \<Rightarrow> u8 list \<Rightarrow> smi_dev \<Rightarrow> smi_dev access" where
  "kfd_smi_event_update_vmfault pid task_name d =
     (if smi_clients d = [] then Inside d
      else if pid = 0 then Inside d
      else send KFD_SMI_EVENT_VMFAULT 29 (hex KFD_SMI_EVENT_VMFAULT @ [32] @ hex (unat pid) @ [58] @ task_name @ [10]) d)"

section \<open>Messages fit\<close>

lemma length_hex: "n < 16 ^ Suc k \<Longrightarrow> length (hex n) \<le> Suc k"
proof (induction k arbitrary: n)
  case 0
  then show ?case by (subst hex.simps) simp
next
  case (Suc k)
  show ?case
  proof (cases "n < 16")
    case False
    have "n div 16 < 16 ^ Suc k" using Suc.prems by (simp add: less_mult_imp_div_less)
    then show ?thesis using Suc.IH [of "n div 16"] False by (subst hex.simps) simp
  qed (subst hex.simps, simp)
qed

lemma length_hex_u32: "length (hex (unat (w :: u32))) \<le> 8"
  using length_hex [of "unat w" 7] unsigned_less [of w] by simp

lemma length_hex_u64: "length (hex (unat (w :: u64))) \<le> 16"
  using length_hex [of "unat w" 15] unsigned_less [of w] by simp

lemma hex_small: "n < 16 \<Longrightarrow> hex n = [hex_digit n]"
  by (subst hex.simps) simp

lemma message_fits: "length txt < sz \<Longrightarrow> message sz txt = Inside txt"
  by (simp add: message_def)

text \<open>No message leaves its buffer; the name of a task has at most 15 characters.\<close>

lemma messages_in_buffer:
  "kfd_smi_event_update_gpu_reset post_reset d \<noteq> Fault"
  "kfd_smi_event_update_thermal_throttling bitmask counter d \<noteq> Fault"
  "length task_name \<le> 15 \<Longrightarrow> kfd_smi_event_update_vmfault pid task_name d \<noteq> Fault"
  using length_hex_u32 [of "reset_seq_num d"] length_hex_u32 [of "reset_seq_num d + 1"] length_hex_u32 [of bitmask] length_hex_u64 [of counter]
    length_hex_u32 [of pid]
  by (simp_all add: kfd_smi_event_update_gpu_reset_def kfd_smi_event_update_thermal_throttling_def kfd_smi_event_update_vmfault_def
      send_def hex_small message_fits Let_def)

section \<open>The stream of a client\<close>

text \<open>The runs of a client: its state, the messages that were accepted for it and the bytes that were taken out.\<close>

inductive client_run :: "kfd_smi_client \<Rightarrow> u8 list list \<Rightarrow> u8 list \<Rightarrow> bool" where
  run_open: "client_run (new_client file) [] []"
| run_write: "client_run c ms out \<Longrightarrow> kfd_smi_ev_write user_ok user c = (r, c') \<Longrightarrow> client_run c' ms out"
| run_event: "client_run c ms out \<Longrightarrow> client_run (deliver ev msg c) (if wants ev c \<and> has_room msg c then ms @ [msg] else ms) out"
| run_read: "client_run c ms out \<Longrightarrow> kfd_smi_ev_read alloc_ok copy_ok sz c = (r, bs, c') \<Longrightarrow> client_run c' ms (out @ bs)"

lemma kfd_smi_ev_read_stream:
  "kfd_smi_ev_read alloc_ok copy_ok sz c = (r, bs, c') \<Longrightarrow>
     bs @ kfifo_data (cl_fifo c') = kfifo_data (cl_fifo c) \<and> kfifo_size (cl_fifo c') = kfifo_size (cl_fifo c)"
  by (auto simp: kfd_smi_ev_read_def kfifo_out_def Let_def split: if_splits)

lemma client_run_stream:
  "client_run c ms out \<Longrightarrow> out @ kfifo_data (cl_fifo c) = concat ms \<and> kfifo_size (cl_fifo c) = MAX_KFIFO_SIZE \<and> length (kfifo_data (cl_fifo c)) \<le> MAX_KFIFO_SIZE"
proof (induction rule: client_run.induct)
  case (run_open fl)
  show ?case by (simp add: new_client_def)
next
  case (run_write c ms out user_ok user r c')
  then show ?case by (auto simp: kfd_smi_ev_write_def split: if_splits)
next
  case (run_event c ms out ev msg)
  then show ?case by (auto simp: deliver_def has_room_def kfifo_in_def Let_def)
next
  case (run_read c ms out alloc_ok copy_ok sz r bs c')
  then show ?case using kfd_smi_ev_read_stream [of alloc_ok copy_ok sz c r bs c']
    by (metis append_assoc le_add2 le_trans length_append)
qed



end
