(* ===== verification/Spec2Isabelle.thy ===== *)
theory Spec2Isabelle
  imports Opu_Pasid Opu_Interrupt Opu_Pqm_Props Opu_Events_Props Opu_Svm_Requests Opu_Flat_Memory Opu_Smi
begin

text \<open>
  The OPU kernel driver of codrive (\<open>src/src/cmdio/linux\<close>), the C core of the repository: it gives the
  processes of a host access to the queues, the memory and the events of OPU devices.

  \<^bold>\<open>The parts and how they interact.\<close> A device (\<open>opu_device.c\<close>) owns a doorbell aperture
  (\<open>opu_doorbell.c\<close>), a buffer in GTT memory that a sub-allocator divides (\<open>opu_device.c\<close>), an
  interrupt ring between the top half and a work queue (\<open>opu_interrupt.c\<close>), and a device queue manager
  (\<open>opu_device_queue_manager.c\<close>). The queue manager creates, updates, evicts, restores and destroys user
  queues (\<open>opu_queue.c\<close>) for the processes of the device, either by itself (\<open>nocpsch\<close>) or through the
  hardware scheduler (\<open>cpsch\<close>), to which it talks over a kernel queue (\<open>opu_kernel_queue.c\<close>), whose ring
  and pointers live in the GTT buffer and whose doorbell is in the kernel slice of the aperture. The
  process queue manager (\<open>opu_process_queue_manager.c\<close>) names the queues of a process by ids and calls the
  queue managers of the devices they are on. The bottom half of the interrupts signals the events (\<open>opu_events.c\<close>) of the process that a PASID
  (\<open>opu_pasid.c\<close>) names, and wakes the threads that wait for them. The ranges of shared virtual memory
  (\<open>opu_svm.c\<close>) hold the attributes of the pages of a process. The topology (\<open>opu_topology.c\<close>) is the list of the
  nodes of the host and of the GPUs, which the driver builds by parsing tables of bytes (\<open>opu_crat.c\<close>) that the
  firmware has or that the driver itself writes; from it come the apertures of a process on each GPU
  (\<open>opu_flat_memory.c\<close>). Other processes follow the events of a device as a stream of text (\<open>opu_smi_events.c\<close>).

  \<^bold>\<open>The theories\<close>, in the order of their imports:
  \<^item> \<open>Opu_Prelude\<close>: types of the C code, error codes, bit maps as boolean lists, the locale of an
    allocator of numbered resources and lemmas on lists, words and folds that the parts share.
  \<^item> \<open>Opu_Pasid\<close>: the limit on PASIDs and the pool behind it.
  \<^item> \<open>Opu_Dev\<close>: the records of a device that several parts use.
  \<^item> \<open>Opu_Doorbell\<close>: the doorbell aperture, the kernel and process slices and the bit maps.
  \<^item> \<open>Opu_Gtt_Sa\<close>: the sub-allocator, with the search loops of \<open>opu_gtt_sa_allocate\<close> as they are written.
  \<^item> \<open>Opu_Interrupt\<close>: the ring, its top half \<open>kgd2opu_interrupt\<close> and its bottom half.
  \<^item> \<open>Opu_Queue\<close>, \<open>Opu_Kernel_Queue\<close>: queues and the ring buffer of the kernel queue.
  \<^item> \<open>Opu_Dqm_State\<close>, \<open>Opu_Dqm_Alloc\<close>, \<open>Opu_Dqm_Ops\<close>: the state of the device queue manager, its
    allocators (hardware queues, VMIDs, SDMA queues, doorbells) and all operations of both schedulers;
    \<open>Opu_Dqm_Inv\<close>, \<open>Opu_Dqm_Steps\<close>, \<open>Opu_Dqm_Reach\<close>: its invariant and that each operation keeps it;
    \<open>Opu_Dqm_Contract\<close>: the operations table as a locale, interpreted for both schedulers, and the
    states reachable by any calls; \<open>Opu_Dqm_Props\<close>: what single operations promise.
  \<^item> \<open>Opu_Pqm\<close>: the process queue manager (\<open>opu_process_queue_manager.c\<close>), the client of the device queue
    managers; \<open>Opu_Pqm_Inv\<close>: the contract as a client sees it, interpreted for both schedulers;
    \<open>Opu_Pqm_Client\<close>: the invariant over all devices, proved in a locale over that contract;
    \<open>Opu_Pqm_Props\<close>: what the process queue manager promises.
  \<^item> \<open>Opu_Events\<close>: events, the signal page, the interrupt side and waiting; \<open>Opu_Events_Inv\<close>,
    \<open>Opu_Events_Reach\<close>, \<open>Opu_Events_Wait\<close>: the invariant and the interleavings of the threads of a
    process; \<open>Opu_Events_Props\<close>: what the events promise.
  \<^item> \<open>Opu_Svm\<close>: the ranges of shared virtual memory (\<open>opu_svm.c\<close>): splitting, overlapping requests, setting
    and reading attributes; \<open>Opu_Svm_Work\<close>: deferred work, unmapped memory, faults and the ioctl;
    \<open>Opu_Svm_Split\<close>: what a split keeps of each page; \<open>Opu_Svm_Overlap\<close>, \<open>Opu_Svm_Change\<close>: the change that a
    request computes, by an invariant of the loop over the overlapping ranges; \<open>Opu_Svm_Props\<close>: applying
    the change; \<open>Opu_Svm_Requests\<close>: what the requests promise.
  \<^item> \<open>Opu_Crat\<close>: the structures of the tables as bytes, and the parser; \<open>Opu_Vcrat\<close>: the tables that the driver
    writes for the host, and the cache tables of the chips; \<open>Opu_Crat_Codec\<close>: reading what was written, and the
    parser as a fold over entries; \<open>Opu_Crat_Props\<close>: the parser on any image; \<open>Opu_Vcrat_Cpu\<close>: the table of the
    host and what parsing it gives; \<open>Opu_Vcrat_Gpu\<close>, \<open>Opu_Vcrat_Props\<close>: the table of a GPU and that it is well formed.
  \<^item> \<open>Opu_Topology\<close>: the master list of devices, its start, lookups, adding and removing GPUs, the flags of the
    links; \<open>Opu_Topology_Props\<close>: its invariant over the life of the driver and the start on a host.
  \<^item> \<open>Opu_Flat_Memory\<close>: the apertures of a process on the GPUs of the topology (\<open>opu_flat_memory.c\<close>); \<open>Opu_Smi\<close>: the
    clients of the system management events and their streams (\<open>opu_smi_events.c\<close>).

  \<^bold>\<open>How the code is modelled.\<close> A struct is a record with the fields that the code uses, a C function a
  definition that takes the state it reads and returns its result code together with the state it
  leaves; error codes are negative integers, and \<open>None\<close> stands for \<open>NULL\<close> or, where a theory says so,
  for behaviour that C leaves undefined. Integers keep their width as words wherever they are counted
  up or down, masked or shifted. Lists of the kernel are lists, bit maps are lists of booleans, and
  objects that several lists refer to are named by numbers and kept in a map. Locks do not appear:
  each function runs as one step, which is what its lock makes of it; where the code gives a lock up,
  as in \<open>opu_wait_on_events\<close>, it is split into the steps between which others run.

  \<^bold>\<open>Parameters.\<close> What is not in the repository is an argument: the outcome of allocations, the MQD
  managers and the packet manager, register accesses of the graphics driver, the interrupt classes of
  the chips, the PASID pool, the clock. Their documented behaviour is stated as a hypothesis where a
  theorem needs it (for instance that \<open>is_active\<close> of a queue follows the MQD manager's update).

  \<^bold>\<open>What is shown.\<close> Invariants over all reachable states: the counters of the queue manager are exact
  and no queue of an evicted process is active, the ids and queues of a process agree with the lists of all
  queue managers, live GTT objects are disjoint, events, ids and wait
  queues fit together, the topology has one proximity domain per device and exact counters. Refinements: setting
  attributes of a range is an update of a map from pages, doorbells, VMIDs and hardware queue slots are exclusive and
  complete allocators, the interrupt ring is a bounded queue. Safety and liveness: packets never
  overwrite what the hardware has not fetched, apertures do not meet, no wake-up is lost, a signal wakes its waiters, waits
  for a fence end. Round trips: evict and restore, create and destroy, writing and parsing the table of the host. Errors:
  failing operations give back what they took. Where the code does something else than it means to,
  a theorem states what it does; these are also listed as findings.

  \<^bold>\<open>Loops and bounds.\<close> Loops are structural recursions or functions with a measure, so that they end by
  definition. Four loops may not end in C: the fence wait has the deadline of its clock as fuel, and it is
  shown that a clock that reaches the deadline ends it; \<open>process_termination_nocpsch\<close> has fuel, and it is
  shown that one unit for each queue is enough while the scheduler runs, and that none is enough while
  it is stopped. The loop of \<open>opu_parse_crat_table\<close> and the one of \<open>opu_init_apertures\<close> are partial functions: the second is
  shown to end for fewer than 256 devices, the first is shown to end when no subtype has
  length 0, and not to end at such a subtype. The search for a free id needs one try more than there are ids.

  \<^bold>\<open>Not modelled.\<close> Device probe, suspend and reset, sysfs and debugfs, the ioctl layer, the debugger
  support and the buffer objects are mostly calls into the kernel and the graphics driver; of the shared
  virtual memory the migration and the page tables of the GPUs are left out. The C++
  runtime, the HIP port, the simulator and vendored code are other programs.
\<close>

end
